(* ===== verification/Prelude.thy ===== *)
theory Prelude
  imports Complex_Main "HOL-Library.Word" "HOL-Library.AList" "HOL-Library.Sublist" "HOL-Library.Multiset"
begin

text \<open>
  The prelude of the development: the model's machine integers, Rust strings, the
  key-value containers (\<open>DashMap\<close> and \<open>HashMap\<close>), and the generic lemmas the component
  theories share.

  \<^item> \<open>u32\<close> and \<open>u64\<close> are machine words: \<open>+\<close> wraps, which is what the release profile
    of the workspace (\<open>Cargo.toml\<close>, no \<open>overflow-checks\<close>) does.
  \<^item> A Rust \<open>String\<close> is the list of its UTF-8 bytes (\<open>string\<close>), so \<open>length\<close> is
    \<open>str::len\<close>. Case folding and white space follow the ASCII part of the Unicode
    tables; bytes beyond ASCII are left alone.
  \<^item> A \<open>DashMap\<close> or \<open>HashMap\<close> is an association list with distinct keys. The list order
    stands for the (unspecified) iteration order of the hash map.
\<close>

named_theorems dm_simps \<open>laws of the hash-map model\<close>
named_theorems str_defs \<open>definitions of the string operations, for evaluation\<close>

section \<open>Machine integers\<close>

type_synonym u8 = "8 word"
type_synonym u16 = "16 word"
type_synonym u32 = "32 word"
type_synonym u64 = "64 word"
type_synonym usize = nat
type_synonym uuid = nat

definition saturating_add :: "'a::len word \<Rightarrow> 'a word \<Rightarrow> 'a word" where
  "saturating_add a b = (if unat a + unat b < 2 ^ LENGTH('a) then a + b else - 1)"

definition saturating_sub :: "'a::len word \<Rightarrow> 'a word \<Rightarrow> 'a word" where
  "saturating_sub a b = (if b \<le> a then a - b else 0)"

definition saturating_mul :: "'a::len word \<Rightarrow> 'a word \<Rightarrow> 'a word" where
  "saturating_mul a b = (if unat a * unat b < 2 ^ LENGTH('a) then a * b else - 1)"

lemma unat_plus_one_u32: "unat (x :: u32) + 1 < 2 ^ 32 \<Longrightarrow> unat (x + 1) = unat x + 1"
  by (simp add: unat_word_ariths)

lemma unat_lt_2p: "unat (x :: 'a::len word) < 2 ^ LENGTH('a)"
  by (rule unsigned_less)

lemma unat_plus_no_wrap:
  fixes a b :: "'a::len word"
  shows "unat a + unat b < 2 ^ LENGTH('a) \<Longrightarrow> unat (a + b) = unat a + unat b"
  by (simp add: unat_word_ariths)

lemma unat_saturating_sub: "unat (saturating_sub a b) = unat a - unat b"
  by (simp add: saturating_sub_def unat_sub word_le_nat_alt)

lemma unat_minus_one_word: "unat (- 1 :: 'a::len word) = 2 ^ LENGTH('a) - 1"
  by (simp add: unsigned_minus_1_eq_mask mask_eq_exp_minus_1)

lemma unat_saturating_mul: "unat (saturating_mul a b) = min (unat a * unat b) (2 ^ LENGTH('a) - 1)"
  for a b :: "'a::len word"
  by (auto simp: saturating_mul_def unat_word_ariths unat_minus_one_word)

lemma saturating_add_one_pos: "saturating_add (x :: 'a::len word) 1 \<noteq> 0"
proof (cases "unat x + unat (1 :: 'a word) < 2 ^ LENGTH('a)")
  case True
  then have "unat (x + 1) = unat x + 1"
    by (simp add: unat_plus_no_wrap)
  with True show ?thesis
    by (metis add_is_0 one_neq_zero saturating_add_def unat_0)
next
  case False
  then show ?thesis by (simp add: saturating_add_def)
qed

section \<open>Time\<close>

text \<open>
  An \<open>Instant\<close> and a \<open>Duration\<close> are nanoseconds. \<open>Instant::elapsed\<close> saturates at zero, as
  subtraction on \<open>nat\<close> does. Operations that read the clock take the time as an argument.
\<close>

type_synonym instant = nat
type_synonym duration = nat

definition from_secs :: "nat \<Rightarrow> duration" where
  "from_secs n = n * 1000000000"

definition as_secs :: "duration \<Rightarrow> nat" where
  "as_secs d = d div 1000000000"

definition elapsed :: "instant \<Rightarrow> instant \<Rightarrow> duration" where
  "elapsed now start = now - start"

lemma as_secs_from_secs [simp]: "as_secs (from_secs n) = n"
  by (simp add: as_secs_def from_secs_def)

lemma elapsed_self [simp]: "elapsed t t = 0"
  by (simp add: elapsed_def)

section \<open>Floating point comparisons\<close>

text \<open>
  An \<open>f64\<close> as far as the modelled code looks at it: a finite value, an infinity or NaN.
  Comparisons with NaN are false.
\<close>

datatype f64 = Finite rat | PosInf | NegInf | NaN

fun f64_ge :: "f64 \<Rightarrow> f64 \<Rightarrow> bool" where
  "f64_ge NaN _ = False"
| "f64_ge _ NaN = False"
| "f64_ge PosInf _ = True"
| "f64_ge _ NegInf = True"
| "f64_ge (Finite a) (Finite b) = (a \<ge> b)"
| "f64_ge _ _ = False"

text \<open>The partial order of \<open>PartialOrd\<close>: not reflexive at NaN, transitive.\<close>

instantiation f64 :: ord
begin

definition less_eq_f64 :: "f64 \<Rightarrow> f64 \<Rightarrow> bool" where
  "less_eq_f64 a b = f64_ge b a"

definition less_f64 :: "f64 \<Rightarrow> f64 \<Rightarrow> bool" where
  "less_f64 a b = (f64_ge b a \<and> \<not> f64_ge a b)"

instance ..

end

lemma f64_le_simps [simp]:
  "NaN \<le> x \<longleftrightarrow> False"
  "x \<le> NaN \<longleftrightarrow> False"
  "x \<le> PosInf \<longleftrightarrow> x \<noteq> NaN"
  "NegInf \<le> x \<longleftrightarrow> x \<noteq> NaN"
  "Finite a \<le> Finite b \<longleftrightarrow> a \<le> b"
  "PosInf \<le> Finite b \<longleftrightarrow> False"
  "Finite a \<le> NegInf \<longleftrightarrow> False"
  "PosInf \<le> NegInf \<longleftrightarrow> False"
  by (cases x; simp add: less_eq_f64_def)+

lemma f64_le_trans: "(a :: f64) \<le> b \<Longrightarrow> b \<le> c \<Longrightarrow> a \<le> c"
  by (cases a; cases b; cases c) auto

text \<open>The cast \<open>as u64\<close> of a finite \<open>f64\<close>: towards zero, saturating.\<close>

definition cast_u64 :: "rat \<Rightarrow> u64" where
  "cast_u64 r = (if r \<le> 0 then 0 else if r \<ge> 2 ^ 64 then - 1 else of_int \<lfloor>r\<rfloor>)"

lemma unat_cast_u64: "0 \<le> r \<Longrightarrow> r < 2 ^ 64 \<Longrightarrow> unat (cast_u64 r) = nat \<lfloor>r\<rfloor>"
proof -
  assume r: "0 \<le> r" "r < 2 ^ 64"
  then have "0 \<le> \<lfloor>r\<rfloor>" "\<lfloor>r\<rfloor> < 2 ^ 64" by (simp_all add: floor_less_iff)
  then have "unat (of_int \<lfloor>r\<rfloor> :: u64) = nat \<lfloor>r\<rfloor>"
    by (simp add: unat_eq_nat_uint uint_word_of_int)
  with r show ?thesis by (auto simp: cast_u64_def)
qed

lemma cast_u64_ge:
  assumes "rat_of_nat n \<le> x" "n < 2 ^ 64"
  shows "n \<le> unat (cast_u64 x)"
proof (cases "x < 2 ^ 64")
  case True
  have "0 \<le> x" using assms(1) of_nat_0_le_iff order_trans by blast
  moreover have "int n \<le> \<lfloor>x\<rfloor>" using assms(1) by (simp add: le_floor_iff)
  ultimately show ?thesis using unat_cast_u64 [OF _ True] by simp
next
  case False
  then have "cast_u64 x = - 1" by (simp add: cast_u64_def not_less)
  then show ?thesis using assms(2) by (simp add: unat_minus_one_word)
qed

section \<open>Strings\<close>

definition starts_with :: "string \<Rightarrow> string \<Rightarrow> bool" where [str_defs]:
  "starts_with s p = (take (length p) s = p)"

definition ends_with :: "string \<Rightarrow> string \<Rightarrow> bool" where [str_defs]:
  "ends_with s x = (length x \<le> length s \<and> drop (length s - length x) s = x)"

fun str_contains :: "string \<Rightarrow> string \<Rightarrow> bool" where
  "str_contains [] p = (p = [])"
| "str_contains (c # cs) p = (starts_with (c # cs) p \<or> str_contains cs p)"

lemma starts_with_iff: "starts_with s p \<longleftrightarrow> (\<exists>r. s = p @ r)"
  by (metis append_eq_conv_conj append_take_drop_id starts_with_def)

lemma ends_with_iff: "ends_with s x \<longleftrightarrow> (\<exists>r. s = r @ x)"
  unfolding ends_with_def
  by (metis append_eq_append_conv append_take_drop_id diff_diff_cancel length_append
      length_drop le_add2)

lemma str_contains_iff: "str_contains s p \<longleftrightarrow> (\<exists>a b. s = a @ p @ b)"
proof (induction s)
  case Nil
  then show ?case by auto
next
  case (Cons c cs)
  have "(\<exists>a b. c # cs = a @ p @ b) \<longleftrightarrow> (\<exists>b. c # cs = p @ b) \<or> (\<exists>a b. cs = a @ p @ b)"
    by (metis Cons_eq_append_conv append_Cons append_Nil)
  then show ?case using Cons.IH by (simp add: starts_with_iff)
qed

text \<open>\<open>str::split\<close> on a character and \<open>str::find\<close> of a pattern.\<close>

fun split_on :: "char \<Rightarrow> string \<Rightarrow> string list" where
  "split_on c [] = [[]]"
| "split_on c (x # xs) =
     (if x = c then [] # split_on c xs
      else (case split_on c xs of [] \<Rightarrow> [[x]] | p # ps \<Rightarrow> (x # p) # ps))"

fun str_find :: "string \<Rightarrow> string \<Rightarrow> nat option" where
  "str_find [] p = (if p = [] then Some 0 else None)"
| "str_find (c # cs) p = (if starts_with (c # cs) p then Some 0 else map_option Suc (str_find cs p))"

lemma str_find_Some: "str_find t p = Some k \<Longrightarrow> t = take k t @ p @ drop (k + length p) t"
proof (induction t p arbitrary: k rule: str_find.induct)
  case (2 c cs p)
  then show ?case
    by (auto simp: starts_with_iff split: if_splits)
qed (auto split: if_splits)

lemma str_find_leftmost: "t = a @ p @ b \<Longrightarrow> \<exists>k d. str_find t p = Some k \<and> drop (k + length p) t = d @ b"
proof (induction t p arbitrary: a rule: str_find.induct)
  case (2 c cs p)
  show ?case
  proof (cases "starts_with (c # cs) p")
    case True
    have "length p \<le> length (a @ p)" by simp
    then have "drop (length p) (c # cs) = drop (length p) (a @ p) @ b"
      using 2(2) by (metis append.assoc drop_append diff_is_0_eq drop0)
    with True show ?thesis by auto
  next
    case False
    with 2(2) obtain a' where "a = c # a'" "cs = a' @ p @ b"
      by (cases a) (auto simp: starts_with_iff)
    with 2(1) [OF False] show ?thesis using False by auto
  qed
qed auto

lemma split_on_nonempty: "split_on c s \<noteq> []"
  by (induction s) (auto split: list.splits)

lemma split_on_free: "p \<in> set (split_on c s) \<Longrightarrow> c \<notin> set p"
  by (induction s arbitrary: p) (auto split: if_splits list.splits)

lemma split_on_two: "c \<in> set s \<Longrightarrow> \<exists>p q ps. split_on c s = p # q # ps"
  by (induction s) (auto simp: neq_Nil_conv split: list.splits, (metis neq_Nil_conv split_on_nonempty)+)

lemma str_find_first: "str_find s p = Some k \<Longrightarrow> i < k \<Longrightarrow> \<not> starts_with (drop i s) p"
proof (induction s p arbitrary: k i rule: str_find.induct)
  case (2 c cs p)
  then show ?case by (cases i) (auto split: if_splits)
qed (auto split: if_splits)

lemma str_find_none: "str_find s p = None \<longleftrightarrow> \<not> str_contains s p"
  by (induction s p rule: str_find.induct) auto

lemma str_find_none_at: "str_find s p = None \<Longrightarrow> \<not> starts_with (drop i s) p"
proof
  assume "str_find s p = None" "starts_with (drop i s) p"
  then show False
    by (metis append_take_drop_id starts_with_iff str_contains_iff str_find_none)
qed

lemma str_find_le: "str_find s p = Some k \<Longrightarrow> k + length p \<le> length s"
proof (induction s p arbitrary: k rule: str_find.induct)
  case (2 c cs p)
  then show ?case by (auto simp: starts_with_iff split: if_splits) (metis length_append length_Cons le_add1)
qed (auto split: if_splits)

lemma str_find_shrinks:
  "str_find s p = Some k \<Longrightarrow> p \<noteq> [] \<Longrightarrow> length s - (k + length p) < length s"
  using str_find_le [of s p k] by (cases p; cases s) auto

text \<open>\<open>[String]::join\<close>.\<close>

fun join_with :: "string \<Rightarrow> string list \<Rightarrow> string" where
  "join_with sep [] = []"
| "join_with sep [x] = x"
| "join_with sep (x # y # ys) = x @ sep @ join_with sep (y # ys)"

definition char_to_lower :: "char \<Rightarrow> char" where [str_defs]:
  "char_to_lower c = (let n = (of_char c :: nat) in if 65 \<le> n \<and> n \<le> 90 then char_of (n + 32) else c)"

definition to_lowercase :: "string \<Rightarrow> string" where [str_defs]:
  "to_lowercase s = map char_to_lower s"

definition char_to_upper :: "char \<Rightarrow> char" where [str_defs]:
  "char_to_upper c = (let n = (of_char c :: nat) in if 97 \<le> n \<and> n \<le> 122 then char_of (n - 32) else c)"

definition to_uppercase :: "string \<Rightarrow> string" where [str_defs]:
  "to_uppercase s = map char_to_upper s"

definition is_space :: "char \<Rightarrow> bool" where [str_defs]:
  "is_space c = (let n = (of_char c :: nat) in n = 32 \<or> (9 \<le> n \<and> n \<le> 13))"

definition trim :: "string \<Rightarrow> string" where [str_defs]:
  "trim s = rev (dropWhile is_space (rev (dropWhile is_space s)))"

definition is_digit :: "char \<Rightarrow> bool" where
  "is_digit c = (let n = (of_char c :: nat) in 48 \<le> n \<and> n \<le> 57)"

definition is_alnum :: "char \<Rightarrow> bool" where
  "is_alnum c = (let n = (of_char c :: nat) in
     is_digit c \<or> (65 \<le> n \<and> n \<le> 90) \<or> (97 \<le> n \<and> n \<le> 122))"

definition strip_prefix :: "string \<Rightarrow> string \<Rightarrow> string option" where
  "strip_prefix p s = (if starts_with s p then Some (drop (length p) s) else None)"

definition strip_suffix :: "string \<Rightarrow> string \<Rightarrow> string option" where
  "strip_suffix x s = (if ends_with s x then Some (take (length s - length x) s) else None)"

lemma strip_suffix_append [simp]: "strip_suffix x (s @ x) = Some s"
  by (simp add: strip_suffix_def ends_with_iff)

lemma strip_prefix_append [simp]: "strip_prefix p (p @ s) = Some s"
  by (simp add: strip_prefix_def starts_with_def)

lemma trim_id:
  assumes "s \<noteq> []" "\<not> is_space (hd s)" "\<not> is_space (last s)"
  shows "trim s = s"
proof -
  have "dropWhile is_space s = s" using assms by (cases s) simp_all
  moreover have "dropWhile is_space (rev s) = rev s" using assms by (cases s rule: rev_cases) simp_all
  ultimately show ?thesis by (simp add: trim_def)
qed

lemma trim_ends:
  assumes "trim s = s" "s \<noteq> []" shows "\<not> is_space (hd s)" "\<not> is_space (last s)"
proof -
  let ?d = "dropWhile is_space s"
  have len: "length (trim s) \<le> length ?d" unfolding trim_def by (metis length_dropWhile_le length_rev)
  show hd: "\<not> is_space (hd s)"
  proof
    assume "is_space (hd s)"
    then have "length ?d < length s" using assms(2) by (cases s) (auto simp: length_dropWhile_le le_imp_less_Suc)
    then show False using len assms(1) by simp
  qed
  show "\<not> is_space (last s)"
  proof
    assume sp: "is_space (last s)"
    have "?d = s" using hd assms(2) by (cases s) auto
    then have "trim s = rev (dropWhile is_space (rev s))" by (simp add: trim_def)
    moreover have "length (dropWhile is_space (rev s)) < length s"
    proof (cases s rule: rev_cases)
      case (snoc t c)
      then show ?thesis using sp length_dropWhile_le [of is_space "rev t"] by simp
    qed (use assms(2) in simp)
    ultimately show False using assms(1) by (metis length_rev nat_neq_iff)
  qed
qed

lemma trim_pad:
  assumes "trim s = s" "s \<noteq> []" shows "trim (CHR '' '' # s) = s" "trim (s @ '' '') = s"
proof -
  show "trim (CHR '' '' # s) = s" using assms(1) by (simp add: trim_def is_space_def)
  have "dropWhile is_space (s @ '' '') = s @ '' ''" using trim_ends [OF assms] assms(2) by (cases s) simp_all
  moreover have "dropWhile is_space (rev s) = rev s"
    using trim_ends [OF assms] assms(2) by (cases s rule: rev_cases) simp_all
  ultimately show "trim (s @ '' '') = s" by (simp add: trim_def is_space_def)
qed

definition trim_end :: "string \<Rightarrow> string" where [str_defs]:
  "trim_end s = rev (dropWhile is_space (rev s))"

text \<open>\<open>str::split_once\<close>, and \<open>str::lines\<close>: a line ends before a line feed, and before a carriage
  return in front of it; an empty last line is not counted.\<close>

definition split_once :: "string \<Rightarrow> string \<Rightarrow> (string \<times> string) option" where
  "split_once s p = map_option (\<lambda>k. (take k s, drop (k + length p) s)) (str_find s p)"

definition newline :: char where
  "newline = CHR 0x0A"

definition drop_cr :: "string \<Rightarrow> string" where
  "drop_cr l = (if l \<noteq> [] \<and> last l = CHR 0x0D then butlast l else l)"

definition str_lines :: "string \<Rightarrow> string list" where
  "str_lines s = (let ps = split_on newline s in map drop_cr (butlast ps) @ (if last ps = [] then [] else [last ps]))"

lemma join_split_on: "join_with [c] (split_on c s) = s"
proof (induction s)
  case (Cons x s)
  obtain p ps where ps: "split_on c s = p # ps" by (cases "split_on c s") (simp add: split_on_nonempty)
  with Cons show ?case by (cases ps) auto
qed simp

lemma split_on_unused: "c \<notin> set x \<Longrightarrow> split_on c x = [x]"
  by (induction x) auto

lemma split_on_append: "c \<notin> set x \<Longrightarrow> split_on c (x @ c # r) = x # split_on c r"
  by (induction x) auto

lemma split_on_join:
  "xs \<noteq> [] \<Longrightarrow> \<forall>x\<in>set xs. c \<notin> set x \<Longrightarrow> split_on c (join_with [c] xs) = xs"
proof (induction xs)
  case (Cons x xs)
  then show ?case by (cases xs) (simp_all add: split_on_unused split_on_append)
qed simp

text \<open>Lines that hold no line feed and do not end in a carriage return are read back.\<close>

definition plain_line :: "string \<Rightarrow> bool" where
  "plain_line l \<longleftrightarrow> newline \<notin> set l \<and> drop_cr l = l"

lemma drop_cr_id: "drop_cr l = l \<longleftrightarrow> l = [] \<or> last l \<noteq> CHR 0x0D"
proof -
  have "l \<noteq> [] \<Longrightarrow> butlast l \<noteq> l" by (metis append_butlast_last_id not_Cons_self self_append_conv)
  then show ?thesis by (simp add: drop_cr_def)
qed

lemma plain_cons: "plain_line l \<Longrightarrow> c \<noteq> newline \<Longrightarrow> c \<noteq> CHR 0x0D \<Longrightarrow> plain_line (c # l)"
  by (auto simp: plain_line_def drop_cr_id)

lemma str_lines_join:
  assumes "\<forall>l\<in>set ls. plain_line l" "ls = [] \<or> last ls \<noteq> []"
  shows "str_lines (join_with [newline] ls) = ls"
proof (cases "ls = []")
  case False
  then have "split_on newline (join_with [newline] ls) = ls"
    using assms(1) by (intro split_on_join) (auto simp: plain_line_def)
  moreover have "map drop_cr (butlast ls) = butlast ls"
    using assms(1) by (intro map_idI) (auto simp: plain_line_def dest: in_set_butlastD)
  ultimately show ?thesis using False assms(2) by (simp add: str_lines_def)
qed (simp add: str_lines_def)

text \<open>\<open>str::split_whitespace\<close>: the maximal runs of characters that are not white space.\<close>

fun split_ws :: "string \<Rightarrow> string \<Rightarrow> string list" where
  "split_ws [] acc = (if acc = [] then [] else [rev acc])"
| "split_ws (c # cs) acc =
     (if is_space c then (if acc = [] then split_ws cs [] else rev acc # split_ws cs [])
      else split_ws cs (c # acc))"

definition split_whitespace :: "string \<Rightarrow> string list" where
  "split_whitespace s = split_ws s []"

definition in_quotes :: "string \<Rightarrow> string" where
  "in_quotes s = CHR 0x27 # s @ [CHR 0x27]"

text \<open>Decimal rendering of an unsigned number (\<open>format!\<close> with \<open>{}\<close>).\<close>

fun show_nat :: "nat \<Rightarrow> string" where
  "show_nat n = (if n < 10 then [char_of (48 + n)] else show_nat (n div 10) @ [char_of (48 + n mod 10)])"

declare show_nat.simps [simp del]

definition show_word :: "'a::len word \<Rightarrow> string" where
  "show_word w = show_nat (unat w)"

text \<open>\<open>str::parse::<u64>\<close>: an optional plus sign and decimal digits, without overflow.\<close>

definition digits_value :: "string \<Rightarrow> nat" where
  "digits_value ds = foldl (\<lambda>n c. 10 * n + (of_char c - 48)) 0 ds"

definition parse_nat :: "string \<Rightarrow> nat option" where
  "parse_nat s =
     (let ds = (if s \<noteq> [] \<and> hd s = CHR ''+'' then tl s else s)
      in if ds \<noteq> [] \<and> list_all is_digit ds then Some (digits_value ds) else None)"

definition parse_u64 :: "string \<Rightarrow> u64 option" where
  "parse_u64 s = Option.bind (parse_nat s) (\<lambda>n. if n < 2 ^ 64 then Some (of_nat n) else None)"

definition parse_u32 :: "string \<Rightarrow> u32 option" where
  "parse_u32 s = Option.bind (parse_nat s) (\<lambda>n. if n < 2 ^ 32 then Some (of_nat n) else None)"

definition parse_u8 :: "string \<Rightarrow> nat option" where
  "parse_u8 s = Option.bind (parse_nat s) (\<lambda>n. if n < 256 then Some n else None)"

lemma digit_char: "(k :: nat) < 10 \<Longrightarrow> of_char (char_of (48 + k) :: char) = 48 + k"
  by (simp add: of_char_of)

lemma show_nat_digits: "show_nat n \<noteq> [] \<and> list_all is_digit (show_nat n) \<and> digits_value (show_nat n) = n"
proof (induction n rule: show_nat.induct)
  case (1 n)
  show ?case
  proof (cases "n < 10")
    case True
    then show ?thesis by (simp add: show_nat.simps is_digit_def digit_char digits_value_def)
  next
    case False
    have "digits_value (show_nat (n div 10) @ [char_of (48 + n mod 10)]) = 10 * (n div 10) + n mod 10"
      using 1 [OF False] digit_char [of "n mod 10"] by (simp add: digits_value_def)
    moreover have "is_digit (char_of (48 + n mod 10))"
      using digit_char [of "n mod 10"] by (simp add: is_digit_def)
    ultimately show ?thesis
      using 1 [OF False] False by (subst (1 2 3) show_nat.simps) simp
  qed
qed

lemma parse_show_nat: "parse_nat (show_nat n) = Some n"
proof -
  have "hd (show_nat n) \<noteq> CHR ''+''"
    using show_nat_digits [of n] by (cases "show_nat n") (auto simp: is_digit_def)
  then show ?thesis using show_nat_digits [of n] by (simp add: parse_nat_def Let_def)
qed

lemma parse_show_u64: "parse_u64 (show_word w) = Some w"
  using unat_lt_2p [of w] by (simp add: parse_u64_def show_word_def parse_show_nat)

text \<open>
  \<open>str::replace\<close> for a non-empty pattern: left to right, non-overlapping. The first argument
  of the worker counts the bytes of a match still to skip.
\<close>

fun replace_from :: "nat \<Rightarrow> string \<Rightarrow> string \<Rightarrow> string \<Rightarrow> string" where
  "replace_from _ _ _ [] = []"
| "replace_from (Suc k) pat to (c # cs) = replace_from k pat to cs"
| "replace_from 0 pat to (c # cs) =
     (if starts_with (c # cs) pat then to @ replace_from (length pat - 1) pat to cs
      else c # replace_from 0 pat to cs)"

definition str_replace :: "string \<Rightarrow> string \<Rightarrow> string \<Rightarrow> string" where
  "str_replace s pat to = replace_from 0 pat to s"

lemma replace_from_absent: "\<not> str_contains s pat \<Longrightarrow> replace_from 0 pat to s = s"
  by (induction s) auto

lemma str_replace_absent: "\<not> str_contains s pat \<Longrightarrow> str_replace s pat to = s"
  by (simp add: str_replace_def replace_from_absent)

text \<open>Where a list is split around an element that one part of another split lacks.\<close>

lemma append_eq_split_left:
  "xs @ ys = zs @ c # ws \<Longrightarrow> c \<notin> set xs \<Longrightarrow> \<exists>us. zs = xs @ us"
  by (auto simp: append_eq_append_conv2 append_eq_Cons_conv)

lemma append_eq_split_right:
  "xs @ ys = zs @ c # ws \<Longrightarrow> c \<notin> set ys \<Longrightarrow> \<exists>us. ws = us @ ys"
  by (auto simp: append_eq_append_conv2 append_eq_Cons_conv Cons_eq_append_conv)

section \<open>Hash maps\<close>

type_synonym ('k, 'v) dashmap = "('k \<times> 'v) list"

definition dm_get :: "('k, 'v) dashmap \<Rightarrow> 'k \<Rightarrow> 'v option" where
  "dm_get m k = map_of m k"

definition dm_insert :: "'k \<Rightarrow> 'v \<Rightarrow> ('k, 'v) dashmap \<Rightarrow> ('k, 'v) dashmap" where
  "dm_insert k v m = AList.update k v m"

definition dm_remove :: "'k \<Rightarrow> ('k, 'v) dashmap \<Rightarrow> ('k, 'v) dashmap" where
  "dm_remove k m = AList.delete k m"

definition dm_keys :: "('k, 'v) dashmap \<Rightarrow> 'k list" where
  "dm_keys m = map fst m"

definition dm_values :: "('k, 'v) dashmap \<Rightarrow> 'v list" where
  "dm_values m = map snd m"

text \<open>\<open>get_mut\<close> followed by a write, and \<open>entry(k).or_insert(d)\<close> followed by a write.\<close>

definition dm_modify :: "'k \<Rightarrow> ('v \<Rightarrow> 'v) \<Rightarrow> ('k, 'v) dashmap \<Rightarrow> ('k, 'v) dashmap" where
  "dm_modify k f m = (case dm_get m k of None \<Rightarrow> m | Some v \<Rightarrow> dm_insert k (f v) m)"

definition dm_entry :: "('k, 'v) dashmap \<Rightarrow> 'k \<Rightarrow> 'v \<Rightarrow> 'v" where
  "dm_entry m k d = (case dm_get m k of None \<Rightarrow> d | Some v \<Rightarrow> v)"

definition dm_wf :: "('k, 'v) dashmap \<Rightarrow> bool" where
  "dm_wf m = distinct (map fst m)"

lemma dm_get_empty [simp, dm_simps]: "dm_get [] k = None"
  by (simp add: dm_get_def)

lemma dm_get_insert [simp, dm_simps]: "dm_get (dm_insert k v m) j = (if j = k then Some v else dm_get m j)"
  by (simp add: dm_get_def dm_insert_def update_conv')

lemma dm_get_remove [simp, dm_simps]: "dm_get (dm_remove k m) j = (if j = k then None else dm_get m j)"
  by (simp add: dm_get_def dm_remove_def delete_conv')

lemma dm_get_modify [simp, dm_simps]:
  "dm_get (dm_modify k f m) j = (if j = k then map_option f (dm_get m k) else dm_get m j)"
  by (auto simp: dm_modify_def split: option.splits)

lemma dm_wf_empty [simp, dm_simps]: "dm_wf []"
  by (simp add: dm_wf_def)

lemma dm_wf_insert [simp, dm_simps]: "dm_wf m \<Longrightarrow> dm_wf (dm_insert k v m)"
  by (simp add: dm_wf_def dm_insert_def distinct_update)

lemma dm_wf_remove [simp, dm_simps]: "dm_wf m \<Longrightarrow> dm_wf (dm_remove k m)"
  by (simp add: dm_wf_def dm_remove_def distinct_delete)

lemma dm_wf_modify [simp, dm_simps]: "dm_wf m \<Longrightarrow> dm_wf (dm_modify k f m)"
  by (simp add: dm_modify_def split: option.splits)

lemma dm_get_in: "dm_get m k = Some v \<Longrightarrow> (k, v) \<in> set m"
  by (simp add: dm_get_def map_of_SomeD)

lemma dm_in_get: "dm_wf m \<Longrightarrow> (k, v) \<in> set m \<Longrightarrow> dm_get m k = Some v"
  by (simp add: dm_get_def dm_wf_def)

lemma dm_get_filter:
  assumes "dm_wf m"
  shows "dm_get (filter P m) k = (case dm_get m k of None \<Rightarrow> None | Some v \<Rightarrow> if P (k, v) then Some v else None)"
proof (cases "dm_get m k")
  case None
  then have "dm_get (filter P m) k = None"
    by (auto simp: dm_get_def map_of_eq_None_iff)
  then show ?thesis using None by simp
next
  case (Some v)
  have wf: "dm_wf (filter P m)" using assms by (simp add: dm_wf_def distinct_map_filter)
  show ?thesis
  proof (cases "P (k, v)")
    case True
    then show ?thesis using Some dm_in_get [OF wf, of k v] dm_get_in [OF Some] by simp
  next
    case False
    have "dm_get (filter P m) k = None"
    proof (rule ccontr)
      assume "dm_get (filter P m) k \<noteq> None"
      then obtain w where "dm_get (filter P m) k = Some w" by auto
      from dm_get_in [OF this] have "(k, w) \<in> set m" "P (k, w)" by auto
      then show False using dm_in_get [OF assms] Some False by fastforce
    qed
    then show ?thesis using Some False by simp
  qed
qed

lemma dm_values_get:
  assumes "dm_wf m"
  shows "v \<in> set (dm_values m) \<longleftrightarrow> (\<exists>k. dm_get m k = Some v)"
proof
  assume "v \<in> set (dm_values m)"
  then obtain k where "(k, v) \<in> set m"
    by (auto simp: dm_values_def)
  then show "\<exists>k. dm_get m k = Some v"
    using dm_in_get [OF assms] by blast
next
  assume "\<exists>k. dm_get m k = Some v"
  then obtain k where "(k, v) \<in> set m"
    using dm_get_in by fastforce
  then have "snd (k, v) \<in> snd ` set m"
    by (rule imageI)
  then show "v \<in> set (dm_values m)"
    by (simp add: dm_values_def)
qed

lemma dm_keys_get: "k \<in> set (dm_keys m) \<longleftrightarrow> dm_get m k \<noteq> None"
  by (auto simp: dm_keys_def dm_get_def map_of_eq_None_iff)

lemma dm_insert_fresh: "dm_get m k = None \<Longrightarrow> dm_insert k v m = m @ [(k, v)]"
  by (simp add: dm_get_def dm_insert_def map_of_eq_None_iff update_nonempty)
     (induction m, auto)

text \<open>\<open>Option::or\<close>.\<close>

fun or_else :: "'a option \<Rightarrow> 'a option \<Rightarrow> 'a option" where
  "or_else (Some x) _ = Some x"
| "or_else None y = y"

text \<open>The first of several answers.\<close>

fun first_some :: "'a option list \<Rightarrow> 'a option" where
  "first_some [] = None"
| "first_some (x # xs) = or_else x (first_some xs)"

lemma or_else_None [simp]: "or_else x None = x"
  by (cases x) simp_all

lemma or_else_eq_None [simp]: "or_else x y = None \<longleftrightarrow> x = None \<and> y = None"
  by (cases x) simp_all

lemma or_else_assoc: "or_else (or_else x y) z = or_else x (or_else y z)"
  by (cases x) simp_all

lemma case_or_else: "(case x of None \<Rightarrow> y | Some v \<Rightarrow> Some v) = or_else x y"
  by (cases x) simp_all

lemma map_or_else: "map_option f (or_else x y) = or_else (map_option f x) (map_option f y)"
  by (cases x) simp_all

section \<open>A key-value store as an interface\<close>

text \<open>
  What a component relies on when it keeps its state in a map: a lookup after an insert or a
  removal. The lemmas the components use about updates of one key hold for every provider.
\<close>

locale keyed_store =
  fixes lookup :: "'m \<Rightarrow> 'k \<Rightarrow> 'v option"
    and put :: "'k \<Rightarrow> 'v \<Rightarrow> 'm \<Rightarrow> 'm"
    and drop_key :: "'k \<Rightarrow> 'm \<Rightarrow> 'm"
  assumes lookup_put: "lookup (put k v m) j = (if j = k then Some v else lookup m j)"
    and lookup_drop: "lookup (drop_key k m) j = (if j = k then None else lookup m j)"
begin

lemma put_put_lookup: "lookup (put k v (put k w m)) j = lookup (put k v m) j"
  by (simp add: lookup_put)

lemma put_commute_lookup: "k \<noteq> l \<Longrightarrow> lookup (put k v (put l w m)) j = lookup (put l w (put k v m)) j"
  by (simp add: lookup_put)

lemma drop_put_lookup: "lookup (drop_key k (put k v m)) j = lookup (drop_key k m) j"
  by (simp add: lookup_put lookup_drop)

lemma fold_drop_lookup:
  "lookup (fold drop_key ks m) j = (if j \<in> set ks then None else lookup m j)"
  by (induction ks arbitrary: m) (auto simp: lookup_drop)

lemma fold_put_lookup_other:
  "j \<notin> fst ` set kvs \<Longrightarrow> lookup (fold (\<lambda>(k, v). put k v) kvs m) j = lookup m j"
  by (induction kvs arbitrary: m) (auto simp: lookup_put split: prod.splits)

end

interpretation dm: keyed_store dm_get dm_insert dm_remove
  by unfold_locales (simp_all add: dm_simps)

section \<open>Runs of a component\<close>

text \<open>
  A component is a state and operations on it; a history is the list of operations applied.
  \<open>run step s es\<close> applies them in order, and \<open>run_ok\<close> says that every operation met its
  precondition when it was applied (\<open>True\<close> where the operation has none).
\<close>

definition run :: "('s \<Rightarrow> 'e \<Rightarrow> 's) \<Rightarrow> 's \<Rightarrow> 'e list \<Rightarrow> 's" where
  "run step s es = foldl step s es"

fun run_ok :: "('s \<Rightarrow> 'e \<Rightarrow> bool) \<Rightarrow> ('s \<Rightarrow> 'e \<Rightarrow> 's) \<Rightarrow> 's \<Rightarrow> 'e list \<Rightarrow> bool" where
  "run_ok ok step s [] = True"
| "run_ok ok step s (e # es) = (ok s e \<and> run_ok ok step (step s e) es)"

lemma run_Nil [simp]: "run step s [] = s"
  by (simp add: run_def)

lemma run_Cons [simp]: "run step s (e # es) = run step (step s e) es"
  by (simp add: run_def)

lemma run_append: "run step s (es @ fs) = run step (run step s es) fs"
  by (simp add: run_def)

lemma run_ok_always [simp]: "run_ok (\<lambda>_ _. True) step s es"
  by (induction es arbitrary: s) auto

lemma run_ok_append: "run_ok ok step s (es @ fs) \<longleftrightarrow> run_ok ok step s es \<and> run_ok ok step (run step s es) fs"
  by (induction es arbitrary: s) auto

locale machine =
  fixes step :: "'s \<Rightarrow> 'e \<Rightarrow> 's"
    and ok :: "'s \<Rightarrow> 'e \<Rightarrow> bool"
    and inv :: "'s \<Rightarrow> bool"
  assumes step_inv: "inv s \<Longrightarrow> ok s e \<Longrightarrow> inv (step s e)"
begin

lemma run_inv: "inv s \<Longrightarrow> run_ok ok step s es \<Longrightarrow> inv (run step s es)"
  by (induction es arbitrary: s) (auto intro: step_inv)

lemma run_inv_prefix: "inv s \<Longrightarrow> run_ok ok step s (es @ fs) \<Longrightarrow> inv (run step s es)"
  by (auto simp: run_ok_append intro: run_inv)

end

end
