(* ===== verification/Capability.thy ===== *)
theory Capability
  imports Prelude
begin

text \<open>
  Capability checks and their inheritance, from \<open>openfang-types/src/capability.rs\<close>, and the
  kernel's grant table, from \<open>openfang-kernel/src/capabilities.rs\<close>.

  The main result is that \<open>validate_capability_inheritance\<close> keeps a chain of delegations
  within the authority of its root when every delegating capability has at most one \<open>*\<close> in
  its pattern, and that it does not with two: \<open>glob_matches\<close> reads a child's pattern as a
  plain value.
\<close>

section \<open>Capabilities\<close>

datatype capability =
    FileRead string
  | FileWrite string
  | NetConnect string
  | NetListen u16
  | ToolInvoke string
  | ToolAll
  | LlmQuery string
  | LlmMaxTokens u64
  | AgentSpawn
  | AgentMessage string
  | AgentKill string
  | MemoryRead string
  | MemoryWrite string
  | ShellExec string
  | EnvRead string
  | OfpDiscover
  | OfpConnect string
  | OfpAdvertise
  | EconSpend f64
  | EconEarn
  | EconTransfer string

text \<open>The reasons the code renders as strings.\<close>

datatype cap_error =
    NoCapabilitiesRegistered uuid
  | DoesNotHaveCapability uuid capability
  | PrivilegeEscalationDenied capability

datatype capability_check = Granted | Denied cap_error

fun is_granted :: "capability_check \<Rightarrow> bool" where
  "is_granted Granted = True"
| "is_granted (Denied _) = False"

text \<open>\<open>OpenFangError::CapabilityDenied(reason)\<close> is \<open>Inl reason\<close>.\<close>

fun require :: "capability_check \<Rightarrow> cap_error + unit" where
  "require Granted = Inr ()"
| "require (Denied reason) = Inl reason"

section \<open>Matching\<close>

text \<open>
  The branches of the source in its order: the two equalities, a leading star, a trailing
  star, a star in the middle, no star.
\<close>

definition glob_matches :: "string \<Rightarrow> string \<Rightarrow> bool" where
  "glob_matches pattern value =
     (if pattern = ''*'' then True
      else if pattern = value then True
      else if pattern \<noteq> [] \<and> hd pattern = CHR ''*'' then ends_with value (tl pattern)
      else if pattern \<noteq> [] \<and> last pattern = CHR ''*'' then starts_with value (butlast pattern)
      else if CHR ''*'' \<in> set pattern then
        (let star_pos = length (takeWhile (\<lambda>c. c \<noteq> CHR ''*'') pattern);
             prefix = take star_pos pattern;
             suffix = drop (star_pos + 1) pattern
         in starts_with value prefix \<and> ends_with value suffix
            \<and> length value \<ge> length prefix + length suffix)
      else False)"

definition capability_matches :: "capability \<Rightarrow> capability \<Rightarrow> bool" where
  "capability_matches granted required =
     (case granted of
        ToolAll \<Rightarrow> (case required of ToolInvoke _ \<Rightarrow> True | _ \<Rightarrow> False)
      | FileRead pattern \<Rightarrow> (case required of FileRead path \<Rightarrow> glob_matches pattern path | _ \<Rightarrow> False)
      | FileWrite pattern \<Rightarrow> (case required of FileWrite path \<Rightarrow> glob_matches pattern path | _ \<Rightarrow> False)
      | NetConnect pattern \<Rightarrow> (case required of NetConnect host \<Rightarrow> glob_matches pattern host | _ \<Rightarrow> False)
      | ToolInvoke granted_id \<Rightarrow> (case required of ToolInvoke required_id \<Rightarrow> granted_id = required_id \<or> granted_id = ''*'' | _ \<Rightarrow> False)
      | LlmQuery pattern \<Rightarrow> (case required of LlmQuery model \<Rightarrow> glob_matches pattern model | _ \<Rightarrow> False)
      | AgentMessage pattern \<Rightarrow> (case required of AgentMessage target \<Rightarrow> glob_matches pattern target | _ \<Rightarrow> False)
      | AgentKill pattern \<Rightarrow> (case required of AgentKill target \<Rightarrow> glob_matches pattern target | _ \<Rightarrow> False)
      | MemoryRead pattern \<Rightarrow> (case required of MemoryRead scope \<Rightarrow> glob_matches pattern scope | _ \<Rightarrow> False)
      | MemoryWrite pattern \<Rightarrow> (case required of MemoryWrite scope \<Rightarrow> glob_matches pattern scope | _ \<Rightarrow> False)
      | ShellExec pattern \<Rightarrow> (case required of ShellExec cmd \<Rightarrow> glob_matches pattern cmd | _ \<Rightarrow> False)
      | EnvRead pattern \<Rightarrow> (case required of EnvRead var \<Rightarrow> glob_matches pattern var | _ \<Rightarrow> False)
      | OfpConnect pattern \<Rightarrow> (case required of OfpConnect peer \<Rightarrow> glob_matches pattern peer | _ \<Rightarrow> False)
      | EconTransfer pattern \<Rightarrow> (case required of EconTransfer target \<Rightarrow> glob_matches pattern target | _ \<Rightarrow> False)
      | AgentSpawn \<Rightarrow> (case required of AgentSpawn \<Rightarrow> True | _ \<Rightarrow> False)
      | OfpDiscover \<Rightarrow> (case required of OfpDiscover \<Rightarrow> True | _ \<Rightarrow> False)
      | OfpAdvertise \<Rightarrow> (case required of OfpAdvertise \<Rightarrow> True | _ \<Rightarrow> False)
      | EconEarn \<Rightarrow> (case required of EconEarn \<Rightarrow> True | _ \<Rightarrow> False)
      | NetListen granted_port \<Rightarrow> (case required of NetListen required_port \<Rightarrow> granted_port = required_port | _ \<Rightarrow> False)
      | LlmMaxTokens granted_max \<Rightarrow> (case required of LlmMaxTokens required_max \<Rightarrow> granted_max \<ge> required_max | _ \<Rightarrow> False)
      | EconSpend granted_max \<Rightarrow> (case required of EconSpend required_amount \<Rightarrow> granted_max \<ge> required_amount | _ \<Rightarrow> False))"

fun validate_capability_inheritance ::
  "capability list \<Rightarrow> capability list \<Rightarrow> cap_error + unit" where
  "validate_capability_inheritance parent_caps [] = Inr ()"
| "validate_capability_inheritance parent_caps (child_cap # child_caps) =
     (if list_ex (\<lambda>parent_cap. capability_matches parent_cap child_cap) parent_caps
      then validate_capability_inheritance parent_caps child_caps
      else Inl (PrivilegeEscalationDenied child_cap))"

section \<open>The kernel's grant table\<close>

record capability_manager =
  grants :: "(uuid, capability list) dashmap"

definition new_manager :: capability_manager where
  "new_manager = \<lparr>grants = []\<rparr>"

definition grant :: "capability_manager \<Rightarrow> uuid \<Rightarrow> capability list \<Rightarrow> capability_manager" where
  "grant m agent_id capabilities = m\<lparr>grants := dm_insert agent_id capabilities (grants m)\<rparr>"

fun check_grants :: "uuid \<Rightarrow> capability \<Rightarrow> capability list \<Rightarrow> capability_check" where
  "check_grants agent_id required [] = Denied (DoesNotHaveCapability agent_id required)"
| "check_grants agent_id required (granted # gs) =
     (if capability_matches granted required then Granted else check_grants agent_id required gs)"

definition check :: "capability_manager \<Rightarrow> uuid \<Rightarrow> capability \<Rightarrow> capability_check" where
  "check m agent_id required =
     (case dm_get (grants m) agent_id of
        None \<Rightarrow> Denied (NoCapabilitiesRegistered agent_id)
      | Some gs \<Rightarrow> check_grants agent_id required gs)"

definition list_caps :: "capability_manager \<Rightarrow> uuid \<Rightarrow> capability list" where
  "list_caps m agent_id = (case dm_get (grants m) agent_id of None \<Rightarrow> [] | Some g \<Rightarrow> g)"

definition revoke_all :: "capability_manager \<Rightarrow> uuid \<Rightarrow> capability_manager" where
  "revoke_all m agent_id = m\<lparr>grants := dm_remove agent_id (grants m)\<rparr>"

section \<open>What a glob pattern means\<close>

lemma glob_no_star: "CHR ''*'' \<notin> set p \<Longrightarrow> glob_matches p v \<longleftrightarrow> p = v"
  by (cases p) (auto simp: glob_matches_def dest: last_in_set)

lemma takeWhile_star: "CHR ''*'' \<notin> set pre \<Longrightarrow>
    takeWhile (\<lambda>c. c \<noteq> CHR ''*'') (pre @ CHR ''*'' # suf) = pre"
  by (induction pre) auto

lemma glob_one_star:
  assumes "CHR ''*'' \<notin> set pre" and "CHR ''*'' \<notin> set suf"
  shows "glob_matches (pre @ CHR ''*'' # suf) v \<longleftrightarrow> (\<exists>m. v = pre @ m @ suf)" (is "?G \<longleftrightarrow> ?E")
proof -
  let ?p = "pre @ CHR ''*'' # suf"
  have self: "?E" if "?p = v" using that by (intro exI [of _ "''*''"]) simp
  consider "pre = []" | "pre \<noteq> []" "suf = []" | "pre \<noteq> []" "suf \<noteq> []" by blast
  then show ?thesis
  proof cases
    case 1
    then show ?thesis using self by (auto simp: glob_matches_def ends_with_iff)
  next
    case 2
    then have "hd ?p \<noteq> CHR ''*''" using assms by (cases pre) auto
    with 2 show ?thesis using self by (auto simp: glob_matches_def starts_with_iff butlast_append last_append)
  next
    case 3
    then have hd_last: "hd ?p \<noteq> CHR ''*''" "last ?p \<noteq> CHR ''*''"
      using assms last_in_set [of suf] by (cases pre; auto)+
    have "?p \<noteq> ''*''" using 3 by (cases pre) auto
    then have "?G \<longleftrightarrow> ?p = v \<or> (starts_with v pre \<and> ends_with v suf \<and> length v \<ge> length pre + length suf)"
      using hd_last takeWhile_star [OF assms(1), of suf] by (simp add: glob_matches_def Let_def)
    moreover have "?E" if v: "starts_with v pre" "ends_with v suf" "length v \<ge> length pre + length suf"
    proof -
      from v obtain r where r: "v = pre @ r" by (auto simp: starts_with_iff)
      with v have "ends_with r suf" by (auto simp: ends_with_def)
      then show ?thesis using r by (auto simp: ends_with_iff)
    qed
    moreover have "starts_with v pre \<and> ends_with v suf \<and> length v \<ge> length pre + length suf" if ?E
      using that by (auto simp: starts_with_iff ends_with_iff)
    ultimately show ?thesis using self by blast
  qed
qed

text \<open>Any pattern matches at most itself and what some star of it, read as a gap, matches.\<close>

lemma glob_matches_cases:
  assumes "glob_matches q v"
  shows "q = v \<or> (\<exists>t m s. q = t @ CHR ''*'' # s \<and> v = t @ m @ s)"
proof -
  have head_star: ?thesis if "q \<noteq> []" "hd q = CHR ''*''" "ends_with v (tl q)"
  proof -
    from that obtain r where "v = r @ tl q" by (auto simp: ends_with_iff)
    moreover have "q = [] @ CHR ''*'' # tl q" using that by (cases q) auto
    ultimately show ?thesis by (metis append_Nil)
  qed
  have last_star: ?thesis if "q \<noteq> []" "last q = CHR ''*''" "starts_with v (butlast q)"
  proof -
    have "q = butlast q @ CHR ''*'' # []" using that by (metis append_butlast_last_id)
    then show ?thesis using that by (fastforce simp: starts_with_iff)
  qed
  have mid_star: ?thesis if star: "CHR ''*'' \<in> set q"
    and p: "starts_with v (takeWhile (\<lambda>c. c \<noteq> CHR ''*'') q)"
    and s: "ends_with v (drop (length (takeWhile (\<lambda>c. c \<noteq> CHR ''*'') q) + 1) q)"
    and len: "length v \<ge> length (takeWhile (\<lambda>c. c \<noteq> CHR ''*'') q)
       + length (drop (length (takeWhile (\<lambda>c. c \<noteq> CHR ''*'') q) + 1) q)"
  proof -
    from star obtain t u where q: "q = t @ CHR ''*'' # u" and t: "CHR ''*'' \<notin> set t"
      by (metis split_list_first)
    from p len s q t obtain r where "v = t @ r" and "ends_with r u"
      by (auto simp: takeWhile_star starts_with_iff ends_with_def)
    then show ?thesis using q by (auto simp: ends_with_iff)
  qed
  show ?thesis
  proof (cases "q = ''*''")
    case True
    then have "q = [] @ CHR ''*'' # []" "v = [] @ v @ []" by simp_all
    then show ?thesis by blast
  next
    case False
    with assms show ?thesis
      using head_star last_star mid_star
      by (auto simp: glob_matches_def Let_def takeWhile_eq_take [symmetric] min_absorb2 length_takeWhile_le split: if_splits)
  qed
qed

definition plain_pattern :: "string \<Rightarrow> bool" where
  "plain_pattern p = (count_list p (CHR ''*'') \<le> 1)"

lemma plain_pattern_cases:
  assumes "plain_pattern p"
  obtains "CHR ''*'' \<notin> set p"
  | pre suf where "p = pre @ CHR ''*'' # suf" "CHR ''*'' \<notin> set pre" "CHR ''*'' \<notin> set suf"
proof (cases "CHR ''*'' \<in> set p")
  case True
  then obtain pre suf where p: "p = pre @ CHR ''*'' # suf" and "CHR ''*'' \<notin> set pre"
    by (metis split_list_first)
  moreover from this assms have "CHR ''*'' \<notin> set suf"
    by (simp add: plain_pattern_def count_list_0_iff)
  ultimately show ?thesis using that(2) by blast
qed (use that(1) in blast)

lemma glob_matches_trans:
  assumes plain: "plain_pattern p" and pq: "glob_matches p q" and qv: "glob_matches q v"
  shows "glob_matches p v"
  using plain
proof (cases rule: plain_pattern_cases)
  case 1
  then show ?thesis using pq qv by (simp add: glob_no_star)
next
  case (2 pre suf)
  from pq 2 obtain m' where q: "q = pre @ m' @ suf" by (auto simp: glob_one_star)
  from glob_matches_cases [OF qv] show ?thesis
  proof
    assume "q = v"
    then show ?thesis using pq by simp
  next
    assume "\<exists>t m s. q = t @ CHR ''*'' # s \<and> v = t @ m @ s"
    then obtain t m s where ts: "q = t @ CHR ''*'' # s" and v: "v = t @ m @ s" by blast
    from q ts have "pre @ (m' @ suf) = t @ (CHR ''*'' # s)" by simp
    then obtain t' where t: "t = pre @ t'"
      using append_eq_split_left 2(2) by metis
    from q ts have "(pre @ m') @ suf = t @ CHR ''*'' # s" by simp
    then obtain s' where s: "s = s' @ suf"
      using append_eq_split_right 2(3) by metis
    from t s v show ?thesis using 2 by (auto simp: glob_one_star)
  qed
qed

section \<open>The contract of a capability matcher\<close>

text \<open>
  What inheritance and the grant table need of a matching relation: a grant without nested
  wild cards covers whatever a capability it covers does.
\<close>

locale grant_matcher =
  fixes matches :: "'c \<Rightarrow> 'c \<Rightarrow> bool" and plain :: "'c \<Rightarrow> bool"
  assumes matches_trans: "plain g \<Longrightarrow> matches g c \<Longrightarrow> matches c r \<Longrightarrow> matches g r"
begin

lemma covered_trans:
  assumes "\<forall>g\<in>set ps. plain g" and "\<forall>c\<in>set cs. \<exists>g\<in>set ps. matches g c"
    and "\<exists>c\<in>set cs. matches c r"
  shows "\<exists>g\<in>set ps. matches g r"
  using assms matches_trans by meson

end

fun plain_cap :: "capability \<Rightarrow> bool" where
  "plain_cap (FileRead p) = plain_pattern p"
| "plain_cap (FileWrite p) = plain_pattern p"
| "plain_cap (NetConnect p) = plain_pattern p"
| "plain_cap (LlmQuery p) = plain_pattern p"
| "plain_cap (AgentMessage p) = plain_pattern p"
| "plain_cap (AgentKill p) = plain_pattern p"
| "plain_cap (MemoryRead p) = plain_pattern p"
| "plain_cap (MemoryWrite p) = plain_pattern p"
| "plain_cap (ShellExec p) = plain_pattern p"
| "plain_cap (EnvRead p) = plain_pattern p"
| "plain_cap (OfpConnect p) = plain_pattern p"
| "plain_cap (EconTransfer p) = plain_pattern p"
| "plain_cap _ = True"

interpretation caps: grant_matcher capability_matches plain_cap
proof
  fix g c r
  assume "plain_cap g" "capability_matches g c" "capability_matches c r"
  then show "capability_matches g r"
    by (cases g; cases c; simp add: capability_matches_def; cases r)
       (auto simp: capability_matches_def intro: glob_matches_trans f64_le_trans)
qed

lemma validate_ok_iff:
  "validate_capability_inheritance ps cs = Inr () \<longleftrightarrow> (\<forall>c\<in>set cs. \<exists>g\<in>set ps. capability_matches g c)"
  by (induction cs) (auto simp: list_ex_iff)

text \<open>A delegation chain: each agent's capabilities were validated against its parent's.\<close>

fun delegation_chain :: "capability list \<Rightarrow> capability list list \<Rightarrow> bool" where
  "delegation_chain parent [] = True"
| "delegation_chain parent (child # rest) =
     (validate_capability_inheritance parent child = Inr () \<and> delegation_chain child rest)"

lemma check_grants_iff:
  "is_granted (check_grants a r gs) \<longleftrightarrow> (\<exists>g\<in>set gs. capability_matches g r)"
  by (induction gs) auto

lemma chain_covered:
  assumes "delegation_chain origin chain"
    and "\<forall>caps\<in>set (origin # butlast chain). \<forall>g\<in>set caps. plain_cap g"
    and "\<exists>c\<in>set (last (origin # chain)). capability_matches c r"
  shows "\<exists>g\<in>set origin. capability_matches g r"
  using assms
proof (induction chain arbitrary: origin)
  case (Cons child rest)
  have "\<exists>c\<in>set child. capability_matches c r"
  proof (cases "rest = []")
    case True
    then show ?thesis using Cons.prems(3) by simp
  next
    case False
    then have "\<forall>caps\<in>set (child # butlast rest). \<forall>g\<in>set caps. plain_cap g"
      using Cons.prems(2) by simp
    moreover have "\<exists>c\<in>set (last (child # rest)). capability_matches c r"
      using Cons.prems(3) by simp
    ultimately show ?thesis
      using Cons.IH [of child] Cons.prems(1) by simp
  qed
  moreover have "\<forall>c\<in>set child. \<exists>g\<in>set origin. capability_matches g c"
    using Cons.prems(1) by (simp add: validate_ok_iff)
  moreover have "\<forall>g\<in>set origin. plain_cap g"
    using Cons.prems(2) by simp
  ultimately show ?case
    using caps.covered_trans by blast
qed simp

section \<open>Properties\<close>

text \<open>
  C8: delegation never widens authority. Along a chain of spawned agents, each validated by
  \<open>validate_capability_inheritance\<close> against its parent, whatever the grant table allows the
  last agent it also allows the first, as long as no delegating agent holds a pattern with
  two or more stars.
\<close>

theorem delegation_sound:
  assumes "delegation_chain origin chain"
    and "\<forall>caps\<in>set (origin # butlast chain). \<forall>g\<in>set caps. plain_cap g"
    and "is_granted (check (grant m a (last (origin # chain))) a r)"
  shows "is_granted (check (grant m a origin) a r)"
proof -
  from assms(3) have "\<exists>c\<in>set (last (origin # chain)). capability_matches c r"
    by (simp add: check_def grant_def check_grants_iff del: last.simps)
  then have "\<exists>g\<in>set origin. capability_matches g r"
    using chain_covered [OF assms(1,2)] by blast
  then show ?thesis
    by (simp add: check_def grant_def check_grants_iff)
qed

theorem delegation_sound_witness:
  "is_granted (check (grant new_manager 7 [FileRead ''/data/*'', ToolAll]) 7 (FileRead ''/data/ab''))"
  by (rule delegation_sound [where chain = "[[FileRead ''/data/a*''], [FileRead ''/data/ab'']]"])
     (simp_all add: capability_matches_def glob_matches_def starts_with_def check_def grant_def
        new_manager_def plain_pattern_def)

text \<open>
  With two stars the check is not sound. A parent limited to \<open>*.openai.*\<close> (which, read by
  \<open>glob_matches\<close>, only matches hosts that end in the literal \<open>.openai.*\<close>) may hand its child
  \<open>x.openai.*\<close>, and the child may then connect where the parent may not.
\<close>

theorem nested_star_escalation:
  "validate_capability_inheritance [NetConnect ''*.openai.*''] [NetConnect ''x.openai.*''] = Inr ()
   \<and> is_granted (check (grant m child [NetConnect ''x.openai.*'']) child (NetConnect ''x.openai.com''))
   \<and> \<not> is_granted (check (grant m parent [NetConnect ''*.openai.*'']) parent (NetConnect ''x.openai.com''))"
  by (simp add: capability_matches_def glob_matches_def starts_with_def ends_with_def check_def grant_def)

text \<open>
  Which capabilities cover themselves. Every capability but two does: \<open>EconSpend NaN\<close>, and
  \<open>ToolAll\<close>, for which the match has no branch, so a parent that may call every tool cannot
  pass that on to a child.
\<close>

theorem capability_self_match:
  "validate_capability_inheritance [c] [c] = Inr () \<longleftrightarrow> c \<noteq> ToolAll \<and> c \<noteq> EconSpend NaN"
proof (cases c)
  case (EconSpend x)
  then show ?thesis by (cases x) (simp_all add: capability_matches_def)
qed (simp_all add: capability_matches_def glob_matches_def)

end
