(* ===== verification/Supervisor.thy ===== *)
theory Supervisor
  imports Prelude
begin

text \<open>
  The kernel's supervisor, from \<open>openfang-kernel/src/supervisor.rs\<close>: the shutdown flag (the
  value in the \<open>watch\<close> channel), the panic and restart counters (\<open>AtomicU64\<close>), and the
  restart count of each agent. One operation per method; the logging is left out.
\<close>

record supervisor =
  shutdown_flag :: bool
  sup_restart_count :: u64
  sup_panic_count :: u64
  agent_restarts :: "(uuid, u32) dashmap"

definition new_supervisor :: supervisor where
  "new_supervisor =
     \<lparr>shutdown_flag = False, sup_restart_count = 0, sup_panic_count = 0, agent_restarts = []\<rparr>"

definition shutdown :: "supervisor \<Rightarrow> supervisor" where
  "shutdown s = s\<lparr>shutdown_flag := True\<rparr>"

definition is_shutting_down :: "supervisor \<Rightarrow> bool" where
  "is_shutting_down s = shutdown_flag s"

definition record_panic :: "supervisor \<Rightarrow> supervisor" where
  "record_panic s = s\<lparr>sup_panic_count := sup_panic_count s + 1\<rparr>"

definition record_restart :: "supervisor \<Rightarrow> supervisor" where
  "record_restart s = s\<lparr>sup_restart_count := sup_restart_count s + 1\<rparr>"

text \<open>\<open>Inr count\<close> within the limit, \<open>Inl count\<close> beyond it; \<open>max_restarts = 0\<close> is no limit.\<close>

definition record_agent_restart ::
  "supervisor \<Rightarrow> uuid \<Rightarrow> u32 \<Rightarrow> supervisor \<times> (u32 + u32)" where
  "record_agent_restart s agent_id max_restarts =
     (let count = dm_entry (agent_restarts s) agent_id 0 + 1;
          s1 = s\<lparr>agent_restarts := dm_insert agent_id count (agent_restarts s)\<rparr>;
          s2 = record_restart s1
      in (s2, if max_restarts > 0 \<and> count > max_restarts then Inl count else Inr count))"

definition agent_restart_count :: "supervisor \<Rightarrow> uuid \<Rightarrow> u32" where
  "agent_restart_count s agent_id = dm_entry (agent_restarts s) agent_id 0"

definition reset_agent_restarts :: "supervisor \<Rightarrow> uuid \<Rightarrow> supervisor" where
  "reset_agent_restarts s agent_id = s\<lparr>agent_restarts := dm_remove agent_id (agent_restarts s)\<rparr>"

record supervisor_health =
  health_is_shutting_down :: bool
  health_panic_count :: u64
  health_restart_count :: u64

definition health :: "supervisor \<Rightarrow> supervisor_health" where
  "health s = \<lparr>health_is_shutting_down = is_shutting_down s,
               health_panic_count = sup_panic_count s,
               health_restart_count = sup_restart_count s\<rparr>"

section \<open>Histories\<close>

datatype sup_op =
    OpShutdown
  | OpPanic
  | OpRestart
  | OpAgentRestart uuid u32
  | OpReset uuid

fun sup_step :: "supervisor \<Rightarrow> sup_op \<Rightarrow> supervisor" where
  "sup_step s OpShutdown = shutdown s"
| "sup_step s OpPanic = record_panic s"
| "sup_step s OpRestart = record_restart s"
| "sup_step s (OpAgentRestart a n) = fst (record_agent_restart s a n)"
| "sup_step s (OpReset a) = reset_agent_restarts s a"

lemmas sup_defs = shutdown_def record_panic_def record_restart_def record_agent_restart_def
  reset_agent_restarts_def agent_restart_count_def is_shutting_down_def dm_entry_def Let_def

text \<open>The restarts of one agent since its last reset, counted without wrapping.\<close>

fun restarts_since_reset :: "uuid \<Rightarrow> sup_op list \<Rightarrow> nat \<Rightarrow> nat" where
  "restarts_since_reset a [] n = n"
| "restarts_since_reset a (OpAgentRestart b m # es) n =
     restarts_since_reset a es (if a = b then n + 1 else n)"
| "restarts_since_reset a (OpReset b # es) n = restarts_since_reset a es (if a = b then 0 else n)"
| "restarts_since_reset a (_ # es) n = restarts_since_reset a es n"

lemma agent_count_run:
  "agent_restart_count s a = of_nat n \<Longrightarrow>
   agent_restart_count (run sup_step s es) a = of_nat (restarts_since_reset a es n)"
proof (induction a es n arbitrary: s rule: restarts_since_reset.induct)
  case (2 a b m es n)
  then show ?case by (auto simp: sup_defs)
qed (auto simp: sup_defs)


fun is_restart_op :: "sup_op \<Rightarrow> bool" where
  "is_restart_op OpRestart = True"
| "is_restart_op (OpAgentRestart _ _) = True"
| "is_restart_op _ = False"

lemma counters_run:
  "shutdown_flag (run sup_step s es) \<longleftrightarrow> shutdown_flag s \<or> OpShutdown \<in> set es"
  "sup_panic_count (run sup_step s es) = sup_panic_count s + of_nat (count_list es OpPanic)"
  "sup_restart_count (run sup_step s es) =
     sup_restart_count s + of_nat (length (filter is_restart_op es))"
proof (induction es arbitrary: s)
  case (Cons e es)
  case 1 show ?case by (cases e) (auto simp: Cons.IH(1) sup_defs)
  case 2 show ?case by (cases e) (auto simp: Cons.IH(2) sup_defs)
  case 3 show ?case by (cases e) (auto simp: Cons.IH(3) sup_defs)
qed simp_all

section \<open>Properties\<close>

text \<open>
  The health report is exact: after any history from a new supervisor it says that
  shutdown was requested iff some operation requested it, and its two counters are the number
  of panics and of restarts recorded (as 64-bit counters).
\<close>

lemma health_exact:
  "health (run sup_step new_supervisor es) =
     \<lparr>health_is_shutting_down = (OpShutdown \<in> set es),
      health_panic_count = of_nat (count_list es OpPanic),
      health_restart_count = of_nat (length (filter is_restart_op es))\<rparr>"
  by (simp add: health_def is_shutting_down_def counters_run new_supervisor_def)

text \<open>
  The restart limit. After any history, the restart of an agent is refused exactly when it
  is one of more than \<open>max_restarts\<close> since the agent's last reset, whatever happened to the
  other agents; with limit 0 it never is. The count returned is the number of restarts.
\<close>

theorem restart_limit:
  assumes "restarts_since_reset a es 0 + 1 < 2 ^ 32"
  shows "snd (record_agent_restart (run sup_step new_supervisor es) a mx) =
     (let k = restarts_since_reset a es 0 + 1
      in if mx \<noteq> 0 \<and> unat mx < k then Inl (of_nat k) else Inr (of_nat k))"
proof -
  let ?k = "restarts_since_reset a es 0"
  have "agent_restart_count (run sup_step new_supervisor es) a = of_nat ?k"
    by (rule agent_count_run) (simp add: new_supervisor_def agent_restart_count_def dm_entry_def)
  then have count: "dm_entry (agent_restarts (run sup_step new_supervisor es)) a 0 + 1 = of_nat (?k + 1)"
    by (simp add: agent_restart_count_def)
  have "(of_nat (?k + 1) :: u32) > mx \<longleftrightarrow> unat mx < ?k + 1"
    using assms by (simp add: word_less_nat_alt unat_of_nat del: of_nat_add of_nat_Suc)
  then show ?thesis
    by (simp add: record_agent_restart_def Let_def count word_neq_0_conv del: of_nat_add of_nat_Suc)
qed

theorem restart_limit_witness:
  "snd (record_agent_restart (run sup_step new_supervisor
      [OpAgentRestart 1 2, OpAgentRestart 9 2, OpAgentRestart 1 2]) 1 2) = Inl 3"
  using restart_limit [of 1 "[OpAgentRestart 1 2, OpAgentRestart 9 2, OpAgentRestart 1 2]" 2]
  by simp

end
