(* ===== verification/Scheduler.thy ===== *)
theory Scheduler
  imports Prelude
begin

text \<open>
  The agent scheduler's resource tracking, from \<open>openfang-kernel/src/scheduler.rs\<close>, with
  \<open>ResourceQuota\<close> of \<open>openfang-types/src/agent.rs\<close> and \<open>TokenUsage\<close> of
  \<open>openfang-types/src/message.rs\<close>. The three \<open>DashMap\<close>s are three maps; a task handle is a
  number, and \<open>aborted\<close> records the handles on which \<open>abort\<close> was called. Every operation that
  reads the clock takes the time \<open>now\<close>.
\<close>

section \<open>Quotas and usage\<close>

record resource_quota =
  max_memory_bytes :: u64
  max_cpu_time_ms :: u64
  max_tool_calls_per_minute :: u32
  max_llm_tokens_per_hour :: u64
  max_network_bytes_per_hour :: u64
  max_cost_per_hour_usd :: f64
  max_cost_per_day_usd :: f64
  max_cost_per_month_usd :: f64

definition default_quota :: resource_quota where
  "default_quota =
     \<lparr>max_memory_bytes = 256 * 1024 * 1024, max_cpu_time_ms = 30000, max_tool_calls_per_minute = 60,
      max_llm_tokens_per_hour = 0, max_network_bytes_per_hour = 100 * 1024 * 1024,
      max_cost_per_hour_usd = Finite 0, max_cost_per_day_usd = Finite 0,
      max_cost_per_month_usd = Finite 0\<rparr>"

record token_usage =
  input_tokens :: u64
  output_tokens :: u64

definition usage_total :: "token_usage \<Rightarrow> u64" where
  "usage_total u = input_tokens u + output_tokens u"

record usage_tracker =
  total_tokens :: u64
  tool_calls :: u64
  window_start :: instant

definition default_tracker :: "instant \<Rightarrow> usage_tracker" where
  "default_tracker now = \<lparr>total_tokens = 0, tool_calls = 0, window_start = now\<rparr>"

definition reset_if_expired :: "instant \<Rightarrow> usage_tracker \<Rightarrow> usage_tracker" where
  "reset_if_expired now t =
     (if elapsed now (window_start t) \<ge> from_secs 3600
      then t\<lparr>total_tokens := 0, tool_calls := 0, window_start := now\<rparr>
      else t)"

section \<open>The scheduler\<close>

record scheduler =
  quotas :: "(uuid, resource_quota) dashmap"
  usage :: "(uuid, usage_tracker) dashmap"
  tasks :: "(uuid, nat) dashmap"
  aborted :: "nat list"

definition new_scheduler :: scheduler where
  "new_scheduler = \<lparr>quotas = [], usage = [], tasks = [], aborted = []\<rparr>"

definition register :: "scheduler \<Rightarrow> instant \<Rightarrow> uuid \<Rightarrow> resource_quota \<Rightarrow> scheduler" where
  "register s now agent_id quota =
     s\<lparr>quotas := dm_insert agent_id quota (quotas s),
       usage := dm_insert agent_id (default_tracker now) (usage s)\<rparr>"

definition record_usage :: "scheduler \<Rightarrow> instant \<Rightarrow> uuid \<Rightarrow> token_usage \<Rightarrow> scheduler" where
  "record_usage s now agent_id u =
     s\<lparr>usage := dm_modify agent_id
         (\<lambda>t. let t' = reset_if_expired now t in t'\<lparr>total_tokens := total_tokens t' + usage_total u\<rparr>)
         (usage s)\<rparr>"

definition record_tool_calls :: "scheduler \<Rightarrow> instant \<Rightarrow> uuid \<Rightarrow> u64 \<Rightarrow> scheduler" where
  "record_tool_calls s now agent_id n =
     (if n = 0 then s
      else s\<lparr>usage := dm_modify agent_id
         (\<lambda>t. let t' = reset_if_expired now t in t'\<lparr>tool_calls := tool_calls t' + n\<rparr>)
         (usage s)\<rparr>)"

text \<open>\<open>OpenFangError::QuotaExceeded\<close> with the two numbers its message shows.\<close>

datatype quota_error = QuotaExceeded u64 u64

definition check_quota :: "scheduler \<Rightarrow> instant \<Rightarrow> uuid \<Rightarrow> scheduler \<times> (quota_error + unit)" where
  "check_quota s now agent_id =
     (case dm_get (quotas s) agent_id of
        None \<Rightarrow> (s, Inr ())
      | Some quota \<Rightarrow>
          (case dm_get (usage s) agent_id of
             None \<Rightarrow> (s, Inr ())
           | Some t \<Rightarrow>
               (let tracker = reset_if_expired now t;
                    s' = s\<lparr>usage := dm_insert agent_id tracker (usage s)\<rparr>
                in if max_llm_tokens_per_hour quota > 0
                      \<and> total_tokens tracker > max_llm_tokens_per_hour quota
                   then (s', Inl (QuotaExceeded (total_tokens tracker) (max_llm_tokens_per_hour quota)))
                   else (s', Inr ()))))"

definition reset_usage :: "scheduler \<Rightarrow> instant \<Rightarrow> uuid \<Rightarrow> scheduler" where
  "reset_usage s now agent_id =
     s\<lparr>usage := dm_modify agent_id
         (\<lambda>t. t\<lparr>total_tokens := 0, tool_calls := 0, window_start := now\<rparr>) (usage s)\<rparr>"

definition abort_task :: "scheduler \<Rightarrow> uuid \<Rightarrow> scheduler" where
  "abort_task s agent_id =
     (case dm_get (tasks s) agent_id of
        None \<Rightarrow> s
      | Some handle \<Rightarrow> s\<lparr>tasks := dm_remove agent_id (tasks s), aborted := aborted s @ [handle]\<rparr>)"

definition unregister :: "scheduler \<Rightarrow> uuid \<Rightarrow> scheduler" where
  "unregister s agent_id =
     (let s' = abort_task s agent_id
      in s'\<lparr>quotas := dm_remove agent_id (quotas s'), usage := dm_remove agent_id (usage s')\<rparr>)"

definition get_usage :: "scheduler \<Rightarrow> uuid \<Rightarrow> (u64 \<times> u64) option" where
  "get_usage s agent_id = map_option (\<lambda>t. (total_tokens t, tool_calls t)) (dm_get (usage s) agent_id)"

definition token_headroom :: "scheduler \<Rightarrow> instant \<Rightarrow> uuid \<Rightarrow> scheduler \<times> u64 option" where
  "token_headroom s now agent_id =
     (case dm_get (quotas s) agent_id of
        None \<Rightarrow> (s, None)
      | Some quota \<Rightarrow>
          (if max_llm_tokens_per_hour quota = 0 then (s, None)
           else case dm_get (usage s) agent_id of
             None \<Rightarrow> (s, None)
           | Some t \<Rightarrow>
               (let tracker = reset_if_expired now t
                in (s\<lparr>usage := dm_insert agent_id tracker (usage s)\<rparr>,
                    Some (saturating_sub (max_llm_tokens_per_hour quota) (total_tokens tracker))))))"

section \<open>The view of one agent\<close>

text \<open>
  Every operation concerns one agent. The specification is a machine for a single agent, and
  the scheduler refines a family of them: what the scheduler holds for an agent after any
  interleaving is what the agent's own operations alone produce.
\<close>

datatype sched_op =
    OpRegister instant uuid resource_quota
  | OpRecordUsage instant uuid token_usage
  | OpRecordToolCalls instant uuid u64
  | OpCheckQuota instant uuid
  | OpResetUsage instant uuid
  | OpAbortTask uuid
  | OpUnregister uuid
  | OpTokenHeadroom instant uuid

fun op_agent :: "sched_op \<Rightarrow> uuid" where
  "op_agent (OpRegister _ a _) = a"
| "op_agent (OpRecordUsage _ a _) = a"
| "op_agent (OpRecordToolCalls _ a _) = a"
| "op_agent (OpCheckQuota _ a) = a"
| "op_agent (OpResetUsage _ a) = a"
| "op_agent (OpAbortTask a) = a"
| "op_agent (OpUnregister a) = a"
| "op_agent (OpTokenHeadroom _ a) = a"

fun sched_step :: "scheduler \<Rightarrow> sched_op \<Rightarrow> scheduler" where
  "sched_step s (OpRegister now a q) = register s now a q"
| "sched_step s (OpRecordUsage now a u) = record_usage s now a u"
| "sched_step s (OpRecordToolCalls now a n) = record_tool_calls s now a n"
| "sched_step s (OpCheckQuota now a) = fst (check_quota s now a)"
| "sched_step s (OpResetUsage now a) = reset_usage s now a"
| "sched_step s (OpAbortTask a) = abort_task s a"
| "sched_step s (OpUnregister a) = unregister s a"
| "sched_step s (OpTokenHeadroom now a) = fst (token_headroom s now a)"

text \<open>
  The abstract agent: its quota and, in place of the counters, the log of what was recorded in
  the current window (the start of the window, token amounts, tool call amounts).
\<close>

record agent_log =
  log_quota :: resource_quota
  log_start :: instant
  log_tokens :: "u64 list"
  log_calls :: "u64 list"

definition log_roll :: "instant \<Rightarrow> agent_log \<Rightarrow> agent_log" where
  "log_roll now l = (if now \<ge> log_start l + 3600 * 1000000000
     then l\<lparr>log_start := now, log_tokens := [], log_calls := []\<rparr> else l)"

fun log_step :: "agent_log option \<Rightarrow> sched_op \<Rightarrow> agent_log option" where
  "log_step _ (OpRegister now a q) = Some \<lparr>log_quota = q, log_start = now, log_tokens = [], log_calls = []\<rparr>"
| "log_step l (OpRecordUsage now a u) =
     map_option (\<lambda>l. let l' = log_roll now l in l'\<lparr>log_tokens := log_tokens l' @ [usage_total u]\<rparr>) l"
| "log_step l (OpRecordToolCalls now a n) =
     (if n = 0 then l
      else map_option (\<lambda>l. let l' = log_roll now l in l'\<lparr>log_calls := log_calls l' @ [n]\<rparr>) l)"
| "log_step l (OpCheckQuota now a) = map_option (log_roll now) l"
| "log_step l (OpResetUsage now a) =
     map_option (\<lambda>l. l\<lparr>log_start := now, log_tokens := [], log_calls := []\<rparr>) l"
| "log_step l (OpAbortTask a) = l"
| "log_step l (OpUnregister a) = None"
| "log_step l (OpTokenHeadroom now a) =
     map_option (\<lambda>l. if max_llm_tokens_per_hour (log_quota l) = 0 then l else log_roll now l) l"

text \<open>The refinement relation: an agent is known to both maps or to none, and the counters are sums.\<close>

definition tracker_of :: "agent_log \<Rightarrow> usage_tracker" where
  "tracker_of l = \<lparr>total_tokens = sum_list (log_tokens l), tool_calls = sum_list (log_calls l),
                   window_start = log_start l\<rparr>"

definition agent_view :: "scheduler \<Rightarrow> uuid \<Rightarrow> agent_log option \<Rightarrow> bool" where
  "agent_view s a l \<longleftrightarrow>
     dm_get (quotas s) a = map_option log_quota l \<and> dm_get (usage s) a = map_option tracker_of l"

lemmas sched_defs = register_def record_usage_def record_tool_calls_def check_quota_def
  reset_usage_def abort_task_def unregister_def token_headroom_def

lemma reset_if_expired_tracker: "reset_if_expired now (tracker_of l) = tracker_of (log_roll now l)"
  by (auto simp: reset_if_expired_def tracker_of_def log_roll_def elapsed_def from_secs_def)

lemma total_tokens_tracker: "total_tokens (tracker_of l) = sum_list (log_tokens l)"
  by (simp add: tracker_of_def)

lemma log_roll_quota [simp]: "log_quota (log_roll now l) = log_quota l"
  by (simp add: log_roll_def)

lemma step_other_agent:
  "op_agent e \<noteq> a \<Longrightarrow> dm_get (quotas (sched_step s e)) a = dm_get (quotas s) a
     \<and> dm_get (usage (sched_step s e)) a = dm_get (usage s) a"
  by (cases e) (auto simp: sched_defs Let_def split: option.splits)

lemma step_same_agent:
  "op_agent e = a \<Longrightarrow> agent_view s a l \<Longrightarrow> agent_view (sched_step s e) a (log_step l e)"
  by (cases e; cases l)
     (auto simp: agent_view_def sched_defs Let_def reset_if_expired_tracker
        default_tracker_def split: option.splits, auto simp: tracker_of_def)

lemma view_run:
  "agent_view s a l \<Longrightarrow>
   agent_view (run sched_step s es) a (run log_step l (filter (\<lambda>e. op_agent e = a) es))"
proof (induction es arbitrary: s l)
  case (Cons e es)
  show ?case
  proof (cases "op_agent e = a")
    case True
    then show ?thesis using Cons step_same_agent by simp
  next
    case False
    then have "agent_view (sched_step s e) a l"
      using Cons.prems step_other_agent [OF False, of s] by (simp add: agent_view_def)
    then show ?thesis using Cons.IH False by simp
  qed
qed simp

lemma view_new: "agent_view new_scheduler a None"
  by (simp add: agent_view_def new_scheduler_def)

section \<open>Properties\<close>

text \<open>
  C12: per-agent accounting. After any interleaving of operations of any number of agents, what
  the scheduler knows of an agent is determined by that agent's own operations: it is known
  iff registered and not unregistered since, and its usage is the sum of what was recorded for
  it in the current window of an hour.
\<close>

theorem usage_refines_log:
  "get_usage (run sched_step new_scheduler es) a =
     map_option (\<lambda>l. (sum_list (log_tokens l), sum_list (log_calls l)))
       (run log_step None (filter (\<lambda>e. op_agent e = a) es))"
  using view_run [OF view_new, of es a]
  by (auto simp: agent_view_def get_usage_def tracker_of_def option.map_comp comp_def)

text \<open>
  The verdict of \<open>check_quota\<close>. It refuses exactly when the agent is registered with a
  token limit, less than an hour has passed since the start of its window, and the tokens
  recorded in the window exceed the limit (reaching it is still allowed). The refusal carries
  both numbers, and it implies that \<open>token_headroom\<close> reports zero.
\<close>

theorem check_quota_verdict:
  "snd (check_quota (run sched_step new_scheduler es) now a) =
     (case run log_step None (filter (\<lambda>e. op_agent e = a) es) of
        None \<Rightarrow> Inr ()
      | Some l \<Rightarrow>
          (let lim = max_llm_tokens_per_hour (log_quota l); used = sum_list (log_tokens l)
           in if now < log_start l + 3600 * 1000000000 \<and> lim \<noteq> 0 \<and> lim < used
              then Inl (QuotaExceeded used lim) else Inr ()))"
proof (cases "run log_step None (filter (\<lambda>e. op_agent e = a) es)")
  case None
  then show ?thesis
    using view_run [OF view_new, of es a] by (simp add: agent_view_def check_quota_def)
next
  case (Some l)
  then have "agent_view (run sched_step new_scheduler es) a (Some l)"
    using view_run [OF view_new, of es a] by simp
  then have "snd (check_quota (run sched_step new_scheduler es) now a) =
      (let lim = max_llm_tokens_per_hour (log_quota l); l' = log_roll now l
       in if lim > 0 \<and> sum_list (log_tokens l') > lim
          then Inl (QuotaExceeded (sum_list (log_tokens l')) lim) else Inr ())"
    by (auto simp: agent_view_def check_quota_def reset_if_expired_tracker total_tokens_tracker Let_def)
  with Some show ?thesis
    by (auto simp: log_roll_def Let_def word_neq_0_conv)
qed

text \<open>
  Headroom agrees with the verdict. When an agent has a token limit and \<open>token_headroom\<close>
  reports \<open>h\<close> tokens left, a usage of at most \<open>h\<close> recorded at the same time does not make
  \<open>check_quota\<close> refuse, provided the agent was not over its limit already.
\<close>

theorem headroom_is_spendable:
  assumes hr: "snd (token_headroom s now a) = Some h" and fits: "usage_total u \<le> h"
    and ok: "snd (check_quota s now a) = Inr ()"
  shows "snd (check_quota (record_usage (fst (token_headroom s now a)) now a u) now a) = Inr ()"
proof -
  from hr obtain q t where q: "dm_get (quotas s) a = Some q" and lim: "max_llm_tokens_per_hour q \<noteq> 0"
    and t: "dm_get (usage s) a = Some t"
    and h: "h = saturating_sub (max_llm_tokens_per_hour q) (total_tokens (reset_if_expired now t))"
    by (auto simp: token_headroom_def Let_def split: option.splits if_splits)
  let ?t = "reset_if_expired now t"
  have idem: "reset_if_expired now (reset_if_expired now t) = reset_if_expired now t"
    by (simp add: reset_if_expired_def from_secs_def)
  have same: "reset_if_expired now (?t\<lparr>total_tokens := x\<rparr>) = ?t\<lparr>total_tokens := x\<rparr>" for x
    by (auto simp: reset_if_expired_def from_secs_def)
  from ok q t lim have "total_tokens ?t \<le> max_llm_tokens_per_hour q"
    by (auto simp: check_quota_def Let_def word_neq_0_conv split: if_splits)
  moreover from fits h have "unat (usage_total u) \<le> unat (max_llm_tokens_per_hour q) - unat (total_tokens ?t)"
    by (simp add: word_le_nat_alt unat_saturating_sub)
  ultimately have sum: "unat (total_tokens ?t) + unat (usage_total u) \<le> unat (max_llm_tokens_per_hour q)"
    by (simp add: word_le_nat_alt)
  then have "unat (total_tokens ?t) + unat (usage_total u) < 2 ^ 64"
    using unat_lt_2p [of "max_llm_tokens_per_hour q"] by simp
  then have "total_tokens ?t + usage_total u \<le> max_llm_tokens_per_hour q"
    using sum by (simp add: word_le_nat_alt unat_plus_no_wrap)
  then show ?thesis
    using q t lim by (simp add: token_headroom_def record_usage_def check_quota_def Let_def idem same
        linorder_not_less)
qed

theorem headroom_is_spendable_witness:
  "snd (check_quota (record_usage (fst (token_headroom
      (run sched_step new_scheduler [OpRegister 0 1 (default_quota\<lparr>max_llm_tokens_per_hour := 10\<rparr>),
         OpRecordUsage 5 1 \<lparr>input_tokens = 3, output_tokens = 4\<rparr>]) 6 1)) 6 1
      \<lparr>input_tokens = 1, output_tokens = 2\<rparr>) 6 1) = Inr ()"
  by (rule headroom_is_spendable [where h = 3])
     (simp_all add: token_headroom_def record_usage_def check_quota_def register_def new_scheduler_def
        default_tracker_def default_quota_def reset_if_expired_def elapsed_def from_secs_def
        usage_total_def saturating_sub_def)

end
