(* ===== verification/StrUtils.thy ===== *)
theory StrUtils
  imports Prelude
begin

text \<open>
  UTF-8-safe truncation, from \<open>openfang-runtime/src/str_utils.rs\<close> (the same routine is
  \<open>truncate_str\<close> in \<open>openfang-types/src/lib.rs\<close>), and the JSON values the runtime handles.
  \<open>is_char_boundary\<close> is the standard library's: a position is a boundary when it is the start,
  the end, or does not point at a UTF-8 continuation byte.
\<close>

definition is_continuation :: "char \<Rightarrow> bool" where
  "is_continuation c = (128 \<le> (of_char c :: nat) \<and> (of_char c :: nat) < 192)"

definition is_char_boundary :: "string \<Rightarrow> usize \<Rightarrow> bool" where
  "is_char_boundary s i =
     (if i = 0 \<or> i = length s then True
      else if i < length s then \<not> is_continuation (s ! i) else False)"

text \<open>The loop \<open>while end > 0 && !s.is_char_boundary(end) { end -= 1; }\<close>.\<close>

fun walk_back :: "string \<Rightarrow> usize \<Rightarrow> usize" where
  "walk_back s 0 = 0"
| "walk_back s (Suc e) = (if is_char_boundary s (Suc e) then Suc e else walk_back s e)"

definition safe_truncate_str :: "string \<Rightarrow> usize \<Rightarrow> string" where
  "safe_truncate_str s max_bytes =
     (if length s \<le> max_bytes then s else take (walk_back s max_bytes) s)"

lemma walk_back_le: "walk_back s e \<le> e"
  by (induction s e rule: walk_back.induct) auto

lemma walk_back_boundary: "is_char_boundary s (walk_back s e)"
proof (induction s e rule: walk_back.induct)
  case (1 s)
  show ?case by (simp add: is_char_boundary_def)
qed simp

lemma walk_back_maximal: "walk_back s e < j \<Longrightarrow> j \<le> e \<Longrightarrow> \<not> is_char_boundary s j"
proof (induction s e rule: walk_back.induct)
  case (2 s e)
  then show ?case by (cases "j = Suc e") (auto split: if_splits)
qed simp

text \<open>
  Truncation keeps the longest prefix of at most \<open>max_bytes\<close> bytes that ends on a character
  boundary: the result is such a prefix, and every boundary further on is beyond the limit.
\<close>

theorem safe_truncate_longest_prefix:
  "\<exists>n. safe_truncate_str s m = take n s \<and> n \<le> length s \<and> n \<le> m \<and> is_char_boundary s n
       \<and> \<not> (\<exists>j. n < j \<and> j \<le> m \<and> is_char_boundary s j)"
proof (cases "length s \<le> m")
  case True
  then show ?thesis
    by (intro exI [of _ "length s"]) (auto simp: safe_truncate_str_def is_char_boundary_def)
next
  case False
  moreover have "walk_back s m \<le> m" by (rule walk_back_le)
  ultimately show ?thesis
    by (intro exI [of _ "walk_back s m"])
       (auto simp: safe_truncate_str_def walk_back_boundary dest: walk_back_maximal)
qed

section \<open>JSON values\<close>

text \<open>
  \<open>serde_json::Value\<close>, a third-party type, as far as the code inspects it: a number is its
  literal, an object the list of its members. How a value is printed is a parameter of the
  definitions that need it.
\<close>

datatype json =
    JNull
  | JBool bool
  | JNumber string
  | JString string
  | JArray "json list"
  | JObject "(string \<times> json) list"

fun json_get :: "json \<Rightarrow> string \<Rightarrow> json option" where
  "json_get (JObject kvs) k = map_of kvs k"
| "json_get _ _ = None"

fun json_as_str :: "json \<Rightarrow> string option" where
  "json_as_str (JString s) = Some s"
| "json_as_str _ = None"

end
