(* ===== verification/LoopGuard.thy ===== *)
theory LoopGuard
  imports StrUtils
begin

text \<open>
  The tool loop guard, from \<open>openfang-runtime/src/loop_guard.rs\<close>. The state has the fields of
  \<open>struct LoopGuard\<close>; \<open>check\<close>, \<open>record_outcome\<close>, \<open>get_poll_backoff\<close> and \<open>stats\<close> are translated
  statement by statement.

  SHA-256 with hex output and the JSON printer are third-party code: they are the fields of the
  record \<open>hashing\<close>, a parameter of every definition that hashes a call. Messages are values of
  \<open>guard_msg\<close> that hold what the source's strings interpolate.
\<close>

record hashing =
  sha256_hex :: "string \<Rightarrow> string"
  json_text :: "json \<Rightarrow> string"

section \<open>Configuration, verdicts, state\<close>

definition POLL_TOOLS :: "string list" where
  "POLL_TOOLS = [''shell_exec'']"

definition HISTORY_SIZE :: usize where
  "HISTORY_SIZE = 30"

definition BACKOFF_SCHEDULE_MS :: "u64 list" where
  "BACKOFF_SCHEDULE_MS = [5000, 10000, 30000, 60000]"

record loop_guard_config =
  warn_threshold :: u32
  block_threshold :: u32
  global_circuit_breaker :: u32
  poll_multiplier :: u32
  outcome_warn_threshold :: u32
  outcome_block_threshold :: u32
  ping_pong_min_repeats :: u32
  max_warnings_per_call :: u32

definition default_guard_config :: loop_guard_config where
  "default_guard_config =
     \<lparr>warn_threshold = 3, block_threshold = 5, global_circuit_breaker = 30, poll_multiplier = 3,
      outcome_warn_threshold = 2, outcome_block_threshold = 3, ping_pong_min_repeats = 3,
      max_warnings_per_call = 3\<rparr>"

datatype guard_msg =
    ExceededTotalCalls u32
  | ReturningIdenticalResults string
  | CalledWithIdenticalParams string u32
  | WarningsExhausted string u32
  | HasBeenCalled string u32
  | Alternating string string
  | Cycling string string string

datatype verdict = Allow | Warn guard_msg | Block guard_msg | CircuitBreak guard_msg

record loop_guard =
  config :: loop_guard_config
  call_counts :: "(string, u32) dashmap"
  total_calls :: u32
  outcome_counts :: "(string, u32) dashmap"
  blocked_outcomes :: "string set"
  recent_calls :: "string list"
  warnings_emitted :: "(string, u32) dashmap"
  poll_counts :: "(string, u32) dashmap"
  blocked_calls :: u32
  hash_to_tool :: "(string, string) dashmap"

record loop_guard_stats =
  stats_total_calls :: u32
  stats_unique_calls :: u32
  stats_blocked_calls :: u32
  stats_ping_pong_detected :: bool
  stats_most_repeated_tool :: "string option"
  stats_most_repeated_count :: u32

definition new_guard :: "loop_guard_config \<Rightarrow> loop_guard" where
  "new_guard c =
     \<lparr>config = c, call_counts = [], total_calls = 0, outcome_counts = [], blocked_outcomes = {},
      recent_calls = [], warnings_emitted = [], poll_counts = [], blocked_calls = 0,
      hash_to_tool = []\<rparr>"

section \<open>Hashes and poll detection\<close>

definition compute_hash :: "hashing \<Rightarrow> string \<Rightarrow> json \<Rightarrow> string" where
  "compute_hash hs tool_name params = sha256_hex hs (tool_name @ ''|'' @ json_text hs params)"

definition compute_outcome_hash :: "hashing \<Rightarrow> string \<Rightarrow> json \<Rightarrow> string \<Rightarrow> string" where
  "compute_outcome_hash hs tool_name params result =
     sha256_hex hs (tool_name @ ''|'' @ json_text hs params @ ''|'' @ safe_truncate_str result 1000)"

definition is_poll_command :: "string \<Rightarrow> bool" where
  "is_poll_command cmd_lower =
     (str_contains cmd_lower ''status'' \<or> str_contains cmd_lower ''poll''
      \<or> str_contains cmd_lower ''wait'' \<or> str_contains cmd_lower ''watch''
      \<or> str_contains cmd_lower ''tail'' \<or> str_contains cmd_lower ''ps ''
      \<or> str_contains cmd_lower ''jobs'' \<or> str_contains cmd_lower ''pgrep''
      \<or> str_contains cmd_lower ''docker ps'' \<or> str_contains cmd_lower ''kubectl get'')"

definition is_poll_call :: "hashing \<Rightarrow> string \<Rightarrow> json \<Rightarrow> bool" where
  "is_poll_call hs tool_name params =
     (if tool_name \<in> set POLL_TOOLS
         \<and> (case Option.bind (json_get params ''command'') json_as_str of
              None \<Rightarrow> False | Some cmd \<Rightarrow> is_poll_command (to_lowercase cmd))
      then True
      else (let params_str = to_lowercase (json_text hs params)
            in str_contains params_str ''status'' \<or> str_contains params_str ''poll''
               \<or> str_contains params_str ''wait''))"

section \<open>Ping-pong detection\<close>

definition tool_of :: "loop_guard \<Rightarrow> string \<Rightarrow> string" where
  "tool_of g h = (case dm_get (hash_to_tool g) h of None \<Rightarrow> ''unknown'' | Some t \<Rightarrow> t)"

definition detect_ping_pong :: "loop_guard \<Rightarrow> guard_msg option" where
  "detect_ping_pong g =
     (let rc = recent_calls g; len = length rc;
          two = (let tail = drop (len - 6) rc; a = tail ! 0; b = tail ! 1
                 in len \<ge> 6 \<and> a \<noteq> b \<and> tail ! 2 = a \<and> tail ! 3 = b \<and> tail ! 4 = a \<and> tail ! 5 = b)
      in if two then (let tail = drop (len - 6) rc
                      in Some (Alternating (tool_of g (tail ! 0)) (tool_of g (tail ! 1))))
         else (let tail = drop (len - 9) rc; a = tail ! 0; b = tail ! 1; c = tail ! 2
               in if len \<ge> 9 \<and> \<not> (a = b \<and> b = c)
                     \<and> tail ! 3 = a \<and> tail ! 4 = b \<and> tail ! 5 = c
                     \<and> tail ! 6 = a \<and> tail ! 7 = b \<and> tail ! 8 = c
                  then Some (Cycling (tool_of g a) (tool_of g b) (tool_of g c))
                  else None))"

text \<open>
  The two counting loops. Each iteration steps the index back by the pattern length and stops
  at the first mismatch; the count is at most \<open>HISTORY_SIZE / 2\<close>, so its width does not matter.
\<close>

function count_pairs :: "string list \<Rightarrow> string \<Rightarrow> string \<Rightarrow> nat \<Rightarrow> nat \<Rightarrow> nat" where
  "count_pairs rc a b i repeats =
     (if i \<ge> 2 then
        (if rc ! (i - 2) = a \<and> rc ! (i - 2 + 1) = b then count_pairs rc a b (i - 2) (repeats + 1)
         else repeats)
      else repeats)"
  by pat_completeness auto
termination by (relation "measure (\<lambda>(rc, a, b, i, r). i)") auto

function count_triples :: "string list \<Rightarrow> string \<Rightarrow> string \<Rightarrow> string \<Rightarrow> nat \<Rightarrow> nat \<Rightarrow> nat" where
  "count_triples rc a b c i repeats =
     (if i \<ge> 3 then
        (if rc ! (i - 3) = a \<and> rc ! (i - 3 + 1) = b \<and> rc ! (i - 3 + 2) = c
         then count_triples rc a b c (i - 3) (repeats + 1)
         else repeats)
      else repeats)"
  by pat_completeness auto
termination by (relation "measure (\<lambda>(rc, a, b, c, i, r). i)") auto

declare count_pairs.simps [simp del] count_triples.simps [simp del]

definition count_ping_pong_repeats :: "loop_guard \<Rightarrow> nat" where
  "count_ping_pong_repeats g =
     (let rc = recent_calls g; len = length rc;
          pairs = (let a = rc ! (len - 2); b = rc ! (len - 1)
                   in if len \<ge> 4 \<and> a \<noteq> b then count_pairs rc a b len 0 else 0)
      in if pairs \<ge> 2 then pairs
         else (let a = rc ! (len - 3); b = rc ! (len - 2); c = rc ! (len - 1);
                   triples = (if len \<ge> 6 \<and> \<not> (a = b \<and> b = c) then count_triples rc a b c len 0 else 0)
               in if triples \<ge> 2 then triples else 0))"

section \<open>The operations\<close>

definition push_recent :: "string list \<Rightarrow> string \<Rightarrow> string list" where
  "push_recent rc h = (if length rc \<ge> HISTORY_SIZE then drop 1 rc else rc) @ [h]"

definition bump :: "(string, u32) dashmap \<Rightarrow> string \<Rightarrow> (string, u32) dashmap \<times> u32" where
  "bump m k = (let n = dm_entry m k 0 + 1 in (dm_insert k n m, n))"

definition check_ping_pong :: "loop_guard \<Rightarrow> string \<Rightarrow> loop_guard \<times> verdict" where
  "check_ping_pong g h =
     (case detect_ping_pong g of
        None \<Rightarrow> (g, Allow)
      | Some ping_pong_msg \<Rightarrow>
          (if of_nat (count_ping_pong_repeats g) \<ge> ping_pong_min_repeats (config g)
           then (g\<lparr>blocked_calls := blocked_calls g + 1\<rparr>, Block ping_pong_msg)
           else (let (we, warning_count) = bump (warnings_emitted g) (''pingpong_'' @ h);
                     g' = g\<lparr>warnings_emitted := we\<rparr>
                 in if warning_count \<le> max_warnings_per_call (config g) then (g', Warn ping_pong_msg)
                    else (g', Allow))))"

definition check_call :: "hashing \<Rightarrow> loop_guard \<Rightarrow> string \<Rightarrow> json \<Rightarrow> loop_guard \<times> verdict" where
  "check_call hs g0 tool_name params =
     (let g1 = g0\<lparr>total_calls := total_calls g0 + 1\<rparr>; cfg = config g1
      in if total_calls g1 > global_circuit_breaker cfg
         then (g1\<lparr>blocked_calls := blocked_calls g1 + 1\<rparr>,
               CircuitBreak (ExceededTotalCalls (global_circuit_breaker cfg)))
         else
           (let h = compute_hash hs tool_name params;
                g2 = g1\<lparr>hash_to_tool :=
                          dm_insert h (dm_entry (hash_to_tool g1) h tool_name) (hash_to_tool g1),
                        recent_calls := push_recent (recent_calls g1) h\<rparr>
            in if h \<in> blocked_outcomes g2
               then (g2\<lparr>blocked_calls := blocked_calls g2 + 1\<rparr>,
                     Block (ReturningIdenticalResults tool_name))
               else
                 (let (cc, count_val) = bump (call_counts g2) h;
                      g3 = g2\<lparr>call_counts := cc\<rparr>;
                      multiplier = (if is_poll_call hs tool_name params then poll_multiplier cfg else 1);
                      effective_warn = warn_threshold cfg * multiplier;
                      effective_block = block_threshold cfg * multiplier
                  in if count_val \<ge> effective_block
                     then (g3\<lparr>blocked_calls := blocked_calls g3 + 1\<rparr>,
                           Block (CalledWithIdenticalParams tool_name count_val))
                     else if count_val \<ge> effective_warn
                     then (let (we, warning_count) = bump (warnings_emitted g3) h;
                               g4 = g3\<lparr>warnings_emitted := we\<rparr>
                           in if warning_count > max_warnings_per_call cfg
                              then (g4\<lparr>blocked_calls := blocked_calls g4 + 1\<rparr>,
                                    Block (WarningsExhausted tool_name count_val))
                              else (g4, Warn (HasBeenCalled tool_name count_val)))
                     else check_ping_pong g3 h)))"

definition record_outcome ::
  "hashing \<Rightarrow> loop_guard \<Rightarrow> string \<Rightarrow> json \<Rightarrow> string \<Rightarrow> loop_guard \<times> guard_msg option" where
  "record_outcome hs g tool_name params result =
     (let (oc, count_val) = bump (outcome_counts g) (compute_outcome_hash hs tool_name params result);
          call_hash = compute_hash hs tool_name params;
          g1 = g\<lparr>outcome_counts := oc\<rparr>
      in if count_val \<ge> outcome_block_threshold (config g)
         then (g1\<lparr>blocked_outcomes := insert call_hash (blocked_outcomes g1)\<rparr>,
               Some (ReturningIdenticalResults tool_name))
         else if count_val \<ge> outcome_warn_threshold (config g)
         then (g1, Some (ReturningIdenticalResults tool_name))
         else (g1, None))"

definition get_poll_backoff :: "hashing \<Rightarrow> loop_guard \<Rightarrow> string \<Rightarrow> json \<Rightarrow> loop_guard \<times> u64 option" where
  "get_poll_backoff hs g tool_name params =
     (if \<not> is_poll_call hs tool_name params then (g, None)
      else (let (pc, n) = bump (poll_counts g) (compute_hash hs tool_name params);
                g' = g\<lparr>poll_counts := pc\<rparr>
            in if n \<le> 1 then (g', None)
               else (let idx = unat n - 2
                     in (g', Some (if idx < length BACKOFF_SCHEDULE_MS then BACKOFF_SCHEDULE_MS ! idx
                                   else last BACKOFF_SCHEDULE_MS)))))"

fun most_repeated ::
  "(string, string) dashmap \<Rightarrow> (string \<times> u32) list \<Rightarrow> string option \<times> u32 \<Rightarrow> string option \<times> u32" where
  "most_repeated tools [] acc = acc"
| "most_repeated tools ((h, n) # es) acc =
     most_repeated tools es (if n > snd acc then (dm_get tools h, n) else acc)"

definition stats :: "loop_guard \<Rightarrow> loop_guard_stats" where
  "stats g =
     (let (tool, n) = most_repeated (hash_to_tool g) (call_counts g) (None, 0)
      in \<lparr>stats_total_calls = total_calls g,
          stats_unique_calls = of_nat (length (call_counts g)),
          stats_blocked_calls = blocked_calls g,
          stats_ping_pong_detected = (detect_ping_pong g \<noteq> None),
          stats_most_repeated_tool = tool,
          stats_most_repeated_count = n\<rparr>)"

section \<open>Histories of a guard\<close>

text \<open>A concrete instance of the hashing parameter, for examples: the identity as the hash.\<close>

definition plain_hashing :: hashing where
  "plain_hashing = \<lparr>sha256_hex = id, json_text = (\<lambda>_. ''{}'')\<rparr>"

datatype guard_op =
    OpCheck string json
  | OpOutcome string json string
  | OpBackoff string json

fun guard_step :: "hashing \<Rightarrow> loop_guard \<Rightarrow> guard_op \<Rightarrow> loop_guard" where
  "guard_step hs g (OpCheck t p) = fst (check_call hs g t p)"
| "guard_step hs g (OpOutcome t p r) = fst (record_outcome hs g t p r)"
| "guard_step hs g (OpBackoff t p) = fst (get_poll_backoff hs g t p)"

fun is_check :: "guard_op \<Rightarrow> bool" where
  "is_check (OpCheck _ _) = True"
| "is_check _ = False"

definition checks :: "guard_op list \<Rightarrow> nat" where
  "checks es = length (filter is_check es)"

fun checks_hash :: "hashing \<Rightarrow> string \<Rightarrow> guard_op \<Rightarrow> bool" where
  "checks_hash hs h (OpCheck t p) = (compute_hash hs t p = h)"
| "checks_hash hs h _ = False"

definition checks_of :: "hashing \<Rightarrow> string \<Rightarrow> guard_op list \<Rightarrow> nat" where
  "checks_of hs h es = length (filter (checks_hash hs h) es)"

fun refuses :: "verdict \<Rightarrow> bool" where
  "refuses (Block _) = True"
| "refuses (CircuitBreak _) = True"
| "refuses _ = False"

text \<open>What the operations leave alone.\<close>

lemma ping_pong_frame:
  "config (fst (check_ping_pong g h)) = config g"
  "total_calls (fst (check_ping_pong g h)) = total_calls g"
  "call_counts (fst (check_ping_pong g h)) = call_counts g"
  "blocked_outcomes (fst (check_ping_pong g h)) = blocked_outcomes g"
  "outcome_counts (fst (check_ping_pong g h)) = outcome_counts g"
  "recent_calls (fst (check_ping_pong g h)) = recent_calls g"
  "hash_to_tool (fst (check_ping_pong g h)) = hash_to_tool g"
  by (simp_all add: check_ping_pong_def bump_def Let_def split: option.splits)

lemma check_frame:
  "config (fst (check_call hs g t p)) = config g"
  "total_calls (fst (check_call hs g t p)) = total_calls g + 1"
  "blocked_outcomes (fst (check_call hs g t p)) = blocked_outcomes g"
  "outcome_counts (fst (check_call hs g t p)) = outcome_counts g"
  by (simp_all add: check_call_def bump_def Let_def ping_pong_frame)

lemma outcome_frame:
  "config (fst (record_outcome hs g t p r)) = config g"
  "total_calls (fst (record_outcome hs g t p r)) = total_calls g"
  "call_counts (fst (record_outcome hs g t p r)) = call_counts g"
  "recent_calls (fst (record_outcome hs g t p r)) = recent_calls g"
  "hash_to_tool (fst (record_outcome hs g t p r)) = hash_to_tool g"
  "blocked_outcomes g \<subseteq> blocked_outcomes (fst (record_outcome hs g t p r))"
  by (auto simp: record_outcome_def bump_def Let_def)

lemma backoff_frame:
  "config (fst (get_poll_backoff hs g t p)) = config g"
  "total_calls (fst (get_poll_backoff hs g t p)) = total_calls g"
  "call_counts (fst (get_poll_backoff hs g t p)) = call_counts g"
  "blocked_outcomes (fst (get_poll_backoff hs g t p)) = blocked_outcomes g"
  "outcome_counts (fst (get_poll_backoff hs g t p)) = outcome_counts g"
  "recent_calls (fst (get_poll_backoff hs g t p)) = recent_calls g"
  "hash_to_tool (fst (get_poll_backoff hs g t p)) = hash_to_tool g"
  by (simp_all add: get_poll_backoff_def bump_def Let_def)

lemmas guard_frames = check_frame outcome_frame backoff_frame

lemma config_run [simp]: "config (run (guard_step hs) g es) = config g"
proof (induction es arbitrary: g)
  case (Cons e es)
  then show ?case by (cases e) (simp_all add: guard_frames)
qed simp

lemma total_run: "total_calls (run (guard_step hs) g es) = total_calls g + of_nat (checks es)"
proof (induction es arbitrary: g)
  case (Cons e es)
  then show ?case by (cases e) (simp_all add: guard_frames checks_def)
qed (simp add: checks_def)

lemma blocked_mono: "h \<in> blocked_outcomes g \<Longrightarrow> h \<in> blocked_outcomes (run (guard_step hs) g es)"
proof (induction es arbitrary: g)
  case (Cons e es)
  then show ?case
    using outcome_frame(6) by (cases e) (auto simp: guard_frames subset_iff)
qed simp

lemma unat_total_run:
  assumes "checks es < 2 ^ 32"
  shows "unat (total_calls (run (guard_step hs) (new_guard c) es)) = checks es"
  using assms by (simp add: total_run new_guard_def unat_of_nat)

text \<open>
  Unless its hash is blocked or the circuit breaker has tripped, a call's counter is the
  number of its checks so far.
\<close>

definition counted :: "hashing \<Rightarrow> string \<Rightarrow> loop_guard \<Rightarrow> nat \<Rightarrow> bool" where
  "counted hs h g k \<longleftrightarrow> h \<in> blocked_outcomes g \<or> total_calls g > global_circuit_breaker (config g)
      \<or> dm_entry (call_counts g) h 0 = of_nat k"

lemma counts_of_check:
  assumes "total_calls g + 1 \<le> global_circuit_breaker (config g)"
    and "compute_hash hs t p \<notin> blocked_outcomes g"
  shows "dm_entry (call_counts (fst (check_call hs g t p))) h 0 =
     dm_entry (call_counts g) h 0 + (if compute_hash hs t p = h then 1 else 0)"
  using assms
  by (auto simp: check_call_def bump_def Let_def ping_pong_frame dm_entry_def split: option.splits)

lemma counts_of_blocked_check:
  assumes "compute_hash hs t p \<noteq> h"
  shows "dm_entry (call_counts (fst (check_call hs g t p))) h 0 = dm_entry (call_counts g) h 0"
  using assms
  by (auto simp: check_call_def bump_def Let_def ping_pong_frame dm_entry_def split: option.splits)

lemma counted_run:
  assumes "checks es < 2 ^ 32"
  shows "counted hs h (run (guard_step hs) (new_guard c) es) (checks_of hs h es)"
  using assms
proof (induction es rule: rev_induct)
  case Nil
  show ?case by (simp add: counted_def checks_of_def new_guard_def dm_entry_def)
next
  case (snoc e es)
  let ?g = "run (guard_step hs) (new_guard c) es"
  have IH: "counted hs h ?g (checks_of hs h es)"
    using snoc by (simp add: checks_def split: if_splits)
  show ?case
  proof (cases e)
    case (OpCheck t p)
    then have n: "checks es + 1 < 2 ^ 32" using snoc.prems by (simp add: checks_def)
    then have tot: "unat (total_calls ?g) = checks es" "unat (total_calls ?g + 1) = checks es + 1"
      using unat_total_run [of es hs c] by (simp_all add: unat_plus_one_u32)
    show ?thesis
    proof (cases "h \<in> blocked_outcomes ?g \<or> total_calls ?g + 1 > global_circuit_breaker (config ?g)")
      case True
      then show ?thesis using OpCheck by (auto simp: counted_def run_append guard_frames)
    next
      case False
      then have "\<not> total_calls ?g > global_circuit_breaker (config ?g)"
        using tot by (auto simp: word_less_nat_alt)
      with False IH have eq: "dm_entry (call_counts ?g) h 0 = of_nat (checks_of hs h es)"
        by (auto simp: counted_def)
      show ?thesis
      proof (cases "compute_hash hs t p = h")
        case True
        then have "dm_entry (call_counts (fst (check_call hs ?g t p))) h 0 = of_nat (checks_of hs h es + 1)"
          using counts_of_check [of ?g hs t p h] False eq
          by (simp add: linorder_not_less add.commute)
        then show ?thesis using OpCheck True by (simp add: counted_def run_append checks_of_def)
      next
        case neq: False
        then show ?thesis
          using OpCheck eq counts_of_blocked_check [OF neq, of ?g]
          by (simp add: counted_def run_append checks_of_def)
      qed
    qed
  next
    case (OpOutcome t p r)
    then show ?thesis
      using IH subsetD [OF outcome_frame(6) [of ?g hs t p r]]
      by (auto simp: counted_def run_append guard_frames checks_of_def)
  next
    case (OpBackoff t p)
    then show ?thesis using IH by (simp add: counted_def run_append guard_frames checks_of_def)
  qed
qed

lemma refuses_blocked: "compute_hash hs t p \<in> blocked_outcomes g \<Longrightarrow> refuses (snd (check_call hs g t p))"
  by (simp add: check_call_def Let_def)

lemma refuses_tripped:
  "total_calls g + 1 > global_circuit_breaker (config g) \<Longrightarrow>
   snd (check_call hs g t p) = CircuitBreak (ExceededTotalCalls (global_circuit_breaker (config g)))"
  by (simp add: check_call_def Let_def)

definition effective_block :: "hashing \<Rightarrow> loop_guard_config \<Rightarrow> string \<Rightarrow> json \<Rightarrow> u32" where
  "effective_block hs c t p =
     block_threshold c * (if is_poll_call hs t p then poll_multiplier c else 1)"

lemma refuses_count:
  "dm_entry (call_counts g) (compute_hash hs t p) 0 + 1 \<ge> effective_block hs (config g) t p \<Longrightarrow>
   refuses (snd (check_call hs g t p))"
  by (cases "is_poll_call hs t p") (simp_all add: check_call_def Let_def bump_def effective_block_def)

text \<open>Outcomes: the counter of an outcome hash is the number of recorded outcomes with that hash.\<close>

fun is_outcome :: "guard_op \<Rightarrow> bool" where
  "is_outcome (OpOutcome _ _ _) = True"
| "is_outcome _ = False"

fun outcome_hash_is :: "hashing \<Rightarrow> string \<Rightarrow> guard_op \<Rightarrow> bool" where
  "outcome_hash_is hs h (OpOutcome t p r) = (compute_outcome_hash hs t p r = h)"
| "outcome_hash_is hs h _ = False"

lemma outcome_counts_step:
  "dm_entry (outcome_counts (guard_step hs g e)) h 0 =
     dm_entry (outcome_counts g) h 0 + (if outcome_hash_is hs h e then 1 else 0)"
  by (cases e)
     (auto simp: guard_frames record_outcome_def bump_def Let_def dm_entry_def split: option.splits)

lemma outcome_counts_run:
  "dm_entry (outcome_counts (run (guard_step hs) g es)) h 0 =
     dm_entry (outcome_counts g) h 0 + of_nat (length (filter (outcome_hash_is hs h) es))"
  by (induction es arbitrary: g) (simp_all add: outcome_counts_step)

lemma outcome_blocks:
  "dm_entry (outcome_counts g) (compute_outcome_hash hs t p r) 0 + 1 \<ge> outcome_block_threshold (config g)
   \<Longrightarrow> compute_hash hs t p \<in> blocked_outcomes (fst (record_outcome hs g t p r))"
  by (simp add: record_outcome_def bump_def Let_def)

text \<open>The last of several occurrences of an operation in a history.\<close>

lemma last_occurrence:
  assumes "e \<in> set es"
  obtains xs ys where "es = xs @ e # ys" "e \<notin> set ys"
  using assms by (meson split_list_last)

lemma outcome_blocked_run:
  assumes "length (filter is_outcome es) < 2 ^ 32"
    and "count_list es (OpOutcome t p r) \<ge> unat (outcome_block_threshold c)"
    and "OpOutcome t p r \<in> set es"
  shows "compute_hash hs t p \<in> blocked_outcomes (run (guard_step hs) (new_guard c) es)"
proof -
  let ?e = "OpOutcome t p r" and ?oh = "compute_outcome_hash hs t p r"
  obtain xs ys where es: "es = xs @ ?e # ys" and last: "?e \<notin> set ys"
    using assms(3) by (rule last_occurrence)
  let ?g = "run (guard_step hs) (new_guard c) xs" and ?n = "length (filter (outcome_hash_is hs ?oh) xs)"
  have "count_list xs ?e \<le> ?n"
    by (induction xs) auto
  then have ge: "unat (outcome_block_threshold c) \<le> ?n + 1"
    using assms(2) es last by (simp add: count_list_0_iff)
  have "?n \<le> length (filter is_outcome xs)"
  proof (induction xs)
    case (Cons a xs)
    then show ?case by (cases a) auto
  qed simp
  then have "?n + 1 < 2 ^ 32" using assms(1) es by simp
  then have "unat (of_nat (?n + 1) :: u32) = ?n + 1"
    by (simp add: unat_of_nat del: of_nat_add of_nat_Suc)
  moreover have "dm_entry (outcome_counts (new_guard c)) ?oh 0 = 0"
    by (simp add: new_guard_def dm_entry_def)
  ultimately have "dm_entry (outcome_counts ?g) ?oh 0 + 1 \<ge> outcome_block_threshold c"
    using ge by (simp add: outcome_counts_run word_le_nat_alt add.commute)
  then have "dm_entry (outcome_counts ?g) ?oh 0 + 1 \<ge> outcome_block_threshold (config ?g)"
    by (simp add: new_guard_def)
  then have "compute_hash hs t p \<in> blocked_outcomes (guard_step hs ?g ?e)"
    using outcome_blocks [of ?g hs t p r] by simp
  then show ?thesis
    using blocked_mono [of "compute_hash hs t p" "guard_step hs ?g ?e" hs ys]
    by (simp add: es run_append)
qed

section \<open>The guard's invariant\<close>

definition guard_inv :: "loop_guard \<Rightarrow> bool" where
  "guard_inv g \<longleftrightarrow> length (recent_calls g) \<le> HISTORY_SIZE
     \<and> (\<forall>h\<in>set (recent_calls g). dm_get (hash_to_tool g) h \<noteq> None)
     \<and> (\<forall>h. dm_get (call_counts g) h \<noteq> None \<longrightarrow> dm_get (hash_to_tool g) h \<noteq> None)"

lemma set_push_recent: "set (push_recent rc h) \<subseteq> insert h (set rc)"
  by (auto simp: push_recent_def dest: in_set_dropD)

lemma length_push_recent: "length rc \<le> HISTORY_SIZE \<Longrightarrow> length (push_recent rc h) \<le> HISTORY_SIZE"
  by (auto simp: push_recent_def HISTORY_SIZE_def)

lemma check_maps:
  "hash_to_tool (fst (check_call hs g t p)) = hash_to_tool g \<and> recent_calls (fst (check_call hs g t p)) = recent_calls g
     \<and> call_counts (fst (check_call hs g t p)) = call_counts g
   \<or> (let h = compute_hash hs t p; g' = fst (check_call hs g t p) in
      hash_to_tool g' = dm_insert h (dm_entry (hash_to_tool g) h t) (hash_to_tool g)
      \<and> recent_calls g' = push_recent (recent_calls g) h
      \<and> (call_counts g' = call_counts g \<or> (\<exists>n. call_counts g' = dm_insert h n (call_counts g))))"
  by (auto simp add: check_call_def Let_def bump_def ping_pong_frame)

interpretation guard: machine "guard_step hs" "\<lambda>_ _. True" guard_inv for hs
proof
  fix g :: loop_guard and e
  assume inv: "guard_inv g"
  show "guard_inv (guard_step hs g e)"
  proof (cases e)
    case (OpCheck t p)
    from check_maps [of hs g t p] show ?thesis
    proof (elim disjE)
      assume "let h = compute_hash hs t p; g' = fst (check_call hs g t p) in
        hash_to_tool g' = dm_insert h (dm_entry (hash_to_tool g) h t) (hash_to_tool g)
        \<and> recent_calls g' = push_recent (recent_calls g) h
        \<and> (call_counts g' = call_counts g \<or> (\<exists>n. call_counts g' = dm_insert h n (call_counts g)))"
      then show ?thesis
        using inv OpCheck set_push_recent [of "recent_calls g" "compute_hash hs t p"]
        by (auto simp: guard_inv_def Let_def length_push_recent split: if_splits)
    qed (use inv OpCheck in \<open>simp add: guard_inv_def\<close>)
  qed (use inv in \<open>simp_all add: guard_inv_def guard_frames\<close>)
qed

lemma guard_inv_run: "guard_inv (run (guard_step hs) (new_guard c) es)"
  by (rule guard.run_inv) (simp_all add: guard_inv_def new_guard_def)

section \<open>A detected ping-pong pattern has three repeats\<close>

lemma count_pairs_ge: "repeats \<le> count_pairs rc a b i repeats"
proof (induction rc a b i repeats rule: count_pairs.induct)
  case (1 rc a b i repeats)
  then show ?case by (subst count_pairs.simps) (simp, linarith?)
qed

lemma count_triples_ge: "repeats \<le> count_triples rc a b c i repeats"
proof (induction rc a b c i repeats rule: count_triples.induct)
  case (1 rc a b c i repeats)
  then show ?case by (subst count_triples.simps) (simp, linarith?)
qed

lemma count_pairs_le: "count_pairs rc a b i repeats \<le> repeats + i"
proof (induction rc a b i repeats rule: count_pairs.induct)
  case (1 rc a b i repeats)
  then show ?case by (subst count_pairs.simps) (simp, linarith?)
qed

lemma count_triples_le: "count_triples rc a b c i repeats \<le> repeats + i"
proof (induction rc a b c i repeats rule: count_triples.induct)
  case (1 rc a b c i repeats)
  then show ?case by (subst count_triples.simps) (simp, linarith?)
qed

lemma repeats_le: "count_ping_pong_repeats g \<le> length (recent_calls g)"
proof -
  have "count_pairs (recent_calls g) a b n 0 \<le> n" "count_triples (recent_calls g) a b c n 0 \<le> n" for a b c n
    using count_pairs_le [of "recent_calls g" a b n 0] count_triples_le [of "recent_calls g" a b c n 0]
    by simp_all
  then show ?thesis by (simp add: count_ping_pong_repeats_def Let_def)
qed

text \<open>The two patterns as the end of the history.\<close>

definition ends_in_pairs :: "string list \<Rightarrow> bool" where
  "ends_in_pairs rc \<longleftrightarrow> (\<exists>pre a b. a \<noteq> b \<and> rc = pre @ [a, b, a, b, a, b])"

definition ends_in_triples :: "string list \<Rightarrow> bool" where
  "ends_in_triples rc \<longleftrightarrow>
     (\<exists>pre a b c. \<not> (a = b \<and> b = c) \<and> rc = pre @ [a, b, c, a, b, c, a, b, c])"

lemma six_elems:
  assumes "length ys = 6"
  obtains u v w x y z where "ys = [u, v, w, x, y, z]"
  using assms by (auto simp: numeral_eq_Suc length_Suc_conv)

lemma nine_elems:
  assumes "length ys = 9"
  obtains r s t u v w x y z where "ys = [r, s, t, u, v, w, x, y, z]"
  using assms by (auto simp: numeral_eq_Suc length_Suc_conv)

lemma last_six:
  assumes "length rc \<ge> 6"
  obtains pre u v w x y z where "rc = pre @ [u, v, w, x, y, z]"
proof -
  have "length (drop (length rc - 6) rc) = 6" using assms by simp
  then obtain u v w x y z where "drop (length rc - 6) rc = [u, v, w, x, y, z]" by (rule six_elems)
  then show thesis using that [of "take (length rc - 6) rc" u v w x y z] by (metis append_take_drop_id)
qed

lemma last_nine:
  assumes "length rc \<ge> 9"
  obtains pre r s t u v w x y z where "rc = pre @ [r, s, t, u, v, w, x, y, z]"
proof -
  have "length (drop (length rc - 9) rc) = 9" using assms by simp
  then obtain r s t u v w x y z where "drop (length rc - 9) rc = [r, s, t, u, v, w, x, y, z]"
    by (rule nine_elems)
  then show thesis using that [of "take (length rc - 9) rc" r s t u v w x y z] by (metis append_take_drop_id)
qed

lemma detect_cases:
  assumes "detect_ping_pong g = Some m"
  shows "ends_in_pairs (recent_calls g) \<or> ends_in_triples (recent_calls g)"
proof -
  let ?rc = "recent_calls g"
  consider (two) "length ?rc \<ge> 6"
      "let t = drop (length ?rc - 6) ?rc in t ! 0 \<noteq> t ! 1 \<and> t ! 2 = t ! 0 \<and> t ! 3 = t ! 1 \<and> t ! 4 = t ! 0 \<and> t ! 5 = t ! 1"
    | (three) "length ?rc \<ge> 9"
      "let t = drop (length ?rc - 9) ?rc in \<not> (t ! 0 = t ! 1 \<and> t ! 1 = t ! 2) \<and> t ! 3 = t ! 0 \<and> t ! 4 = t ! 1
         \<and> t ! 5 = t ! 2 \<and> t ! 6 = t ! 0 \<and> t ! 7 = t ! 1 \<and> t ! 8 = t ! 2"
    using assms by (simp add: detect_ping_pong_def Let_def split: if_splits)
  then show ?thesis
  proof cases
    case two
    from last_six [OF two(1)] obtain pre u v w x y z where rc: "?rc = pre @ [u, v, w, x, y, z]" .
    with two(2) have "u \<noteq> v \<and> w = u \<and> x = v \<and> y = u \<and> z = v" by simp
    with rc show ?thesis unfolding ends_in_pairs_def by blast
  next
    case three
    from last_nine [OF three(1)] obtain pre r s t u v w x y z
      where rc: "?rc = pre @ [r, s, t, u, v, w, x, y, z]" .
    with three(2) have "\<not> (r = s \<and> s = t) \<and> u = r \<and> v = s \<and> w = t \<and> x = r \<and> y = s \<and> z = t" by simp
    with rc show ?thesis unfolding ends_in_triples_def by blast
  qed
qed

lemma count_pairs_step:
  "rc ! i = a \<Longrightarrow> rc ! Suc i = b \<Longrightarrow> count_pairs rc a b (i + 2) r = count_pairs rc a b i (Suc r)"
  by (subst count_pairs.simps) simp

lemma count_pairs_stop: "rc ! i \<noteq> a \<Longrightarrow> count_pairs rc a b (i + 2) r = r"
  by (subst count_pairs.simps) simp

lemma count_triples_step:
  "rc ! i = a \<Longrightarrow> rc ! Suc i = b \<Longrightarrow> rc ! Suc (Suc i) = c \<Longrightarrow>
   count_triples rc a b c (i + 3) r = count_triples rc a b c i (Suc r)"
  by (subst count_triples.simps) (simp add: add_2_eq_Suc')

lemma pairs_repeats:
  assumes rc: "recent_calls g = pre @ [a, b, a, b, a, b]" and neq: "a \<noteq> b"
  shows "3 \<le> count_ping_pong_repeats g"
proof -
  let ?rc = "recent_calls g" and ?n = "length pre"
  have nth: "?rc ! (?n + k) = [a, b, a, b, a, b] ! k" for k
    by (simp add: rc nth_append_length_plus)
  have at: "?rc ! ?n = a" "?rc ! Suc ?n = b" "?rc ! (?n + 2) = a" "?rc ! Suc (?n + 2) = b"
    "?rc ! (?n + 4) = a" "?rc ! Suc (?n + 4) = b"
    using nth [of 0] nth [of 1] nth [of 2] nth [of 3] nth [of 4] nth [of 5] by (simp_all add: numeral_eq_Suc)
  have len: "length ?rc = ?n + 6" by (simp add: rc)
  have "count_pairs ?rc a b (?n + 4 + 2) 0 = count_pairs ?rc a b (?n + 2 + 2) 1"
    using count_pairs_step [OF at(5,6)] by (simp add: numeral_eq_Suc)
  also have "\<dots> = count_pairs ?rc a b (?n + 2) 2"
    using count_pairs_step [OF at(3,4)] by (simp add: numeral_eq_Suc)
  also have "\<dots> = count_pairs ?rc a b ?n 3"
    using count_pairs_step [OF at(1,2)] by (simp add: numeral_eq_Suc)
  also have "\<dots> \<ge> 3" by (rule count_pairs_ge)
  finally have three: "3 \<le> count_pairs ?rc a b (length ?rc) 0" by (simp add: len add.commute)
  have "?rc ! (length ?rc - 2) = a" "?rc ! (length ?rc - 1) = b"
    using at(5,6) by (simp_all add: len add.commute)
  then show ?thesis
    using three neq by (simp add: count_ping_pong_repeats_def Let_def len)
qed

lemma triples_repeats:
  assumes rc: "recent_calls g = pre @ [a, b, c, a, b, c, a, b, c]" and neq: "\<not> (a = b \<and> b = c)"
  shows "3 \<le> count_ping_pong_repeats g"
proof -
  let ?rc = "recent_calls g" and ?n = "length pre"
  have nth: "?rc ! (?n + k) = [a, b, c, a, b, c, a, b, c] ! k" for k
    by (simp add: rc nth_append_length_plus)
  have at: "?rc ! ?n = a" "?rc ! Suc ?n = b" "?rc ! Suc (Suc ?n) = c"
    "?rc ! (?n + 3) = a" "?rc ! Suc (?n + 3) = b" "?rc ! Suc (Suc (?n + 3)) = c"
    "?rc ! (?n + 6) = a" "?rc ! Suc (?n + 6) = b" "?rc ! Suc (Suc (?n + 6)) = c"
    using nth [of 0] nth [of 1] nth [of 2] nth [of 3] nth [of 4] nth [of 5] nth [of 6] nth [of 7] nth [of 8]
    by (simp_all add: numeral_eq_Suc)
  have at5: "?rc ! (?n + 5) = c" "?rc ! (?n + 7) = b" "?rc ! Suc (?n + 7) = c"
    using nth [of 5] nth [of 7] nth [of 8] by (simp_all add: numeral_eq_Suc)
  have len: "length ?rc = ?n + 9" by (simp add: rc)
  have "count_triples ?rc a b c (?n + 6 + 3) 0 = count_triples ?rc a b c (?n + 3 + 3) 1"
    using count_triples_step [OF at(7-9)] by (simp add: numeral_eq_Suc)
  also have "\<dots> = count_triples ?rc a b c (?n + 3) 2"
    using count_triples_step [OF at(4-6)] by (simp add: numeral_eq_Suc)
  also have "\<dots> = count_triples ?rc a b c ?n 3"
    using count_triples_step [OF at(1-3)] by (simp add: numeral_eq_Suc)
  also have "\<dots> \<ge> 3" by (rule count_triples_ge)
  finally have three: "3 \<le> count_triples ?rc a b c (length ?rc) 0" by (simp add: len add.commute)
  have one: "count_pairs ?rc b c (length ?rc) 0 = 1" if "b \<noteq> c"
  proof -
    have "count_pairs ?rc b c (?n + 7 + 2) 0 = count_pairs ?rc b c (?n + 5 + 2) 1"
      using count_pairs_step [OF at5(2,3)] by (simp add: numeral_eq_Suc)
    also have "\<dots> = 1" using count_pairs_stop [of ?rc "?n + 5" b c] at5(1) that by simp
    finally show ?thesis by (simp add: len add.commute)
  qed
  have "?rc ! (length ?rc - 3) = a" "?rc ! (length ?rc - 2) = b" "?rc ! (length ?rc - 1) = c"
    using at(7) at5(2,3) by (simp_all add: len add.commute)
  then show ?thesis
    using three one neq by (simp add: count_ping_pong_repeats_def Let_def len)
qed

lemma detected_repeats: "detect_ping_pong g = Some m \<Longrightarrow> 3 \<le> count_ping_pong_repeats g"
  using detect_cases [of g m] pairs_repeats [of g] triples_repeats [of g]
  by (auto simp: ends_in_pairs_def ends_in_triples_def)

lemma check_warn_msg:
  assumes warn: "snd (check_call hs g t p) = Warn m" and inv: "guard_inv g"
    and few: "unat (ping_pong_min_repeats (config g)) \<le> 3"
  shows "\<exists>n. m = HasBeenCalled t n"
proof -
  have ping: "snd (check_ping_pong g' h) \<noteq> Warn m'" if "config g' = config g"
    "length (recent_calls g') \<le> HISTORY_SIZE" for g' h m'
  proof (cases "detect_ping_pong g'")
    case (Some d)
    have "count_ping_pong_repeats g' < 2 ^ 32"
      using repeats_le [of g'] that(2) by (simp add: HISTORY_SIZE_def)
    then have "of_nat (count_ping_pong_repeats g') \<ge> ping_pong_min_repeats (config g')"
      using detected_repeats [OF Some] few that(1) by (simp add: word_le_nat_alt unat_of_nat)
    then show ?thesis using Some by (simp add: check_ping_pong_def)
  qed (simp add: check_ping_pong_def)
  let ?h = "compute_hash hs t p"
  have "length (push_recent (recent_calls g) ?h) \<le> HISTORY_SIZE"
    using inv length_push_recent by (simp add: guard_inv_def)
  then have "snd (check_ping_pong (g\<lparr>total_calls := x, hash_to_tool := ht,
      recent_calls := push_recent (recent_calls g) ?h, call_counts := cc\<rparr>) ?h) \<noteq> Warn m" for x ht cc
    by (intro ping) simp_all
  with warn show ?thesis
    by (auto simp: check_call_def Let_def bump_def split: if_splits)
qed

lemma most_repeated_named:
  "snd acc \<noteq> 0 \<longrightarrow> fst acc \<noteq> None \<Longrightarrow> \<forall>h\<in>fst ` set cs. dm_get tools h \<noteq> None \<Longrightarrow>
   snd (most_repeated tools cs acc) \<noteq> 0 \<longrightarrow> fst (most_repeated tools cs acc) \<noteq> None"
proof (induction tools cs acc rule: most_repeated.induct)
  case (2 tools h n es acc)
  have "snd (if n > snd acc then (dm_get tools h, n) else acc) \<noteq> 0 \<longrightarrow>
     fst (if n > snd acc then (dm_get tools h, n) else acc) \<noteq> None"
    using "2.prems" by simp
  from "2.IH" [OF this] "2.prems"(2) show ?case by simp
qed simp

section \<open>Properties\<close>

text \<open>
  The circuit breaker bounds the loop. Once a history contains as many tool calls as the
  global limit, every further call is answered with \<open>CircuitBreak\<close>, whatever the tools, the
  parameters and the outcomes recorded in between.
\<close>

theorem circuit_breaker_trips:
  assumes "unat (global_circuit_breaker c) \<le> checks es" and "checks es + 1 < 2 ^ 32"
  shows "snd (check_call hs (run (guard_step hs) (new_guard c) es) t p) =
           CircuitBreak (ExceededTotalCalls (global_circuit_breaker c))"
proof -
  let ?g = "run (guard_step hs) (new_guard c) es"
  have "unat (total_calls ?g + 1) = checks es + 1"
    using unat_total_run [of es hs c] assms(2) by (simp add: unat_plus_one_u32)
  then have "total_calls ?g + 1 > global_circuit_breaker (config ?g)"
    using assms(1) by (simp add: word_less_nat_alt new_guard_def)
  then show ?thesis
    using refuses_tripped [of ?g hs t p] by (simp add: new_guard_def)
qed

theorem circuit_breaker_trips_witness:
  "snd (check_call plain_hashing (run (guard_step plain_hashing) (new_guard (default_guard_config\<lparr>global_circuit_breaker := 2\<rparr>))
      [OpCheck ''a'' JNull, OpOutcome ''a'' JNull ''x'', OpCheck ''b'' JNull]) ''c'' JNull)
   = CircuitBreak (ExceededTotalCalls 2)"
  using circuit_breaker_trips [of "default_guard_config\<lparr>global_circuit_breaker := 2\<rparr>"
    "[OpCheck ''a'' JNull, OpOutcome ''a'' JNull ''x'', OpCheck ''b'' JNull]" plain_hashing "''c''" JNull]
  by (simp add: checks_def)

text \<open>
  C9: a repeated call is refused for good. Once a history contains one check less than the
  block threshold of a call (times the poll multiplier for a poll call), the next and every
  later check of that call is blocked or circuit-broken, whatever is interleaved.
\<close>

theorem repeated_call_refused:
  assumes "unat (effective_block hs c t p) \<le> checks_of hs (compute_hash hs t p) es + 1"
    and "checks es + 1 < 2 ^ 32"
  shows "refuses (snd (check_call hs (run (guard_step hs) (new_guard c) es) t p))"
proof -
  let ?g = "run (guard_step hs) (new_guard c) es" and ?h = "compute_hash hs t p"
  have "counted hs ?h ?g (checks_of hs ?h es)"
    using counted_run assms(2) by simp
  then consider "?h \<in> blocked_outcomes ?g" | "total_calls ?g > global_circuit_breaker (config ?g)"
    | "dm_entry (call_counts ?g) ?h 0 = of_nat (checks_of hs ?h es)"
    by (auto simp: counted_def)
  then show ?thesis
  proof cases
    case 2
    have "unat (total_calls ?g + 1) = unat (total_calls ?g) + 1"
      using unat_total_run [of es hs c] assms(2) by (simp add: unat_plus_one_u32)
    with 2 have "total_calls ?g + 1 > global_circuit_breaker (config ?g)"
      by (simp add: word_less_nat_alt)
    then show ?thesis using refuses_tripped by simp
  next
    case 3
    have "checks_of hs ?h es \<le> checks es"
    proof (induction es)
      case (Cons e es)
      then show ?case by (cases e) (auto simp: checks_of_def checks_def)
    qed (simp add: checks_of_def)
    then have "unat (of_nat (checks_of hs ?h es + 1) :: u32) = checks_of hs ?h es + 1"
      using assms(2) by (simp add: unat_of_nat del: of_nat_add of_nat_Suc)
    with assms(1) have "effective_block hs c t p \<le> of_nat (checks_of hs ?h es + 1)"
      by (simp add: word_le_nat_alt)
    with 3 show ?thesis
      using refuses_count [of hs ?g t p] by (simp add: new_guard_def add.commute)
  qed (rule refuses_blocked)
qed

theorem repeated_call_refused_witness:
  "refuses (snd (check_call plain_hashing
     (run (guard_step plain_hashing) (new_guard default_guard_config)
       [OpCheck ''read'' JNull, OpCheck ''read'' JNull, OpCheck ''ls'' JNull, OpCheck ''read'' JNull,
        OpOutcome ''read'' JNull ''x'', OpCheck ''read'' JNull]) ''read'' JNull))"
  by (rule repeated_call_refused)
     (simp_all add: effective_block_def default_guard_config_def is_poll_call_def POLL_TOOLS_def plain_hashing_def
        checks_of_def checks_def compute_hash_def to_lowercase_def char_to_lower_def starts_with_def)

text \<open>
  Identical outcomes block the call. Once a history has recorded the same outcome of the
  same call as often as the outcome threshold says, every later check of that call is refused.
\<close>

theorem identical_outcomes_refused:
  assumes "OpOutcome t p r \<in> set es"
    and "unat (outcome_block_threshold c) \<le> count_list es (OpOutcome t p r)"
    and "length (filter is_outcome es) < 2 ^ 32"
  shows "refuses (snd (check_call hs (run (guard_step hs) (new_guard c) es) t p))"
  using refuses_blocked outcome_blocked_run [OF assms(3,2,1)] by blast

theorem identical_outcomes_refused_witness:
  "refuses (snd (check_call plain_hashing (run (guard_step plain_hashing) (new_guard default_guard_config)
     [OpOutcome ''read'' JNull ''x'', OpCheck ''ls'' JNull, OpOutcome ''read'' JNull ''x'',
      OpOutcome ''read'' JNull ''x'']) ''read'' JNull))"
  by (rule identical_outcomes_refused [where r = "''x''"]) (simp_all add: default_guard_config_def)

text \<open>
  Ping-pong detection never only warns. A detected pattern of length two or three always
  has at least three repeats, so with a minimum of three or less (the default is three) the
  code's branch that warns about a ping-pong is unreachable: in every reachable state a warning
  is about the repetition of the call itself.
\<close>

theorem ping_pong_warning_unreachable:
  assumes "unat (ping_pong_min_repeats c) \<le> 3"
    and "snd (check_call hs (run (guard_step hs) (new_guard c) es) t p) = Warn m"
  shows "\<exists>n. m = HasBeenCalled t n"
  by (rule check_warn_msg [OF assms(2) guard_inv_run]) (use assms(1) in \<open>simp add: new_guard_def\<close>)

theorem ping_pong_warning_unreachable_witness:
  "\<exists>n. snd (check_call plain_hashing (run (guard_step plain_hashing) (new_guard default_guard_config)
     [OpCheck ''a'' JNull, OpCheck ''a'' JNull]) ''a'' JNull) = Warn (HasBeenCalled ''a'' n)"
proof -
  have "snd (check_call plain_hashing (run (guard_step plain_hashing) (new_guard default_guard_config)
     [OpCheck ''a'' JNull, OpCheck ''a'' JNull]) ''a'' JNull) = Warn (HasBeenCalled ''a'' 3)"
    by code_simp
  then show ?thesis
    using ping_pong_warning_unreachable [of default_guard_config plain_hashing
        "[OpCheck ''a'' JNull, OpCheck ''a'' JNull]"]
    by (simp add: default_guard_config_def)
qed

text \<open>
  The guard's bookkeeping. In every reachable state the history holds at most thirty
  hashes, every hash in it and every counted hash has a tool name, and so \<open>stats\<close> names a tool
  whenever it reports a positive count.
\<close>

theorem stats_name_the_tool:
  "length (recent_calls (run (guard_step hs) (new_guard c) es)) \<le> HISTORY_SIZE
   \<and> (case stats_most_repeated_tool (stats (run (guard_step hs) (new_guard c) es)) of
        None \<Rightarrow> stats_most_repeated_count (stats (run (guard_step hs) (new_guard c) es)) = 0
      | Some _ \<Rightarrow> True)"
proof -
  let ?g = "run (guard_step hs) (new_guard c) es"
  have inv: "guard_inv ?g" by (rule guard_inv_run)
  have "\<forall>h\<in>fst ` set (call_counts ?g). dm_get (hash_to_tool ?g) h \<noteq> None"
    using inv dm_keys_get [of _ "call_counts ?g"] by (auto simp: guard_inv_def dm_keys_def)
  then have "snd (most_repeated (hash_to_tool ?g) (call_counts ?g) (None, 0)) \<noteq> 0 \<longrightarrow>
     fst (most_repeated (hash_to_tool ?g) (call_counts ?g) (None, 0)) \<noteq> None"
    by (intro most_repeated_named) simp_all
  with inv show ?thesis
    by (cases "most_repeated (hash_to_tool ?g) (call_counts ?g) (None, 0)")
       (auto simp: guard_inv_def stats_def split: option.split)
qed

end
