(* ===== verification/SessionRepair.thy ===== *)
theory SessionRepair
  imports StrUtils
begin

text \<open>
  Session history repair: \<open>openfang-runtime/src/session_repair.rs\<close> over the message types of
  \<open>openfang-types/src/message.rs\<close>. Every phase of \<open>validate_and_repair\<close> is a definition over a
  list of messages: the filter of orphans and empty messages, the reordering of misplaced
  results, the deduplication, the synthetic results, the removal of blank assistant messages
  and the merge of neighbours of one role. A \<open>HashSet\<close> that is only tested for membership is a
  list, a \<open>HashMap\<close> is a \<open>dashmap\<close>. The message ids (\<open>msg_id\<close>, \<open>provider_msg_id\<close>) are left out:
  the module never reads them and stamps fresh ones on every message it builds.
\<close>

section \<open>Messages\<close>

datatype role = System | User | Assistant

datatype content_block =
    ContentText (block_text: string) "json option"
  | Image string string
  | ToolUse string string json "json option"
  | ToolResult string string string bool
  | Thinking string "string option" "json option"
  | RedactedThinking string
  | Unknown

datatype message_content = Text string | Blocks "content_block list"

record message =
  role :: role
  content :: message_content

record repair_stats =
  orphaned_results_removed :: nat
  empty_messages_removed :: nat
  messages_merged :: nat
  results_reordered :: nat
  synthetic_results_inserted :: nat
  duplicates_removed :: nat

definition default_repair_stats :: repair_stats where
  "default_repair_stats = \<lparr>orphaned_results_removed = 0, empty_messages_removed = 0,
     messages_merged = 0, results_reordered = 0, synthetic_results_inserted = 0,
     duplicates_removed = 0\<rparr>"

definition ALLOWED_IMAGE_TYPES :: "string list" where
  "ALLOWED_IMAGE_TYPES = [''image/png'', ''image/jpeg'', ''image/gif'', ''image/webp'']"

definition MAX_IMAGE_BYTES :: nat where
  "MAX_IMAGE_BYTES = 5 * 1024 * 1024"

datatype image_error = UnsupportedImageType string | ImageTooLarge nat nat nat

definition validate_image :: "string \<Rightarrow> string \<Rightarrow> image_error + unit" where
  "validate_image media_type data =
     (if media_type \<notin> set ALLOWED_IMAGE_TYPES then Inl (UnsupportedImageType media_type)
      else let max_b64_len = MAX_IMAGE_BYTES * 4 div 3 + 4
           in if length data > max_b64_len
              then Inl (ImageTooLarge (length data) max_b64_len (MAX_IMAGE_BYTES div (1024 * 1024)))
              else Inr ())"

text \<open>\<open>MessageContent::text_length\<close>; the rendering of a JSON value is a parameter.\<close>

fun block_text_length :: "(json \<Rightarrow> string) \<Rightarrow> content_block \<Rightarrow> nat" where
  "block_text_length js (ContentText t _) = length t"
| "block_text_length js (ToolResult _ _ c _) = length c"
| "block_text_length js (Thinking t _ _) = length t"
| "block_text_length js (ToolUse _ name input _) = length name + length (js input)"
| "block_text_length js (Image _ _) = 0"
| "block_text_length js (RedactedThinking _) = 0"
| "block_text_length js Unknown = 0"

fun text_length :: "(json \<Rightarrow> string) \<Rightarrow> message_content \<Rightarrow> nat" where
  "text_length js (Text s) = length s"
| "text_length js (Blocks bs) = sum_list (map (block_text_length js) bs)"

fun text_content :: "message_content \<Rightarrow> string" where
  "text_content (Text s) = s"
| "text_content (Blocks bs) =
     concat (List.map_filter (\<lambda>b. case b of ContentText t _ \<Rightarrow> Some t | _ \<Rightarrow> None) bs)"

fun content_to_blocks :: "message_content \<Rightarrow> content_block list" where
  "content_to_blocks (Text s) = [ContentText s None]"
| "content_to_blocks (Blocks bs) = bs"

definition merge_content :: "message_content \<Rightarrow> message_content \<Rightarrow> message_content" where
  "merge_content dst src = Blocks (content_to_blocks dst @ content_to_blocks src)"

fun nonempty_content :: "message_content \<Rightarrow> bool" where
  "nonempty_content (Text s) = (s \<noteq> [])"
| "nonempty_content (Blocks bs) = (bs \<noteq> [])"

fun block_use_id :: "content_block \<Rightarrow> string option" where
  "block_use_id (ToolUse i _ _ _) = Some i"
| "block_use_id _ = None"

fun use_ids :: "message_content \<Rightarrow> string list" where
  "use_ids (Text _) = []"
| "use_ids (Blocks bs) = List.map_filter block_use_id bs"

section \<open>Phases 1 and 2: orphaned results and empty messages\<close>

definition tool_use_ids :: "message list \<Rightarrow> string list" where
  "tool_use_ids ms = concat (map (\<lambda>m. use_ids (content m)) ms)"

fun kept_result :: "string list \<Rightarrow> content_block \<Rightarrow> bool" where
  "kept_result ids (ToolResult i _ _ _) = (i \<in> set ids)"
| "kept_result ids _ = True"

fun clean_messages :: "string list \<Rightarrow> message list \<Rightarrow> repair_stats \<Rightarrow> message list \<times> repair_stats" where
  "clean_messages ids [] st = ([], st)"
| "clean_messages ids (m # ms) st =
     (case content m of
        Text s \<Rightarrow>
          if s = [] then clean_messages ids ms (st\<lparr>empty_messages_removed := empty_messages_removed st + 1\<rparr>)
          else (let (r, st') = clean_messages ids ms st in (m # r, st'))
      | Blocks bs \<Rightarrow>
          let filtered = filter (kept_result ids) bs;
              st1 = st\<lparr>orphaned_results_removed :=
                         orphaned_results_removed st + length (filter (\<lambda>b. \<not> kept_result ids b) bs)\<rparr>
          in if filtered = []
             then clean_messages ids ms (st1\<lparr>empty_messages_removed := empty_messages_removed st1 + 1\<rparr>)
             else (let (r, st') = clean_messages ids ms st1 in (m\<lparr>content := Blocks filtered\<rparr> # r, st')))"

section \<open>Phase 2b: misplaced results\<close>

definition index_tool_uses :: "message list \<Rightarrow> (string, nat) dashmap" where
  "index_tool_uses ms =
     fold (\<lambda>(idx, m) t. if role m = Assistant then fold (\<lambda>i. dm_insert i idx) (use_ids (content m)) t else t)
       (enumerate 0 ms) []"

definition misplaced_block ::
  "(string, nat) dashmap \<Rightarrow> nat \<Rightarrow> content_block \<Rightarrow> (nat \<times> string \<times> content_block \<times> nat) option" where
  "misplaced_block t idx b =
     (case b of
        ToolResult i _ _ _ \<Rightarrow>
          (case dm_get t i of
             Some a \<Rightarrow> if idx \<noteq> a + 1 then Some (idx, i, b, a) else None
           | None \<Rightarrow> None)
      | _ \<Rightarrow> None)"

definition misplaced_results ::
  "(string, nat) dashmap \<Rightarrow> message list \<Rightarrow> (nat \<times> string \<times> content_block \<times> nat) list" where
  "misplaced_results t ms =
     concat (map (\<lambda>(idx, m). if role m \<noteq> User then []
                    else case content m of Text _ \<Rightarrow> [] | Blocks bs \<Rightarrow> List.map_filter (misplaced_block t idx) bs)
               (enumerate 0 ms))"

fun retained :: "(nat \<times> string) list \<Rightarrow> nat \<Rightarrow> content_block \<Rightarrow> bool" where
  "retained srcs idx (ToolResult i _ _ _) = ((idx, i) \<notin> set srcs)"
| "retained srcs idx _ = True"

definition retain_in_place :: "(nat \<times> string) list \<Rightarrow> nat \<times> message \<Rightarrow> message" where
  "retain_in_place srcs = (\<lambda>(idx, m).
     if role m \<noteq> User then m
     else case content m of Text _ \<Rightarrow> m | Blocks bs \<Rightarrow> m\<lparr>content := Blocks (filter (retained srcs idx) bs)\<rparr>)"

definition drop_empty :: "message list \<Rightarrow> message list" where
  "drop_empty = filter (\<lambda>m. nonempty_content (content m))"

definition group_push :: "'k \<Rightarrow> 'v \<Rightarrow> ('k, 'v list) dashmap \<Rightarrow> ('k, 'v list) dashmap" where
  "group_push k v m = dm_insert k (dm_entry m k [] @ [v]) m"

definition current_assistant_positions ::
  "(string, nat) dashmap \<Rightarrow> message list \<Rightarrow> (nat, nat) dashmap" where
  "current_assistant_positions t ms =
     fold (\<lambda>(idx, m) p. if role m = Assistant
             then fold (\<lambda>i p. case dm_get t i of Some orig \<Rightarrow> dm_insert orig idx p | None \<Rightarrow> p)
                    (use_ids (content m)) p
             else p)
       (enumerate 0 ms) []"

text \<open>
  Blocks go to the user message at the position when there is one, else into a new user
  message there; phases 2b and 2d share this step.
\<close>

definition insert_results :: "nat \<Rightarrow> content_block list \<Rightarrow> message list \<Rightarrow> message list" where
  "insert_results pos blocks ms =
     (if pos < length ms \<and> role (ms ! pos) = User
      then ms[pos := (ms ! pos)\<lparr>content := Blocks (content_to_blocks (content (ms ! pos)) @ blocks)\<rparr>]
      else take pos ms @ \<lparr>role = User, content = Blocks blocks\<rparr> # drop pos ms)"

definition sorted_desc :: "(nat, 'v) dashmap \<Rightarrow> (nat \<times> 'v) list" where
  "sorted_desc m = rev (sort_key fst m)"

definition place_group ::
  "(nat, nat) dashmap \<Rightarrow> nat \<times> content_block list \<Rightarrow> message list \<Rightarrow> message list" where
  "place_group pos = (\<lambda>(a, blocks) ms.
     case dm_get pos a of
       Some c \<Rightarrow> insert_results (min (c + 1) (length ms)) blocks ms
     | None \<Rightarrow> ms)"

definition reorder_tool_results :: "message list \<Rightarrow> message list \<times> nat" where
  "reorder_tool_results ms =
     (let t = index_tool_uses ms;
          misplaced = misplaced_results t ms
      in if misplaced = [] then (ms, 0)
         else let srcs = map (\<lambda>(idx, i, _, _). (idx, i)) misplaced;
                  kept = drop_empty (map (retain_in_place srcs) (enumerate 0 ms));
                  insertions = fold (\<lambda>(_, _, b, a). group_push a b) misplaced [];
                  pos = current_assistant_positions t kept
              in (fold (place_group pos) (sorted_desc insertions) kept, length misplaced))"

section \<open>Phase 2c: duplicate results\<close>

fun dedup_blocks :: "content_block list \<Rightarrow> string list \<Rightarrow> content_block list \<times> string list" where
  "dedup_blocks [] seen = ([], seen)"
| "dedup_blocks (b # bs) seen =
     (case b of
        ToolResult i _ _ _ \<Rightarrow>
          if i \<in> set seen then dedup_blocks bs seen
          else (let (r, s) = dedup_blocks bs (i # seen) in (b # r, s))
      | _ \<Rightarrow> (let (r, s) = dedup_blocks bs seen in (b # r, s)))"

fun dedup_messages :: "message list \<Rightarrow> string list \<Rightarrow> message list \<times> nat" where
  "dedup_messages [] seen = ([], 0)"
| "dedup_messages (m # ms) seen =
     (case content m of
        Text _ \<Rightarrow> (let (r, n) = dedup_messages ms seen in (m # r, n))
      | Blocks bs \<Rightarrow>
          (let (bs', seen') = dedup_blocks bs seen;
               (r, n) = dedup_messages ms seen'
           in (m\<lparr>content := Blocks bs'\<rparr> # r, (length bs - length bs') + n)))"

definition deduplicate_tool_results :: "message list \<Rightarrow> message list \<times> nat" where
  "deduplicate_tool_results ms = (let (r, n) = dedup_messages ms [] in (drop_empty r, n))"

section \<open>Phase 2d: synthetic results\<close>

fun result_ids :: "message_content \<Rightarrow> string list" where
  "result_ids (Text _) = []"
| "result_ids (Blocks bs) =
     List.map_filter (\<lambda>b. case b of ToolResult i _ _ _ \<Rightarrow> Some i | _ \<Rightarrow> None) bs"

definition available_result_counts :: "message list \<Rightarrow> (string, nat) dashmap" where
  "available_result_counts ms =
     fold (\<lambda>i m. dm_insert i (dm_entry m i 0 + 1) m) (concat (map (\<lambda>m. result_ids (content m)) ms)) []"

fun take_available :: "(string, nat) dashmap \<Rightarrow> (nat \<times> string) list \<Rightarrow> (nat \<times> string) list" where
  "take_available avail [] = []"
| "take_available avail ((idx, i) # uses) =
     (let remaining = dm_entry avail i 0
      in if remaining > 0 then take_available (dm_insert i (remaining - 1) avail) uses
         else (idx, i) # take_available (dm_insert i 0 avail) uses)"

definition assistant_uses :: "message list \<Rightarrow> (nat \<times> string) list" where
  "assistant_uses ms =
     concat (map (\<lambda>(idx, m). if role m = Assistant then map (Pair idx) (use_ids (content m)) else [])
       (enumerate 0 ms))"

definition synthetic_result :: "string \<Rightarrow> content_block" where
  "synthetic_result i = ToolResult i [] ''[Tool execution was interrupted or lost]'' True"

definition insert_synthetic_results :: "message list \<Rightarrow> message list \<times> nat" where
  "insert_synthetic_results ms =
     (let orphaned = take_available (available_result_counts ms) (assistant_uses ms)
      in if orphaned = [] then (ms, 0)
         else let grouped = fold (\<lambda>(idx, i). group_push idx (synthetic_result i)) orphaned []
              in (fold (\<lambda>(idx, blocks) ms. insert_results (min (idx + 1) (length ms)) blocks ms)
                    (sorted_desc grouped) ms, length orphaned))"

section \<open>Phases 2e and 3\<close>

fun blank_block :: "content_block \<Rightarrow> bool" where
  "blank_block (ContentText t _) = (trim t = [])"
| "blank_block Unknown = True"
| "blank_block _ = False"

fun is_empty_or_blank_content :: "message_content \<Rightarrow> bool" where
  "is_empty_or_blank_content (Text s) = (trim s = [])"
| "is_empty_or_blank_content (Blocks bs) = (bs = [] \<or> list_all blank_block bs)"

definition remove_aborted_assistant_messages :: "message list \<Rightarrow> message list" where
  "remove_aborted_assistant_messages ms =
     (if length ms < 2 then ms
      else map snd (filter (\<lambda>(i, m). \<not> (role m = Assistant \<and> is_empty_or_blank_content (content m)
                                        \<and> i + 1 < length ms)) (enumerate 0 ms)))"

fun merge_onto :: "message \<Rightarrow> message list \<Rightarrow> message list \<times> nat" where
  "merge_onto cur [] = ([cur], 0)"
| "merge_onto cur (m # ms) =
     (if role cur = role m
      then (let (r, n) = merge_onto (cur\<lparr>content := merge_content (content cur) (content m)\<rparr>) ms
            in (r, n + 1))
      else (let (r, n) = merge_onto m ms in (cur # r, n)))"

fun merge_consecutive :: "message list \<Rightarrow> message list \<times> nat" where
  "merge_consecutive [] = ([], 0)"
| "merge_consecutive (m # ms) = merge_onto m ms"

section \<open>The repair\<close>

definition validate_and_repair_with_stats :: "message list \<Rightarrow> message list \<times> repair_stats" where
  "validate_and_repair_with_stats ms =
     (let ids = tool_use_ids ms;
          (cleaned, st) = clean_messages ids ms default_repair_stats;
          (reordered, n1) = reorder_tool_results cleaned;
          (deduped, n2) = deduplicate_tool_results reordered;
          (filled, n3) = insert_synthetic_results deduped;
          kept = remove_aborted_assistant_messages filled;
          aborted = length filled - length kept;
          (merged, n4) = merge_consecutive kept
      in (merged, st\<lparr>results_reordered := n1, duplicates_removed := n2,
                    synthetic_results_inserted := n3,
                    empty_messages_removed := empty_messages_removed st + aborted,
                    messages_merged := n4\<rparr>))"

definition validate_and_repair :: "message list \<Rightarrow> message list" where
  "validate_and_repair ms = fst (validate_and_repair_with_stats ms)"

section \<open>Starting with a user turn\<close>

fun position :: "('a \<Rightarrow> bool) \<Rightarrow> 'a list \<Rightarrow> nat option" where
  "position p [] = None"
| "position p (x # xs) = (if p x then Some 0 else map_option Suc (position p xs))"

text \<open>
  What every phase keeps: the blocks that carry content (everything but results, unknown blocks
  and blank text), with the role they were said in and in their order; and no phase adds a
  message that is not a user message.
\<close>

fun carries :: "content_block \<Rightarrow> bool" where
  "carries (ToolResult _ _ _ _) = False"
| "carries b = (\<not> blank_block b)"

definition payload :: "message list \<Rightarrow> (role \<times> content_block) list" where
  "payload ms = concat (map (\<lambda>m. map (Pair (role m)) (filter carries (content_to_blocks (content m)))) ms)"

definition other_turns :: "message list \<Rightarrow> nat" where
  "other_turns ms = length (filter (\<lambda>m. role m \<noteq> User) ms)"

locale repair_pass =
  fixes pass :: "message list \<Rightarrow> message list"
  assumes pass_payload: "payload (pass ms) = payload ms"
    and pass_turns: "other_turns (pass ms) \<le> other_turns ms"
begin

lemma pass_twice: "payload (pass (pass ms)) = payload ms \<and> other_turns (pass (pass ms)) \<le> other_turns ms"
  by (simp add: pass_payload le_trans [OF pass_turns pass_turns])

lemma pass_uses_kept: "set (payload (pass ms)) = set (payload ms)"
  by (simp add: pass_payload)

end

lemma repair_pass_comp:
  assumes f: "repair_pass f" and g: "repair_pass g"
  shows "repair_pass (\<lambda>ms. g (f ms))"
proof
  fix ms
  show "payload (g (f ms)) = payload ms"
    using repair_pass.pass_payload [OF f] repair_pass.pass_payload [OF g] by simp
  show "other_turns (g (f ms)) \<le> other_turns ms"
    using repair_pass.pass_turns [OF f, of ms] repair_pass.pass_turns [OF g, of "f ms"] by linarith
qed

lemma payload_Nil [simp]: "payload [] = []"
  by (simp add: payload_def)

lemma payload_Cons:
  "payload (m # ms) = map (Pair (role m)) (filter carries (content_to_blocks (content m))) @ payload ms"
  by (simp add: payload_def)

lemma payload_append [simp]: "payload (ms @ ns) = payload ms @ payload ns"
  by (simp add: payload_def)

lemma other_turns_Nil [simp]: "other_turns [] = 0"
  by (simp add: other_turns_def)

lemma other_turns_Cons: "other_turns (m # ms) = (if role m = User then 0 else 1) + other_turns ms"
  by (simp add: other_turns_def)

lemma other_turns_append [simp]: "other_turns (ms @ ns) = other_turns ms + other_turns ns"
  by (simp add: other_turns_def)

lemma split_at: "pos < length ms \<Longrightarrow> ms = take pos ms @ ms ! pos # drop (Suc pos) ms"
  by (simp add: id_take_nth_drop)

lemma insert_results_payload:
  assumes "list_all (\<lambda>b. \<not> carries b) blocks"
  shows "payload (insert_results pos blocks ms) = payload ms
    \<and> other_turns (insert_results pos blocks ms) = other_turns ms"
proof -
  have none: "filter carries blocks = []"
    using assms by (simp add: list_all_iff)
  show ?thesis
  proof (cases "pos < length ms \<and> role (ms ! pos) = User")
    case True
    let ?m = "ms ! pos"
    have eq: "insert_results pos blocks ms =
        take pos ms @ ?m\<lparr>content := Blocks (content_to_blocks (content ?m) @ blocks)\<rparr> # drop (Suc pos) ms"
      using True by (simp add: insert_results_def upd_conv_take_nth_drop)
    have "payload ms = payload (take pos ms @ ?m # drop (Suc pos) ms)"
      "other_turns ms = other_turns (take pos ms @ ?m # drop (Suc pos) ms)"
      using True split_at [of pos ms] by simp_all
    then show ?thesis
      unfolding eq by (simp add: payload_Cons other_turns_Cons none)
  next
    case False
    have "insert_results pos blocks ms =
        take pos ms @ \<lparr>role = User, content = Blocks blocks\<rparr> # drop pos ms"
      using False by (auto simp: insert_results_def)
    moreover have "payload (take pos ms) @ payload (drop pos ms) = payload ms"
      "other_turns (take pos ms) + other_turns (drop pos ms) = other_turns ms"
      by (metis append_take_drop_id payload_append) (metis append_take_drop_id other_turns_append)
    ultimately show ?thesis
      by (simp add: payload_Cons other_turns_Cons none)
  qed
qed

lemma clean_payload:
  "payload (fst (clean_messages ids ms st)) = payload ms
   \<and> other_turns (fst (clean_messages ids ms st)) \<le> other_turns ms"
proof (induction ids ms st rule: clean_messages.induct)
  case (2 ids m ms st)
  show ?case
  proof (cases "content m")
    case (Text s)
    then show ?thesis
      using 2(1) [OF Text] 2(2) [OF Text]
      by (auto simp: payload_Cons other_turns_Cons trim_def case_prod_beta)
  next
    case (Blocks bs)
    have same: "filter carries (filter (kept_result ids) bs) = filter carries bs"
      by (induction bs) (auto elim: carries.elims)
    show ?thesis
    proof (cases "filter (kept_result ids) bs = []")
      case True
      then have "filter carries bs = []"
        using same by simp
      then show ?thesis
        using 2(3) [OF Blocks refl refl True] Blocks True by (simp add: payload_Cons other_turns_Cons)
    next
      case False
      then show ?thesis
        using 2(4) [OF Blocks refl refl False] Blocks same
        by (simp add: payload_Cons other_turns_Cons case_prod_beta Let_def)
    qed
  qed
qed simp

lemma drop_empty_payload: "payload (drop_empty ms) = payload ms \<and> other_turns (drop_empty ms) \<le> other_turns ms"
proof (induction ms)
  case (Cons m ms)
  have "filter carries (content_to_blocks (content m)) = []" if "\<not> nonempty_content (content m)"
    using that by (cases "content m") (simp_all add: trim_def)
  then show ?case
    using Cons by (auto simp: drop_empty_def payload_Cons other_turns_Cons)
qed (simp add: drop_empty_def)

lemma retain_role [simp]: "role (retain_in_place srcs (k, m)) = role m"
  by (simp add: retain_in_place_def split: message_content.split)

lemma retain_carries [simp]:
  "filter carries (content_to_blocks (content (retain_in_place srcs (k, m))))
   = filter carries (content_to_blocks (content m))"
proof -
  have "filter carries (filter (retained srcs k) bs) = filter carries bs" for bs
    by (induction bs) (auto elim: carries.elims)
  then show ?thesis
    by (simp add: retain_in_place_def split: message_content.split)
qed

lemma set_map_filter: "set (List.map_filter f xs) = {y. \<exists>x\<in>set xs. f x = Some y}"
  by (induction xs) (auto simp: map_filter_simps split: option.splits)

lemma retain_payload:
  "payload (map (retain_in_place srcs) (enumerate k ms)) = payload ms
   \<and> other_turns (map (retain_in_place srcs) (enumerate k ms)) = other_turns ms"
  by (induction ms arbitrary: k) (simp_all add: payload_Cons other_turns_Cons)

text \<open>Groups hold only what was pushed into them.\<close>

definition group_blocks :: "('k, 'v list) dashmap \<Rightarrow> 'v list" where
  "group_blocks g = concat (dm_values g)"

lemma mset_group_push:
  "dm_wf g \<Longrightarrow> dm_wf (group_push k v g) \<and> mset (group_blocks (group_push k v g)) = add_mset v (mset (group_blocks g))"
proof (induction g)
  case (Cons p g)
  obtain j vs where p: "p = (j, vs)" by force
  have "j \<notin> fst ` set g" using Cons.prems by (simp add: dm_wf_def p)
  show ?case
  proof (cases "j = k")
    case True
    then show ?thesis
      using Cons.prems
      by (simp add: p group_push_def dm_insert_def dm_entry_def dm_get_def group_blocks_def dm_values_def dm_wf_def)
  next
    case False
    have split: "group_push k v ((j, vs) # g) = (j, vs) # group_push k v g"
      using False by (simp add: group_push_def dm_insert_def dm_entry_def dm_get_def)
    have "k \<in> fst ` set (group_push k v g)" "fst ` set (group_push k v g) = insert k (fst ` set g)"
      by (simp_all add: group_push_def dm_insert_def dom_update)
    then show ?thesis
      using Cons False unfolding p split by (auto simp: dm_wf_def group_blocks_def dm_values_def)
  qed
qed (simp add: group_push_def dm_insert_def dm_entry_def dm_wf_def group_blocks_def dm_values_def)

lemma mset_fold_group_push:
  "dm_wf g \<Longrightarrow> dm_wf (fold (\<lambda>x. group_push (k x) (v x)) xs g)
     \<and> mset (group_blocks (fold (\<lambda>x. group_push (k x) (v x)) xs g)) = mset (map v xs) + mset (group_blocks g)"
  by (induction xs arbitrary: g) (simp_all add: mset_group_push)

lemma mset_sorted_desc: "mset (concat (map snd (sorted_desc g))) = mset (group_blocks g)"
proof -
  have "mset (sorted_desc g) = mset g"
    by (simp add: sorted_desc_def)
  then have "mset (map (mset \<circ> snd) (sorted_desc g)) = mset (map (mset \<circ> snd) g)"
    by simp
  then show ?thesis
    by (simp add: group_blocks_def dm_values_def mset_concat flip: sum_mset_sum_list)
qed

lemma place_payload:
  assumes "list_all (\<lambda>b. \<not> carries b) (concat (map snd gs))"
  shows "payload (fold (place_group pos) gs ms) = payload ms
    \<and> other_turns (fold (place_group pos) gs ms) = other_turns ms"
  using assms
  by (induction gs arbitrary: ms)
     (auto simp: place_group_def insert_results_payload split: option.splits)

lemma misplaced_blockD:
  "misplaced_block t idx b = Some (k, i, b', a) \<Longrightarrow>
    k = idx \<and> b' = b \<and> dm_get t i = Some a \<and> idx \<noteq> a + 1 \<and> (\<exists>n c e. b = ToolResult i n c e)"
  by (cases b) (auto simp: misplaced_block_def split: option.splits if_splits)

lemma misplaced_resultsD:
  assumes "(k, i, b, a) \<in> set (misplaced_results t ms)"
  shows "dm_get t i = Some a \<and> k \<noteq> a + 1 \<and> (\<exists>n c e. b = ToolResult i n c e) \<and>
    k < length ms \<and> role (ms ! k) = User \<and> b \<in> set (content_to_blocks (content (ms ! k)))"
proof -
  obtain idx m bs b0 where m: "(idx, m) \<in> set (enumerate 0 ms)" "role m = User" "Blocks bs = content m"
    and b0: "b0 \<in> set bs" "misplaced_block t idx b0 = Some (k, i, b, a)"
    using assms by (auto simp: misplaced_results_def set_map_filter split: if_splits message_content.splits)
  from m(1) have "idx < length ms \<and> m = ms ! idx"
    by (auto simp: in_set_enumerate_eq)
  with m(2) m(3) [symmetric] b0(1) misplaced_blockD [OF b0(2)] show ?thesis by auto
qed

lemma reorder_groups_mset:
  fixes xs :: "(nat \<times> string \<times> content_block \<times> nat) list"
  shows "mset (concat (map snd (sorted_desc (fold (\<lambda>(_, _, b, a). group_push a b) xs []))))
   = mset (map (\<lambda>x. fst (snd (snd x))) xs)"
proof -
  have eq: "(\<lambda>(_ :: nat, _ :: string, b :: content_block, a :: nat). group_push a b) =
      (\<lambda>x. group_push (snd (snd (snd x))) (fst (snd (snd x))))"
    by auto
  show ?thesis
    unfolding eq mset_sorted_desc
    using mset_fold_group_push [of "[]" "\<lambda>x. snd (snd (snd x))" "\<lambda>x. fst (snd (snd x))" xs]
    by (simp add: group_blocks_def dm_values_def)
qed

lemma reorder_groups_result:
  assumes "b \<in> set (concat (map snd (sorted_desc (fold (\<lambda>(_, _, b, a). group_push a b) (misplaced_results t ms) []))))"
  shows "\<exists>k i a. (k, i, b, a) \<in> set (misplaced_results t ms)"
proof -
  from assms have "b \<in># mset (map (\<lambda>x. fst (snd (snd x))) (misplaced_results t ms))"
    unfolding reorder_groups_mset [symmetric] by (simp only: set_mset_mset)
  then obtain x where "x \<in> set (misplaced_results t ms)" "b = fst (snd (snd x))"
    by auto
  then show ?thesis by (metis prod.collapse)
qed

lemma reorder_pass: "repair_pass (\<lambda>ms. fst (reorder_tool_results ms))"
proof
  fix ms
  let ?t = "index_tool_uses ms"
  let ?g = "sorted_desc (fold (\<lambda>(_, _, b, a). group_push a b) (misplaced_results ?t ms) [])"
  have "\<not> carries b" if "b \<in> set (concat (map snd ?g))" for b
    using reorder_groups_result [OF that] misplaced_resultsD by fastforce
  then have none: "list_all (\<lambda>b. \<not> carries b) (concat (map snd ?g))"
    unfolding list_all_iff by blast
  show "payload (fst (reorder_tool_results ms)) = payload ms"
    and "other_turns (fst (reorder_tool_results ms)) \<le> other_turns ms"
    using drop_empty_payload [of "map (retain_in_place srcs) (enumerate 0 ms)" for srcs]
    by (simp_all add: reorder_tool_results_def Let_def place_payload [OF none] drop_empty_payload retain_payload)
qed

lemma dedup_blocks_carries: "filter carries (fst (dedup_blocks bs seen)) = filter carries bs"
  by (induction bs arbitrary: seen) (auto simp: case_prod_beta split: content_block.splits)

lemma dedup_messages_payload:
  "payload (fst (dedup_messages ms seen)) = payload ms
   \<and> other_turns (fst (dedup_messages ms seen)) = other_turns ms"
  by (induction ms arbitrary: seen)
     (auto simp: payload_Cons other_turns_Cons case_prod_beta Let_def dedup_blocks_carries
       split: message_content.splits)

lemma dedup_pass: "repair_pass (\<lambda>ms. fst (deduplicate_tool_results ms))"
proof
  fix ms
  show "payload (fst (deduplicate_tool_results ms)) = payload ms"
    and "other_turns (fst (deduplicate_tool_results ms)) \<le> other_turns ms"
    using drop_empty_payload [of "fst (dedup_messages ms [])"] dedup_messages_payload [of ms "[]"]
    by (simp_all add: deduplicate_tool_results_def case_prod_beta)
qed

definition synthetic_groups :: "(nat \<times> string) list \<Rightarrow> (nat, content_block list) dashmap" where
  "synthetic_groups xs = fold (\<lambda>(idx, i). group_push idx (synthetic_result i)) xs []"

lemma synthetic_groups_mset:
  "mset (concat (map snd (sorted_desc (synthetic_groups xs)))) = mset (map (synthetic_result \<circ> snd) xs)"
proof -
  have eq: "(\<lambda>(idx, i). group_push idx (synthetic_result i)) = (\<lambda>x :: nat \<times> string. group_push (fst x) (synthetic_result (snd x)))"
    by auto
  show ?thesis
    unfolding synthetic_groups_def eq mset_sorted_desc
    using mset_fold_group_push [of "[]" fst "synthetic_result \<circ> snd" xs]
    by (simp add: group_blocks_def dm_values_def comp_def)
qed

definition place_synthetic :: "nat \<times> content_block list \<Rightarrow> message list \<Rightarrow> message list" where
  "place_synthetic = (\<lambda>(idx, blocks) ms. insert_results (min (idx + 1) (length ms)) blocks ms)"

lemma insert_synthetic_fold:
  "fst (insert_synthetic_results ms) =
     fold place_synthetic (sorted_desc (synthetic_groups
       (take_available (available_result_counts ms) (assistant_uses ms)))) ms"
  by (simp add: insert_synthetic_results_def Let_def synthetic_groups_def place_synthetic_def sorted_desc_def)

lemma place_synthetic_payload:
  "list_all (\<lambda>b. \<not> carries b) (concat (map snd gs)) \<Longrightarrow>
    payload (fold place_synthetic gs ms) = payload ms
    \<and> other_turns (fold place_synthetic gs ms) = other_turns ms"
  by (induction gs arbitrary: ms) (auto simp: place_synthetic_def insert_results_payload)

lemma synthetic_pass: "repair_pass (\<lambda>ms. fst (insert_synthetic_results ms))"
proof
  fix ms
  let ?gs = "sorted_desc (synthetic_groups (take_available (available_result_counts ms) (assistant_uses ms)))"
  have "\<not> carries b" if "b \<in># mset (concat (map snd ?gs))" for b
    using that unfolding synthetic_groups_mset by (auto simp: synthetic_result_def)
  then have none: "list_all (\<lambda>b. \<not> carries b) (concat (map snd ?gs))"
    unfolding list_all_iff set_mset_mset [symmetric] by blast
  show "payload (fst (insert_synthetic_results ms)) = payload ms"
    and "other_turns (fst (insert_synthetic_results ms)) \<le> other_turns ms"
    using place_synthetic_payload [OF none] by (simp_all add: insert_synthetic_fold)
qed

lemma blank_carries: "is_empty_or_blank_content c \<Longrightarrow> filter carries (content_to_blocks c) = []"
  by (cases c) (auto simp: list_all_iff filter_empty_conv elim!: blank_block.elims)

lemma filter_blank_payload:
  "(\<And>m. p m \<Longrightarrow> role m = Assistant \<and> is_empty_or_blank_content (content m)) \<Longrightarrow>
    payload (map snd (filter (\<lambda>(i, m). \<not> (p m \<and> q i)) (enumerate k ms))) = payload ms
    \<and> other_turns (map snd (filter (\<lambda>(i, m). \<not> (p m \<and> q i)) (enumerate k ms))) \<le> other_turns ms"
  by (induction ms arbitrary: k) (auto simp: payload_Cons other_turns_Cons blank_carries intro: le_SucI)

lemma aborted_pass: "repair_pass remove_aborted_assistant_messages"
proof
  fix ms
  show "payload (remove_aborted_assistant_messages ms) = payload ms"
    and "other_turns (remove_aborted_assistant_messages ms) \<le> other_turns ms"
    using filter_blank_payload [of "\<lambda>m. role m = Assistant \<and> is_empty_or_blank_content (content m)"
        "\<lambda>i. i + 1 < length ms" 0 ms]
    by (simp_all add: remove_aborted_assistant_messages_def)
qed

lemma merge_onto_payload:
  "payload (fst (merge_onto m ms)) = payload (m # ms)
   \<and> other_turns (fst (merge_onto m ms)) \<le> other_turns (m # ms)"
proof (induction m ms rule: merge_onto.induct)
  case (2 cur m ms)
  then show ?case
    by (cases "role cur = role m")
       (auto simp: case_prod_beta payload_Cons other_turns_Cons merge_content_def split: if_splits)
qed (simp add: payload_Cons other_turns_Cons)

lemma merge_pass: "repair_pass (\<lambda>ms. fst (merge_consecutive ms))"
proof
  fix ms
  show "payload (fst (merge_consecutive ms)) = payload ms"
    and "other_turns (fst (merge_consecutive ms)) \<le> other_turns ms"
    using merge_onto_payload by (cases ms; simp)+
qed

section \<open>The whole repair as a pass\<close>

definition cleaned_messages :: "message list \<Rightarrow> message list" where
  "cleaned_messages ms = fst (clean_messages (tool_use_ids ms) ms default_repair_stats)"

definition unmerged_messages :: "message list \<Rightarrow> message list" where
  "unmerged_messages ms =
     remove_aborted_assistant_messages
       (fst (insert_synthetic_results (fst (deduplicate_tool_results
         (fst (reorder_tool_results (cleaned_messages ms)))))))"

lemma validate_and_repair_phases:
  "validate_and_repair ms = fst (merge_consecutive (unmerged_messages ms))"
  by (simp add: validate_and_repair_def validate_and_repair_with_stats_def unmerged_messages_def
      cleaned_messages_def case_prod_beta Let_def)

lemma cleaned_pass: "repair_pass cleaned_messages"
proof
  fix ms
  show "payload (cleaned_messages ms) = payload ms" "other_turns (cleaned_messages ms) \<le> other_turns ms"
    using clean_payload by (simp_all add: cleaned_messages_def)
qed

lemma unmerged_pass: "repair_pass unmerged_messages"
  unfolding unmerged_messages_def [abs_def]
  by (intro repair_pass_comp [OF _ aborted_pass] repair_pass_comp [OF _ synthetic_pass]
      repair_pass_comp [OF _ dedup_pass] repair_pass_comp [OF _ reorder_pass] cleaned_pass)

interpretation repair: repair_pass validate_and_repair
  using repair_pass_comp [OF unmerged_pass merge_pass]
  by (simp add: validate_and_repair_phases [abs_def])

lemma position_Some:
  "position p xs = Some i \<Longrightarrow> i < length xs \<and> p (xs ! i) \<and> (\<forall>j < i. \<not> p (xs ! j))"
  by (induction xs arbitrary: i) (auto split: if_splits simp: less_Suc_eq_0_disj)

lemma position_None: "position p xs = None \<longleftrightarrow> (\<forall>x\<in>set xs. \<not> p x)"
  by (induction xs) auto

lemma other_turns_drop:
  assumes "position (\<lambda>m. role m = User) ms = Some (Suc i)"
  shows "other_turns (drop (Suc i) ms) < other_turns ms"
proof -
  obtain m ns where ms: "ms = m # ns" "role m \<noteq> User"
    using assms by (cases ms) (auto split: if_splits)
  have "other_turns (take i ns) + other_turns (drop i ns) = other_turns ns"
    by (metis append_take_drop_id other_turns_append)
  then show ?thesis by (simp add: ms other_turns_Cons)
qed

function ensure_starts_with_user :: "message list \<Rightarrow> message list" where
  "ensure_starts_with_user ms =
     (case position (\<lambda>m. role m = User) ms of
        None \<Rightarrow> ms
      | Some 0 \<Rightarrow> ms
      | Some (Suc i) \<Rightarrow> ensure_starts_with_user (validate_and_repair (drop (Suc i) ms)))"
  by pat_completeness auto
termination
proof (relation "measure other_turns")
  fix ms :: "message list" and k i
  assume "position (\<lambda>m. role m = User) ms = Some k" "k = Suc i"
  then have "other_turns (drop (Suc i) ms) < other_turns ms"
    using other_turns_drop by blast
  then show "(validate_and_repair (drop (Suc i) ms), ms) \<in> measure other_turns"
    using repair.pass_turns [of "drop (Suc i) ms"] by simp
qed simp

declare ensure_starts_with_user.simps [simp del]

section \<open>The lemmas of the repaired history\<close>

definition well_filled :: "message list \<Rightarrow> bool" where
  "well_filled ms = list_all (\<lambda>m. nonempty_content (content m)) ms"

lemma well_filled_drop_empty: "well_filled (drop_empty ms)"
  by (auto simp: well_filled_def drop_empty_def list_all_iff)

lemma well_filled_clean: "well_filled (fst (clean_messages ids ms st))"
  by (induction ids ms st rule: clean_messages.induct)
     (auto simp: well_filled_def case_prod_beta Let_def split: message_content.splits)

lemma well_filled_insert:
  "well_filled ms \<Longrightarrow> blocks \<noteq> [] \<Longrightarrow> well_filled (insert_results pos blocks ms)"
  by (auto simp: well_filled_def insert_results_def list_all_iff
      dest: in_set_takeD in_set_dropD dest!: subsetD [OF set_update_subset_insert])

lemma group_push_filled:
  "(\<forall>(k, vs)\<in>set g. vs \<noteq> []) \<Longrightarrow> (\<forall>(k, vs)\<in>set (group_push j v g). vs \<noteq> [])"
proof -
  assume "\<forall>(k, vs)\<in>set g. vs \<noteq> []"
  moreover have "set (AList.update j w g) \<subseteq> insert (j, w) (set g)" for w
    by (induction g) auto
  ultimately show ?thesis by (fastforce simp: group_push_def dm_insert_def)
qed

lemma fold_group_push_filled:
  "(\<forall>(k, vs)\<in>set g. vs \<noteq> []) \<Longrightarrow> (\<forall>(k, vs)\<in>set (fold (\<lambda>x. group_push (f x) (h x)) xs g). vs \<noteq> [])"
proof (induction xs arbitrary: g)
  case (Cons x xs)
  show ?case using Cons.IH [OF group_push_filled [OF Cons.prems]] by simp
qed simp

lemma well_filled_reorder:
  assumes "well_filled ms"
  shows "well_filled (fst (reorder_tool_results ms))"
proof -
  let ?xs = "misplaced_results (index_tool_uses ms) ms"
  have eq: "(\<lambda>(_, _, b, a). group_push a b) =
      (\<lambda>x :: nat \<times> string \<times> content_block \<times> nat. group_push (snd (snd (snd x))) (fst (snd (snd x))))"
    by auto
  have groups: "\<forall>(k, vs)\<in>set (sorted_desc (fold (\<lambda>(_, _, b, a). group_push a b) ?xs [])). vs \<noteq> []"
    unfolding sorted_desc_def eq set_rev set_sort by (rule fold_group_push_filled) simp
  have placed: "well_filled (fold (place_group pos) gs ns)"
    if "\<forall>(k, vs)\<in>set gs. vs \<noteq> []" "well_filled ns" for pos gs ns
    using that by (induction gs arbitrary: ns)
      (auto simp: place_group_def well_filled_insert split: option.splits)
  show ?thesis
    using assms groups by (simp add: reorder_tool_results_def Let_def placed well_filled_drop_empty)
qed

lemma well_filled_synthetic:
  assumes "well_filled ms"
  shows "well_filled (fst (insert_synthetic_results ms))"
proof -
  have eq: "(\<lambda>(idx, i). group_push idx (synthetic_result i)) =
      (\<lambda>x :: nat \<times> string. group_push (fst x) (synthetic_result (snd x)))"
    by auto
  have groups: "\<forall>(k, vs)\<in>set (sorted_desc (synthetic_groups xs)). vs \<noteq> []" for xs
    unfolding sorted_desc_def synthetic_groups_def eq set_rev set_sort by (rule fold_group_push_filled) simp
  have "well_filled (fold place_synthetic gs ns)"
    if "\<forall>(k, vs)\<in>set gs. vs \<noteq> []" "well_filled ns" for gs ns
    using that by (induction gs arbitrary: ns) (auto simp: place_synthetic_def well_filled_insert)
  then show ?thesis
    unfolding insert_synthetic_fold using groups assms by blast
qed

lemma well_filled_unmerged: "well_filled (unmerged_messages ms)"
proof -
  have "well_filled (remove_aborted_assistant_messages ns)" if "well_filled ns" for ns
    using that
    by (auto simp: remove_aborted_assistant_messages_def well_filled_def list_all_iff in_set_enumerate_eq)
  moreover have "well_filled (fst (deduplicate_tool_results ns))" for ns
    by (simp add: deduplicate_tool_results_def case_prod_beta well_filled_drop_empty)
  ultimately show ?thesis
    by (simp add: unmerged_messages_def well_filled_synthetic)
qed

lemma merge_onto_shape:
  "well_filled (m # ms) \<Longrightarrow>
    (\<exists>c ns. fst (merge_onto m ms) = m\<lparr>content := c\<rparr> # ns)
    \<and> successively (\<lambda>a b. role a \<noteq> role b) (fst (merge_onto m ms))
    \<and> well_filled (fst (merge_onto m ms))"
proof (induction m ms rule: merge_onto.induct)
  case (1 cur)
  then show ?case by (cases cur) simp
next
  case (2 cur m ms)
  have filled: "nonempty_content (merge_content a b)" if "nonempty_content a" for a b
    using that by (cases a) (simp_all add: merge_content_def)
  show ?case
  proof (cases "role cur = role m")
    case True
    with 2(1) [OF True] 2(3) filled show ?thesis
      by (fastforce simp: case_prod_beta well_filled_def)
  next
    case False
    with 2(2) [OF False] 2(3) show ?thesis
      by (cases cur) (auto simp: case_prod_beta well_filled_def)
  qed
qed

lemma repaired_shape:
  "well_filled (validate_and_repair ms)
   \<and> successively (\<lambda>a b. role a \<noteq> role b) (validate_and_repair ms)"
proof (cases "unmerged_messages ms")
  case Nil
  then show ?thesis by (simp add: validate_and_repair_phases well_filled_def)
next
  case (Cons m ns)
  with well_filled_unmerged [of ms] merge_onto_shape [of m ns] show ?thesis
    by (simp add: validate_and_repair_phases)
qed

text \<open>
  Results are counted per tool-use id (\<open>answers\<close>), and so are the tool uses of the assistant
  messages (\<open>asked\<close>). Deduplication leaves at most one result per id, the synthetic results
  bring every id up to its number of uses, and no later phase changes either count.
\<close>

definition answers :: "message list \<Rightarrow> string list" where
  "answers ms = concat (map (\<lambda>m. result_ids (content m)) ms)"

definition asked :: "message list \<Rightarrow> string list" where
  "asked ms = concat (map (\<lambda>m. if role m = Assistant then use_ids (content m) else []) ms)"

lemma answers_simps [simp]:
  "answers [] = []" "answers (m # ms) = result_ids (content m) @ answers ms"
  "answers (ms @ ns) = answers ms @ answers ns"
  by (simp_all add: answers_def)

lemma asked_simps [simp]:
  "asked [] = []" "asked (m # ms) = (if role m = Assistant then use_ids (content m) else []) @ asked ms"
  by (simp_all add: asked_def)

lemma map_filter_append [simp]: "List.map_filter f (xs @ ys) = List.map_filter f xs @ List.map_filter f ys"
  by (simp add: map_filter_def)

lemma result_ids_blocks:
  "result_ids (Blocks (content_to_blocks c @ bs)) = result_ids c @ result_ids (Blocks bs)"
  by (cases c) (simp_all add: map_filter_simps)

lemma use_ids_carries:
  "List.map_filter block_use_id (filter carries (content_to_blocks c)) = use_ids c"
proof (cases c)
  case (Blocks bs)
  have "List.map_filter block_use_id (filter carries bs) = List.map_filter block_use_id bs"
    by (induction bs) (auto simp: map_filter_simps split: option.splits elim!: carries.elims block_use_id.elims)
  then show ?thesis by (simp add: Blocks)
qed (simp add: map_filter_simps trim_def)

lemma asked_payload:
  "asked ms = List.map_filter (\<lambda>(r, b). if r = Assistant then block_use_id b else None) (payload ms)"
proof (induction ms)
  case (Cons m ms)
  have "List.map_filter (\<lambda>(r, b). if r = Assistant then block_use_id b else None) (map (Pair r) bs)
     = (if r = Assistant then List.map_filter block_use_id bs else [])" for r bs
    by (cases r; induction bs) (simp_all add: map_filter_simps split: option.splits)
  then show ?case
    using Cons by (simp add: payload_Cons use_ids_carries)
qed (simp add: map_filter_simps)

lemma asked_pass: "repair_pass f \<Longrightarrow> asked (f ms) = asked ms"
  by (simp add: asked_payload repair_pass.pass_payload)

lemma answers_insert:
  "mset (answers (insert_results pos blocks ms)) = mset (answers ms) + mset (result_ids (Blocks blocks))"
proof (cases "pos < length ms \<and> role (ms ! pos) = User")
  case True
  have "answers ms = answers (take pos ms) @ result_ids (content (ms ! pos)) @ answers (drop (Suc pos) ms)"
    using True split_at [of pos ms] by (metis answers_simps(2,3))
  then show ?thesis
    using True by (simp add: insert_results_def upd_conv_take_nth_drop result_ids_blocks del: result_ids.simps)
next
  case False
  have "answers ms = answers (take pos ms) @ answers (drop pos ms)"
    by (metis answers_simps(3) append_take_drop_id)
  then show ?thesis
    using False by (auto simp: insert_results_def simp del: result_ids.simps)
qed

lemma answers_place_synthetic:
  "mset (answers (fold place_synthetic gs ms)) =
   mset (answers ms) + mset (result_ids (Blocks (concat (map snd gs))))"
proof (induction gs arbitrary: ms)
  case (Cons g gs)
  then show ?case
    by (simp add: place_synthetic_def case_prod_beta answers_insert)
qed (simp add: map_filter_simps)

lemma result_ids_mset:
  "mset bs = mset cs \<Longrightarrow> mset (result_ids (Blocks bs)) = mset (result_ids (Blocks cs))"
  by (simp add: map_filter_def)

lemma available_counts:
  "dm_entry (fold (\<lambda>i m. dm_insert i (dm_entry m i 0 + 1) m) xs m0) i 0 = dm_entry m0 i 0 + count_list xs i"
  by (induction xs arbitrary: m0) (auto simp: dm_entry_def)

lemma take_available_count:
  "count_list (map snd (take_available av us)) i = count_list (map snd us) i - dm_entry av i 0"
proof (induction av us rule: take_available.induct)
  case (2 av idx j us)
  then show ?case
    by (cases "dm_entry av j 0 > 0") (auto simp: Let_def dm_entry_def)
qed simp

lemma assistant_uses_asked: "map snd (assistant_uses ms) = asked ms"
proof -
  have "map snd (concat (map (\<lambda>(idx, m). if role m = Assistant then map (Pair idx) (use_ids (content m)) else [])
       (enumerate k ms))) = asked ms" for k
    by (induction ms arbitrary: k) (auto simp: comp_def)
  then show ?thesis by (simp add: assistant_uses_def)
qed

lemma synthetic_counts:
  "count_list (answers (fst (insert_synthetic_results ms))) i =
     max (count_list (asked ms) i) (count_list (answers ms) i)"
proof -
  let ?o = "take_available (available_result_counts ms) (assistant_uses ms)"
  have ids: "result_ids (Blocks (map (synthetic_result \<circ> snd) xs)) = map snd xs" for xs :: "(nat \<times> string) list"
    by (induction xs) (simp_all add: map_filter_simps synthetic_result_def)
  have "mset (answers (fst (insert_synthetic_results ms))) = mset (answers ms) + mset (map snd ?o)"
    unfolding insert_synthetic_fold answers_place_synthetic
    using result_ids_mset [OF synthetic_groups_mset [of ?o]] unfolding ids by simp
  then have "count_list (answers (fst (insert_synthetic_results ms))) i =
      count_list (answers ms) i + count_list (map snd ?o) i"
    by (metis count_mset count_union)
  also have "\<dots> = count_list (answers ms) i + (count_list (asked ms) i - count_list (answers ms) i)"
    using available_counts [of "answers ms" "[]" i]
    by (simp add: take_available_count assistant_uses_asked available_result_counts_def answers_def dm_entry_def)
  finally show ?thesis by simp
qed

lemma dedup_blocks_answers:
  "dedup_blocks bs seen = (bs', seen') \<Longrightarrow>
    set seen' = set seen \<union> set (result_ids (Blocks bs')) \<and>
    set (result_ids (Blocks bs')) \<subseteq> set (result_ids (Blocks bs)) \<and>
    distinct (result_ids (Blocks bs')) \<and> set (result_ids (Blocks bs')) \<inter> set seen = {}"
proof (induction bs arbitrary: seen bs' seen')
  case (Cons b bs)
  show ?case
  proof (cases "\<exists>i n c e. b = ToolResult i n c e")
    case True
    then obtain i n c e where b: "b = ToolResult i n c e" by auto
    show ?thesis
    proof (cases "i \<in> set seen")
      case True
      with Cons.prems have "dedup_blocks bs seen = (bs', seen')" by (simp add: b)
      from Cons.IH [OF this] show ?thesis by (auto simp: b map_filter_simps)
    next
      case False
      obtain r s where r: "dedup_blocks bs (i # seen) = (r, s)" by force
      with Cons.prems False have "bs' = b # r" "seen' = s" by (simp_all add: b)
      with Cons.IH [OF r] False show ?thesis by (auto simp: b map_filter_simps)
    qed
  next
    case False
    obtain r s where r: "dedup_blocks bs seen = (r, s)" by force
    have "bs' = b # r" "seen' = s" "result_ids (Blocks (b # r)) = result_ids (Blocks r)"
      "result_ids (Blocks (b # bs)) = result_ids (Blocks bs)"
      using False Cons.prems by (cases b; auto simp: r map_filter_simps)+
    with Cons.IH [OF r] show ?thesis by (simp del: result_ids.simps)
  qed
qed (simp add: map_filter_simps)

lemma dedup_messages_answers:
  "distinct (answers (fst (dedup_messages ms seen))) \<and>
   set (answers (fst (dedup_messages ms seen))) \<subseteq> set (answers ms) - set seen"
proof (induction ms arbitrary: seen)
  case (Cons m ms)
  show ?case
  proof (cases "content m")
    case (Blocks bs)
    obtain bs' seen' where d: "dedup_blocks bs seen = (bs', seen')" by force
    from dedup_blocks_answers [OF d] Cons.IH [of seen'] show ?thesis
      by (auto simp: Blocks d case_prod_beta Let_def simp del: result_ids.simps)
  qed (use Cons.IH [of seen] in \<open>auto simp: case_prod_beta\<close>)
qed simp

lemma drop_empty_answers: "answers (drop_empty ms) = answers ms"
proof (induction ms)
  case (Cons m ms)
  have "result_ids (content m) = []" if "\<not> nonempty_content (content m)"
    using that by (cases "content m") (simp_all add: map_filter_simps)
  then show ?case using Cons by (simp add: drop_empty_def)
qed (simp add: drop_empty_def)

lemma deduplicated_answers:
  "distinct (answers (fst (deduplicate_tool_results ms))) \<and>
   set (answers (fst (deduplicate_tool_results ms))) \<subseteq> set (answers ms)"
  using dedup_messages_answers [of ms "[]"]
  by (simp add: deduplicate_tool_results_def case_prod_beta drop_empty_answers)

lemma aborted_answers: "answers (remove_aborted_assistant_messages ms) = answers ms"
proof -
  have blank: "result_ids c = []" if "is_empty_or_blank_content c" for c
  proof (cases c)
    case (Blocks bs)
    have "list_all blank_block xs \<Longrightarrow> result_ids (Blocks xs) = []" for xs
      by (induction xs) (auto simp: map_filter_simps elim!: blank_block.elims)
    with that show ?thesis by (auto simp: Blocks map_filter_simps)
  qed simp
  have "answers (map snd (filter (\<lambda>(i, m). \<not> (role m = Assistant \<and> is_empty_or_blank_content (content m)
      \<and> i + 1 < n)) (enumerate k ms))) = answers ms" for k n
    by (induction ms arbitrary: k) (auto simp: blank)
  then show ?thesis by (simp add: remove_aborted_assistant_messages_def)
qed

lemma merge_onto_answers: "answers (fst (merge_onto m ms)) = answers (m # ms)"
proof (induction m ms rule: merge_onto.induct)
  case (2 cur m ms)
  have join: "result_ids (merge_content c d) = result_ids c @ result_ids d" for c d
    by (cases d) (simp_all add: merge_content_def result_ids_blocks map_filter_simps del: result_ids.simps(2),
      simp_all add: map_filter_simps)
  show ?case
    using 2 by (cases "role cur = role m") (simp_all add: case_prod_beta join)
qed simp

lemma repaired_answers: "answers (validate_and_repair ms) = answers (unmerged_messages ms)"
  by (cases "unmerged_messages ms")
     (simp_all only: validate_and_repair_phases merge_consecutive.simps fst_conv merge_onto_answers)

lemma in_result_ids:
  "i \<in> set (result_ids c) \<longleftrightarrow> (\<exists>n x e. ToolResult i n x e \<in> set (content_to_blocks c))"
proof (cases c)
  case (Blocks bs)
  have "i \<in> set (result_ids (Blocks bs)) \<longleftrightarrow> (\<exists>n x e. ToolResult i n x e \<in> set bs)"
  proof (induction bs)
    case (Cons b bs)
    then show ?case by (cases b) (auto simp: map_filter_simps)
  qed (simp add: map_filter_simps)
  then show ?thesis by (simp add: Blocks)
qed simp

declare result_ids.simps(2) [simp del]

lemma in_answers:
  "i \<in> set (answers ms) \<longleftrightarrow> (\<exists>m\<in>set ms. \<exists>n c e. ToolResult i n c e \<in> set (content_to_blocks (content m)))"
  by (auto simp: answers_def in_result_ids)

lemma cleaned_answers: "set (answers (fst (clean_messages ids ms st))) \<subseteq> set ids"
proof (induction ids ms st rule: clean_messages.induct)
  case (2 ids m ms st)
  have "set (result_ids (Blocks (filter (kept_result ids) bs))) \<subseteq> set ids" for bs
    by (auto simp: in_result_ids)
  with 2 show ?case
    by (cases "content m") (auto simp: case_prod_beta Let_def)
qed simp

lemma answers_place:
  "set (answers (fold (place_group pos) gs ms)) \<subseteq>
   set (answers ms) \<union> set (result_ids (Blocks (concat (map snd gs))))"
proof (induction gs arbitrary: ms)
  case (Cons g gs)
  have "set (answers (place_group pos g ms)) \<subseteq> set (answers ms) \<union> set (result_ids (Blocks (snd g)))"
    using answers_insert by (simp add: place_group_def case_prod_beta split: option.splits)
      (metis set_mset_mset set_mset_union subset_refl)
  with Cons.IH [of "place_group pos g ms"] show ?case
    by (fastforce simp: in_result_ids)
qed simp

lemma retained_answers:
  "set (answers (map (retain_in_place srcs) (enumerate k ms))) \<subseteq> set (answers ms)"
proof -
  have "set (content_to_blocks (content (retain_in_place srcs (idx, m)))) \<subseteq> set (content_to_blocks (content m))"
    for idx m by (cases "content m") (auto simp: retain_in_place_def)
  then have sub: "set (result_ids (content (retain_in_place srcs (idx, m)))) \<subseteq> set (result_ids (content m))" for idx m
    unfolding subset_iff in_result_ids by (meson subsetD)
  show ?thesis by (induction ms arbitrary: k) (auto dest!: subsetD [OF sub])
qed

lemma reordered_answers: "set (answers (fst (reorder_tool_results ms))) \<subseteq> set (answers ms)"
proof -
  let ?mis = "misplaced_results (index_tool_uses ms) ms"
  let ?gs = "sorted_desc (fold (\<lambda>(_, _, b, a). group_push a b) ?mis [])"
  have "set (result_ids (Blocks (concat (map snd ?gs)))) \<subseteq> set (answers ms)"
  proof
    fix i assume "i \<in> set (result_ids (Blocks (concat (map snd ?gs))))"
    then obtain b n c e where b: "b \<in> set (concat (map snd ?gs))" "b = ToolResult i n c e"
      unfolding in_result_ids content_to_blocks.simps by blast
    obtain k j a where "(k, j, b, a) \<in> set ?mis"
      using reorder_groups_result [OF b(1)] by blast
    with b(2) show "i \<in> set (answers ms)"
      using misplaced_resultsD [of k j b a "index_tool_uses ms" ms]
      unfolding in_answers by (blast intro: nth_mem)
  qed
  then have "set (answers (fold (place_group pos) ?gs ns)) \<subseteq> set (answers ms)"
    if "set (answers ns) \<subseteq> set (answers ms)" for pos ns
    using that answers_place [of pos ?gs ns] by blast
  then show ?thesis
    using retained_answers by (simp add: reorder_tool_results_def Let_def drop_empty_answers)
qed

lemma repaired_pairs:
  assumes "list_all (\<lambda>m. role m = Assistant \<or> use_ids (content m) = []) ms"
  shows "count_list (answers (validate_and_repair ms)) i = count_list (asked ms) i"
proof -
  let ?r = "fst (reorder_tool_results (cleaned_messages ms))"
  let ?d = "fst (deduplicate_tool_results ?r)"
  have kept: "asked ?d = asked ms"
    by (simp add: asked_pass [OF dedup_pass] asked_pass [OF reorder_pass] asked_pass [OF cleaned_pass])
  have "tool_use_ids ms = asked ms"
    using assms by (induction ms) (auto simp: tool_use_ids_def)
  then have sub: "set (answers ?d) \<subseteq> set (asked ms)"
    using deduplicated_answers [of ?r] reordered_answers [of "cleaned_messages ms"]
      cleaned_answers [of "tool_use_ids ms" ms default_repair_stats]
    by (auto simp: cleaned_messages_def)
  have "count_list (answers ?d) i \<le> count_list (asked ms) i"
  proof (cases "i \<in> set (answers ?d)")
    case True
    then have "count_list (answers ?d) i = 1"
      using deduplicated_answers [of ?r] by (simp add: count_list_eq_length_filter distinct_length_filter)
    moreover have "count_list (asked ms) i > 0"
      using True sub by (metis count_list_0_iff gr0I subsetD)
    ultimately show ?thesis by simp
  qed (simp add: count_notin)
  then show ?thesis
    using synthetic_counts [of ?d i]
    by (simp add: repaired_answers unmerged_messages_def aborted_answers kept)
qed

text \<open>
  What becomes of a result: the phases move it, but the only result of an id that a tool use has is
  neither dropped nor changed.
\<close>

fun result_of :: "string \<Rightarrow> content_block \<Rightarrow> bool" where
  "result_of i (ToolResult j _ _ _) = (j = i)"
| "result_of i _ = False"

definition results_for :: "string \<Rightarrow> message list \<Rightarrow> content_block list" where
  "results_for i ms = concat (map (\<lambda>m. filter (result_of i) (content_to_blocks (content m))) ms)"

lemma results_simps [simp]:
  "results_for i [] = []" "results_for i (m # ms) = filter (result_of i) (content_to_blocks (content m)) @ results_for i ms"
  "results_for i (ms @ ns) = results_for i ms @ results_for i ns"
  by (simp_all add: results_for_def)

lemma results_clean: "i \<in> set ids \<Longrightarrow> results_for i (fst (clean_messages ids ms st)) = results_for i ms"
proof (induction ids ms st rule: clean_messages.induct)
  case (2 ids m ms st)
  have same: "filter (result_of i) (filter (kept_result ids) bs) = filter (result_of i) bs" for bs
    using 2(5) by (induction bs) (auto elim: kept_result.elims result_of.elims)
  show ?case
  proof (cases "content m")
    case (Text s)
    then show ?thesis using 2(1) [OF Text] 2(2) [OF Text] 2(5) by (auto simp: case_prod_beta)
  next
    case (Blocks bs)
    show ?thesis
    proof (cases "filter (kept_result ids) bs = []")
      case True
      then show ?thesis using 2(3) [OF Blocks refl refl True] 2(5) Blocks same [of bs] by simp
    next
      case False
      then show ?thesis using 2(4) [OF Blocks refl refl False] 2(5) Blocks same [of bs] by (simp add: case_prod_beta Let_def)
    qed
  qed
qed simp

lemma results_drop_empty: "results_for i (drop_empty ms) = results_for i ms"
proof (induction ms)
  case (Cons m ms)
  have "filter (result_of i) (content_to_blocks (content m)) = []" if "\<not> nonempty_content (content m)"
    using that by (cases "content m") simp_all
  then show ?case using Cons by (simp add: drop_empty_def)
qed (simp add: drop_empty_def)

lemma results_insert:
  "mset (results_for i (insert_results pos blocks ms)) = mset (results_for i ms) + mset (filter (result_of i) blocks)"
proof (cases "pos < length ms \<and> role (ms ! pos) = User")
  case True
  have "results_for i ms = results_for i (take pos ms) @ filter (result_of i) (content_to_blocks (content (ms ! pos))) @ results_for i (drop (Suc pos) ms)"
    using True split_at [of pos ms] by (metis results_simps(2,3))
  then show ?thesis using True by (simp add: insert_results_def upd_conv_take_nth_drop)
next
  case False
  have "results_for i ms = results_for i (take pos ms) @ results_for i (drop pos ms)"
    by (metis results_simps(3) append_take_drop_id)
  then show ?thesis using False by (auto simp: insert_results_def)
qed

lemma results_place:
  assumes "\<And>a bs. (a, bs) \<in> set gs \<Longrightarrow> filter (result_of i) bs \<noteq> [] \<Longrightarrow> dm_get pos a \<noteq> None"
  shows "mset (results_for i (fold (place_group pos) gs ms)) = mset (results_for i ms) + mset (filter (result_of i) (concat (map snd gs)))"
  using assms
proof (induction gs arbitrary: ms)
  case (Cons g gs)
  obtain a bs where g: "g = (a, bs)" by force
  have "mset (results_for i (place_group pos g ms)) = mset (results_for i ms) + mset (filter (result_of i) bs)"
  proof (cases "dm_get pos a")
    case None
    then have "filter (result_of i) bs = []" using Cons.prems [of a bs] g by auto
    then show ?thesis using None by (simp add: g place_group_def)
  qed (simp add: g place_group_def results_insert)
  moreover have "mset (results_for i (fold (place_group pos) gs (place_group pos g ms))) =
      mset (results_for i (place_group pos g ms)) + mset (filter (result_of i) (concat (map snd gs)))"
    by (rule Cons.IH) (rule Cons.prems, simp_all)
  ultimately show ?case by (simp add: g)
qed simp

text \<open>The assistant message that a group of results goes behind is still there.\<close>

lemma group_push_from:
  assumes "\<And>a bs b. (a, bs) \<in> set g \<Longrightarrow> b \<in> set bs \<Longrightarrow> Q a b" "Q k v" "(a, bs) \<in> set (group_push k v g)" "b \<in> set bs"
  shows "Q a b"
proof -
  have "set (dm_insert k w g) \<subseteq> insert (k, w) (set g)" for w by (induction g) (auto simp: dm_insert_def)
  then consider "(a, bs) \<in> set g" | "a = k" "bs = dm_entry g k [] @ [v]" using assms(3) by (auto simp: group_push_def)
  then show ?thesis
  proof cases
    case 2
    then show ?thesis using assms(1,2,4) by (auto simp: dm_entry_def dest: dm_get_in split: option.splits)
  qed (use assms(1,4) in blast)
qed

lemma groups_hold:
  assumes "\<And>a bs b. (a, bs) \<in> set g \<Longrightarrow> b \<in> set bs \<Longrightarrow> Q a b" "\<And>k j b a. (k, j, b, a) \<in> set xs \<Longrightarrow> Q a b"
    and "(a, bs) \<in> set (fold (\<lambda>(_, _, b, a). group_push a b) xs g)" "b \<in> set bs"
  shows "Q a b"
  using assms
proof (induction xs arbitrary: g)
  case (Cons x xs)
  obtain k j v c where x: "x = (k, j, v, c)" by (metis prod.collapse)
  show ?case
  proof (rule Cons.IH [of "group_push c v g"])
    show "Q a bb" if "(a, bs) \<in> set (group_push c v g)" "bb \<in> set bs" for a bs bb
      by (rule group_push_from [OF Cons.prems(1) _ that]) (use Cons.prems(2) x in auto)
  qed (use Cons.prems(2-4) x in auto)
qed auto

lemma groups_from:
  assumes "(a, bs) \<in> set (sorted_desc (fold (\<lambda>(_, _, b, a). group_push a b) xs []))" "b \<in> set bs"
  shows "\<exists>k j. (k, j, b, a) \<in> set xs"
  using groups_hold [of "[]" "\<lambda>a b. \<exists>k j. (k, j, b, a) \<in> set xs" xs a bs b] assms by (auto simp: sorted_desc_def)

lemma fold_insert_uses: "dm_get (fold (\<lambda>i. dm_insert i idx) ids t) i = (if i \<in> set ids then Some idx else dm_get t i)"
  by (induction ids arbitrary: t) auto

lemma index_from_use:
  assumes "dm_get (index_tool_uses ms) i \<noteq> None"
  shows "\<exists>m\<in>set ms. role m = Assistant \<and> i \<in> set (use_ids (content m))"
proof -
  have "dm_get (fold (\<lambda>(idx, m) t. if role m = Assistant then fold (\<lambda>i. dm_insert i idx) (use_ids (content m)) t else t) xs t) i \<noteq> None
    \<Longrightarrow> dm_get t i \<noteq> None \<or> (\<exists>m\<in>snd ` set xs. role m = Assistant \<and> i \<in> set (use_ids (content m)))" for xs :: "(nat \<times> message) list" and t
    by (induction xs arbitrary: t) (fastforce simp: fold_insert_uses split: if_splits)+
  from this [of "enumerate 0 ms" "[]"] assms show ?thesis by (force simp: index_tool_uses_def in_set_enumerate_eq)
qed

lemma position_of_use:
  assumes "dm_get t i = Some a" "m \<in> set ms" "role m = Assistant" "i \<in> set (use_ids (content m))"
  shows "dm_get (current_assistant_positions t ms) a \<noteq> None"
proof -
  let ?f = "\<lambda>idx i p. case dm_get t i of Some orig \<Rightarrow> dm_insert orig idx p | None \<Rightarrow> p"
  have inner: "dm_get p a \<noteq> None \<or> i \<in> set ids \<Longrightarrow> dm_get (fold (?f idx) ids p) a \<noteq> None" for ids p and idx :: nat
    using assms(1) by (induction ids arbitrary: p) (auto split: option.split)
  have "dm_get p a \<noteq> None \<or> m \<in> snd ` set xs \<Longrightarrow>
    dm_get (fold (\<lambda>(idx, m) p. if role m = Assistant then fold (?f idx) (use_ids (content m)) p else p) xs p) a \<noteq> None"
    for xs :: "(nat \<times> message) list" and p
  proof (induction xs arbitrary: p)
    case (Cons x xs)
    then show ?case using inner assms(3,4) by (cases x) auto
  qed simp
  moreover have "m \<in> snd ` set (enumerate 0 ms)" using assms(2) by (metis list.set_map map_snd_enumerate)
  ultimately show ?thesis by (simp add: current_assistant_positions_def)
qed

text \<open>What is taken out of its place is what is put back.\<close>

definition is_moved :: "(string, nat) dashmap \<Rightarrow> nat \<Rightarrow> string \<Rightarrow> bool" where
  "is_moved t idx i = (case dm_get t i of Some a \<Rightarrow> idx \<noteq> a + 1 | None \<Rightarrow> False)"

lemma moved_blocks:
  "filter (result_of i) (map (\<lambda>x. fst (snd (snd x))) (List.map_filter (misplaced_block t idx) bs))
    = (if is_moved t idx i then filter (result_of i) bs else [])"
proof (induction bs)
  case (Cons b bs)
  then show ?case
    by (cases b) (auto simp: map_filter_simps misplaced_block_def is_moved_def split: option.splits)
qed (simp add: map_filter_simps)

lemma retained_blocks:
  "filter (result_of i) (filter (retained srcs idx) bs) = (if (idx, i) \<in> set srcs then [] else filter (result_of i) bs)"
proof (induction bs)
  case (Cons b bs)
  then show ?case by (cases b) auto
qed simp

definition moved_results :: "(string, nat) dashmap \<Rightarrow> nat \<times> message \<Rightarrow> (nat \<times> string \<times> content_block \<times> nat) list" where
  "moved_results t = (\<lambda>(idx, m). if role m \<noteq> User then []
     else case content m of Text _ \<Rightarrow> [] | Blocks bs \<Rightarrow> List.map_filter (misplaced_block t idx) bs)"

lemma retained_results:
  assumes "\<And>idx m. (idx, m) \<in> set xs \<Longrightarrow> role m = User \<Longrightarrow> filter (result_of i) (content_to_blocks (content m)) \<noteq> [] \<Longrightarrow>
      (idx, i) \<in> set srcs \<longleftrightarrow> is_moved t idx i"
  shows "mset (results_for i (map (retain_in_place srcs) xs))
    + mset (filter (result_of i) (map (\<lambda>x. fst (snd (snd x))) (concat (map (moved_results t) xs))))
    = mset (results_for i (map snd xs))"
  using assms
proof (induction xs)
  case (Cons x xs)
  obtain idx m where x: "x = (idx, m)" by force
  have IH: "mset (results_for i (map (retain_in_place srcs) xs))
    + mset (filter (result_of i) (map (\<lambda>x. fst (snd (snd x))) (concat (map (moved_results t) xs))))
    = mset (results_for i (map snd xs))" by (rule Cons.IH) (rule Cons.prems, simp_all)
  have "mset (filter (result_of i) (content_to_blocks (content (retain_in_place srcs (idx, m)))))
      + mset (filter (result_of i) (map (\<lambda>x. fst (snd (snd x))) (moved_results t (idx, m))))
      = mset (filter (result_of i) (content_to_blocks (content m)))"
  proof (cases "content m")
    case (Blocks bs)
    then show ?thesis
      using Cons.prems [of idx m] moved_blocks [of i t idx bs] retained_blocks [of i srcs idx bs] x
      by (cases "role m = User"; cases "filter (result_of i) bs = []")
        (auto simp: retain_in_place_def moved_results_def simp flip: mset_filter)
  qed (simp add: retain_in_place_def moved_results_def)
  with IH show ?case by (simp add: x add_ac)
qed simp

lemma results_reorder: "mset (results_for i (fst (reorder_tool_results ms))) = mset (results_for i ms)"
proof -
  let ?t = "index_tool_uses ms"
  let ?mis = "misplaced_results ?t ms"
  let ?srcs = "map (\<lambda>(idx, i, _, _). (idx, i)) ?mis"
  let ?kept = "drop_empty (map (retain_in_place ?srcs) (enumerate 0 ms))"
  let ?pos = "current_assistant_positions ?t ?kept"
  let ?gs = "sorted_desc (fold (\<lambda>(_, _, b, a). group_push a b) ?mis [])"
  have srcs: "(idx, i) \<in> set ?srcs \<longleftrightarrow> is_moved ?t idx i"
    if idx: "(idx, m) \<in> set (enumerate 0 ms)" "role m = User" "filter (result_of i) (content_to_blocks (content m)) \<noteq> []" for idx m
  proof
    assume "(idx, i) \<in> set ?srcs"
    then show "is_moved ?t idx i" using misplaced_resultsD by (fastforce simp: is_moved_def)
  next
    assume m: "is_moved ?t idx i"
    obtain bs where bs: "content m = Blocks bs" using idx(3) by (cases "content m") auto
    from idx(3) bs obtain n c e where b: "ToolResult i n c e \<in> set bs"
      by (auto simp: filter_empty_conv elim: result_of.elims)
    from m obtain a where "misplaced_block ?t idx (ToolResult i n c e) = Some (idx, i, ToolResult i n c e, a)"
      by (auto simp: is_moved_def misplaced_block_def split: option.splits)
    with b bs idx(1,2) have "(idx, i, ToolResult i n c e, a) \<in> set ?mis"
      by (force simp: misplaced_results_def set_map_filter)
    then show "(idx, i) \<in> set ?srcs" by force
  qed
  have pos: "dm_get ?pos a \<noteq> None" if g: "(a, bs) \<in> set ?gs" "filter (result_of i) bs \<noteq> []" for a bs
  proof -
    from g(2) obtain b where b: "b \<in> set bs" "result_of i b" by (auto simp: filter_empty_conv)
    obtain k j where "(k, j, b, a) \<in> set ?mis" using groups_from [OF g(1) b(1)] by blast
    then have t: "dm_get ?t i = Some a" using misplaced_resultsD b(2) by fastforce
    then obtain m where m: "m \<in> set ms" "role m = Assistant" "i \<in> set (use_ids (content m))"
      using index_from_use [of ms i] by auto
    have "m \<in> snd ` set (enumerate 0 ms)" using m(1) by (metis list.set_map map_snd_enumerate)
    then obtain idx where "(idx, m) \<in> set (enumerate 0 ms)" by auto
    then have "retain_in_place ?srcs (idx, m) \<in> retain_in_place ?srcs ` set (enumerate 0 ms)" by (rule imageI)
    moreover have "retain_in_place ?srcs (idx, m) = m" using m(2) by (simp add: retain_in_place_def)
    moreover have "nonempty_content (content m)" using m(3) by (cases "content m") (auto simp: map_filter_simps)
    ultimately have "m \<in> set ?kept" by (simp add: drop_empty_def)
    then show ?thesis using position_of_use [OF t _ m(2,3)] by blast
  qed
  have "mset (results_for i (fold (place_group ?pos) ?gs ?kept)) = mset (results_for i ?kept) + mset (filter (result_of i) (concat (map snd ?gs)))"
    by (rule results_place [OF pos])
  also have "mset (filter (result_of i) (concat (map snd ?gs))) = mset (filter (result_of i) (map (\<lambda>x. fst (snd (snd x))) ?mis))"
    by (simp only: mset_filter reorder_groups_mset)
  also have "mset (results_for i ?kept) + \<dots> = mset (results_for i ms)"
    using retained_results [of "enumerate 0 ms" i ?srcs ?t, OF srcs]
    by (simp add: results_drop_empty misplaced_results_def moved_results_def)
  finally have put: "mset (results_for i (fold (place_group ?pos) ?gs ?kept)) = mset (results_for i ms)" .
  have "fst (reorder_tool_results ms) = (if ?mis = [] then ms else fold (place_group ?pos) ?gs ?kept)"
    by (simp only: reorder_tool_results_def Let_def if_distrib [of fst] fst_conv)
  then show ?thesis by (cases "?mis = []") (simp_all only: put if_True if_False simp_thms)
qed

lemma dedup_blocks_results:
  "length (filter (result_of i) bs) \<le> 1 \<Longrightarrow> i \<notin> set seen \<or> filter (result_of i) bs = [] \<Longrightarrow>
    filter (result_of i) (fst (dedup_blocks bs seen)) = filter (result_of i) bs
    \<and> (i \<in> set (snd (dedup_blocks bs seen)) \<longleftrightarrow> i \<in> set seen \<or> filter (result_of i) bs \<noteq> [])"
proof (induction bs arbitrary: seen)
  case (Cons b bs)
  show ?case
  proof (cases "\<exists>j n c e. b = ToolResult j n c e")
    case True
    then obtain j n c e where b: "b = ToolResult j n c e" by auto
    show ?thesis
      using Cons.prems Cons.IH [of seen] Cons.IH [of "j # seen"] by (auto simp: b case_prod_beta split: if_splits)
  next
    case False
    then show ?thesis using Cons.prems Cons.IH [of seen] by (cases b) (auto simp: case_prod_beta)
  qed
qed simp

lemma dedup_messages_results:
  "length (results_for i ms) \<le> 1 \<Longrightarrow> i \<notin> set seen \<or> results_for i ms = [] \<Longrightarrow>
    results_for i (fst (dedup_messages ms seen)) = results_for i ms"
proof (induction ms arbitrary: seen)
  case (Cons m ms)
  show ?case
  proof (cases "content m")
    case (Blocks bs)
    have "filter (result_of i) (fst (dedup_blocks bs seen)) = filter (result_of i) bs"
      "i \<notin> set (snd (dedup_blocks bs seen)) \<or> results_for i ms = []"
      using Cons.prems dedup_blocks_results [of i bs seen] Blocks by (cases "filter (result_of i) bs"; auto)+
    then show ?thesis
      using Cons.IH [of "snd (dedup_blocks bs seen)"] Cons.prems Blocks by (simp add: case_prod_beta Let_def)
  qed (use Cons in \<open>auto simp: case_prod_beta\<close>)
qed simp

lemma results_synthetic: "set (results_for i ms) \<subseteq> set (results_for i (fst (insert_synthetic_results ms)))"
proof -
  have "set (results_for i ms) \<subseteq> set (results_for i (fold place_synthetic gs ms))" for gs
  proof (induction gs arbitrary: ms)
    case (Cons g gs)
    have "set (results_for i ms) \<subseteq> set (results_for i (place_synthetic g ms))"
      using results_insert [of i] by (simp add: place_synthetic_def case_prod_beta) (metis set_mset_mset set_mset_union sup_ge1)
    with Cons show ?case by force
  qed simp
  then show ?thesis unfolding insert_synthetic_fold by blast
qed

lemma results_aborted: "results_for i (remove_aborted_assistant_messages ms) = results_for i ms"
proof -
  have blank: "filter (result_of i) (content_to_blocks c) = []" if "is_empty_or_blank_content c" for c
  proof (cases c)
    case (Blocks bs)
    have "list_all blank_block xs \<Longrightarrow> filter (result_of i) xs = []" for xs
      by (induction xs) (auto elim!: blank_block.elims)
    with that show ?thesis by (auto simp: Blocks)
  qed simp
  have "results_for i (map snd (filter (\<lambda>(j, m). \<not> (role m = Assistant \<and> is_empty_or_blank_content (content m)
      \<and> j + 1 < n)) (enumerate k ms))) = results_for i ms" for k n
    by (induction ms arbitrary: k) (auto simp: blank)
  then show ?thesis by (simp add: remove_aborted_assistant_messages_def)
qed

lemma results_merge: "results_for i (fst (merge_onto m ms)) = results_for i (m # ms)"
  by (induction m ms rule: merge_onto.induct) (simp_all add: case_prod_beta merge_content_def)

lemma repaired_result:
  assumes "results_for i ms = [b]" "i \<in> set (tool_use_ids ms)"
  shows "b \<in> set (results_for i (validate_and_repair ms))"
proof -
  let ?r = "fst (reorder_tool_results (cleaned_messages ms))"
  have "mset (results_for i ?r) = {#b#}"
    using assms by (simp add: results_reorder cleaned_messages_def results_clean)
  then have "results_for i (fst (deduplicate_tool_results ?r)) = [b]"
    using dedup_messages_results [of i ?r "[]"]
    by (simp add: deduplicate_tool_results_def case_prod_beta results_drop_empty)
  then have "b \<in> set (results_for i (unmerged_messages ms))"
    using results_synthetic [of i "fst (deduplicate_tool_results ?r)"] by (simp add: unmerged_messages_def results_aborted)
  then show ?thesis
    unfolding validate_and_repair_phases by (cases "unmerged_messages ms") (simp_all add: results_merge)
qed

text \<open>When no statistic counts a repair, no phase changed the history.\<close>

lemma clean_stats:
  "orphaned_results_removed st \<le> orphaned_results_removed (snd (clean_messages ids ms st)) \<and>
   empty_messages_removed st \<le> empty_messages_removed (snd (clean_messages ids ms st)) \<and>
   (orphaned_results_removed (snd (clean_messages ids ms st)) = orphaned_results_removed st \<and>
    empty_messages_removed (snd (clean_messages ids ms st)) = empty_messages_removed st \<longrightarrow>
    fst (clean_messages ids ms st) = ms \<and> snd (clean_messages ids ms st) = st)"
proof (induction ids ms st rule: clean_messages.induct)
  case (2 ids m ms st)
  show ?case
  proof (cases "content m")
    case (Text s)
    with 2(1) [OF Text] 2(2) [OF Text] show ?thesis
      by (cases "s = []") (auto simp: case_prod_beta)
  next
    case (Blocks bs)
    have same: "m\<lparr>content := Blocks bs\<rparr> = m"
      using Blocks by (cases m) simp
    have all: "filter (kept_result ids) bs = bs" if "filter (\<lambda>b. \<not> kept_result ids b) bs = []"
      using that by (simp add: filter_empty_conv filter_id_conv)
    show ?thesis
    proof (cases "filter (kept_result ids) bs = []")
      case True
      with 2(3) [OF Blocks refl refl True] show ?thesis
        by (auto simp: Blocks Let_def)
    next
      case False
      with 2(4) [OF Blocks refl refl False] all show ?thesis
        by (cases "filter (\<lambda>b. \<not> kept_result ids b) bs = []")
           (auto simp: Blocks Let_def case_prod_beta same)
    qed
  qed
qed simp

lemma dedup_blocks_length:
  "length (fst (dedup_blocks bs seen)) \<le> length bs \<and>
   (length (fst (dedup_blocks bs seen)) = length bs \<longrightarrow> fst (dedup_blocks bs seen) = bs)"
proof (induction bs arbitrary: seen)
  case (Cons b bs)
  show ?case
  proof (cases b)
    case (ToolResult i n c e)
    with Cons.IH [of seen] Cons.IH [of "i # seen"] show ?thesis
      by (auto simp: case_prod_beta)
  qed (use Cons.IH [of seen] in \<open>simp_all add: case_prod_beta\<close>)
qed simp

lemma dedup_messages_none: "snd (dedup_messages ms seen) = 0 \<Longrightarrow> fst (dedup_messages ms seen) = ms"
proof (induction ms arbitrary: seen)
  case (Cons m ms)
  show ?case
  proof (cases "content m")
    case (Blocks bs)
    with Cons dedup_blocks_length [of bs seen] show ?thesis
      by (cases m) (auto simp: case_prod_beta Let_def)
  qed (use Cons in \<open>auto simp: case_prod_beta\<close>)
qed simp

lemma filter_same_length: "length (filter P xs) = length xs \<Longrightarrow> filter P xs = xs"
  by (metis filter_True length_filter_less nat_neq_iff)

lemma filter_enumerate_same:
  "length (map snd (filter P (enumerate 0 ms))) = length ms \<Longrightarrow> map snd (filter P (enumerate 0 ms)) = ms"
  using filter_same_length [of P "enumerate 0 ms"] by simp

lemma aborted_none:
  "length (remove_aborted_assistant_messages ms) = length ms \<Longrightarrow> remove_aborted_assistant_messages ms = ms"
  using filter_enumerate_same [of _ ms]
  by (simp add: remove_aborted_assistant_messages_def split: if_splits)

lemma aborted_shrinks: "length (remove_aborted_assistant_messages ms) \<le> length ms"
  using length_filter_le [of _ "enumerate 0 ms"] by (auto simp: remove_aborted_assistant_messages_def)

lemma merge_onto_none: "snd (merge_onto m ms) = 0 \<Longrightarrow> fst (merge_onto m ms) = m # ms"
  by (induction m ms rule: merge_onto.induct) (auto simp: case_prod_beta split: if_splits)

lemma no_stats_unchanged:
  assumes "snd (validate_and_repair_with_stats ms) = default_repair_stats"
  shows "validate_and_repair ms = ms"
proof -
  let ?c = "cleaned_messages ms" let ?st = "snd (clean_messages (tool_use_ids ms) ms default_repair_stats)"
  let ?r = "fst (reorder_tool_results ?c)" let ?d = "fst (deduplicate_tool_results ?r)"
  let ?f = "fst (insert_synthetic_results ?d)" let ?k = "remove_aborted_assistant_messages ?f"
  have st: "orphaned_results_removed ?st = 0" "empty_messages_removed ?st = 0" "length ?f - length ?k = 0"
    "snd (reorder_tool_results ?c) = 0" "snd (deduplicate_tool_results ?r) = 0"
    "snd (insert_synthetic_results ?d) = 0" "snd (merge_consecutive ?k) = 0"
    using arg_cong [OF assms, of orphaned_results_removed] arg_cong [OF assms, of empty_messages_removed]
      arg_cong [OF assms, of results_reordered] arg_cong [OF assms, of duplicates_removed]
      arg_cong [OF assms, of synthetic_results_inserted] arg_cong [OF assms, of messages_merged]
    by (simp_all add: validate_and_repair_with_stats_def case_prod_beta Let_def cleaned_messages_def
        default_repair_stats_def)
  have c: "?c = ms"
    using clean_stats [of default_repair_stats "tool_use_ids ms" ms] st(1,2)
    by (auto simp: cleaned_messages_def default_repair_stats_def)
  have r: "?r = ?c"
    using st(4) by (auto simp: reorder_tool_results_def Let_def split: if_splits)
  have "well_filled ?c" by (simp add: cleaned_messages_def well_filled_clean)
  then have "drop_empty ?c = ?c"
    by (auto simp: drop_empty_def well_filled_def list_all_iff filter_id_conv)
  then have d: "?d = ?r"
    using st(5) r dedup_messages_none [of ?r "[]"] by (auto simp: deduplicate_tool_results_def case_prod_beta)
  have f: "?f = ?d"
    using st(6) by (auto simp: insert_synthetic_results_def Let_def split: if_splits)
  have k: "?k = ?f"
    using st(3) aborted_shrinks [of ?f] aborted_none [of ?f] by simp
  have "fst (merge_consecutive ?k) = ?k"
    using st(7) merge_onto_none by (cases ?k) auto
  with c r d f k show ?thesis
    by (simp add: validate_and_repair_phases unmerged_messages_def)
qed

section \<open>Heartbeat turns\<close>

definition no_reply_text :: "string \<Rightarrow> bool" where
  "no_reply_text s = (trim s = ''NO_REPLY'' \<or> trim s = ''[no reply needed]'')"

fun is_no_reply :: "message_content \<Rightarrow> bool" where
  "is_no_reply (Text s) = no_reply_text s"
| "is_no_reply (Blocks [ContentText s _]) = no_reply_text s"
| "is_no_reply (Blocks _) = False"

definition remove_at :: "nat \<Rightarrow> 'a list \<Rightarrow> 'a list" where
  "remove_at i xs = take i xs @ drop (Suc i) xs"

definition heartbeat_turns :: "message list \<Rightarrow> nat \<Rightarrow> nat list" where
  "heartbeat_turns ms prune_end =
     concat (map (\<lambda>i. if role (ms ! i) = Assistant \<and> is_no_reply (content (ms ! i))
                     then i # (if i > 0 \<and> role (ms ! (i - 1)) = User then [i - 1] else [])
                     else []) [0..<prune_end])"

definition prune_heartbeat_turns :: "message list \<Rightarrow> nat \<Rightarrow> message list" where
  "prune_heartbeat_turns ms keep_recent =
     (if length ms \<le> keep_recent then ms
      else let prune_end = length ms - keep_recent;
               to_remove = heartbeat_turns ms prune_end
           in if to_remove = [] then ms
              else fold remove_at (rev (remdups_adj (sort to_remove))) ms)"

lemma remove_descending:
  "sorted_wrt (<) xs \<Longrightarrow> \<forall>x\<in>set xs. x < length ms \<Longrightarrow> fold remove_at (rev xs) ms = nths ms (- set xs)"
proof (induction xs)
  case (Cons x xs)
  let ?rest = "nths (drop (Suc x) ms) {j. j + Suc x \<notin> set xs}"
  have x: "x < length ms" and gt: "\<forall>y\<in>set xs. x < y" using Cons.prems by auto
  have len: "length (take (Suc x) ms) = Suc x" "length (take x ms) = x" using x by auto
  have "nths (take (Suc x) ms @ drop (Suc x) ms) (- set xs) = take (Suc x) ms @ ?rest"
    unfolding nths_append len using gt len by (subst nths_all) auto
  then have "nths ms (- set xs) = take (Suc x) ms @ ?rest" by simp
  moreover have "fold remove_at (rev xs) ms = nths ms (- set xs)"
    using Cons by simp
  ultimately have "fold remove_at (rev (x # xs)) ms = take x ms @ ?rest"
    using x by (simp add: remove_at_def)
  moreover have "nths (take x ms @ [ms ! x] @ drop (Suc x) ms) (- set (x # xs)) = take x ms @ ?rest"
    unfolding nths_append len using gt len by (subst nths_all) (auto simp: nths_singleton add.commute)
  moreover have "take x ms @ [ms ! x] @ drop (Suc x) ms = ms"
    using x by (simp add: id_take_nth_drop [symmetric])
  ultimately show ?case by simp
qed (simp add: nths_all)

lemma heartbeat_turns_set:
  "i \<in> set (heartbeat_turns ms n) \<longleftrightarrow>
     (i < n \<and> role (ms ! i) = Assistant \<and> is_no_reply (content (ms ! i)))
     \<or> (i + 1 < n \<and> role (ms ! i) = User \<and> role (ms ! (i + 1)) = Assistant \<and> is_no_reply (content (ms ! (i + 1))))"
proof -
  have "i \<in> set (heartbeat_turns ms n) \<longleftrightarrow>
     (\<exists>j<n. role (ms ! j) = Assistant \<and> is_no_reply (content (ms ! j)) \<and>
        (i = j \<or> (j > 0 \<and> role (ms ! (j - 1)) = User \<and> i = j - 1)))"
    by (auto simp: heartbeat_turns_def)
  also have "\<dots> \<longleftrightarrow> (i < n \<and> role (ms ! i) = Assistant \<and> is_no_reply (content (ms ! i)))
     \<or> (\<exists>j<n. j > 0 \<and> i = j - 1 \<and> role (ms ! i) = User \<and> role (ms ! j) = Assistant \<and> is_no_reply (content (ms ! j)))"
    by auto
  also have "\<dots> \<longleftrightarrow> (i < n \<and> role (ms ! i) = Assistant \<and> is_no_reply (content (ms ! i)))
     \<or> (i + 1 < n \<and> role (ms ! i) = User \<and> role (ms ! (i + 1)) = Assistant \<and> is_no_reply (content (ms ! (i + 1))))"
    by (metis Suc_eq_plus1 Suc_pred' diff_add_inverse2 zero_less_Suc)
  finally show ?thesis .
qed

lemma strict_remdups_adj: "sorted xs \<Longrightarrow> sorted_wrt (<) (remdups_adj xs)"
  for xs :: "nat list"
  by (induction xs rule: remdups_adj.induct) (auto intro: le_neq_trans)

lemma prune_keeps:
  "prune_heartbeat_turns ms keep = nths ms {i. i \<notin> set (heartbeat_turns ms (length ms - keep))}"
proof (cases "length ms \<le> keep \<or> heartbeat_turns ms (length ms - keep) = []")
  case True
  then have "heartbeat_turns ms (length ms - keep) = []"
    by (auto simp: heartbeat_turns_def)
  with True show ?thesis
    by (auto simp: prune_heartbeat_turns_def nths_all)
next
  case False
  let ?h = "heartbeat_turns ms (length ms - keep)"
  have "sorted_wrt (<) (remdups_adj (sort ?h))"
    by (simp add: strict_remdups_adj)
  moreover have "\<forall>x\<in>set (remdups_adj (sort ?h)). x < length ms"
    by (auto simp: heartbeat_turns_set)
  ultimately have "fold remove_at (rev (remdups_adj (sort ?h))) ms = nths ms (- set ?h)"
    using remove_descending by fastforce
  with False show ?thesis
    by (simp add: prune_heartbeat_turns_def Let_def Compl_eq)
qed

section \<open>Properties\<close>

text \<open>
  A repaired history is one a provider accepts the shape of: neighbouring messages have
  different roles and no message is empty.
\<close>

theorem repaired_history_shape:
  "successively (\<lambda>a b. role a \<noteq> role b) (validate_and_repair ms)
   \<and> list_all (\<lambda>m. nonempty_content (content m)) (validate_and_repair ms)"
  using repaired_shape [of ms] by (simp add: well_filled_def)

text \<open>
  C3: the repair pairs tool uses and results. In a history whose tool uses are in assistant
  messages, the repaired history has, for every id, exactly as many results as it has tool uses
  (so no orphan is left, none is duplicated and none is missing), and the tool uses are those
  of the original history in their order.
\<close>

theorem repaired_results_match_uses:
  assumes "list_all (\<lambda>m. role m = Assistant \<or> use_ids (content m) = []) ms"
  shows "count_list (answers (validate_and_repair ms)) i = count_list (asked ms) i
    \<and> asked (validate_and_repair ms) = asked ms"
  using repaired_pairs [OF assms] asked_pass [OF repair.repair_pass_axioms] by simp

theorem repaired_results_match_uses_witness:
  "count_list (answers (validate_and_repair
     [\<lparr>role = Assistant, content = Blocks [ToolUse ''a'' ''read'' JNull None, ToolUse ''b'' ''ls'' JNull None]\<rparr>,
      \<lparr>role = User, content = Blocks [ToolResult ''z'' [] ''lost'' False]\<rparr>])) ''a'' = 1"
  using repaired_results_match_uses [of "[\<lparr>role = Assistant, content = Blocks [ToolUse ''a'' ''read'' JNull None, ToolUse ''b'' ''ls'' JNull None]\<rparr>,
      \<lparr>role = User, content = Blocks [ToolResult ''z'' [] ''lost'' False]\<rparr>]" "''a''"]
  by (simp add: map_filter_simps)

text \<open>
  C30: the repair loses no content. The sequence of blocks other than tool results, unknown
  blocks and blank text, each with the role of its message, is the same before and after; and a tool
  result that is the only one for an id that some tool use has is still there, unchanged. (Of several
  results for one id only the first is kept: \<open>reused_id_loses_its_result\<close>.)
\<close>

theorem repair_keeps_content:
  "payload (validate_and_repair ms) = payload ms
   \<and> (results_for i ms = [b] \<and> i \<in> set (tool_use_ids ms) \<longrightarrow> b \<in> set (results_for i (validate_and_repair ms)))"
  using repair.pass_payload repaired_result by blast

theorem repair_keeps_content_witness:
  "ToolResult ''a'' ''read'' ''text'' False \<in> set (results_for ''a'' (validate_and_repair
     [\<lparr>role = User, content = Blocks [ToolResult ''a'' ''read'' ''text'' False]\<rparr>,
      \<lparr>role = Assistant, content = Blocks [ToolUse ''a'' ''read'' JNull None]\<rparr>]))"
  using repair_keeps_content [of "[\<lparr>role = User, content = Blocks [ToolResult ''a'' ''read'' ''text'' False]\<rparr>,
      \<lparr>role = Assistant, content = Blocks [ToolUse ''a'' ''read'' JNull None]\<rparr>]" "''a''"]
  by (simp add: tool_use_ids_def map_filter_simps)

text \<open>
  The statistics are complete: a repair that reports no fix returns the history unchanged.
\<close>

theorem silent_repair_is_identity:
  "snd (validate_and_repair_with_stats ms) = default_repair_stats \<longrightarrow> validate_and_repair ms = ms"
  using no_stats_unchanged by blast

theorem silent_repair_is_identity_witness:
  "validate_and_repair [\<lparr>role = User, content = Text ''hi''\<rparr>] = [\<lparr>role = User, content = Text ''hi''\<rparr>]"
proof -
  have "snd (validate_and_repair_with_stats [\<lparr>role = User, content = Text ''hi''\<rparr>]) = default_repair_stats"
    by code_simp
  then show ?thesis using silent_repair_is_identity by blast
qed

text \<open>
  \<open>ensure_starts_with_user\<close> ends (its loop loses a message that is not a user's every
  round) with a history that starts with a user message, or that has no user message at all.
\<close>

theorem starts_with_user_or_has_none:
  "filter (\<lambda>m. role m = User) (ensure_starts_with_user ms) = []
   \<or> role (hd (ensure_starts_with_user ms)) = User"
proof (induction ms rule: ensure_starts_with_user.induct)
  case (1 ms)
  show ?case
  proof (cases "position (\<lambda>m. role m = User) ms")
    case None
    then have "ensure_starts_with_user ms = ms"
      by (subst ensure_starts_with_user.simps) simp
    with None show ?thesis by (auto simp: position_None filter_empty_conv)
  next
    case (Some k)
    show ?thesis
    proof (cases k)
      case 0
      with Some have "ensure_starts_with_user ms = ms"
        by (subst ensure_starts_with_user.simps) simp
      with Some 0 show ?thesis by (cases ms) (auto split: if_splits)
    next
      case (Suc i)
      with Some have "ensure_starts_with_user ms = ensure_starts_with_user (validate_and_repair (drop (Suc i) ms))"
        by (subst ensure_starts_with_user.simps) simp
      with 1 [OF Some Suc] show ?thesis by (simp only:)
    qed
  qed
qed

text \<open>
  Pruning heartbeats removes exactly, outside the last \<open>keep_recent\<close> messages, the
  assistant messages that are a \<open>NO_REPLY\<close> and every user message right before one of them,
  whatever that user message says (the comment in the code speaks of heartbeat triggers only).
\<close>

theorem prune_removes_no_reply_and_its_prompt:
  "prune_heartbeat_turns ms keep =
     nths ms {i. \<not> (i + keep < length ms \<and> role (ms ! i) = Assistant \<and> is_no_reply (content (ms ! i))
               \<or> i + 1 + keep < length ms \<and> role (ms ! i) = User \<and> role (ms ! (i + 1)) = Assistant
                 \<and> is_no_reply (content (ms ! (i + 1))))}"
proof -
  have "(i < length ms - keep) = (i + keep < length ms)" for i by linarith
  then show ?thesis
    unfolding prune_keeps heartbeat_turns_set by simp
qed

abbreviation asst :: "message_content \<Rightarrow> message" where "asst c \<equiv> \<lparr>role = Assistant, content = c\<rparr>"
abbreviation usr :: "message_content \<Rightarrow> message" where "usr c \<equiv> \<lparr>role = User, content = c\<rparr>"

lemma reused_cleaned:
  assumes "t \<noteq> []" "u \<noteq> []"
  shows "cleaned_messages
     [asst (Blocks [ToolUse i n a None]), usr (Blocks [ToolResult i n x False]), asst (Text t), usr (Text u),
      asst (Blocks [ToolUse i n a None]), usr (Blocks [ToolResult i n y False])]
   = [asst (Blocks [ToolUse i n a None]), usr (Blocks [ToolResult i n x False]), asst (Text t), usr (Text u),
      asst (Blocks [ToolUse i n a None]), usr (Blocks [ToolResult i n y False])]"
  using assms by (simp add: cleaned_messages_def tool_use_ids_def map_filter_simps Let_def)

lemma reused_reordered:
  assumes "t \<noteq> []" "u \<noteq> []"
  shows "fst (reorder_tool_results
     [asst (Blocks [ToolUse i n a None]), usr (Blocks [ToolResult i n x False]), asst (Text t), usr (Text u),
      asst (Blocks [ToolUse i n a None]), usr (Blocks [ToolResult i n y False])])
   = [asst (Blocks [ToolUse i n a None]), asst (Text t), usr (Text u), asst (Blocks [ToolUse i n a None]),
      usr (Blocks [ToolResult i n y False, ToolResult i n x False])]"
  using assms
  by (simp add: reorder_tool_results_def index_tool_uses_def misplaced_results_def misplaced_block_def
      retain_in_place_def drop_empty_def map_filter_simps dm_entry_def group_push_def sorted_desc_def
      current_assistant_positions_def place_group_def insert_results_def Let_def dm_insert_def dm_get_def)

lemma reused_filled:
  assumes "t \<noteq> []" "u \<noteq> []"
  shows "fst (insert_synthetic_results (fst (deduplicate_tool_results
     [asst (Blocks [ToolUse i n a None]), asst (Text t), usr (Text u), asst (Blocks [ToolUse i n a None]),
      usr (Blocks [ToolResult i n y False, ToolResult i n x False])])))
   = [asst (Blocks [ToolUse i n a None]), asst (Text t), usr (Text u), asst (Blocks [ToolUse i n a None]),
      usr (Blocks [ToolResult i n y False, synthetic_result i])]"
proof -
  have "fst (deduplicate_tool_results
     [asst (Blocks [ToolUse i n a None]), asst (Text t), usr (Text u), asst (Blocks [ToolUse i n a None]),
      usr (Blocks [ToolResult i n y False, ToolResult i n x False])])
   = [asst (Blocks [ToolUse i n a None]), asst (Text t), usr (Text u), asst (Blocks [ToolUse i n a None]),
      usr (Blocks [ToolResult i n y False])]"
    using assms by (simp add: deduplicate_tool_results_def drop_empty_def)
  then show ?thesis
    by (simp add: insert_synthetic_results_def available_result_counts_def result_ids.simps map_filter_simps
        assistant_uses_def dm_insert_def dm_get_def dm_entry_def Let_def group_push_def sorted_desc_def
        insert_results_def)
qed

text \<open>
  A valid history in which a provider reused a tool-use id (each use followed at once by
  its result) is broken by the repair: the first result is dropped, the synthetic result goes
  after the second use, which still has its own, and the first use is left with no result after
  it. The documentation promises that the phases handle such providers.
\<close>

theorem reused_id_loses_its_result:
  assumes "trim t \<noteq> []" "u \<noteq> []"
  shows "validate_and_repair
     [asst (Blocks [ToolUse i n a None]), usr (Blocks [ToolResult i n x False]), asst (Text t), usr (Text u),
      asst (Blocks [ToolUse i n a None]), usr (Blocks [ToolResult i n y False])]
   = [asst (Blocks [ToolUse i n a None, ContentText t None]), usr (Text u), asst (Blocks [ToolUse i n a None]),
      usr (Blocks [ToolResult i n y False, synthetic_result i])]"
proof -
  have t: "t \<noteq> []" using assms(1) by (auto simp: trim_def)
  have "unmerged_messages
     [asst (Blocks [ToolUse i n a None]), usr (Blocks [ToolResult i n x False]), asst (Text t), usr (Text u),
      asst (Blocks [ToolUse i n a None]), usr (Blocks [ToolResult i n y False])]
   = [asst (Blocks [ToolUse i n a None]), asst (Text t), usr (Text u), asst (Blocks [ToolUse i n a None]),
      usr (Blocks [ToolResult i n y False, synthetic_result i])]"
    unfolding unmerged_messages_def reused_cleaned [OF t assms(2)] reused_reordered [OF t assms(2)]
      reused_filled [OF t assms(2)]
    using assms(1) by (simp add: remove_aborted_assistant_messages_def)
  then show ?thesis by (simp add: validate_and_repair_phases merge_content_def)
qed

theorem reused_id_loses_its_result_witness:
  "validate_and_repair
     [asst (Blocks [ToolUse ''m:0'' ''m'' JNull None]), usr (Blocks [ToolResult ''m:0'' ''m'' ''one'' False]),
      asst (Text ''done''), usr (Text ''again''),
      asst (Blocks [ToolUse ''m:0'' ''m'' JNull None]), usr (Blocks [ToolResult ''m:0'' ''m'' ''two'' False])]
   = [asst (Blocks [ToolUse ''m:0'' ''m'' JNull None, ContentText ''done'' None]), usr (Text ''again''),
      asst (Blocks [ToolUse ''m:0'' ''m'' JNull None]),
      usr (Blocks [ToolResult ''m:0'' ''m'' ''two'' False, synthetic_result ''m:0''])]"
  by (rule reused_id_loses_its_result) (simp_all add: trim_def is_space_def)

end
