(* ===== verification/Cooldown.thy ===== *)
theory Cooldown
  imports Prelude
begin

text \<open>
  The provider circuit breaker: \<open>openfang-runtime/src/auth_cooldown.rs\<close>. Every operation that
  reads the clock takes the time \<open>now\<close>. The backoff multipliers are rationals and the product
  \<open>base * multiplier.powi(exponent)\<close> is exact, with the saturating cast back to \<open>u64\<close> written
  out; \<open>f64\<close> rounding of products above \<open>2 ^ 53\<close> is not modelled.
\<close>

section \<open>Configuration and state\<close>

record cooldown_config =
  base_cooldown_secs :: u64
  max_cooldown_secs :: u64
  backoff_multiplier :: rat
  max_exponent :: u32
  billing_base_cooldown_secs :: u64
  billing_max_cooldown_secs :: u64
  billing_multiplier :: rat
  failure_window_secs :: u64
  probe_enabled :: bool
  probe_interval_secs :: u64

definition default_cooldown_config :: cooldown_config where
  "default_cooldown_config = \<lparr>base_cooldown_secs = 60, max_cooldown_secs = 3600,
     backoff_multiplier = 5, max_exponent = 3, billing_base_cooldown_secs = 18000,
     billing_max_cooldown_secs = 86400, billing_multiplier = 2, failure_window_secs = 86400,
     probe_enabled = True, probe_interval_secs = 30\<rparr>"

datatype circuit_state = Closed | Open | HalfOpen

record provider_state =
  error_count :: u32
  is_billing :: bool
  cooldown_start :: "instant option"
  cooldown_duration :: duration
  last_probe :: "instant option"
  total_errors_in_window :: u32
  window_start :: "instant option"

definition new_provider_state :: provider_state where
  "new_provider_state = \<lparr>error_count = 0, is_billing = False, cooldown_start = None,
     cooldown_duration = 0, last_probe = None, total_errors_in_window = 0, window_start = None\<rparr>"

datatype cooldown_verdict = Allow | AllowProbe | Reject string u64

record provider_snapshot =
  snap_provider :: string
  snap_state :: circuit_state
  snap_error_count :: u32
  snap_is_billing :: bool
  snap_remaining_secs :: "nat option"

definition calculate_cooldown :: "cooldown_config \<Rightarrow> u32 \<Rightarrow> bool \<Rightarrow> duration" where
  "calculate_cooldown cfg n billing =
     (if billing then
        let exponent = min (saturating_sub n 1) 10;
            secs = cast_u64 (of_nat (unat (billing_base_cooldown_secs cfg)) * billing_multiplier cfg ^ unat exponent)
        in from_secs (unat (min secs (billing_max_cooldown_secs cfg)))
      else
        let exponent = min (saturating_sub n 1) (max_exponent cfg);
            secs = cast_u64 (of_nat (unat (base_cooldown_secs cfg)) * backoff_multiplier cfg ^ unat exponent)
        in from_secs (unat (min secs (max_cooldown_secs cfg))))"

record provider_cooldown =
  cd_config :: cooldown_config
  states :: "(string, provider_state) dashmap"

definition new_cooldown :: "cooldown_config \<Rightarrow> provider_cooldown" where
  "new_cooldown cfg = \<lparr>cd_config = cfg, states = []\<rparr>"

section \<open>Operations\<close>

definition probe_ok :: "cooldown_config \<Rightarrow> instant \<Rightarrow> provider_state \<Rightarrow> bool" where
  "probe_ok cfg now s =
     (case last_probe s of
        Some l \<Rightarrow> elapsed now l \<ge> from_secs (unat (probe_interval_secs cfg))
      | None \<Rightarrow> True)"

definition check :: "instant \<Rightarrow> provider_cooldown \<Rightarrow> string \<Rightarrow> cooldown_verdict" where
  "check now cb provider =
     (case dm_get (states cb) provider of
        None \<Rightarrow> Allow
      | Some s \<Rightarrow>
          (case cooldown_start s of
             None \<Rightarrow> Allow
           | Some start \<Rightarrow>
               let el = elapsed now start
               in if el < cooldown_duration s then
                    (if probe_enabled (cd_config cb) \<and> probe_ok (cd_config cb) now s then AllowProbe
                     else Reject (if is_billing s
                                  then ''billing cooldown ('' @ show_word (error_count s) @ '' errors)''
                                  else ''error cooldown ('' @ show_word (error_count s) @ '' errors)'')
                            (of_nat (as_secs (cooldown_duration s - el))))
                  else AllowProbe))"

definition succeeded :: "provider_state \<Rightarrow> provider_state" where
  "succeeded s = s\<lparr>error_count := 0, is_billing := False, cooldown_start := None,
     cooldown_duration := 0, last_probe := None\<rparr>"

definition record_success :: "provider_cooldown \<Rightarrow> string \<Rightarrow> provider_cooldown" where
  "record_success cb provider = cb\<lparr>states := dm_modify provider succeeded (states cb)\<rparr>"

definition manage_window :: "cooldown_config \<Rightarrow> instant \<Rightarrow> provider_state \<Rightarrow> provider_state" where
  "manage_window cfg now s =
     (case window_start s of
        Some ws \<Rightarrow> if elapsed now ws \<ge> from_secs (unat (failure_window_secs cfg))
                   then s\<lparr>total_errors_in_window := 0, window_start := Some now\<rparr> else s
      | None \<Rightarrow> s\<lparr>window_start := Some now\<rparr>)"

definition failed :: "cooldown_config \<Rightarrow> instant \<Rightarrow> bool \<Rightarrow> provider_state \<Rightarrow> provider_state" where
  "failed cfg now billing s =
     (let s1 = manage_window cfg now s;
          n = saturating_add (error_count s1) 1
      in s1\<lparr>error_count := n,
            total_errors_in_window := saturating_add (total_errors_in_window s1) 1,
            is_billing := billing,
            cooldown_start := Some now,
            cooldown_duration := calculate_cooldown cfg n billing\<rparr>)"

definition record_failure :: "instant \<Rightarrow> provider_cooldown \<Rightarrow> string \<Rightarrow> bool \<Rightarrow> provider_cooldown" where
  "record_failure now cb provider billing =
     cb\<lparr>states := dm_insert provider
          (failed (cd_config cb) now billing (dm_entry (states cb) provider new_provider_state)) (states cb)\<rparr>"

definition probe_failed :: "cooldown_config \<Rightarrow> instant \<Rightarrow> provider_state \<Rightarrow> provider_state" where
  "probe_failed cfg now s =
     (let n = saturating_add (error_count s) 1
      in s\<lparr>last_probe := Some now, error_count := n, cooldown_start := Some now,
           cooldown_duration := calculate_cooldown cfg n (is_billing s)\<rparr>)"

definition record_probe_result :: "instant \<Rightarrow> provider_cooldown \<Rightarrow> string \<Rightarrow> bool \<Rightarrow> provider_cooldown" where
  "record_probe_result now cb provider success =
     (if success then record_success cb provider
      else cb\<lparr>states := dm_modify provider (probe_failed (cd_config cb) now) (states cb)\<rparr>)"

definition state_of :: "instant \<Rightarrow> provider_state \<Rightarrow> circuit_state" where
  "state_of now s =
     (case cooldown_start s of
        None \<Rightarrow> Closed
      | Some start \<Rightarrow>
          if elapsed now start < cooldown_duration s then Open
          else if error_count s > 0 then HalfOpen else Closed)"

definition get_state :: "instant \<Rightarrow> provider_cooldown \<Rightarrow> string \<Rightarrow> circuit_state" where
  "get_state now cb provider =
     (case dm_get (states cb) provider of None \<Rightarrow> Closed | Some s \<Rightarrow> state_of now s)"

definition snapshot :: "instant \<Rightarrow> provider_cooldown \<Rightarrow> provider_snapshot list" where
  "snapshot now cb =
     map (\<lambda>(provider, s).
       \<lparr>snap_provider = provider, snap_state = state_of now s, snap_error_count = error_count s,
        snap_is_billing = is_billing s,
        snap_remaining_secs =
          (case cooldown_start s of
             None \<Rightarrow> None
           | Some start \<Rightarrow>
               if elapsed now start < cooldown_duration s
               then Some (as_secs (cooldown_duration s - elapsed now start)) else None)\<rparr>)
       (states cb)"

definition clearable :: "instant \<Rightarrow> provider_state \<Rightarrow> bool" where
  "clearable now s =
     (case cooldown_start s of
        Some start \<Rightarrow> elapsed now start \<ge> cooldown_duration s \<and> error_count s = 0
      | None \<Rightarrow> False)"

definition clear_expired :: "instant \<Rightarrow> provider_cooldown \<Rightarrow> provider_cooldown" where
  "clear_expired now cb =
     cb\<lparr>states := fold dm_remove (map fst (filter (\<lambda>(_, s). clearable now s) (states cb))) (states cb)\<rparr>"

definition force_reset :: "provider_cooldown \<Rightarrow> string \<Rightarrow> provider_cooldown" where
  "force_reset cb provider = cb\<lparr>states := dm_remove provider (states cb)\<rparr>"

section \<open>Profile rotation\<close>

record auth_profile =
  profile_name :: string
  api_key_env :: string
  priority :: u32

definition profile_key :: "string \<Rightarrow> string \<Rightarrow> string" where
  "profile_key provider name = provider @ ''::'' @ name"

definition profile_in_cooldown :: "instant \<Rightarrow> provider_cooldown \<Rightarrow> string \<Rightarrow> auth_profile \<Rightarrow> bool" where
  "profile_in_cooldown now cb provider p =
     (case dm_get (states cb) (profile_key provider (profile_name p)) of
        None \<Rightarrow> False
      | Some s \<Rightarrow>
          (case cooldown_start s of
             Some start \<Rightarrow> elapsed now start < cooldown_duration s
           | None \<Rightarrow> False))"

fun first_available :: "(auth_profile \<Rightarrow> bool) \<Rightarrow> auth_profile list \<Rightarrow> auth_profile option" where
  "first_available cooling [] = None"
| "first_available cooling (p # ps) = (if cooling p then first_available cooling ps else Some p)"

definition select_profile ::
  "instant \<Rightarrow> provider_cooldown \<Rightarrow> string \<Rightarrow> auth_profile list \<Rightarrow> (string \<times> string) option" where
  "select_profile now cb provider profiles =
     (case profiles of
        [] \<Rightarrow> None
      | first # _ \<Rightarrow>
          (case first_available (profile_in_cooldown now cb provider) (sort_key priority profiles) of
             Some p \<Rightarrow> Some (profile_name p, api_key_env p)
           | None \<Rightarrow> Some (profile_name first, api_key_env first)))"

definition advanced :: "cooldown_config \<Rightarrow> instant \<Rightarrow> bool \<Rightarrow> provider_state \<Rightarrow> provider_state" where
  "advanced cfg now billing s =
     (let n = saturating_add (error_count s) 1
      in s\<lparr>error_count := n, is_billing := billing, cooldown_start := Some now,
           cooldown_duration := calculate_cooldown cfg n billing\<rparr>)"

definition advance_profile ::
  "instant \<Rightarrow> provider_cooldown \<Rightarrow> string \<Rightarrow> string \<Rightarrow> bool \<Rightarrow> provider_cooldown" where
  "advance_profile now cb provider failed_profile billing =
     (let key = profile_key provider failed_profile
      in cb\<lparr>states := dm_insert key
             (advanced (cd_config cb) now billing (dm_entry (states cb) key new_provider_state)) (states cb)\<rparr>)"

section \<open>Histories\<close>

datatype cooldown_op =
    OpSuccess string
  | OpFailure instant string bool
  | OpProbe instant string bool
  | OpClear instant
  | OpReset string
  | OpAdvance instant string string bool

fun cooldown_step :: "provider_cooldown \<Rightarrow> cooldown_op \<Rightarrow> provider_cooldown" where
  "cooldown_step cb (OpSuccess p) = record_success cb p"
| "cooldown_step cb (OpFailure now p b) = record_failure now cb p b"
| "cooldown_step cb (OpProbe now p ok) = record_probe_result now cb p ok"
| "cooldown_step cb (OpClear now) = clear_expired now cb"
| "cooldown_step cb (OpReset p) = force_reset cb p"
| "cooldown_step cb (OpAdvance now p f b) = advance_profile now cb p f b"

definition longest_cooldown :: "cooldown_config \<Rightarrow> duration" where
  "longest_cooldown cfg = from_secs (max (unat (max_cooldown_secs cfg)) (unat (billing_max_cooldown_secs cfg)))"

definition entry_ok :: "cooldown_config \<Rightarrow> provider_state \<Rightarrow> bool" where
  "entry_ok cfg s \<longleftrightarrow> (cooldown_start s \<noteq> None \<longrightarrow> error_count s \<noteq> 0) \<and> cooldown_duration s \<le> longest_cooldown cfg"

definition cooldown_inv :: "cooldown_config \<Rightarrow> provider_cooldown \<Rightarrow> bool" where
  "cooldown_inv cfg cb \<longleftrightarrow>
     cd_config cb = cfg \<and> dm_wf (states cb) \<and> (\<forall>k s. dm_get (states cb) k = Some s \<longrightarrow> entry_ok cfg s)"

lemma from_secs_mono: "a \<le> b \<Longrightarrow> from_secs a \<le> from_secs b"
  by (simp add: from_secs_def)

lemma calculate_cooldown_le: "calculate_cooldown cfg n b \<le> longest_cooldown cfg"
  unfolding calculate_cooldown_def longest_cooldown_def Let_def
  by (auto intro!: from_secs_mono simp: min_def word_le_nat_alt le_max_iff_disj)

lemma entry_ok_updates:
  "entry_ok cfg (succeeded s)"
  "entry_ok cfg s \<Longrightarrow> entry_ok cfg (failed cfg now b s)"
  "entry_ok cfg s \<Longrightarrow> entry_ok cfg (probe_failed cfg now s)"
  "entry_ok cfg s \<Longrightarrow> entry_ok cfg (advanced cfg now b s)"
  "entry_ok cfg new_provider_state"
  by (simp_all add: entry_ok_def succeeded_def failed_def probe_failed_def advanced_def Let_def
      saturating_add_one_pos calculate_cooldown_le new_provider_state_def)

lemma clear_expired_id:
  assumes "cooldown_inv cfg cb"
  shows "clear_expired now cb = cb"
proof -
  have "\<not> clearable now s" if "(k, s) \<in> set (states cb)" for k s
    using assms dm_in_get [OF _ that]
    by (auto simp: cooldown_inv_def clearable_def entry_ok_def split: option.splits)
  then have "filter (\<lambda>(_, s). clearable now s) (states cb) = []"
    by (auto simp: filter_empty_conv)
  then show ?thesis by (simp add: clear_expired_def)
qed

lemma cooldown_step_inv: "cooldown_inv cfg cb \<Longrightarrow> cooldown_inv cfg (cooldown_step cb e)"
proof (cases e)
  case (OpClear now)
  assume "cooldown_inv cfg cb"
  then show ?thesis by (simp add: OpClear clear_expired_id)
qed (auto simp: cooldown_inv_def record_success_def record_failure_def record_probe_result_def force_reset_def
    advance_profile_def Let_def dm_entry_def entry_ok_updates split: option.splits if_splits)

interpretation breaker: machine cooldown_step "\<lambda>_ _. True" "cooldown_inv cfg" for cfg
  by unfold_locales (rule cooldown_step_inv)

lemma cooldown_inv_run: "cooldown_inv cfg (run cooldown_step (new_cooldown cfg) es)"
  by (rule breaker.run_inv) (simp_all add: cooldown_inv_def new_cooldown_def)

text \<open>
  The abstract view of a provider: unknown, or the number of failures since it last succeeded.
\<close>

fun track_step :: "string \<Rightarrow> nat option \<Rightarrow> cooldown_op \<Rightarrow> nat option" where
  "track_step k a (OpSuccess p) = (if p = k then map_option (\<lambda>_. 0) a else a)"
| "track_step k a (OpFailure _ p _) = (if p = k then Some (case a of None \<Rightarrow> 1 | Some n \<Rightarrow> n + 1) else a)"
| "track_step k a (OpProbe _ p ok) = (if p = k then map_option (\<lambda>n. if ok then 0 else n + 1) a else a)"
| "track_step k a (OpClear _) = a"
| "track_step k a (OpReset p) = (if p = k then None else a)"
| "track_step k a (OpAdvance _ p f _) =
     (if profile_key p f = k then Some (case a of None \<Rightarrow> 1 | Some n \<Rightarrow> n + 1) else a)"

definition counted :: "nat option \<Rightarrow> u32 option" where
  "counted a = map_option (\<lambda>n. of_nat (min n (2 ^ 32 - 1))) a"

definition view :: "provider_cooldown \<Rightarrow> string \<Rightarrow> u32 option" where
  "view cb k = map_option error_count (dm_get (states cb) k)"

lemma saturating_add_one_of_nat:
  "saturating_add (of_nat (min n (2 ^ 32 - 1)) :: u32) 1 = of_nat (min (n + 1) (2 ^ 32 - 1))"
proof (cases "n < 2 ^ 32 - 1")
  case True
  then have "unat (of_nat n :: u32) = n"
    by (simp add: unat_of_nat)
  with True show ?thesis by (simp add: saturating_add_def min_def)
next
  case False
  then have "min n (2 ^ 32 - 1) = 2 ^ 32 - 1" "min (n + 1) (2 ^ 32 - 1) = 2 ^ 32 - 1"
    by linarith+
  then show ?thesis by (simp add: saturating_add_def)
qed

lemma error_count_updates [simp]:
  "error_count (failed cfg now b s) = saturating_add (error_count s) 1"
  "error_count (advanced cfg now b s) = saturating_add (error_count s) 1"
  "error_count (probe_failed cfg now s) = saturating_add (error_count s) 1"
  "error_count (succeeded s) = 0"
  by (simp_all add: failed_def manage_window_def advanced_def probe_failed_def succeeded_def Let_def
      split: option.split)

lemma view_entry:
  assumes "view cb k = counted a"
  shows "error_count (dm_entry (states cb) k new_provider_state)
    = of_nat (min (case a of None \<Rightarrow> 0 | Some n \<Rightarrow> n) (2 ^ 32 - 1))"
  using assms
  by (cases "dm_get (states cb) k"; cases a)
     (simp_all add: view_def counted_def dm_entry_def new_provider_state_def)

lemma view_count_failure:
  assumes "view cb k = counted a"
  shows "Some (saturating_add (error_count (dm_entry (states cb) k new_provider_state)) 1)
    = counted (Some (case a of None \<Rightarrow> 1 | Some n \<Rightarrow> n + 1))"
  unfolding view_entry [OF assms] saturating_add_one_of_nat counted_def by (cases a) simp_all

lemma cooldown_view_step:
  assumes inv: "cooldown_inv cfg cb" and v: "view cb k = counted a"
  shows "view (cooldown_step cb e) k = counted (track_step k a e)"
proof (cases e)
  case (OpClear now)
  with v show ?thesis by (simp add: clear_expired_id [OF inv])
next
  case (OpSuccess p)
  with v show ?thesis by (cases a) (auto simp: view_def counted_def record_success_def)
next
  case (OpReset p)
  with v show ?thesis by (auto simp: view_def counted_def force_reset_def)
next
  case (OpFailure now p b)
  with v view_count_failure [OF v] show ?thesis
    by (simp add: view_def record_failure_def)
next
  case (OpAdvance now p f b)
  with v view_count_failure [OF v] show ?thesis
    by (simp add: view_def advance_profile_def Let_def)
next
  case (OpProbe now p ok)
  have "map_option (\<lambda>s. saturating_add (error_count s) 1) (dm_get (states cb) k) = counted (map_option (\<lambda>n. n + 1) a)"
    using v saturating_add_one_of_nat
    by (cases "dm_get (states cb) k"; cases a) (simp_all add: view_def counted_def)
  with v show ?thesis
    by (cases a) (auto simp: OpProbe view_def record_probe_result_def record_success_def counted_def
        option.map_comp comp_def)
qed

lemma cooldown_view_run:
  "view (run cooldown_step (new_cooldown cfg) es) k = counted (foldl (track_step k) None es)"
proof (induction es rule: rev_induct)
  case Nil
  show ?case by (simp add: view_def new_cooldown_def counted_def)
next
  case (snoc e es)
  from cooldown_view_step [OF cooldown_inv_run snoc] show ?case
    by (simp add: run_append)
qed

definition unprobed :: "provider_cooldown \<Rightarrow> bool" where
  "unprobed cb \<longleftrightarrow> (\<forall>k s. dm_get (states cb) k = Some s \<longrightarrow> last_probe s = None)"

lemma last_probe_updates [simp]:
  "last_probe (failed cfg now b s) = last_probe s"
  "last_probe (advanced cfg now b s) = last_probe s"
  "last_probe (succeeded s) = None"
  "last_probe new_provider_state = None"
  by (simp_all add: failed_def manage_window_def advanced_def succeeded_def Let_def new_provider_state_def
      split: option.split)

fun reports_probe :: "cooldown_op \<Rightarrow> bool" where
  "reports_probe (OpProbe _ _ _) = True"
| "reports_probe _ = False"

lemma unprobed_step: "unprobed cb \<and> cooldown_inv cfg cb \<Longrightarrow> \<not> reports_probe e \<Longrightarrow> unprobed (cooldown_step cb e)"
proof (cases e)
  case (OpClear now)
  assume "unprobed cb \<and> cooldown_inv cfg cb"
  then show ?thesis using clear_expired_id [of cfg cb now] by (simp add: OpClear)
qed (auto simp: unprobed_def record_success_def record_failure_def force_reset_def advance_profile_def
    Let_def dm_entry_def split: option.splits if_splits)

interpretation unprobed: machine cooldown_step "\<lambda>_ e. \<not> reports_probe e" "\<lambda>cb. unprobed cb \<and> cooldown_inv cfg cb" for cfg
  by unfold_locales (use unprobed_step cooldown_step_inv in blast)

lemma run_ok_all: "run_ok (\<lambda>_ e. p e) step s es \<longleftrightarrow> list_all p es"
  by (induction es arbitrary: s) auto

lemma first_available_iff:
  "first_available cooling ps = (case filter (\<lambda>p. \<not> cooling p) ps of [] \<Rightarrow> None | p # _ \<Rightarrow> Some p)"
  by (induction ps) auto

lemma first_of_sorted:
  assumes "filter P (sort_key f xs) = p # ps"
  shows "p \<in> set xs \<and> P p \<and> (\<forall>q\<in>set xs. P q \<longrightarrow> f p \<le> f q)"
proof -
  have "sorted (map f (filter P (sort_key f xs)))"
    by (simp add: sorted_filter)
  then have "\<forall>q\<in>set ps. f p \<le> f q" unfolding assms by simp
  moreover have "set (p # ps) = {x \<in> set xs. P x}"
    using arg_cong [OF assms, of set] by simp
  ultimately show ?thesis by auto
qed

section \<open>Properties\<close>

text \<open>
  C35: the breaker's counters refine an abstract count. After any history of operations, the
  error count of a provider is the number of failures, failed probes and profile failures
  recorded under its key since its last success (none if it was never recorded or was reset),
  saturated at the largest \<open>u32\<close>.
\<close>

theorem error_count_refines_history:
  "map_option error_count (dm_get (states (run cooldown_step (new_cooldown cfg) es)) k)
   = counted (foldl (track_step k) None es)"
  using cooldown_view_run by (simp add: view_def)

text \<open>
  The verdict follows the circuit. In every reachable state \<open>check\<close> allows a request plainly
  exactly when the circuit is closed, always lets a half-open circuit probe, and rejects only
  when it is open, with a retry time below the longest configured cooldown.
\<close>

theorem check_follows_circuit:
  "(check now (run cooldown_step (new_cooldown cfg) es) p = Allow
     \<longleftrightarrow> get_state now (run cooldown_step (new_cooldown cfg) es) p = Closed)
   \<and> (get_state now (run cooldown_step (new_cooldown cfg) es) p = HalfOpen
     \<longrightarrow> check now (run cooldown_step (new_cooldown cfg) es) p = AllowProbe)
   \<and> (\<forall>r n. check now (run cooldown_step (new_cooldown cfg) es) p = Reject r n
     \<longrightarrow> get_state now (run cooldown_step (new_cooldown cfg) es) p = Open
         \<and> unat n \<le> max (unat (max_cooldown_secs cfg)) (unat (billing_max_cooldown_secs cfg)))"
proof -
  let ?cb = "run cooldown_step (new_cooldown cfg) es"
  have inv: "cooldown_inv cfg ?cb" by (rule cooldown_inv_run)
  show ?thesis
  proof (cases "dm_get (states ?cb) p")
    case None
    then show ?thesis by (simp add: check_def get_state_def)
  next
    case (Some s)
    with inv have ok: "entry_ok cfg s" by (simp add: cooldown_inv_def)
    have secs: "unat (of_nat (as_secs (cooldown_duration s - d)) :: u64) \<le>
        max (unat (max_cooldown_secs cfg)) (unat (billing_max_cooldown_secs cfg))" for d
    proof -
      have "cooldown_duration s - d \<le> longest_cooldown cfg"
        using ok le_trans [OF diff_le_self] by (simp add: entry_ok_def)
      then have "as_secs (cooldown_duration s - d) \<le> max (unat (max_cooldown_secs cfg)) (unat (billing_max_cooldown_secs cfg))"
        unfolding longest_cooldown_def using div_le_mono by (force simp: as_secs_def from_secs_def)
      then show ?thesis using le_trans [OF mod_less_eq_dividend] by (simp add: unat_of_nat)
    qed
    show ?thesis
      using ok secs
      by (auto simp: check_def get_state_def Some state_of_def Let_def entry_ok_def word_neq_0_conv split: option.splits)
  qed
qed

theorem check_follows_circuit_witness:
  "\<exists>r n. check (from_secs 1) (run cooldown_step (new_cooldown (default_cooldown_config\<lparr>probe_enabled := False\<rparr>))
       [OpFailure 0 ''openai'' False]) ''openai'' = Reject r n \<and> unat n \<le> 86400"
proof -
  let ?cfg = "default_cooldown_config\<lparr>probe_enabled := False\<rparr>"
  have cool: "calculate_cooldown ?cfg 1 False = from_secs 60"
    by (simp add: calculate_cooldown_def default_cooldown_config_def saturating_sub_def cast_u64_def Let_def)
  have "check (from_secs 1) (run cooldown_step (new_cooldown ?cfg) [OpFailure 0 ''openai'' False]) ''openai''
      = Reject (''error cooldown ('' @ show_word (1 :: u32) @ '' errors)'') 59"
    using cool
    by (simp add: check_def record_failure_def new_cooldown_def failed_def manage_window_def
        new_provider_state_def dm_entry_def Let_def saturating_add_def elapsed_def from_secs_def as_secs_def
        default_cooldown_config_def)
  then show ?thesis
    using check_follows_circuit [of "from_secs 1" ?cfg "[OpFailure 0 ''openai'' False]" "''openai''"]
    by (auto simp: default_cooldown_config_def)
qed

text \<open>
  The periodic clean-up clears nothing. Every operation that starts a cooldown also makes
  the error count positive, so the entries \<open>clear_expired\<close> looks for (an expired cooldown with a
  zero count) never exist and the state only grows.
\<close>

theorem clear_expired_removes_nothing:
  "clear_expired now (run cooldown_step (new_cooldown cfg) es) = run cooldown_step (new_cooldown cfg) es"
  by (rule clear_expired_id [OF cooldown_inv_run])

text \<open>
  With probing enabled the breaker rejects nothing unless its callers report the results of
  probes: \<open>check\<close> does not record that it let a probe through, so every request during a
  cooldown is let through as a probe, not the one the configuration speaks of.
\<close>

theorem never_rejects_without_probe_results:
  assumes "probe_enabled cfg" and "list_all (\<lambda>e. \<not> reports_probe e) es"
  shows "check now (run cooldown_step (new_cooldown cfg) es) p \<in> {Allow, AllowProbe}"
proof -
  let ?cb = "run cooldown_step (new_cooldown cfg) es"
  have "unprobed ?cb \<and> cooldown_inv cfg ?cb"
    by (rule unprobed.run_inv)
       (simp_all add: unprobed_def new_cooldown_def cooldown_inv_def run_ok_all assms(2))
  with assms(1) show ?thesis
    by (auto simp: check_def unprobed_def cooldown_inv_def probe_ok_def Let_def split: option.splits)
qed

theorem never_rejects_without_probe_results_witness:
  "check 7 (run cooldown_step (new_cooldown default_cooldown_config)
     [OpFailure 0 ''openai'' True, OpFailure 1 ''openai'' True]) ''openai'' \<in> {Allow, AllowProbe}"
  by (rule never_rejects_without_probe_results) (simp_all add: default_cooldown_config_def)

text \<open>
  Profile rotation picks the best key. With profiles configured, the selected one is not in
  cooldown and has the least priority number among those that are not; when all are in
  cooldown it is the first profile of the configuration.
\<close>

theorem select_profile_best:
  "(\<exists>p\<in>set (first # rest). select_profile now cb provider (first # rest) = Some (profile_name p, api_key_env p)
      \<and> \<not> profile_in_cooldown now cb provider p
      \<and> (\<forall>q\<in>set (first # rest). profile_in_cooldown now cb provider q \<or> priority p \<le> priority q))
   \<or> ((\<forall>q\<in>set (first # rest). profile_in_cooldown now cb provider q)
      \<and> select_profile now cb provider (first # rest) = Some (profile_name first, api_key_env first))"
proof (cases "filter (\<lambda>p. \<not> profile_in_cooldown now cb provider p) (sort_key priority (first # rest))")
  case Nil
  then have "\<forall>q\<in>set (sort_key priority (first # rest)). profile_in_cooldown now cb provider q"
    by (simp only: filter_empty_conv) simp
  then have "\<forall>q\<in>set (first # rest). profile_in_cooldown now cb provider q"
    by (simp only: set_sort)
  with Nil show ?thesis by (simp add: select_profile_def first_available_iff del: sort_key_simps)
next
  case (Cons p ps)
  from first_of_sorted [OF Cons] Cons show ?thesis
    by (intro disjI1 bexI [of _ p]) (auto simp: select_profile_def first_available_iff simp del: sort_key_simps)
qed

theorem select_profile_best_witness:
  "select_profile 0 (new_cooldown default_cooldown_config) ''openai''
     [\<lparr>profile_name = ''b'', api_key_env = ''K2'', priority = 1\<rparr>, \<lparr>profile_name = ''a'', api_key_env = ''K1'', priority = 0\<rparr>]
   = Some (''a'', ''K1'')"
  using select_profile_best [of "\<lparr>profile_name = ''b'', api_key_env = ''K2'', priority = 1\<rparr>"
      "[\<lparr>profile_name = ''a'', api_key_env = ''K1'', priority = 0\<rparr>]" 0 "new_cooldown default_cooldown_config" "''openai''"]
  by (auto simp: profile_in_cooldown_def new_cooldown_def)

end
