(* ===== verification/ToolPolicy.thy ===== *)
theory ToolPolicy
  imports Prelude
begin

text \<open>
  Tool access policy: \<open>openfang-runtime/src/tool_policy.rs\<close>, with the star-glob matcher, the
  group expansion, the resolution of a tool against the agent's and the global rules, and the
  depth filter for subagents.
\<close>

section \<open>Policy data\<close>

datatype policy_effect = Allow | Deny

record tool_policy_rule =
  rule_glob :: string
  effect :: policy_effect

record tool_group =
  group_name :: string
  group_tools :: "string list"

record tool_policy =
  agent_rules :: "tool_policy_rule list"
  global_rules :: "tool_policy_rule list"
  groups :: "tool_group list"
  subagent_max_depth :: u32
  subagent_max_concurrent :: u32

text \<open>\<open>#[derive(Default)]\<close>: every field is the default of its type.\<close>

definition default_policy :: tool_policy where
  "default_policy = \<lparr>agent_rules = [], global_rules = [], groups = [], subagent_max_depth = 0,
     subagent_max_concurrent = 0\<rparr>"

definition policy_is_empty :: "tool_policy \<Rightarrow> bool" where
  "policy_is_empty p = (agent_rules p = [] \<and> global_rules p = [])"

datatype tool_access_result =
    Allowed
  | Denied string string
  | DepthExceeded u32 u32

section \<open>Glob matching\<close>

fun glob_loop :: "nat \<Rightarrow> nat \<Rightarrow> string list \<Rightarrow> string \<Rightarrow> nat \<Rightarrow> bool" where
  "glob_loop n i [] text pos = True"
| "glob_loop n i (part # parts) text pos =
     (if part = [] then glob_loop n (i + 1) parts text pos
      else if i = 0 then
        (if \<not> starts_with text part then False else glob_loop n (i + 1) parts text (length part))
      else if i = n - 1 then
        (if \<not> ends_with (drop pos text) part then False else glob_loop n (i + 1) parts text pos)
      else
        (case str_find (drop pos text) part of
           Some found \<Rightarrow> glob_loop n (i + 1) parts text (pos + found + length part)
         | None \<Rightarrow> False))"

definition glob_match :: "string \<Rightarrow> string \<Rightarrow> bool" where
  "glob_match pattern text =
     (if pattern = ''*'' then True
      else if CHR ''*'' \<notin> set pattern then pattern = text
      else
        let parts = split_on CHR ''*'' pattern
        in if length parts = 2 then
             starts_with text (parts ! 0) \<and> ends_with text (parts ! 1)
             \<and> length text \<ge> length (parts ! 0) + length (parts ! 1)
           else glob_loop (length parts) 0 parts text 0)"

section \<open>Resolution\<close>

definition is_subagent_tool :: "string \<Rightarrow> bool" where
  "is_subagent_tool name = (name = ''agent_spawn'' \<or> name = ''agent_call'' \<or> name = ''spawn_agent'')"

definition expand_groups :: "string \<Rightarrow> tool_group list \<Rightarrow> string list" where
  "expand_groups tool_name gs =
     tool_name # concat (map (\<lambda>g. map (\<lambda>_. CHR ''@'' # group_name g)
                                (filter (\<lambda>p. glob_match p tool_name) (group_tools g))) gs)"

definition matches_pattern :: "string \<Rightarrow> string \<Rightarrow> string list \<Rightarrow> bool" where
  "matches_pattern pattern tool_name expanded =
     (if glob_match pattern tool_name then True
      else if starts_with pattern ''@'' then pattern \<in> set expanded
      else False)"

definition rule_hits :: "policy_effect \<Rightarrow> string \<Rightarrow> string list \<Rightarrow> tool_policy_rule \<Rightarrow> bool" where
  "rule_hits eff tool_name expanded r = (effect r = eff \<and> matches_pattern (rule_glob r) tool_name expanded)"

definition resolve_tool_access :: "string \<Rightarrow> tool_policy \<Rightarrow> u32 \<Rightarrow> tool_access_result" where
  "resolve_tool_access tool_name policy depth =
     (if is_subagent_tool tool_name \<and> depth > subagent_max_depth policy
      then DepthExceeded depth (subagent_max_depth policy)
      else
        let expanded = expand_groups tool_name (groups policy)
        in case find (rule_hits Deny tool_name expanded) (agent_rules policy) of
             Some r \<Rightarrow> Denied (rule_glob r) ''agent''
           | None \<Rightarrow>
               (case find (rule_hits Deny tool_name expanded) (global_rules policy) of
                  Some r \<Rightarrow> Denied (rule_glob r) ''global''
                | None \<Rightarrow>
                    if list_ex (\<lambda>r. effect r = Allow) (agent_rules policy)
                       \<or> list_ex (\<lambda>r. effect r = Allow) (global_rules policy)
                    then
                      (if list_ex (rule_hits Allow tool_name expanded) (agent_rules policy)
                          \<or> list_ex (rule_hits Allow tool_name expanded) (global_rules policy)
                       then Allowed
                       else Denied ''(not in any allow list)'' ''implicit_deny'')
                    else Allowed))"

section \<open>Depth restrictions\<close>

definition SUBAGENT_DENY_ALWAYS :: "string list" where
  "SUBAGENT_DENY_ALWAYS = [''cron_create'', ''cron_cancel'', ''schedule_create'', ''schedule_delete'',
     ''hand_activate'', ''hand_deactivate'', ''process_start'']"

definition SUBAGENT_DENY_LEAF :: "string list" where
  "SUBAGENT_DENY_LEAF = [''agent_spawn'', ''agent_kill'']"

definition filter_tools_by_depth :: "string list \<Rightarrow> u32 \<Rightarrow> u32 \<Rightarrow> string list" where
  "filter_tools_by_depth tools depth max_depth =
     (if depth = 0 then tools
      else
        let is_leaf = max_depth > 0 \<and> depth \<ge> saturating_sub max_depth 1
        in filter (\<lambda>n. if n \<in> set SUBAGENT_DENY_ALWAYS then False
                       else if is_leaf \<and> n \<in> set SUBAGENT_DENY_LEAF then False else True) tools)"

section \<open>The language of a glob\<close>

text \<open>The reference: a star stands for any sequence, any other character for itself.\<close>

fun glob_lang :: "string \<Rightarrow> string \<Rightarrow> bool" where
  "glob_lang [] t = (t = [])"
| "glob_lang (p # ps) t =
     (if p = CHR ''*'' then list_ex (\<lambda>k. glob_lang ps (drop k t)) [0..<Suc (length t)]
      else (case t of [] \<Rightarrow> False | c # cs \<Rightarrow> c = p \<and> glob_lang ps cs))"

fun pattern_of :: "string list \<Rightarrow> string" where
  "pattern_of [] = []"
| "pattern_of [p] = p"
| "pattern_of (p # q # ps) = p @ CHR ''*'' # pattern_of (q # ps)"

fun floating :: "string list \<Rightarrow> string \<Rightarrow> bool" where
  "floating [] t = True"
| "floating [p] t = ends_with t p"
| "floating (p # q # ps) t =
     (case str_find t p of Some k \<Rightarrow> floating (q # ps) (drop (k + length p) t) | None \<Rightarrow> False)"

lemma glob_lang_star: "glob_lang (CHR ''*'' # ps) t \<longleftrightarrow> (\<exists>a b. t = a @ b \<and> glob_lang ps b)"
proof -
  have "(\<exists>k\<le>length t. glob_lang ps (drop k t)) \<longleftrightarrow> (\<exists>a b. t = a @ b \<and> glob_lang ps b)"
    by (metis append_eq_conv_conj append_take_drop_id le_add1 length_append)
  then show ?thesis by (auto simp: list_ex_iff less_Suc_eq_le atLeast0LessThan simp del: upt_Suc)
qed

lemma glob_lang_plain:
  "CHR ''*'' \<notin> set p \<Longrightarrow> glob_lang (p @ ps) t \<longleftrightarrow> (\<exists>r. t = p @ r \<and> glob_lang ps r)"
proof (induction p arbitrary: t)
  case (Cons c p)
  then show ?case by (cases t) auto
qed simp

lemma glob_lang_literal: "CHR ''*'' \<notin> set p \<Longrightarrow> glob_lang p t \<longleftrightarrow> t = p"
  using glob_lang_plain [of p "[]" t] by auto

lemma pattern_of_Cons: "ps \<noteq> [] \<Longrightarrow> pattern_of (p # ps) = p @ CHR ''*'' # pattern_of ps"
  by (cases ps) auto

lemma pattern_of_split: "pattern_of (split_on CHR ''*'' s) = s"
proof (induction s)
  case (Cons x s)
  show ?case
  proof (cases "split_on CHR ''*'' s")
    case Nil
    then show ?thesis by (simp add: split_on_nonempty)
  next
    case (Cons p ps)
    with Cons.IH show ?thesis by (cases ps) auto
  qed
qed simp

lemma glob_lang_star_mono: "glob_lang (CHR ''*'' # ps) t \<Longrightarrow> glob_lang (CHR ''*'' # ps) (a @ t)"
  unfolding glob_lang_star by (metis append.assoc)

lemma floating_lang:
  "ps \<noteq> [] \<Longrightarrow> \<forall>p\<in>set ps. CHR ''*'' \<notin> set p \<Longrightarrow>
    floating ps t \<longleftrightarrow> glob_lang (CHR ''*'' # pattern_of ps) t"
proof (induction ps t rule: floating.induct)
  case (2 p t)
  then show ?case
    unfolding glob_lang_star by (simp add: glob_lang_literal ends_with_iff)
next
  case (3 p q ps t)
  have IH: "floating (q # ps) (drop (k + length p) t) \<longleftrightarrow> glob_lang (CHR ''*'' # pattern_of (q # ps)) (drop (k + length p) t)"
    if "str_find t p = Some k" for k
    using 3 that by simp
  have lang: "glob_lang (CHR ''*'' # pattern_of (p # q # ps)) t \<longleftrightarrow>
      (\<exists>a b. t = a @ p @ b \<and> glob_lang (CHR ''*'' # pattern_of (q # ps)) b)"
    using 3(3) by (subst glob_lang_star) (auto simp: glob_lang_plain)
  show ?case
  proof
    assume "floating (p # q # ps) t"
    then obtain k where k: "str_find t p = Some k" "floating (q # ps) (drop (k + length p) t)"
      by (auto split: option.splits)
    with IH [OF k(1)] str_find_Some [OF k(1)] show "glob_lang (CHR ''*'' # pattern_of (p # q # ps)) t"
      unfolding lang by blast
  next
    assume "glob_lang (CHR ''*'' # pattern_of (p # q # ps)) t"
    then obtain a b where t: "t = a @ p @ b" and b: "glob_lang (CHR ''*'' # pattern_of (q # ps)) b"
      unfolding lang by blast
    from str_find_leftmost [OF t] obtain k d where k: "str_find t p = Some k" "drop (k + length p) t = d @ b"
      by blast
    with glob_lang_star_mono [OF b, of d] IH [OF k(1)] show "floating (p # q # ps) t" by simp
  qed
qed simp

lemma glob_loop_floating:
  "0 < i \<Longrightarrow> i + length parts = n \<Longrightarrow> glob_loop n i parts text pos \<longleftrightarrow> floating parts (drop pos text)"
proof (induction parts arbitrary: i pos)
  case (Cons p parts)
  have find_nil: "str_find t [] = Some 0" for t by (cases t) (auto simp: starts_with_def)
  show ?case
  proof (cases parts)
    case Nil
    with Cons.prems show ?thesis by (auto simp: ends_with_def)
  next
    case (Cons q ps)
    with Cons.prems have "i \<noteq> n - 1" by auto
    with Cons.prems Cons.IH [of "i + 1"] Cons show ?thesis
      by (auto simp: find_nil add.commute add.left_commute split: option.splits)
  qed
qed simp

lemma glob_loop_first:
  "glob_loop n 0 (p # parts) t 0 \<longleftrightarrow> starts_with t p \<and> glob_loop n 1 parts t (length p)"
  by (simp add: starts_with_def)

lemma glob_match_lang: "glob_match pattern text \<longleftrightarrow> glob_lang pattern text"
proof (cases "CHR ''*'' \<in> set pattern")
  case False
  then show ?thesis by (auto simp: glob_match_def glob_lang_literal)
next
  case True
  then obtain p q ps where parts: "split_on CHR ''*'' pattern = p # q # ps"
    using split_on_two by blast
  then have free: "\<forall>r\<in>set (p # q # ps). CHR ''*'' \<notin> set r"
    using split_on_free by metis
  have "pattern = p @ CHR ''*'' # pattern_of (q # ps)"
    using pattern_of_split [of pattern] by (simp add: parts)
  then have lang: "glob_lang pattern text \<longleftrightarrow> (\<exists>r. text = p @ r \<and> floating (q # ps) r)"
    using free floating_lang [of "q # ps"] by (auto simp: glob_lang_plain)
  have loop: "glob_loop (length (p # q # ps)) 0 (p # q # ps) text 0 \<longleftrightarrow> (\<exists>r. text = p @ r \<and> floating (q # ps) r)"
    unfolding glob_loop_first using glob_loop_floating [of 1 "q # ps" "length (p # q # ps)" "text" "length p"]
    by (auto simp: starts_with_iff simp del: glob_loop.simps floating.simps)
  have "pattern = ''*'' \<Longrightarrow> glob_lang pattern text" unfolding glob_lang_star by auto
  moreover have "starts_with text p \<and> ends_with text q \<and> length p + length q \<le> length text
      \<longleftrightarrow> (\<exists>r. text = p @ r \<and> ends_with r q)"
    by (auto simp: starts_with_iff ends_with_def)
  ultimately show ?thesis
    using True lang loop by (auto simp: glob_match_def parts Let_def simp del: glob_loop.simps)
qed

lemma find_none_filter: "(find P xs = None) = (filter P xs = [])"
  by (auto simp: find_None_iff filter_empty_conv)

section \<open>Properties\<close>

text \<open>
  C33: the glob matcher, with its special cases and its greedy left-to-right loop, accepts
  exactly the strings of the pattern's language, in which a star stands for any sequence.
\<close>

theorem glob_match_is_star_language: "glob_match pattern name = glob_lang pattern name"
  by (rule glob_match_lang)

text \<open>
  Deny wins, and nothing else ranks the rules. A tool is allowed exactly when the depth
  limit lets it, no deny rule of either list matches, and an allow rule of either list matches
  or there is none at all: an agent's allow never overrides a global deny, nor an explicit
  pattern a wildcard, although the documentation lists both as priorities.
\<close>

theorem resolve_allows_iff:
  "(resolve_tool_access tool p depth = Allowed) =
     (\<not> (is_subagent_tool tool \<and> depth > subagent_max_depth p)
      \<and> filter (rule_hits Deny tool (expand_groups tool (groups p))) (agent_rules p @ global_rules p) = []
      \<and> (filter (\<lambda>r. effect r = Allow) (agent_rules p @ global_rules p) = []
         \<or> list_ex (rule_hits Allow tool (expand_groups tool (groups p))) (agent_rules p @ global_rules p)))"
proof -
  have none: "(find P xs = None) = (filter P xs = [])" for P :: "tool_policy_rule \<Rightarrow> bool" and xs
    by (rule find_none_filter)
  have some: "find P xs = Some r \<Longrightarrow> filter P xs \<noteq> []" for P :: "tool_policy_rule \<Rightarrow> bool" and xs r
    using none [of P xs] by auto
  have allow: "list_ex P xs = (filter P xs \<noteq> [])" for P :: "tool_policy_rule \<Rightarrow> bool" and xs
    by (auto simp: list_ex_iff filter_empty_conv)
  show ?thesis
    by (auto simp: resolve_tool_access_def Let_def allow none dest: some split: option.splits)
qed

text \<open>
  The default policy lets only top-level agents spawn. The derived default of the depth
  limit is zero, not the ten its documentation says, so below the top level every tool for
  subagents is refused, while all other tools are allowed at any depth.
\<close>

theorem default_policy_has_no_depth:
  "resolve_tool_access tool default_policy depth =
     (if is_subagent_tool tool \<and> depth > 0 then DepthExceeded depth 0 else Allowed)"
  by (simp add: resolve_tool_access_def default_policy_def)

end
