(* ===== verification/Approval.thy ===== *)
theory Approval
  imports Prelude
begin

text \<open>
  Execution approvals: \<open>openfang-types/src/approval.rs\<close> and \<open>openfang-kernel/src/approval.rs\<close>.
  \<open>request_approval\<close> is asynchronous: it submits, waits on a one-shot channel, and ends with the
  decision sent or with a timeout. The model keeps its atomic steps apart, and those of
  \<open>resolve\<close> (remove and record the request, then send the decision), so that histories can
  interleave them. Names are judged alphanumeric by ASCII.
\<close>

section \<open>Types\<close>

definition MAX_TOOL_NAME_LEN :: nat where "MAX_TOOL_NAME_LEN = 64"
definition MAX_DESCRIPTION_LEN :: nat where "MAX_DESCRIPTION_LEN = 1024"
definition MAX_ACTION_SUMMARY_LEN :: nat where "MAX_ACTION_SUMMARY_LEN = 512"
definition MIN_TIMEOUT_SECS :: u64 where "MIN_TIMEOUT_SECS = 10"
definition MAX_TIMEOUT_SECS :: u64 where "MAX_TIMEOUT_SECS = 300"
definition MAX_PENDING_PER_AGENT :: nat where "MAX_PENDING_PER_AGENT = 5"
definition MAX_RECENT_APPROVALS :: nat where "MAX_RECENT_APPROVALS = 100"

datatype risk_level = Low | Medium | High | Critical

datatype approval_decision = Approved | Denied | TimedOut

record approval_request =
  req_id :: uuid
  agent_id :: string
  tool_name :: string
  description :: string
  action_summary :: string
  risk :: risk_level
  requested_at :: instant
  timeout_secs :: u64

datatype validation_error =
    NameEmpty | NameTooLong nat | NameChars
  | DescriptionTooLong nat | SummaryTooLong nat
  | TimeoutTooSmall u64 | TimeoutTooLarge u64
  | RequiredEmpty nat | RequiredTooLong nat nat | RequiredChars nat string

definition is_alphanumeric :: "char \<Rightarrow> bool" where
  "is_alphanumeric c = (let n = (of_char c :: nat) in
     (48 \<le> n \<and> n \<le> 57) \<or> (65 \<le> n \<and> n \<le> 90) \<or> (97 \<le> n \<and> n \<le> 122))"

definition name_chars :: "string \<Rightarrow> bool" where
  "name_chars s = list_all (\<lambda>c. is_alphanumeric c \<or> c = CHR ''_'') s"

definition validate_request :: "approval_request \<Rightarrow> validation_error + unit" where
  "validate_request r =
     (if tool_name r = [] then Inl NameEmpty
      else if length (tool_name r) > MAX_TOOL_NAME_LEN then Inl (NameTooLong (length (tool_name r)))
      else if \<not> name_chars (tool_name r) then Inl NameChars
      else if length (description r) > MAX_DESCRIPTION_LEN then Inl (DescriptionTooLong (length (description r)))
      else if length (action_summary r) > MAX_ACTION_SUMMARY_LEN then Inl (SummaryTooLong (length (action_summary r)))
      else if timeout_secs r < MIN_TIMEOUT_SECS then Inl (TimeoutTooSmall (timeout_secs r))
      else if timeout_secs r > MAX_TIMEOUT_SECS then Inl (TimeoutTooLarge (timeout_secs r))
      else Inr ())"

record approval_response =
  resp_request_id :: uuid
  resp_decision :: approval_decision
  resp_decided_at :: instant
  resp_decided_by :: "string option"

record approval_policy =
  require_approval :: "string list"
  policy_timeout_secs :: u64
  auto_approve_autonomous :: bool
  auto_approve :: bool

definition default_approval_policy :: approval_policy where
  "default_approval_policy = \<lparr>require_approval = [''shell_exec''], policy_timeout_secs = 60,
     auto_approve_autonomous = False, auto_approve = False\<rparr>"

text \<open>\<open>deserialize_require_approval\<close>: a boolean shorthand (\<open>Inl\<close>) or a list (\<open>Inr\<close>).\<close>

fun read_require_approval :: "bool + string list \<Rightarrow> string list" where
  "read_require_approval (Inl v) = (if v then [''shell_exec''] else [])"
| "read_require_approval (Inr names) = names"

definition apply_shorthands :: "approval_policy \<Rightarrow> approval_policy" where
  "apply_shorthands p = (if auto_approve p then p\<lparr>require_approval := []\<rparr> else p)"

fun validate_required :: "nat \<Rightarrow> string list \<Rightarrow> validation_error + unit" where
  "validate_required i [] = Inr ()"
| "validate_required i (name # names) =
     (if name = [] then Inl (RequiredEmpty i)
      else if length name > MAX_TOOL_NAME_LEN then Inl (RequiredTooLong i (length name))
      else if \<not> name_chars name then Inl (RequiredChars i name)
      else validate_required (i + 1) names)"

definition validate_policy :: "approval_policy \<Rightarrow> validation_error + unit" where
  "validate_policy p =
     (if policy_timeout_secs p < MIN_TIMEOUT_SECS then Inl (TimeoutTooSmall (policy_timeout_secs p))
      else if policy_timeout_secs p > MAX_TIMEOUT_SECS then Inl (TimeoutTooLarge (policy_timeout_secs p))
      else validate_required 0 (require_approval p))"

section \<open>The manager\<close>

record approval_record =
  rec_request :: approval_request
  rec_decision :: approval_decision
  rec_decided_at :: instant
  rec_decided_by :: "string option"

record approval_manager =
  pending :: "(uuid, approval_request) dashmap"
  recent :: "approval_record list"
  policy :: approval_policy

definition new_approval_manager :: "approval_policy \<Rightarrow> approval_manager" where
  "new_approval_manager p = \<lparr>pending = [], recent = [], policy = p\<rparr>"

definition requires_approval :: "approval_manager \<Rightarrow> string \<Rightarrow> bool" where
  "requires_approval m name = list_ex (\<lambda>t. t = name) (require_approval (policy m))"

definition push_recent ::
  "approval_manager \<Rightarrow> approval_request \<Rightarrow> approval_decision \<Rightarrow> string option \<Rightarrow> instant \<Rightarrow> approval_manager" where
  "push_recent m r d who now =
     m\<lparr>recent := take MAX_RECENT_APPROVALS
         (\<lparr>rec_request = r, rec_decision = d, rec_decided_at = now, rec_decided_by = who\<rparr> # recent m)\<rparr>"

definition agent_pending :: "approval_manager \<Rightarrow> string \<Rightarrow> nat" where
  "agent_pending m agent = length (filter (\<lambda>r. agent_id r = agent) (dm_values (pending m)))"

text \<open>
  \<open>request_approval\<close> up to the wait: \<open>Inl\<close> is an immediate denial, \<open>Inr\<close> the state in which
  the caller waits.
\<close>

definition submit_request :: "approval_manager \<Rightarrow> approval_request \<Rightarrow> approval_decision + approval_manager" where
  "submit_request m r =
     (if agent_pending m (agent_id r) \<ge> MAX_PENDING_PER_AGENT then Inl Denied
      else Inr (m\<lparr>pending := dm_insert (req_id r) r (pending m)\<rparr>))"

text \<open>Its end without a decision: the request is taken back, or the copy kept for the timeout.\<close>

definition time_out_request :: "instant \<Rightarrow> approval_manager \<Rightarrow> approval_request \<Rightarrow> approval_manager" where
  "time_out_request now m req_for_timeout =
     (let i = req_id req_for_timeout;
          r = (case dm_get (pending m) i of Some p \<Rightarrow> p | None \<Rightarrow> req_for_timeout)
      in push_recent (m\<lparr>pending := dm_remove i (pending m)\<rparr>) r TimedOut None now)"

text \<open>
  \<open>resolve\<close> up to the send: the response and the new state, or an error. The decision is then
  sent on the request's channel.
\<close>

definition resolve ::
  "instant \<Rightarrow> approval_manager \<Rightarrow> uuid \<Rightarrow> approval_decision \<Rightarrow> string option \<Rightarrow>
   (uuid + approval_response) \<times> approval_manager" where
  "resolve now m i d who =
     (case dm_get (pending m) i of
        Some r \<Rightarrow>
          (Inr \<lparr>resp_request_id = i, resp_decision = d, resp_decided_at = now, resp_decided_by = who\<rparr>,
           push_recent (m\<lparr>pending := dm_remove i (pending m)\<rparr>) r d who now)
      | None \<Rightarrow> (Inl i, m))"

definition list_pending :: "approval_manager \<Rightarrow> approval_request list" where
  "list_pending m = dm_values (pending m)"

definition list_recent :: "approval_manager \<Rightarrow> nat \<Rightarrow> approval_record list" where
  "list_recent m n = take n (recent m)"

definition pending_count :: "approval_manager \<Rightarrow> nat" where
  "pending_count m = length (pending m)"

definition update_policy :: "approval_manager \<Rightarrow> approval_policy \<Rightarrow> approval_manager" where
  "update_policy m p = m\<lparr>policy := p\<rparr>"

definition classify_risk :: "string \<Rightarrow> risk_level" where
  "classify_risk name =
     (if name = ''shell_exec'' then Critical
      else if name = ''file_write'' \<or> name = ''file_delete'' then High
      else if name = ''web_fetch'' \<or> name = ''browser_navigate'' then Medium
      else Low)"

section \<open>Histories\<close>

text \<open>
  The world around the manager: the callers that wait on a channel, the decisions that a
  resolver has taken but not sent, the decisions sent and not yet received, and the decisions
  \<open>request_approval\<close> has returned. A caller whose decision was sent receives it: the timeout
  wrapper polls the channel before the clock.
\<close>

record approval_world =
  mgr :: approval_manager
  waiting :: "(uuid, approval_request) dashmap"
  taken :: "(uuid, approval_decision) dashmap"
  sent :: "(uuid, approval_decision) dashmap"
  returned :: "(uuid \<times> approval_decision) list"

datatype approval_op =
    OpSubmit approval_request
  | OpResolve instant uuid approval_decision "string option"
  | OpSend uuid
  | OpReceive uuid
  | OpTimeout instant uuid
  | OpUpdatePolicy approval_policy

fun approval_step :: "approval_world \<Rightarrow> approval_op \<Rightarrow> approval_world" where
  "approval_step w (OpSubmit r) =
     (case submit_request (mgr w) r of
        Inl d \<Rightarrow> w\<lparr>returned := (req_id r, d) # returned w\<rparr>
      | Inr m \<Rightarrow> w\<lparr>mgr := m, waiting := dm_insert (req_id r) r (waiting w)\<rparr>)"
| "approval_step w (OpResolve now i d who) =
     (case resolve now (mgr w) i d who of
        (Inr _, m) \<Rightarrow> w\<lparr>mgr := m, taken := dm_insert i d (taken w)\<rparr>
      | (Inl _, m) \<Rightarrow> w\<lparr>mgr := m\<rparr>)"
| "approval_step w (OpSend i) =
     (case dm_get (taken w) i of
        Some d \<Rightarrow> w\<lparr>taken := dm_remove i (taken w),
                    sent := (case dm_get (waiting w) i of
                               Some _ \<Rightarrow> dm_insert i d (sent w) | None \<Rightarrow> sent w)\<rparr>
      | None \<Rightarrow> w)"
| "approval_step w (OpReceive i) =
     (case (dm_get (waiting w) i, dm_get (sent w) i) of
        (Some _, Some d) \<Rightarrow> w\<lparr>waiting := dm_remove i (waiting w), sent := dm_remove i (sent w),
                             returned := (i, d) # returned w\<rparr>
      | _ \<Rightarrow> w)"
| "approval_step w (OpTimeout now i) =
     (case (dm_get (waiting w) i, dm_get (sent w) i) of
        (Some r, None) \<Rightarrow> w\<lparr>mgr := time_out_request now (mgr w) r, waiting := dm_remove i (waiting w),
                           returned := (i, TimedOut) # returned w\<rparr>
      | _ \<Rightarrow> w)"
| "approval_step w (OpUpdatePolicy p) = w\<lparr>mgr := update_policy (mgr w) p\<rparr>"

definition approval_start :: "approval_policy \<Rightarrow> approval_world" where
  "approval_start p = \<lparr>mgr = new_approval_manager p, waiting = [], taken = [], sent = [], returned = []\<rparr>"

definition manager_inv :: "approval_manager \<Rightarrow> bool" where
  "manager_inv m \<longleftrightarrow> (\<forall>a. agent_pending m a \<le> MAX_PENDING_PER_AGENT) \<and> length (recent m) \<le> MAX_RECENT_APPROVALS"

lemma count_insert:
  "length (filter P (dm_values (dm_insert k v m))) \<le> length (filter P (dm_values m)) + (if P v then 1 else 0)"
proof (induction m)
  case (Cons p m)
  then show ?case by (cases p) (auto simp: dm_insert_def dm_values_def)
qed (simp add: dm_insert_def dm_values_def)

lemma count_remove: "length (filter P (dm_values (dm_remove k m))) \<le> length (filter P (dm_values m))"
proof (induction m)
  case (Cons p m)
  then show ?case by (cases p) (auto simp: dm_remove_def dm_values_def)
qed (simp add: dm_remove_def dm_values_def)

lemma agent_pending_remove: "agent_pending (m\<lparr>pending := dm_remove i (pending m)\<rparr>) a \<le> agent_pending m a"
  by (simp add: agent_pending_def count_remove)

lemma manager_inv_push: "manager_inv m \<Longrightarrow> manager_inv (push_recent m r d who now)"
  by (simp add: manager_inv_def push_recent_def agent_pending_def)

lemma manager_inv_remove: "manager_inv m \<Longrightarrow> manager_inv (m\<lparr>pending := dm_remove i (pending m)\<rparr>)"
  using le_trans [OF agent_pending_remove] by (simp add: manager_inv_def)

lemma manager_inv_submit:
  assumes "manager_inv m" "submit_request m r = Inr m'"
  shows "manager_inv m'"
proof -
  have m': "m' = m\<lparr>pending := dm_insert (req_id r) r (pending m)\<rparr>"
    and few: "agent_pending m (agent_id r) < MAX_PENDING_PER_AGENT"
    using assms(2) by (auto simp: submit_request_def split: if_splits)
  have "agent_pending m' a \<le> MAX_PENDING_PER_AGENT" for a
  proof -
    have "agent_pending m a \<le> MAX_PENDING_PER_AGENT"
      using assms(1) by (simp add: manager_inv_def)
    then show ?thesis
      using count_insert [of "\<lambda>q. agent_id q = a" "req_id r" r "pending m"] few
      by (cases "agent_id r = a") (auto simp: m' agent_pending_def)
  qed
  with assms(1) show ?thesis by (simp add: manager_inv_def m')
qed

lemma manager_inv_ops:
  "manager_inv m \<Longrightarrow> manager_inv (time_out_request now m r)"
  "manager_inv m \<Longrightarrow> manager_inv (snd (resolve now m i d who))"
  "manager_inv m \<Longrightarrow> manager_inv (update_policy m p)"
  by (auto simp: time_out_request_def Let_def resolve_def intro!: manager_inv_push manager_inv_remove
      split: option.split) (simp add: manager_inv_def update_policy_def agent_pending_def)

lemma approval_step_inv: "manager_inv (mgr w) \<Longrightarrow> manager_inv (mgr (approval_step w e))"
proof (cases e)
  case (OpResolve now i d who)
  assume "manager_inv (mgr w)"
  then have "manager_inv (snd (resolve now (mgr w) i d who))" by (rule manager_inv_ops)
  then show ?thesis by (auto simp: OpResolve split: prod.split sum.split)
qed (auto simp: manager_inv_ops intro: manager_inv_submit split: sum.split option.split)

interpretation approvals: machine approval_step "\<lambda>_ _. True" "\<lambda>w. manager_inv (mgr w)"
  by unfold_locales (rule approval_step_inv)

text \<open>An approval that is under way or returned was given by a resolver.\<close>

definition approves :: "uuid \<Rightarrow> approval_op \<Rightarrow> bool" where
  "approves i e = (case e of OpResolve _ j d _ \<Rightarrow> j = i \<and> d = Approved | _ \<Rightarrow> False)"

definition approved_somewhere :: "approval_world \<Rightarrow> uuid \<Rightarrow> bool" where
  "approved_somewhere w i \<longleftrightarrow> dm_get (taken w) i = Some Approved \<or> dm_get (sent w) i = Some Approved
     \<or> (i, Approved) \<in> set (returned w)"

lemma approved_step: "approved_somewhere (approval_step w e) i \<Longrightarrow> approved_somewhere w i \<or> approves i e"
  by (cases e) (auto simp: approved_somewhere_def approves_def resolve_def submit_request_def
      split: option.splits if_splits sum.splits)

lemma approved_run:
  "approved_somewhere (run approval_step (approval_start p) es) i \<Longrightarrow> list_ex (approves i) es"
proof (induction es rule: rev_induct)
  case Nil
  then show ?case by (simp add: approved_somewhere_def approval_start_def)
next
  case (snoc e es)
  then show ?case using approved_step [of _ e i] by (auto simp: run_append list_ex_iff)
qed

section \<open>Properties\<close>

text \<open>
  C32: no agent runs a gated tool on its own say. Whatever the interleaving of submissions,
  resolutions, sends and timeouts, a request that \<open>request_approval\<close> returns as approved was
  approved by a call of \<open>resolve\<close> with its id.
\<close>

theorem approved_only_if_resolved:
  assumes "(i, Approved) \<in> set (returned (run approval_step (approval_start p) es))"
  shows "list_ex (approves i) es"
  by (rule approved_run [of p]) (simp add: approved_somewhere_def assms)

theorem approved_only_if_resolved_witness:
  "list_ex (approves 7)
     [OpSubmit \<lparr>req_id = 7, agent_id = ''a'', tool_name = ''shell_exec'', description = [], action_summary = [],
        risk = Critical, requested_at = 0, timeout_secs = 60\<rparr>,
      OpResolve 5 7 Approved None, OpSend 7, OpReceive 7]"
  by (rule approved_only_if_resolved [where p = default_approval_policy])
     (simp add: approval_start_def new_approval_manager_def submit_request_def agent_pending_def dm_values_def
        MAX_PENDING_PER_AGENT_def resolve_def)

text \<open>
  The manager's bounds. In every reachable state no agent has more than five pending
  requests and the history keeps at most a hundred records.
\<close>

theorem approval_bounds:
  "agent_pending (mgr (run approval_step (approval_start p) es)) a \<le> MAX_PENDING_PER_AGENT
   \<and> length (recent (mgr (run approval_step (approval_start p) es))) \<le> MAX_RECENT_APPROVALS"
proof -
  have "manager_inv (mgr (approval_start p))"
    by (simp add: approval_start_def new_approval_manager_def manager_inv_def agent_pending_def dm_values_def)
  then have "manager_inv (mgr (run approval_step (approval_start p) es))"
    by (rule approvals.run_inv) simp
  then show ?thesis by (simp add: manager_inv_def)
qed

text \<open>
  A resolution can be lost. When the timeout of a caller fires after \<open>resolve\<close> removed and
  recorded its request and before it sent the decision, the resolver is told that the request
  was approved, the caller goes on as timed out, and the history holds both records.
\<close>

theorem resolution_lost_to_timeout:
  "returned (run approval_step (approval_start p)
      [OpSubmit r, OpResolve t1 (req_id r) Approved who, OpTimeout t2 (req_id r), OpSend (req_id r)])
     = [(req_id r, TimedOut)]
   \<and> fst (resolve t1 (mgr (run approval_step (approval_start p) [OpSubmit r])) (req_id r) Approved who)
     = Inr \<lparr>resp_request_id = req_id r, resp_decision = Approved, resp_decided_at = t1, resp_decided_by = who\<rparr>
   \<and> map rec_decision (recent (mgr (run approval_step (approval_start p)
      [OpSubmit r, OpResolve t1 (req_id r) Approved who, OpTimeout t2 (req_id r), OpSend (req_id r)])))
     = [TimedOut, Approved]"
  by (simp add: approval_start_def new_approval_manager_def submit_request_def agent_pending_def dm_values_def
      MAX_PENDING_PER_AGENT_def MAX_RECENT_APPROVALS_def resolve_def time_out_request_def push_recent_def Let_def)

end
