(* ===== verification/Workflow.thy ===== *)
theory Workflow
  imports Prelude
begin

text \<open>
  The workflow engine: \<open>openfang-kernel/src/workflow.rs\<close>. The closures \<open>execute_run\<close> takes are
  the fields of the parameter \<open>flow_env\<close>: \<open>send\<close> is \<open>tokio::time::timeout\<close> around
  \<open>send_message\<close> and passes the outside world on, \<open>resolver\<close> is \<open>agent_resolver\<close>. The two maps
  of the engine are \<open>dashmap\<close>s. A fan-out sends its messages in the order of the steps, which is
  one of the orders \<open>join_all\<close> may poll them in.
\<close>

section \<open>Definitions and runs\<close>

datatype step_agent = ById string | ByName string

datatype step_mode =
    Sequential | FanOut | Collect
  | Conditional string
  | Loop u32 string

datatype error_mode = Fail | Skip | Retry u32

record workflow_step =
  step_name :: string
  step_agent :: step_agent
  prompt_template :: string
  mode :: step_mode
  step_timeout_secs :: u64
  error_mode :: error_mode
  output_var :: "string option"

record workflow =
  wf_id :: uuid
  wf_name :: string
  wf_description :: string
  wf_steps :: "workflow_step list"
  wf_created_at :: instant

datatype run_state = Pending | Running | Completed | Failed

record step_result =
  sr_step_name :: string
  sr_agent_id :: string
  sr_agent_name :: string
  sr_output :: string
  sr_input_tokens :: u64
  sr_output_tokens :: u64
  sr_duration_ms :: u64

record workflow_run =
  run_id :: uuid
  run_workflow_id :: uuid
  run_workflow_name :: string
  run_input :: string
  run_state :: run_state
  step_results :: "step_result list"
  run_output :: "string option"
  run_error :: "string option"
  started_at :: instant
  completed_at :: "instant option"

record workflow_engine =
  workflows :: "(uuid, workflow) dashmap"
  runs :: "(uuid, workflow_run) dashmap"

definition new_engine :: workflow_engine where
  "new_engine = \<lparr>workflows = [], runs = []\<rparr>"

definition register_workflow :: "workflow_engine \<Rightarrow> workflow \<Rightarrow> workflow_engine \<times> uuid" where
  "register_workflow e w = (e\<lparr>workflows := dm_insert (wf_id w) w (workflows e)\<rparr>, wf_id w)"

definition list_workflows :: "workflow_engine \<Rightarrow> workflow list" where
  "list_workflows e = dm_values (workflows e)"

definition get_workflow :: "workflow_engine \<Rightarrow> uuid \<Rightarrow> workflow option" where
  "get_workflow e i = dm_get (workflows e) i"

definition remove_workflow :: "workflow_engine \<Rightarrow> uuid \<Rightarrow> workflow_engine \<times> bool" where
  "remove_workflow e i = (e\<lparr>workflows := dm_remove i (workflows e)\<rparr>, dm_get (workflows e) i \<noteq> None)"

definition update_workflow :: "workflow_engine \<Rightarrow> uuid \<Rightarrow> workflow \<Rightarrow> workflow_engine \<times> bool" where
  "update_workflow e i u =
     (case dm_get (workflows e) i of
        Some w \<Rightarrow>
          (e\<lparr>workflows := dm_insert i (w\<lparr>wf_name := wf_name u, wf_description := wf_description u,
                                       wf_steps := wf_steps u\<rparr>) (workflows e)\<rparr>, True)
      | None \<Rightarrow> (e, False))"

definition MAX_RETAINED_RUNS :: nat where
  "MAX_RETAINED_RUNS = 200"

fun finished :: "run_state \<Rightarrow> bool" where
  "finished Completed = True"
| "finished Failed = True"
| "finished _ = False"

definition evict_runs :: "(uuid, workflow_run) dashmap \<Rightarrow> (uuid, workflow_run) dashmap" where
  "evict_runs rs =
     (if length rs > MAX_RETAINED_RUNS then
        let evictable = map (\<lambda>(i, r). (i, started_at r)) (filter (\<lambda>(_, r). finished (run_state r)) rs);
            oldest_first = sort_key snd evictable;
            to_remove = length rs - MAX_RETAINED_RUNS
        in fold (\<lambda>(i, _). dm_remove i) (take to_remove oldest_first) rs
      else rs)"

text \<open>The fresh run id and the time are arguments.\<close>

definition create_run ::
  "uuid \<Rightarrow> instant \<Rightarrow> workflow_engine \<Rightarrow> uuid \<Rightarrow> string \<Rightarrow> workflow_engine \<times> uuid option" where
  "create_run new_id now e workflow_id input =
     (case dm_get (workflows e) workflow_id of
        None \<Rightarrow> (e, None)
      | Some w \<Rightarrow>
          (e\<lparr>runs := evict_runs (dm_insert new_id
               \<lparr>run_id = new_id, run_workflow_id = workflow_id, run_workflow_name = wf_name w,
                run_input = input, run_state = Pending, step_results = [], run_output = None,
                run_error = None, started_at = now, completed_at = None\<rparr> (runs e))\<rparr>,
           Some new_id))"

definition get_run :: "workflow_engine \<Rightarrow> uuid \<Rightarrow> workflow_run option" where
  "get_run e i = dm_get (runs e) i"

fun state_filter_ok :: "string option \<Rightarrow> workflow_run \<Rightarrow> bool" where
  "state_filter_ok None r = True"
| "state_filter_ok (Some f) r =
     (if f = ''pending'' then run_state r = Pending
      else if f = ''running'' then run_state r = Running
      else if f = ''completed'' then run_state r = Completed
      else if f = ''failed'' then run_state r = Failed
      else True)"

definition list_runs :: "workflow_engine \<Rightarrow> string option \<Rightarrow> workflow_run list" where
  "list_runs e f = filter (state_filter_ok f) (dm_values (runs e))"

definition expand_variables :: "string \<Rightarrow> string \<Rightarrow> (string, string) dashmap \<Rightarrow> string" where
  "expand_variables tmpl input vars =
     fold (\<lambda>(k, v) s. str_replace s (''{{'' @ k @ ''}}'') v) vars (str_replace tmpl ''{{input}}'' input)"

section \<open>One step\<close>

definition quoted :: "string \<Rightarrow> string" where
  "quoted s = CHR 0x27 # s @ [CHR 0x27]"

text \<open>What \<open>timeout(send_message(...))\<close> gives: \<open>Ok(Ok)\<close>, \<open>Ok(Err)\<close> or \<open>Err\<close>.\<close>

datatype send_outcome = Replied string u64 u64 | SendFailed string | TimedOut

record 'w flow_env =
  send :: "'w \<Rightarrow> uuid \<Rightarrow> string \<Rightarrow> send_outcome \<times> 'w"
  resolver :: "'w \<Rightarrow> step_agent \<Rightarrow> (uuid \<times> string) option"
  millis :: "'w \<Rightarrow> 'w \<Rightarrow> u64"
  clock :: "'w \<Rightarrow> instant"
  agent_text :: "uuid \<Rightarrow> string"

type_synonym step_reply = "(string \<times> u64 \<times> u64) option"

text \<open>\<open>retry_loop\<close> runs the attempts that are left, with the error of the last one.\<close>

fun retry_loop ::
  "'w flow_env \<Rightarrow> workflow_step \<Rightarrow> uuid \<Rightarrow> string \<Rightarrow> nat \<Rightarrow> string \<Rightarrow> 'w \<Rightarrow> (string + step_reply) \<times> 'w" where
  "retry_loop env s a prompt 0 last_err w = (Inl last_err, w)"
| "retry_loop env s a prompt (Suc left) last_err w =
     (case send env w a prompt of
        (Replied out i o', w') \<Rightarrow> (Inr (Some (out, i, o')), w')
      | (SendFailed e, w') \<Rightarrow> retry_loop env s a prompt left e w'
      | (TimedOut, w') \<Rightarrow>
          retry_loop env s a prompt left (''timed out after '' @ show_word (step_timeout_secs s) @ ''s'') w')"

definition execute_step_with_error_mode ::
  "'w flow_env \<Rightarrow> workflow_step \<Rightarrow> uuid \<Rightarrow> string \<Rightarrow> 'w \<Rightarrow> (string + step_reply) \<times> 'w" where
  "execute_step_with_error_mode env s a prompt w =
     (case error_mode s of
        Fail \<Rightarrow>
          (case send env w a prompt of
             (Replied out i o', w') \<Rightarrow> (Inr (Some (out, i, o')), w')
           | (SendFailed e, w') \<Rightarrow> (Inl (''Step '' @ quoted (step_name s) @ '' failed: '' @ e), w')
           | (TimedOut, w') \<Rightarrow>
               (Inl (''Step '' @ quoted (step_name s) @ '' timed out after '' @ show_word (step_timeout_secs s) @ ''s''), w'))
      | Skip \<Rightarrow>
          (case send env w a prompt of
             (Replied out i o', w') \<Rightarrow> (Inr (Some (out, i, o')), w')
           | (_, w') \<Rightarrow> (Inr None, w'))
      | Retry max_retries \<Rightarrow>
          (case retry_loop env s a prompt (unat max_retries + 1) [] w of
             (Inr r, w') \<Rightarrow> (Inr r, w')
           | (Inl last_err, w') \<Rightarrow>
               (Inl (''Step '' @ quoted (step_name s) @ '' failed after '' @ show_word max_retries @ '' retries: '' @ last_err), w')))"

section \<open>The run of a workflow\<close>

text \<open>
  The local variables of \<open>execute_run\<close> with the engine's map of runs (which it locks for each
  write) and the outside world.
\<close>

record 'w flow =
  fl_runs :: "(uuid, workflow_run) dashmap"
  current_input :: string
  all_outputs :: "string list"
  variables :: "(string, string) dashmap"
  world :: 'w

definition fail_run :: "instant \<Rightarrow> uuid \<Rightarrow> string \<Rightarrow> (uuid, workflow_run) dashmap \<Rightarrow> (uuid, workflow_run) dashmap" where
  "fail_run now rid e rs =
     dm_modify rid (\<lambda>r. r\<lparr>run_state := Failed, run_error := Some e, completed_at := Some now\<rparr>) rs"

definition push_result :: "uuid \<Rightarrow> step_result \<Rightarrow> (uuid, workflow_run) dashmap \<Rightarrow> (uuid, workflow_run) dashmap" where
  "push_result rid sr rs = dm_modify rid (\<lambda>r. r\<lparr>step_results := step_results r @ [sr]\<rparr>) rs"

definition store_var :: "string option \<Rightarrow> string \<Rightarrow> (string, string) dashmap \<Rightarrow> (string, string) dashmap" where
  "store_var v out vars = (case v of Some x \<Rightarrow> dm_insert x out vars | None \<Rightarrow> vars)"

definition not_found :: "workflow_step \<Rightarrow> string" where
  "not_found s = ''Agent not found for step '' @ quoted (step_name s)"

definition result_of ::
  "'w flow_env \<Rightarrow> string \<Rightarrow> uuid \<Rightarrow> string \<Rightarrow> string \<times> u64 \<times> u64 \<Rightarrow> u64 \<Rightarrow> step_result" where
  "result_of env name a agent_name reply ms =
     \<lparr>sr_step_name = name, sr_agent_id = agent_text env a, sr_agent_name = agent_name,
      sr_output = fst reply, sr_input_tokens = fst (snd reply), sr_output_tokens = snd (snd reply),
      sr_duration_ms = ms\<rparr>"

text \<open>
  A sequential step, and a conditional one whose condition holds. The result is the error the
  run stops with, or none, and the state.
\<close>

definition run_single :: "'w flow_env \<Rightarrow> uuid \<Rightarrow> workflow_step \<Rightarrow> 'w flow \<Rightarrow> string option \<times> 'w flow" where
  "run_single env rid s f =
     (case resolver env (world f) (step_agent s) of
        None \<Rightarrow> (Some (not_found s), f)
      | Some (a, agent_name) \<Rightarrow>
          (case execute_step_with_error_mode env s a
                  (expand_variables (prompt_template s) (current_input f) (variables f)) (world f) of
             (Inr (Some reply), w) \<Rightarrow>
               (None, f\<lparr>fl_runs := push_result rid (result_of env (step_name s) a agent_name reply (millis env (world f) w)) (fl_runs f),
                        variables := store_var (output_var s) (fst reply) (variables f),
                        all_outputs := all_outputs f @ [fst reply],
                        current_input := fst reply, world := w\<rparr>)
           | (Inr None, w) \<Rightarrow> (None, f\<lparr>world := w\<rparr>)
           | (Inl e, w) \<Rightarrow> (Some e, f\<lparr>fl_runs := fail_run (clock env w) rid e (fl_runs f), world := w\<rparr>)))"

text \<open>Fan-out: resolve every agent, send every message, then take the results in order.\<close>

fun resolve_all ::
  "'w flow_env \<Rightarrow> 'w flow \<Rightarrow> workflow_step list \<Rightarrow> string + (workflow_step \<times> uuid \<times> string \<times> string) list" where
  "resolve_all env f [] = Inr []"
| "resolve_all env f (s # ss) =
     (case resolver env (world f) (step_agent s) of
        None \<Rightarrow> Inl (not_found s)
      | Some (a, agent_name) \<Rightarrow>
          (case resolve_all env f ss of
             Inl e \<Rightarrow> Inl e
           | Inr infos \<Rightarrow>
               Inr ((s, a, agent_name, expand_variables (prompt_template s) (current_input f) (variables f)) # infos)))"

fun send_all ::
  "'w flow_env \<Rightarrow> (workflow_step \<times> uuid \<times> string \<times> string) list \<Rightarrow> 'w \<Rightarrow> send_outcome list \<times> 'w" where
  "send_all env [] w = ([], w)"
| "send_all env ((s, a, agent_name, prompt) # infos) w =
     (let (r, w1) = send env w a prompt; (rs, w2) = send_all env infos w1 in (r # rs, w2))"

fun take_results ::
  "'w flow_env \<Rightarrow> uuid \<Rightarrow> u64 \<Rightarrow> (workflow_step \<times> uuid \<times> string \<times> string) list \<Rightarrow> send_outcome list \<Rightarrow>
   'w flow \<Rightarrow> string option \<times> 'w flow" where
  "take_results env rid ms ((s, a, agent_name, _) # infos) (r # rs) f =
     (case r of
        Replied out i o' \<Rightarrow>
          take_results env rid ms infos rs
            (f\<lparr>fl_runs := push_result rid (result_of env (step_name s) a agent_name (out, i, o') ms) (fl_runs f),
               variables := store_var (output_var s) out (variables f),
               all_outputs := all_outputs f @ [out], current_input := out\<rparr>)
      | SendFailed e \<Rightarrow>
          (let msg = ''FanOut step '' @ quoted (step_name s) @ '' failed: '' @ e
           in (Some msg, f\<lparr>fl_runs := fail_run (clock env (world f)) rid msg (fl_runs f)\<rparr>))
      | TimedOut \<Rightarrow>
          (let msg = ''FanOut step '' @ quoted (step_name s) @ '' timed out after ''
                     @ show_word (step_timeout_secs s) @ ''s''
           in (Some msg, f\<lparr>fl_runs := fail_run (clock env (world f)) rid msg (fl_runs f)\<rparr>)))"
| "take_results env rid ms _ _ f = (None, f)"

definition run_fan_out :: "'w flow_env \<Rightarrow> uuid \<Rightarrow> workflow_step list \<Rightarrow> 'w flow \<Rightarrow> string option \<times> 'w flow" where
  "run_fan_out env rid ss f =
     (case resolve_all env f ss of
        Inl e \<Rightarrow> (Some e, f)
      | Inr infos \<Rightarrow>
          (let (rs, w) = send_all env infos (world f)
           in take_results env rid (millis env (world f) w) infos rs (f\<lparr>world := w\<rparr>)))"

definition run_collect :: "workflow_step \<Rightarrow> 'w flow \<Rightarrow> 'w flow" where
  "run_collect s f =
     (let joined = join_with (CHR 0x0A # CHR 0x0A # ''---'' @ [CHR 0x0A, CHR 0x0A]) (all_outputs f)
      in f\<lparr>current_input := joined, all_outputs := [joined],
           variables := store_var (output_var s) joined (variables f)\<rparr>)"

text \<open>The iterations that are left, the number of the next one, and the agent's name.\<close>

fun run_iterations ::
  "'w flow_env \<Rightarrow> uuid \<Rightarrow> workflow_step \<Rightarrow> string \<Rightarrow> uuid \<Rightarrow> string \<Rightarrow> nat \<Rightarrow> nat \<Rightarrow> 'w flow \<Rightarrow>
   string option \<times> 'w flow" where
  "run_iterations env rid s until_lower a agent_name 0 iter f = (None, f)"
| "run_iterations env rid s until_lower a agent_name (Suc left) iter f =
     (case execute_step_with_error_mode env s a
             (expand_variables (prompt_template s) (current_input f) (variables f)) (world f) of
        (Inr (Some reply), w) \<Rightarrow>
          (let f' = f\<lparr>fl_runs := push_result rid
                         (result_of env (step_name s @ '' (iter '' @ show_nat (iter + 1) @ '')'') a agent_name reply
                            (millis env (world f) w)) (fl_runs f),
                      current_input := fst reply, world := w\<rparr>
           in if str_contains (to_lowercase (fst reply)) until_lower then (None, f')
              else run_iterations env rid s until_lower a agent_name left (iter + 1) f')
      | (Inr None, w) \<Rightarrow> (None, f\<lparr>world := w\<rparr>)
      | (Inl e, w) \<Rightarrow> (Some e, f\<lparr>fl_runs := fail_run (clock env w) rid e (fl_runs f), world := w\<rparr>))"

definition run_loop ::
  "'w flow_env \<Rightarrow> uuid \<Rightarrow> workflow_step \<Rightarrow> u32 \<Rightarrow> string \<Rightarrow> 'w flow \<Rightarrow> string option \<times> 'w flow" where
  "run_loop env rid s max_iterations until f =
     (case resolver env (world f) (step_agent s) of
        None \<Rightarrow> (Some (not_found s), f)
      | Some (a, agent_name) \<Rightarrow>
          (case run_iterations env rid s (to_lowercase until) a agent_name (unat max_iterations) 0 f of
             (Some e, f') \<Rightarrow> (Some e, f')
           | (None, f') \<Rightarrow>
               (None, f'\<lparr>variables := store_var (output_var s) (current_input f') (variables f'),
                         all_outputs := all_outputs f' @ [current_input f']\<rparr>)))"

text \<open>\<open>while i < workflow.steps.len()\<close>, over the steps that are left.\<close>

function execute_steps ::
  "'w flow_env \<Rightarrow> uuid \<Rightarrow> workflow_step list \<Rightarrow> 'w flow \<Rightarrow> string option \<times> 'w flow" where
  "execute_steps env rid [] f = (None, f)"
| "execute_steps env rid (s # ss) f =
     (case mode s of
        FanOut \<Rightarrow>
          (case run_fan_out env rid (s # takeWhile (\<lambda>t. mode t = FanOut) ss) f of
             (Some e, f') \<Rightarrow> (Some e, f')
           | (None, f') \<Rightarrow> execute_steps env rid (dropWhile (\<lambda>t. mode t = FanOut) ss) f')
      | Sequential \<Rightarrow>
          (case run_single env rid s f of
             (Some e, f') \<Rightarrow> (Some e, f')
           | (None, f') \<Rightarrow> execute_steps env rid ss f')
      | Collect \<Rightarrow> execute_steps env rid ss (run_collect s f)
      | Conditional condition \<Rightarrow>
          (if \<not> str_contains (to_lowercase (current_input f)) (to_lowercase condition)
           then execute_steps env rid ss f
           else
             (case run_single env rid s f of
                (Some e, f') \<Rightarrow> (Some e, f')
              | (None, f') \<Rightarrow> execute_steps env rid ss f'))
      | Loop max_iterations until \<Rightarrow>
          (case run_loop env rid s max_iterations until f of
             (Some e, f') \<Rightarrow> (Some e, f')
           | (None, f') \<Rightarrow> execute_steps env rid ss f'))"
  by pat_completeness auto
termination
  by (relation "measure (\<lambda>(_, _, ss, _). length ss)") (auto simp: le_imp_less_Suc length_dropWhile_le)

declare execute_steps.simps(2) [simp del]

definition execute_run ::
  "'w flow_env \<Rightarrow> workflow_engine \<Rightarrow> uuid \<Rightarrow> 'w \<Rightarrow> (string + string) \<times> workflow_engine \<times> 'w" where
  "execute_run env e rid w =
     (case dm_get (runs e) rid of
        None \<Rightarrow> (Inl ''Workflow run not found'', e, w)
      | Some r \<Rightarrow>
          (let rs = dm_modify rid (\<lambda>r. r\<lparr>run_state := Running\<rparr>) (runs e)
           in case dm_get (workflows e) (run_workflow_id r) of
                None \<Rightarrow> (Inl ''Workflow definition not found'', e\<lparr>runs := rs\<rparr>, w)
              | Some wflow \<Rightarrow>
                  (case execute_steps env rid (wf_steps wflow)
                          \<lparr>fl_runs = rs, current_input = run_input r, all_outputs = [], variables = [], world = w\<rparr> of
                     (Some err, f) \<Rightarrow> (Inl err, e\<lparr>runs := fl_runs f\<rparr>, world f)
                   | (None, f) \<Rightarrow>
                       (Inr (current_input f),
                        e\<lparr>runs := dm_modify rid (\<lambda>r. r\<lparr>run_state := Completed, run_output := Some (current_input f),
                                                      completed_at := Some (clock env (world f))\<rparr>) (fl_runs f)\<rparr>,
                        world f))))"

section \<open>What a step does to the runs\<close>

text \<open>
  A step leaves the other runs alone, leaves its own run running when it goes on, and marks it
  failed with the error it stops with, unless that error is an agent that was not found.
\<close>

definition live :: "uuid \<Rightarrow> (uuid, workflow_run) dashmap \<Rightarrow> bool" where
  "live rid rs \<longleftrightarrow> (case dm_get rs rid of Some r \<Rightarrow> run_state r = Running | None \<Rightarrow> False)"

definition failed_with :: "uuid \<Rightarrow> string \<Rightarrow> (uuid, workflow_run) dashmap \<Rightarrow> bool" where
  "failed_with rid e rs \<longleftrightarrow>
     (case dm_get rs rid of Some r \<Rightarrow> run_state r = Failed \<and> run_error r = Some e | None \<Rightarrow> False)"

definition others_same :: "uuid \<Rightarrow> (uuid, workflow_run) dashmap \<Rightarrow> (uuid, workflow_run) dashmap \<Rightarrow> bool" where
  "others_same rid rs rs' \<longleftrightarrow> (\<forall>j. j \<noteq> rid \<longrightarrow> dm_get rs' j = dm_get rs j)"

definition step_outcome :: "uuid \<Rightarrow> (uuid, workflow_run) dashmap \<Rightarrow> string option \<times> 'w flow \<Rightarrow> bool" where
  "step_outcome rid rs o' \<longleftrightarrow> others_same rid rs (fl_runs (snd o')) \<and>
     (case fst o' of
        None \<Rightarrow> live rid (fl_runs (snd o'))
      | Some e \<Rightarrow> failed_with rid e (fl_runs (snd o')) \<or>
                 (live rid (fl_runs (snd o')) \<and> (\<exists>s. e = not_found s)))"

lemma live_push [simp]: "live rid (push_result rid sr rs) = live rid rs"
  by (simp add: live_def push_result_def split: option.split)

lemma others_push: "others_same rid rs (push_result rid sr rs)"
  by (simp add: others_same_def push_result_def)

lemma failed_fail_run: "live rid rs \<Longrightarrow> failed_with rid e (fail_run now rid e rs)"
  by (auto simp: live_def failed_with_def fail_run_def split: option.splits)

lemma others_fail_run: "others_same rid rs (fail_run now rid e rs)"
  by (simp add: others_same_def fail_run_def)

lemma others_same_refl [simp]: "others_same rid rs rs"
  by (simp add: others_same_def)

lemma others_same_trans: "others_same rid rs rs' \<Longrightarrow> others_same rid rs' rs'' \<Longrightarrow> others_same rid rs rs''"
  by (simp add: others_same_def)

lemma step_outcome_trans: "others_same rid rs rs' \<Longrightarrow> step_outcome rid rs' o' \<Longrightarrow> step_outcome rid rs o'"
  by (auto simp: step_outcome_def intro: others_same_trans)

lemma step_outcomeD:
  "step_outcome rid rs (None, f) \<Longrightarrow> live rid (fl_runs f) \<and> others_same rid rs (fl_runs f)"
  by (simp add: step_outcome_def)

lemma run_single_outcome: "live rid (fl_runs f) \<Longrightarrow> step_outcome rid (fl_runs f) (run_single env rid s f)"
  by (auto simp: run_single_def step_outcome_def failed_fail_run others_fail_run others_push
      split: option.split prod.split sum.split)

lemma take_results_outcome:
  "live rid (fl_runs f) \<Longrightarrow> step_outcome rid (fl_runs f) (take_results env rid ms infos rs f)"
proof (induction env rid ms infos rs f rule: take_results.induct)
  case (1 env rid ms s a agent_name p infos r rs f)
  show ?case
  proof (cases r)
    case (Replied out i o')
    have "step_outcome rid (push_result rid (result_of env (step_name s) a agent_name (out, i, o') ms) (fl_runs f))
        (take_results env rid ms ((s, a, agent_name, p) # infos) (r # rs) f)"
      using 1(1) [OF Replied] 1(2) by (simp add: Replied)
    then show ?thesis by (rule step_outcome_trans [OF others_push])
  qed (use 1(2) in \<open>simp_all add: step_outcome_def Let_def failed_fail_run others_fail_run\<close>)
qed (simp_all add: step_outcome_def)

lemma resolve_all_error: "resolve_all env f ss = Inl e \<Longrightarrow> \<exists>s. e = not_found s"
  by (induction ss) (auto split: option.splits prod.splits sum.splits)

lemma run_fan_out_outcome: "live rid (fl_runs f) \<Longrightarrow> step_outcome rid (fl_runs f) (run_fan_out env rid ss f)"
proof (cases "resolve_all env f ss")
  case (Inl e)
  assume "live rid (fl_runs f)"
  with Inl resolve_all_error [OF Inl] show ?thesis by (simp add: run_fan_out_def step_outcome_def)
next
  case (Inr infos)
  assume "live rid (fl_runs f)"
  with take_results_outcome [of rid "f\<lparr>world := snd (send_all env infos (world f))\<rparr>"] Inr show ?thesis
    by (simp add: run_fan_out_def case_prod_beta)
qed

lemma run_iterations_outcome:
  "live rid (fl_runs f) \<Longrightarrow> step_outcome rid (fl_runs f) (run_iterations env rid s u a nm left iter f)"
proof (induction left arbitrary: iter f)
  case (Suc left)
  show ?case
  proof (cases "execute_step_with_error_mode env s a
      (expand_variables (prompt_template s) (current_input f) (variables f)) (world f)")
    case (Pair r w)
    show ?thesis
    proof (cases "\<exists>reply. r = Inr (Some reply)")
      case True
      then obtain reply where r: "r = Inr (Some reply)" by blast
      let ?rs = "push_result rid (result_of env (step_name s @ '' (iter '' @ show_nat (iter + 1) @ '')'') a nm reply
          (millis env (world f) w)) (fl_runs f)"
      have "step_outcome rid ?rs (run_iterations env rid s u a nm left (iter + 1)
          (f\<lparr>fl_runs := ?rs, current_input := fst reply, world := w\<rparr>))"
        using Suc.IH [of "f\<lparr>fl_runs := ?rs, current_input := fst reply, world := w\<rparr>"] Suc.prems by simp
      then have "step_outcome rid (fl_runs f) (run_iterations env rid s u a nm left (iter + 1)
          (f\<lparr>fl_runs := ?rs, current_input := fst reply, world := w\<rparr>))"
        by (rule step_outcome_trans [OF others_push])
      with Suc.prems show ?thesis
        by (simp add: Pair r Let_def) (simp add: step_outcome_def others_push)
    next
      case False
      with Suc.prems show ?thesis
        by (cases r) (auto simp: Pair step_outcome_def failed_fail_run others_fail_run split: option.split)
    qed
  qed
qed (simp add: step_outcome_def)

lemma run_loop_outcome: "live rid (fl_runs f) \<Longrightarrow> step_outcome rid (fl_runs f) (run_loop env rid s n u f)"
proof (cases "resolver env (world f) (step_agent s)")
  case None
  assume "live rid (fl_runs f)"
  with None show ?thesis by (auto simp: run_loop_def step_outcome_def)
next
  case (Some p)
  assume "live rid (fl_runs f)"
  from run_iterations_outcome [OF this, of env s "to_lowercase u" "fst p" "snd p" "unat n" 0] Some
  show ?thesis
    by (cases p) (auto simp: run_loop_def step_outcome_def split: prod.split option.split)
qed

lemma continue_outcome:
  assumes "step_outcome rid rs o'"
    and "\<And>f'. o' = (None, f') \<Longrightarrow> live rid (fl_runs f') \<Longrightarrow> step_outcome rid (fl_runs f') (k f')"
  shows "step_outcome rid rs (case o' of (Some e, f') \<Rightarrow> (Some e, f') | (None, f') \<Rightarrow> k f')"
proof (cases o')
  case (Pair x f')
  show ?thesis
  proof (cases x)
    case None
    with Pair assms(1) step_outcomeD [of rid rs f'] assms(2) [of f'] show ?thesis
      by (auto intro: step_outcome_trans)
  qed (use Pair assms(1) in simp)
qed

lemma execute_steps_outcome:
  "live rid (fl_runs f) \<Longrightarrow> step_outcome rid (fl_runs f) (execute_steps env rid ss f)"
proof (induction env rid ss f rule: execute_steps.induct)
  case (1 env rid f)
  then show ?case by (simp add: step_outcome_def)
next
  case (2 env rid s ss f)
  show ?case
  proof (cases "mode s")
    case Sequential
    show ?thesis
      by (subst execute_steps.simps, simp only: Sequential step_mode.case)
         (rule continue_outcome [OF run_single_outcome [OF 2(7)]], use 2 Sequential in simp)
  next
    case FanOut
    show ?thesis
      by (subst execute_steps.simps, simp only: FanOut step_mode.case)
         (rule continue_outcome [OF run_fan_out_outcome [OF 2(7)]], use 2 FanOut in simp)
  next
    case Collect
    have "fl_runs (run_collect s f) = fl_runs f" by (simp add: run_collect_def Let_def)
    with 2(3) [OF Collect] 2(7) show ?thesis
      by (simp add: execute_steps.simps(2) Collect)
  next
    case (Conditional c)
    show ?thesis
    proof (cases "str_contains (to_lowercase (current_input f)) (to_lowercase c)")
      case True
      show ?thesis
        by (subst execute_steps.simps, simp only: Conditional step_mode.case True not_True_eq_False if_False)
           (rule continue_outcome [OF run_single_outcome [OF 2(7)]], use 2 Conditional True in simp)
    next
      case False
      with 2 Conditional show ?thesis by (simp add: execute_steps.simps(2))
    qed
  next
    case (Loop n u)
    show ?thesis
      by (subst execute_steps.simps, simp only: Loop step_mode.case)
         (rule continue_outcome [OF run_loop_outcome [OF 2(7)]], use 2 Loop in simp)
  qed
qed

section \<open>How many messages a run sends\<close>

definition attempts :: "workflow_step \<Rightarrow> nat" where
  "attempts s = (case error_mode s of Retry n \<Rightarrow> unat n + 1 | _ \<Rightarrow> 1)"

definition step_budget :: "workflow_step \<Rightarrow> nat" where
  "step_budget s =
     (case mode s of
        Sequential \<Rightarrow> attempts s
      | Conditional _ \<Rightarrow> attempts s
      | FanOut \<Rightarrow> 1
      | Collect \<Rightarrow> 0
      | Loop n _ \<Rightarrow> unat n * attempts s)"

text \<open>A measure of the world that one message raises by at most one.\<close>

locale metered =
  fixes env :: "'w flow_env" and spent :: "'w \<Rightarrow> nat"
  assumes spent_send: "spent (snd (send env w a p)) \<le> spent w + 1"
begin

lemma spent_sent: "send env w a p = (r, w') \<Longrightarrow> spent w' \<le> spent w + 1"
  using spent_send [of w a p] by simp

lemma spent_retry: "spent (snd (retry_loop env s a p n e w)) \<le> spent w + n"
proof (induction n arbitrary: e w)
  case (Suc n)
  obtain r w' where r: "send env w a p = (r, w')" by force
  show ?case
    using spent_sent [OF r] Suc.IH [of _ w'] by (cases r) (force simp: r intro: le_trans)+
qed simp

lemma spent_execute: "spent (snd (execute_step_with_error_mode env s a p w)) \<le> spent w + attempts s"
proof (cases "error_mode s")
  case (Retry n)
  have "snd (execute_step_with_error_mode env s a p w) = snd (retry_loop env s a p (unat n + 1) [] w)"
    by (simp add: execute_step_with_error_mode_def Retry split: prod.split sum.split del: retry_loop.simps)
  then show ?thesis
    using spent_retry [of s a p "unat n + 1" "[]" w] by (simp add: attempts_def Retry)
next
  case Fail
  then show ?thesis
    using spent_sent [of w a p]
    by (auto simp: execute_step_with_error_mode_def attempts_def split: prod.split send_outcome.split)
next
  case Skip
  then show ?thesis
    using spent_sent [of w a p]
    by (auto simp: execute_step_with_error_mode_def attempts_def split: prod.split send_outcome.split)
qed

lemma spent_executed:
  "execute_step_with_error_mode env s a p w = (r, w') \<Longrightarrow> spent w' \<le> spent w + attempts s"
  using spent_execute [of s a p w] by simp

lemma spent_single: "spent (world (snd (run_single env rid s f))) \<le> spent (world f) + attempts s"
  by (auto simp: run_single_def dest!: spent_executed split: option.split prod.split sum.split)

lemma spent_send_all: "spent (snd (send_all env infos w)) \<le> spent w + length infos"
proof (induction infos arbitrary: w)
  case (Cons x infos)
  obtain s a nm p where x: "x = (s, a, nm, p)" by (cases x) auto
  have "spent (snd (send_all env infos (snd (send env w a p)))) \<le> spent (snd (send env w a p)) + length infos"
    by (rule Cons.IH)
  with spent_send [of w a p] show ?case by (simp add: x case_prod_beta)
qed simp

lemma world_take_results: "world (snd (take_results env rid ms infos rs f)) = world f"
proof (induction infos arbitrary: rs f)
  case (Cons x infos)
  obtain s a nm p where x: "x = (s, a, nm, p)" by (cases x) auto
  show ?case
    by (cases rs) (auto simp: x Cons.IH Let_def split: send_outcome.split)
qed simp

lemma resolve_all_length: "resolve_all env f ss = Inr infos \<Longrightarrow> length infos = length ss"
  by (induction ss arbitrary: infos) (auto split: option.splits prod.splits sum.splits)

lemma spent_fan_out: "spent (world (snd (run_fan_out env rid ss f))) \<le> spent (world f) + length ss"
proof (cases "resolve_all env f ss")
  case (Inr infos)
  then show ?thesis
    using spent_send_all [of infos "world f"] resolve_all_length [OF Inr]
    by (simp add: run_fan_out_def case_prod_beta world_take_results)
qed (simp add: run_fan_out_def)

lemma spent_iterations:
  "spent (world (snd (run_iterations env rid s u a nm left iter f))) \<le> spent (world f) + left * attempts s"
proof (induction left arbitrary: iter f)
  case (Suc left)
  obtain r w where e: "execute_step_with_error_mode env s a
      (expand_variables (prompt_template s) (current_input f) (variables f)) (world f) = (r, w)"
    by force
  from spent_executed [OF e] have w: "spent w \<le> spent (world f) + attempts s" .
  show ?case
  proof (cases "\<exists>reply. r = Inr (Some reply)")
    case True
    then obtain reply where r: "r = Inr (Some reply)" by blast
    let ?f = "f\<lparr>fl_runs := push_result rid (result_of env (step_name s @ '' (iter '' @ show_nat (iter + 1) @ '')'') a nm
        reply (millis env (world f) w)) (fl_runs f), current_input := fst reply, world := w\<rparr>"
    have "spent (world (snd (run_iterations env rid s u a nm left (iter + 1) ?f))) \<le> spent w + left * attempts s"
      using Suc.IH [of "iter + 1" ?f] by simp
    with w show ?thesis by (simp add: e r Let_def)
  next
    case False
    with w show ?thesis by (cases r) (auto simp: e split: option.split)
  qed
qed simp

lemma spent_loop: "spent (world (snd (run_loop env rid s n u f))) \<le> spent (world f) + unat n * attempts s"
proof (cases "resolver env (world f) (step_agent s)")
  case (Some p)
  from spent_iterations [of rid s "to_lowercase u" "fst p" "snd p" "unat n" 0 f] Some
  show ?thesis by (cases p) (auto simp: run_loop_def split: prod.split option.split)
qed (simp add: run_loop_def)

lemma spent_continue:
  assumes "spent (world (snd o')) \<le> n"
    and "\<And>f'. o' = (None, f') \<Longrightarrow> spent (world (snd (k f'))) \<le> spent (world f') + m"
  shows "spent (world (snd (case o' of (Some e, f') \<Rightarrow> (Some e, f') | (None, f') \<Rightarrow> k f'))) \<le> n + m"
proof (cases o')
  case (Pair x f')
  with assms(1) assms(2) [of f'] show ?thesis by (cases x) force+
qed

lemma budget_fan_out:
  "sum_list (map step_budget ss) =
     length (takeWhile (\<lambda>t. mode t = FanOut) ss) + sum_list (map step_budget (dropWhile (\<lambda>t. mode t = FanOut) ss))"
  by (induction ss) (auto simp: step_budget_def)

lemma spent_steps:
  "spent (world (snd (execute_steps env rid ss f))) \<le> spent (world f) + sum_list (map step_budget ss)"
proof (induction "length ss" arbitrary: ss f rule: less_induct)
  case less
  show ?case
  proof (cases ss)
    case (Cons s rest)
    have IH: "spent (world (snd (execute_steps env rid ts g))) \<le> spent (world g) + sum_list (map step_budget ts)"
      if "length ts \<le> length rest" for ts g
      using less [of ts g] that Cons by simp
    show ?thesis
    proof (cases "mode s")
      case Sequential
      show ?thesis unfolding Cons list.map sum_list.Cons add.assoc [symmetric]
        by (subst execute_steps.simps, simp only: Sequential step_mode.case)
           (rule spent_continue, use spent_single IH in \<open>auto simp: step_budget_def Sequential\<close>)
    next
      case FanOut
      have "sum_list (map step_budget (s # rest)) =
          length (s # takeWhile (\<lambda>t. mode t = FanOut) rest) + sum_list (map step_budget (dropWhile (\<lambda>t. mode t = FanOut) rest))"
        using budget_fan_out [of rest] by (simp add: step_budget_def FanOut)
      then show ?thesis unfolding Cons
        by (simp only: add.assoc [symmetric])
           (subst execute_steps.simps, simp only: FanOut step_mode.case,
            rule spent_continue [OF spent_fan_out], rule IH, rule length_dropWhile_le)
    next
      case Collect
      have "world (run_collect s f) = world f" by (simp add: run_collect_def Let_def)
      with IH [of rest "run_collect s f"] show ?thesis
        by (simp add: Cons execute_steps.simps(2) Collect step_budget_def)
    next
      case (Conditional c)
      show ?thesis
      proof (cases "str_contains (to_lowercase (current_input f)) (to_lowercase c)")
        case True
        show ?thesis unfolding Cons list.map sum_list.Cons add.assoc [symmetric]
          by (subst execute_steps.simps, simp only: Conditional step_mode.case True not_True_eq_False if_False)
             (rule spent_continue, use spent_single IH in \<open>auto simp: step_budget_def Conditional\<close>)
      next
        case False
        with IH [of rest f] show ?thesis by (simp add: Cons execute_steps.simps(2) Conditional step_budget_def)
      qed
    next
      case (Loop n u)
      show ?thesis unfolding Cons list.map sum_list.Cons add.assoc [symmetric]
        by (subst execute_steps.simps, simp only: Loop step_mode.case)
           (rule spent_continue, use spent_loop IH in \<open>auto simp: step_budget_def Loop\<close>)
    qed
  qed simp
qed

end

text \<open>The world paired with the number of messages sent into it.\<close>

definition counting :: "'w flow_env \<Rightarrow> ('w \<times> nat) flow_env" where
  "counting env =
     \<lparr>send = (\<lambda>w a p. let (r, w') = send env (fst w) a p in (r, (w', snd w + 1))),
      resolver = (\<lambda>w ag. resolver env (fst w) ag),
      millis = (\<lambda>w w'. millis env (fst w) (fst w')),
      clock = (\<lambda>w. clock env (fst w)),
      agent_text = agent_text env\<rparr>"

interpretation counted_env: metered "counting env" snd for env
  by unfold_locales (simp add: counting_def case_prod_beta)

section \<open>Eviction\<close>

lemma length_dm_remove:
  "dm_wf m \<Longrightarrow> k \<in> set (dm_keys m) \<Longrightarrow> length (dm_remove k m) = length m - 1"
proof (induction m)
  case (Cons p m)
  obtain j v where p: "p = (j, v)" by force
  show ?case
  proof (cases "j = k")
    case True
    with Cons.prems have "dm_remove k m = m"
      by (simp add: p dm_wf_def dm_remove_def delete_id)
    with True show ?thesis by (simp add: p dm_remove_def)
  next
    case False
    with Cons show ?thesis
      by (cases m) (auto simp: p dm_remove_def dm_wf_def dm_keys_def)
  qed
qed (simp add: dm_keys_def)

lemma length_fold_remove:
  "dm_wf m \<Longrightarrow> distinct ks \<Longrightarrow> set ks \<subseteq> set (dm_keys m) \<Longrightarrow>
    length (fold dm_remove ks m) = length m - length ks"
proof (induction ks arbitrary: m)
  case (Cons k ks)
  have "set ks \<subseteq> set (dm_keys (dm_remove k m))"
    using Cons.prems(2,3) by (auto simp: dm_keys_get subset_iff)
  with Cons length_dm_remove [of m k] show ?case by simp
qed simp

definition evictable_ids :: "(uuid, workflow_run) dashmap \<Rightarrow> uuid list" where
  "evictable_ids rs = map fst (sort_key snd (map (\<lambda>(i, r). (i, started_at r)) (filter (\<lambda>(_, r). finished (run_state r)) rs)))"

lemma evict_runs_ids:
  "evict_runs rs = (if length rs > MAX_RETAINED_RUNS
     then fold dm_remove (take (length rs - MAX_RETAINED_RUNS) (evictable_ids rs)) rs else rs)"
proof -
  have "fold (\<lambda>(i, _). dm_remove i) xs rs = fold dm_remove (map fst xs) rs" for xs :: "(uuid \<times> instant) list"
    by (induction xs arbitrary: rs) auto
  then show ?thesis by (simp add: evict_runs_def evictable_ids_def Let_def take_map)
qed

lemma set_evictable: "set (evictable_ids rs) = {i. \<exists>r. (i, r) \<in> set rs \<and> finished (run_state r)}"
  by (force simp: evictable_ids_def)

lemma distinct_evictable: "dm_wf rs \<Longrightarrow> distinct (evictable_ids rs)"
proof -
  assume "dm_wf rs"
  then have "distinct (map fst (filter (\<lambda>(_, r). finished (run_state r)) rs))"
    by (simp add: dm_wf_def distinct_map_filter)
  moreover have "mset (evictable_ids rs) = mset (map fst (filter (\<lambda>(_, r). finished (run_state r)) rs))"
    by (simp add: evictable_ids_def case_prod_beta comp_def image_mset.compositionality flip: mset_filter)
  ultimately show ?thesis by (metis mset_eq_imp_distinct_iff)
qed

lemma evict_keeps:
  assumes "dm_wf rs" "dm_get rs i = Some r" "\<not> finished (run_state r)"
  shows "dm_get (evict_runs rs) i = Some r"
proof -
  have "i \<notin> set (evictable_ids rs)"
    using assms dm_in_get [OF assms(1)] by (fastforce simp: set_evictable)
  then show ?thesis
    using assms(2) by (auto simp: evict_runs_ids dm.fold_drop_lookup dest: in_set_takeD)
qed

lemma evict_bound:
  assumes "dm_wf rs"
  shows "length (evict_runs rs) \<le> MAX_RETAINED_RUNS
    \<or> filter (\<lambda>r. finished (run_state r)) (dm_values (evict_runs rs)) = []"
proof (cases "length rs > MAX_RETAINED_RUNS \<and> length (evictable_ids rs) < length rs - MAX_RETAINED_RUNS")
  case True
  then have e: "evict_runs rs = fold dm_remove (evictable_ids rs) rs"
    by (simp add: evict_runs_ids)
  have wf: "dm_wf (fold dm_remove ks m)" if "dm_wf m" for ks and m :: "(uuid, workflow_run) dashmap"
    using that by (induction ks arbitrary: m) simp_all
  have "\<not> finished (run_state r)" if "(i, r) \<in> set (evict_runs rs)" for i r
  proof -
    have "dm_get (evict_runs rs) i = Some r"
      using that wf [OF assms] by (simp add: e dm_in_get)
    then have "i \<notin> set (evictable_ids rs)" "dm_get rs i = Some r"
      by (auto simp: e dm.fold_drop_lookup split: if_splits)
    then show ?thesis using dm_get_in by (fastforce simp: set_evictable)
  qed
  then show ?thesis by (auto simp: dm_values_def filter_empty_conv)
next
  case False
  have "set (take n (evictable_ids rs)) \<subseteq> set (dm_keys rs)" for n
    using set_evictable [of rs] by (force simp: dm_keys_def dest: in_set_takeD)
  then show ?thesis
    using False length_fold_remove [OF assms] distinct_evictable [OF assms]
    by (auto simp: evict_runs_ids)
qed

section \<open>Properties\<close>

text \<open>
  C2: a run ends in the state its result says, up to two exceptions. After \<open>execute_run\<close> a
  success leaves the run completed with that output. An error leaves it failed with that error, or
  running, and the latter only if the workflow is unknown or the error is that an agent was not
  found. An unknown run changes nothing, and no other run ever changes.
\<close>

theorem execute_run_final_state:
  "case execute_run env e rid w of (result, e', w') \<Rightarrow>
     others_same rid (runs e) (runs e')
     \<and> (case dm_get (runs e) rid of
          None \<Rightarrow> result = Inl ''Workflow run not found'' \<and> e' = e
        | Some r \<Rightarrow>
            (case result of
               Inr out \<Rightarrow> (\<exists>r'. get_run e' rid = Some r' \<and> run_state r' = Completed \<and> run_output r' = Some out)
             | Inl err \<Rightarrow> failed_with rid err (runs e')
                 \<or> live rid (runs e') \<and> (dm_get (workflows e) (run_workflow_id r) = None \<or> (\<exists>s. err = not_found s))))"
proof (cases "dm_get (runs e) rid")
  case None
  then show ?thesis by (simp add: execute_run_def others_same_def)
next
  case (Some r)
  let ?rs = "dm_modify rid (\<lambda>r. r\<lparr>run_state := Running\<rparr>) (runs e)"
  have l: "live rid ?rs" and o: "others_same rid (runs e) ?rs"
    using Some by (simp_all add: live_def others_same_def)
  show ?thesis
  proof (cases "dm_get (workflows e) (run_workflow_id r)")
    case None
    then show ?thesis using Some l o by (simp add: execute_run_def Let_def)
  next
    case wf: (Some wflow)
    let ?f = "\<lparr>fl_runs = ?rs, current_input = run_input r, all_outputs = [], variables = [], world = w\<rparr>"
    have o': "step_outcome rid (runs e) (execute_steps env rid (wf_steps wflow) ?f)"
      using execute_steps_outcome [of rid ?f env "wf_steps wflow"] step_outcome_trans l o by fastforce
    obtain x f where x: "execute_steps env rid (wf_steps wflow) ?f = (x, f)" by force
    show ?thesis
    proof (cases x)
      case None
      with o' x have f: "live rid (fl_runs f)" "others_same rid (runs e) (fl_runs f)"
        by (simp_all add: step_outcome_def)
      from f(1) obtain q where "dm_get (fl_runs f) rid = Some q"
        by (auto simp: live_def split: option.splits)
      with Some wf None x f(2) show ?thesis
        by (auto simp: execute_run_def Let_def get_run_def others_same_def)
    next
      case (Some err)
      with \<open>dm_get (runs e) rid = Some r\<close> wf x o' show ?thesis
        by (auto simp: execute_run_def Let_def step_outcome_def)
    qed
  qed
qed

definition example_step :: workflow_step where
  "example_step = \<lparr>step_name = ''draft'', step_agent = ByName ''writer'', prompt_template = ''{{input}}'',
     mode = Sequential, step_timeout_secs = 120, error_mode = Fail, output_var = None\<rparr>"

definition example_env :: "nat flow_env" where
  "example_env = \<lparr>send = (\<lambda>w a p. (Replied p 1 1, w + 1)), resolver = (\<lambda>w ag. if ag = ByName ''writer'' then Some (1, ''writer'') else None),
     millis = (\<lambda>_ _. 0), clock = id, agent_text = (\<lambda>_. ''1'')\<rparr>"

definition example_engine :: "workflow_step list \<Rightarrow> workflow_engine" where
  "example_engine ss = fst (create_run 5 0 (fst (register_workflow new_engine
     \<lparr>wf_id = 3, wf_name = ''w'', wf_description = [], wf_steps = ss, wf_created_at = 0\<rparr>)) 3 ''hi'')"

lemma example_engine_run:
  "dm_get (runs (example_engine ss)) 5 = Some \<lparr>run_id = 5, run_workflow_id = 3, run_workflow_name = ''w'',
     run_input = ''hi'', run_state = Pending, step_results = [], run_output = None, run_error = None,
     started_at = 0, completed_at = None\<rparr>"
  "dm_get (workflows (example_engine ss)) 3 = Some
     \<lparr>wf_id = 3, wf_name = ''w'', wf_description = [], wf_steps = ss, wf_created_at = 0\<rparr>"
  by (simp_all add: example_engine_def create_run_def register_workflow_def new_engine_def evict_runs_def
      MAX_RETAINED_RUNS_def dm_insert_def dm_get_def)

theorem execute_run_final_state_witness:
  "\<exists>r'. get_run (fst (snd (execute_run example_env (example_engine []) 5 0))) 5 = Some r'
     \<and> run_state r' = Completed \<and> run_output r' = Some ''hi''"
proof -
  have "fst (execute_run example_env (example_engine []) 5 0) = Inr ''hi''"
    by (simp add: execute_run_def example_engine_run)
  then show ?thesis
    using execute_run_final_state [where env = example_env and e = "example_engine []" and rid = 5 and w = 0]
    by (auto simp: example_engine_run split: prod.splits)
qed

text \<open>
  C34: a run is finite and bounded. \<open>execute_run\<close> always ends, and it sends at most as many
  messages as the steps allow: one per step, one more per retry, times the iterations of a loop.
\<close>

theorem execute_run_message_budget:
  "snd (snd (snd (execute_run (counting env) e rid (w, 0)))) \<le>
     (case dm_get (runs e) rid of
        None \<Rightarrow> 0
      | Some r \<Rightarrow> (case dm_get (workflows e) (run_workflow_id r) of
                     None \<Rightarrow> 0
                   | Some wflow \<Rightarrow> sum_list (map step_budget (wf_steps wflow))))"
proof -
  have "snd (world (snd (execute_steps (counting env) rid ss f))) \<le> sum_list (map step_budget ss)"
    if "snd (world f) = 0" for ss and f :: "('a \<times> nat) flow"
    using counted_env.spent_steps [of env rid ss f] that by simp
  note bound = this
  show ?thesis
    by (auto simp: execute_run_def Let_def split: option.split prod.split)
       (metis bound flow.select_convs(5) snd_conv)+
qed

text \<open>
  Eviction. Starting a run keeps every run that is pending or running, and leaves at most
  two hundred runs unless all that are left are pending or running.
\<close>

theorem create_run_evicts_only_finished:
  assumes "dm_wf (runs e)" and "create_run new_id now e wid inp = (e', Some new_id)"
  shows "(length (runs e') \<le> MAX_RETAINED_RUNS
      \<or> filter (\<lambda>r. finished (run_state r)) (dm_values (runs e')) = [])
    \<and> (case dm_get (runs e) i of
         Some r \<Rightarrow> i = new_id \<or> finished (run_state r) \<or> get_run e' i = Some r
       | None \<Rightarrow> True)"
proof -
  obtain r0 where e': "runs e' = evict_runs (dm_insert new_id r0 (runs e))"
    using assms(2) by (auto simp: create_run_def split: option.splits)
  have wf': "dm_wf (dm_insert new_id r0 (runs e))" using assms(1) by simp
  show ?thesis
    using evict_bound [OF wf'] evict_keeps [OF wf', of i]
    by (cases "dm_get (runs e) i") (auto simp: e' get_run_def intro: ccontr)
qed

theorem create_run_evicts_only_finished_witness:
  "get_run (fst (create_run 6 1 (example_engine []) 3 ''again'')) 5 \<noteq> None"
proof -
  have wf': "dm_wf (runs (example_engine []))"
    by (simp add: example_engine_def create_run_def register_workflow_def new_engine_def evict_runs_def
        MAX_RETAINED_RUNS_def dm_insert_def dm_get_def dm_wf_def)
  have "create_run 6 1 (example_engine []) 3 ''again'' = (fst (create_run 6 1 (example_engine []) 3 ''again''), Some 6)"
    by (simp add: create_run_def example_engine_run)
  from create_run_evicts_only_finished [OF wf' this, of 5] show ?thesis
    by (simp add: example_engine_run)
qed

text \<open>
  A run whose agent is not found is never finished. The early return leaves it running, with
  no error, and since only completed and failed runs are evicted it stays in the map for good.
\<close>

theorem missing_agent_leaves_run_running:
  assumes "dm_get (runs e) rid = Some r" "dm_get (workflows e) (run_workflow_id r) = Some wflow"
    and "wf_steps wflow = s # ss" "mode s = Sequential" "resolver env w (step_agent s) = None"
  shows "fst (execute_run env e rid w) = Inl (not_found s)
    \<and> get_run (fst (snd (execute_run env e rid w))) rid = Some (r\<lparr>run_state := Running\<rparr>)"
  using assms by (simp add: execute_run_def Let_def execute_steps.simps(2) run_single_def get_run_def)

theorem missing_agent_leaves_run_running_witness:
  "fst (execute_run example_env (example_engine [example_step\<lparr>step_agent := ByName ''nobody''\<rparr>]) 5 0)
     = Inl (not_found (example_step\<lparr>step_agent := ByName ''nobody''\<rparr>))"
  by (rule missing_agent_leaves_run_running [where ss = "[]" and wflow = "\<lparr>wf_id = 3, wf_name = ''w'', wf_description = [],
        wf_steps = [example_step\<lparr>step_agent := ByName ''nobody''\<rparr>], wf_created_at = 0\<rparr>",
        THEN conjunct1, OF example_engine_run(1)])
     (simp_all add: example_engine_run example_step_def example_env_def)

end
