(* ===== verification/Events.thy ===== *)
theory Events
  imports StrUtils
begin

text \<open>
  The events of the internal bus, \<open>openfang-types/src/event.rs\<close>, and their descriptions for
  prompts (\<open>describe_event\<close> in \<open>openfang-kernel/src/triggers.rs\<close>). How UUIDs, floats and
  derived \<open>Debug\<close> values print is the parameter \<open>formats\<close>.
\<close>

datatype event_target = ToAgent uuid | Broadcast | ToPattern string | ToSystem

datatype message_role = UserRole | AgentRole | SystemRole | ToolRole

record agent_message =
  msg_content :: string
  msg_metadata :: "(string, json) dashmap"
  msg_role :: message_role

record tool_output =
  out_tool_id :: string
  out_tool_use_id :: string
  out_content :: string
  out_success :: bool
  execution_time_ms :: u64

datatype memory_operation = Created | Updated | Deleted

record memory_delta =
  operation :: memory_operation
  delta_key :: string
  delta_agent_id :: uuid

datatype lifecycle_event =
    Spawned uuid string
  | Started uuid
  | Suspended uuid
  | Resumed uuid
  | Terminated uuid string
  | Crashed uuid string

datatype network_event =
    PeerConnected string
  | PeerDisconnected string
  | MessageReceived string string
  | DiscoveryResult string "string list"

datatype system_event =
    KernelStarted
  | KernelStopping
  | QuotaWarning uuid string f64
  | HealthCheck string
  | QuotaEnforced uuid f64 f64
  | ModelRouted uuid string string
  | UserAction string string string
  | HealthCheckFailed uuid u64
  | CronJobExecuted uuid string string string string bool

datatype event_payload =
    MessageEvent agent_message
  | ToolResultEvent tool_output
  | MemoryUpdateEvent memory_delta
  | LifecycleEvent lifecycle_event
  | NetworkEvent network_event
  | SystemEvent system_event
  | CustomEvent "u8 list"

record event =
  event_id :: uuid
  event_source :: uuid
  event_target :: event_target
  payload :: event_payload
  event_timestamp :: instant
  correlation_id :: "uuid option"
  ttl :: "duration option"

text \<open>The fresh id and the time are arguments.\<close>

definition new_event :: "uuid \<Rightarrow> instant \<Rightarrow> uuid \<Rightarrow> event_target \<Rightarrow> event_payload \<Rightarrow> event" where
  "new_event i now source target p =
     \<lparr>event_id = i, event_source = source, event_target = target, payload = p, event_timestamp = now,
      correlation_id = None, ttl = None\<rparr>"

definition with_correlation :: "event \<Rightarrow> uuid \<Rightarrow> event" where
  "with_correlation e i = e\<lparr>correlation_id := Some i\<rparr>"

definition with_ttl :: "event \<Rightarrow> duration \<Rightarrow> event" where
  "with_ttl e d = e\<lparr>ttl := Some d\<rparr>"

section \<open>Descriptions\<close>

record formats =
  show_uuid :: "uuid \<Rightarrow> string"
  show_fixed :: "nat \<Rightarrow> f64 \<Rightarrow> string"
  debug_role :: "message_role \<Rightarrow> string"
  debug_operation :: "memory_operation \<Rightarrow> string"
  debug_network :: "network_event \<Rightarrow> string"
  debug_system :: "system_event \<Rightarrow> string"

fun describe_lifecycle :: "formats \<Rightarrow> lifecycle_event \<Rightarrow> string" where
  "describe_lifecycle fm (Spawned a name) = ''Agent '' @ in_quotes name @ '' (id: '' @ show_uuid fm a @ '') was spawned''"
| "describe_lifecycle fm (Started a) = ''Agent '' @ show_uuid fm a @ '' started''"
| "describe_lifecycle fm (Suspended a) = ''Agent '' @ show_uuid fm a @ '' suspended''"
| "describe_lifecycle fm (Resumed a) = ''Agent '' @ show_uuid fm a @ '' resumed''"
| "describe_lifecycle fm (Terminated a reason) = ''Agent '' @ show_uuid fm a @ '' terminated: '' @ reason"
| "describe_lifecycle fm (Crashed a err) = ''Agent '' @ show_uuid fm a @ '' crashed: '' @ err"

fun describe_system :: "formats \<Rightarrow> system_event \<Rightarrow> string" where
  "describe_system fm KernelStarted = ''Kernel started''"
| "describe_system fm KernelStopping = ''Kernel stopping''"
| "describe_system fm (QuotaWarning a resource pct) =
     ''Quota warning: agent '' @ show_uuid fm a @ '', '' @ resource @ '' at '' @ show_fixed fm 1 pct @ ''%''"
| "describe_system fm (HealthCheck status) = ''Health check: '' @ status"
| "describe_system fm (QuotaEnforced a spent limit) =
     ''Quota enforced: agent '' @ show_uuid fm a @ '', spent $'' @ show_fixed fm 4 spent @ '' / $'' @ show_fixed fm 4 limit"
| "describe_system fm (ModelRouted a complexity model) =
     ''Model routed: agent '' @ show_uuid fm a @ '', complexity='' @ complexity @ '', model='' @ model"
| "describe_system fm (UserAction user action result) =
     ''User action: '' @ user @ '' '' @ action @ '' -> '' @ result"
| "describe_system fm (HealthCheckFailed a secs) =
     ''Health check failed: agent '' @ show_uuid fm a @ '', unresponsive for '' @ show_word secs @ ''s''"
| "describe_system fm (CronJobExecuted a job_id job_name _ _ _) =
     ''Cron job executed: '' @ job_name @ '' ('' @ job_id @ '') for agent '' @ show_uuid fm a"

definition describe_event :: "formats \<Rightarrow> event \<Rightarrow> string" where
  "describe_event fm e =
     (case payload e of
        MessageEvent m \<Rightarrow> ''Message from '' @ debug_role fm (msg_role m) @ '': '' @ msg_content m
      | ToolResultEvent t \<Rightarrow>
          ''Tool '' @ in_quotes (out_tool_id t) @ '' '' @ (if out_success t then ''succeeded'' else ''failed'')
          @ '' ('' @ show_word (execution_time_ms t) @ ''ms): '' @ safe_truncate_str (out_content t) 200
      | MemoryUpdateEvent d \<Rightarrow>
          ''Memory '' @ debug_operation fm (operation d) @ '' on key '' @ in_quotes (delta_key d)
          @ '' for agent '' @ show_uuid fm (delta_agent_id d)
      | LifecycleEvent le \<Rightarrow> describe_lifecycle fm le
      | NetworkEvent ne \<Rightarrow> ''Network event: '' @ debug_network fm ne
      | SystemEvent se \<Rightarrow> describe_system fm se
      | CustomEvent data \<Rightarrow> ''Custom event ('' @ show_nat (length data) @ '' bytes)'')"

end
