(* ===== verification/Triggers.thy ===== *)
theory Triggers
  imports Events
begin

text \<open>
  Event triggers: \<open>openfang-kernel/src/triggers.rs\<close>. The engine keeps the triggers and, per
  agent, the list of its trigger ids. Fresh ids are arguments.
\<close>

section \<open>The engine\<close>

datatype trigger_pattern =
    Lifecycle
  | AgentSpawned string
  | AgentTerminated
  | SystemAny
  | SystemKeyword string
  | MemoryUpdate
  | MemoryKeyPattern string
  | AllEvents
  | ContentMatch string

record trigger =
  trigger_id :: uuid
  trigger_agent :: uuid
  pattern :: trigger_pattern
  trigger_template :: string
  enabled :: bool
  trigger_created_at :: instant
  fire_count :: u64
  max_fires :: u64

record trigger_engine =
  triggers :: "(uuid, trigger) dashmap"
  agent_triggers :: "(uuid, uuid list) dashmap"

definition new_trigger_engine :: trigger_engine where
  "new_trigger_engine = \<lparr>triggers = [], agent_triggers = []\<rparr>"

definition add_trigger :: "trigger \<Rightarrow> trigger_engine \<Rightarrow> trigger_engine" where
  "add_trigger t g =
     g\<lparr>triggers := dm_insert (trigger_id t) t (triggers g),
       agent_triggers := dm_insert (trigger_agent t)
         (dm_entry (agent_triggers g) (trigger_agent t) [] @ [trigger_id t]) (agent_triggers g)\<rparr>"

definition register_trigger ::
  "uuid \<Rightarrow> instant \<Rightarrow> trigger_engine \<Rightarrow> uuid \<Rightarrow> trigger_pattern \<Rightarrow> string \<Rightarrow> u64 \<Rightarrow> trigger_engine" where
  "register_trigger i now g agent p tmpl max_n =
     add_trigger \<lparr>trigger_id = i, trigger_agent = agent, pattern = p, trigger_template = tmpl,
       enabled = True, trigger_created_at = now, fire_count = 0, max_fires = max_n\<rparr> g"

definition remove_trigger :: "trigger_engine \<Rightarrow> uuid \<Rightarrow> trigger_engine \<times> bool" where
  "remove_trigger g i =
     (case dm_get (triggers g) i of
        Some t \<Rightarrow>
          (g\<lparr>triggers := dm_remove i (triggers g),
             agent_triggers := dm_modify (trigger_agent t) (filter (\<lambda>j. j \<noteq> i)) (agent_triggers g)\<rparr>, True)
      | None \<Rightarrow> (g, False))"

definition remove_agent_triggers :: "trigger_engine \<Rightarrow> uuid \<Rightarrow> trigger_engine" where
  "remove_agent_triggers g a =
     (case dm_get (agent_triggers g) a of
        Some ids \<Rightarrow> g\<lparr>agent_triggers := dm_remove a (agent_triggers g),
                     triggers := fold dm_remove ids (triggers g)\<rparr>
      | None \<Rightarrow> g)"

fun take_ids :: "uuid list \<Rightarrow> (uuid, trigger) dashmap \<Rightarrow> trigger list \<times> (uuid, trigger) dashmap" where
  "take_ids [] ts = ([], ts)"
| "take_ids (i # ids) ts =
     (case dm_get ts i of
        Some t \<Rightarrow> (let (taken, ts') = take_ids ids (dm_remove i ts) in (t # taken, ts'))
      | None \<Rightarrow> take_ids ids ts)"

definition take_agent_triggers :: "trigger_engine \<Rightarrow> uuid \<Rightarrow> trigger list \<times> trigger_engine" where
  "take_agent_triggers g a =
     (let ids = (case dm_get (agent_triggers g) a of Some ids \<Rightarrow> ids | None \<Rightarrow> []);
          (taken, ts) = take_ids ids (triggers g)
      in (taken, g\<lparr>agent_triggers := dm_remove a (agent_triggers g), triggers := ts\<rparr>))"

text \<open>The restored triggers come with the fresh ids they get.\<close>

definition restore_triggers :: "trigger_engine \<Rightarrow> uuid \<Rightarrow> (uuid \<times> trigger) list \<Rightarrow> trigger_engine \<times> nat" where
  "restore_triggers g a olds =
     (fold (\<lambda>(i, old). add_trigger (old\<lparr>trigger_id := i, trigger_agent := a\<rparr>)) olds g, length olds)"

definition reassign_agent_triggers :: "trigger_engine \<Rightarrow> uuid \<Rightarrow> uuid \<Rightarrow> trigger_engine \<times> nat" where
  "reassign_agent_triggers g old_agent new_agent =
     (let ids = (case dm_get (agent_triggers g) old_agent of Some ids \<Rightarrow> ids | None \<Rightarrow> []);
          index = dm_remove old_agent (agent_triggers g);
          ts = fold (\<lambda>i. dm_modify i (\<lambda>t. t\<lparr>trigger_agent := new_agent\<rparr>)) ids (triggers g)
      in (g\<lparr>triggers := ts,
            agent_triggers := (if ids \<noteq> [] then dm_insert new_agent (dm_entry index new_agent [] @ ids) index else index)\<rparr>,
          length ids))"

definition set_enabled :: "trigger_engine \<Rightarrow> uuid \<Rightarrow> bool \<Rightarrow> trigger_engine \<times> bool" where
  "set_enabled g i b =
     (g\<lparr>triggers := dm_modify i (\<lambda>t. t\<lparr>enabled := b\<rparr>) (triggers g)\<rparr>, dm_get (triggers g) i \<noteq> None)"

definition list_agent_triggers :: "trigger_engine \<Rightarrow> uuid \<Rightarrow> trigger list" where
  "list_agent_triggers g a =
     (case dm_get (agent_triggers g) a of
        Some ids \<Rightarrow> List.map_filter (dm_get (triggers g)) ids
      | None \<Rightarrow> [])"

definition list_all_triggers :: "trigger_engine \<Rightarrow> trigger list" where
  "list_all_triggers g = dm_values (triggers g)"

definition get_trigger :: "trigger_engine \<Rightarrow> uuid \<Rightarrow> trigger option" where
  "get_trigger g i = dm_get (triggers g) i"

section \<open>Evaluation\<close>

definition matches_event :: "formats \<Rightarrow> trigger_pattern \<Rightarrow> event \<Rightarrow> string \<Rightarrow> bool" where
  "matches_event fm p e description =
     (case p of
        AllEvents \<Rightarrow> True
      | Lifecycle \<Rightarrow> (case payload e of LifecycleEvent _ \<Rightarrow> True | _ \<Rightarrow> False)
      | AgentSpawned name_pattern \<Rightarrow>
          (case payload e of
             LifecycleEvent (Spawned _ name) \<Rightarrow> str_contains name name_pattern \<or> name_pattern = ''*''
           | _ \<Rightarrow> False)
      | AgentTerminated \<Rightarrow>
          (case payload e of
             LifecycleEvent (Terminated _ _) \<Rightarrow> True
           | LifecycleEvent (Crashed _ _) \<Rightarrow> True
           | _ \<Rightarrow> False)
      | SystemAny \<Rightarrow> (case payload e of SystemEvent _ \<Rightarrow> True | _ \<Rightarrow> False)
      | SystemKeyword keyword \<Rightarrow>
          (case payload e of
             SystemEvent se \<Rightarrow> str_contains (to_lowercase (debug_system fm se)) (to_lowercase keyword)
           | _ \<Rightarrow> False)
      | MemoryUpdate \<Rightarrow> (case payload e of MemoryUpdateEvent _ \<Rightarrow> True | _ \<Rightarrow> False)
      | MemoryKeyPattern key_pattern \<Rightarrow>
          (case payload e of
             MemoryUpdateEvent d \<Rightarrow> str_contains (delta_key d) key_pattern \<or> key_pattern = ''*''
           | _ \<Rightarrow> False)
      | ContentMatch substring \<Rightarrow> str_contains (to_lowercase description) (to_lowercase substring))"

text \<open>One trigger of the loop: its new state, and the message it sends when it fires.\<close>

definition evaluate_trigger :: "formats \<Rightarrow> event \<Rightarrow> trigger \<Rightarrow> trigger \<times> (uuid \<times> string) option" where
  "evaluate_trigger fm e t =
     (if \<not> enabled t then (t, None)
      else if max_fires t > 0 \<and> fire_count t \<ge> max_fires t then (t\<lparr>enabled := False\<rparr>, None)
      else if matches_event fm (pattern t) e (describe_event fm e)
      then (t\<lparr>fire_count := fire_count t + 1\<rparr>,
            Some (trigger_agent t, str_replace (trigger_template t) ''{{event}}'' (describe_event fm e)))
      else (t, None))"

definition evaluate :: "formats \<Rightarrow> trigger_engine \<Rightarrow> event \<Rightarrow> trigger_engine \<times> (uuid \<times> string) list" where
  "evaluate fm g e =
     (g\<lparr>triggers := map (\<lambda>(i, t). (i, fst (evaluate_trigger fm e t))) (triggers g)\<rparr>,
      List.map_filter (\<lambda>(_, t). snd (evaluate_trigger fm e t)) (triggers g))"

section \<open>Histories\<close>

datatype trigger_op =
    OpRegister uuid instant uuid trigger_pattern string u64
  | OpRemove uuid
  | OpRemoveAgent uuid
  | OpTakeRestore uuid uuid "uuid list"
  | OpReassign uuid uuid
  | OpSetEnabled uuid bool
  | OpEvaluate event

text \<open>Taking the triggers of an agent and restoring them under another, as hand reactivation does.\<close>

definition move_triggers :: "trigger_engine \<Rightarrow> uuid \<Rightarrow> uuid \<Rightarrow> uuid list \<Rightarrow> trigger_engine" where
  "move_triggers g a b new_ids =
     (let (taken, g') = take_agent_triggers g a in fst (restore_triggers g' b (zip new_ids taken)))"

fun trigger_step :: "formats \<Rightarrow> trigger_engine \<Rightarrow> trigger_op \<Rightarrow> trigger_engine" where
  "trigger_step fm g (OpRegister i now a p tmpl n) = register_trigger i now g a p tmpl n"
| "trigger_step fm g (OpRemove i) = fst (remove_trigger g i)"
| "trigger_step fm g (OpRemoveAgent a) = remove_agent_triggers g a"
| "trigger_step fm g (OpTakeRestore a b new_ids) = move_triggers g a b new_ids"
| "trigger_step fm g (OpReassign a b) = fst (reassign_agent_triggers g a b)"
| "trigger_step fm g (OpSetEnabled i b) = fst (set_enabled g i b)"
| "trigger_step fm g (OpEvaluate e) = fst (evaluate fm g e)"

text \<open>Ids are drawn fresh: a new id is no key of the engine, and the ids of one call differ.\<close>

fun fresh_ids :: "trigger_engine \<Rightarrow> trigger_op \<Rightarrow> bool" where
  "fresh_ids g (OpRegister i _ _ _ _ _) = (dm_get (triggers g) i = None)"
| "fresh_ids g (OpTakeRestore a b new_ids) =
     (distinct new_ids \<and> length new_ids = length (fst (take_agent_triggers g a))
      \<and> list_all (\<lambda>i. dm_get (triggers g) i = None) new_ids)"
| "fresh_ids g _ = True"

section \<open>The index agrees with the triggers\<close>

definition ids_of :: "trigger_engine \<Rightarrow> uuid \<Rightarrow> uuid list" where
  "ids_of g a = dm_entry (agent_triggers g) a []"

definition within_limit :: "trigger \<Rightarrow> bool" where
  "within_limit t \<longleftrightarrow> max_fires t = 0 \<or> fire_count t \<le> max_fires t"

definition index_ok :: "trigger_engine \<Rightarrow> bool" where
  "index_ok g \<longleftrightarrow>
     (\<forall>a i. i \<in> set (ids_of g a) \<longleftrightarrow> (\<exists>t. dm_get (triggers g) i = Some t \<and> trigger_agent t = a))
     \<and> (\<forall>a. distinct (ids_of g a))"

definition engine_inv :: "trigger_engine \<Rightarrow> bool" where
  "engine_inv g \<longleftrightarrow> dm_wf (triggers g) \<and> index_ok g \<and>
     (\<forall>i t. dm_get (triggers g) i = Some t \<longrightarrow> trigger_id t = i \<and> within_limit t)"

lemma dm_get_map: "dm_get (map (\<lambda>(i, t). (i, f t)) m) k = map_option f (dm_get m k)"
  by (simp add: dm_get_def map_of_map)

lemma dm_wf_map: "dm_wf (map (\<lambda>(i, t). (i, f t)) m) = dm_wf m"
  by (simp add: dm_wf_def case_prod_beta comp_def)

lemma dm_wf_fold_remove: "dm_wf m \<Longrightarrow> dm_wf (fold dm_remove ks m)"
  by (induction ks arbitrary: m) simp_all

lemma dm_wf_fold_modify: "dm_wf m \<Longrightarrow> dm_wf (fold (\<lambda>i. dm_modify i f) ks m)"
  by (induction ks arbitrary: m) simp_all

lemma inv_entry:
  "engine_inv g \<Longrightarrow> dm_get (triggers g) i = Some t \<Longrightarrow> trigger_id t = i \<and> within_limit t"
  by (simp add: engine_inv_def)

lemma inv_index:
  "engine_inv g \<Longrightarrow> i \<in> set (ids_of g a) \<longleftrightarrow> (\<exists>t. dm_get (triggers g) i = Some t \<and> trigger_agent t = a)"
  by (simp add: engine_inv_def index_ok_def)

lemma ids_disjoint:
  "index_ok g \<Longrightarrow> a \<noteq> b \<Longrightarrow> set (ids_of g a) \<inter> set (ids_of g b) = {}"
  by (auto simp: index_ok_def)

lemma inv_add:
  assumes inv: "engine_inv g" and fresh: "dm_get (triggers g) (trigger_id t) = None" and lim: "within_limit t"
  shows "engine_inv (add_trigger t g)"
proof -
  have ids: "ids_of (add_trigger t g) a = ids_of g a @ (if a = trigger_agent t then [trigger_id t] else [])" for a
    by (simp add: ids_of_def add_trigger_def dm_entry_def)
  have new: "trigger_id t \<notin> set (ids_of g a)" for a
    using inv fresh by (simp add: engine_inv_def index_ok_def)
  have "index_ok (add_trigger t g)"
    using inv fresh new unfolding index_ok_def ids engine_inv_def
    by (auto simp: add_trigger_def)
  then show ?thesis
    using inv lim by (auto simp: engine_inv_def add_trigger_def)
qed

lemma inv_restore:
  assumes "engine_inv g" "distinct ns" "\<forall>i\<in>set ns. dm_get (triggers g) i = None"
    and "\<forall>t\<in>set ts. within_limit t"
  shows "engine_inv (fold (\<lambda>(i, old). add_trigger (old\<lparr>trigger_id := i, trigger_agent := a\<rparr>)) (zip ns ts) g)"
  using assms
proof (induction ns arbitrary: ts g)
  case (Cons i ns)
  show ?case
  proof (cases ts)
    case Nil
    then show ?thesis using Cons.prems by simp
  next
    case ts: (Cons t ts')
    let ?g = "add_trigger (t\<lparr>trigger_id := i, trigger_agent := a\<rparr>) g"
    have "engine_inv ?g"
      using Cons.prems ts by (intro inv_add) (auto simp: within_limit_def)
    moreover have "\<forall>j\<in>set ns. dm_get (triggers ?g) j = None"
      using Cons.prems by (auto simp: add_trigger_def)
    ultimately show ?thesis
      using Cons.IH [of ?g ts'] Cons.prems ts by simp
  qed
qed simp

lemma inv_remove: "engine_inv g \<Longrightarrow> engine_inv (fst (remove_trigger g i))"
proof (cases "dm_get (triggers g) i")
  case (Some t)
  assume inv: "engine_inv g"
  have ids: "ids_of (fst (remove_trigger g i)) a = filter (\<lambda>j. j \<noteq> i) (ids_of g a)" for a
  proof (cases "a = trigger_agent t")
    case False
    have "i \<notin> set (ids_of g a)"
      using inv Some False by (auto simp: engine_inv_def index_ok_def)
    then have "filter (\<lambda>j. j \<noteq> i) (ids_of g a) = ids_of g a"
      by (auto simp: filter_id_conv)
    with False Some show ?thesis
      by (simp add: ids_of_def remove_trigger_def dm_entry_def)
  qed (use Some in \<open>simp add: ids_of_def remove_trigger_def dm_entry_def split: option.split\<close>)
  have "index_ok (fst (remove_trigger g i))"
    using inv Some unfolding index_ok_def ids engine_inv_def by (auto simp: remove_trigger_def)
  with inv Some show ?thesis by (auto simp: engine_inv_def remove_trigger_def split: if_splits)
qed (simp add: remove_trigger_def)

lemma drop_agent_inv:
  assumes inv: "engine_inv g"
    and get: "\<And>j. dm_get ts j = (if j \<in> set (ids_of g a) then None else dm_get (triggers g) j)"
    and wf': "dm_wf ts"
  shows "engine_inv (g\<lparr>agent_triggers := dm_remove a (agent_triggers g), triggers := ts\<rparr>)"
proof -
  have ids: "ids_of (g\<lparr>agent_triggers := dm_remove a (agent_triggers g), triggers := ts\<rparr>) b
      = (if b = a then [] else ids_of g b)" for b
    by (simp add: ids_of_def dm_entry_def)
  have "index_ok (g\<lparr>agent_triggers := dm_remove a (agent_triggers g), triggers := ts\<rparr>)"
    using inv unfolding index_ok_def ids engine_inv_def by (auto simp: get split: if_splits)
  with inv wf' show ?thesis by (auto simp: engine_inv_def get split: if_splits)
qed

lemma inv_remove_agent: "engine_inv g \<Longrightarrow> engine_inv (remove_agent_triggers g a)"
proof (cases "dm_get (agent_triggers g) a")
  case (Some ids)
  assume inv: "engine_inv g"
  have "ids_of g a = ids" by (simp add: ids_of_def dm_entry_def Some)
  with inv Some drop_agent_inv [OF inv, of "fold dm_remove ids (triggers g)" a] show ?thesis
    by (simp add: remove_agent_triggers_def dm.fold_drop_lookup dm_wf_fold_remove engine_inv_def)
qed (simp add: remove_agent_triggers_def)

lemma take_ids_props:
  "dm_get (snd (take_ids ids ts)) j = (if j \<in> set ids then None else dm_get ts j)"
  "dm_wf ts \<Longrightarrow> dm_wf (snd (take_ids ids ts))"
  "t \<in> set (fst (take_ids ids ts)) \<Longrightarrow> \<exists>i. dm_get ts i = Some t"
  by (induction ids ts rule: take_ids.induct)
     (auto simp: case_prod_beta split: option.splits if_splits)

lemma inv_take:
  assumes inv: "engine_inv g"
  shows "engine_inv (snd (take_agent_triggers g a))"
    and "\<forall>t\<in>set (fst (take_agent_triggers g a)). within_limit t"
proof -
  have ids: "(case dm_get (agent_triggers g) a of Some ids \<Rightarrow> ids | None \<Rightarrow> []) = ids_of g a"
    by (simp add: ids_of_def dm_entry_def split: option.split)
  show "engine_inv (snd (take_agent_triggers g a))"
    using drop_agent_inv [OF inv, of "snd (take_ids (ids_of g a) (triggers g))" a] inv
    by (simp add: take_agent_triggers_def ids Let_def case_prod_beta take_ids_props engine_inv_def)
  show "\<forall>t\<in>set (fst (take_agent_triggers g a)). within_limit t"
    using inv take_ids_props(3) [of _ "ids_of g a" "triggers g"]
    by (auto simp: take_agent_triggers_def ids Let_def case_prod_beta engine_inv_def)
qed

lemma inv_move:
  assumes inv: "engine_inv g" and fresh: "fresh_ids g (OpTakeRestore a b new_ids)"
  shows "engine_inv (move_triggers g a b new_ids)"
proof -
  have "\<forall>i\<in>set new_ids. dm_get (triggers (snd (take_agent_triggers g a))) i = None"
    using fresh by (auto simp: take_agent_triggers_def Let_def case_prod_beta take_ids_props list_all_iff)
  then show ?thesis
    using inv_restore [OF inv_take(1) [OF inv], where ns = new_ids and ts = "fst (take_agent_triggers g a)" and a = b]
      inv_take(2) [OF inv] fresh
    by (simp add: move_triggers_def restore_triggers_def case_prod_beta)
qed

lemma fold_modify_get:
  "distinct ids \<Longrightarrow> dm_get (fold (\<lambda>i. dm_modify i f) ids m) j =
     (if j \<in> set ids then map_option f (dm_get m j) else dm_get m j)"
  by (induction ids arbitrary: m) auto

lemma inv_reassign: "engine_inv g \<Longrightarrow> engine_inv (fst (reassign_agent_triggers g a b))"
proof -
  assume inv: "engine_inv g"
  let ?ids = "ids_of g a" let ?g = "fst (reassign_agent_triggers g a b)"
  have dis: "distinct ?ids" using inv by (simp add: engine_inv_def index_ok_def)
  have ids: "(case dm_get (agent_triggers g) a of Some ids \<Rightarrow> ids | None \<Rightarrow> []) = ?ids"
    by (simp add: ids_of_def dm_entry_def split: option.split)
  have get: "dm_get (triggers ?g) j =
      (if j \<in> set ?ids then map_option (\<lambda>t. t\<lparr>trigger_agent := b\<rparr>) (dm_get (triggers g) j) else dm_get (triggers g) j)" for j
    by (simp add: reassign_agent_triggers_def ids Let_def fold_modify_get [OF dis])
  have ids': "ids_of ?g c = (if c = b then (if a = b then [] else ids_of g b) @ ?ids else if c = a then [] else ids_of g c)" for c
    by (auto simp: reassign_agent_triggers_def ids Let_def) (auto simp: ids_of_def dm_entry_def)
  have mem: "i \<in> set (ids_of g c) \<longleftrightarrow> (\<exists>t. dm_get (triggers g) i = Some t \<and> trigger_agent t = c)" for i c
    using inv by (simp add: engine_inv_def index_ok_def)
  have "i \<in> set (ids_of ?g c) \<longleftrightarrow> (\<exists>t. dm_get (triggers ?g) i = Some t \<and> trigger_agent t = c)" for i c
    unfolding ids' get by (auto simp: mem)
  moreover have "distinct (ids_of ?g c)" for c
    using inv ids_disjoint [of g a b] unfolding ids' by (auto simp: engine_inv_def index_ok_def)
  ultimately have "index_ok ?g" by (simp add: index_ok_def)
  moreover have "dm_wf (triggers ?g)"
    using inv by (simp add: reassign_agent_triggers_def Let_def dm_wf_fold_modify engine_inv_def)
  moreover have "trigger_id t = i \<and> within_limit t" if "dm_get (triggers ?g) i = Some t" for i t
    using inv_entry [OF inv, of i] that unfolding get by (auto simp: within_limit_def split: if_splits)
  ultimately show ?thesis by (simp add: engine_inv_def)
qed

lemma inv_values:
  assumes inv: "engine_inv g"
    and keep: "\<And>t. trigger_agent (f t) = trigger_agent t \<and> trigger_id (f t) = trigger_id t"
    and lim: "\<And>t. within_limit t \<Longrightarrow> within_limit (f t)"
    and get: "\<And>j. dm_get ts j = (if p j then map_option f (dm_get (triggers g) j) else dm_get (triggers g) j)"
    and wf': "dm_wf ts"
  shows "engine_inv (g\<lparr>triggers := ts\<rparr>)"
proof -
  have "ids_of (g\<lparr>triggers := ts\<rparr>) a = ids_of g a" for a by (simp add: ids_of_def)
  moreover have "(\<exists>t. dm_get ts i = Some t \<and> trigger_agent t = a) \<longleftrightarrow>
      (\<exists>t. dm_get (triggers g) i = Some t \<and> trigger_agent t = a)" for i a
    using keep by (auto simp: get)
  ultimately have "index_ok (g\<lparr>triggers := ts\<rparr>)"
    using inv by (simp add: index_ok_def engine_inv_def)
  then show ?thesis
    using inv keep lim wf' by (auto simp: engine_inv_def get split: if_splits)
qed

lemma evaluate_trigger_props:
  "trigger_agent (fst (evaluate_trigger fm e t)) = trigger_agent t"
  "trigger_id (fst (evaluate_trigger fm e t)) = trigger_id t"
  "snd (evaluate_trigger fm e t) = Some m \<Longrightarrow> fst m = trigger_agent t"
  by (auto simp: evaluate_trigger_def split: if_splits)

lemma evaluate_trigger_limit: "within_limit t \<Longrightarrow> within_limit (fst (evaluate_trigger fm e t))"
proof -
  assume "within_limit t"
  moreover have "fire_count t + 1 \<le> max_fires t" if "\<not> fire_count t \<ge> max_fires t"
    using that by (metis inc_le not_le)
  ultimately show ?thesis
    by (auto simp: evaluate_trigger_def within_limit_def word_gt_0)
qed

lemma inv_evaluate: "engine_inv g \<Longrightarrow> engine_inv (fst (evaluate fm g e))"
  unfolding evaluate_def fst_conv
  by (rule inv_values [where f = "\<lambda>t. fst (evaluate_trigger fm e t)" and p = "\<lambda>_. True"])
     (simp_all add: evaluate_trigger_props evaluate_trigger_limit dm_get_map dm_wf_map engine_inv_def)

lemma inv_set_enabled: "engine_inv g \<Longrightarrow> engine_inv (fst (set_enabled g i b))"
  unfolding set_enabled_def fst_conv
  by (rule inv_values [where f = "\<lambda>t. t\<lparr>enabled := b\<rparr>" and p = "\<lambda>j. j = i"])
     (simp_all add: within_limit_def engine_inv_def)

lemma trigger_step_inv: "engine_inv g \<Longrightarrow> fresh_ids g e \<Longrightarrow> engine_inv (trigger_step fm g e)"
  by (cases e)
     (simp_all add: inv_remove inv_remove_agent inv_move inv_reassign inv_set_enabled inv_evaluate
        register_trigger_def inv_add within_limit_def del: fresh_ids.simps(2))

interpretation engine: machine "trigger_step fm" fresh_ids engine_inv for fm
  by unfold_locales (rule trigger_step_inv)

lemma engine_inv_run:
  "run_ok fresh_ids (trigger_step fm) new_trigger_engine es \<Longrightarrow> engine_inv (run (trigger_step fm) new_trigger_engine es)"
  by (rule engine.run_inv) (simp_all add: engine_inv_def index_ok_def ids_of_def dm_entry_def new_trigger_engine_def)

text \<open>
  A content trigger never sees the bytes of a custom event: the description it searches gives
  only their number, although the pattern is documented as matching custom events by content.
\<close>

lemma content_match_ignores_custom_data:
  assumes "length d = length d'"
  shows "matches_event fm (ContentMatch sub) (e\<lparr>payload := CustomEvent d\<rparr>) (describe_event fm (e\<lparr>payload := CustomEvent d\<rparr>))
    = matches_event fm (ContentMatch sub) (e\<lparr>payload := CustomEvent d'\<rparr>) (describe_event fm (e\<lparr>payload := CustomEvent d'\<rparr>))"
  using assms by (simp add: matches_event_def describe_event_def)

text \<open>A concrete instance of the printing parameter, for examples.\<close>

definition plain_formats :: formats where
  "plain_formats = \<lparr>show_uuid = show_nat, show_fixed = (\<lambda>_ _. ''0''), debug_role = (\<lambda>_. ''User''),
     debug_operation = (\<lambda>_. ''Created''), debug_network = (\<lambda>_. []), debug_system = (\<lambda>_. [])\<rparr>"

lemma no_triggers_left:
  assumes "engine_inv g"
  shows "filter (\<lambda>m. fst m = a) (snd (evaluate fm (remove_agent_triggers g a) ev)) = []
    \<and> list_agent_triggers (remove_agent_triggers g a) a = []"
proof -
  let ?r = "remove_agent_triggers g a"
  have inv: "engine_inv ?r" by (rule inv_remove_agent [OF assms])
  have none: "dm_get (agent_triggers ?r) a = None"
    by (auto simp: remove_agent_triggers_def split: option.split)
  then have "ids_of ?r a = []" by (simp add: ids_of_def dm_entry_def)
  then have "trigger_agent t \<noteq> a" if "(i, t) \<in> set (triggers ?r)" for i t
    using inv_index [OF inv, of i a] dm_in_get [OF _ that] inv by (auto simp: engine_inv_def)
  then have "filter (\<lambda>m. fst m = a) (snd (evaluate fm ?r ev)) = []"
    by (force simp: evaluate_def map_filter_def filter_empty_conv dest: evaluate_trigger_props(3))
  with none show ?thesis by (simp add: list_agent_triggers_def)
qed

section \<open>Properties\<close>

text \<open>
  A trigger's limit holds. In every history whose ids are fresh, a trigger registered with
  a limit has never fired more often than it says, through being disabled and enabled again,
  moved to another agent or restored under new ids.
\<close>

theorem triggers_fire_within_limit:
  assumes "run_ok fresh_ids (trigger_step fm) new_trigger_engine es"
  shows "list_all (\<lambda>t. max_fires t = 0 \<or> fire_count t \<le> max_fires t)
    (list_all_triggers (run (trigger_step fm) new_trigger_engine es))"
proof -
  have inv: "engine_inv (run (trigger_step fm) new_trigger_engine es)" by (rule engine_inv_run [OF assms])
  then have "dm_wf (triggers (run (trigger_step fm) new_trigger_engine es))" by (simp add: engine_inv_def)
  then have "\<forall>t\<in>set (list_all_triggers (run (trigger_step fm) new_trigger_engine es)). within_limit t"
    using inv_entry [OF inv] unfolding list_all_triggers_def by (auto simp add: dm_values_get)
  then show ?thesis by (simp add: list_all_iff within_limit_def)
qed

theorem triggers_fire_within_limit_witness:
  "list_all (\<lambda>t. max_fires t = 0 \<or> fire_count t \<le> max_fires t)
    (list_all_triggers (run (trigger_step plain_formats)
      new_trigger_engine
      [OpRegister 1 0 7 AllEvents ''{{event}}'' 1,
       OpEvaluate (new_event 9 0 7 Broadcast (SystemEvent KernelStarted)),
       OpSetEnabled 1 True, OpReassign 7 8,
       OpEvaluate (new_event 10 0 7 Broadcast (SystemEvent KernelStopping))]))"
  by (rule triggers_fire_within_limit) (simp add: new_trigger_engine_def)

text \<open>
  An agent's triggers go with it. In every history whose ids are fresh, once the triggers
  of an agent are removed no event sends it a message, and no trigger of it is listed.
\<close>

theorem removed_agent_gets_no_messages:
  assumes "run_ok fresh_ids (trigger_step fm) new_trigger_engine es"
  shows "filter (\<lambda>m. fst m = a)
      (snd (evaluate fm (remove_agent_triggers (run (trigger_step fm) new_trigger_engine es) a) ev)) = []
    \<and> list_agent_triggers (remove_agent_triggers (run (trigger_step fm) new_trigger_engine es) a) a = []"
  by (rule no_triggers_left [OF engine_inv_run [OF assms]])

theorem removed_agent_gets_no_messages_witness:
  "filter (\<lambda>m. fst m = 8)
      (snd (evaluate plain_formats
       (remove_agent_triggers (run (trigger_step plain_formats)
      new_trigger_engine [OpRegister 1 0 7 AllEvents ''{{event}}'' 1, OpReassign 7 8]) 8)
      (new_event 9 0 7 Broadcast (SystemEvent KernelStarted)))) = []"
  by (rule removed_agent_gets_no_messages [THEN conjunct1]) (simp add: new_trigger_engine_def)

end
