(* ===== verification/Cron.thy ===== *)
theory Cron
  imports StrUtils
begin

text \<open>
  Scheduled jobs: the types and validation of \<open>openfang-types/src/scheduler.rs\<close> and the
  scheduler of \<open>openfang-kernel/src/cron.rs\<close>. The \<open>cron\<close> and \<open>chrono-tz\<close> crates are the
  parameter \<open>cron_lib\<close>. Reading and writing the job file is left out; what \<open>load\<close> inserts is an
  argument. Job names and cron fields are judged by ASCII.
\<close>

section \<open>Jobs\<close>

definition MAX_JOBS_PER_AGENT :: nat where "MAX_JOBS_PER_AGENT = 50"
definition MAX_NAME_LEN :: nat where "MAX_NAME_LEN = 128"
definition MIN_EVERY_SECS :: u64 where "MIN_EVERY_SECS = 60"
definition MAX_EVERY_SECS :: u64 where "MAX_EVERY_SECS = 86400"
definition MAX_AT_HORIZON_SECS :: nat where "MAX_AT_HORIZON_SECS = 365 * 24 * 3600"
definition MAX_EVENT_TEXT_LEN :: nat where "MAX_EVENT_TEXT_LEN = 4096"
definition MAX_TURN_MESSAGE_LEN :: nat where "MAX_TURN_MESSAGE_LEN = 16384"
definition MIN_JOB_TIMEOUT_SECS :: u64 where "MIN_JOB_TIMEOUT_SECS = 10"
definition MAX_JOB_TIMEOUT_SECS :: u64 where "MAX_JOB_TIMEOUT_SECS = 600"
definition MAX_WEBHOOK_URL_LEN :: nat where "MAX_WEBHOOK_URL_LEN = 2048"

datatype cron_schedule =
    At instant
  | Every u64
  | CronExpr string "string option"

datatype cron_action =
    SystemEvent string
  | AgentTurn string "string option" "u64 option"
  | WorkflowRun string "string option" "u64 option"

datatype cron_delivery =
    NoDelivery
  | ToChannel string string
  | LastChannel
  | ToWebhook string

datatype cron_delivery_target =
    TargetChannel string string
  | TargetWebhook string "string option"
  | LocalFile string bool
  | Email string "string option"

record cron_job =
  job_id :: uuid
  job_agent :: uuid
  job_name :: string
  job_enabled :: bool
  schedule :: cron_schedule
  action :: cron_action
  delivery :: cron_delivery
  delivery_targets :: "cron_delivery_target list"
  job_created_at :: instant
  last_run :: "instant option"
  next_run :: "instant option"

text \<open>The reasons a job is refused, with what their messages show.\<close>

datatype job_error =
    TooManyJobs nat
  | JobNameEmpty | JobNameTooLong nat | JobNameChars
  | EveryTooSmall u64 | EveryTooLarge u64 | NotInFuture | TooFarInFuture
  | CronEmpty | CronFieldCount nat | CronFieldChars nat string
  | TextEmpty | TextTooLong nat
  | JobTimeoutTooSmall u64 | JobTimeoutTooLarge u64
  | WorkflowIdEmpty | ChannelEmpty | RecipientEmpty | UrlScheme | UrlTooLong nat

fun check_fields :: "nat \<Rightarrow> string list \<Rightarrow> job_error + unit" where
  "check_fields i [] = Inr ()"
| "check_fields i (f # fs) =
     (if \<not> list_all (\<lambda>c. is_digit c \<or> c \<in> {CHR ''*'', CHR ''/'', CHR ''-'', CHR '','', CHR ''?''}) f
      then Inl (CronFieldChars i f)
      else check_fields (i + 1) fs)"

definition validate_cron_expr :: "string \<Rightarrow> job_error + unit" where
  "validate_cron_expr expr =
     (let trimmed = trim expr; fields = split_whitespace trimmed
      in if trimmed = [] then Inl CronEmpty
         else if length fields \<noteq> 5 then Inl (CronFieldCount (length fields))
         else check_fields 0 fields)"

fun validate_schedule :: "instant \<Rightarrow> cron_schedule \<Rightarrow> job_error + unit" where
  "validate_schedule now (Every n) =
     (if n < MIN_EVERY_SECS then Inl (EveryTooSmall n)
      else if n > MAX_EVERY_SECS then Inl (EveryTooLarge n)
      else Inr ())"
| "validate_schedule now (At fire_at) =
     (if fire_at \<le> now then Inl NotInFuture
      else if as_secs (fire_at - now) > MAX_AT_HORIZON_SECS then Inl TooFarInFuture
      else Inr ())"
| "validate_schedule now (CronExpr expr _) = validate_cron_expr expr"

definition check_timeout :: "u64 \<Rightarrow> u64 option \<Rightarrow> job_error + unit" where
  "check_timeout upper t =
     (case t of
        None \<Rightarrow> Inr ()
      | Some n \<Rightarrow>
          if n < MIN_JOB_TIMEOUT_SECS then Inl (JobTimeoutTooSmall n)
          else if n > upper then Inl (JobTimeoutTooLarge n)
          else Inr ())"

fun validate_action :: "cron_action \<Rightarrow> job_error + unit" where
  "validate_action (SystemEvent body) =
     (if body = [] then Inl TextEmpty
      else if length body > MAX_EVENT_TEXT_LEN then Inl (TextTooLong (length body))
      else Inr ())"
| "validate_action (AgentTurn message _ t) =
     (if message = [] then Inl TextEmpty
      else if length message > MAX_TURN_MESSAGE_LEN then Inl (TextTooLong (length message))
      else check_timeout MAX_JOB_TIMEOUT_SECS t)"
| "validate_action (WorkflowRun workflow_id input t) =
     (if workflow_id = [] then Inl WorkflowIdEmpty
      else (case input of
              Some i \<Rightarrow> if length i > MAX_TURN_MESSAGE_LEN then Inl (TextTooLong (length i))
                        else check_timeout 3600 t
            | None \<Rightarrow> check_timeout 3600 t))"

fun validate_delivery :: "cron_delivery \<Rightarrow> job_error + unit" where
  "validate_delivery (ToChannel channel recipient) =
     (if channel = [] then Inl ChannelEmpty
      else if recipient = [] then Inl RecipientEmpty
      else Inr ())"
| "validate_delivery (ToWebhook url) =
     (if \<not> starts_with url ''http://'' \<and> \<not> starts_with url ''https://'' then Inl UrlScheme
      else if length url > MAX_WEBHOOK_URL_LEN then Inl (UrlTooLong (length url))
      else Inr ())"
| "validate_delivery NoDelivery = Inr ()"
| "validate_delivery LastChannel = Inr ()"

definition validate_job :: "instant \<Rightarrow> cron_job \<Rightarrow> nat \<Rightarrow> job_error + unit" where
  "validate_job now j existing_count =
     (if existing_count \<ge> MAX_JOBS_PER_AGENT then Inl (TooManyJobs existing_count)
      else if job_name j = [] then Inl JobNameEmpty
      else if length (job_name j) > MAX_NAME_LEN then Inl (JobNameTooLong (length (job_name j)))
      else if \<not> list_all (\<lambda>c. is_alnum c \<or> c \<in> {CHR '' '', CHR ''-'', CHR ''_''}) (job_name j) then Inl JobNameChars
      else case validate_schedule now (schedule j) of
             Inl e \<Rightarrow> Inl e
           | Inr _ \<Rightarrow>
               (case validate_action (action j) of
                  Inl e \<Rightarrow> Inl e
                | Inr _ \<Rightarrow> validate_delivery (delivery j)))"

section \<open>The next run\<close>

text \<open>
  The crates: whether a seven-field expression and a time zone parse, and the first time at or
  after a given one that an expression names, in UTC or in a zone.
\<close>

record cron_lib =
  parses :: "string \<Rightarrow> bool"
  knows_zone :: "string \<Rightarrow> bool"
  after_utc :: "string \<Rightarrow> instant \<Rightarrow> instant option"
  after_zone :: "string \<Rightarrow> string \<Rightarrow> instant \<Rightarrow> instant option"

definition seven_fields :: "string \<Rightarrow> string" where
  "seven_fields expr =
     (let trimmed = trim expr; n = length (split_whitespace trimmed)
      in if n = 5 then ''0 '' @ trimmed @ '' *''
         else if n = 6 then trimmed @ '' *''
         else expr)"

fun compute_next_run_after :: "cron_lib \<Rightarrow> cron_schedule \<Rightarrow> instant \<Rightarrow> instant" where
  "compute_next_run_after lib (At fire_at) after = fire_at"
| "compute_next_run_after lib (Every n) after = after + from_secs (unat n)"
| "compute_next_run_after lib (CronExpr expr tz) after =
     (let seven_field = seven_fields expr; base = after + from_secs 1
      in if parses lib seven_field then
           (let next_utc =
              (case tz of
                 Some z \<Rightarrow>
                   if z \<noteq> [] \<and> z \<noteq> ''UTC'' then
                     (if knows_zone lib z then after_zone lib seven_field z base
                      else after_utc lib seven_field base)
                   else after_utc lib seven_field base
               | None \<Rightarrow> after_utc lib seven_field base)
            in case next_utc of Some t \<Rightarrow> t | None \<Rightarrow> after + from_secs 3600)
         else after + from_secs 3600)"

section \<open>The scheduler\<close>

definition MAX_CONSECUTIVE_ERRORS :: u32 where
  "MAX_CONSECUTIVE_ERRORS = 5"

datatype claim_error = NotFound | Disabled

record job_meta =
  job :: cron_job
  one_shot :: bool
  last_status :: "string option"
  consecutive_errors :: u32

definition new_meta :: "cron_job \<Rightarrow> bool \<Rightarrow> job_meta" where
  "new_meta j once = \<lparr>job = j, one_shot = once, last_status = None, consecutive_errors = 0\<rparr>"

record cron_scheduler =
  jobs :: "(uuid, job_meta) dashmap"
  max_total_jobs :: nat

definition new_cron :: "nat \<Rightarrow> cron_scheduler" where
  "new_cron n = \<lparr>jobs = [], max_total_jobs = n\<rparr>"

definition set_max_total_jobs :: "cron_scheduler \<Rightarrow> nat \<Rightarrow> cron_scheduler" where
  "set_max_total_jobs s n = s\<lparr>max_total_jobs := n\<rparr>"

definition load_jobs :: "cron_scheduler \<Rightarrow> job_meta list \<Rightarrow> cron_scheduler \<times> nat" where
  "load_jobs s metas =
     (s\<lparr>jobs := fold (\<lambda>m. dm_insert (job_id (job m)) m) metas (jobs s)\<rparr>, length metas)"

datatype add_error = GlobalLimit nat | InvalidInput job_error

definition add_job ::
  "cron_lib \<Rightarrow> instant \<Rightarrow> cron_scheduler \<Rightarrow> cron_job \<Rightarrow> bool \<Rightarrow> (add_error + uuid) \<times> cron_scheduler" where
  "add_job lib now s j once =
     (if length (jobs s) \<ge> max_total_jobs s then (Inl (GlobalLimit (max_total_jobs s)), s)
      else
        let agent_count = length (filter (\<lambda>m. job_agent (job m) = job_agent j) (dm_values (jobs s)))
        in case validate_job now j agent_count of
             Inl e \<Rightarrow> (Inl (InvalidInput e), s)
           | Inr _ \<Rightarrow>
               (Inr (job_id j),
                s\<lparr>jobs := dm_insert (job_id j)
                     (new_meta (j\<lparr>next_run := Some (compute_next_run_after lib (schedule j) now)\<rparr>) once) (jobs s)\<rparr>))"

definition remove_job :: "cron_scheduler \<Rightarrow> uuid \<Rightarrow> (uuid + cron_job) \<times> cron_scheduler" where
  "remove_job s i =
     (case dm_get (jobs s) i of
        Some m \<Rightarrow> (Inr (job m), s\<lparr>jobs := dm_remove i (jobs s)\<rparr>)
      | None \<Rightarrow> (Inl i, s))"

definition enable_meta :: "cron_lib \<Rightarrow> instant \<Rightarrow> bool \<Rightarrow> job_meta \<Rightarrow> job_meta" where
  "enable_meta lib now b m =
     (let m1 = m\<lparr>job := (job m)\<lparr>job_enabled := b\<rparr>\<rparr>
      in if b then m1\<lparr>consecutive_errors := 0,
                      job := (job m1)\<lparr>next_run := Some (compute_next_run_after lib (schedule (job m1)) now)\<rparr>\<rparr>
         else m1)"

definition set_job_enabled :: "cron_lib \<Rightarrow> instant \<Rightarrow> cron_scheduler \<Rightarrow> uuid \<Rightarrow> bool \<Rightarrow> (uuid + unit) \<times> cron_scheduler" where
  "set_job_enabled lib now s i b =
     (case dm_get (jobs s) i of
        Some m \<Rightarrow> (Inr (), s\<lparr>jobs := dm_insert i (enable_meta lib now b m) (jobs s)\<rparr>)
      | None \<Rightarrow> (Inl i, s))"

definition set_delivery_targets :: "cron_scheduler \<Rightarrow> uuid \<Rightarrow> cron_delivery_target list \<Rightarrow> (uuid + unit) \<times> cron_scheduler" where
  "set_delivery_targets s i ts =
     (case dm_get (jobs s) i of
        Some m \<Rightarrow> (Inr (), s\<lparr>jobs := dm_insert i (m\<lparr>job := (job m)\<lparr>delivery_targets := ts\<rparr>\<rparr>) (jobs s)\<rparr>)
      | None \<Rightarrow> (Inl i, s))"

definition get_job :: "cron_scheduler \<Rightarrow> uuid \<Rightarrow> cron_job option" where
  "get_job s i = map_option job (dm_get (jobs s) i)"

definition get_meta :: "cron_scheduler \<Rightarrow> uuid \<Rightarrow> job_meta option" where
  "get_meta s i = dm_get (jobs s) i"

definition list_jobs :: "cron_scheduler \<Rightarrow> uuid \<Rightarrow> cron_job list" where
  "list_jobs s a = map job (filter (\<lambda>m. job_agent (job m) = a) (dm_values (jobs s)))"

definition list_all_jobs :: "cron_scheduler \<Rightarrow> cron_job list" where
  "list_all_jobs s = map job (dm_values (jobs s))"

definition reassign_meta :: "cron_lib \<Rightarrow> instant \<Rightarrow> uuid \<Rightarrow> job_meta \<Rightarrow> job_meta" where
  "reassign_meta lib now new_agent m =
     (let m1 = m\<lparr>job := (job m)\<lparr>job_agent := new_agent\<rparr>, consecutive_errors := 0\<rparr>
      in if \<not> job_enabled (job m1)
            \<and> (case last_status m1 of
                 Some st \<Rightarrow> str_contains st ''not found'' \<or> str_contains st ''No such agent''
               | None \<Rightarrow> False)
         then m1\<lparr>job := (job m1)\<lparr>job_enabled := True,
                                  next_run := Some (compute_next_run_after lib (schedule (job m1)) now)\<rparr>\<rparr>
         else m1)"

definition reassign_agent_jobs :: "cron_lib \<Rightarrow> instant \<Rightarrow> cron_scheduler \<Rightarrow> uuid \<Rightarrow> uuid \<Rightarrow> cron_scheduler \<times> nat" where
  "reassign_agent_jobs lib now s old_agent new_agent =
     (s\<lparr>jobs := map (\<lambda>(i, m). (i, if job_agent (job m) = old_agent then reassign_meta lib now new_agent m else m)) (jobs s)\<rparr>,
      length (filter (\<lambda>(_, m). job_agent (job m) = old_agent) (jobs s)))"

definition remove_agent_jobs :: "cron_scheduler \<Rightarrow> uuid \<Rightarrow> cron_scheduler \<times> nat" where
  "remove_agent_jobs s a =
     (let ids = map fst (filter (\<lambda>(_, m). job_agent (job m) = a) (jobs s))
      in (s\<lparr>jobs := fold dm_remove ids (jobs s)\<rparr>, length ids))"

definition total_jobs :: "cron_scheduler \<Rightarrow> nat" where
  "total_jobs s = length (jobs s)"

definition overdue :: "instant \<Rightarrow> cron_job \<Rightarrow> bool" where
  "overdue now j = (case next_run j of Some t \<Rightarrow> t \<le> now | None \<Rightarrow> False)"

definition is_due :: "instant \<Rightarrow> job_meta \<Rightarrow> bool" where
  "is_due now m = (job_enabled (job m) \<and> overdue now (job m))"

definition advance_meta :: "cron_lib \<Rightarrow> instant \<Rightarrow> job_meta \<Rightarrow> job_meta" where
  "advance_meta lib now m =
     m\<lparr>job := (job m)\<lparr>next_run := Some (compute_next_run_after lib (schedule (job m)) now)\<rparr>\<rparr>"

definition due_jobs :: "cron_lib \<Rightarrow> instant \<Rightarrow> cron_scheduler \<Rightarrow> cron_job list \<times> cron_scheduler" where
  "due_jobs lib now s =
     (map job (filter (is_due now) (dm_values (jobs s))),
      s\<lparr>jobs := map (\<lambda>(i, m). (i, if is_due now m then advance_meta lib now m else m)) (jobs s)\<rparr>)"

definition try_claim_for_run :: "cron_lib \<Rightarrow> instant \<Rightarrow> cron_scheduler \<Rightarrow> uuid \<Rightarrow> (claim_error + cron_job) \<times> cron_scheduler" where
  "try_claim_for_run lib now s i =
     (case dm_get (jobs s) i of
        None \<Rightarrow> (Inl NotFound, s)
      | Some m \<Rightarrow>
          if \<not> job_enabled (job m) then (Inl Disabled, s)
          else (let m' = (if overdue now (job m) then advance_meta lib now m else m)
                in (Inr (job m'), s\<lparr>jobs := dm_insert i m' (jobs s)\<rparr>)))"

definition record_success :: "instant \<Rightarrow> cron_scheduler \<Rightarrow> uuid \<Rightarrow> cron_scheduler" where
  "record_success now s i =
     (case dm_get (jobs s) i of
        Some m \<Rightarrow>
          if one_shot m then s\<lparr>jobs := dm_remove i (jobs s)\<rparr>
          else s\<lparr>jobs := dm_insert i (m\<lparr>job := (job m)\<lparr>last_run := Some now\<rparr>, last_status := Some ''ok'',
                                         consecutive_errors := 0\<rparr>) (jobs s)\<rparr>
      | None \<Rightarrow> s)"

definition fail_meta :: "cron_lib \<Rightarrow> instant \<Rightarrow> string \<Rightarrow> job_meta \<Rightarrow> job_meta" where
  "fail_meta lib now msg m =
     (let m1 = m\<lparr>job := (job m)\<lparr>last_run := Some now\<rparr>,
                 last_status := Some (''error: '' @ safe_truncate_str msg 256),
                 consecutive_errors := consecutive_errors m + 1\<rparr>
      in if consecutive_errors m1 \<ge> MAX_CONSECUTIVE_ERRORS
         then m1\<lparr>job := (job m1)\<lparr>job_enabled := False\<rparr>\<rparr>
         else if (case next_run (job m1) of Some t \<Rightarrow> t \<le> now | None \<Rightarrow> True)
         then advance_meta lib now m1
         else m1)"

definition record_failure :: "cron_lib \<Rightarrow> instant \<Rightarrow> cron_scheduler \<Rightarrow> uuid \<Rightarrow> string \<Rightarrow> cron_scheduler" where
  "record_failure lib now s i msg = s\<lparr>jobs := dm_modify i (fail_meta lib now msg) (jobs s)\<rparr>"

section \<open>Histories\<close>

datatype cron_op =
    OpAdd instant cron_job bool
  | OpRemoveJob uuid
  | OpEnable instant uuid bool
  | OpTargets uuid "cron_delivery_target list"
  | OpReassignJobs instant uuid uuid
  | OpRemoveAgentJobs uuid
  | OpDue instant
  | OpClaim instant uuid
  | OpJobSucceeded instant uuid
  | OpJobFailed instant uuid string
  | OpLoad "job_meta list"
  | OpSetMax nat

fun cron_step :: "cron_lib \<Rightarrow> cron_scheduler \<Rightarrow> cron_op \<Rightarrow> cron_scheduler" where
  "cron_step lib s (OpAdd now j once) = snd (add_job lib now s j once)"
| "cron_step lib s (OpRemoveJob i) = snd (remove_job s i)"
| "cron_step lib s (OpEnable now i b) = snd (set_job_enabled lib now s i b)"
| "cron_step lib s (OpTargets i ts) = snd (set_delivery_targets s i ts)"
| "cron_step lib s (OpReassignJobs now a b) = fst (reassign_agent_jobs lib now s a b)"
| "cron_step lib s (OpRemoveAgentJobs a) = fst (remove_agent_jobs s a)"
| "cron_step lib s (OpDue now) = snd (due_jobs lib now s)"
| "cron_step lib s (OpClaim now i) = snd (try_claim_for_run lib now s i)"
| "cron_step lib s (OpJobSucceeded now i) = record_success now s i"
| "cron_step lib s (OpJobFailed now i msg) = record_failure lib now s i msg"
| "cron_step lib s (OpLoad metas) = fst (load_jobs s metas)"
| "cron_step lib s (OpSetMax n) = set_max_total_jobs s n"

text \<open>An enabled job has failed fewer than five times in a row.\<close>

definition meta_ok :: "job_meta \<Rightarrow> bool" where
  "meta_ok m = (\<not> job_enabled (job m) \<or> consecutive_errors m < MAX_CONSECUTIVE_ERRORS)"

definition cron_inv :: "cron_scheduler \<Rightarrow> bool" where
  "cron_inv s \<longleftrightarrow> dm_wf (jobs s) \<and>
     (\<forall>i m. dm_get (jobs s) i = Some m \<longrightarrow> job_id (job m) = i \<and> meta_ok m)"

text \<open>The job file holds what an earlier scheduler wrote.\<close>

fun load_ok :: "cron_scheduler \<Rightarrow> cron_op \<Rightarrow> bool" where
  "load_ok s (OpLoad metas) = list_all meta_ok metas"
| "load_ok s _ = True"

lemma cron_inv_insert:
  "cron_inv s \<Longrightarrow> meta_ok m \<Longrightarrow> job_id (job m) = i \<Longrightarrow> cron_inv (s\<lparr>jobs := dm_insert i m (jobs s)\<rparr>)"
  by (simp add: cron_inv_def)

lemma cron_inv_get: "cron_inv s \<Longrightarrow> dm_get (jobs s) i = Some m \<Longrightarrow> meta_ok m \<and> job_id (job m) = i"
  by (simp add: cron_inv_def)

lemma dm_get_mapped: "dm_get (map (\<lambda>(i, m). (i, f m)) d) k = map_option f (dm_get d k)"
  by (simp add: dm_get_def map_of_map)

lemma dm_wf_mapped: "dm_wf (map (\<lambda>(i, m). (i, f m)) d) = dm_wf d"
  by (simp add: dm_wf_def case_prod_beta comp_def)

lemma cron_inv_map:
  "cron_inv s \<Longrightarrow> (\<And>m. meta_ok m \<Longrightarrow> meta_ok (f m)) \<Longrightarrow> (\<And>m. job_id (job (f m)) = job_id (job m)) \<Longrightarrow>
    cron_inv (s\<lparr>jobs := map (\<lambda>(i, m). (i, f m)) (jobs s)\<rparr>)"
  by (auto simp: cron_inv_def dm_get_mapped dm_wf_mapped)

lemma meta_changes:
  "meta_ok m \<Longrightarrow> meta_ok (advance_meta lib now m)"
  "meta_ok m \<Longrightarrow> meta_ok (enable_meta lib now b m)"
  "meta_ok m \<Longrightarrow> meta_ok (reassign_meta lib now a m)"
  "meta_ok (fail_meta lib now msg m)"
  "job_id (job (advance_meta lib now m)) = job_id (job m)"
  "job_id (job (enable_meta lib now b m)) = job_id (job m)"
  "job_id (job (reassign_meta lib now a m)) = job_id (job m)"
  "job_id (job (fail_meta lib now msg m)) = job_id (job m)"
  by (auto simp: meta_ok_def advance_meta_def enable_meta_def reassign_meta_def fail_meta_def Let_def
      MAX_CONSECUTIVE_ERRORS_def not_le)

lemma cron_inv_remove: "cron_inv s \<Longrightarrow> cron_inv (s\<lparr>jobs := dm_remove i (jobs s)\<rparr>)"
  by (simp add: cron_inv_def)

lemma cron_inv_load: "cron_inv s \<Longrightarrow> list_all meta_ok metas \<Longrightarrow> cron_inv (fst (load_jobs s metas))"
proof (induction metas arbitrary: s)
  case (Cons m metas)
  have "cron_inv (s\<lparr>jobs := dm_insert (job_id (job m)) m (jobs s)\<rparr>)"
    using Cons.prems by (simp add: cron_inv_insert)
  from Cons.IH [OF this] Cons.prems show ?case by (simp add: load_jobs_def)
qed (simp add: load_jobs_def)

lemma cron_inv_remove_agent: "cron_inv s \<Longrightarrow> cron_inv (fst (remove_agent_jobs s a))"
proof -
  assume inv: "cron_inv s"
  have "dm_wf (fold dm_remove ks d)" if "dm_wf d" for ks and d :: "(uuid, job_meta) dashmap"
    using that by (induction ks arbitrary: d) simp_all
  with inv show ?thesis
    by (auto simp: cron_inv_def remove_agent_jobs_def Let_def dm.fold_drop_lookup split: if_splits)
qed

lemma cron_inv_claim: "cron_inv s \<Longrightarrow> cron_inv (snd (try_claim_for_run lib now s i))"
  using cron_inv_get [of s i] meta_changes
  by (auto simp: try_claim_for_run_def Let_def intro!: cron_inv_insert split: option.split)

lemma cron_inv_ops:
  "cron_inv s \<Longrightarrow> cron_inv (snd (add_job lib now s j once))"
  "cron_inv s \<Longrightarrow> cron_inv (record_success now s i)"
  "cron_inv s \<Longrightarrow> cron_inv (snd (set_delivery_targets s i ts))"
  using cron_inv_get [of s i]
  by (auto simp: add_job_def record_success_def set_delivery_targets_def Let_def new_meta_def meta_ok_def
      MAX_CONSECUTIVE_ERRORS_def intro!: cron_inv_insert cron_inv_remove split: option.split sum.split)

lemma cron_step_inv: "cron_inv s \<Longrightarrow> load_ok s e \<Longrightarrow> cron_inv (cron_step lib s e)"
proof (cases e)
  case (OpReassignJobs now a b)
  assume "cron_inv s"
  then show ?thesis
    unfolding OpReassignJobs cron_step.simps reassign_agent_jobs_def fst_conv
    by (rule cron_inv_map) (simp_all add: meta_changes)
next
  case (OpDue now)
  assume "cron_inv s"
  then show ?thesis
    unfolding OpDue cron_step.simps due_jobs_def snd_conv
    by (rule cron_inv_map) (simp_all add: meta_changes)
next
  case (OpJobFailed now i msg)
  assume inv: "cron_inv s"
  then show ?thesis
    using cron_inv_get [OF inv, of i] meta_changes
    by (cases "dm_get (jobs s) i") (auto simp: OpJobFailed record_failure_def dm_modify_def intro!: cron_inv_insert)
next
  case (OpEnable now i b)
  assume inv: "cron_inv s"
  then show ?thesis
    using cron_inv_get [OF inv, of i] meta_changes
    by (auto simp: OpEnable set_job_enabled_def intro!: cron_inv_insert split: option.split)
qed (auto simp: cron_inv_load cron_inv_remove_agent cron_inv_claim cron_inv_ops remove_job_def cron_inv_remove
    split: option.split, simp add: cron_inv_def set_max_total_jobs_def)

interpretation cron: machine "cron_step lib" load_ok cron_inv for lib
  by unfold_locales (rule cron_step_inv)

text \<open>What the crate documents of the first time it names: it is not before the given one.\<close>

definition lib_ok :: "cron_lib \<Rightarrow> bool" where
  "lib_ok lib \<longleftrightarrow> (\<forall>x t u. after_utc lib x t = Some u \<longrightarrow> t \<le> u) \<and> (\<forall>x z t u. after_zone lib x z t = Some u \<longrightarrow> t \<le> u)"

lemma next_run_advances:
  assumes "lib_ok lib"
  shows "compute_next_run_after lib sch now \<le> now \<longleftrightarrow>
    (case sch of At fire_at \<Rightarrow> fire_at \<le> now | Every n \<Rightarrow> n = 0 | CronExpr _ _ \<Rightarrow> False)"
proof (cases sch)
  case (CronExpr x z)
  have "now < u" if "after_utc lib y (now + from_secs 1) = Some u \<or> after_zone lib y v (now + from_secs 1) = Some u" for y v u
  proof -
    have "now + from_secs 1 \<le> u" using assms that unfolding lib_ok_def by blast
    then show ?thesis by (simp add: from_secs_def)
  qed
  then show ?thesis
    by (auto simp: CronExpr Let_def from_secs_def not_le split: option.split)
qed (auto simp: from_secs_def unat_eq_zero)

section \<open>Properties\<close>

text \<open>
  What is due twice. The scheduler moves the next run of each due job past the present, so
  that a second tick at the same time does not return it again, except for the jobs that fire
  at a fixed time (and for a zero interval, which validation refuses): their next run stays
  where it is and they are returned again, against what the documentation of \<open>due_jobs\<close> says.
\<close>

theorem due_again_only_fixed_times:
  assumes "lib_ok lib"
  shows "map job_id (fst (due_jobs lib now (snd (due_jobs lib now s)))) =
    map job_id (filter (\<lambda>j. case schedule j of At fire_at \<Rightarrow> fire_at \<le> now | Every n \<Rightarrow> n = 0 | CronExpr _ _ \<Rightarrow> False)
      (fst (due_jobs lib now s)))"
proof -
  have again: "is_due now (if is_due now m then advance_meta lib now m else m) \<longleftrightarrow>
      is_due now m \<and> (case schedule (job m) of At fire_at \<Rightarrow> fire_at \<le> now | Every n \<Rightarrow> n = 0 | CronExpr _ _ \<Rightarrow> False)" for m
    using next_run_advances [OF assms, of "schedule (job m)" now]
    by (auto simp: is_due_def overdue_def advance_meta_def simp del: compute_next_run_after.simps)
  have vals: "dm_values (map (\<lambda>(i, m). (i, f m)) d) = map f (dm_values d)"
    for f :: "job_meta \<Rightarrow> job_meta" and d :: "(uuid, job_meta) dashmap"
    by (simp add: dm_values_def case_prod_beta comp_def)
  have "map job_id (map job (filter (is_due now) (map (\<lambda>m. if is_due now m then advance_meta lib now m else m) ms))) =
    map job_id (filter (\<lambda>j. case schedule j of At fire_at \<Rightarrow> fire_at \<le> now | Every n \<Rightarrow> n = 0 | CronExpr _ _ \<Rightarrow> False)
      (map job (filter (is_due now) ms)))" for ms
    by (induction ms) (auto simp: again meta_changes simp del: compute_next_run_after.simps)
  from this [of "dm_values (jobs s)"] show ?thesis
    by (simp add: due_jobs_def vals)
qed

definition plain_job :: "cron_schedule \<Rightarrow> instant \<Rightarrow> cron_job" where
  "plain_job sch t = \<lparr>job_id = 1, job_agent = 2, job_name = ''n'', job_enabled = True, schedule = sch,
     action = SystemEvent ''x'', delivery = NoDelivery, delivery_targets = [], job_created_at = 0, last_run = None,
     next_run = Some t\<rparr>"

definition plain_lib :: cron_lib where
  "plain_lib = \<lparr>parses = (\<lambda>_. True), knows_zone = (\<lambda>_. False), after_utc = (\<lambda>_ t. Some t), after_zone = (\<lambda>_ _ _. None)\<rparr>"

theorem due_again_only_fixed_times_witness:
  "map job_id (fst (due_jobs plain_lib 9 (snd (due_jobs plain_lib 9
     \<lparr>jobs = [(1, new_meta (plain_job (At 5) 5) False)], max_total_jobs = 10\<rparr>)))) = [1]"
  by (subst due_again_only_fixed_times)
     (simp_all add: lib_ok_def plain_lib_def due_jobs_def dm_values_def is_due_def overdue_def new_meta_def plain_job_def)

text \<open>
  A job that keeps failing stops. In every history, with any job file written by such a
  history, every job that \<open>due_jobs\<close> returns has failed fewer than five times since it last
  succeeded, was enabled or was reassigned.
\<close>

theorem due_jobs_have_few_failures:
  assumes "run_ok load_ok (cron_step lib) (new_cron n) es"
  shows "list_all (\<lambda>j. case get_meta (run (cron_step lib) (new_cron n) es) (job_id j) of
      Some m \<Rightarrow> consecutive_errors m < MAX_CONSECUTIVE_ERRORS | None \<Rightarrow> False)
    (fst (due_jobs lib now (run (cron_step lib) (new_cron n) es)))"
proof -
  let ?s = "run (cron_step lib) (new_cron n) es"
  have inv: "cron_inv ?s"
    by (rule cron.run_inv [OF _ assms]) (simp add: cron_inv_def new_cron_def)
  have "consecutive_errors m < MAX_CONSECUTIVE_ERRORS \<and> get_meta ?s (job_id (job m)) = Some m"
    if "m \<in> set (dm_values (jobs ?s))" "is_due now m" for m
  proof -
    have "dm_wf (jobs ?s)" using inv by (simp add: cron_inv_def)
    with that(1) obtain i where "dm_get (jobs ?s) i = Some m"
      by (auto simp: dm_values_get)
    with cron_inv_get [OF inv this] that(2) show ?thesis
      by (auto simp: meta_ok_def is_due_def get_meta_def)
  qed
  then show ?thesis by (auto simp: due_jobs_def list_all_iff)
qed

theorem due_jobs_have_few_failures_witness:
  "list_all (\<lambda>j. case get_meta (run (cron_step plain_lib) (new_cron 9)
       [OpLoad [new_meta (plain_job (Every 60) 5) False], OpJobFailed 3 1 ''boom'']) (job_id j) of
      Some m \<Rightarrow> consecutive_errors m < MAX_CONSECUTIVE_ERRORS | None \<Rightarrow> False)
    (fst (due_jobs plain_lib 9 (run (cron_step plain_lib) (new_cron 9)
       [OpLoad [new_meta (plain_job (Every 60) 5) False], OpJobFailed 3 1 ''boom''])))"
  by (rule due_jobs_have_few_failures) (simp add: meta_ok_def new_meta_def MAX_CONSECUTIVE_ERRORS_def)

text \<open>
  A job meant to fire once fires again. A job with a fixed time that was not added as
  one-shot is due again at any later time after it was run and its success recorded.
\<close>

theorem fixed_time_job_fires_again:
  assumes "get_meta s i = Some m" "schedule (job m) = At fire_at" "\<not> one_shot m"
    and "is_due now m" "fire_at \<le> now" "now \<le> later"
  shows "case get_meta (record_success t (snd (due_jobs lib now s)) i) i of
      Some m' \<Rightarrow> is_due later m' | None \<Rightarrow> False"
proof -
  have "dm_get (jobs (snd (due_jobs lib now s))) i = Some (advance_meta lib now m)"
    using assms(1,4) by (simp add: due_jobs_def dm_get_mapped get_meta_def)
  then show ?thesis
    using assms by (simp add: record_success_def get_meta_def advance_meta_def is_due_def overdue_def)
qed

theorem fixed_time_job_fires_again_witness:
  "case get_meta (record_success 10 (snd (due_jobs plain_lib 9
     \<lparr>jobs = [(1, new_meta (plain_job (At 5) 5) False)], max_total_jobs = 10\<rparr>)) 1) 1 of
      Some m' \<Rightarrow> is_due 20 m' | None \<Rightarrow> False"
  by (rule fixed_time_job_fires_again [where m = "new_meta (plain_job (At 5) 5) False" and fire_at = 5])
     (simp_all add: get_meta_def dm_get_def new_meta_def plain_job_def is_due_def overdue_def)

end
