(* ===== verification/ThinkFilter.thy ===== *)
theory ThinkFilter
  imports StrUtils
begin

text \<open>
  Reasoning blocks in model output: the streaming filter of
  \<open>openfang-runtime/src/think_filter.rs\<close> and, for answers that arrive whole,
  \<open>extract_think_tags\<close> and \<open>extract_thinking_summary\<close> of
  \<open>openfang-runtime/src/drivers/openai.rs\<close>. The main result is that the filter does the same
  to a stream however it is cut into deltas.
\<close>

section \<open>The streaming filter\<close>

datatype filter_action = EmitText string | EmitThinking string

record think_filter =
  inside_think :: bool
  pending_text :: string

definition new_filter :: think_filter where
  "new_filter = \<lparr>inside_think = False, pending_text = []\<rparr>"

definition is_inside_think :: "think_filter \<Rightarrow> bool" where
  "is_inside_think f = inside_think f"

fun suffix_loop :: "string \<Rightarrow> string \<Rightarrow> nat \<Rightarrow> nat" where
  "suffix_loop h n 0 = 0"
| "suffix_loop h n (Suc l) = (if ends_with h (take (Suc l) n) then Suc l else suffix_loop h n l)"

definition partial_suffix_match :: "string \<Rightarrow> string \<Rightarrow> nat" where
  "partial_suffix_match haystack needle =
     suffix_loop haystack needle (min (length haystack) (length needle - 1))"

text \<open>
  The two halves of the loop differ in the tag they look for and the action they emit; both are
  chosen by the flag.
\<close>

definition think_tag :: "bool \<Rightarrow> string" where
  "think_tag inside = (if inside then ''</think>'' else ''<think>'')"

definition emit :: "bool \<Rightarrow> string \<Rightarrow> filter_action list" where
  "emit inside s = (if s = [] then [] else [if inside then EmitThinking s else EmitText s])"

function filter_loop :: "bool \<Rightarrow> string \<Rightarrow> filter_action list \<times> bool \<times> string" where
  "filter_loop inside p =
     (case str_find p (think_tag inside) of
        Some pos \<Rightarrow>
          (let (actions, st) = filter_loop (\<not> inside) (drop (pos + length (think_tag inside)) p)
           in (emit inside (take pos p) @ actions, st))
      | None \<Rightarrow>
          (let keep = partial_suffix_match p (think_tag inside);
               emit_len = length p - keep
           in (emit inside (take emit_len p), inside, drop emit_len p)))"
  by pat_completeness auto
termination
proof (relation "measure (\<lambda>(inside, p). length p)", goal_cases)
  case (2 inside p pos)
  have "think_tag inside \<noteq> []" by (simp add: think_tag_def)
  with str_find_shrinks [OF 2] show ?case by simp
qed simp

declare filter_loop.simps [simp del]

definition process :: "think_filter \<Rightarrow> string \<Rightarrow> filter_action list \<times> think_filter" where
  "process f delta =
     (let (actions, inside, p) = filter_loop (inside_think f) (pending_text f @ delta)
      in (actions, f\<lparr>inside_think := inside, pending_text := p\<rparr>))"

definition flush :: "think_filter \<Rightarrow> filter_action list \<times> think_filter" where
  "flush f =
     (if pending_text f \<noteq> []
      then (if inside_think f then [EmitThinking (pending_text f)] else [EmitText (pending_text f)],
            f\<lparr>pending_text := []\<rparr>)
      else ([], f))"

section \<open>Whole answers\<close>

text \<open>
  The loop of \<open>extract_think_tags\<close>: what is left of the text and the thoughts found. The first
  closing tag of the text is looked for from its start.
\<close>

function extract_loop :: "string \<Rightarrow> string list \<Rightarrow> string \<times> string list" where
  "extract_loop cleaned parts =
     (let add = (\<lambda>t. if trim t \<noteq> [] then parts @ [trim t] else parts)
      in case str_find cleaned ''<think>'' of
           None \<Rightarrow> (cleaned, parts)
         | Some start \<Rightarrow>
             (case str_find cleaned ''</think>'' of
                Some end_pos \<Rightarrow>
                  (if start + 7 \<le> end_pos then
                     extract_loop (take start cleaned @ drop (end_pos + 8) cleaned)
                       (add (take (end_pos - (start + 7)) (drop (start + 7) cleaned)))
                   else (cleaned, parts))
              | None \<Rightarrow> (take start cleaned, add (drop (start + 7) cleaned))))"
  by pat_completeness auto
termination
proof (relation "measure (\<lambda>(cleaned, parts). length cleaned)", goal_cases)
  case (2 cleaned parts x start e)
  have "start + 7 \<le> length cleaned" using str_find_le [OF 2(2)] by simp
  with 2(4) show ?case by simp
qed simp

declare extract_loop.simps [simp del]

definition extract_think_tags :: "string \<Rightarrow> string \<times> string option" where
  "extract_think_tags t =
     (let (cleaned, parts) = extract_loop t []
      in (trim cleaned, if parts = [] then None else Some (join_with [CHR 10, CHR 10] parts)))"

text \<open>\<open>split("\n\n")\<close>: the pieces between the non-overlapping separators.\<close>

function split_str :: "string \<Rightarrow> string \<Rightarrow> string list" where
  "split_str sep s =
     (case str_find s sep of
        Some k \<Rightarrow> if sep = [] then [s] else take k s # split_str sep (drop (k + length sep) s)
      | None \<Rightarrow> [s])"
  by pat_completeness auto
termination
proof (relation "measure (\<lambda>(sep, s). length s)", goal_cases)
  case (2 sep s k)
  then show ?case using str_find_shrinks [OF 2(1)] by simp
qed simp

declare split_str.simps [simp del]

definition NO_ANSWER :: string where
  "NO_ANSWER = ''[The model produced reasoning but no final answer. Try rephrasing your question.]''"

text \<open>\<open>None\<close> is the panic of slicing a string inside a character.\<close>

definition extract_thinking_summary :: "string \<Rightarrow> string option" where
  "extract_thinking_summary thinking =
     (let trimmed = trim thinking
      in if trimmed = [] then Some NO_ANSWER
         else
           let paragraphs = filter (\<lambda>p. p \<noteq> []) (map trim (split_str [CHR 10, CHR 10] trimmed))
           in if paragraphs \<noteq> [] then
                (if length (last paragraphs) \<le> 2000 then Some (last paragraphs)
                 else if is_char_boundary (last paragraphs) (length (last paragraphs) - 2000)
                 then Some (drop (length (last paragraphs) - 2000) (last paragraphs))
                 else None)
              else Some NO_ANSWER)"

section \<open>The reference: one pass over the whole text\<close>

text \<open>
  What the tags mean: each character with the kind of text it belongs to, the tags themselves
  dropped. Outside a block only an opening tag is a tag, inside it only a closing one.
\<close>

function classify :: "bool \<Rightarrow> string \<Rightarrow> (bool \<times> char) list" where
  "classify inside [] = []"
| "classify inside (c # cs) =
     (if starts_with (c # cs) (think_tag inside)
      then classify (\<not> inside) (drop (length (think_tag inside)) (c # cs))
      else (inside, c) # classify inside cs)"
  by pat_completeness auto
termination
  by (relation "measure (\<lambda>(inside, s). length s)") (auto simp: think_tag_def)

declare classify.simps(2) [simp del]

fun marks :: "filter_action list \<Rightarrow> (bool \<times> char) list" where
  "marks [] = []"
| "marks (EmitText s # as) = map (Pair False) s @ marks as"
| "marks (EmitThinking s # as) = map (Pair True) s @ marks as"

lemma marks_append [simp]: "marks (as @ bs) = marks as @ marks bs"
  by (induction as rule: marks.induct) auto

lemma marks_emit [simp]: "marks (emit inside s) = map (Pair inside) s"
  by (simp add: emit_def)

lemma classify_no_tag:
  assumes "\<forall>i<n. \<not> starts_with (drop i s) (think_tag inside)" "n \<le> length s"
  shows "classify inside s = map (Pair inside) (take n s) @ classify inside (drop n s)"
  using assms
proof (induction n arbitrary: s)
  case (Suc n)
  then obtain c cs where s: "s = c # cs" by (cases s) auto
  have "\<not> starts_with (c # cs) (think_tag inside)"
    using Suc.prems(1) by (metis s drop0 zero_less_Suc)
  moreover have "\<forall>i<n. \<not> starts_with (drop i cs) (think_tag inside)"
    using Suc.prems(1) s by auto
  ultimately show ?case
    using Suc.IH [of cs] Suc.prems(2) by (simp add: s classify.simps(2))
qed simp

lemma classify_tag:
  "classify inside (think_tag inside @ s) = classify (\<not> inside) s"
  by (cases "think_tag inside") (auto simp: classify.simps(2) starts_with_iff think_tag_def split: if_splits)

text \<open>No shorter suffix is kept than the longest one that begins the tag.\<close>

lemma suffix_loop_longest:
  "ends_with h (take k n) \<Longrightarrow> k \<le> m \<Longrightarrow> k \<le> suffix_loop h n m"
  by (induction h n m rule: suffix_loop.induct) (auto simp: le_Suc_eq)

lemma suffix_loop_match: "ends_with h (take (suffix_loop h n m) n)"
  by (induction h n m rule: suffix_loop.induct) (simp_all add: ends_with_def)

lemma suffix_loop_le: "suffix_loop h n m \<le> m"
  by (induction h n m rule: suffix_loop.induct) auto

lemma partial_suffix_le:
  "partial_suffix_match h n \<le> length h" "partial_suffix_match h n \<le> length n - 1"
  using suffix_loop_le [of h n "min (length h) (length n - 1)"] by (auto simp: partial_suffix_match_def)

text \<open>A tag that starts in the text emitted would have been found or kept.\<close>

lemma emitted_has_no_tag:
  assumes "str_find p tag = None" "i < length p - partial_suffix_match p tag"
  shows "\<not> starts_with (drop i (p @ q)) tag"
proof
  assume tag: "starts_with (drop i (p @ q)) tag"
  let ?k = "length p - i"
  have i: "i < length p" using assms(2) by simp
  then have split: "drop i (p @ q) = drop i p @ q" by simp
  show False
  proof (cases "length tag \<le> ?k")
    case True
    with tag split have "starts_with (drop i p) tag"
      by (simp add: starts_with_def)
    with str_find_none_at [OF assms(1)] show False by blast
  next
    case False
    with tag split have "drop i p = take ?k tag"
      by (simp add: starts_with_def) (metis append_eq_conv_conj length_drop take_all take_append nat_le_linear take_take min.absorb2 append_take_drop_id)
    then have "ends_with p (take ?k tag)"
      using i False by (simp add: ends_with_def)
    then have "?k \<le> partial_suffix_match p tag"
      unfolding partial_suffix_match_def using False by (intro suffix_loop_longest) auto
    with assms(2) i show False by simp
  qed
qed

lemma found_has_no_tag:
  assumes "str_find p tag = Some pos" "i < pos"
  shows "\<not> starts_with (drop i (p @ q)) tag"
proof
  assume tag: "starts_with (drop i (p @ q)) tag"
  have "pos + length tag \<le> length p" by (rule str_find_le [OF assms(1)])
  with assms(2) tag have "starts_with (drop i p) tag"
    by (simp add: starts_with_def)
  with str_find_first [OF assms] show False by blast
qed

lemma filter_loop_classify:
  "filter_loop inside p = (actions, inside', p') \<Longrightarrow>
    marks actions @ classify inside' (p' @ q) = classify inside (p @ q)"
proof (induction inside p arbitrary: actions rule: filter_loop.induct)
  case (1 inside p)
  let ?tag = "think_tag inside"
  show ?case
  proof (cases "str_find p ?tag")
    case None
    let ?n = "length p - partial_suffix_match p ?tag"
    have "classify inside (p @ q) = map (Pair inside) (take ?n (p @ q)) @ classify inside (drop ?n (p @ q))"
      by (rule classify_no_tag) (use emitted_has_no_tag [OF None] in auto)
    with 1(2) None show ?thesis by (auto simp: filter_loop.simps Let_def)
  next
    case (Some pos)
    obtain as st where rest: "filter_loop (\<not> inside) (drop (pos + length ?tag) p) = (as, st)"
      by (meson surj_pair)
    with 1(2) Some have eq: "actions = emit inside (take pos p) @ as" "st = (inside', p')"
      by (auto simp: filter_loop.simps [of inside])
    have IH: "marks as @ classify inside' (p' @ q) = classify (\<not> inside) (drop (pos + length ?tag) p @ q)"
      using 1(1) [OF Some] rest eq(2) by simp
    have p: "p = take pos p @ ?tag @ drop (pos + length ?tag) p" by (rule str_find_Some [OF Some])
    have "classify inside (p @ q) = map (Pair inside) (take pos (p @ q)) @ classify inside (drop pos (p @ q))"
      by (rule classify_no_tag) (use found_has_no_tag [OF Some] str_find_le [OF Some] in auto)
    moreover have "drop pos (p @ q) = ?tag @ (drop (pos + length ?tag) p @ q)"
      by (metis p append_assoc append_eq_conv_conj length_take min.absorb2 str_find_le [OF Some] add_leD1)
    ultimately show ?thesis
      using IH eq(1) str_find_le [OF Some] by (simp add: classify_tag)
  qed
qed


section \<open>Streams\<close>

text \<open>A stream of deltas, and the flush at its end.\<close>

fun process_all :: "think_filter \<Rightarrow> string list \<Rightarrow> filter_action list \<times> think_filter" where
  "process_all f [] = ([], f)"
| "process_all f (d # ds) =
     (let (as, g) = process f d; (bs, h) = process_all g ds in (as @ bs, h))"

definition filter_stream :: "string list \<Rightarrow> filter_action list" where
  "filter_stream ds = (let (as, f) = process_all new_filter ds in as @ fst (flush f))"

definition filter_inv :: "think_filter \<Rightarrow> bool" where
  "filter_inv f \<longleftrightarrow> (\<exists>k < length (think_tag (inside_think f)). pending_text f = take k (think_tag (inside_think f)))"

lemma kept_begins_tag:
  "drop (length p - partial_suffix_match p n) p = take (partial_suffix_match p n) n"
proof -
  have "ends_with p (take (partial_suffix_match p n) n)"
    unfolding partial_suffix_match_def by (rule suffix_loop_match)
  moreover have "length (take (partial_suffix_match p n) n) = partial_suffix_match p n"
    using partial_suffix_le(2) [of p n] by simp
  ultimately show ?thesis by (simp only: ends_with_def)
qed

lemma filter_loop_pending:
  "filter_loop inside p = (actions, inside', p') \<Longrightarrow> \<exists>k < length (think_tag inside'). p' = take k (think_tag inside')"
proof (induction inside p arbitrary: actions rule: filter_loop.induct)
  case (1 inside p)
  show ?case
  proof (cases "str_find p (think_tag inside)")
    case None
    have "partial_suffix_match p (think_tag inside) < length (think_tag inside)"
      using partial_suffix_le(2) [of p "think_tag inside"] by (simp add: think_tag_def split: if_splits)
    with 1(2) None kept_begins_tag [of p "think_tag inside"] show ?thesis
      by (auto simp: filter_loop.simps Let_def)
  next
    case (Some pos)
    with 1 show ?thesis by (auto simp: filter_loop.simps [of inside] split: prod.splits)
  qed
qed

lemma process_classify:
  "process f d = (as, g) \<Longrightarrow>
    marks as @ classify (inside_think g) (pending_text g @ q) = classify (inside_think f) (pending_text f @ d @ q)"
  using filter_loop_classify [of "inside_think f" "pending_text f @ d" _ _ _ q]
  by (auto simp: process_def split: prod.splits)

lemma process_all_classify:
  "process_all f ds = (as, g) \<Longrightarrow>
    marks as @ classify (inside_think g) (pending_text g @ q) = classify (inside_think f) (pending_text f @ concat ds @ q)"
proof (induction ds arbitrary: f as)
  case (Cons d ds)
  obtain a h where h: "process f d = (a, h)" by (meson surj_pair)
  obtain b g' where g: "process_all h ds = (b, g')" by (meson surj_pair)
  with Cons.prems h have "as = a @ b" "g' = g" by auto
  with Cons.IH [of h b] process_classify [OF h, of "concat ds @ q"] g show ?case by simp
qed simp

lemma process_inv: "process f d = (as, g) \<Longrightarrow> filter_inv g"
  using filter_loop_pending [of "inside_think f" "pending_text f @ d"]
  by (auto simp: process_def filter_inv_def split: prod.splits)

lemma filter_inv_new: "filter_inv new_filter"
  by (auto simp: filter_inv_def new_filter_def think_tag_def)

lemma process_all_inv: "process_all f ds = (as, g) \<Longrightarrow> filter_inv f \<Longrightarrow> filter_inv g"
  by (induction ds arbitrary: f as) (auto split: prod.splits dest: process_inv)

text \<open>A proper beginning of a tag holds no tag.\<close>

lemma classify_short: "length s < length (think_tag inside) \<Longrightarrow> classify inside s = map (Pair inside) s"
  by (subst classify_no_tag [of "length s"]) (auto simp: starts_with_def, metis diff_le_self leD length_drop)

lemma marks_flush: "filter_inv f \<Longrightarrow> marks (fst (flush f)) = classify (inside_think f) (pending_text f)"
  by (auto simp: filter_inv_def flush_def classify_short)

section \<open>Well-tagged answers\<close>

text \<open>Visible pieces and thoughts in turn, none of which holds the character that begins a tag.\<close>

fun tagged :: "(string \<times> string) list \<Rightarrow> string \<Rightarrow> string" where
  "tagged [] w = w"
| "tagged ((v, t) # bs) w = v @ ''<think>'' @ t @ ''</think>'' @ tagged bs w"

definition no_angle :: "string \<Rightarrow> bool" where
  "no_angle s \<longleftrightarrow> CHR ''<'' \<notin> set s"

lemma str_find_skip:
  "p \<noteq> [] \<Longrightarrow> hd p \<notin> set a \<Longrightarrow> str_find (a @ b) p = map_option ((+) (length a)) (str_find b p)"
proof (induction a)
  case Nil
  show ?case by (cases "str_find b p") auto
next
  case (Cons c a)
  then have "\<not> starts_with (c # a @ b) p" by (cases p) (auto simp: starts_with_iff)
  with Cons show ?case by (cases "str_find b p") auto
qed

lemma str_find_here: "p \<noteq> [] \<Longrightarrow> hd p \<notin> set a \<Longrightarrow> str_find (a @ p @ b) p = Some (length a)"
  using str_find_skip [of p a "p @ b"] by (cases p) (auto simp: starts_with_def)

lemma find_open: "no_angle a \<Longrightarrow> str_find (a @ ''<think>'' @ b) ''<think>'' = Some (length a)"
  using str_find_here [of "''<think>''" a b] by (simp add: no_angle_def)

lemma find_close:
  assumes "no_angle a" "no_angle t"
  shows "str_find (a @ ''<think>'' @ t @ ''</think>'' @ b) ''</think>'' = Some (length a + 7 + length t)"
proof -
  have "str_find (t @ ''</think>'' @ b) ''</think>'' = Some (length t)"
    using str_find_here [of "''</think>''" t b] assms(2) by (simp add: no_angle_def)
  then have "str_find (''<think>'' @ t @ ''</think>'' @ b) ''</think>'' = Some (7 + length t)"
    by (simp add: starts_with_def)
  then show ?thesis
    using str_find_skip [of "''</think>''" a] assms(1) by (simp add: no_angle_def)
qed

lemma drop_own: "drop (length x) (x @ r) = r"
  by simp

lemma drop_block: "drop (15 + length t) (''<think>'' @ t @ ''</think>'' @ r) = r"
proof -
  let ?x = "''<think>'' @ t @ ''</think>''"
  have "drop (length ?x) (?x @ r) = r" by (rule drop_own)
  moreover have "length ?x = 15 + length t" by simp
  ultimately show ?thesis by (simp only: append_assoc)
qed

lemma find_open_none: "no_angle a \<Longrightarrow> str_find a ''<think>'' = None"
  using str_find_skip [of "''<think>''" a "[]"] by (simp add: no_angle_def)

lemma extract_tagged:
  assumes "no_angle u" "no_angle w" "\<forall>(v, t)\<in>set bs. no_angle v \<and> no_angle t"
  shows "extract_loop (u @ tagged bs w) parts =
    (u @ concat (map fst bs) @ w, parts @ filter (\<lambda>t. t \<noteq> []) (map (\<lambda>b. trim (snd b)) bs))"
  using assms
proof (induction bs arbitrary: u parts)
  case Nil
  then have "no_angle (u @ w)" by (simp add: no_angle_def)
  then show ?case by (simp add: extract_loop.simps find_open_none)
next
  case (Cons b bs)
  obtain v t where b: "b = (v, t)" by force
  let ?rest = "tagged bs w" and ?uv = "u @ v"
  from Cons.prems b have uv: "no_angle ?uv" and t: "no_angle t" by (auto simp: no_angle_def)
  have full: "u @ tagged (b # bs) w = ?uv @ ''<think>'' @ t @ ''</think>'' @ ?rest" by (simp add: b)
  have "extract_loop (?uv @ ''<think>'' @ t @ ''</think>'' @ ?rest) parts =
      extract_loop (?uv @ ?rest) (if trim t \<noteq> [] then parts @ [trim t] else parts)"
    by (subst extract_loop.simps, unfold find_open [OF uv] find_close [OF uv t]) (simp add: Let_def drop_block [simplified])
  also have "\<dots> = (?uv @ concat (map fst bs) @ w, (if trim t \<noteq> [] then parts @ [trim t] else parts)
      @ filter (\<lambda>t. t \<noteq> []) (map (\<lambda>b. trim (snd b)) bs))"
    using Cons.IH [OF uv] Cons.prems by auto
  finally show ?case unfolding full by (simp add: b)
qed

lemma classify_plain:
  assumes "no_angle a"
  shows "classify inside (a @ b) = map (Pair inside) a @ classify inside b"
proof -
  have "\<not> starts_with (drop i (a @ b)) (think_tag inside)" if "i < length a" for i
  proof -
    have "drop i (a @ b) = a ! i # drop (Suc i) (a @ b)"
      using that by (simp add: Cons_nth_drop_Suc nth_append flip: Cons_nth_drop_Suc)
    moreover have "a ! i \<noteq> CHR ''<''" using assms that nth_mem [of i a] by (metis no_angle_def)
    ultimately show ?thesis by (simp add: starts_with_def think_tag_def)
  qed
  then show ?thesis using classify_no_tag [of "length a" "a @ b" inside] by simp
qed

lemma classify_tagged:
  assumes "no_angle w" "\<forall>(v, t)\<in>set bs. no_angle v \<and> no_angle t"
  shows "map snd (filter (\<lambda>m. \<not> fst m) (classify False (tagged bs w))) = concat (map fst bs) @ w"
  using assms
proof (induction bs)
  case Nil
  then show ?case using classify_plain [of w False "[]"] by (simp add: comp_def)
next
  case (Cons b bs)
  obtain v t where b: "b = (v, t)" by force
  with Cons.prems have vt: "no_angle v" "no_angle t" by auto
  have "classify False (''<think>'' @ x) = classify True x" "classify True (''</think>'' @ x) = classify False x" for x
    using classify_tag [of False x] classify_tag [of True x] by (simp_all add: think_tag_def)
  with vt have "classify False (tagged (b # bs) w) = map (Pair False) v @ map (Pair True) t @ classify False (tagged bs w)"
    by (simp add: b classify_plain del: append_Cons)
  with Cons show ?case by (simp add: b comp_def)
qed

lemma marks_filter_stream: "marks (filter_stream ds) = classify False (concat ds)"
proof -
  obtain as f where f: "process_all new_filter ds = (as, f)" by (meson surj_pair)
  then have "filter_inv f" using process_all_inv filter_inv_new by blast
  with process_all_classify [OF f, of "[]"] f show ?thesis
    by (simp add: filter_stream_def marks_flush) (simp add: new_filter_def)
qed

section \<open>Properties\<close>

text \<open>
  C36: the deltas do not matter. However a model's answer is cut into deltas, what the filter
  emits over the whole stream and its final flush is what one pass over the whole text finds:
  every character once, in order, as visible text or as thinking, the tags dropped, also when a
  tag is split over several deltas.
\<close>

theorem filter_stream_is_classify: "marks (filter_stream ds) = classify False (concat ds)"
  by (rule marks_filter_stream)

text \<open>
  What the filter holds back. After any deltas the pending text is a proper beginning of the
  tag looked for, so at most seven bytes of a stream are ever delayed, and the rest has been
  emitted.
\<close>

theorem pending_is_partial_tag:
  "\<exists>k < length (think_tag (inside_think (snd (process_all new_filter ds)))).
     pending_text (snd (process_all new_filter ds)) = take k (think_tag (inside_think (snd (process_all new_filter ds))))"
  using process_all_inv [of new_filter ds] filter_inv_new
  unfolding filter_inv_def by (metis surjective_pairing)

text \<open>
  A stray closing tag leaks reasoning. For an answer that arrives whole, a closing tag before
  the first opening tag makes \<open>extract_think_tags\<close> give up, and the block after it stays in the
  text shown to the user; the same text as a stream has it removed.
\<close>

theorem stray_close_leaks_thinking:
  "extract_think_tags ''a</think>b<think>key</think>c'' = (''a</think>b<think>key</think>c'', None)
   \<and> filter (\<lambda>m. \<not> fst m) (marks (filter_stream [''a</think>b<think>key</think>c'']))
     = map (Pair False) ''a</think>bc''"
  unfolding marks_filter_stream
  by (simp add: extract_think_tags_def extract_loop.simps starts_with_def classify.simps(2) think_tag_def trim_def is_space_def)

text \<open>
  Whole answers and streams agree on well-tagged text. When the tags of an answer come in
  pairs and nothing else in it begins like one, the text \<open>extract_think_tags\<close> keeps is, but for
  the blanks at its ends, what the filter shows of the same answer in any deltas.
\<close>

theorem whole_answer_matches_stream:
  assumes "no_angle w" "list_all (\<lambda>(v, t). no_angle v \<and> no_angle t) bs" "concat ds = tagged bs w"
  shows "fst (extract_think_tags (tagged bs w)) = trim (map snd (filter (\<lambda>m. \<not> fst m) (marks (filter_stream ds))))"
proof -
  have bs: "\<forall>(v, t)\<in>set bs. no_angle v \<and> no_angle t" using assms(2) by (simp add: list_all_iff)
  have "fst (extract_think_tags (tagged bs w)) = trim (concat (map fst bs) @ w)"
    using extract_tagged [of "[]" w bs "[]"] assms(1) bs by (simp add: extract_think_tags_def no_angle_def)
  then show ?thesis
    by (simp add: marks_filter_stream assms(3) classify_tagged [OF assms(1) bs])
qed

theorem whole_answer_matches_stream_witness:
  "fst (extract_think_tags ''Hi<think>plan</think> there'')
     = trim (map snd (filter (\<lambda>m. \<not> fst m) (marks (filter_stream [''Hi<th'', ''ink>plan</'', ''think> there'']))))"
  using whole_answer_matches_stream [of "'' there''" "[(''Hi'', ''plan'')]" "[''Hi<th'', ''ink>plan</'', ''think> there'']"]
  by (simp add: no_angle_def)

text \<open>
  The summary of reasoning can panic. When the last paragraph of a reasoning text is longer
  than 2000 bytes and the cut 2000 bytes from its end falls inside a character, the slice panics
  instead of returning a summary.
\<close>

theorem summary_panics_inside_character:
  assumes "list_all (\<lambda>c. \<not> is_space c) p" "2000 < length p" "is_continuation (p ! (length p - 2000))"
  shows "extract_thinking_summary p = None"
proof -
  have "dropWhile is_space p = p" "dropWhile is_space (rev p) = rev p"
    using assms(1) by (auto simp: dropWhile_eq_self_iff list_all_iff)
      (metis hd_in_set list.set_sel(1) set_rev rev_is_Nil_conv)+
  then have trim: "trim p = p" by (simp add: trim_def)
  have "\<not> str_contains p [CHR 10, CHR 10]"
    using assms(1) by (force simp: str_contains_iff list_all_iff is_space_def)
  then have "split_str [CHR 10, CHR 10] p = [p]"
    by (simp add: split_str.simps str_find_none [THEN iffD2])
  with trim assms(2,3) show ?thesis
    by (auto simp: extract_thinking_summary_def Let_def is_char_boundary_def)
qed

fun accents :: "nat \<Rightarrow> string" where
  "accents 0 = ''.''"
| "accents (Suc n) = CHR 0xC3 # CHR 0xA9 # accents n"

lemma length_accents: "length (accents n) = 2 * n + 1"
  by (induction n) auto

lemma accents_not_space: "list_all (\<lambda>c. \<not> is_space c) (accents n)"
  by (induction n) (auto simp: is_space_def)

theorem summary_panics_inside_character_witness: "extract_thinking_summary (accents 1001) = None"
proof (rule summary_panics_inside_character)
  have "accents (Suc (Suc k)) ! 3 = CHR 0xA9" for k by simp
  moreover have "(1001 :: nat) = Suc (Suc 999)" by simp
  ultimately have "accents 1001 ! 3 = CHR 0xA9" by metis
  then show "is_continuation (accents 1001 ! (length (accents 1001) - 2000))"
    by (simp add: length_accents is_continuation_def)
qed (simp_all add: length_accents accents_not_space)

end
