(* ===== verification/AuditLog.thy ===== *)
theory AuditLog
  imports Prelude
begin

text \<open>
  The audit trail: \<open>openfang-runtime/src/audit.rs\<close>. SHA-256 with hex output is the parameter
  \<open>sha\<close> of the definitions. The table \<open>audit_entries\<close> is the list of its rows in the order of
  their primary key \<open>seq\<close>; an insert is refused when the key is taken, and may fail for a reason
  outside the program (the argument \<open>db_ok\<close>), which the code ignores.
\<close>

section \<open>Entries\<close>

datatype audit_action =
    ToolInvoke | CapabilityCheck | AgentSpawn | AgentKill | AgentMessage | MemoryAccess
  | FileAccess | NetworkAccess | ShellExec | AuthAttempt | WireConnect | ConfigChange

fun show_action :: "audit_action \<Rightarrow> string" where
  "show_action ToolInvoke = ''ToolInvoke''"
| "show_action CapabilityCheck = ''CapabilityCheck''"
| "show_action AgentSpawn = ''AgentSpawn''"
| "show_action AgentKill = ''AgentKill''"
| "show_action AgentMessage = ''AgentMessage''"
| "show_action MemoryAccess = ''MemoryAccess''"
| "show_action FileAccess = ''FileAccess''"
| "show_action NetworkAccess = ''NetworkAccess''"
| "show_action ShellExec = ''ShellExec''"
| "show_action AuthAttempt = ''AuthAttempt''"
| "show_action WireConnect = ''WireConnect''"
| "show_action ConfigChange = ''ConfigChange''"

definition read_action :: "string \<Rightarrow> audit_action" where
  "read_action s =
     (if s = ''ToolInvoke'' then ToolInvoke
      else if s = ''CapabilityCheck'' then CapabilityCheck
      else if s = ''AgentSpawn'' then AgentSpawn
      else if s = ''AgentKill'' then AgentKill
      else if s = ''AgentMessage'' then AgentMessage
      else if s = ''MemoryAccess'' then MemoryAccess
      else if s = ''FileAccess'' then FileAccess
      else if s = ''NetworkAccess'' then NetworkAccess
      else if s = ''ShellExec'' then ShellExec
      else if s = ''AuthAttempt'' then AuthAttempt
      else if s = ''WireConnect'' then WireConnect
      else if s = ''ConfigChange'' then ConfigChange
      else ToolInvoke)"

record audit_entry =
  entry_seq :: u64
  entry_timestamp :: string
  entry_agent :: string
  entry_action :: audit_action
  detail :: string
  outcome :: string
  prev_hash :: string
  entry_hash :: string

text \<open>The bytes that are hashed, one field after the other.\<close>

definition hashed_bytes :: "audit_entry \<Rightarrow> string" where
  "hashed_bytes e = show_word (entry_seq e) @ entry_timestamp e @ entry_agent e @ show_action (entry_action e)
     @ detail e @ outcome e @ prev_hash e"

definition compute_entry_hash :: "(string \<Rightarrow> string) \<Rightarrow> audit_entry \<Rightarrow> string" where
  "compute_entry_hash sha e = sha (hashed_bytes e)"

definition genesis :: string where
  "genesis = replicate 64 CHR ''0''"

section \<open>The log and its table\<close>

record audit_row =
  row_seq :: int
  row_timestamp :: string
  row_agent :: string
  row_action :: string
  row_detail :: string
  row_outcome :: string
  row_prev :: string
  row_hash :: string

record audit_log =
  entries :: "audit_entry list"
  tip :: string
  db :: "audit_row list option"

definition new_log :: audit_log where
  "new_log = \<lparr>entries = [], tip = genesis, db = None\<rparr>"

text \<open>A row whose key is negative does not convert and is skipped.\<close>

definition read_row :: "audit_row \<Rightarrow> audit_entry option" where
  "read_row r =
     (if row_seq r < 0 then None
      else Some \<lparr>entry_seq = of_int (row_seq r), entry_timestamp = row_timestamp r, entry_agent = row_agent r,
        entry_action = read_action (row_action r), detail = row_detail r, outcome = row_outcome r,
        prev_hash = row_prev r, entry_hash = row_hash r\<rparr>)"

definition with_db :: "audit_row list \<Rightarrow> audit_log" where
  "with_db rows =
     (let es = List.map_filter read_row rows
      in \<lparr>entries = es, tip = (if es = [] then genesis else entry_hash (last es)), db = Some rows\<rparr>)"

definition write_row :: "audit_entry \<Rightarrow> audit_row" where
  "write_row e = \<lparr>row_seq = sint (entry_seq e), row_timestamp = entry_timestamp e, row_agent = entry_agent e,
     row_action = show_action (entry_action e), row_detail = detail e, row_outcome = outcome e,
     row_prev = prev_hash e, row_hash = entry_hash e\<rparr>"

definition insert_row :: "bool \<Rightarrow> audit_row \<Rightarrow> audit_row list \<Rightarrow> audit_row list" where
  "insert_row db_ok r rows =
     (if db_ok \<and> row_seq r \<notin> row_seq ` set rows then insort_key row_seq r rows else rows)"

definition new_entry ::
  "(string \<Rightarrow> string) \<Rightarrow> string \<Rightarrow> audit_log \<Rightarrow> string \<Rightarrow> audit_action \<Rightarrow> string \<Rightarrow> string \<Rightarrow> audit_entry" where
  "new_entry sha timestamp l agent action det outc =
     (let e = \<lparr>entry_seq = of_nat (length (entries l)), entry_timestamp = timestamp, entry_agent = agent,
               entry_action = action, detail = det, outcome = outc, prev_hash = tip l, entry_hash = []\<rparr>
      in e\<lparr>entry_hash := compute_entry_hash sha e\<rparr>)"

definition record_event ::
  "(string \<Rightarrow> string) \<Rightarrow> string \<Rightarrow> bool \<Rightarrow> audit_log \<Rightarrow> string \<Rightarrow> audit_action \<Rightarrow> string \<Rightarrow> string \<Rightarrow> audit_log \<times> string" where
  "record_event sha timestamp db_ok l agent action det outc =
     (let e = new_entry sha timestamp l agent action det outc
      in (\<lparr>entries = entries l @ [e], tip = entry_hash e, db = map_option (insert_row db_ok (write_row e)) (db l)\<rparr>,
          entry_hash e))"

datatype audit_error =
    ChainBreak u64 string string
  | HashMismatch u64 string string

fun verify_from :: "(string \<Rightarrow> string) \<Rightarrow> string \<Rightarrow> audit_entry list \<Rightarrow> audit_error + unit" where
  "verify_from sha expected_prev [] = Inr ()"
| "verify_from sha expected_prev (e # es) =
     (if prev_hash e \<noteq> expected_prev then Inl (ChainBreak (entry_seq e) expected_prev (prev_hash e))
      else if compute_entry_hash sha e \<noteq> entry_hash e
      then Inl (HashMismatch (entry_seq e) (compute_entry_hash sha e) (entry_hash e))
      else verify_from sha (entry_hash e) es)"

definition verify_integrity :: "(string \<Rightarrow> string) \<Rightarrow> audit_log \<Rightarrow> audit_error + unit" where
  "verify_integrity sha l = verify_from sha genesis (entries l)"

definition tip_hash :: "audit_log \<Rightarrow> string" where
  "tip_hash l = tip l"

definition log_len :: "audit_log \<Rightarrow> nat" where
  "log_len l = length (entries l)"

definition log_is_empty :: "audit_log \<Rightarrow> bool" where
  "log_is_empty l = (entries l = [])"

definition recent_entries :: "audit_log \<Rightarrow> nat \<Rightarrow> audit_entry list" where
  "recent_entries l n = drop (length (entries l) - n) (entries l)"

section \<open>The chain\<close>

definition chain_tip :: "string \<Rightarrow> audit_entry list \<Rightarrow> string" where
  "chain_tip p es = (if es = [] then p else entry_hash (last es))"

lemma chain_tip_simps [simp]:
  "chain_tip p [] = p" "chain_tip p (es @ [e]) = entry_hash e" "chain_tip p (e # es) = chain_tip (entry_hash e) es"
  by (simp_all add: chain_tip_def)

lemma verify_append:
  "verify_from sha p (es @ fs) = Inr () \<longleftrightarrow> verify_from sha p es = Inr () \<and> verify_from sha (chain_tip p es) fs = Inr ()"
  by (induction es arbitrary: p) auto

lemma verify_snoc:
  "verify_from sha p (es @ [e]) = Inr () \<longleftrightarrow>
    verify_from sha p es = Inr () \<and> prev_hash e = chain_tip p es \<and> entry_hash e = sha (hashed_bytes e)"
  by (auto simp: verify_append compute_entry_hash_def)

lemma read_show [simp]: "read_action (show_action a) = a"
  by (cases a) (simp_all add: read_action_def)

lemma map_filter_snoc:
  "List.map_filter f (xs @ [x]) = List.map_filter f xs @ (case f x of None \<Rightarrow> [] | Some y \<Rightarrow> [y])"
  by (simp add: List.map_filter_def split: option.split)

lemma insort_key_end:
  "\<forall>y\<in>set ys. key y < key x \<Longrightarrow> insort_key key x ys = ys @ [x]"
  by (induction ys) auto

lemma hashed_bytes_hash [simp]: "hashed_bytes (e\<lparr>entry_hash := h\<rparr>) = hashed_bytes e"
  by (simp add: hashed_bytes_def)

lemma new_entry_props:
  "prev_hash (new_entry sha t l a act d r) = tip l"
  "entry_seq (new_entry sha t l a act d r) = of_nat (length (entries l))"
  "entry_hash (new_entry sha t l a act d r) = sha (hashed_bytes (new_entry sha t l a act d r))"
  by (simp_all add: new_entry_def Let_def compute_entry_hash_def hashed_bytes_def)

section \<open>Histories\<close>

datatype audit_op =
    OpRecord string bool string audit_action string string
  | OpRestart

fun audit_step :: "(string \<Rightarrow> string) \<Rightarrow> audit_log \<Rightarrow> audit_op \<Rightarrow> audit_log" where
  "audit_step sha l (OpRecord t ok a act d r) = fst (record_event sha t ok l a act d r)"
| "audit_step sha l OpRestart = (case db l of Some rows \<Rightarrow> with_db rows | None \<Rightarrow> new_log)"

fun is_record :: "audit_op \<Rightarrow> bool" where
  "is_record (OpRecord _ _ _ _ _ _) = True"
| "is_record OpRestart = False"

text \<open>Every insert reached the table, and the log is short enough for the table's signed keys.\<close>

fun stored :: "audit_log \<Rightarrow> audit_op \<Rightarrow> bool" where
  "stored l (OpRecord _ ok _ _ _ _) = (ok \<and> length (entries l) < 2 ^ 63)"
| "stored l OpRestart = True"

definition chain_inv :: "(string \<Rightarrow> string) \<Rightarrow> audit_log \<Rightarrow> bool" where
  "chain_inv sha l \<longleftrightarrow> verify_from sha genesis (entries l) = Inr () \<and> tip l = chain_tip genesis (entries l)"

definition table_inv :: "audit_log \<Rightarrow> bool" where
  "table_inv l \<longleftrightarrow> db l = Some (map write_row (entries l))
     \<and> map entry_seq (entries l) = map of_nat [0..<length (entries l)] \<and> length (entries l) \<le> 2 ^ 63
     \<and> tip l = chain_tip genesis (entries l)"

lemma chain_inv_record: "chain_inv sha l \<Longrightarrow> chain_inv sha (fst (record_event sha t ok l a act d r))"
  by (simp add: chain_inv_def record_event_def Let_def verify_snoc new_entry_props)

lemma key_of_index: "n < 2 ^ 63 \<Longrightarrow> sint (of_nat n :: u64) = int n"
  by (simp add: signed_of_nat signed_take_bit_int_eq_self)

lemma chain_inv_step: "chain_inv sha l \<Longrightarrow> is_record e \<Longrightarrow> chain_inv sha (audit_step sha l e)"
  by (cases e) (simp_all add: chain_inv_record)

interpretation chain: machine "audit_step sha" "\<lambda>_ e. is_record e" "chain_inv sha" for sha
  by unfold_locales (rule chain_inv_step)

lemma read_write_row:
  "entry_seq e = of_nat n \<Longrightarrow> n < 2 ^ 63 \<Longrightarrow> read_row (write_row e) = Some e"
  by (cases e) (simp add: read_row_def write_row_def key_of_index)

lemma read_written_rows:
  assumes "map entry_seq es = map of_nat [0..<length es]" "length es \<le> 2 ^ 63"
  shows "List.map_filter read_row (map write_row es) = es"
proof -
  have "read_row (write_row e) = Some e" if "e \<in> set es" for e
  proof -
    obtain k where k: "k < length es" "e = es ! k" using \<open>e \<in> set es\<close> by (auto simp: in_set_conv_nth)
    then have "entry_seq e = of_nat k"
      using assms(1) by (metis length_map nth_map nth_upt add_0 map_nth length_upt diff_zero)
    with k assms(2) show ?thesis by (intro read_write_row [of e k]) auto
  qed
  then show ?thesis by (induction es) (auto simp: List.map_filter_def)
qed

lemma table_inv_reload: "table_inv l \<Longrightarrow> with_db (the (db l)) = l"
  by (cases l) (simp add: table_inv_def with_db_def read_written_rows chain_tip_def)

lemma table_inv_record:
  assumes inv: "table_inv l" and short: "length (entries l) < 2 ^ 63"
  shows "table_inv (fst (record_event sha t True l a act d r))"
proof -
  let ?n = "length (entries l)"
  define e where "e = new_entry sha t l a act d r"
  then have e: "fst (record_event sha t True l a act d r) =
      \<lparr>entries = entries l @ [e], tip = entry_hash e, db = map_option (insert_row True (write_row e)) (db l)\<rparr>"
    and seq: "entry_seq e = of_nat ?n"
    by (simp_all add: record_event_def Let_def new_entry_props)
  have keys: "map row_seq (map write_row (entries l)) = map int [0..<?n]"
  proof -
    have "map (\<lambda>e. sint (entry_seq e)) (entries l) = map sint (map (of_nat :: nat \<Rightarrow> u64) [0..<?n])"
      using inv by (metis (no_types, lifting) table_inv_def map_map comp_apply map_cong)
    also have "\<dots> = map int [0..<?n]"
      using short by (simp add: key_of_index)
    finally show ?thesis by (simp add: write_row_def comp_def)
  qed
  then have "row_seq ` set (map write_row (entries l)) = int ` {0..<?n}"
    by (metis image_set set_map set_upt)
  moreover have "row_seq (write_row e) = int ?n"
    using short by (simp add: write_row_def seq key_of_index)
  ultimately have "\<forall>y\<in>set (map write_row (entries l)). row_seq y < row_seq (write_row e)"
    by (metis atLeastLessThan_iff image_iff of_nat_less_iff)
  then have "insert_row True (write_row e) (map write_row (entries l)) = map write_row (entries l @ [e])"
    by (auto simp: insert_row_def insort_key_end)
  then show ?thesis
    using inv short seq by (simp add: e table_inv_def)
qed

lemma table_inv_start: "table_inv (with_db [])"
  by (simp add: table_inv_def with_db_def List.map_filter_def)

lemma table_inv_step: "table_inv l \<Longrightarrow> stored l e \<Longrightarrow> table_inv (audit_step sha l e)"
proof (cases e)
  case (OpRecord t ok a act d r)
  assume "table_inv l" "stored l e"
  then show ?thesis using table_inv_record by (simp add: OpRecord)
next
  case OpRestart
  assume inv: "table_inv l"
  then show ?thesis using table_inv_reload [OF inv] by (auto simp: OpRestart table_inv_def split: option.split)
qed

interpretation table: machine "audit_step sha" stored table_inv for sha
  by unfold_locales (rule table_inv_step)

section \<open>Tampering\<close>

text \<open>The hash has no collision among these logs, and never gives the genesis value.\<close>

definition no_collision :: "(string \<Rightarrow> string) \<Rightarrow> audit_entry list \<Rightarrow> bool" where
  "no_collision sha es \<longleftrightarrow> inj_on sha (hashed_bytes ` set es) \<and> genesis \<notin> sha ` hashed_bytes ` set es"

text \<open>The previous hash ends the hashed bytes, so equal bytes of entries of one hash length have equal ones.\<close>

lemma hashed_bytes_prev:
  "hashed_bytes e = hashed_bytes f \<Longrightarrow> length (prev_hash e) = length (prev_hash f) \<Longrightarrow> prev_hash e = prev_hash f"
  by (simp add: hashed_bytes_def flip: append_assoc)

lemma tips_determine_bytes:
  assumes "verify_from sha genesis es = Inr ()" "verify_from sha genesis fs = Inr ()"
    and "chain_tip genesis es = chain_tip genesis fs" "no_collision sha (es @ fs)"
    and len: "\<And>x. length (sha x) = 64"
  shows "map hashed_bytes es = map hashed_bytes fs"
  using assms(1-4)
proof (induction es arbitrary: fs rule: rev_induct)
  case Nil
  then show ?case
    by (cases fs rule: rev_cases) (auto simp: no_collision_def verify_snoc)
next
  case (snoc e es)
  show ?case
  proof (cases fs rule: rev_cases)
    case Nil
    with snoc.prems show ?thesis by (auto simp: no_collision_def verify_snoc)
  next
    case (snoc fs' f)
    note fs = snoc
    from snoc.prems fs have hashes: "sha (hashed_bytes e) = sha (hashed_bytes f)"
      and chains: "verify_from sha genesis es = Inr ()" "verify_from sha genesis fs' = Inr ()"
      and prevs: "prev_hash e = chain_tip genesis es" "prev_hash f = chain_tip genesis fs'"
      by (auto simp: verify_snoc)
    from snoc.prems(4) hashes fs have bytes: "hashed_bytes e = hashed_bytes f"
      by (auto simp: no_collision_def dest: inj_onD)
    have sixty_four: "length (chain_tip genesis gs) = 64" if "verify_from sha genesis gs = Inr ()" for gs
      using that len by (cases gs rule: rev_cases) (auto simp: genesis_def verify_snoc)
    with chains prevs hashed_bytes_prev [OF bytes] have "chain_tip genesis es = chain_tip genesis fs'" by simp
    moreover have "no_collision sha (es @ fs')"
      using snoc.prems(4) fs by (auto simp: no_collision_def intro: inj_on_subset)
    ultimately show ?thesis
      using snoc.IH [OF chains] bytes fs by simp
  qed
qed

lemma verify_same_bytes:
  assumes "hashed_bytes f = hashed_bytes e" "prev_hash f = prev_hash e" "entry_hash f = entry_hash e"
  shows "verify_from sha p (es @ f # fs) = Inr () \<longleftrightarrow> verify_from sha p (es @ e # fs) = Inr ()"
  using assms by (simp add: verify_append compute_entry_hash_def)

section \<open>Properties\<close>

text \<open>
  The chain the program writes verifies. After any sequence of recorded events from a new
  log, whatever the database does, \<open>verify_integrity\<close> finds the chain intact and the tip is the
  hash of the last entry.
\<close>

theorem recorded_chain_verifies:
  assumes "list_all is_record es"
  shows "verify_integrity sha (run (audit_step sha) new_log es) = Inr ()
    \<and> tip_hash (run (audit_step sha) new_log es) = chain_tip genesis (entries (run (audit_step sha) new_log es))"
proof -
  have "run_ok (\<lambda>_ e. is_record e) (audit_step sha) l es" for l
    using assms by (induction es arbitrary: l) auto
  moreover have "chain_inv sha new_log" by (simp add: chain_inv_def new_log_def)
  ultimately have "chain_inv sha (run (audit_step sha) new_log es)" using chain.run_inv by blast
  then show ?thesis by (simp add: chain_inv_def verify_integrity_def tip_hash_def)
qed

theorem recorded_chain_verifies_witness:
  "verify_integrity rev (run (audit_step rev) new_log
     [OpRecord ''t1'' True ''a'' ShellExec ''ls'' ''ok'', OpRecord ''t2'' False ''a'' FileAccess ''f'' ''denied'']) = Inr ()"
  by (rule recorded_chain_verifies [THEN conjunct1]) simp

text \<open>
  The log survives restarts. When every insert reached the table, then after any history of
  events and restarts a further restart reads back exactly the log that was written: the
  entries with their actions, the tip and the table.
\<close>

theorem restart_restores_log:
  assumes "run_ok stored (audit_step sha) (with_db []) es"
  shows "audit_step sha (run (audit_step sha) (with_db []) es) OpRestart = run (audit_step sha) (with_db []) es"
proof -
  have inv: "table_inv (run (audit_step sha) (with_db []) es)"
    by (rule table.run_inv [OF table_inv_start assms])
  then show ?thesis
    using table_inv_reload [OF inv] by (auto simp: table_inv_def)
qed

theorem restart_restores_log_witness:
  "audit_step rev (run (audit_step rev) (with_db [])
     [OpRecord ''t1'' True ''a'' ShellExec ''ls'' ''ok'', OpRestart, OpRecord ''t2'' True ''a'' WireConnect ''p'' ''ok'']) OpRestart
   = run (audit_step rev) (with_db [])
     [OpRecord ''t1'' True ''a'' ShellExec ''ls'' ''ok'', OpRestart, OpRecord ''t2'' True ''a'' WireConnect ''p'' ''ok'']"
  by (rule restart_restores_log)
     (simp add: with_db_def record_event_def Let_def List.map_filter_def read_row_def write_row_def insert_row_def new_entry_props)

text \<open>
  What the chain protects. Two logs that both verify and end in the same tip hashed the same
  bytes entry by entry, so they are of the same length, as long as the hash has no collision
  among them, gives 64 characters and never the genesis value.
\<close>

theorem chain_is_tamper_evident:
  assumes "verify_integrity sha l = Inr ()" "verify_integrity sha l' = Inr ()"
    and "chain_tip genesis (entries l) = chain_tip genesis (entries l')"
    and "no_collision sha (entries l @ entries l')" "\<And>x. length (sha x) = 64"
  shows "map hashed_bytes (entries l) = map hashed_bytes (entries l')"
  using assms tips_determine_bytes unfolding verify_integrity_def by blast

text \<open>A stand-in of 64 characters for the examples.\<close>

definition toy_sha :: "string \<Rightarrow> string" where
  "toy_sha x = CHR ''h'' # take 63 (x @ replicate 63 CHR ''x'')"

lemma length_toy_sha: "length (toy_sha x) = 64"
  by (simp add: toy_sha_def)

lemma toy_sha_not_genesis: "genesis \<noteq> toy_sha x"
proof
  assume "genesis = toy_sha x"
  then have "hd (replicate 64 CHR ''0'') = CHR ''h''" by (metis genesis_def list.sel(1) toy_sha_def)
  then show False by simp
qed

definition toy_entry :: audit_entry where
  "toy_entry = new_entry toy_sha ''t'' new_log ''a'' ShellExec ''rm '' ''denied''"

definition toy_forgery :: audit_entry where
  "toy_forgery = toy_entry\<lparr>detail := ''rm denied'', outcome := []\<rparr>"

lemma toy_forgery_bytes: "hashed_bytes toy_forgery = hashed_bytes toy_entry" "toy_forgery \<noteq> toy_entry"
  by (simp_all add: toy_forgery_def toy_entry_def new_entry_def Let_def hashed_bytes_def)

theorem chain_is_tamper_evident_witness:
  "map hashed_bytes [toy_entry] = map hashed_bytes [toy_forgery]"
proof -
  have real: "verify_from toy_sha genesis [toy_entry] = Inr ()"
    by (simp add: toy_entry_def new_entry_props compute_entry_hash_def) (simp add: new_log_def)
  moreover have "verify_from toy_sha genesis [toy_forgery] = Inr ()"
    using verify_same_bytes [of toy_forgery toy_entry toy_sha genesis "[]" "[]"] toy_forgery_bytes(1) real
    by (simp add: toy_forgery_def)
  moreover have "no_collision toy_sha [toy_entry, toy_forgery]"
    using toy_forgery_bytes(1) by (simp add: no_collision_def toy_sha_not_genesis)
  moreover have "entry_hash toy_entry = entry_hash toy_forgery" by (simp add: toy_forgery_def)
  ultimately show ?thesis
    using chain_is_tamper_evident [of toy_sha "new_log\<lparr>entries := [toy_entry]\<rparr>" "new_log\<lparr>entries := [toy_forgery]\<rparr>"]
    by (simp add: verify_integrity_def length_toy_sha)
qed

text \<open>
  What the chain does not protect. The fields are hashed without separators, so an entry may
  be rewritten by moving the end of its detail into its outcome, and entries may be cut off the
  end of the log: in both cases the log still verifies, without any collision of the hash.
\<close>

theorem forged_log_verifies:
  assumes "verify_integrity sha l = Inr ()" "entries l = es @ e # fs" "detail e = d @ x"
  shows "verify_integrity sha (l\<lparr>entries := es @ e\<lparr>detail := d, outcome := x @ outcome e\<rparr> # fs\<rparr>) = Inr ()
    \<and> verify_integrity sha (l\<lparr>entries := take n (entries l)\<rparr>) = Inr ()"
proof
  show "verify_integrity sha (l\<lparr>entries := es @ e\<lparr>detail := d, outcome := x @ outcome e\<rparr> # fs\<rparr>) = Inr ()"
    using assms verify_same_bytes [of "e\<lparr>detail := d, outcome := x @ outcome e\<rparr>" e sha genesis es fs]
    by (simp add: verify_integrity_def hashed_bytes_def)
  show "verify_integrity sha (l\<lparr>entries := take n (entries l)\<rparr>) = Inr ()"
    using assms(1) verify_append [of sha genesis "take n (entries l)" "drop n (entries l)"]
    by (simp add: verify_integrity_def)
qed

theorem forged_log_verifies_witness:
  "verify_integrity rev (new_log\<lparr>entries := [(new_entry rev ''t'' new_log ''a'' ShellExec ''rm ok'' ''denied'')
      \<lparr>detail := ''rm '', outcome := ''okdenied''\<rparr>]\<rparr>) = Inr ()"
proof -
  let ?e = "new_entry rev ''t'' new_log ''a'' ShellExec ''rm ok'' ''denied''"
  have "verify_integrity rev (new_log\<lparr>entries := [?e]\<rparr>) = Inr ()"
    by (simp add: verify_integrity_def new_entry_props compute_entry_hash_def) (simp add: new_log_def)
  moreover have "detail ?e = ''rm '' @ ''ok''" "outcome ?e = ''denied''" by (simp_all add: new_entry_def Let_def)
  ultimately show ?thesis
    using forged_log_verifies [of rev "new_log\<lparr>entries := [?e]\<rparr>" "[]" ?e "[]" "''rm ''" "''ok''"] by simp
qed

end
