(* ===== verification/Retry.thy ===== *)
theory Retry
  imports Prelude
begin

text \<open>
  Retry with exponential backoff: \<open>openfang-runtime/src/retry.rs\<close>. The closures of
  \<open>retry_async\<close>, the sleep and the pseudo-random fraction read from the clock are the fields of
  the parameter \<open>retry_env\<close>, over a type of worlds the closures act on. The jitter product is
  exact; \<open>f64\<close> rounding of delays above \<open>2 ^ 53\<close> milliseconds is not modelled.
\<close>

section \<open>Configuration and backoff\<close>

record retry_config =
  max_attempts :: u32
  min_delay_ms :: u64
  max_delay_ms :: u64
  jitter :: rat

definition default_retry_config :: retry_config where
  "default_retry_config = \<lparr>max_attempts = 3, min_delay_ms = 300, max_delay_ms = 30000, jitter = 1 / 5\<rparr>"

definition llm_retry_config :: retry_config where
  "llm_retry_config = \<lparr>max_attempts = 3, min_delay_ms = 1000, max_delay_ms = 60000, jitter = 1 / 5\<rparr>"

definition network_retry_config :: retry_config where
  "network_retry_config = \<lparr>max_attempts = 3, min_delay_ms = 500, max_delay_ms = 30000, jitter = 1 / 10\<rparr>"

definition channel_retry_config :: retry_config where
  "channel_retry_config = \<lparr>max_attempts = 3, min_delay_ms = 400, max_delay_ms = 15000, jitter = 1 / 10\<rparr>"

text \<open>\<open>1u64.checked_shl(attempt).unwrap_or(u64::MAX)\<close>.\<close>

definition shifted_one :: "u32 \<Rightarrow> u64" where
  "shifted_one attempt = (if unat attempt < 64 then push_bit (unat attempt) 1 else - 1)"

definition compute_backoff :: "rat \<Rightarrow> retry_config \<Rightarrow> u32 \<Rightarrow> u64" where
  "compute_backoff fr cfg attempt =
     (let base = saturating_mul (min_delay_ms cfg) (shifted_one attempt);
          capped = min base (max_delay_ms cfg)
      in if jitter cfg \<le> 0 then capped
         else
           let jitter_offset = of_nat (unat capped) * fr * jitter cfg;
               with_jitter = of_nat (unat capped) + jitter_offset
           in min (cast_u64 with_jitter) (max_delay_ms cfg))"

text \<open>\<open>pseudo_random_fraction\<close> from the nanoseconds of the clock.\<close>

definition pseudo_random_fraction :: "u32 \<Rightarrow> rat" where
  "pseudo_random_fraction nanos = of_nat (unat (nanos * 2654435761)) / of_nat (2 ^ 32 - 1)"

section \<open>The loop\<close>

datatype ('t, 'e) retry_outcome =
    Success 't u32
  | Exhausted 'e u32

record ('w, 't, 'e) retry_env =
  operation :: "'w \<Rightarrow> ('e + 't) \<times> 'w"
  should_retry :: "'e \<Rightarrow> bool"
  retry_after_hint :: "'e \<Rightarrow> u64 option"
  nanos_now :: "'w \<Rightarrow> u32"
  sleep_ms :: "u64 \<Rightarrow> 'w \<Rightarrow> 'w"

definition delay_for :: "('w, 't, 'e) retry_env \<Rightarrow> retry_config \<Rightarrow> u32 \<Rightarrow> 'e \<Rightarrow> 'w \<Rightarrow> u64" where
  "delay_for env cfg attempt err w =
     (case retry_after_hint env err of
        Some hinted \<Rightarrow> min hinted (max_delay_ms cfg)
      | None \<Rightarrow> compute_backoff (pseudo_random_fraction (nanos_now env w)) cfg attempt)"

text \<open>
  The attempts left after the current one drive the recursion; it is zero exactly when
  \<open>attempt + 1 >= max\<close>.
\<close>

fun retry_from ::
  "('w, 't, 'e) retry_env \<Rightarrow> retry_config \<Rightarrow> nat \<Rightarrow> u32 \<Rightarrow> 'w \<Rightarrow> ('t, 'e) retry_outcome \<times> 'w" where
  "retry_from env cfg left attempt w =
     (case operation env w of
        (Inr result, w1) \<Rightarrow> (Success result (attempt + 1), w1)
      | (Inl err, w1) \<Rightarrow>
          if left = 0 \<or> \<not> should_retry env err then (Exhausted err (attempt + 1), w1)
          else retry_from env cfg (left - 1) (attempt + 1) (sleep_ms env (delay_for env cfg attempt err w1) w1))"

declare retry_from.simps [simp del]

definition retry_async :: "('w, 't, 'e) retry_env \<Rightarrow> retry_config \<Rightarrow> 'w \<Rightarrow> ('t, 'e) retry_outcome \<times> 'w" where
  "retry_async env cfg w = retry_from env cfg (unat (max (max_attempts cfg) 1) - 1) 0 w"

section \<open>Bounds of the delays\<close>

lemma unat_shifted_one: "unat (shifted_one k) = min (2 ^ unat k) (2 ^ 64 - 1)"
proof (cases "unat k < 64")
  case True
  then have "(2 :: nat) ^ unat k \<le> 2 ^ 63" by (intro power_increasing) auto
  moreover have "unat (of_nat (2 ^ unat k) :: u64) = 2 ^ unat k mod 2 ^ 64"
    by (simp only: unsigned_of_nat take_bit_eq_mod) simp
  ultimately show ?thesis
    using True by (simp add: shifted_one_def push_bit_eq_mult min_def)
next
  case False
  then have "(2 :: nat) ^ 64 \<le> 2 ^ unat k" by (intro power_increasing) auto
  then have "(2 :: nat) ^ 64 - 1 \<le> 2 ^ unat k" by linarith
  with False show ?thesis by (simp add: shifted_one_def unat_minus_one_word min_def)
qed

lemma unat_min_word: "unat (min a b) = min (unat a) (unat (b :: 'a::len word))"
  by (simp add: min_def word_le_nat_alt)

lemma min_mult_cap:
  fixes a b c m :: nat
  assumes "c \<le> m"
  shows "min (min (a * min b m) m) c = min (a * b) c"
proof (cases "b \<le> m")
  case True
  with assms show ?thesis by (simp add: min_def)
next
  case False
  then have "a * m \<le> a * b" by simp
  show ?thesis
  proof (cases a)
    case 0
    then show ?thesis using assms by simp
  next
    case (Suc n)
    then have "m \<le> a * m" by simp
    moreover from this \<open>a * m \<le> a * b\<close> have "c \<le> a * b" using assms by linarith
    ultimately show ?thesis using False assms by (simp add: min.absorb1 min.absorb2)
  qed
qed

lemma capped_base:
  "unat (min (saturating_mul (min_delay_ms cfg) (shifted_one k)) (max_delay_ms cfg))
    = min (unat (min_delay_ms cfg) * 2 ^ unat k) (unat (max_delay_ms cfg))"
proof -
  have "unat (max_delay_ms cfg) \<le> 2 ^ 64 - 1"
    using unat_lt_2p [of "max_delay_ms cfg"] by simp
  then show ?thesis
    using min_mult_cap [of "unat (max_delay_ms cfg)" "2 ^ 64 - 1"]
    by (simp add: unat_min_word unat_saturating_mul unat_shifted_one)
qed

section \<open>Counting and scripted closures\<close>

text \<open>The environment with every call and every sleep recorded beside its world.\<close>

definition recording :: "('w, 't, 'e) retry_env \<Rightarrow> ('w \<times> nat \<times> u64 list, 't, 'e) retry_env" where
  "recording env =
     \<lparr>operation = (\<lambda>(w, calls, sleeps). (case operation env w of (r, w') \<Rightarrow> (r, w', calls + 1, sleeps))),
      should_retry = should_retry env, retry_after_hint = retry_after_hint env,
      nanos_now = (\<lambda>(w, _). nanos_now env w),
      sleep_ms = (\<lambda>d (w, calls, sleeps). (sleep_ms env d w, calls, sleeps @ [d]))\<rparr>"

lemma delay_le: "delay_for env cfg k e w \<le> max_delay_ms cfg"
  by (auto simp: delay_for_def compute_backoff_def Let_def split: option.split)

fun attempts_of :: "('t, 'e) retry_outcome \<Rightarrow> u32" where
  "attempts_of (Success _ n) = n"
| "attempts_of (Exhausted _ n) = n"

lemma retry_from_recorded:
  assumes "retry_from (recording env) cfg left k (w, calls, sleeps) = (oc, w', calls', sleeps')"
  shows "\<exists>more. sleeps' = sleeps @ more \<and> calls' = calls + length more + 1 \<and> length more \<le> left
    \<and> attempts_of oc = k + of_nat (length more) + 1 \<and> (\<forall>d\<in>set more. d \<le> max_delay_ms cfg)"
  using assms
proof (induction left arbitrary: k w calls sleeps)
  case 0
  then show ?case
    by (auto simp: retry_from.simps [of _ _ 0] recording_def split: prod.splits sum.splits)
next
  case (Suc left)
  obtain r w1 where r: "operation env w = (r, w1)" by force
  show ?case
  proof (cases r)
    case (Inr x)
    with Suc.prems r show ?thesis by (auto simp: retry_from.simps [of _ _ "Suc left"] recording_def)
  next
    case (Inl e)
    show ?thesis
    proof (cases "should_retry env e")
      case False
      with Suc.prems r Inl show ?thesis by (auto simp: retry_from.simps [of _ _ "Suc left"] recording_def)
    next
      case True
      let ?d = "delay_for (recording env) cfg k e (w1, calls + 1, sleeps)"
      from Suc.prems r Inl True
      have "retry_from (recording env) cfg left (k + 1) (sleep_ms env ?d w1, calls + 1, sleeps @ [?d])
          = (oc, w', calls', sleeps')"
        by (simp add: retry_from.simps [of _ _ "Suc left"]) (simp add: recording_def)
      from Suc.IH [OF this] obtain more where
        "sleeps' = sleeps @ ?d # more" "calls' = calls + 1 + length more + 1" "length more \<le> left"
        "attempts_of oc = k + 1 + of_nat (length more) + 1" "\<forall>d\<in>set more. d \<le> max_delay_ms cfg"
        by auto
      then show ?thesis
        using delay_le by (intro exI [of _ "?d # more"]) (auto simp: algebra_simps)
    qed
  qed
qed

text \<open>An operation that gives the outcomes of a script in turn; the world is what is left of it.\<close>

definition scripted :: "('e \<Rightarrow> bool) \<Rightarrow> ('e \<Rightarrow> u64 option) \<Rightarrow> (('e + 't) list, 't, 'e) retry_env" where
  "scripted retryable hint =
     \<lparr>operation = (\<lambda>rs. (hd rs, tl rs)), should_retry = retryable, retry_after_hint = hint,
      nanos_now = (\<lambda>_. 0), sleep_ms = (\<lambda>_ rs. rs)\<rparr>"

lemma retry_script_succeeds:
  "list_all retryable errs \<Longrightarrow> length errs \<le> left \<Longrightarrow>
    retry_from (scripted retryable hint) cfg left k (map Inl errs @ Inr r # rest) = (Success r (k + of_nat (length errs) + 1), rest)"
proof (induction errs arbitrary: left k)
  case Nil
  then show ?case by (simp add: retry_from.simps scripted_def)
next
  case (Cons e errs)
  then obtain l where "left = Suc l" by (cases left) auto
  with Cons show ?case
    by (subst retry_from.simps) (simp add: scripted_def algebra_simps)
qed

section \<open>Properties\<close>

text \<open>
  Backoff bounds. For every configuration, attempt and random fraction the delay lies
  between the exponential delay \<open>min_delay * 2 ^ attempt\<close> capped at the maximum and the maximum;
  without jitter it is that capped delay, at any attempt, overflow included.
\<close>

theorem backoff_bounds:
  assumes "0 \<le> fr"
  shows "min (unat (min_delay_ms cfg) * 2 ^ unat k) (unat (max_delay_ms cfg)) \<le> unat (compute_backoff fr cfg k)
    \<and> unat (compute_backoff fr cfg k) \<le> unat (max_delay_ms cfg)
    \<and> (jitter cfg \<le> 0 \<longrightarrow>
        unat (compute_backoff fr cfg k) = min (unat (min_delay_ms cfg) * 2 ^ unat k) (unat (max_delay_ms cfg)))"
proof -
  let ?c = "min (saturating_mul (min_delay_ms cfg) (shifted_one k)) (max_delay_ms cfg)"
  let ?x = "rat_of_nat (unat ?c) + of_nat (unat ?c) * fr * jitter cfg"
  have jittered: "?c \<le> cast_u64 ?x" if "0 < jitter cfg"
  proof -
    have "0 \<le> rat_of_nat (unat ?c) * fr * jitter cfg"
      using that assms by (intro mult_nonneg_nonneg of_nat_0_le_iff) simp_all
    then have ge: "rat_of_nat (unat ?c) \<le> ?x" by linarith
    have "unat ?c < 2 ^ 64" using unat_lt_2p [of ?c] by (simp only: len_num1 len_bit0 mult_1_right) simp
    from cast_u64_ge [OF ge this] show ?thesis by (simp only: word_le_nat_alt)
  qed
  then show ?thesis
    unfolding capped_base [symmetric] word_le_nat_alt [symmetric]
    by (auto simp: compute_backoff_def Let_def not_le)
qed

theorem backoff_bounds_witness:
  "min (1000 * 2 ^ 10) 60000 \<le> unat (compute_backoff (1 / 2) llm_retry_config 10)"
  using backoff_bounds [of "1 / 2" llm_retry_config 10] by (simp add: llm_retry_config_def)

text \<open>
  Retries are bounded. Whatever the operation and the hints do, it is called at most
  \<open>max_attempts\<close> times (once when that is zero), the attempts reported are the calls made, there
  is one sleep between two calls, and no sleep is longer than the maximal delay.
\<close>

theorem retry_is_bounded:
  "(let (oc, w', calls, sleeps) = retry_async (recording env) cfg (w, 0, [])
    in calls \<le> unat (max (max_attempts cfg) 1) \<and> attempts_of oc = of_nat calls \<and> calls = length sleeps + 1
       \<and> filter (\<lambda>d. d > max_delay_ms cfg) sleeps = [])"
proof -
  obtain oc w' calls sleeps where r: "retry_async (recording env) cfg (w, 0, []) = (oc, w', calls, sleeps)"
    by (metis surj_pair)
  have "1 \<le> max (max_attempts cfg) 1" by simp
  then have "0 < unat (max (max_attempts cfg) 1)" by (simp add: word_le_nat_alt)
  with retry_from_recorded [OF r [unfolded retry_async_def]] show ?thesis
    unfolding r by (auto simp: filter_empty_conv not_less)
qed

text \<open>
  C38: retries succeed when they can. If the operation fails fewer times than there are attempts,
  each time with an error that may be retried, and then succeeds, the outcome is that success,
  reported with the number of calls.
\<close>

theorem retry_eventually_succeeds:
  assumes "list_all retryable errs" "length errs < unat (max_attempts cfg)"
  shows "retry_async (scripted retryable hint) cfg (map Inl errs @ Inr r # rest)
    = (Success r (of_nat (length errs) + 1), rest)"
proof -
  have "1 \<le> max_attempts cfg" using assms(2) by (simp add: word_le_nat_alt)
  then have "length errs \<le> unat (max (max_attempts cfg) 1) - 1" using assms(2) by (simp add: max_def)
  with retry_script_succeeds [OF assms(1), of _ hint cfg 0 r rest] show ?thesis
    by (simp add: retry_async_def)
qed

theorem retry_eventually_succeeds_witness:
  "retry_async (scripted (\<lambda>e. e = ''timeout'') (\<lambda>_. None)) default_retry_config
     [Inl ''timeout'', Inl ''timeout'', Inr ''answer'', Inl ''x''] = (Success ''answer'' 3, [Inl ''x''])"
  using retry_eventually_succeeds [of "\<lambda>e. e = ''timeout''" "[''timeout'', ''timeout'']" default_retry_config
      "\<lambda>_. None" "''answer''" "[Inl ''x'']"]
  by (simp add: default_retry_config_def)

end
