(* ===== verification/Agents.thy ===== *)
theory Agents
  imports Capability Scheduler StrUtils
begin

text \<open>
  Agents and their manifests: the types and functions of \<open>openfang-types/src/agent.rs\<close> (the
  resource quota is in \<open>Scheduler\<close>), \<open>ExecPolicy\<close> and \<open>BudgetConfig\<close> of
  \<open>openfang-types/src/config.rs\<close>, and the functions of \<open>openfang-kernel/src/kernel.rs\<close> that
  read a manifest: \<open>manifest_to_capabilities\<close>, \<open>apply_budget_defaults\<close>,
  \<open>merge_disk_manifest_preserving_kernel_defaults\<close>, \<open>effective_fallback_base_url\<close> and
  \<open>infer_provider_from_model\<close>. Paths are strings, an \<open>f32\<close> is an \<open>f64\<close> that is only copied.
\<close>

section \<open>States, modes and profiles\<close>

datatype agent_state = Created | Running | Suspended | Terminated | Crashed

datatype agent_mode = Observe | Assist | Full

record tool_definition =
  tool_name :: string
  tool_description :: string
  input_schema :: json

definition read_only_tools :: "string list" where
  "read_only_tools =
     [''file_read'', ''file_list'', ''memory_recall'', ''web_fetch'', ''web_search'', ''agent_list'']"

fun filter_tools :: "agent_mode \<Rightarrow> tool_definition list \<Rightarrow> tool_definition list" where
  "filter_tools Observe tools = []"
| "filter_tools Assist tools = filter (\<lambda>t. tool_name t \<in> set read_only_tools) tools"
| "filter_tools Full tools = tools"

datatype schedule_mode =
    Reactive
  | Periodic string
  | Proactive "string list"
  | Continuous u64

datatype priority = Low | Normal | High | Critical

text \<open>The derived order of \<open>Priority\<close> is that of the discriminants.\<close>

fun priority_rank :: "priority \<Rightarrow> nat" where
  "priority_rank Low = 0"
| "priority_rank Normal = 1"
| "priority_rank High = 2"
| "priority_rank Critical = 3"

instantiation priority :: linorder
begin

definition less_eq_priority :: "priority \<Rightarrow> priority \<Rightarrow> bool" where
  "less_eq_priority a b = (priority_rank a \<le> priority_rank b)"

definition less_priority :: "priority \<Rightarrow> priority \<Rightarrow> bool" where
  "less_priority a b = (priority_rank a < priority_rank b)"

instance
proof
  fix a b :: priority
  show "a \<le> b \<Longrightarrow> b \<le> a \<Longrightarrow> a = b" by (cases a; cases b) (simp_all add: less_eq_priority_def)
qed (auto simp: less_eq_priority_def less_priority_def)

end

datatype tool_profile =
    Minimal | Coding | Research | Messaging | Automation | FullProfile | CustomProfile

fun profile_tools :: "tool_profile \<Rightarrow> string list" where
  "profile_tools Minimal = [''file_read'', ''file_list'']"
| "profile_tools Coding = [''file_read'', ''file_write'', ''file_list'', ''shell_exec'', ''web_fetch'']"
| "profile_tools Research = [''web_fetch'', ''web_search'', ''file_read'', ''file_write'']"
| "profile_tools Messaging = [''agent_send'', ''agent_list'', ''memory_store'', ''memory_recall'']"
| "profile_tools Automation =
     [''file_read'', ''file_write'', ''file_list'', ''shell_exec'', ''web_fetch'', ''web_search'',
      ''agent_send'', ''agent_list'', ''memory_store'', ''memory_recall'']"
| "profile_tools FullProfile = [''*'']"
| "profile_tools CustomProfile = [''*'']"

record manifest_capabilities =
  cap_network :: "string list"
  cap_tools :: "string list"
  cap_memory_read :: "string list"
  cap_memory_write :: "string list"
  cap_agent_spawn :: bool
  cap_agent_message :: "string list"
  cap_shell :: "string list"
  cap_ofp_discover :: bool
  cap_ofp_connect :: "string list"

definition no_capabilities :: manifest_capabilities where
  "no_capabilities = \<lparr>cap_network = [], cap_tools = [], cap_memory_read = [], cap_memory_write = [],
     cap_agent_spawn = False, cap_agent_message = [], cap_shell = [], cap_ofp_discover = False,
     cap_ofp_connect = []\<rparr>"

definition implied_capabilities :: "tool_profile \<Rightarrow> manifest_capabilities" where
  "implied_capabilities p =
     (let tools = profile_tools p;
          has_net = list_ex (\<lambda>t. starts_with t ''web_'' \<or> t = ''*'') tools;
          has_shell = list_ex (\<lambda>t. t = ''shell_exec'' \<or> t = ''*'') tools;
          has_agent = list_ex (\<lambda>t. starts_with t ''agent_'' \<or> t = ''*'') tools;
          has_memory = list_ex (\<lambda>t. starts_with t ''memory_'' \<or> t = ''*'') tools
      in \<lparr>cap_network = (if has_net then [''*''] else []),
          cap_tools = tools,
          cap_memory_read = (if has_memory then [''*''] else [''self.*'']),
          cap_memory_write = [''self.*''],
          cap_agent_spawn = has_agent,
          cap_agent_message = (if has_agent then [''*''] else []),
          cap_shell = (if has_shell then [''*''] else []),
          cap_ofp_discover = False,
          cap_ofp_connect = []\<rparr>)"

section \<open>Manifests\<close>

record model_config =
  model_provider :: string
  model_name :: string
  model_max_tokens :: u32
  model_temperature :: f64
  system_prompt :: string
  model_api_key_env :: "string option"
  model_base_url :: "string option"

definition default_model_config :: model_config where
  "default_model_config = \<lparr>model_provider = ''anthropic'', model_name = ''claude-sonnet-4-20250514'',
     model_max_tokens = 4096, model_temperature = Finite (7 / 10),
     system_prompt = ''You are a helpful AI agent.'', model_api_key_env = None, model_base_url = None\<rparr>"

record fallback_model =
  fb_provider :: string
  fb_model :: string
  fb_api_key_env :: "string option"
  fb_base_url :: "string option"

record model_routing_config =
  simple_model :: string
  medium_model :: string
  complex_model :: string
  simple_threshold :: u32
  complex_threshold :: u32

definition default_routing_config :: model_routing_config where
  "default_routing_config = \<lparr>simple_model = ''claude-haiku-4-5-20251001'',
     medium_model = ''claude-sonnet-4-20250514'', complex_model = ''claude-sonnet-4-20250514'',
     simple_threshold = 100, complex_threshold = 500\<rparr>"

record autonomous_config =
  quiet_hours :: "string option"
  auto_max_iterations :: u32
  auto_max_restarts :: u32
  heartbeat_interval_secs :: u64
  heartbeat_channel :: "string option"

definition default_autonomous_config :: autonomous_config where
  "default_autonomous_config = \<lparr>quiet_hours = None, auto_max_iterations = 50, auto_max_restarts = 10,
     heartbeat_interval_secs = 30, heartbeat_channel = None\<rparr>"

datatype exec_security_mode = ExecDeny | ExecAllowlist | ExecFull

record exec_policy =
  exec_mode :: exec_security_mode
  safe_bins :: "string list"
  allowed_commands :: "string list"
  exec_timeout_secs :: u64
  max_output_bytes :: usize
  no_output_timeout_secs :: u64
  shell_env_passthrough :: "string list"

definition default_exec_policy :: exec_policy where
  "default_exec_policy = \<lparr>exec_mode = ExecAllowlist,
     safe_bins = [''sleep'', ''true'', ''false'', ''cat'', ''sort'', ''uniq'', ''cut'', ''tr'', ''head'',
       ''tail'', ''wc'', ''date'', ''echo'', ''printf'', ''basename'', ''dirname'', ''pwd'', ''env''],
     allowed_commands = [], exec_timeout_secs = 30, max_output_bytes = 100 * 1024,
     no_output_timeout_secs = 30, shell_env_passthrough = []\<rparr>"

record agent_manifest =
  man_name :: string
  man_version :: string
  man_description :: string
  man_author :: string
  man_module :: string
  man_schedule :: schedule_mode
  man_model :: model_config
  fallback_models :: "fallback_model list"
  man_resources :: resource_quota
  man_priority :: priority
  man_capabilities :: manifest_capabilities
  man_profile :: "tool_profile option"
  man_tools :: "(string, (string, json) dashmap) dashmap"
  man_skills :: "string list"
  man_mcp_servers :: "string list"
  man_metadata :: "(string, json) dashmap"
  man_tags :: "string list"
  man_routing :: "model_routing_config option"
  man_autonomous :: "autonomous_config option"
  pinned_model :: "string option"
  man_workspace :: "string option"
  man_state_dir :: "string option"
  generate_identity_files :: bool
  man_exec_policy :: "exec_policy option"
  tool_allowlist :: "string list"
  tool_blocklist :: "string list"
  cache_context :: bool
  max_history_messages :: "usize option"

definition default_manifest :: agent_manifest where
  "default_manifest = \<lparr>man_name = ''unnamed'', man_version = ''0.1.0'', man_description = [],
     man_author = [], man_module = ''builtin:chat'', man_schedule = Reactive,
     man_model = default_model_config, fallback_models = [], man_resources = default_quota,
     man_priority = Normal, man_capabilities = no_capabilities, man_profile = None, man_tools = [],
     man_skills = [], man_mcp_servers = [], man_metadata = [], man_tags = [], man_routing = None,
     man_autonomous = None, pinned_model = None, man_workspace = None, man_state_dir = None,
     generate_identity_files = True, man_exec_policy = None, tool_allowlist = [], tool_blocklist = [],
     cache_context = False, max_history_messages = None\<rparr>"

definition DEFAULT_MAX_HISTORY_MESSAGES :: usize where
  "DEFAULT_MAX_HISTORY_MESSAGES = 20"

definition effective_max_history_messages :: "agent_manifest \<Rightarrow> usize" where
  "effective_max_history_messages m =
     (case max_history_messages m of
        Some n \<Rightarrow> if n > 0 then n else DEFAULT_MAX_HISTORY_MESSAGES
      | None \<Rightarrow> DEFAULT_MAX_HISTORY_MESSAGES)"

datatype label_error = LabelLength | LabelChars

definition session_label :: "string \<Rightarrow> label_error + string" where
  "session_label label =
     (let trimmed = trim label
      in if trimmed = [] \<or> length trimmed > 128 then Inl LabelLength
         else if \<not> list_all (\<lambda>c. is_alnum c \<or> c = CHR '' '' \<or> c = CHR ''-'' \<or> c = CHR ''_'') trimmed
         then Inl LabelChars
         else Inr trimmed)"

section \<open>Registered agents\<close>

record agent_identity =
  emoji :: "string option"
  avatar_url :: "string option"
  identity_color :: "string option"
  archetype :: "string option"
  vibe :: "string option"
  greeting_style :: "string option"

definition default_identity :: agent_identity where
  "default_identity = \<lparr>emoji = None, avatar_url = None, identity_color = None, archetype = None,
     vibe = None, greeting_style = None\<rparr>"

record agent_entry =
  entry_id :: uuid
  entry_name :: string
  manifest :: agent_manifest
  agent_state :: agent_state
  agent_mode :: agent_mode
  created_at :: instant
  last_active :: instant
  agent_parent :: "uuid option"
  agent_children :: "uuid list"
  session_id :: uuid
  agent_tags :: "string list"
  agent_identity :: agent_identity
  onboarding_completed :: bool
  onboarding_completed_at :: "instant option"

section \<open>What the kernel reads from a manifest\<close>

definition merge_disk_manifest :: "agent_manifest \<Rightarrow> agent_manifest \<Rightarrow> agent_manifest" where
  "merge_disk_manifest disk entry =
     disk\<lparr>man_workspace := (if man_workspace disk = None \<and> man_workspace entry \<noteq> None
            then man_workspace entry else man_workspace disk),
          man_exec_policy := (if man_exec_policy disk = None \<and> man_exec_policy entry \<noteq> None
            then man_exec_policy entry else man_exec_policy disk)\<rparr>"

definition effective_fallback_base_url ::
  "string option \<Rightarrow> string \<Rightarrow> string \<Rightarrow> string option \<Rightarrow> (string \<Rightarrow> string option) \<Rightarrow> string option" where
  "effective_fallback_base_url base_url provider default_provider default_base_url lookup_provider_url =
     (let inherited = (if provider = default_provider then default_base_url else None)
      in or_else (or_else base_url inherited) (lookup_provider_url provider))"

text \<open>A list or flag of the manifest replaces that of the profile when it is given.\<close>

definition given :: "string list \<Rightarrow> string list \<Rightarrow> string list" where
  "given own implied = (if own \<noteq> [] then own else implied)"

definition effective_capabilities :: "agent_manifest \<Rightarrow> manifest_capabilities" where
  "effective_capabilities m =
     (let own = man_capabilities m in
      case man_profile m of
        Some profile \<Rightarrow>
          if cap_tools own = [] then
            let merged = implied_capabilities profile
            in merged\<lparr>cap_network := given (cap_network own) (cap_network merged),
                      cap_shell := given (cap_shell own) (cap_shell merged),
                      cap_agent_message := given (cap_agent_message own) (cap_agent_message merged),
                      cap_agent_spawn := (cap_agent_spawn own \<or> cap_agent_spawn merged),
                      cap_memory_read := given (cap_memory_read own) (cap_memory_read merged),
                      cap_memory_write := given (cap_memory_write own) (cap_memory_write merged),
                      cap_ofp_discover := (cap_ofp_discover own \<or> cap_ofp_discover merged),
                      cap_ofp_connect := given (cap_ofp_connect own) (cap_ofp_connect merged)\<rparr>
          else own
      | None \<Rightarrow> own)"

definition manifest_to_capabilities :: "agent_manifest \<Rightarrow> capability list" where
  "manifest_to_capabilities m =
     (let c = effective_capabilities m
      in map NetConnect (cap_network c) @ map ToolInvoke (cap_tools c)
         @ map MemoryRead (cap_memory_read c) @ map MemoryWrite (cap_memory_write c)
         @ (if cap_agent_spawn c then [AgentSpawn] else [])
         @ map AgentMessage (cap_agent_message c) @ map ShellExec (cap_shell c)
         @ (if cap_ofp_discover c then [OfpDiscover] else [])
         @ map OfpConnect (cap_ofp_connect c))"

record budget_config =
  max_hourly_usd :: f64
  max_daily_usd :: f64
  max_monthly_usd :: f64
  alert_threshold :: f64
  default_max_llm_tokens_per_hour :: u64

definition default_budget_config :: budget_config where
  "default_budget_config = \<lparr>max_hourly_usd = Finite 0, max_daily_usd = Finite 0,
     max_monthly_usd = Finite 0, alert_threshold = Finite (4 / 5), default_max_llm_tokens_per_hour = 0\<rparr>"

definition budgeted :: "f64 \<Rightarrow> f64 \<Rightarrow> f64" where
  "budgeted global own = (if Finite 0 < global \<and> own = Finite 0 then global else own)"

definition apply_budget_defaults :: "budget_config \<Rightarrow> resource_quota \<Rightarrow> resource_quota" where
  "apply_budget_defaults b q =
     q\<lparr>max_cost_per_hour_usd := budgeted (max_hourly_usd b) (max_cost_per_hour_usd q),
       max_cost_per_day_usd := budgeted (max_daily_usd b) (max_cost_per_day_usd q),
       max_cost_per_month_usd := budgeted (max_monthly_usd b) (max_cost_per_month_usd q),
       max_llm_tokens_per_hour :=
         (if default_max_llm_tokens_per_hour b > 0 then default_max_llm_tokens_per_hour b
          else max_llm_tokens_per_hour q)\<rparr>"

definition default_embedding_model_for_provider :: "string \<Rightarrow> string" where
  "default_embedding_model_for_provider provider =
     (if provider = ''openai'' then ''text-embedding-3-small''
      else if provider = ''groq'' then ''nomic-embed-text''
      else if provider = ''mistral'' then ''mistral-embed''
      else if provider = ''together'' then ''togethercomputer/m2-bert-80M-8k-retrieval''
      else if provider = ''fireworks'' then ''nomic-ai/nomic-embed-text-v1.5''
      else if provider = ''cohere'' then ''embed-english-v3.0''
      else if provider \<in> {''ollama'', ''vllm'', ''lmstudio''} then ''nomic-embed-text''
      else ''text-embedding-3-small'')"

definition known_prefixes :: "string list" where
  "known_prefixes =
     [''minimax'', ''gemini'', ''anthropic'', ''openai'', ''groq'', ''deepseek'', ''mistral'', ''cohere'',
      ''xai'', ''ollama'', ''together'', ''fireworks'', ''perplexity'', ''cerebras'', ''sambanova'',
      ''replicate'', ''huggingface'', ''ai21'', ''codex'', ''claude-code'', ''copilot'',
      ''github-copilot'', ''qwen'', ''zhipu'', ''zai'', ''moonshot'', ''openrouter'', ''volcengine'',
      ''doubao'', ''dashscope'']"

text \<open>The chain of \<open>starts_with\<close> tests on well-known model names, each with its answer.\<close>

definition name_patterns :: "(string \<times> string option) list" where
  "name_patterns =
     [(''minimax'', Some ''minimax''), (''gemini'', Some ''gemini''), (''claude'', Some ''anthropic''),
      (''gpt'', Some ''openai''), (''o1'', Some ''openai''), (''o3'', Some ''openai''), (''o4'', Some ''openai''),
      (''llama'', None), (''mixtral'', None), (''qwen'', None), (''grok'', Some ''xai''),
      (''deepseek'', Some ''deepseek''), (''mistral'', Some ''mistral''), (''codestral'', Some ''mistral''),
      (''pixtral'', Some ''mistral''), (''command'', Some ''cohere''), (''embed-'', Some ''cohere''),
      (''jamba'', Some ''ai21''), (''sonar'', Some ''perplexity''), (''glm'', Some ''zhipu''),
      (''ernie'', Some ''qianfan''), (''abab'', Some ''minimax''), (''moonshot'', Some ''moonshot''),
      (''kimi'', Some ''moonshot'')]"

definition infer_from_name :: "string \<Rightarrow> string option" where
  "infer_from_name lower =
     (case find (\<lambda>(p, _). starts_with lower p) name_patterns of
        Some (_, provider) \<Rightarrow> provider
      | None \<Rightarrow> None)"

definition infer_provider_from_model :: "string \<Rightarrow> string option" where
  "infer_provider_from_model model =
     (let lower = to_lowercase model;
          (prefix, has_delim) =
            (case str_find lower ''/'' of
               Some i \<Rightarrow> (take i lower, True)
             | None \<Rightarrow> (case str_find lower '':'' of Some i \<Rightarrow> (take i lower, True) | None \<Rightarrow> (lower, False)))
      in if has_delim \<and> count_list lower (CHR ''/'') \<ge> 2 then Some prefix
         else if has_delim \<and> prefix \<in> set known_prefixes then Some prefix
         else if has_delim \<and> prefix = ''kimi'' then Some ''moonshot''
         else infer_from_name lower)"

text \<open>\<open>strip_provider_prefix\<close> of \<open>openfang-runtime/src/agent_loop.rs\<close>.\<close>

definition strip_provider_prefix :: "string \<Rightarrow> string \<Rightarrow> string" where
  "strip_provider_prefix model provider =
     (if starts_with model (provider @ ''/'') then drop (length (provider @ ''/'')) model
      else if starts_with model (provider @ '':'') then drop (length (provider @ '':'')) model
      else model)"

section \<open>Lemmas\<close>

text \<open>The kinds of capability a manifest can ask for.\<close>

fun manifest_kind :: "capability \<Rightarrow> bool" where
  "manifest_kind (NetConnect _) = True"
| "manifest_kind (ToolInvoke _) = True"
| "manifest_kind (MemoryRead _) = True"
| "manifest_kind (MemoryWrite _) = True"
| "manifest_kind AgentSpawn = True"
| "manifest_kind (AgentMessage _) = True"
| "manifest_kind (ShellExec _) = True"
| "manifest_kind OfpDiscover = True"
| "manifest_kind (OfpConnect _) = True"
| "manifest_kind _ = False"

lemma manifest_caps_kinds: "c \<in> set (manifest_to_capabilities m) \<Longrightarrow> manifest_kind c"
  by (auto simp: manifest_to_capabilities_def Let_def split: if_splits)


lemma manifest_kind_matches_self: "manifest_kind c \<Longrightarrow> capability_matches c c"
  by (cases c) (simp_all add: capability_matches_def glob_matches_def)

lemma glob_star [simp]: "glob_matches ''*'' v"
  by (simp add: glob_matches_def)

lemma glob_self_scope: "glob_matches ''self.*'' v \<longleftrightarrow> starts_with v ''self.''"
  using glob_one_star [of "''self.''" "[]" v] by (simp add: starts_with_iff)

lemma full_profile_caps:
  assumes "man_profile m = Some FullProfile" "man_capabilities m = no_capabilities"
  shows "manifest_to_capabilities m =
    [NetConnect ''*'', ToolInvoke ''*'', MemoryRead ''*'', MemoryWrite ''self.*'', AgentSpawn,
     AgentMessage ''*'', ShellExec ''*'']"
  using assms
  by (simp add: manifest_to_capabilities_def effective_capabilities_def implied_capabilities_def
      no_capabilities_def given_def Let_def)

fun full_covers :: "capability \<Rightarrow> bool" where
  "full_covers (MemoryWrite s) = starts_with s ''self.''"
| "full_covers OfpDiscover = False"
| "full_covers (OfpConnect _) = False"
| "full_covers _ = True"

lemma full_profile_covers:
  assumes "man_profile m = Some FullProfile" "man_capabilities m = no_capabilities" "manifest_kind c"
  shows "(\<exists>g\<in>set (manifest_to_capabilities m). capability_matches g c) \<longleftrightarrow> full_covers c"
  unfolding full_profile_caps [OF assms(1,2)] using assms(3)
  by (cases c) (simp_all add: capability_matches_def glob_self_scope)

lemma ball_manifest_caps:
  "(\<forall>c\<in>set (manifest_to_capabilities m). P c) \<longleftrightarrow>
    (let e = effective_capabilities m
     in (\<forall>x\<in>set (cap_network e). P (NetConnect x)) \<and> (\<forall>x\<in>set (cap_tools e). P (ToolInvoke x))
        \<and> (\<forall>x\<in>set (cap_memory_read e). P (MemoryRead x)) \<and> (\<forall>x\<in>set (cap_memory_write e). P (MemoryWrite x))
        \<and> (cap_agent_spawn e \<longrightarrow> P AgentSpawn) \<and> (\<forall>x\<in>set (cap_agent_message e). P (AgentMessage x))
        \<and> (\<forall>x\<in>set (cap_shell e). P (ShellExec x)) \<and> (cap_ofp_discover e \<longrightarrow> P OfpDiscover)
        \<and> (\<forall>x\<in>set (cap_ofp_connect e). P (OfpConnect x)))"
  by (auto simp: manifest_to_capabilities_def Let_def split: if_splits)

lemma budgeted_idem: "budgeted g (budgeted g x) = budgeted g x"
  by (auto simp: budgeted_def)

lemma drop_take_length: "starts_with s p \<Longrightarrow> p @ drop (length p) s = s"
  by (auto simp: starts_with_iff)

section \<open>Properties\<close>



text \<open>
  Which children a full agent may have. An agent with the full profile passes the
  inheritance check for a child exactly when the child writes only memory below \<open>self.\<close> and asks
  for nothing of the OFP network; tools, network, shell and messages are never an obstacle. Any
  agent may have a child with its own manifest.
\<close>

theorem full_agent_children:
  assumes "man_profile m = Some FullProfile" "man_capabilities m = no_capabilities"
  shows "validate_capability_inheritance (manifest_to_capabilities m) (manifest_to_capabilities child) = Inr ()
    \<longleftrightarrow> list_all (\<lambda>s. starts_with s ''self.'') (cap_memory_write (effective_capabilities child))
       \<and> \<not> cap_ofp_discover (effective_capabilities child) \<and> cap_ofp_connect (effective_capabilities child) = []"
proof -
  have "validate_capability_inheritance (manifest_to_capabilities m) (manifest_to_capabilities child) = Inr ()
      \<longleftrightarrow> (\<forall>c\<in>set (manifest_to_capabilities child). full_covers c)"
    unfolding validate_ok_iff using full_profile_covers [OF assms] manifest_caps_kinds by blast
  then show ?thesis by (simp add: ball_manifest_caps Let_def list_all_iff)
qed

theorem full_agent_children_witness:
  "validate_capability_inheritance
     (manifest_to_capabilities (default_manifest\<lparr>man_profile := Some FullProfile\<rparr>))
     (manifest_to_capabilities (default_manifest\<lparr>man_capabilities := no_capabilities\<lparr>cap_memory_write := [''shared.x'']\<rparr>\<rparr>)) \<noteq> Inr ()"
  by (subst full_agent_children)
     (simp_all add: default_manifest_def effective_capabilities_def no_capabilities_def starts_with_def)

theorem manifest_covers_itself:
  "validate_capability_inheritance (manifest_to_capabilities m) (manifest_to_capabilities m) = Inr ()"
  unfolding validate_ok_iff using manifest_caps_kinds manifest_kind_matches_self by blast

text \<open>
  Budget defaults are stable: applying them a second time, as a restart does, changes nothing,
  and they never touch a limit the agent has of its own but for the tokens per hour.
\<close>

theorem budget_defaults_stable:
  "apply_budget_defaults b (apply_budget_defaults b q) = apply_budget_defaults b q
   \<and> (max_cost_per_hour_usd q \<noteq> Finite 0 \<longrightarrow>
        max_cost_per_hour_usd (apply_budget_defaults b q) = max_cost_per_hour_usd q)"
  by (simp add: apply_budget_defaults_def budgeted_idem) (simp add: budgeted_def)

theorem budget_defaults_stable_witness:
  "max_cost_per_hour_usd (apply_budget_defaults (default_budget_config\<lparr>max_hourly_usd := Finite 5\<rparr>)
     (default_quota\<lparr>max_cost_per_hour_usd := Finite 1\<rparr>)) = Finite 1"
  using budget_defaults_stable [of "default_budget_config\<lparr>max_hourly_usd := Finite 5\<rparr>" "default_quota\<lparr>max_cost_per_hour_usd := Finite 1\<rparr>"]
  by simp

end
