(* ===== verification/Registry.thy ===== *)
theory Registry
  imports Agents
begin

text \<open>
  The agent registry: \<open>openfang-kernel/src/registry.rs\<close>, with its primary map and the indexes
  of names and tags as three maps. Every operation that stamps \<open>last_active\<close> takes the time
  \<open>now\<close>. The two halves of \<open>register\<close>, the check of the name and the insertions, are separate
  definitions: the maps are locked one access at a time, so calls from two threads may
  interleave there.
\<close>

section \<open>The registry\<close>

record agent_registry =
  agents :: "(uuid, agent_entry) dashmap"
  name_index :: "(string, uuid) dashmap"
  tag_index :: "(string, uuid list) dashmap"

datatype registry_error = AgentNotFound uuid | AgentAlreadyExists string

definition new_registry :: agent_registry where
  "new_registry = \<lparr>agents = [], name_index = [], tag_index = []\<rparr>"

definition name_taken :: "agent_registry \<Rightarrow> agent_entry \<Rightarrow> bool" where
  "name_taken r e = (dm_get (name_index r) (entry_name e) \<noteq> None)"

definition push_tag :: "uuid \<Rightarrow> string \<Rightarrow> (string, uuid list) dashmap \<Rightarrow> (string, uuid list) dashmap" where
  "push_tag i tag m = dm_insert tag (dm_entry m tag [] @ [i]) m"

definition insert_entry :: "agent_registry \<Rightarrow> agent_entry \<Rightarrow> agent_registry" where
  "insert_entry r e =
     r\<lparr>name_index := dm_insert (entry_name e) (entry_id e) (name_index r),
       tag_index := fold (push_tag (entry_id e)) (agent_tags e) (tag_index r),
       agents := dm_insert (entry_id e) e (agents r)\<rparr>"

definition register_agent :: "agent_registry \<Rightarrow> agent_entry \<Rightarrow> (registry_error + unit) \<times> agent_registry" where
  "register_agent r e =
     (if name_taken r e then (Inl (AgentAlreadyExists (entry_name e)), r)
      else (Inr (), insert_entry r e))"

definition get_agent :: "agent_registry \<Rightarrow> uuid \<Rightarrow> agent_entry option" where
  "get_agent r i = dm_get (agents r) i"

definition find_by_name :: "agent_registry \<Rightarrow> string \<Rightarrow> agent_entry option" where
  "find_by_name r name = Option.bind (dm_get (name_index r) name) (dm_get (agents r))"

definition list_agents :: "agent_registry \<Rightarrow> agent_entry list" where
  "list_agents r = dm_values (agents r)"

definition agent_count :: "agent_registry \<Rightarrow> nat" where
  "agent_count r = length (agents r)"

definition drop_id :: "uuid \<Rightarrow> string \<Rightarrow> (string, uuid list) dashmap \<Rightarrow> (string, uuid list) dashmap" where
  "drop_id i tag m = dm_modify tag (filter (\<lambda>j. j \<noteq> i)) m"

definition remove_agent :: "agent_registry \<Rightarrow> uuid \<Rightarrow> (registry_error + agent_entry) \<times> agent_registry" where
  "remove_agent r i =
     (case dm_get (agents r) i of
        None \<Rightarrow> (Inl (AgentNotFound i), r)
      | Some e \<Rightarrow>
          (Inr e, r\<lparr>agents := dm_remove i (agents r),
                    name_index := dm_remove (entry_name e) (name_index r),
                    tag_index := fold (drop_id i) (agent_tags e) (tag_index r)\<rparr>))"

section \<open>Updates of an entry\<close>

text \<open>
  Every update gets the entry by its id, or fails, changes it in place and stamps it. The
  updates of the source are the functions below.
\<close>

definition update_entry ::
  "(agent_entry \<Rightarrow> agent_entry) \<Rightarrow> instant \<Rightarrow> agent_registry \<Rightarrow> uuid \<Rightarrow> (registry_error + unit) \<times> agent_registry" where
  "update_entry f now r i =
     (case dm_get (agents r) i of
        None \<Rightarrow> (Inl (AgentNotFound i), r)
      | Some _ \<Rightarrow> (Inr (), r\<lparr>agents := dm_modify i (\<lambda>e. (f e)\<lparr>last_active := now\<rparr>) (agents r)\<rparr>))"

definition update_manifest :: "(agent_manifest \<Rightarrow> agent_manifest) \<Rightarrow> agent_entry \<Rightarrow> agent_entry" where
  "update_manifest f e = e\<lparr>manifest := f (manifest e)\<rparr>"

definition update_model_config :: "(model_config \<Rightarrow> model_config) \<Rightarrow> agent_entry \<Rightarrow> agent_entry" where
  "update_model_config f = update_manifest (\<lambda>m. m\<lparr>man_model := f (man_model m)\<rparr>)"

definition set_state :: "agent_state \<Rightarrow> agent_entry \<Rightarrow> agent_entry" where
  "set_state s e = e\<lparr>agent_state := s\<rparr>"

definition set_mode :: "agent_mode \<Rightarrow> agent_entry \<Rightarrow> agent_entry" where
  "set_mode m e = e\<lparr>agent_mode := m\<rparr>"

definition update_session_id :: "uuid \<Rightarrow> agent_entry \<Rightarrow> agent_entry" where
  "update_session_id s e = e\<lparr>session_id := s\<rparr>"

definition update_workspace :: "string option \<Rightarrow> agent_entry \<Rightarrow> agent_entry" where
  "update_workspace w = update_manifest (\<lambda>m. m\<lparr>man_workspace := w\<rparr>)"

definition update_state_dir :: "string option \<Rightarrow> agent_entry \<Rightarrow> agent_entry" where
  "update_state_dir d = update_manifest (\<lambda>m. m\<lparr>man_state_dir := d\<rparr>)"

definition update_identity :: "agent_identity \<Rightarrow> agent_entry \<Rightarrow> agent_entry" where
  "update_identity x e = e\<lparr>agent_identity := x\<rparr>"

definition update_model :: "string \<Rightarrow> agent_entry \<Rightarrow> agent_entry" where
  "update_model new_model = update_model_config (\<lambda>c. c\<lparr>model_name := new_model\<rparr>)"

definition update_model_and_provider :: "string \<Rightarrow> string \<Rightarrow> agent_entry \<Rightarrow> agent_entry" where
  "update_model_and_provider new_model new_provider =
     update_model_config (\<lambda>c. c\<lparr>model_name := new_model, model_provider := new_provider\<rparr>)"

definition update_model_provider_config ::
  "string \<Rightarrow> string \<Rightarrow> string option \<Rightarrow> string option \<Rightarrow> agent_entry \<Rightarrow> agent_entry" where
  "update_model_provider_config new_model new_provider api_key_env base_url =
     update_model_config (\<lambda>c. c\<lparr>model_name := new_model, model_provider := new_provider,
       model_api_key_env := api_key_env, model_base_url := base_url\<rparr>)"

definition update_fallback_models :: "fallback_model list \<Rightarrow> agent_entry \<Rightarrow> agent_entry" where
  "update_fallback_models fs = update_manifest (\<lambda>m. m\<lparr>fallback_models := fs\<rparr>)"

definition update_skills :: "string list \<Rightarrow> agent_entry \<Rightarrow> agent_entry" where
  "update_skills skills = update_manifest (\<lambda>m. m\<lparr>man_skills := skills\<rparr>)"

definition update_mcp_servers :: "string list \<Rightarrow> agent_entry \<Rightarrow> agent_entry" where
  "update_mcp_servers servers = update_manifest (\<lambda>m. m\<lparr>man_mcp_servers := servers\<rparr>)"

definition update_tool_filters :: "string list option \<Rightarrow> string list option \<Rightarrow> agent_entry \<Rightarrow> agent_entry" where
  "update_tool_filters allowlist blocklist =
     update_manifest (\<lambda>m. m\<lparr>tool_allowlist := (case allowlist of Some al \<Rightarrow> al | None \<Rightarrow> tool_allowlist m),
       tool_blocklist := (case blocklist of Some bl \<Rightarrow> bl | None \<Rightarrow> tool_blocklist m)\<rparr>)"

definition update_system_prompt :: "string \<Rightarrow> agent_entry \<Rightarrow> agent_entry" where
  "update_system_prompt new_prompt = update_model_config (\<lambda>c. c\<lparr>system_prompt := new_prompt\<rparr>)"

definition update_description :: "string \<Rightarrow> agent_entry \<Rightarrow> agent_entry" where
  "update_description new_desc = update_manifest (\<lambda>m. m\<lparr>man_description := new_desc\<rparr>)"

definition update_resources ::
  "f64 option \<Rightarrow> f64 option \<Rightarrow> f64 option \<Rightarrow> u64 option \<Rightarrow> agent_entry \<Rightarrow> agent_entry" where
  "update_resources hourly daily monthly tokens_per_hour =
     update_manifest (\<lambda>m. m\<lparr>man_resources :=
       (let q = man_resources m in
        q\<lparr>max_cost_per_hour_usd := (case hourly of Some v \<Rightarrow> v | None \<Rightarrow> max_cost_per_hour_usd q),
          max_cost_per_day_usd := (case daily of Some v \<Rightarrow> v | None \<Rightarrow> max_cost_per_day_usd q),
          max_cost_per_month_usd := (case monthly of Some v \<Rightarrow> v | None \<Rightarrow> max_cost_per_month_usd q),
          max_llm_tokens_per_hour := (case tokens_per_hour of Some v \<Rightarrow> v | None \<Rightarrow> max_llm_tokens_per_hour q)\<rparr>)\<rparr>)"

definition mark_onboarding_complete :: "instant \<Rightarrow> agent_entry \<Rightarrow> agent_entry" where
  "mark_onboarding_complete now e = e\<lparr>onboarding_completed := True, onboarding_completed_at := Some now\<rparr>"

text \<open>The two updates that ignore an unknown agent.\<close>

definition add_child :: "agent_registry \<Rightarrow> uuid \<Rightarrow> uuid \<Rightarrow> agent_registry" where
  "add_child r parent_id child_id =
     r\<lparr>agents := dm_modify parent_id (\<lambda>e. e\<lparr>agent_children := agent_children e @ [child_id]\<rparr>) (agents r)\<rparr>"

definition touch :: "instant \<Rightarrow> agent_registry \<Rightarrow> uuid \<Rightarrow> agent_registry" where
  "touch now r i = r\<lparr>agents := dm_modify i (\<lambda>e. e\<lparr>last_active := now\<rparr>) (agents r)\<rparr>"

definition rename_entry :: "string \<Rightarrow> agent_entry \<Rightarrow> agent_entry" where
  "rename_entry new_name e = update_manifest (\<lambda>m. m\<lparr>man_name := new_name\<rparr>) (e\<lparr>entry_name := new_name\<rparr>)"

definition update_name :: "instant \<Rightarrow> agent_registry \<Rightarrow> uuid \<Rightarrow> string \<Rightarrow> (registry_error + unit) \<times> agent_registry" where
  "update_name now r i new_name =
     (case dm_get (name_index r) new_name of
        Some existing_id \<Rightarrow>
          if existing_id \<noteq> i then (Inl (AgentAlreadyExists new_name), r) else (Inr (), r)
      | None \<Rightarrow>
          (case dm_get (agents r) i of
             None \<Rightarrow> (Inl (AgentNotFound i), r)
           | Some e \<Rightarrow>
               (let (res, r1) = update_entry (rename_entry new_name) now r i
                in (Inr (), r1\<lparr>name_index :=
                      dm_insert new_name i (dm_remove (entry_name e) (name_index r1))\<rparr>))))"

section \<open>Histories\<close>

datatype entry_update =
    SetState agent_state
  | SetMode agent_mode
  | UpdateSessionId uuid
  | UpdateWorkspace "string option"
  | UpdateStateDir "string option"
  | UpdateIdentity agent_identity
  | UpdateModel string
  | UpdateModelAndProvider string string
  | UpdateModelProviderConfig string string "string option" "string option"
  | UpdateFallbackModels "fallback_model list"
  | UpdateSkills "string list"
  | UpdateMcpServers "string list"
  | UpdateToolFilters "string list option" "string list option"
  | UpdateSystemPrompt string
  | UpdateDescription string
  | UpdateResources "f64 option" "f64 option" "f64 option" "u64 option"
  | MarkOnboardingComplete

fun apply_update :: "instant \<Rightarrow> entry_update \<Rightarrow> agent_entry \<Rightarrow> agent_entry" where
  "apply_update now (SetState s) = set_state s"
| "apply_update now (SetMode m) = set_mode m"
| "apply_update now (UpdateSessionId s) = update_session_id s"
| "apply_update now (UpdateWorkspace w) = update_workspace w"
| "apply_update now (UpdateStateDir d) = update_state_dir d"
| "apply_update now (UpdateIdentity x) = update_identity x"
| "apply_update now (UpdateModel m) = update_model m"
| "apply_update now (UpdateModelAndProvider m p) = update_model_and_provider m p"
| "apply_update now (UpdateModelProviderConfig m p k u) = update_model_provider_config m p k u"
| "apply_update now (UpdateFallbackModels fs) = update_fallback_models fs"
| "apply_update now (UpdateSkills ss) = update_skills ss"
| "apply_update now (UpdateMcpServers ss) = update_mcp_servers ss"
| "apply_update now (UpdateToolFilters al bl) = update_tool_filters al bl"
| "apply_update now (UpdateSystemPrompt p) = update_system_prompt p"
| "apply_update now (UpdateDescription d) = update_description d"
| "apply_update now (UpdateResources h d m t) = update_resources h d m t"
| "apply_update now MarkOnboardingComplete = mark_onboarding_complete now"

datatype registry_op =
    RegisterAgent agent_entry
  | RemoveAgent uuid
  | UpdateAgent instant uuid entry_update
  | RenameAgent instant uuid string
  | AddChild uuid uuid
  | TouchAgent instant uuid

fun registry_step :: "agent_registry \<Rightarrow> registry_op \<Rightarrow> agent_registry" where
  "registry_step r (RegisterAgent e) = snd (register_agent r e)"
| "registry_step r (RemoveAgent i) = snd (remove_agent r i)"
| "registry_step r (UpdateAgent now i u) = snd (update_entry (apply_update now u) now r i)"
| "registry_step r (RenameAgent now i name) = snd (update_name now r i name)"
| "registry_step r (AddChild p c) = add_child r p c"
| "registry_step r (TouchAgent now i) = touch now r i"

text \<open>An agent is registered under an id that is not in use, which a fresh UUID is.\<close>

fun fresh_agent :: "agent_registry \<Rightarrow> registry_op \<Rightarrow> bool" where
  "fresh_agent r (RegisterAgent e) = (get_agent r (entry_id e) = None)"
| "fresh_agent r _ = True"

definition names_ok :: "agent_registry \<Rightarrow> bool" where
  "names_ok r \<longleftrightarrow> (\<forall>n i. dm_get (name_index r) n = Some i \<longleftrightarrow> (\<exists>e. dm_get (agents r) i = Some e \<and> entry_name e = n))"

definition ids_ok :: "agent_registry \<Rightarrow> bool" where
  "ids_ok r \<longleftrightarrow> dm_wf (agents r) \<and> (\<forall>i e. dm_get (agents r) i = Some e \<longrightarrow> entry_id e = i)"

definition tags_ok :: "agent_registry \<Rightarrow> bool" where
  "tags_ok r \<longleftrightarrow> (\<forall>t i. i \<in> set (dm_entry (tag_index r) t []) \<longleftrightarrow>
     (\<exists>e. dm_get (agents r) i = Some e \<and> t \<in> set (agent_tags e)))"

definition registry_inv :: "agent_registry \<Rightarrow> bool" where
  "registry_inv r \<longleftrightarrow> ids_ok r \<and> names_ok r \<and> tags_ok r"

section \<open>The indexes\<close>

lemma dm_entry_simps [simp]:
  "dm_entry [] k d = d"
  "dm_entry (dm_insert k v m) j d = (if j = k then v else dm_entry m j d)"
  "dm_entry (dm_modify k f m) j d = (if j = k \<and> dm_get m k \<noteq> None then f (dm_entry m j d) else dm_entry m j d)"
  by (auto simp: dm_entry_def split: option.splits)

lemma tagged_push:
  "j \<in> set (dm_entry (fold (push_tag i) ts m) t []) \<longleftrightarrow> j \<in> set (dm_entry m t []) \<or> (j = i \<and> t \<in> set ts)"
  by (induction ts arbitrary: m) (auto simp: push_tag_def)

lemma tagged_drop:
  "j \<in> set (dm_entry (fold (drop_id i) ts m) t []) \<longleftrightarrow> j \<in> set (dm_entry m t []) \<and> \<not> (j = i \<and> t \<in> set ts)"
proof (induction ts arbitrary: m)
  case (Cons x ts)
  have "j \<in> set (dm_entry (drop_id i x m) t []) \<longleftrightarrow> j \<in> set (dm_entry m t []) \<and> \<not> (j = i \<and> t = x)"
    by (cases "dm_get m x"; cases "t = x") (auto simp: drop_id_def dm_entry_def)
  with Cons.IH show ?case by auto
qed simp

text \<open>A change of one entry that keeps its id, name and tags.\<close>

definition keeps_keys :: "(agent_entry \<Rightarrow> agent_entry) \<Rightarrow> bool" where
  "keeps_keys f \<longleftrightarrow> (\<forall>e. entry_id (f e) = entry_id e \<and> entry_name (f e) = entry_name e \<and> agent_tags (f e) = agent_tags e)"

lemma ex_modified:
  assumes "\<And>e. P (f e) = P e"
  shows "(\<exists>e. dm_get (dm_modify i f m) j = Some e \<and> P e) \<longleftrightarrow> (\<exists>e. dm_get m j = Some e \<and> P e)"
  by (cases "dm_get m j"; cases "j = i") (simp_all add: assms)

lemma inv_modify:
  assumes "keeps_keys f" "registry_inv r"
  shows "registry_inv (r\<lparr>agents := dm_modify i f (agents r)\<rparr>)"
proof -
  have f: "entry_id (f e) = entry_id e" "entry_name (f e) = entry_name e" "agent_tags (f e) = agent_tags e" for e
    using assms(1) by (simp_all add: keeps_keys_def)
  have "ids_ok (r\<lparr>agents := dm_modify i f (agents r)\<rparr>)"
    using assms(2) f by (auto simp: registry_inv_def ids_ok_def split: if_splits)
  moreover have "names_ok (r\<lparr>agents := dm_modify i f (agents r)\<rparr>)"
    using assms(2) by (simp add: registry_inv_def names_ok_def ex_modified f del: dm_get_modify)
  moreover have "tags_ok (r\<lparr>agents := dm_modify i f (agents r)\<rparr>)"
    using assms(2) by (simp add: registry_inv_def tags_ok_def ex_modified f del: dm_get_modify)
  ultimately show ?thesis by (simp add: registry_inv_def)
qed

lemma keeps_apply_update: "keeps_keys (\<lambda>e. (apply_update now u e)\<lparr>last_active := t\<rparr>)"
  by (cases u) (simp_all add: keeps_keys_def set_state_def set_mode_def update_session_id_def
      update_workspace_def update_state_dir_def update_identity_def update_model_def
      update_model_and_provider_def update_model_provider_config_def update_fallback_models_def
      update_skills_def update_mcp_servers_def update_tool_filters_def update_system_prompt_def
      update_description_def update_resources_def mark_onboarding_complete_def update_manifest_def
      update_model_config_def)

lemma inv_insert:
  assumes "registry_inv r" "dm_get (agents r) (entry_id e) = None" "\<not> name_taken r e"
  shows "registry_inv (insert_entry r e)"
  using assms by (auto simp: registry_inv_def ids_ok_def names_ok_def tags_ok_def insert_entry_def
      name_taken_def tagged_push)

lemma names_unique:
  "names_ok r \<Longrightarrow> dm_get (agents r) i = Some a \<Longrightarrow> dm_get (agents r) j = Some b \<Longrightarrow>
    entry_name a = entry_name b \<Longrightarrow> i = j"
  unfolding names_ok_def by (metis option.inject)

lemma registry_inv_remove:
  assumes "registry_inv r"
  shows "registry_inv (snd (remove_agent r i))"
proof (cases "dm_get (agents r) i")
  case (Some a)
  have other: "entry_name e \<noteq> entry_name a" if "j \<noteq> i" "dm_get (agents r) j = Some e" for j e
    using assms Some that names_unique registry_inv_def by metis
  have "names_ok (snd (remove_agent r i))"
    unfolding names_ok_def
  proof (intro allI)
    fix n j
    have "dm_get (name_index r) n = Some j \<longleftrightarrow> (\<exists>e. dm_get (agents r) j = Some e \<and> entry_name e = n)"
      using assms by (simp add: registry_inv_def names_ok_def)
    then show "dm_get (name_index (snd (remove_agent r i))) n = Some j \<longleftrightarrow>
        (\<exists>e. dm_get (agents (snd (remove_agent r i))) j = Some e \<and> entry_name e = n)"
      using Some other [of j] by (cases "j = i") (auto simp: remove_agent_def)
  qed
  then show ?thesis
    using assms Some by (auto simp: remove_agent_def registry_inv_def ids_ok_def tags_ok_def tagged_drop)
qed (use assms in \<open>simp add: remove_agent_def\<close>)

lemma inv_rename:
  assumes "registry_inv r"
  shows "registry_inv (snd (update_name now r i name))"
proof (cases "dm_get (name_index r) name = None \<and> dm_get (agents r) i \<noteq> None")
  case True
  then obtain a where a: "dm_get (agents r) i = Some a" by auto
  let ?r = "snd (update_name now r i name)"
  have get: "dm_get (agents ?r) j = (if j = i then Some ((rename_entry name a)\<lparr>last_active := now\<rparr>) else dm_get (agents r) j)"
    and ix: "dm_get (name_index ?r) n = (if n = name then Some i else if n = entry_name a then None else dm_get (name_index r) n)"
    and tg: "tag_index ?r = tag_index r" for j n
    using True a by (auto simp: update_name_def update_entry_def)
  have e: "entry_id ((rename_entry name a)\<lparr>last_active := now\<rparr>) = entry_id a"
    "entry_name ((rename_entry name a)\<lparr>last_active := now\<rparr>) = name"
    "agent_tags ((rename_entry name a)\<lparr>last_active := now\<rparr>) = agent_tags a"
    by (simp_all add: rename_entry_def update_manifest_def)
  have free: "dm_get (agents r) j \<noteq> Some b \<or> entry_name b \<noteq> name" for j b
    using assms True unfolding registry_inv_def names_ok_def by (metis option.distinct(1))
  have "ids_ok ?r"
    using assms True a e by (auto simp: registry_inv_def ids_ok_def get) (simp add: update_name_def update_entry_def)
  moreover have "names_ok ?r"
    unfolding names_ok_def
  proof (intro allI)
    fix n j
    have old: "dm_get (name_index r) n = Some j \<longleftrightarrow> (\<exists>e. dm_get (agents r) j = Some e \<and> entry_name e = n)"
      using assms by (simp add: registry_inv_def names_ok_def)
    have "entry_name b \<noteq> entry_name a" if "j \<noteq> i" "dm_get (agents r) j = Some b" for b
      using assms a that names_unique registry_inv_def by metis
    with old show "dm_get (name_index ?r) n = Some j \<longleftrightarrow> (\<exists>e. dm_get (agents ?r) j = Some e \<and> entry_name e = n)"
      unfolding get ix using a free e by (cases "j = i") auto
  qed
  moreover have "tags_ok ?r"
    unfolding tags_ok_def get tg using assms a e by (auto simp: registry_inv_def tags_ok_def)
  ultimately show ?thesis by (simp add: registry_inv_def)
next
  case False
  then show ?thesis using assms by (auto simp: update_name_def split: option.splits)
qed

interpretation reg: machine registry_step fresh_agent registry_inv
proof
  fix r op
  assume r: "registry_inv r" and ok: "fresh_agent r op"
  show "registry_inv (registry_step r op)"
  proof (cases op)
    case (RegisterAgent e)
    then show ?thesis using r ok inv_insert by (auto simp: register_agent_def get_agent_def)
  next
    case (UpdateAgent now i u)
    then show ?thesis using r inv_modify [OF keeps_apply_update r] by (simp add: update_entry_def split: option.splits)
  next
    case (AddChild p c)
    then show ?thesis using inv_modify [OF _ r] by (simp add: add_child_def keeps_keys_def)
  next
    case (TouchAgent now i)
    then show ?thesis using inv_modify [OF _ r] by (simp add: touch_def keeps_keys_def)
  qed (use r registry_inv_remove inv_rename in simp_all)
qed

lemma inv_new: "registry_inv new_registry"
  by (simp add: registry_inv_def ids_ok_def names_ok_def tags_ok_def new_registry_def)


lemma inv_history: "run_ok fresh_agent registry_step new_registry ops \<Longrightarrow> registry_inv (run registry_step new_registry ops)"
  by (rule reg.run_inv [OF inv_new])

section \<open>Properties\<close>

definition sample_entry :: "uuid \<Rightarrow> string \<Rightarrow> string list \<Rightarrow> agent_entry" where
  "sample_entry i name tags =
     \<lparr>entry_id = i, entry_name = name, manifest = default_manifest\<lparr>man_name := name\<rparr>, agent_state = Running,
      agent_mode = Full, created_at = 0, last_active = 0, agent_parent = None, agent_children = [],
      session_id = 0, agent_tags = tags, agent_identity = default_identity, onboarding_completed = False,
      onboarding_completed_at = None\<rparr>"



text \<open>
  A removed agent leaves no trace. After \<open>remove\<close> the agent is found under no id, no name
  and no tag, and another agent can register under its name.
\<close>

theorem removed_agent_leaves_no_trace:
  assumes "run_ok fresh_agent registry_step new_registry ops"
    and "remove_agent (run registry_step new_registry ops) i = (Inr a, r)"
  shows "get_agent r i = None \<and> find_by_name r (entry_name a) = None \<and> i \<notin> set (dm_entry (tag_index r) t [])
    \<and> fst (register_agent r (e\<lparr>entry_name := entry_name a\<rparr>)) = Inr ()"
proof -
  have inv: "registry_inv r"
    using registry_inv_remove [OF inv_history [OF assms(1)], of i] assms(2) by simp
  from assms(2) have gone: "dm_get (agents r) i = None" "dm_get (name_index r) (entry_name a) = None"
    by (auto simp: remove_agent_def split: option.splits)
  with inv show ?thesis
    by (auto simp: get_agent_def find_by_name_def register_agent_def name_taken_def registry_inv_def tags_ok_def)
qed

theorem removed_agent_leaves_no_trace_witness:
  "find_by_name (snd (remove_agent (run registry_step new_registry [RegisterAgent (sample_entry 1 ''ada'' [''dev''])]) 1)) ''ada'' = None"
proof -
  let ?ops = "[RegisterAgent (sample_entry 1 ''ada'' [''dev''])]"
  have "run_ok fresh_agent registry_step new_registry ?ops" by (simp add: new_registry_def get_agent_def)
  moreover have "remove_agent (run registry_step new_registry ?ops) 1
      = (Inr (sample_entry 1 ''ada'' [''dev'']), snd (remove_agent (run registry_step new_registry ?ops) 1))"
    by (simp add: remove_agent_def new_registry_def register_agent_def name_taken_def insert_entry_def sample_entry_def)
  ultimately show ?thesis
    using removed_agent_leaves_no_trace [of ?ops 1 "sample_entry 1 ''ada'' [''dev'']" _ "''dev''" "sample_entry 2 ''ada'' []"]
    by (simp add: sample_entry_def)
qed

text \<open>
  Names are not unique under concurrency. The check of the name and the insertion are
  separate accesses to the index, so when two threads register agents of one name and both check
  before either inserts, both calls succeed: two agents have the name, the name finds only the
  second, and removing the first makes the second unreachable by name.
\<close>

theorem concurrent_register_shares_name:
  assumes "\<not> name_taken r a" "\<not> name_taken r b" "entry_name a = entry_name b" "entry_id a \<noteq> entry_id b"
  shows "(let r2 = insert_entry (insert_entry r a) b
    in get_agent r2 (entry_id a) = Some a \<and> get_agent r2 (entry_id b) = Some b
       \<and> find_by_name r2 (entry_name a) = Some b
       \<and> find_by_name (snd (remove_agent r2 (entry_id a))) (entry_name b) = None)"
  using assms
  by (simp add: insert_entry_def get_agent_def find_by_name_def remove_agent_def Let_def)

theorem concurrent_register_shares_name_witness:
  "find_by_name (snd (remove_agent
     (insert_entry (insert_entry new_registry (sample_entry 1 ''ada'' [])) (sample_entry 2 ''ada'' [])) 1)) ''ada'' = None"
  using concurrent_register_shares_name [of new_registry "sample_entry 1 ''ada'' []" "sample_entry 2 ''ada'' []"]
  by (simp add: name_taken_def new_registry_def sample_entry_def Let_def)

end
