(* ===== verification/Background.thy ===== *)
theory Background
  imports Agents Triggers
begin

text \<open>
  Autonomous agents and the event bus: \<open>openfang-kernel/src/background.rs\<close> and
  \<open>openfang-kernel/src/event_bus.rs\<close>. A spawned loop is a number; \<open>running\<close> holds the loops that
  were spawned and not aborted, with their agent and their interval, so a handle that is dropped
  without an abort stays in it. A tokio broadcast channel is the list of the events sent into it.
\<close>

section \<open>Conditions and intervals\<close>

definition event_condition :: "string \<Rightarrow> trigger_pattern option" where
  "event_condition kind =
     (if kind = ''agent_spawned'' then Some (AgentSpawned ''*'')
      else if kind = ''agent_terminated'' then Some AgentTerminated
      else if kind = ''lifecycle'' then Some Lifecycle
      else if kind = ''system'' then Some SystemAny
      else if kind = ''memory_update'' then Some MemoryUpdate
      else None)"

definition parse_condition :: "string \<Rightarrow> trigger_pattern option" where
  "parse_condition condition =
     (let condition = trim condition
      in if to_lowercase condition = ''all'' then Some AllEvents
         else case strip_prefix ''event:'' condition of
           Some event_kind \<Rightarrow> event_condition (to_lowercase (trim event_kind))
         | None \<Rightarrow>
             (case strip_prefix ''memory:'' condition of
                Some key \<Rightarrow> Some (MemoryKeyPattern (trim key))
              | None \<Rightarrow> None))"

text \<open>One of the four units: the number before it, and what a unit is in seconds.\<close>

definition try_unit :: "string \<Rightarrow> string \<Rightarrow> u64 \<Rightarrow> u64 option" where
  "try_unit rest u secs =
     (case strip_suffix u rest of
        Some num \<Rightarrow> map_option (\<lambda>n. n * secs) (parse_u64 (trim num))
      | None \<Rightarrow> None)"

definition parse_cron_to_secs :: "string \<Rightarrow> u64" where
  "parse_cron_to_secs cron =
     (case strip_prefix ''every '' (to_lowercase (trim cron)) of
        Some rest \<Rightarrow>
          (case first_some [try_unit (trim rest) ''s'' 1, try_unit (trim rest) ''m'' 60,
                            try_unit (trim rest) ''h'' 3600, try_unit (trim rest) ''d'' 86400] of
             Some n \<Rightarrow> n
           | None \<Rightarrow> 300)
      | None \<Rightarrow> 300)"

section \<open>The executor\<close>

definition MAX_CONCURRENT_BG_LLM :: nat where
  "MAX_CONCURRENT_BG_LLM = 5"

record bg_loop =
  loop_agent :: uuid
  loop_name :: string
  loop_mode :: schedule_mode
  loop_interval_secs :: u64
  loop_waiting :: bool
  loop_busy :: bool

record background_executor =
  bg_tasks :: "(uuid, nat) dashmap"
  bg_running :: "(nat, bg_loop) dashmap"
  bg_next :: nat
  bg_permits :: nat
  bg_calls :: "nat list"
  bg_sent :: "(uuid \<times> string) list"

definition new_executor :: background_executor where
  "new_executor = \<lparr>bg_tasks = [], bg_running = [], bg_next = 0, bg_permits = MAX_CONCURRENT_BG_LLM,
     bg_calls = [], bg_sent = []\<rparr>"

definition spawn_loop :: "background_executor \<Rightarrow> uuid \<Rightarrow> string \<Rightarrow> schedule_mode \<Rightarrow> u64 \<Rightarrow> background_executor" where
  "spawn_loop x agent_id name mode interval =
     x\<lparr>bg_running := dm_insert (bg_next x)
          \<lparr>loop_agent = agent_id, loop_name = name, loop_mode = mode, loop_interval_secs = interval,
           loop_waiting = False, loop_busy = False\<rparr> (bg_running x),
       bg_tasks := dm_insert agent_id (bg_next x) (bg_tasks x),
       bg_next := bg_next x + 1\<rparr>"

fun start_agent :: "background_executor \<Rightarrow> uuid \<Rightarrow> string \<Rightarrow> schedule_mode \<Rightarrow> background_executor" where
  "start_agent x a name Reactive = x"
| "start_agent x a name (Continuous check_interval_secs) =
     spawn_loop x a name (Continuous check_interval_secs) check_interval_secs"
| "start_agent x a name (Periodic cron) = spawn_loop x a name (Periodic cron) (parse_cron_to_secs cron)"
| "start_agent x a name (Proactive _) = x"

definition stop_agent :: "background_executor \<Rightarrow> uuid \<Rightarrow> background_executor" where
  "stop_agent x agent_id =
     (case dm_get (bg_tasks x) agent_id of
        Some h \<Rightarrow> x\<lparr>bg_tasks := dm_remove agent_id (bg_tasks x), bg_running := dm_remove h (bg_running x)\<rparr>
      | None \<Rightarrow> x)"

definition active_count :: "background_executor \<Rightarrow> nat" where
  "active_count x = length (bg_tasks x)"

text \<open>
  A running loop. After its interval it sets its busy flag, or skips the tick when the flag is
  set; it waits for a permit of the global semaphore; it sends its prompt in a call of its own,
  which a watcher awaits. The watcher returns the permit and clears the flag. A loop that sleeps
  ends on shutdown; one that waits does so at its next sleep.
\<close>

fun loop_prompt :: "string \<Rightarrow> schedule_mode \<Rightarrow> string" where
  "loop_prompt name (Periodic cron) =
     ''[SCHEDULED TICK] You are running on a periodic schedule ('' @ cron
     @ ''). Perform your routine duties. Agent: '' @ name"
| "loop_prompt name _ =
     ''[AUTONOMOUS TICK] You are running in continuous mode. ''
     @ ''Check your goals, review shared memory for pending tasks, and take any necessary actions. Agent: '' @ name"

definition set_loop :: "nat \<Rightarrow> bg_loop \<Rightarrow> background_executor \<Rightarrow> background_executor" where
  "set_loop h l x = x\<lparr>bg_running := dm_insert h l (bg_running x)\<rparr>"

inductive bg_step :: "background_executor \<Rightarrow> background_executor \<Rightarrow> bool" where
  tick: "dm_get (bg_running x) h = Some l \<Longrightarrow> \<not> loop_waiting l \<Longrightarrow> \<not> loop_busy l \<Longrightarrow>
    bg_step x (set_loop h (l\<lparr>loop_waiting := True, loop_busy := True\<rparr>) x)"
| skip: "dm_get (bg_running x) h = Some l \<Longrightarrow> \<not> loop_waiting l \<Longrightarrow> loop_busy l \<Longrightarrow> bg_step x x"
| acquire: "dm_get (bg_running x) h = Some l \<Longrightarrow> loop_waiting l \<Longrightarrow> bg_permits x = Suc n \<Longrightarrow>
    bg_step x ((set_loop h (l\<lparr>loop_waiting := False\<rparr>) x)\<lparr>bg_permits := n, bg_calls := bg_calls x @ [h],
      bg_sent := bg_sent x @ [(loop_agent l, loop_prompt (loop_name l) (loop_mode l))]\<rparr>)"
| finish: "h \<in> set (bg_calls x) \<Longrightarrow>
    bg_step x (x\<lparr>bg_permits := bg_permits x + 1, bg_calls := remove1 h (bg_calls x),
      bg_running := dm_modify h (\<lambda>l. l\<lparr>loop_busy := False\<rparr>) (bg_running x)\<rparr>)"
| shutdown: "dm_get (bg_running x) h = Some l \<Longrightarrow> \<not> loop_waiting l \<Longrightarrow>
    bg_step x (x\<lparr>bg_running := dm_remove h (bg_running x)\<rparr>)"
| start: "bg_step x (start_agent x a name mode)"
| stop: "bg_step x (stop_agent x a)"

inductive_cases bg_stepE: "bg_step x y"

section \<open>The event bus\<close>

definition HISTORY_SIZE :: nat where
  "HISTORY_SIZE = 1000"

record event_bus =
  bus_sent :: "event list"
  agent_channels :: "(uuid, event list) dashmap"
  bus_history :: "event list"

definition new_bus :: event_bus where
  "new_bus = \<lparr>bus_sent = [], agent_channels = [], bus_history = []\<rparr>"

definition push_history :: "event \<Rightarrow> event list \<Rightarrow> event list" where
  "push_history e h = (if length h \<ge> HISTORY_SIZE then tl h else h) @ [e]"

definition publish :: "event_bus \<Rightarrow> event \<Rightarrow> event_bus" where
  "publish b e =
     (let b1 = b\<lparr>bus_history := push_history e (bus_history b)\<rparr> in
      case event_target e of
        ToAgent agent_id \<Rightarrow> b1\<lparr>agent_channels := dm_modify agent_id (\<lambda>es. es @ [e]) (agent_channels b1)\<rparr>
      | Broadcast \<Rightarrow> b1\<lparr>bus_sent := bus_sent b1 @ [e],
                       agent_channels := map (\<lambda>(a, es). (a, es @ [e])) (agent_channels b1)\<rparr>
      | ToPattern _ \<Rightarrow> b1\<lparr>bus_sent := bus_sent b1 @ [e]\<rparr>
      | ToSystem \<Rightarrow> b1\<lparr>bus_sent := bus_sent b1 @ [e]\<rparr>)"

definition subscribe_agent :: "event_bus \<Rightarrow> uuid \<Rightarrow> event_bus" where
  "subscribe_agent b agent_id =
     (case dm_get (agent_channels b) agent_id of
        Some _ \<Rightarrow> b
      | None \<Rightarrow> b\<lparr>agent_channels := dm_insert agent_id [] (agent_channels b)\<rparr>)"

definition recent_history :: "event_bus \<Rightarrow> nat \<Rightarrow> event list" where
  "recent_history b limit = take limit (rev (bus_history b))"

definition unsubscribe_agent :: "event_bus \<Rightarrow> uuid \<Rightarrow> event_bus" where
  "unsubscribe_agent b agent_id = b\<lparr>agent_channels := dm_remove agent_id (agent_channels b)\<rparr>"

section \<open>Lemmas\<close>

lemma strip_suffix_unit: "strip_suffix [u] (s @ [v]) = (if u = v then Some s else None)"
  by (auto simp: strip_suffix_def ends_with_iff)

lemma digit_plain: "is_digit c \<Longrightarrow> \<not> is_space c \<and> char_to_lower c = c"
  by (auto simp: is_digit_def is_space_def char_to_lower_def Let_def)

lemma lowercase_append: "to_lowercase (a @ b) = to_lowercase a @ to_lowercase b"
  by (simp add: to_lowercase_def)

lemma digits_plain:
  assumes "list_all is_digit ds" "ds \<noteq> []"
  shows "to_lowercase ds = ds" "trim ds = ds" "\<not> is_space c \<Longrightarrow> trim (ds @ [c]) = ds @ [c]"
  using assms digit_plain
  by (auto simp: to_lowercase_def list_all_iff intro!: map_idI trim_id)

definition unit_secs :: "(char \<times> u64) list" where
  "unit_secs = [(CHR ''s'', 1), (CHR ''m'', 60), (CHR ''h'', 3600), (CHR ''d'', 86400)]"

lemma every_roundtrip:
  assumes "(u, secs) \<in> set unit_secs"
  shows "parse_cron_to_secs (''every '' @ show_word n @ [u]) = n * secs"
proof -
  have ds: "list_all is_digit (show_word n)" "show_word n \<noteq> []"
    using show_nat_digits [of "unat n"] by (simp_all add: show_word_def)
  have u: "\<not> is_space u" "char_to_lower u = u"
    using assms by (auto simp: unit_secs_def is_space_def char_to_lower_def Let_def)
  have "trim (''every '' @ show_word n @ [u]) = ''every '' @ show_word n @ [u]"
    using u by (intro trim_id) (simp_all add: is_space_def)
  moreover have "to_lowercase (''every '' @ show_word n @ [u]) = ''every '' @ show_word n @ [u]"
    unfolding lowercase_append digits_plain(1) [OF ds] using u by (simp add: to_lowercase_def char_to_lower_def Let_def)
  ultimately have rest: "strip_prefix ''every '' (to_lowercase (trim (''every '' @ show_word n @ [u]))) = Some (show_word n @ [u])"
    by (simp only: strip_prefix_append)
  show ?thesis
    unfolding parse_cron_to_secs_def rest option.case digits_plain(3) [OF ds u(1)]
    using assms
    by (auto simp: unit_secs_def try_unit_def strip_suffix_unit digits_plain(2) [OF ds] parse_show_u64)
qed

datatype bus_op = Publish event | Subscribe uuid | Unsubscribe uuid

fun bus_step :: "event_bus \<Rightarrow> bus_op \<Rightarrow> event_bus" where
  "bus_step b (Publish e) = publish b e"
| "bus_step b (Subscribe a) = subscribe_agent b a"
| "bus_step b (Unsubscribe a) = unsubscribe_agent b a"

definition published :: "bus_op list \<Rightarrow> event list" where
  "published ops = List.map_filter (\<lambda>p. case p of Publish e \<Rightarrow> Some e | _ \<Rightarrow> None) ops"

lemma published_simps [simp]:
  "published [] = []"
  "published (Publish e # ops) = e # published ops"
  "published (Subscribe a # ops) = published ops"
  "published (Unsubscribe a # ops) = published ops"
  by (simp_all add: published_def List.map_filter_def)

lemma history_simps [simp]:
  "bus_history (publish b e) = push_history e (bus_history b)"
  "bus_history (subscribe_agent b a) = bus_history b"
  "bus_history (unsubscribe_agent b a) = bus_history b"
  by (simp_all add: publish_def subscribe_agent_def unsubscribe_agent_def Let_def split: event_target.split option.split)

lemma push_history_last:
  "length h \<le> HISTORY_SIZE \<Longrightarrow> push_history e h = drop (length (h @ [e]) - HISTORY_SIZE) (h @ [e])"
  by (cases h) (auto simp: push_history_def HISTORY_SIZE_def)

lemma drop_last_step:
  "drop (length (drop (length h - k) h @ [e]) - k) (drop (length h - k) h @ [e]) = drop (length (h @ [e]) - k) (h @ [e])"
  by (cases "length h < k") (auto simp: drop_Suc drop_tl Suc_diff_le not_less)

lemma bus_history_run:
  "bus_history b = drop (length h - HISTORY_SIZE) h \<Longrightarrow>
    bus_history (run bus_step b ops) = drop (length (h @ published ops) - HISTORY_SIZE) (h @ published ops)"
proof (induction ops arbitrary: b h)
  case (Cons op ops)
  show ?case
  proof (cases op)
    case (Publish e)
    have "bus_history (publish b e) = drop (length (h @ [e]) - HISTORY_SIZE) (h @ [e])"
      using Cons.prems push_history_last [of "bus_history b" e] drop_last_step [of h HISTORY_SIZE e] by simp
    from Cons.IH [OF this] Publish show ?thesis by simp
  qed (use Cons in simp_all)
qed simp

lemma channel_publish:
  "dm_get (agent_channels (publish b e)) a =
    map_option (\<lambda>es. if event_target e = ToAgent a \<or> event_target e = Broadcast then es @ [e] else es)
      (dm_get (agent_channels b) a)"
proof -
  have "dm_get (map (\<lambda>(a, es). (a, es @ [e])) m) a = map_option (\<lambda>es. es @ [e]) (dm_get m a)" for m :: "(uuid, event list) dashmap"
    by (induction m) (auto simp: dm_get_def)
  then show ?thesis
    by (cases "event_target e"; cases "dm_get (agent_channels b) a") (simp_all add: publish_def Let_def, auto)
qed

section \<open>The limit on background calls\<close>

definition loop_ok :: "nat list \<Rightarrow> nat \<Rightarrow> bg_loop \<Rightarrow> bool" where
  "loop_ok calls h l \<longleftrightarrow> (loop_busy l \<longleftrightarrow> loop_waiting l \<or> h \<in> set calls) \<and> \<not> (loop_waiting l \<and> h \<in> set calls)"

lemma loop_ok_call:
  "loop_ok (calls @ [h]) k l \<longleftrightarrow> (if k = h then loop_busy l \<and> \<not> loop_waiting l else loop_ok calls k l)"
  by (simp add: loop_ok_def)

lemma loop_ok_return:
  assumes "distinct calls" "h \<in> set calls" "loop_ok calls k l"
  shows "loop_ok (remove1 h calls) k (if k = h then l\<lparr>loop_busy := False\<rparr> else l)"
  using assms by (auto simp: loop_ok_def)

definition loops_ok :: "nat \<Rightarrow> nat list \<Rightarrow> (nat, bg_loop) dashmap \<Rightarrow> bool" where
  "loops_ok n calls r \<longleftrightarrow> (\<forall>h l. dm_get r h = Some l \<longrightarrow> h < n \<and> loop_ok calls h l)"

definition bg_inv :: "background_executor \<Rightarrow> bool" where
  "bg_inv x \<longleftrightarrow> bg_permits x + length (bg_calls x) = MAX_CONCURRENT_BG_LLM \<and> distinct (bg_calls x)
     \<and> (\<forall>h\<in>set (bg_calls x). h < bg_next x) \<and> loops_ok (bg_next x) (bg_calls x) (bg_running x)"

lemma loops_okD: "loops_ok n calls r \<Longrightarrow> dm_get r h = Some l \<Longrightarrow> h < n \<and> loop_ok calls h l"
  by (simp add: loops_ok_def)

lemma loops_ok_insert: "loops_ok n calls r \<Longrightarrow> h < n \<Longrightarrow> loop_ok calls h l \<Longrightarrow> loops_ok n calls (dm_insert h l r)"
  by (simp add: loops_ok_def)

lemma loops_ok_remove: "loops_ok n calls r \<Longrightarrow> loops_ok n calls (dm_remove h r)"
  by (simp add: loops_ok_def)

lemma loops_ok_Suc: "loops_ok n calls r \<Longrightarrow> loops_ok (Suc n) calls r"
  unfolding loops_ok_def using less_SucI by blast

lemma loops_ok_call: "loops_ok n calls r \<Longrightarrow> h < n \<Longrightarrow> loop_busy l \<Longrightarrow> \<not> loop_waiting l \<Longrightarrow>
    loops_ok n (calls @ [h]) (dm_insert h l r)"
  by (simp add: loops_ok_def loop_ok_call)

lemma loops_ok_return:
  assumes "loops_ok n calls r" "h \<in> set calls" "distinct calls"
  shows "loops_ok n (remove1 h calls) (dm_modify h (\<lambda>l. l\<lparr>loop_busy := False\<rparr>) r)"
  unfolding loops_ok_def
proof (intro allI impI)
  fix k l assume "dm_get (dm_modify h (\<lambda>l. l\<lparr>loop_busy := False\<rparr>) r) k = Some l"
  then obtain l0 where l0: "dm_get r k = Some l0" "l = (if k = h then l0\<lparr>loop_busy := False\<rparr> else l0)"
    by (cases "k = h") auto
  show "k < n \<and> loop_ok (remove1 h calls) k l"
    using loops_okD [OF assms(1) l0(1)] loop_ok_return [OF assms(3,2)] by (simp add: l0(2))
qed

lemma bg_inv_start: "bg_inv x \<Longrightarrow> bg_inv (start_agent x a name mode)"
proof -
  assume x: "bg_inv x"
  then have "bg_next x \<notin> set (bg_calls x)" by (auto simp: bg_inv_def)
  then have "bg_inv (spawn_loop x a name m i)" for m i
    using x by (simp add: bg_inv_def spawn_loop_def loop_ok_def loops_ok_insert loops_ok_Suc less_SucI)
  then show ?thesis using x by (cases mode) simp_all
qed

lemma bg_inv_stop: "bg_inv x \<Longrightarrow> bg_inv (stop_agent x a)"
  by (simp add: bg_inv_def stop_agent_def loops_ok_remove split: option.split)

lemma bg_inv_step: "bg_step x y \<Longrightarrow> bg_inv x \<Longrightarrow> bg_inv y"
proof (induction rule: bg_step.induct)
  case (tick x h l)
  then have "loop_ok (bg_calls x) h l" "h < bg_next x" using loops_okD by (auto simp: bg_inv_def)
  with tick show ?case by (simp add: bg_inv_def set_loop_def loops_ok_insert loop_ok_def)
next
  case (acquire x h l n)
  then have l: "loop_ok (bg_calls x) h l" "h < bg_next x" using loops_okD by (auto simp: bg_inv_def)
  with acquire have "h \<notin> set (bg_calls x)" "loop_busy l" by (auto simp: loop_ok_def)
  with acquire l show ?case by (simp add: bg_inv_def set_loop_def loops_ok_call)
next
  case (finish h x)
  then have "length (bg_calls x) \<noteq> 0" by auto
  then have "Suc (length (remove1 h (bg_calls x))) = length (bg_calls x)"
    using finish(1) by (simp add: length_remove1)
  with finish show ?case
    by (auto simp: bg_inv_def loops_ok_return simp del: dm_get_modify dest: notin_set_remove1)
next
  case (shutdown x h l)
  then show ?case by (simp add: bg_inv_def loops_ok_remove)
qed (simp_all add: bg_inv_start bg_inv_stop)

lemma bg_inv_reachable: "bg_step\<^sup>*\<^sup>* new_executor x \<Longrightarrow> bg_inv x"
proof (induction rule: rtranclp_induct)
  case base
  show ?case by (simp add: bg_inv_def new_executor_def loops_ok_def)
next
  case (step y z)
  then show ?case using bg_inv_step by blast
qed

section \<open>Properties\<close>

text \<open>
  Interval schedules read back. \<open>every <n><unit>\<close> is read as that many seconds for every \<open>u64\<close>
  number and each of the four units; the multiplication is in \<open>u64\<close>, so it wraps for absurd
  numbers (lemma \<open>interval_wraps\<close>).
\<close>

theorem interval_roundtrip:
  "parse_cron_to_secs (''every '' @ show_word n @ ''s'') = n
   \<and> parse_cron_to_secs (''every '' @ show_word n @ ''m'') = n * 60
   \<and> parse_cron_to_secs (''every '' @ show_word n @ ''h'') = n * 3600
   \<and> parse_cron_to_secs (''every '' @ show_word n @ ''d'') = n * 86400"
  using every_roundtrip [of "CHR ''s''" 1 n] every_roundtrip [of "CHR ''m''" 60 n]
    every_roundtrip [of "CHR ''h''" 3600 n] every_roundtrip [of "CHR ''d''" 86400 n]
  by (simp add: unit_secs_def)

theorem interval_wraps: "parse_cron_to_secs (''every '' @ show_word (307445734561825861 :: u64) @ ''m'') = 44"
  using every_roundtrip [of "CHR ''m''" 60 307445734561825861] by (simp add: unit_secs_def)

text \<open>
  The event history is the last thousand events. Whatever is published, subscribed and
  unsubscribed in between, \<open>history(limit)\<close> gives the latest events, newest first, and no more
  than a thousand.
\<close>

theorem history_is_latest:
  "recent_history (run bus_step new_bus ops) limit
    = take limit (take 1000 (rev (published ops)))"
proof -
  have "bus_history (run bus_step new_bus ops) = drop (length (published ops) - 1000) (published ops)"
    using bus_history_run [of new_bus "[]" ops] by (simp add: new_bus_def HISTORY_SIZE_def)
  then show ?thesis
    by (cases "length (published ops) \<le> 1000") (simp_all add: recent_history_def rev_drop)
qed

text \<open>
  C25: background calls are limited. However the loops tick, wait, finish, start, stop and shut
  down, at most five background calls run at once, and no loop has two.
\<close>

theorem background_calls_limited:
  assumes "bg_step\<^sup>*\<^sup>* new_executor x"
  shows "length (bg_calls x) \<le> 5 \<and> distinct (bg_calls x)"
  using bg_inv_reachable [OF assms] by (simp add: bg_inv_def MAX_CONCURRENT_BG_LLM_def)

theorem background_calls_limited_witness:
  "\<exists>x. bg_step\<^sup>*\<^sup>* new_executor x \<and> bg_calls x = [0] \<and> length (bg_calls x) \<le> 5 \<and> distinct (bg_calls x)"
proof -
  let ?l = "\<lparr>loop_agent = 7, loop_name = ''ada'', loop_mode = Continuous 60, loop_interval_secs = 60,
    loop_waiting = False, loop_busy = False\<rparr>"
  let ?x1 = "start_agent new_executor 7 ''ada'' (Continuous 60)"
  let ?x2 = "set_loop 0 (?l\<lparr>loop_waiting := True, loop_busy := True\<rparr>) ?x1"
  have "bg_step new_executor ?x1" by (rule start)
  moreover have "bg_step ?x1 ?x2"
    by (rule tick) (simp_all add: spawn_loop_def new_executor_def)
  moreover have "\<exists>x. bg_step ?x2 x \<and> bg_calls x = [0]"
  proof
    show "bg_step ?x2 ((set_loop 0 (?l\<lparr>loop_waiting := True, loop_busy := True, loop_waiting := False\<rparr>) ?x2)
        \<lparr>bg_permits := 4, bg_calls := bg_calls ?x2 @ [0],
         bg_sent := bg_sent ?x2 @ [(loop_agent ?l, loop_prompt (loop_name ?l) (loop_mode ?l))]\<rparr>)
      \<and> bg_calls ((set_loop 0 (?l\<lparr>loop_waiting := True, loop_busy := True, loop_waiting := False\<rparr>) ?x2)
        \<lparr>bg_permits := 4, bg_calls := bg_calls ?x2 @ [0],
         bg_sent := bg_sent ?x2 @ [(loop_agent ?l, loop_prompt (loop_name ?l) (loop_mode ?l))]\<rparr>) = [0]"
      using acquire [of ?x2 0 "?l\<lparr>loop_waiting := True, loop_busy := True\<rparr>" 4]
      by (simp add: set_loop_def spawn_loop_def new_executor_def MAX_CONCURRENT_BG_LLM_def)
  qed
  ultimately obtain x where "bg_step\<^sup>*\<^sup>* new_executor x" "bg_calls x = [0]"
    by (meson converse_rtranclp_into_rtranclp r_into_rtranclp)
  with background_calls_limited [of x] show ?thesis by blast
qed

text \<open>
  A restarted loop escapes. Starting an agent that already has a loop overwrites its handle
  without aborting the loop, so after \<open>stop_agent\<close> the first loop is still running.
\<close>

theorem restarted_loop_escapes:
  "map (loop_agent \<circ> snd) (bg_running (stop_agent (start_agent (start_agent new_executor a name (Continuous i)) a name (Continuous j)) a))
    = [a]"
  by (simp add: new_executor_def spawn_loop_def stop_agent_def dm_get_def dm_insert_def dm_remove_def)

end
