(* ===== verification/ModelCatalog.thy ===== *)
theory ModelCatalog
  imports Prelude
begin

text \<open>
  The model catalog: \<open>openfang-runtime/src/model_catalog.rs\<close> with the types of
  \<open>openfang-types/src/model_catalog.rs\<close>. The built-in tables of models, aliases and providers
  are arguments of \<open>new_catalog\<close>. What \<open>detect_auth\<close> reads outside the program (environment
  variables, installed command-line tools, stored tokens) is the parameter \<open>auth_env\<close>.
\<close>

section \<open>Models and providers\<close>

datatype model_tier = Frontier | Smart | Balanced | Fast | Local | Custom

datatype auth_status = Configured | Missing | NotRequired

record catalog_entry =
  ce_id :: string
  ce_display_name :: string
  ce_provider :: string
  ce_tier :: model_tier
  ce_context_window :: u64
  ce_max_output_tokens :: u64
  ce_input_cost_per_m :: f64
  ce_output_cost_per_m :: f64
  ce_supports_tools :: bool
  ce_supports_vision :: bool
  ce_supports_streaming :: bool
  ce_aliases :: "string list"

definition default_catalog_entry :: catalog_entry where
  "default_catalog_entry = \<lparr>ce_id = [], ce_display_name = [], ce_provider = [], ce_tier = Balanced,
     ce_context_window = 0, ce_max_output_tokens = 0, ce_input_cost_per_m = Finite 0,
     ce_output_cost_per_m = Finite 0, ce_supports_tools = False, ce_supports_vision = False,
     ce_supports_streaming = False, ce_aliases = []\<rparr>"

record provider_info =
  pi_id :: string
  pi_display_name :: string
  pi_api_key_env :: string
  pi_base_url :: string
  pi_key_required :: bool
  pi_auth_status :: auth_status
  pi_model_count :: nat

definition default_provider_info :: provider_info where
  "default_provider_info = \<lparr>pi_id = [], pi_display_name = [], pi_api_key_env = [], pi_base_url = [],
     pi_key_required = True, pi_auth_status = Missing, pi_model_count = 0\<rparr>"

record model_catalog =
  cat_models :: "catalog_entry list"
  cat_aliases :: "(string, string) dashmap"
  cat_providers :: "provider_info list"

definition models_of :: "catalog_entry list \<Rightarrow> string \<Rightarrow> nat" where
  "models_of ms provider = length (filter (\<lambda>m. ce_provider m = provider) ms)"

definition add_alias :: "catalog_entry \<Rightarrow> string \<Rightarrow> (string, string) dashmap \<Rightarrow> (string, string) dashmap" where
  "add_alias m alias as =
     (case dm_get as (to_lowercase alias) of
        None \<Rightarrow> dm_insert (to_lowercase alias) (ce_id m) as
      | Some _ \<Rightarrow> as)"

definition new_catalog ::
  "catalog_entry list \<Rightarrow> (string, string) dashmap \<Rightarrow> provider_info list \<Rightarrow> model_catalog" where
  "new_catalog builtin_models builtin_aliases builtin_providers =
     \<lparr>cat_models = builtin_models,
      cat_aliases = fold (\<lambda>m. fold (add_alias m) (ce_aliases m)) builtin_models builtin_aliases,
      cat_providers = map (\<lambda>p. p\<lparr>pi_model_count := models_of builtin_models (pi_id p)\<rparr>) builtin_providers\<rparr>"

text \<open>The first element that satisfies a test is changed: \<open>iter_mut().find(..)\<close>.\<close>

fun update_first :: "('a \<Rightarrow> bool) \<Rightarrow> ('a \<Rightarrow> 'a) \<Rightarrow> 'a list \<Rightarrow> 'a list" where
  "update_first P f [] = []"
| "update_first P f (x # xs) = (if P x then f x # xs else x # update_first P f xs)"

section \<open>Authentication\<close>

record auth_env =
  env_var :: "string \<Rightarrow> string option"
  claude_code_available :: bool
  qwen_code_available :: bool
  copilot_auth_available :: bool
  codex_credential :: bool

definition env_is_set :: "auth_env \<Rightarrow> string \<Rightarrow> bool" where
  "env_is_set env v = (env_var env v \<noteq> None)"

definition configured_if :: "bool \<Rightarrow> auth_status" where
  "configured_if b = (if b then Configured else Missing)"

definition auth_status_of :: "auth_env \<Rightarrow> provider_info \<Rightarrow> auth_status" where
  "auth_status_of env p =
     (if pi_id p = ''claude-code'' then configured_if (claude_code_available env)
      else if pi_id p = ''qwen-code'' then configured_if (qwen_code_available env)
      else if pi_id p = ''github-copilot'' \<or> pi_id p = ''copilot'' then configured_if (copilot_auth_available env)
      else if \<not> pi_key_required p then NotRequired
      else
        let has_key = env_is_set env (pi_api_key_env p);
            has_fallback =
              (if pi_id p = ''gemini'' then env_is_set env ''GOOGLE_API_KEY''
               else if pi_id p = ''codex'' then env_is_set env ''OPENAI_API_KEY'' \<or> codex_credential env
               else False)
        in configured_if (has_key \<or> has_fallback))"

definition detect_auth :: "auth_env \<Rightarrow> model_catalog \<Rightarrow> model_catalog" where
  "detect_auth env c =
     c\<lparr>cat_providers := map (\<lambda>p. p\<lparr>pi_auth_status := auth_status_of env p\<rparr>) (cat_providers c)\<rparr>"

section \<open>Lookups\<close>

definition is_user_defined :: "catalog_entry \<Rightarrow> bool" where
  "is_user_defined m = (ce_tier m = Custom \<or> ce_tier m = Local)"

text \<open>
  The scan of \<open>find_model\<close>: it returns at a user-defined exact match, and otherwise ends with
  the three candidates.
\<close>

fun scan_models ::
  "string \<Rightarrow> catalog_entry list \<Rightarrow> catalog_entry option \<Rightarrow> catalog_entry option \<Rightarrow> catalog_entry option \<Rightarrow>
    catalog_entry option" where
  "scan_models q [] user_ci builtin_exact builtin_ci =
     (if user_ci \<noteq> None then user_ci else if builtin_exact \<noteq> None then builtin_exact else builtin_ci)"
| "scan_models q (m # ms) user_ci builtin_exact builtin_ci =
     (if to_lowercase (ce_id m) \<noteq> to_lowercase q then scan_models q ms user_ci builtin_exact builtin_ci
      else if is_user_defined m \<and> ce_id m = q then Some m
      else if is_user_defined m \<and> user_ci = None then scan_models q ms (Some m) builtin_exact builtin_ci
      else if \<not> is_user_defined m \<and> ce_id m = q \<and> builtin_exact = None then scan_models q ms user_ci (Some m) builtin_ci
      else if \<not> is_user_defined m \<and> ce_id m \<noteq> q \<and> builtin_ci = None then scan_models q ms user_ci builtin_exact (Some m)
      else scan_models q ms user_ci builtin_exact builtin_ci)"

definition find_model :: "model_catalog \<Rightarrow> string \<Rightarrow> catalog_entry option" where
  "find_model c q =
     (case scan_models q (cat_models c) None None None of
        Some m \<Rightarrow> Some m
      | None \<Rightarrow>
          (case find (\<lambda>m. to_lowercase (ce_display_name m) = to_lowercase q) (cat_models c) of
             Some m \<Rightarrow> Some m
           | None \<Rightarrow>
               (case dm_get (cat_aliases c) (to_lowercase q) of
                  Some canonical \<Rightarrow> find (\<lambda>m. ce_id m = canonical) (cat_models c)
                | None \<Rightarrow> None)))"

fun scan_provider :: "string \<Rightarrow> string \<Rightarrow> catalog_entry list \<Rightarrow> catalog_entry option \<Rightarrow> catalog_entry option" where
  "scan_provider q provider [] provider_ci = provider_ci"
| "scan_provider q provider (m # ms) provider_ci =
     (if ce_provider m \<noteq> provider then scan_provider q provider ms provider_ci
      else if to_lowercase (ce_id m) \<noteq> to_lowercase q then scan_provider q provider ms provider_ci
      else if ce_id m = q then Some m
      else scan_provider q provider ms (if provider_ci = None then Some m else provider_ci))"

definition find_model_for_provider :: "model_catalog \<Rightarrow> string \<Rightarrow> string \<Rightarrow> catalog_entry option" where
  "find_model_for_provider c q provider =
     (case scan_provider q provider (cat_models c) None of
        Some m \<Rightarrow> Some m
      | None \<Rightarrow>
          (case find (\<lambda>m. ce_provider m = provider \<and> to_lowercase (ce_display_name m) = to_lowercase q) (cat_models c) of
             Some m \<Rightarrow> Some m
           | None \<Rightarrow>
               (case (case dm_get (cat_aliases c) (to_lowercase q) of
                        Some canonical \<Rightarrow> find (\<lambda>m. ce_id m = canonical \<and> ce_provider m = provider) (cat_models c)
                      | None \<Rightarrow> None) of
                  Some m \<Rightarrow> Some m
                | None \<Rightarrow> find_model c q)))"

definition resolve_alias :: "model_catalog \<Rightarrow> string \<Rightarrow> string option" where
  "resolve_alias c alias = dm_get (cat_aliases c) (to_lowercase alias)"

definition get_provider :: "model_catalog \<Rightarrow> string \<Rightarrow> provider_info option" where
  "get_provider c provider_id = find (\<lambda>p. pi_id p = provider_id) (cat_providers c)"

definition models_by_provider :: "model_catalog \<Rightarrow> string \<Rightarrow> catalog_entry list" where
  "models_by_provider c provider = filter (\<lambda>m. ce_provider m = provider) (cat_models c)"

definition default_model_for_provider :: "model_catalog \<Rightarrow> string \<Rightarrow> string option" where
  "default_model_for_provider c provider =
     (case dm_get (cat_aliases c) provider of
        Some model_id \<Rightarrow> Some model_id
      | None \<Rightarrow> map_option ce_id (find (\<lambda>m. ce_provider m = provider) (cat_models c)))"

definition available_models :: "model_catalog \<Rightarrow> catalog_entry list" where
  "available_models c =
     (let configured = map pi_id (filter (\<lambda>p. pi_auth_status p \<noteq> Missing) (cat_providers c))
      in filter (\<lambda>m. ce_provider m \<in> set configured) (cat_models c))"

definition pricing :: "model_catalog \<Rightarrow> string \<Rightarrow> (f64 \<times> f64) option" where
  "pricing c model_id = map_option (\<lambda>m. (ce_input_cost_per_m m, ce_output_cost_per_m m)) (find_model c model_id)"

definition models_by_tier :: "model_catalog \<Rightarrow> model_tier \<Rightarrow> catalog_entry list" where
  "models_by_tier c tier = filter (\<lambda>m. ce_tier m = tier) (cat_models c)"

section \<open>Changes\<close>

definition custom_provider :: "string \<Rightarrow> string \<Rightarrow> provider_info" where
  "custom_provider provider url =
     \<lparr>pi_id = provider, pi_display_name = provider,
      pi_api_key_env = str_replace (to_uppercase provider) ''-'' ''_'' @ ''_API_KEY'',
      pi_base_url = url, pi_key_required = True, pi_auth_status = Missing, pi_model_count = 0\<rparr>"

definition set_provider_url :: "auth_env \<Rightarrow> model_catalog \<Rightarrow> string \<Rightarrow> string \<Rightarrow> model_catalog \<times> bool" where
  "set_provider_url env c provider url =
     (if list_ex (\<lambda>p. pi_id p = provider) (cat_providers c) then
        (c\<lparr>cat_providers := update_first (\<lambda>p. pi_id p = provider) (\<lambda>p. p\<lparr>pi_base_url := url\<rparr>) (cat_providers c)\<rparr>, True)
      else
        (detect_auth env (c\<lparr>cat_providers := cat_providers c @ [custom_provider provider url]\<rparr>), True))"

text \<open>\<open>local_provider_url_from_env\<close> of \<open>openfang-runtime/src/drivers/mod.rs\<close>.\<close>

definition read_env :: "auth_env \<Rightarrow> string \<Rightarrow> string option" where
  "read_env env var =
     (case env_var env var of
        Some v \<Rightarrow> if trim v \<noteq> [] then Some (trim v) else None
      | None \<Rightarrow> None)"

definition trim_end_slashes :: "string \<Rightarrow> string" where
  "trim_end_slashes s = rev (dropWhile (\<lambda>c. c = CHR ''/'') (rev s))"

definition normalize_url :: "string \<Rightarrow> string" where
  "normalize_url raw =
     (let url = (if str_contains raw ''://'' then trim_end_slashes raw else ''http://'' @ trim_end_slashes raw);
          lower = to_lowercase url
      in if \<not> ends_with lower ''/v1'' \<and> \<not> str_contains lower ''/v1/'' then url @ ''/v1'' else url)"

definition local_provider_url_from_env :: "auth_env \<Rightarrow> string \<Rightarrow> string option" where
  "local_provider_url_from_env env provider =
     (let vars = (if provider = ''ollama'' then Some (''OLLAMA_BASE_URL'', ''OLLAMA_HOST'')
                  else if provider = ''lmstudio'' then Some (''LMSTUDIO_BASE_URL'', ''LMSTUDIO_HOST'')
                  else if provider = ''vllm'' then Some (''VLLM_BASE_URL'', ''VLLM_HOST'')
                  else if provider = ''lemonade'' then Some (''LEMONADE_BASE_URL'', ''LEMONADE_HOST'')
                  else None)
      in case vars of
           None \<Rightarrow> None
         | Some (primary, host_fallback) \<Rightarrow>
             (case read_env env primary of
                Some v \<Rightarrow> Some (normalize_url v)
              | None \<Rightarrow> map_option normalize_url (read_env env host_fallback)))"

definition local_override :: "auth_env \<Rightarrow> string \<Rightarrow> model_catalog \<Rightarrow> model_catalog" where
  "local_override env provider c =
     (case local_provider_url_from_env env provider of
        Some url \<Rightarrow> c\<lparr>cat_providers := update_first (\<lambda>p. pi_id p = provider)
          (\<lambda>p. p\<lparr>pi_base_url := url, pi_auth_status := Configured\<rparr>) (cat_providers c)\<rparr>
      | None \<Rightarrow> c)"

definition apply_local_env_overrides :: "auth_env \<Rightarrow> model_catalog \<Rightarrow> model_catalog" where
  "apply_local_env_overrides env c =
     fold (local_override env) [''ollama'', ''lmstudio'', ''vllm'', ''lemonade''] c"

definition mark_configured :: "provider_info \<Rightarrow> provider_info" where
  "mark_configured p = (if pi_auth_status p = Missing then p\<lparr>pi_auth_status := Configured\<rparr> else p)"

definition apply_override :: "auth_env \<Rightarrow> string \<times> string \<Rightarrow> model_catalog \<Rightarrow> model_catalog" where
  "apply_override env ov c =
     (let (provider, url) = ov;
          (c1, found) = set_provider_url env c provider url
      in if found then c1\<lparr>cat_providers := update_first (\<lambda>p. pi_id p = provider) mark_configured (cat_providers c1)\<rparr>
         else c1)"

text \<open>The overrides are a hash map; the list is the order in which it is iterated.\<close>

definition apply_url_overrides :: "auth_env \<Rightarrow> model_catalog \<Rightarrow> (string \<times> string) list \<Rightarrow> model_catalog" where
  "apply_url_overrides env c overrides = fold (apply_override env) overrides c"

definition recount :: "string \<Rightarrow> model_catalog \<Rightarrow> model_catalog" where
  "recount provider c = c\<lparr>cat_providers := update_first (\<lambda>p. pi_id p = provider)
     (\<lambda>p. p\<lparr>pi_model_count := models_of (cat_models c) provider\<rparr>) (cat_providers c)\<rparr>"

definition discovered_entry :: "string \<Rightarrow> string \<Rightarrow> catalog_entry" where
  "discovered_entry provider i =
     \<lparr>ce_id = i, ce_display_name = i @ '' ('' @ provider @ '')'', ce_provider = provider, ce_tier = Local,
      ce_context_window = 131072, ce_max_output_tokens = 16384, ce_input_cost_per_m = Finite 0,
      ce_output_cost_per_m = Finite 0, ce_supports_tools = True, ce_supports_vision = False,
      ce_supports_streaming = True, ce_aliases = []\<rparr>"

definition merge_discovered_models :: "model_catalog \<Rightarrow> string \<Rightarrow> string list \<Rightarrow> model_catalog" where
  "merge_discovered_models c provider model_ids =
     (let existing_ids = map (\<lambda>m. to_lowercase (ce_id m)) (filter (\<lambda>m. ce_provider m = provider) (cat_models c));
          added = filter (\<lambda>i. to_lowercase i \<notin> set existing_ids) model_ids;
          c1 = c\<lparr>cat_models := cat_models c @ map (discovered_entry provider) added\<rparr>
      in if added \<noteq> [] then recount provider c1 else c1)"

definition add_custom_model :: "model_catalog \<Rightarrow> catalog_entry \<Rightarrow> model_catalog \<times> bool" where
  "add_custom_model c e =
     (if list_ex (\<lambda>m. to_lowercase (ce_id m) = to_lowercase (ce_id e)
            \<and> to_lowercase (ce_provider m) = to_lowercase (ce_provider e)) (cat_models c)
      then (c, False)
      else (recount (ce_provider e) (c\<lparr>cat_models := cat_models c @ [e\<lparr>ce_tier := Custom\<rparr>]\<rparr>), True))"

definition is_custom_named :: "string \<Rightarrow> catalog_entry \<Rightarrow> bool" where
  "is_custom_named model_id m = (to_lowercase (ce_id m) = to_lowercase model_id \<and> ce_tier m = Custom)"

definition remove_custom_model :: "model_catalog \<Rightarrow> string \<Rightarrow> model_catalog \<times> bool" where
  "remove_custom_model c model_id =
     (let affected = map ce_provider (filter (is_custom_named model_id) (cat_models c));
          c1 = c\<lparr>cat_models := filter (\<lambda>m. \<not> is_custom_named model_id m) (cat_models c)\<rparr>
      in (fold recount affected c1, length (cat_models c1) < length (cat_models c)))"

text \<open>The file of custom models is its list of entries; reading and writing JSON is left out.\<close>

definition load_custom_models :: "model_catalog \<Rightarrow> catalog_entry list option \<Rightarrow> model_catalog" where
  "load_custom_models c file =
     (case file of
        None \<Rightarrow> c
      | Some entries \<Rightarrow> fold (\<lambda>e c. fst (add_custom_model c e)) entries c)"

definition save_custom_models :: "model_catalog \<Rightarrow> catalog_entry list" where
  "save_custom_models c = filter (\<lambda>m. ce_tier m = Custom) (cat_models c)"

section \<open>The order of preference\<close>

text \<open>What \<open>find_model\<close> prefers, as a list of searches.\<close>

definition id_matches :: "string \<Rightarrow> catalog_entry \<Rightarrow> bool" where
  "id_matches q m = (to_lowercase (ce_id m) = to_lowercase q)"

definition preferred :: "model_catalog \<Rightarrow> string \<Rightarrow> catalog_entry option" where
  "preferred c q = first_some
     [find (\<lambda>m. is_user_defined m \<and> ce_id m = q) (cat_models c),
      find (\<lambda>m. is_user_defined m \<and> id_matches q m) (cat_models c),
      find (\<lambda>m. ce_id m = q) (cat_models c),
      find (id_matches q) (cat_models c),
      find (\<lambda>m. to_lowercase (ce_display_name m) = to_lowercase q) (cat_models c),
      Option.bind (resolve_alias c q) (\<lambda>canonical. find (\<lambda>m. ce_id m = canonical) (cat_models c))]"

lemma scan_models_eq:
  "scan_models q ms u b i = first_some
     [find (\<lambda>m. is_user_defined m \<and> ce_id m = q) ms,
      or_else u (find (\<lambda>m. is_user_defined m \<and> id_matches q m) ms),
      or_else b (find (\<lambda>m. \<not> is_user_defined m \<and> ce_id m = q) ms),
      or_else i (find (\<lambda>m. \<not> is_user_defined m \<and> ce_id m \<noteq> q \<and> id_matches q m) ms)]"
proof (induction ms arbitrary: u b i)
  case Nil
  show ?case by (cases u; cases b) simp_all
next
  case (Cons m ms)
  show ?case
    by (cases "id_matches q m"; cases "ce_id m = q"; cases "is_user_defined m"; cases u; cases b; cases i)
      (simp_all add: Cons.IH id_matches_def)
qed

lemma find_none_imp: "find P xs = None \<Longrightarrow> (\<And>x. Q x \<Longrightarrow> P x) \<Longrightarrow> find Q xs = None"
  by (auto simp: find_None_iff)

lemma find_conj_none: "find P xs = None \<Longrightarrow> find (\<lambda>x. \<not> P x \<and> Q x) xs = find Q xs"
  by (induction xs) (auto split: if_splits)

lemma find_drop_neg: "find (\<lambda>x. U x \<and> M x) xs = None \<Longrightarrow> find (\<lambda>x. \<not> U x \<and> M x) xs = find M xs"
  by (induction xs) (auto split: if_splits)

lemma scan_models_start:
  "scan_models q ms None None None = first_some
     [find (\<lambda>m. is_user_defined m \<and> ce_id m = q) ms, find (\<lambda>m. is_user_defined m \<and> id_matches q m) ms,
      find (\<lambda>m. ce_id m = q) ms, find (id_matches q) ms]"
proof -
  have exact: "find (\<lambda>m. \<not> is_user_defined m \<and> ce_id m = q) ms = find (\<lambda>m. ce_id m = q) ms"
    if "find (\<lambda>m. is_user_defined m \<and> id_matches q m) ms = None"
    by (rule find_drop_neg, rule find_none_imp [OF that]) (simp add: id_matches_def)
  have ci: "find (\<lambda>m. \<not> is_user_defined m \<and> ce_id m \<noteq> q \<and> id_matches q m) ms = find (id_matches q) ms"
    if "find (\<lambda>m. is_user_defined m \<and> id_matches q m) ms = None" "find (\<lambda>m. ce_id m = q) ms = None"
  proof -
    have "find (\<lambda>m. \<not> is_user_defined m \<and> ce_id m \<noteq> q \<and> id_matches q m) ms
        = find (\<lambda>m. ce_id m \<noteq> q \<and> id_matches q m) ms"
      by (rule find_drop_neg, rule find_none_imp [OF that(1)]) simp
    also have "\<dots> = find (id_matches q) ms"
      using find_conj_none [OF that(2), of "id_matches q"] by simp
    finally show ?thesis .
  qed
  show ?thesis
    unfolding scan_models_eq
    by (cases "find (\<lambda>m. is_user_defined m \<and> ce_id m = q) ms"; cases "find (\<lambda>m. is_user_defined m \<and> id_matches q m) ms")
      (use exact ci in \<open>simp_all, cases "find (\<lambda>m. ce_id m = q) ms", simp_all\<close>)
qed

lemma find_model_preferred: "find_model c q = preferred c q"
  unfolding find_model_def preferred_def scan_models_start resolve_alias_def
  by (cases "dm_get (cat_aliases c) (to_lowercase q)") (simp_all add: case_or_else or_else_assoc)

section \<open>The model counts\<close>

definition counts_ok :: "model_catalog \<Rightarrow> bool" where
  "counts_ok c \<longleftrightarrow> (\<forall>x p. get_provider c x = Some p \<longrightarrow> pi_model_count p = models_of (cat_models c) x)"

lemma find_pi_update:
  assumes "\<And>p. pi_id (f p) = pi_id p"
  shows "find (\<lambda>p. pi_id p = x) (update_first (\<lambda>p. pi_id p = y) f ps) =
    (if x = y then map_option f (find (\<lambda>p. pi_id p = x) ps) else find (\<lambda>p. pi_id p = x) ps)"
  by (induction ps) (auto simp: assms)

lemma find_pi_map:
  "(\<And>p. pi_id (f p) = pi_id p) \<Longrightarrow> find (\<lambda>p. pi_id p = x) (map f ps) = map_option f (find (\<lambda>p. pi_id p = x) ps)"
  by (induction ps) auto

lemma counts_update:
  assumes "counts_ok c" "\<And>p. pi_id (f p) = pi_id p \<and> pi_model_count (f p) = pi_model_count p"
  shows "counts_ok (c\<lparr>cat_providers := update_first (\<lambda>p. pi_id p = y) f (cat_providers c)\<rparr>)"
  using assms by (auto simp: counts_ok_def get_provider_def find_pi_update split: if_splits)

lemma counts_detect: "counts_ok c \<Longrightarrow> counts_ok (detect_auth env c)"
  by (auto simp: counts_ok_def get_provider_def detect_auth_def find_pi_map)

lemma find_append: "find P (xs @ ys) = or_else (find P xs) (find P ys)"
  by (induction xs) auto

definition known_provider :: "model_catalog \<Rightarrow> string \<Rightarrow> bool" where
  "known_provider c x = (get_provider c x \<noteq> None)"

definition url_ok :: "model_catalog \<Rightarrow> string \<Rightarrow> bool" where
  "url_ok c x = (known_provider c x \<or> models_of (cat_models c) x = 0)"

lemma known_list_ex: "list_ex (\<lambda>p. pi_id p = x) (cat_providers c) \<longleftrightarrow> known_provider c x"
  by (auto simp: known_provider_def get_provider_def find_None_iff list_ex_iff)

lemma get_set_url:
  "get_provider (fst (set_provider_url env c x url)) y =
    (if known_provider c x then map_option (\<lambda>p. if y = x then p\<lparr>pi_base_url := url\<rparr> else p) (get_provider c y)
     else map_option (\<lambda>p. p\<lparr>pi_auth_status := auth_status_of env p\<rparr>)
       (or_else (get_provider c y) (if x = y then Some (custom_provider x url) else None)))"
  by (cases "get_provider c x")
    (simp_all add: set_provider_url_def known_list_ex get_provider_def find_pi_update find_pi_map detect_auth_def
      find_append custom_provider_def option.map_ident known_provider_def map_or_else)

lemma models_set_url [simp]: "cat_models (fst (set_provider_url env c x url)) = cat_models c"
  by (simp add: set_provider_url_def detect_auth_def)

lemma counts_set_url:
  assumes "counts_ok c" "url_ok c x"
  shows "counts_ok (fst (set_provider_url env c x url))"
  unfolding counts_ok_def get_set_url models_set_url
  using assms
  by (auto simp: counts_ok_def url_ok_def known_provider_def custom_provider_def split: if_splits)

lemma known_set_url: "known_provider (fst (set_provider_url env c x url)) y \<longleftrightarrow> known_provider c y \<or> x = y"
  by (auto simp: known_provider_def get_set_url)

lemma apply_override_eq:
  "apply_override env (x, url) c = (let c1 = fst (set_provider_url env c x url)
     in c1\<lparr>cat_providers := update_first (\<lambda>p. pi_id p = x) mark_configured (cat_providers c1)\<rparr>)"
  by (simp add: apply_override_def set_provider_url_def Let_def)

lemma mark_configured_simps [simp]:
  "pi_id (mark_configured p) = pi_id p" "pi_model_count (mark_configured p) = pi_model_count p"
  by (simp_all add: mark_configured_def)

lemma counts_override:
  assumes "counts_ok c" "url_ok c x"
  shows "counts_ok (apply_override env (x, url) c)"
  unfolding apply_override_eq Let_def by (rule counts_update [OF counts_set_url [OF assms]]) simp

lemma url_ok_override: "url_ok c y \<Longrightarrow> url_ok (apply_override env (x, url) c) y"
  using known_set_url [of env c x url y]
  by (auto simp: url_ok_def apply_override_eq Let_def known_provider_def get_provider_def find_pi_update)

lemma counts_overrides:
  "counts_ok c \<Longrightarrow> list_all (\<lambda>(x, url). url_ok c x) ovs \<Longrightarrow> counts_ok (apply_url_overrides env c ovs)"
proof (induction ovs arbitrary: c)
  case (Cons ov ovs)
  obtain x url where ov: "ov = (x, url)" by (meson surj_pair)
  have "list_all (\<lambda>(y, u). url_ok (apply_override env (x, url) c) y) ovs"
    using Cons.prems(2) url_ok_override by (auto simp: list_all_iff)
  then show ?case
    using Cons.IH [OF counts_override [OF Cons.prems(1)]] Cons.prems(2) by (simp add: ov apply_url_overrides_def)
qed (simp add: apply_url_overrides_def)

lemma get_recount:
  "get_provider (recount y c) x =
    (if x = y then map_option (\<lambda>p. p\<lparr>pi_model_count := models_of (cat_models c) y\<rparr>) (get_provider c x) else get_provider c x)"
  by (simp add: recount_def get_provider_def find_pi_update)

lemma models_recount [simp]: "cat_models (recount y c) = cat_models c"
  by (simp add: recount_def)

lemma counts_recount:
  "(\<And>x p. get_provider c x = Some p \<Longrightarrow> x \<notin> set ys \<Longrightarrow> pi_model_count p = models_of (cat_models c) x) \<Longrightarrow>
    counts_ok (fold recount ys c)"
proof (induction ys arbitrary: c)
  case (Cons y ys)
  have "counts_ok (fold recount ys (recount y c))"
    by (rule Cons.IH) (use Cons.prems in \<open>auto simp: get_recount split: if_splits\<close>)
  then show ?case by simp
qed (simp add: counts_ok_def)

lemma models_of_append: "models_of (ms @ ns) x = models_of ms x + models_of ns x"
  by (simp add: models_of_def)

lemma models_of_none: "x \<notin> ce_provider ` set ms \<Longrightarrow> models_of ms x = 0"
  by (auto simp: models_of_def filter_empty_conv)

lemma counts_extend:
  assumes "counts_ok c" "\<forall>m\<in>set ms. ce_provider m = x"
  shows "counts_ok (recount x (c\<lparr>cat_models := cat_models c @ ms\<rparr>))"
proof -
  have "pi_model_count p = models_of (cat_models c @ ms) y"
    if "get_provider c y = Some p" "y \<noteq> x" for y p
    using assms that by (auto simp: counts_ok_def models_of_append intro: models_of_none)
  then show ?thesis
    using counts_recount [of "c\<lparr>cat_models := cat_models c @ ms\<rparr>" "[x]"] by (simp add: get_provider_def)
qed

lemma counts_merge: "counts_ok c \<Longrightarrow> counts_ok (merge_discovered_models c x ids)"
  by (auto simp: merge_discovered_models_def Let_def discovered_entry_def intro!: counts_extend)

lemma counts_add: "counts_ok c \<Longrightarrow> counts_ok (fst (add_custom_model c e))"
  by (auto simp: add_custom_model_def intro!: counts_extend)

lemma models_of_kept:
  "x \<notin> ce_provider ` set (filter P ms) \<Longrightarrow> models_of (filter (\<lambda>m. \<not> P m) ms) x = models_of ms x"
  by (induction ms) (auto simp: models_of_def)

lemma counts_remove: "counts_ok c \<Longrightarrow> counts_ok (fst (remove_custom_model c i))"
  unfolding remove_custom_model_def Let_def fst_conv
  by (rule counts_recount) (auto simp: counts_ok_def get_provider_def models_of_kept)

lemma counts_load: "counts_ok c \<Longrightarrow> counts_ok (fold (\<lambda>e c. fst (add_custom_model c e)) es c)"
  by (induction es arbitrary: c) (simp_all add: counts_add)

section \<open>Histories\<close>

datatype catalog_op =
    DetectAuth auth_env
  | SetProviderUrl auth_env string string
  | LocalOverrides auth_env
  | UrlOverrides auth_env "(string \<times> string) list"
  | MergeDiscovered string "string list"
  | AddCustom catalog_entry
  | RemoveCustom string
  | LoadCustom "catalog_entry list option"

fun catalog_step :: "model_catalog \<Rightarrow> catalog_op \<Rightarrow> model_catalog" where
  "catalog_step c (DetectAuth env) = detect_auth env c"
| "catalog_step c (SetProviderUrl env p url) = fst (set_provider_url env c p url)"
| "catalog_step c (LocalOverrides env) = apply_local_env_overrides env c"
| "catalog_step c (UrlOverrides env ovs) = apply_url_overrides env c ovs"
| "catalog_step c (MergeDiscovered p ids) = merge_discovered_models c p ids"
| "catalog_step c (AddCustom e) = fst (add_custom_model c e)"
| "catalog_step c (RemoveCustom i) = fst (remove_custom_model c i)"
| "catalog_step c (LoadCustom es) = load_custom_models c es"

text \<open>An URL is set for a provider that is known, or has no models yet.\<close>

fun urls_ok :: "model_catalog \<Rightarrow> catalog_op \<Rightarrow> bool" where
  "urls_ok c (SetProviderUrl env p url) = url_ok c p"
| "urls_ok c (UrlOverrides env ovs) = list_all (\<lambda>(p, url). url_ok c p) ovs"
| "urls_ok c _ = True"

lemma counts_local_override: "counts_ok c \<Longrightarrow> counts_ok (local_override env x c)"
  by (auto simp: local_override_def split: option.split intro!: counts_update)

lemma counts_local: "counts_ok c \<Longrightarrow> counts_ok (apply_local_env_overrides env c)"
  by (simp add: apply_local_env_overrides_def counts_local_override)

interpretation catalog: machine catalog_step urls_ok counts_ok
proof
  fix c op
  assume "counts_ok c" "urls_ok c op"
  then show "counts_ok (catalog_step c op)"
    by (cases op) (auto simp: counts_detect counts_set_url counts_local counts_overrides counts_merge
        counts_add counts_remove counts_load load_custom_models_def split: option.split)
qed

lemma counts_new: "counts_ok (new_catalog ms as ps)"
  by (auto simp: counts_ok_def new_catalog_def get_provider_def find_pi_map find_Some_iff)

definition entry_key :: "catalog_entry \<Rightarrow> string \<times> string" where
  "entry_key m = (to_lowercase (ce_id m), to_lowercase (ce_provider m))"

lemma add_custom_key:
  "cat_models (fst (add_custom_model c e)) =
    (if entry_key e \<in> entry_key ` set (cat_models c) then cat_models c else cat_models c @ [e\<lparr>ce_tier := Custom\<rparr>])"
  by (auto simp: add_custom_model_def entry_key_def list_ex_iff recount_def image_iff) metis

lemma load_distinct:
  assumes "distinct (map entry_key es)" "entry_key ` set es \<inter> entry_key ` set (cat_models c) = {}"
    "\<forall>e\<in>set es. ce_tier e = Custom"
  shows "cat_models (fold (\<lambda>e c. fst (add_custom_model c e)) es c) = cat_models c @ es"
  using assms
proof (induction es arbitrary: c)
  case (Cons e es)
  have e: "cat_models (fst (add_custom_model c e)) = cat_models c @ [e]"
    using Cons.prems by (simp add: add_custom_key)
  show ?case using Cons.IH [of "fst (add_custom_model c e)"] Cons.prems by (auto simp: e)
qed simp

datatype custom_op = Add catalog_entry | Drop string

fun custom_step :: "model_catalog \<Rightarrow> custom_op \<Rightarrow> model_catalog" where
  "custom_step c (Add e) = fst (add_custom_model c e)"
| "custom_step c (Drop i) = fst (remove_custom_model c i)"

definition custom_inv :: "catalog_entry list \<Rightarrow> model_catalog \<Rightarrow> bool" where
  "custom_inv base c \<longleftrightarrow> (\<exists>es. cat_models c = base @ es \<and> distinct (map entry_key es)
     \<and> entry_key ` set es \<inter> entry_key ` set base = {} \<and> (\<forall>e\<in>set es. ce_tier e = Custom))"

lemma models_remove: "cat_models (fst (remove_custom_model c i)) = filter (\<lambda>m. \<not> is_custom_named i m) (cat_models c)"
proof -
  have "cat_models (fold recount ys c) = cat_models c" for ys c by (induction ys arbitrary: c) simp_all
  then show ?thesis by (simp add: remove_custom_model_def Let_def)
qed

lemma custom_step_inv:
  assumes "\<forall>m\<in>set base. ce_tier m \<noteq> Custom" "custom_inv base c"
  shows "custom_inv base (custom_step c op)"
proof -
  from assms(2) obtain es where es: "cat_models c = base @ es" "distinct (map entry_key es)"
    "entry_key ` set es \<inter> entry_key ` set base = {}" "\<forall>e\<in>set es. ce_tier e = Custom"
    unfolding custom_inv_def by blast
  show ?thesis
  proof (cases op)
    case (Add e)
    show ?thesis
    proof (cases "entry_key e \<in> entry_key ` set (cat_models c)")
      case False
      have key: "entry_key (e\<lparr>ce_tier := Custom\<rparr>) = entry_key e" by (simp add: entry_key_def)
      show ?thesis
        unfolding custom_inv_def
        by (rule exI [of _ "es @ [e\<lparr>ce_tier := Custom\<rparr>]"]) (use es False Add key in \<open>auto simp: add_custom_key\<close>)
    qed (use assms(2) Add in \<open>simp add: custom_inv_def add_custom_key\<close>)
  next
    case (Drop i)
    have "filter (\<lambda>m. \<not> is_custom_named i m) base = base"
      using assms(1) by (auto simp: filter_id_conv is_custom_named_def)
    then show ?thesis
      unfolding custom_inv_def
      by (intro exI [of _ "filter (\<lambda>m. \<not> is_custom_named i m) es"])
        (use es Drop in \<open>auto simp: models_remove distinct_map_filter\<close>)
  qed
qed

lemma custom_run_inv:
  "\<forall>m\<in>set base. ce_tier m \<noteq> Custom \<Longrightarrow> custom_inv base c \<Longrightarrow> custom_inv base (run custom_step c ops)"
  by (induction ops arbitrary: c) (simp_all add: custom_step_inv)

section \<open>Properties\<close>

text \<open>
  Which model a name finds. \<open>find_model\<close>, one scan with three accumulators and two fallbacks,
  returns what the documented order of preference does: a user-defined model with that id, then
  one that differs in case, then any model with that id, then one that differs in case, then a
  display name, then an alias; the first of the catalog in each.
\<close>

theorem find_model_is_preferred: "find_model c q = preferred c q"
  by (rule find_model_preferred)

text \<open>
  Model counts. From the built-in tables, whatever is discovered, added, removed, loaded or
  overridden, the count of a provider is the number of its models, provided that an address is
  only set for a provider that is known or has no models.
\<close>

theorem model_counts_agree:
  assumes "run_ok urls_ok catalog_step (new_catalog ms as ps) ops"
    and "get_provider (run catalog_step (new_catalog ms as ps) ops) x = Some p"
  shows "pi_model_count p = length (models_by_provider (run catalog_step (new_catalog ms as ps) ops) x)"
  using catalog.run_inv [OF counts_new assms(1)] assms(2)
  by (simp add: counts_ok_def models_of_def models_by_provider_def)

definition sample_model :: "string \<Rightarrow> string \<Rightarrow> catalog_entry" where
  "sample_model i provider = default_catalog_entry\<lparr>ce_id := i, ce_provider := provider\<rparr>"

definition empty_env :: auth_env where
  "empty_env = \<lparr>env_var = (\<lambda>_. None), claude_code_available = False, qwen_code_available = False,
     copilot_auth_available = False, codex_credential = False\<rparr>"

definition keyed_provider :: "string \<Rightarrow> provider_info" where
  "keyed_provider x = default_provider_info\<lparr>pi_id := x, pi_api_key_env := x @ ''_KEY''\<rparr>"

theorem model_counts_agree_witness:
  "length (models_by_provider (run catalog_step (new_catalog [sample_model ''m1'' ''acme''] [] [keyed_provider ''acme''])
     [AddCustom (sample_model ''m2'' ''acme''), MergeDiscovered ''acme'' [''m1'', ''m3'']]) ''acme'') = 3"
proof -
  let ?c = "run catalog_step (new_catalog [sample_model ''m1'' ''acme''] [] [keyed_provider ''acme''])
     [AddCustom (sample_model ''m2'' ''acme''), MergeDiscovered ''acme'' [''m1'', ''m3'']]"
  have "map_option pi_model_count (get_provider ?c ''acme'') = Some 3"
    by (simp add: new_catalog_def sample_model_def default_catalog_entry_def keyed_provider_def
        default_provider_info_def models_of_def add_custom_model_def recount_def merge_discovered_models_def
        get_provider_def discovered_entry_def str_defs Let_def)
  then obtain p where "get_provider ?c ''acme'' = Some p" "pi_model_count p = 3" by auto
  with model_counts_agree [of "[sample_model ''m1'' ''acme'']" "[]" "[keyed_provider ''acme'']"
      "[AddCustom (sample_model ''m2'' ''acme''), MergeDiscovered ''acme'' [''m1'', ''m3'']]" "''acme''" p]
  show ?thesis by simp
qed

text \<open>
  Custom models survive a restart. Over built-in models, whatever custom models are added
  and removed, loading the saved file into the built-in catalog gives the same models.
\<close>

theorem custom_models_survive_restart:
  assumes "\<forall>m\<in>set (cat_models base). ce_tier m \<noteq> Custom"
  shows "cat_models (load_custom_models base (Some (save_custom_models (run custom_step base ops))))
    = cat_models (run custom_step base ops)"
proof -
  have "custom_inv (cat_models base) base" by (simp add: custom_inv_def)
  from custom_run_inv [OF assms this, of ops] obtain es where
    es: "cat_models (run custom_step base ops) = cat_models base @ es" "distinct (map entry_key es)"
      "entry_key ` set es \<inter> entry_key ` set (cat_models base) = {}" "\<forall>e\<in>set es. ce_tier e = Custom"
    unfolding custom_inv_def by blast
  have "save_custom_models (run custom_step base ops) = es"
    using assms es by (auto simp: save_custom_models_def filter_id_conv filter_empty_conv)
  then show ?thesis using es load_distinct [of es base] by (simp add: load_custom_models_def)
qed

theorem custom_models_survive_restart_witness:
  "cat_models (load_custom_models (new_catalog [sample_model ''m1'' ''acme''] [] [])
     (Some (save_custom_models (run custom_step (new_catalog [sample_model ''m1'' ''acme''] [] []) [Add (sample_model ''x'' ''acme'')]))))
   = [sample_model ''m1'' ''acme'', (sample_model ''x'' ''acme'')\<lparr>ce_tier := Custom\<rparr>]"
  by (subst custom_models_survive_restart)
    (simp_all add: new_catalog_def sample_model_def default_catalog_entry_def add_custom_key entry_key_def str_defs)

text \<open>
  The order of address overrides matters. Setting the address of a provider that is not in
  the catalog detects the authentication of all providers again, which takes back the mark an
  earlier override of the same batch left: of two providers without a key, the known one ends as
  configured or as missing depending on the order in which the hash map is iterated.
\<close>

theorem override_order_matters:
  assumes "get_provider c known = Some p" "auth_status_of env p = Missing" "\<not> known_provider c new"
    and "pi_auth_status p = Missing"
  shows "map_option pi_auth_status (get_provider (apply_url_overrides env c [(known, u), (new, v)]) known) = Some Missing
    \<and> map_option pi_auth_status (get_provider (apply_url_overrides env c [(new, v), (known, u)]) known) = Some Configured"
proof -
  have ne: "known \<noteq> new" using assms by (auto simp: known_provider_def)
  have mark: "get_provider (apply_override env (x, url) d) y =
      (if y = x then map_option mark_configured (get_provider (fst (set_provider_url env d x url)) y)
       else get_provider (fst (set_provider_url env d x url)) y)" for x url d y
    by (simp add: apply_override_eq Let_def get_provider_def find_pi_update)
  have status: "auth_status_of env (p\<lparr>pi_base_url := u, pi_auth_status := s\<rparr>) = auth_status_of env p"
    "auth_status_of env (p\<lparr>pi_base_url := u\<rparr>) = auth_status_of env p" for s
    by (simp_all add: auth_status_of_def)
  have kn: "known_provider c known" using assms by (simp add: known_provider_def)
  have un: "\<not> known_provider (apply_override env (known, u) c) new"
    using assms(3) ne by (simp add: known_provider_def mark get_set_url kn)
  have kn2: "known_provider (apply_override env (new, v) c) known"
    using assms ne by (simp add: known_provider_def mark get_set_url)
  show ?thesis
    using assms ne kn un kn2
    by (simp add: apply_url_overrides_def mark get_set_url mark_configured_def status)
qed

theorem override_order_matters_witness:
  "map_option pi_auth_status (get_provider (apply_url_overrides empty_env
     (new_catalog [] [] [keyed_provider ''groq'']) [(''groq'', ''http://a''), (''acme'', ''http://b'')]) ''groq'') = Some Missing"
proof -
  let ?c = "new_catalog [] [] [keyed_provider ''groq'']"
  have "get_provider ?c ''groq'' = Some ((keyed_provider ''groq'')\<lparr>pi_model_count := 0\<rparr>)" "\<not> known_provider ?c ''acme''"
    by (simp_all add: new_catalog_def get_provider_def known_provider_def keyed_provider_def default_provider_info_def models_of_def)
  moreover have "auth_status_of empty_env ((keyed_provider ''groq'')\<lparr>pi_model_count := 0\<rparr>) = Missing"
    by (simp add: auth_status_of_def keyed_provider_def default_provider_info_def env_is_set_def empty_env_def configured_if_def)
  ultimately show ?thesis
    using override_order_matters [of ?c "''groq''" "(keyed_provider ''groq'')\<lparr>pi_model_count := 0\<rparr>" empty_env "''acme''" "''http://a''" "''http://b''"]
    by (simp add: keyed_provider_def default_provider_info_def)
qed

text \<open>
  An address set for a provider that so far only has custom models enters it with count zero.
\<close>

theorem new_provider_forgets_models:
  "map_option pi_model_count (get_provider (fst (set_provider_url env
     (fst (add_custom_model (new_catalog [] [] []) (sample_model ''m'' ''acme''))) ''acme'' url)) ''acme'') = Some 0"
  by (subst get_set_url) (simp add: known_provider_def new_catalog_def add_custom_model_def recount_def get_provider_def
      custom_provider_def)

end
