(* ===== verification/Kernel.thy ===== *)
theory Kernel
  imports Registry Background Cron ModelCatalog AuditLog Cooldown
begin

text \<open>
  How the kernel composes its components: \<open>openfang-kernel/src/kernel.rs\<close>, the life of an agent
  (spawn, checked spawn, activate, kill), its model, its tools, its triggers and the events. The
  record \<open>kernel\<close> has the components as fields; \<open>k_saved\<close> stands for the agents in the memory
  store. A \<open>spawn_env\<close> holds what one call draws from outside: the clock, fresh ids, the session
  id (or the failure of the store), whether the directories could be made and the agent saved.
  MCP tool names are those of \<open>openfang-runtime/src/mcp.rs\<close>; \<open>resolve_api_key_env\<close> is from
  \<open>openfang-types/src/config.rs\<close>. Identity files, logging and the TOML parser are left out.
\<close>

section \<open>The kernel\<close>

record default_model_config =
  dm_provider :: string
  dm_model :: string
  dm_api_key_env :: string
  dm_base_url :: "string option"

record kernel_config =
  cfg_exec_policy :: exec_policy
  cfg_default_model :: default_model_config
  cfg_budget :: budget_config
  cfg_browser_enabled :: bool
  cfg_provider_api_keys :: "(string, string) dashmap"
  cfg_auth_profiles :: "(string, auth_profile list) dashmap"
  cfg_home_dir :: string
  cfg_workspaces_dir :: "string option"

record kernel =
  k_config :: kernel_config
  k_override :: "default_model_config option"
  k_catalog :: model_catalog
  k_registry :: agent_registry
  k_caps :: capability_manager
  k_scheduler :: scheduler
  k_triggers :: trigger_engine
  k_cron :: cron_scheduler
  k_background :: background_executor
  k_bus :: event_bus
  k_audit :: audit_log
  k_saved :: "(uuid, agent_entry) dashmap"

datatype kernel_error =
    RegistryError registry_error
  | SessionError
  | DirectoryError
  | SaveError
  | TerminatedAgent string
  | EscalationError cap_error

record spawn_env =
  env_now :: instant
  env_timestamp :: string
  env_session :: "uuid option"
  env_dirs_ok :: bool
  env_save_ok :: bool
  env_audit_db_ok :: bool
  env_trigger_ids :: "uuid list"
  env_event_id :: uuid

section \<open>Resolving a manifest\<close>

definition resolve_api_key_env :: "kernel_config \<Rightarrow> string \<Rightarrow> string" where
  "resolve_api_key_env cfg provider =
     (case dm_get (cfg_provider_api_keys cfg) provider of
        Some mapped \<Rightarrow> mapped
      | None \<Rightarrow>
          (case map_option (sort_key Cooldown.priority) (dm_get (cfg_auth_profiles cfg) provider) of
             Some (best # _) \<Rightarrow> api_key_env best
           | _ \<Rightarrow> str_replace (to_uppercase provider) ''-'' ''_'' @ ''_API_KEY''))"

definition is_default_name :: "string \<Rightarrow> bool" where
  "is_default_name s = (s = [] \<or> s = ''default'')"

definition overlay_default_model :: "default_model_config \<Rightarrow> model_config \<Rightarrow> model_config" where
  "overlay_default_model dm c =
     (if is_default_name (model_provider c) \<and> is_default_name (model_name c) then
        c\<lparr>model_provider := (if dm_provider dm \<noteq> [] then dm_provider dm else model_provider c),
          model_name := (if dm_model dm \<noteq> [] then dm_model dm else model_name c),
          model_api_key_env := (if dm_api_key_env dm \<noteq> [] \<and> model_api_key_env c = None
            then Some (dm_api_key_env dm) else model_api_key_env c),
          model_base_url := (if dm_base_url dm \<noteq> None \<and> model_base_url c = None
            then dm_base_url dm else model_base_url c)\<rparr>
      else c)"

definition normalize_from_catalog :: "kernel_config \<Rightarrow> model_catalog \<Rightarrow> model_config \<Rightarrow> model_config" where
  "normalize_from_catalog cfg cat c =
     (case find_model cat (model_name c) of
        None \<Rightarrow> c
      | Some entry \<Rightarrow>
          if is_default_name (model_provider c) \<or> model_provider c = ce_provider entry then
            c\<lparr>model_provider := ce_provider entry,
              model_name := strip_provider_prefix (ce_id entry) (ce_provider entry),
              model_api_key_env := (if model_api_key_env c = None
                then Some (resolve_api_key_env cfg (ce_provider entry)) else model_api_key_env c)\<rparr>
          else c)"

definition fill_api_key_env :: "kernel_config \<Rightarrow> model_config \<Rightarrow> model_config" where
  "fill_api_key_env cfg c =
     (if model_api_key_env c = None \<and> \<not> is_default_name (model_provider c)
      then c\<lparr>model_api_key_env := Some (resolve_api_key_env cfg (model_provider c))\<rparr> else c)"

definition strip_own_prefix :: "model_config \<Rightarrow> model_config" where
  "strip_own_prefix c = c\<lparr>model_name := strip_provider_prefix (model_name c) (model_provider c)\<rparr>"

definition resolve_model :: "kernel \<Rightarrow> model_config \<Rightarrow> model_config" where
  "resolve_model k c =
     (let dm = (case k_override k of Some d \<Rightarrow> d | None \<Rightarrow> cfg_default_model (k_config k))
      in strip_own_prefix (fill_api_key_env (k_config k)
           (normalize_from_catalog (k_config k) (k_catalog k) (overlay_default_model dm c))))"

text \<open>\<open>Path::join\<close>: an absolute second part replaces the first.\<close>

definition join_path :: "string \<Rightarrow> string \<Rightarrow> string" where
  "join_path base name =
     (if starts_with name ''/'' then name
      else if base = [] \<or> ends_with base ''/'' then base @ name else base @ ''/'' @ name)"

definition effective_workspaces_dir :: "kernel_config \<Rightarrow> string" where
  "effective_workspaces_dir cfg =
     (case cfg_workspaces_dir cfg of Some d \<Rightarrow> d | None \<Rightarrow> join_path (cfg_home_dir cfg) ''workspaces'')"

definition resolve_manifest :: "kernel \<Rightarrow> agent_manifest \<Rightarrow> agent_manifest" where
  "resolve_manifest k m =
     (let m1 = m\<lparr>man_exec_policy := (if man_exec_policy m = None then Some (cfg_exec_policy (k_config k)) else man_exec_policy m),
                 man_model := resolve_model k (man_model m),
                 man_resources := apply_budget_defaults (cfg_budget (k_config k)) (man_resources m)\<rparr>;
          state_dir = (case man_state_dir m of Some d \<Rightarrow> d
            | None \<Rightarrow> join_path (effective_workspaces_dir (k_config k)) (man_name m));
          workspace_dir = (case man_workspace m of Some d \<Rightarrow> d | None \<Rightarrow> state_dir)
      in m1\<lparr>man_state_dir := Some state_dir, man_workspace := Some workspace_dir\<rparr>)"

section \<open>Spawning\<close>

definition new_agent_entry :: "spawn_env \<Rightarrow> uuid \<Rightarrow> uuid \<Rightarrow> uuid option \<Rightarrow> agent_manifest \<Rightarrow> agent_entry" where
  "new_agent_entry env i session parent m =
     \<lparr>entry_id = i, entry_name = man_name m, manifest = m, agent_state = Agents.Running, agent_mode = Full,
      created_at = env_now env, last_active = env_now env, agent_parent = parent, agent_children = [],
      session_id = session, agent_tags = man_tags m, agent_identity = default_identity,
      onboarding_completed = False, onboarding_completed_at = None\<rparr>"

definition proactive_prompt :: "string \<Rightarrow> string \<Rightarrow> string" where
  "proactive_prompt condition name =
     ''[PROACTIVE ALERT] Condition '' @ in_quotes condition
     @ '' matched: {{event}}. Review and take appropriate action. Agent: '' @ name"

fun register_conditions ::
  "instant \<Rightarrow> uuid \<Rightarrow> string \<Rightarrow> (uuid \<times> string) list \<Rightarrow> trigger_engine \<Rightarrow> trigger_engine" where
  "register_conditions now agent name [] g = g"
| "register_conditions now agent name ((i, condition) # cs) g =
     register_conditions now agent name cs
       (case parse_condition condition of
          Some p \<Rightarrow> register_trigger i now g agent p (proactive_prompt condition name) 0
        | None \<Rightarrow> g)"

definition proactive_triggers :: "spawn_env \<Rightarrow> uuid \<Rightarrow> agent_manifest \<Rightarrow> trigger_engine \<Rightarrow> trigger_engine" where
  "proactive_triggers env i m g =
     (case man_schedule m of
        Proactive conditions \<Rightarrow> register_conditions (env_now env) i (man_name m) (zip (env_trigger_ids env) conditions) g
      | _ \<Rightarrow> g)"

text \<open>The debug form of the parent in the audit trail.\<close>

definition show_parent :: "formats \<Rightarrow> uuid option \<Rightarrow> string" where
  "show_parent fm p = (case p of None \<Rightarrow> ''None'' | Some i \<Rightarrow> ''Some(AgentId('' @ show_uuid fm i @ ''))'')"

definition audit_kernel ::
  "formats \<Rightarrow> (string \<Rightarrow> string) \<Rightarrow> spawn_env \<Rightarrow> uuid \<Rightarrow> audit_action \<Rightarrow> string \<Rightarrow> audit_log \<Rightarrow> audit_log" where
  "audit_kernel fm sha env i act det l =
     fst (record_event sha (env_timestamp env) (env_audit_db_ok env) l (show_uuid fm i) act det ''ok'')"

text \<open>
  The part of a spawn after the registration: the parent's list of children, the store, the
  audit trail, the triggers of a proactive agent and the lifecycle event. The messages of the
  triggers that match the event are dropped.
\<close>

definition finish_spawn ::
  "formats \<Rightarrow> (string \<Rightarrow> string) \<Rightarrow> spawn_env \<Rightarrow> kernel \<Rightarrow> agent_entry \<Rightarrow> (kernel_error + uuid) \<times> kernel" where
  "finish_spawn fm sha env k e =
     (let i = entry_id e; m = manifest e;
          k1 = (case agent_parent e of
                  Some p \<Rightarrow> k\<lparr>k_registry := add_child (k_registry k) p i\<rparr>
                | None \<Rightarrow> k)
      in if \<not> env_save_ok env then (Inl SaveError, k1)
         else
           let ev = new_event (env_event_id env) (env_now env) i Broadcast (LifecycleEvent (Spawned i (entry_name e)));
               (g, triggered) = evaluate fm (proactive_triggers env i m (k_triggers k1)) ev
           in (Inr i, k1\<lparr>k_saved := dm_insert i e (k_saved k1),
                 k_audit := audit_kernel fm sha env i audit_action.AgentSpawn
                   (''name='' @ entry_name e @ '', parent='' @ show_parent fm (agent_parent e)) (k_audit k1),
                 k_triggers := g\<rparr>))"

text \<open>The grants and the quota are registered before the name is checked.\<close>

definition grant_resources :: "spawn_env \<Rightarrow> kernel \<Rightarrow> agent_manifest \<Rightarrow> uuid \<Rightarrow> kernel" where
  "grant_resources env k m i =
     k\<lparr>k_caps := grant (k_caps k) i (manifest_to_capabilities m),
       k_scheduler := Scheduler.register (k_scheduler k) (env_now env) i (man_resources m)\<rparr>"

definition spawn_agent_with_parent ::
  "formats \<Rightarrow> (string \<Rightarrow> string) \<Rightarrow> spawn_env \<Rightarrow> kernel \<Rightarrow> agent_manifest \<Rightarrow> uuid option \<Rightarrow> uuid \<Rightarrow>
    (kernel_error + uuid) \<times> kernel" where
  "spawn_agent_with_parent fm sha env k m0 parent i =
     (case env_session env of
        None \<Rightarrow> (Inl SessionError, k)
      | Some session \<Rightarrow>
          let m = resolve_manifest k m0
          in if \<not> env_dirs_ok env then (Inl DirectoryError, k)
             else
               let k1 = grant_resources env k m i;
                   e = new_agent_entry env i session parent m
               in case register_agent (k_registry k1) e of
                    (Inl err, _) \<Rightarrow> (Inl (RegistryError err), k1)
                  | (Inr _, r) \<Rightarrow> finish_spawn fm sha env (k1\<lparr>k_registry := r\<rparr>) e)"

definition spawn_agent_checked ::
  "formats \<Rightarrow> (string \<Rightarrow> string) \<Rightarrow> spawn_env \<Rightarrow> kernel \<Rightarrow> agent_manifest \<Rightarrow> uuid option \<Rightarrow> capability list \<Rightarrow> uuid \<Rightarrow>
    (kernel_error + uuid) \<times> kernel" where
  "spawn_agent_checked fm sha env k m parent parent_caps i =
     (case validate_capability_inheritance parent_caps (manifest_to_capabilities m) of
        Inl err \<Rightarrow> (Inl (EscalationError err), k)
      | Inr _ \<Rightarrow> spawn_agent_with_parent fm sha env k m parent i)"

text \<open>
  The two ways an agent spawns another: the tool \<open>agent_spawn\<close>
  (\<open>openfang-runtime/src/tool_runner.rs\<close>) and the WebAssembly host function
  (\<open>openfang-runtime/src/host_functions.rs\<close>). Only the second passes the caller's capabilities.
\<close>

definition tool_agent_spawn ::
  "formats \<Rightarrow> (string \<Rightarrow> string) \<Rightarrow> spawn_env \<Rightarrow> kernel \<Rightarrow> agent_manifest \<Rightarrow> uuid \<Rightarrow> uuid \<Rightarrow> (kernel_error + uuid) \<times> kernel" where
  "tool_agent_spawn fm sha env k m caller i = spawn_agent_with_parent fm sha env k m (Some caller) i"

definition host_agent_spawn ::
  "formats \<Rightarrow> (string \<Rightarrow> string) \<Rightarrow> spawn_env \<Rightarrow> kernel \<Rightarrow> agent_manifest \<Rightarrow> uuid \<Rightarrow> capability list \<Rightarrow> uuid \<Rightarrow>
    (kernel_error + uuid) \<times> kernel" where
  "host_agent_spawn fm sha env k m caller caller_caps i =
     (if \<not> list_ex (\<lambda>g. capability_matches g capability.AgentSpawn) caller_caps
      then (Inl (EscalationError (DoesNotHaveCapability caller capability.AgentSpawn)), k)
      else spawn_agent_checked fm sha env k m (Some caller) caller_caps i)"

section \<open>Activating and killing\<close>

definition activate_agent :: "instant \<Rightarrow> kernel \<Rightarrow> uuid \<Rightarrow> (kernel_error + string) \<times> kernel" where
  "activate_agent now k i =
     (case get_agent (k_registry k) i of
        None \<Rightarrow> (Inl (RegistryError (AgentNotFound i)), k)
      | Some e \<Rightarrow>
          if agent_state e = Agents.Terminated then (Inl (TerminatedAgent (entry_name e)), k)
          else (Inr (entry_name e),
                k\<lparr>k_registry := snd (update_entry (set_state Agents.Running) now (k_registry k) i)\<rparr>))"

definition kill_agent ::
  "formats \<Rightarrow> (string \<Rightarrow> string) \<Rightarrow> spawn_env \<Rightarrow> kernel \<Rightarrow> uuid \<Rightarrow> (kernel_error + unit) \<times> kernel" where
  "kill_agent fm sha env k i =
     (case remove_agent (k_registry k) i of
        (Inl err, _) \<Rightarrow> (Inl (RegistryError err), k)
      | (Inr e, r) \<Rightarrow>
          (Inr (), k\<lparr>k_registry := r,
             k_background := stop_agent (k_background k) i,
             k_scheduler := unregister (k_scheduler k) i,
             k_caps := revoke_all (k_caps k) i,
             k_bus := unsubscribe_agent (k_bus k) i,
             k_triggers := remove_agent_triggers (k_triggers k) i,
             k_cron := fst (remove_agent_jobs (k_cron k) i),
             k_saved := dm_remove i (k_saved k),
             k_audit := audit_kernel fm sha env i audit_action.AgentKill (''name='' @ entry_name e) (k_audit k)\<rparr>))"

section \<open>The model of an agent\<close>

definition chosen_provider :: "kernel \<Rightarrow> uuid \<Rightarrow> string \<Rightarrow> string option \<Rightarrow> catalog_entry option \<Rightarrow> string option" where
  "chosen_provider k i model explicit_provider entry =
     (case explicit_provider of
        Some ep \<Rightarrow> Some ep
      | None \<Rightarrow>
          let has_custom_url = (case get_agent (k_registry k) i of
                Some e \<Rightarrow> model_base_url (man_model (manifest e)) \<noteq> None | None \<Rightarrow> False)
          in if has_custom_url then None
             else or_else (map_option ce_provider entry) (infer_provider_from_model model))"

definition normalized_model :: "string \<Rightarrow> catalog_entry option \<Rightarrow> string option \<Rightarrow> string" where
  "normalized_model model entry provider =
     (case provider of
        None \<Rightarrow> model
      | Some prov \<Rightarrow>
          (case entry of
             Some e \<Rightarrow> if ce_provider e = prov then strip_provider_prefix (ce_id e) prov else strip_provider_prefix model prov
           | None \<Rightarrow> strip_provider_prefix model prov))"

definition model_update :: "kernel_config \<Rightarrow> string \<Rightarrow> string option \<Rightarrow> agent_entry \<Rightarrow> agent_entry" where
  "model_update cfg new_model provider =
     (case provider of
        Some prov \<Rightarrow> update_model_provider_config new_model prov (Some (resolve_api_key_env cfg prov)) None
      | None \<Rightarrow> update_model new_model)"

definition set_agent_model ::
  "instant \<Rightarrow> kernel \<Rightarrow> uuid \<Rightarrow> string \<Rightarrow> string option \<Rightarrow> (kernel_error + unit) \<times> kernel" where
  "set_agent_model now k i model explicit_provider =
     (let entry = (case explicit_provider of
            Some ep \<Rightarrow> find_model_for_provider (k_catalog k) model ep
          | None \<Rightarrow> find_model (k_catalog k) model);
          provider = chosen_provider k i model explicit_provider entry;
          new_model = normalized_model model entry provider
      in case update_entry (model_update (k_config k) new_model provider) now (k_registry k) i of
           (Inl err, _) \<Rightarrow> (Inl (RegistryError err), k)
         | (Inr _, r) \<Rightarrow>
             (Inr (), k\<lparr>k_registry := r,
                k_saved := (case get_agent r i of Some e \<Rightarrow> dm_insert i e (k_saved k) | None \<Rightarrow> k_saved k)\<rparr>))"

section \<open>The tools of an agent\<close>

definition normalize_name :: "string \<Rightarrow> string" where
  "normalize_name name = str_replace (to_lowercase name) ''-'' ''_''"

definition format_mcp_tool_name :: "string \<Rightarrow> string \<Rightarrow> string" where
  "format_mcp_tool_name server tool = ''mcp_'' @ normalize_name server @ ''_'' @ normalize_name tool"

definition extract_mcp_server :: "string \<Rightarrow> string option" where
  "extract_mcp_server tool =
     (if \<not> starts_with tool ''mcp_'' then None
      else map_option (\<lambda>pos. take pos (drop 4 tool)) (str_find (drop 4 tool) ''_''))"

text \<open>What the tool list is built from besides the kernel's own state.\<close>

record tool_sources =
  builtin_tools :: "tool_definition list"
  all_skill_tools :: "tool_definition list"
  tools_for_skills :: "string list \<Rightarrow> tool_definition list"
  mcp_tools :: "tool_definition list"

definition builtins_for :: "kernel_config \<Rightarrow> tool_sources \<Rightarrow> tool_definition list" where
  "builtins_for cfg src =
     (if cfg_browser_enabled cfg then builtin_tools src
      else filter (\<lambda>t. \<not> starts_with (tool_name t) ''browser_'') (builtin_tools src))"

definition unrestricted :: "string list \<Rightarrow> bool" where
  "unrestricted declared = (declared = [] \<or> ''*'' \<in> set declared)"

definition profile_filter :: "tool_profile option \<Rightarrow> tool_definition list \<Rightarrow> tool_definition list" where
  "profile_filter profile tools =
     (case profile of
        Some p \<Rightarrow> if p \<noteq> FullProfile \<and> p \<noteq> CustomProfile
          then filter (\<lambda>t. ''*'' \<in> set (profile_tools p) \<or> tool_name t \<in> set (profile_tools p)) tools
          else tools
      | None \<Rightarrow> tools)"

definition mcp_candidates :: "string list \<Rightarrow> tool_definition list \<Rightarrow> tool_definition list" where
  "mcp_candidates allowlist tools =
     (if allowlist = [] then tools
      else filter (\<lambda>t. case extract_mcp_server (tool_name t) of
             Some s \<Rightarrow> s \<in> set (map normalize_name allowlist) | None \<Rightarrow> False) tools)"

definition name_in :: "string list \<Rightarrow> tool_definition \<Rightarrow> bool" where
  "name_in names t = list_ex (\<lambda>a. to_lowercase a = to_lowercase (tool_name t)) names"

definition exec_denied :: "agent_manifest option \<Rightarrow> bool" where
  "exec_denied m = (case m of
     Some m \<Rightarrow> (case man_exec_policy m of Some p \<Rightarrow> exec_mode p = ExecDeny | None \<Rightarrow> False)
   | None \<Rightarrow> False)"

definition available_tools :: "kernel \<Rightarrow> tool_sources \<Rightarrow> uuid \<Rightarrow> tool_definition list" where
  "available_tools k src i =
     (let all_builtins = builtins_for (k_config k) src;
          m = map_option manifest (get_agent (k_registry k) i);
          skill_allowlist = (case m of Some m \<Rightarrow> man_skills m | None \<Rightarrow> []);
          mcp_allowlist = (case m of Some m \<Rightarrow> man_mcp_servers m | None \<Rightarrow> []);
          declared = (case m of Some m \<Rightarrow> cap_tools (man_capabilities m) | None \<Rightarrow> []);
          keep = (\<lambda>t. unrestricted declared \<or> tool_name t \<in> set declared);
          builtins = (if \<not> unrestricted declared then filter (\<lambda>t. tool_name t \<in> set declared) all_builtins
                      else profile_filter (Option.bind m man_profile) all_builtins);
          skill_tools = (if skill_allowlist = [] then all_skill_tools src else tools_for_skills src skill_allowlist);
          all_tools = builtins @ filter keep skill_tools @ filter keep (mcp_candidates mcp_allowlist (mcp_tools src));
          allowlist = (case m of Some m \<Rightarrow> tool_allowlist m | None \<Rightarrow> []);
          blocklist = (case m of Some m \<Rightarrow> tool_blocklist m | None \<Rightarrow> []);
          allowed = (if allowlist \<noteq> [] then filter (name_in allowlist) all_tools else all_tools);
          unblocked = (if blocklist \<noteq> [] then filter (\<lambda>t. \<not> name_in blocklist t) allowed else allowed)
      in if exec_denied m then filter (\<lambda>t. tool_name t \<noteq> ''shell_exec'') unblocked else unblocked)"

section \<open>Events and triggers\<close>

text \<open>The messages returned are also sent to their agents.\<close>

definition publish_event :: "formats \<Rightarrow> kernel \<Rightarrow> event \<Rightarrow> (uuid \<times> string) list \<times> kernel" where
  "publish_event fm k e =
     (let (g, triggered) = evaluate fm (k_triggers k) e
      in (triggered, k\<lparr>k_triggers := g, k_bus := publish (k_bus k) e\<rparr>))"

definition kernel_register_trigger ::
  "uuid \<Rightarrow> instant \<Rightarrow> kernel \<Rightarrow> uuid \<Rightarrow> trigger_pattern \<Rightarrow> string \<Rightarrow> u64 \<Rightarrow> (kernel_error + uuid) \<times> kernel" where
  "kernel_register_trigger i now k agent p tmpl max_n =
     (if get_agent (k_registry k) agent = None then (Inl (RegistryError (AgentNotFound agent)), k)
      else (Inr i, k\<lparr>k_triggers := register_trigger i now (k_triggers k) agent p tmpl max_n\<rparr>))"

section \<open>Histories\<close>

datatype kernel_op =
    Spawn spawn_env agent_manifest "uuid option" uuid
  | SpawnChecked spawn_env agent_manifest "uuid option" "capability list" uuid
  | Activate instant uuid
  | Kill spawn_env uuid
  | SetModel instant uuid string "string option"
  | ChangeEntry instant uuid entry_update
  | PublishEvent event
  | AddTrigger uuid instant uuid trigger_pattern string u64
  | AddCronJob instant cron_job bool
  | StartBackground uuid string schedule_mode
  | SubscribeAgent uuid

fun kernel_step :: "formats \<Rightarrow> (string \<Rightarrow> string) \<Rightarrow> cron_lib \<Rightarrow> kernel \<Rightarrow> kernel_op \<Rightarrow> kernel" where
  "kernel_step fm sha lib k (Spawn env m p i) = snd (spawn_agent_with_parent fm sha env k m p i)"
| "kernel_step fm sha lib k (SpawnChecked env m p cs i) = snd (spawn_agent_checked fm sha env k m p cs i)"
| "kernel_step fm sha lib k (Activate now i) = snd (activate_agent now k i)"
| "kernel_step fm sha lib k (Kill env i) = snd (kill_agent fm sha env k i)"
| "kernel_step fm sha lib k (SetModel now i model p) = snd (set_agent_model now k i model p)"
| "kernel_step fm sha lib k (ChangeEntry now i u) =
     k\<lparr>k_registry := snd (update_entry (apply_update now u) now (k_registry k) i)\<rparr>"
| "kernel_step fm sha lib k (PublishEvent e) = snd (publish_event fm k e)"
| "kernel_step fm sha lib k (AddTrigger i now a p tmpl n) = snd (kernel_register_trigger i now k a p tmpl n)"
| "kernel_step fm sha lib k (AddCronJob now j once) = k\<lparr>k_cron := snd (add_job lib now (k_cron k) j once)\<rparr>"
| "kernel_step fm sha lib k (StartBackground i name mode) = k\<lparr>k_background := start_agent (k_background k) i name mode\<rparr>"
| "kernel_step fm sha lib k (SubscribeAgent i) = k\<lparr>k_bus := subscribe_agent (k_bus k) i\<rparr>"

text \<open>Ids are fresh UUIDs.\<close>

definition spawn_fresh :: "kernel \<Rightarrow> spawn_env \<Rightarrow> uuid \<Rightarrow> bool" where
  "spawn_fresh k env i \<longleftrightarrow> get_agent (k_registry k) i = None \<and> distinct (env_trigger_ids env)
     \<and> list_all (\<lambda>j. dm_get (triggers (k_triggers k)) j = None) (env_trigger_ids env)"

fun kernel_fresh :: "kernel \<Rightarrow> kernel_op \<Rightarrow> bool" where
  "kernel_fresh k (Spawn env m p i) = spawn_fresh k env i"
| "kernel_fresh k (SpawnChecked env m p cs i) = spawn_fresh k env i"
| "kernel_fresh k (AddTrigger i now a p tmpl n) = (dm_get (triggers (k_triggers k)) i = None)"
| "kernel_fresh k _ = True"

definition kernel_inv :: "kernel \<Rightarrow> bool" where
  "kernel_inv k \<longleftrightarrow> registry_inv (k_registry k) \<and> engine_inv (k_triggers k) \<and> cron_inv (k_cron k)"

definition boot :: "kernel_config \<Rightarrow> model_catalog \<Rightarrow> nat \<Rightarrow> kernel" where
  "boot cfg cat max_jobs = \<lparr>k_config = cfg, k_override = None, k_catalog = cat, k_registry = new_registry,
     k_caps = new_manager, k_scheduler = new_scheduler, k_triggers = new_trigger_engine,
     k_cron = new_cron max_jobs, k_background = new_executor, k_bus = new_bus, k_audit = new_log, k_saved = []\<rparr>"

section \<open>Lemmas\<close>

lemma resolve_keeps [simp]:
  "man_name (resolve_manifest k m) = man_name m"
  "man_capabilities (resolve_manifest k m) = man_capabilities m"
  "man_profile (resolve_manifest k m) = man_profile m"
  "man_tags (resolve_manifest k m) = man_tags m"
  "man_schedule (resolve_manifest k m) = man_schedule m"
  by (simp_all add: resolve_manifest_def Let_def)

lemma resolve_capabilities [simp]: "manifest_to_capabilities (resolve_manifest k m) = manifest_to_capabilities m"
  by (simp add: manifest_to_capabilities_def effective_capabilities_def)

lemma engine_inv_conditions:
  assumes "engine_inv g" "distinct (map fst cs)" "\<forall>i\<in>fst ` set cs. dm_get (triggers g) i = None"
  shows "engine_inv (register_conditions now a name cs g)"
  using assms
proof (induction cs arbitrary: g)
  case (Cons c cs)
  obtain i s where c: "c = (i, s)" by (meson surj_pair)
  show ?case
  proof (cases "parse_condition s")
    case (Some p)
    let ?g = "register_trigger i now g a p (proactive_prompt s name) 0"
    have "engine_inv ?g"
      using Cons.prems c by (auto simp: register_trigger_def within_limit_def intro!: inv_add)
    moreover have "\<forall>j\<in>fst ` set cs. dm_get (triggers ?g) j = None"
      using Cons.prems c by (auto simp: register_trigger_def add_trigger_def image_iff)
    ultimately show ?thesis using Cons.IH [of ?g] Cons.prems c Some by simp
  qed (use Cons c in simp)
qed simp

lemma distinct_zip_fst: "distinct xs \<Longrightarrow> distinct (map fst (zip xs ys))"
  by (simp add: map_fst_zip_take)

lemma engine_inv_proactive:
  assumes "engine_inv g" "distinct (env_trigger_ids env)"
    "list_all (\<lambda>j. dm_get (triggers g) j = None) (env_trigger_ids env)"
  shows "engine_inv (proactive_triggers env i m g)"
  using assms
  by (auto simp: proactive_triggers_def list_all_iff dest: set_zip_leftD
      intro!: engine_inv_conditions distinct_zip_fst split: schedule_mode.split)

lemma finish_spawn_inv:
  assumes "kernel_inv k" "distinct (env_trigger_ids env)"
    "list_all (\<lambda>j. dm_get (triggers (k_triggers k)) j = None) (env_trigger_ids env)"
  shows "kernel_inv (snd (finish_spawn fm sha env k e))"
proof -
  have child: "registry_inv (add_child r p c)" if "registry_inv r" for r p c
    using inv_modify [OF _ that] by (simp add: add_child_def keeps_keys_def)
  show ?thesis
    using assms child engine_inv_proactive [OF _ assms(2,3)] inv_evaluate
    by (auto simp: finish_spawn_def kernel_inv_def Let_def case_prod_beta split: option.split)
qed

lemma spawn_cases:
  obtains (failed) err where "spawn_agent_with_parent fm sha env k m p i = (Inl err, k)"
  | (taken) e where "name_taken (k_registry k) e" "entry_name e = man_name m"
      "spawn_agent_with_parent fm sha env k m p i
        = (Inl (RegistryError (AgentAlreadyExists (man_name m))), grant_resources env k (resolve_manifest k m) i)"
  | (registered) session e where "e = new_agent_entry env i session p (resolve_manifest k m)"
      "\<not> name_taken (k_registry k) e"
      "spawn_agent_with_parent fm sha env k m p i = finish_spawn fm sha env
        ((grant_resources env k (resolve_manifest k m) i)\<lparr>k_registry := insert_entry (k_registry k) e\<rparr>) e"
proof (cases "env_session env")
  case None
  then show ?thesis using failed by (simp add: spawn_agent_with_parent_def)
next
  case (Some session)
  let ?e = "new_agent_entry env i session p (resolve_manifest k m)"
  have reg: "k_registry (grant_resources env k (resolve_manifest k m) i) = k_registry k"
    by (simp add: grant_resources_def)
  have name: "entry_name ?e = man_name m" by (simp add: new_agent_entry_def)
  consider "\<not> env_dirs_ok env" | "env_dirs_ok env" "name_taken (k_registry k) ?e" | "env_dirs_ok env" "\<not> name_taken (k_registry k) ?e"
    by blast
  then show ?thesis
  proof cases
    case 1
    then show ?thesis using failed Some by (simp add: spawn_agent_with_parent_def Let_def)
  next
    case 2
    then show ?thesis
      using taken [of ?e] Some name by (simp add: spawn_agent_with_parent_def Let_def register_agent_def reg)
  next
    case 3
    then show ?thesis
      using registered [OF refl, of session] Some by (simp add: spawn_agent_with_parent_def Let_def register_agent_def reg)
  qed
qed

lemma spawn_inv:
  assumes "kernel_inv k" "spawn_fresh k env i"
  shows "kernel_inv (snd (spawn_agent_with_parent fm sha env k m p i))"
proof (cases rule: spawn_cases [of fm sha env k m p i])
  case (registered session e)
  let ?k = "(grant_resources env k (resolve_manifest k m) i)\<lparr>k_registry := insert_entry (k_registry k) e\<rparr>"
  have "registry_inv (insert_entry (k_registry k) e)"
    using assms registered(1,2) by (auto simp: kernel_inv_def spawn_fresh_def get_agent_def new_agent_entry_def intro!: inv_insert)
  then have "kernel_inv ?k" using assms(1) by (simp add: kernel_inv_def grant_resources_def)
  moreover have "k_triggers ?k = k_triggers k" by (simp add: grant_resources_def)
  ultimately show ?thesis
    using finish_spawn_inv [of ?k env] assms(2) registered(3) by (simp add: spawn_fresh_def)
qed (use assms in \<open>simp_all add: kernel_inv_def grant_resources_def\<close>)

lemma kill_inv: "kernel_inv k \<Longrightarrow> kernel_inv (snd (kill_agent fm sha env k i))"
proof (cases "remove_agent (k_registry k) i")
  case (Pair res r)
  assume k: "kernel_inv k"
  then have "registry_inv r" using registry_inv_remove [of "k_registry k" i] Pair by (simp add: kernel_inv_def)
  with k Pair show ?thesis
    by (cases res) (simp_all add: kill_agent_def kernel_inv_def inv_remove_agent cron_inv_remove_agent)
qed

lemma update_inv: "keeps_keys (\<lambda>e. (f e)\<lparr>last_active := now\<rparr>) \<Longrightarrow> registry_inv r \<Longrightarrow> registry_inv (snd (update_entry f now r i))"
  using inv_modify by (simp add: update_entry_def split: option.split)

lemma update_ops_inv: "registry_inv r \<Longrightarrow> registry_inv (snd (update_entry (apply_update t u) now r i))"
  by (rule update_inv [OF keeps_apply_update])

lemma model_update_inv:
  assumes "registry_inv r"
  shows "registry_inv (snd (update_entry (model_update cfg nm pr) now r i))"
proof (cases pr)
  case None
  then show ?thesis using update_ops_inv [OF assms, of now "UpdateModel nm"] by (simp add: model_update_def)
next
  case (Some prov)
  then show ?thesis
    using update_ops_inv [OF assms, of now "UpdateModelProviderConfig nm prov (Some (resolve_api_key_env cfg prov)) None"]
    by (simp add: model_update_def)
qed

lemma set_model_inv:
  assumes "kernel_inv k"
  shows "kernel_inv (snd (set_agent_model now k i model p))"
proof -
  have "registry_inv r" if "update_entry (model_update cfg nm pr) now (k_registry k) i = (res, r)" for cfg nm pr res r
    using model_update_inv [of "k_registry k" cfg nm pr now i] assms that by (simp add: kernel_inv_def)
  then show ?thesis
    using assms by (auto simp: set_agent_model_def Let_def kernel_inv_def split: sum.split prod.split)
qed

interpretation kernel: machine "kernel_step fm sha lib" kernel_fresh kernel_inv for fm sha lib
proof
  fix k op
  assume k: "kernel_inv k" and ok: "kernel_fresh k op"
  show "kernel_inv (kernel_step fm sha lib k op)"
  proof (cases op)
    case (Spawn env m p i)
    then show ?thesis using k ok spawn_inv by simp
  next
    case (SpawnChecked env m p cs i)
    then show ?thesis using k ok spawn_inv by (simp add: spawn_agent_checked_def split: sum.split)
  next
    case (Activate now i)
    have "registry_inv (snd (update_entry (set_state Agents.Running) now (k_registry k) i))"
      using update_ops_inv [of "k_registry k" now "SetState Agents.Running"] k by (simp add: kernel_inv_def)
    then show ?thesis using Activate k by (simp add: activate_agent_def kernel_inv_def split: option.split)
  next
    case (ChangeEntry now i u)
    then show ?thesis using update_ops_inv k by (simp add: kernel_inv_def)
  next
    case (PublishEvent e)
    then show ?thesis using k inv_evaluate by (simp add: publish_event_def kernel_inv_def case_prod_beta)
  next
    case (AddTrigger i now a p tmpl n)
    then show ?thesis
      using k ok by (auto simp: kernel_register_trigger_def kernel_inv_def register_trigger_def within_limit_def intro!: inv_add)
  next
    case (AddCronJob now j once)
    then show ?thesis
      using k cron.step_inv [of "k_cron k" "OpAdd now j once" lib] by (simp add: kernel_inv_def)
  qed (use k kill_inv set_model_inv in \<open>simp_all add: kernel_inv_def\<close>)
qed


text \<open>Grants after a spawn, and what a spawn leaves alone.\<close>

lemma finish_spawn_caps: "k_caps (snd (finish_spawn fm sha env k e)) = k_caps k"
  by (simp add: finish_spawn_def Let_def case_prod_beta split: option.split)

lemma spawn_result_caps:
  assumes "spawn_agent_with_parent fm sha env k m p i = (Inr j, k')"
  shows "j = i" "k_caps k' = grant (k_caps k) i (manifest_to_capabilities m)"
proof -
  have "j = i \<and> k_caps k' = grant (k_caps k) i (manifest_to_capabilities m)"
  proof (cases rule: spawn_cases [of fm sha env k m p i])
    case (registered session e)
    let ?k = "(grant_resources env k (resolve_manifest k m) i)\<lparr>k_registry := insert_entry (k_registry k) e\<rparr>"
    have "k_caps k' = k_caps ?k" using assms registered(3) finish_spawn_caps [of fm sha env ?k e] by simp
    moreover have "j = i"
      using assms registered(1,3) by (auto simp: finish_spawn_def Let_def case_prod_beta new_agent_entry_def split: if_splits)
    ultimately show ?thesis by (simp add: grant_resources_def)
  qed (use assms in simp_all)
  then show "j = i" "k_caps k' = grant (k_caps k) i (manifest_to_capabilities m)" by simp_all
qed

lemma list_grant: "list_caps (grant cm i cs) j = (if j = i then cs else list_caps cm j)"
  by (simp add: list_caps_def grant_def)

lemma granted_iff: "is_granted (Capability.check cm i r) \<longleftrightarrow> (\<exists>g\<in>set (list_caps cm i). capability_matches g r)"
  by (auto simp: Capability.check_def list_caps_def check_grants_iff split: option.split)


lemma extract_format:
  "extract_mcp_server (format_mcp_tool_name server tool) =
    Some (takeWhile (\<lambda>c. c \<noteq> CHR ''_'') (normalize_name server))"
proof -
  have find: "str_find (s @ CHR ''_'' # r) ''_'' = Some (length (takeWhile (\<lambda>c. c \<noteq> CHR ''_'') s))" for s r
    by (induction s) (auto simp: starts_with_def)
  have take: "take (length (takeWhile P s)) (s @ r) = takeWhile P s" for P and s r :: string
    by (induction s) auto
  show ?thesis
    using find [of "normalize_name server" "normalize_name tool"] take
    by (simp add: extract_mcp_server_def format_mcp_tool_name_def starts_with_def)
qed

lemma spawn_registers:
  assumes "env_session env = Some s" "env_dirs_ok env" "env_save_ok env"
    and "dm_get (name_index (k_registry k)) (man_name m) = None" "p \<noteq> Some i"
  shows "\<exists>k'. spawn_agent_with_parent fm sha env k m p i = (Inr i, k')
    \<and> get_agent (k_registry k') i = Some (new_agent_entry env i s p (resolve_manifest k m))"
  using assms
  by (auto simp: spawn_agent_with_parent_def Let_def register_agent_def name_taken_def new_agent_entry_def
      grant_resources_def finish_spawn_def case_prod_beta insert_entry_def add_child_def get_agent_def split: option.split)

definition sample_config :: kernel_config where
  "sample_config = \<lparr>cfg_exec_policy = default_exec_policy,
     cfg_default_model = \<lparr>dm_provider = ''anthropic'', dm_model = ''claude'', dm_api_key_env = ''KEY'', dm_base_url = None\<rparr>,
     cfg_budget = default_budget_config, cfg_browser_enabled = True, cfg_provider_api_keys = [], cfg_auth_profiles = [],
     cfg_home_dir = ''/home/of'', cfg_workspaces_dir = None\<rparr>"

definition sample_env :: spawn_env where
  "sample_env = \<lparr>env_now = 5, env_timestamp = ''t'', env_session = Some 77, env_dirs_ok = True, env_save_ok = True,
     env_audit_db_ok = True, env_trigger_ids = [], env_event_id = 99\<rparr>"

definition named :: "string \<Rightarrow> agent_manifest" where
  "named x = default_manifest\<lparr>man_name := x\<rparr>"

abbreviation booted :: kernel where
  "booted \<equiv> boot sample_config (new_catalog [] [] []) 10"


lemma spawn_sample:
  assumes "dm_get (name_index (k_registry k)) (man_name m) = None" "p \<noteq> Some i"
  shows "\<exists>k'. spawn_agent_with_parent fm sha sample_env k m p i = (Inr i, k')"
  using spawn_registers [of sample_env 77 k m p i fm sha] assms by (auto simp: sample_env_def)

lemma booted_names [simp]: "name_index (k_registry booted) = []"
  by (simp add: boot_def new_registry_def)



section \<open>Properties\<close>



text \<open>
  C13: a checked child stays within its parent. When \<open>spawn_agent_checked\<close> succeeds with the
  grants of the parent, another agent than the child, the child is granted nothing the parent is not, provided that the parent
  holds no pattern with two stars; and the grants of the parent are unchanged.
\<close>

theorem checked_child_within_parent:
  assumes "spawn_agent_checked fm sha env k m (Some p) (list_caps (k_caps k) p) i = (Inr j, k')"
    and "\<forall>g\<in>set (list_caps (k_caps k) p). plain_cap g" "p \<noteq> i"
    and "is_granted (Capability.check (k_caps k') i r)"
  shows "is_granted (Capability.check (k_caps k') p r) \<and> list_caps (k_caps k') p = list_caps (k_caps k) p"
proof -
  have valid: "validate_capability_inheritance (list_caps (k_caps k) p) (manifest_to_capabilities m) = Inr ()"
    and "spawn_agent_with_parent fm sha env k m (Some p) i = (Inr j, k')"
    using assms(1) by (auto simp: spawn_agent_checked_def split: sum.splits)
  from spawn_result_caps(2) [OF this(2)]
  have caps: "list_caps (k_caps k') i = manifest_to_capabilities m" "list_caps (k_caps k') p = list_caps (k_caps k) p"
    using assms(3) by (simp_all add: list_grant)
  have "\<exists>g\<in>set (list_caps (k_caps k) p). capability_matches g r"
    using caps.covered_trans [OF assms(2)] valid assms(4) caps(1) by (simp add: granted_iff validate_ok_iff)
  with caps show ?thesis by (simp add: granted_iff)
qed

theorem checked_child_within_parent_witness:
  "\<exists>k k'. spawn_agent_checked plain_formats (\<lambda>s. s) sample_env k ((named ''kid'')\<lparr>man_capabilities := no_capabilities\<lparr>cap_tools := [''file_read'']\<rparr>\<rparr>)
       (Some 7) (list_caps (k_caps k) 7) 2 = (Inr 2, k')
     \<and> is_granted (Capability.check (k_caps k') 7 (capability.ToolInvoke ''file_read''))"
proof -
  let ?k = "booted\<lparr>k_caps := grant new_manager 7 [capability.ToolInvoke ''file_read'']\<rparr>"
  let ?m = "(named ''kid'')\<lparr>man_capabilities := no_capabilities\<lparr>cap_tools := [''file_read'']\<rparr>\<rparr>"
  have m: "manifest_to_capabilities ?m = [capability.ToolInvoke ''file_read'']"
    by (simp add: manifest_to_capabilities_def effective_capabilities_def named_def default_manifest_def no_capabilities_def Let_def)
  have caps: "list_caps (k_caps ?k) 7 = [capability.ToolInvoke ''file_read'']" by (simp add: list_grant)
  obtain k' where spawn: "spawn_agent_with_parent plain_formats (\<lambda>s. s) sample_env ?k ?m (Some 7) 2 = (Inr 2, k')"
    using spawn_sample [of ?k ?m "Some 7" 2] by fastforce
  then have checked: "spawn_agent_checked plain_formats (\<lambda>s. s) sample_env ?k ?m (Some 7) (list_caps (k_caps ?k) 7) 2 = (Inr 2, k')"
    by (simp add: spawn_agent_checked_def m list_grant capability_matches_def)
  have "is_granted (Capability.check (k_caps k') 2 (capability.ToolInvoke ''file_read''))"
    using spawn_result_caps(2) [OF spawn] by (simp add: granted_iff list_grant m capability_matches_def)
  moreover have "\<forall>g\<in>set (list_caps (k_caps ?k) 7). plain_cap g" by (simp add: list_grant)
  ultimately have "is_granted (Capability.check (k_caps k') 7 (capability.ToolInvoke ''file_read''))"
    using checked_child_within_parent [OF checked] by simp
  with checked show ?thesis by blast
qed

text \<open>
  The tool \<open>agent_spawn\<close> does not check. A child spawned by it is granted whatever its
  manifest asks for, whoever spawned it: the tool takes the unchecked path, so an agent that
  holds only the right to spawn can give itself a child with every capability.
\<close>

theorem agent_spawn_tool_is_unchecked:
  assumes "tool_agent_spawn fm sha env k m caller i = (Inr j, k')" "c \<in> set (manifest_to_capabilities m)"
  shows "is_granted (Capability.check (k_caps k') i c)"
  using spawn_result_caps(2) [OF assms(1) [unfolded tool_agent_spawn_def]] assms(2)
    manifest_caps_kinds [OF assms(2)] manifest_kind_matches_self
  by (auto simp: granted_iff list_grant)

theorem agent_spawn_tool_is_unchecked_witness:
  "\<exists>k k'. tool_agent_spawn plain_formats (\<lambda>s. s) sample_env k ((named ''kid'')\<lparr>man_profile := Some FullProfile\<rparr>) 7 2 = (Inr 2, k')
     \<and> \<not> is_granted (Capability.check (k_caps k) 7 (capability.ShellExec ''*''))
     \<and> is_granted (Capability.check (k_caps k') 2 (capability.ShellExec ''*''))"
proof -
  let ?k = "booted\<lparr>k_caps := grant new_manager 7 [capability.AgentSpawn]\<rparr>"
  let ?m = "(named ''kid'')\<lparr>man_profile := Some FullProfile\<rparr>"
  obtain k' where spawn: "tool_agent_spawn plain_formats (\<lambda>s. s) sample_env ?k ?m 7 2 = (Inr 2, k')"
    using spawn_sample [of ?k ?m "Some 7" 2] unfolding tool_agent_spawn_def by fastforce
  have "capability.ShellExec ''*'' \<in> set (manifest_to_capabilities ?m)"
    by (subst full_profile_caps) (simp_all add: named_def default_manifest_def)
  from agent_spawn_tool_is_unchecked [OF spawn this]
  have "is_granted (Capability.check (k_caps k') 2 (capability.ShellExec ''*''))" .
  moreover have "\<not> is_granted (Capability.check (k_caps ?k) 7 (capability.ShellExec ''*''))"
    by (simp add: granted_iff list_grant capability_matches_def)
  ultimately show ?thesis using spawn by blast
qed

text \<open>
  C40: a refused spawn leaves its grants. When the name is taken the spawn fails after the
  capabilities and the quota of the new id were registered; the id is not in the registry, so
  \<open>kill_agent\<close> refuses it and the grants stay.
\<close>

theorem refused_spawn_leaves_grants:
  assumes "env_session env \<noteq> None" "env_dirs_ok env" "dm_get (name_index (k_registry k)) (man_name m) \<noteq> None"
    and "get_agent (k_registry k) i = None"
  shows "\<exists>k'. spawn_agent_with_parent fm sha env k m p i = (Inl (RegistryError (AgentAlreadyExists (man_name m))), k')
    \<and> list_caps (k_caps k') i = manifest_to_capabilities m \<and> dm_get (quotas (k_scheduler k')) i \<noteq> None
    \<and> kill_agent fm sha env k' i = (Inl (RegistryError (AgentNotFound i)), k')"
  using assms
  by (auto simp: spawn_agent_with_parent_def Let_def register_agent_def name_taken_def new_agent_entry_def
      grant_resources_def list_grant Scheduler.register_def kill_agent_def remove_agent_def get_agent_def)

theorem refused_spawn_leaves_grants_witness:
  "\<exists>k'. spawn_agent_with_parent plain_formats (\<lambda>s. s) sample_env
       (booted\<lparr>k_registry := insert_entry new_registry (sample_entry 1 ''ada'' [])\<rparr>) (named ''ada'') None 2
     = (Inl (RegistryError (AgentAlreadyExists ''ada'')), k')
     \<and> dm_get (quotas (k_scheduler k')) 2 \<noteq> None"
  using refused_spawn_leaves_grants [of sample_env "booted\<lparr>k_registry := insert_entry new_registry (sample_entry 1 ''ada'' [])\<rparr>"
      "named ''ada''" 2 plain_formats "\<lambda>s. s" None]
  by (auto simp: sample_env_def named_def default_manifest_def insert_entry_def sample_entry_def new_registry_def get_agent_def)

text \<open>
  Spawning uses up triggers. The lifecycle event of a spawn is evaluated against the
  triggers, but the messages are dropped: a trigger that waits for a spawned agent and may fire
  once is spent by the first spawn, its agent is never told, and no later event fires it.
\<close>

theorem spawn_uses_up_triggers:
  assumes "spawn_agent_with_parent fm sha env k m p i = (Inr j, k')"
    and "k_triggers k = register_trigger t now new_trigger_engine a (AgentSpawned ''*'') tmpl 1"
    and "man_schedule m = Reactive"
  shows "fst (publish_event fm k' ev) = []"
proof (cases rule: spawn_cases [of fm sha env k m p i])
  case (registered session e)
  let ?k = "(grant_resources env k (resolve_manifest k m) i)\<lparr>k_registry := insert_entry (k_registry k) e\<rparr>"
  have trig: "k_triggers ?k = k_triggers k" and sched: "man_schedule (manifest e) = Reactive"
    using assms(3) registered(1) by (simp_all add: grant_resources_def new_agent_entry_def)
  have "k_triggers k' = fst (evaluate fm (k_triggers k)
      (new_event (env_event_id env) (env_now env) (entry_id e) Broadcast (LifecycleEvent (Spawned (entry_id e) (entry_name e)))))"
    using assms(1) registered(3) sched trig
    by (auto simp: finish_spawn_def Let_def case_prod_beta proactive_triggers_def split: if_splits option.splits)
  then show ?thesis
    by (simp add: publish_event_def case_prod_beta assms(2) register_trigger_def add_trigger_def new_trigger_engine_def
        evaluate_def evaluate_trigger_def matches_event_def new_event_def dm_insert_def map_filter_def)
qed (use assms(1) in simp_all)

theorem spawn_uses_up_triggers_witness:
  "\<exists>k k'. spawn_agent_with_parent plain_formats (\<lambda>s. s) sample_env k (named ''ada'') None 2 = (Inr 2, k')
     \<and> fst (publish_event plain_formats k (new_event 1 0 2 Broadcast (LifecycleEvent (Spawned 2 ''ada'')))) = [(7, ''go'')]
     \<and> fst (publish_event plain_formats k' (new_event 1 0 3 Broadcast (LifecycleEvent (Spawned 3 ''bob'')))) = []"
proof -
  let ?k = "booted\<lparr>k_triggers := register_trigger 9 0 new_trigger_engine 7 (AgentSpawned ''*'') ''go'' 1\<rparr>"
  obtain k' where spawn: "spawn_agent_with_parent plain_formats (\<lambda>s. s) sample_env ?k (named ''ada'') None 2 = (Inr 2, k')"
    using spawn_sample [of ?k "named ''ada''" None 2] by fastforce
  have "fst (publish_event plain_formats k' (new_event 1 0 3 Broadcast (LifecycleEvent (Spawned 3 ''bob'')))) = []"
    by (rule spawn_uses_up_triggers [OF spawn]) (simp_all add: named_def default_manifest_def)
  moreover have "str_replace ''go'' ''{{event}}'' x = ''go''" for x
    by (rule str_replace_absent) (simp add: starts_with_def)
  then have "fst (publish_event plain_formats ?k (new_event 1 0 2 Broadcast (LifecycleEvent (Spawned 2 ''ada'')))) = [(7, ''go'')]"
    by (simp add: publish_event_def case_prod_beta register_trigger_def add_trigger_def new_trigger_engine_def
        evaluate_def evaluate_trigger_def matches_event_def new_event_def dm_insert_def map_filter_def)
  ultimately show ?thesis using spawn by blast
qed

text \<open>
  The allow list of MCP servers reads names to the first underscore. A tool of a server is
  offered to an agent limited to that server exactly when the normalised name of the server has
  no underscore, so the tools of \<open>my-server\<close> are never offered; and an agent limited to \<open>my\<close> is
  offered them.
\<close>

theorem mcp_allowlist_first_underscore:
  assumes "tool_name t = format_mcp_tool_name server tool"
  shows "(t \<in> set (mcp_candidates [server] [t])) = (CHR ''_'' \<notin> set (normalize_name server))
    \<and> (normalize_name server = normalize_name short @ ''_'' @ rest \<and> CHR ''_'' \<notin> set (normalize_name short)
       \<longrightarrow> t \<in> set (mcp_candidates [short] [t]))"
proof -
  have "takeWhile (\<lambda>c. c \<noteq> CHR ''_'') n = n \<longleftrightarrow> CHR ''_'' \<notin> set n" for n
    by (auto simp: takeWhile_eq_all_conv)
  then show ?thesis
    by (auto simp: mcp_candidates_def assms extract_format takeWhile_append)
qed

theorem mcp_allowlist_first_underscore_witness:
  "(let t = \<lparr>tool_name = format_mcp_tool_name ''my_server'' ''run'', tool_description = [], input_schema = JNull\<rparr>
    in t \<notin> set (mcp_candidates [''my_server''] [t]) \<and> t \<in> set (mcp_candidates [''my''] [t]))"
proof -
  let ?t = "\<lparr>tool_name = format_mcp_tool_name ''my_server'' ''run'', tool_description = [], input_schema = JNull\<rparr>"
  have n: "normalize_name ''my_server'' = ''my_server''" "normalize_name ''my'' = ''my''"
    by (simp_all add: normalize_name_def str_replace_absent to_lowercase_def char_to_lower_def starts_with_def)
  have "tool_name ?t = format_mcp_tool_name ''my_server'' ''run''" by simp
  from mcp_allowlist_first_underscore [OF this, of "''my''" "''server''"] show ?thesis
    by (simp only: n Let_def) simp
qed

text \<open>
  Inference reads the prefix of a model name in any case, stripping only as written: the provider
  of \<open>OpenAI/gpt-9\<close> is found, but the prefix stays in the model name.
\<close>

theorem mixed_case_prefix_stays:
  "infer_provider_from_model ''OpenAI/gpt-9'' = Some ''openai''
   \<and> normalized_model ''OpenAI/gpt-9'' None (Some ''openai'') = ''OpenAI/gpt-9''
   \<and> normalized_model ''openai/gpt-9'' None (Some ''openai'') = ''gpt-9''"
  by code_simp

end
