(* ===== verification/Workspace.thy ===== *)
theory Workspace
  imports Prelude "HOL-Library.Sublist"
begin

text \<open>
  Confinement of file access to a workspace: \<open>openfang-runtime/src/workspace_sandbox.rs\<close>, over a
  model of what it asks of the standard library and the file system. A file system maps
  canonical absolute paths, lists of names, to files, directories and symbolic links; a
  \<open>Path\<close> is its list of components. Looking a path up follows at most forty links, as Linux
  does. Permissions and hard links are not modelled.
\<close>

section \<open>Paths\<close>

datatype component = RootDir | CurDir | ParentDir | Normal (component_name: string)

definition part_component :: "string \<Rightarrow> component list" where
  "part_component x =
     (if x = [] \<or> x = ''.'' then [] else if x = ''..'' then [ParentDir] else [Normal x])"

text \<open>\<open>Path::components\<close>: a leading dot is kept, other dots and empty parts are not.\<close>

definition components :: "string \<Rightarrow> component list" where
  "components s =
     (let parts = split_on (CHR ''/'') s
      in (if starts_with s ''/'' then [RootDir] else if hd parts = ''.'' then [CurDir] else [])
         @ concat (map part_component parts))"

definition is_absolute :: "component list \<Rightarrow> bool" where
  "is_absolute cs = (case cs of RootDir # _ \<Rightarrow> True | _ \<Rightarrow> False)"

definition join_components :: "component list \<Rightarrow> component list \<Rightarrow> component list" where
  "join_components base cs = (if is_absolute cs then cs else base @ filter (\<lambda>c. c \<noteq> CurDir) cs)"

definition path_parent :: "component list \<Rightarrow> component list option" where
  "path_parent cs = (if cs = [] \<or> last cs = RootDir then None else Some (butlast cs))"

definition path_file_name :: "component list \<Rightarrow> string option" where
  "path_file_name cs =
     (if cs = [] then None else case last cs of Normal x \<Rightarrow> Some x | _ \<Rightarrow> None)"

section \<open>The file system\<close>

type_synonym path = "string list"

datatype node = FileNode string | DirNode | LinkNode string

type_synonym fs = "path \<rightharpoonup> node"

definition SYMLINK_LIMIT :: nat where
  "SYMLINK_LIMIT = 40"

text \<open>The kernel's path walk from a directory, with the number of links it may still follow. With
  \<open>creat\<close> a missing last name is where a file would be made, otherwise it is an error.\<close>

function walk :: "fs \<Rightarrow> bool \<Rightarrow> nat \<Rightarrow> path \<Rightarrow> component list \<Rightarrow> path option" where
  "walk fs creat n cur [] = Some cur"
| "walk fs creat n cur (RootDir # cs) = walk fs creat n [] cs"
| "walk fs creat n cur (CurDir # cs) = walk fs creat n cur cs"
| "walk fs creat n cur (ParentDir # cs) = walk fs creat n (butlast cur) cs"
| "walk fs creat n cur (Normal x # cs) =
     (case fs (cur @ [x]) of
        None \<Rightarrow> if creat \<and> cs = [] then Some (cur @ [x]) else None
      | Some DirNode \<Rightarrow> walk fs creat n (cur @ [x]) cs
      | Some (FileNode _) \<Rightarrow> if cs = [] then Some (cur @ [x]) else None
      | Some (LinkNode t) \<Rightarrow> if n = 0 then None else walk fs creat (n - 1) cur (components t @ cs))"
  by pat_completeness auto
termination by (relation "measures [\<lambda>(_, _, n, _, _). n, \<lambda>(_, _, _, _, cs). length cs]") auto

definition canonicalize :: "fs \<Rightarrow> component list \<Rightarrow> path option" where
  "canonicalize fs cs = walk fs False SYMLINK_LIMIT [] cs"

definition path_exists :: "fs \<Rightarrow> component list \<Rightarrow> bool" where
  "path_exists fs cs = (canonicalize fs cs \<noteq> None)"

definition open_target :: "fs \<Rightarrow> path \<Rightarrow> path option" where
  "open_target fs p = walk fs True SYMLINK_LIMIT [] (map Normal p)"

definition write_file :: "fs \<Rightarrow> path \<Rightarrow> string \<Rightarrow> fs option" where
  "write_file fs p content =
     (case open_target fs p of
        None \<Rightarrow> None
      | Some q \<Rightarrow> if q = [] \<or> fs q = Some DirNode then None else Some (fs(q \<mapsto> FileNode content)))"

definition read_to_string :: "fs \<Rightarrow> path \<Rightarrow> string option" where
  "read_to_string fs p =
     (case canonicalize fs (map Normal p) of
        None \<Rightarrow> None
      | Some q \<Rightarrow> (case fs q of Some (FileNode s) \<Rightarrow> Some s | _ \<Rightarrow> None))"

text \<open>\<open>unlink\<close> does not follow a link in the last place.\<close>

definition remove_file :: "fs \<Rightarrow> path \<Rightarrow> fs option" where
  "remove_file fs p =
     (if p = [] then None
      else case canonicalize fs (map Normal (butlast p)) of
        None \<Rightarrow> None
      | Some q \<Rightarrow>
          (case fs (q @ [last p]) of
             None \<Rightarrow> None
           | Some DirNode \<Rightarrow> None
           | Some _ \<Rightarrow> Some (fs(q @ [last p] := None))))"

definition is_dir :: "fs \<Rightarrow> path \<Rightarrow> bool" where
  "is_dir fs p =
     (case canonicalize fs (map Normal p) of Some q \<Rightarrow> q = [] \<or> fs q = Some DirNode | None \<Rightarrow> False)"

text \<open>\<open>DirBuilder\<close>: a missing parent is made first; a path that is a directory is fine.\<close>

datatype mkdir_error = AlreadyExists | NotFound

definition mkdir :: "fs \<Rightarrow> path \<Rightarrow> mkdir_error + fs" where
  "mkdir fs p =
     (if p = [] then Inl AlreadyExists
      else case canonicalize fs (map Normal (butlast p)) of
        None \<Rightarrow> Inl NotFound
      | Some q \<Rightarrow> if fs (q @ [last p]) = None then Inr (fs(q @ [last p] \<mapsto> DirNode)) else Inl AlreadyExists)"

function create_dir_all :: "fs \<Rightarrow> path \<Rightarrow> fs option" where
  "create_dir_all fs p =
     (case mkdir fs p of
        Inr fs' \<Rightarrow> Some fs'
      | Inl AlreadyExists \<Rightarrow> if is_dir fs p then Some fs else None
      | Inl NotFound \<Rightarrow>
          if p = [] then None
          else (case create_dir_all fs (butlast p) of
             None \<Rightarrow> None
           | Some fs1 \<Rightarrow>
               (case mkdir fs1 p of
                  Inr fs2 \<Rightarrow> Some fs2
                | Inl _ \<Rightarrow> if is_dir fs1 p then Some fs1 else None)))"
  by pat_completeness auto
termination by (relation "measure (\<lambda>(_, p). length p)") auto

declare create_dir_all.simps [simp del]

section \<open>The sandbox\<close>

datatype sandbox_error =
    TraversalDenied
  | RootUnresolved
  | NoParent
  | NoFilename
  | ParentUnresolved
  | OutsideWorkspace string

definition resolve_candidate :: "fs \<Rightarrow> component list \<Rightarrow> sandbox_error + path" where
  "resolve_candidate fs candidate =
     (case canonicalize fs candidate of
        Some q \<Rightarrow> Inr q
      | None \<Rightarrow>
          (case path_parent candidate of
             None \<Rightarrow> Inl NoParent
           | Some parent \<Rightarrow>
               (case path_file_name candidate of
                  None \<Rightarrow> Inl NoFilename
                | Some filename \<Rightarrow>
                    (case canonicalize fs parent of
                       None \<Rightarrow> Inl ParentUnresolved
                     | Some canon_parent \<Rightarrow> Inr (canon_parent @ [filename])))))"

definition resolve_sandbox_path :: "fs \<Rightarrow> string \<Rightarrow> component list \<Rightarrow> sandbox_error + path" where
  "resolve_sandbox_path fs user_path workspace_root =
     (if ParentDir \<in> set (components user_path) then Inl TraversalDenied
      else case canonicalize fs workspace_root of
        None \<Rightarrow> Inl RootUnresolved
      | Some canon_root \<Rightarrow>
          (case resolve_candidate fs (join_components workspace_root (components user_path)) of
             Inl e \<Rightarrow> Inl e
           | Inr q \<Rightarrow> if prefix canon_root q then Inr q else Inl (OutsideWorkspace user_path)))"

section \<open>Canonical paths\<close>

text \<open>A canonical path has only directories above it, and names a directory or a file.\<close>

definition dir_chain :: "fs \<Rightarrow> path \<Rightarrow> bool" where
  "dir_chain fs p \<longleftrightarrow> (\<forall>q x r. p = q @ x # r \<longrightarrow> fs (q @ [x]) = Some DirNode)"

definition canonical :: "fs \<Rightarrow> path \<Rightarrow> bool" where
  "canonical fs p \<longleftrightarrow> p = [] \<or> dir_chain fs (butlast p) \<and> (\<exists>v. fs p = Some v \<and> (\<forall>t. v \<noteq> LinkNode t))"

lemma dir_chain_Nil [simp]: "dir_chain fs []"
  by (simp add: dir_chain_def)

lemma dir_chain_snoc [simp]: "dir_chain fs (p @ [x]) \<longleftrightarrow> dir_chain fs p \<and> fs (p @ [x]) = Some DirNode"
proof
  assume "dir_chain fs p \<and> fs (p @ [x]) = Some DirNode"
  then show "dir_chain fs (p @ [x])"
    unfolding dir_chain_def by (auto simp: append_eq_append_conv2 Cons_eq_append_conv append_eq_Cons_conv)
next
  assume "dir_chain fs (p @ [x])"
  then show "dir_chain fs p \<and> fs (p @ [x]) = Some DirNode" by (auto simp: dir_chain_def)
qed

lemma dir_chain_butlast: "dir_chain fs p \<Longrightarrow> dir_chain fs (butlast p)"
  by (cases p rule: rev_cases) auto

lemma dir_chain_canonical: "dir_chain fs p \<Longrightarrow> canonical fs p"
  by (cases p rule: rev_cases) (auto simp: canonical_def)

lemma canonical_butlast: "canonical fs p \<Longrightarrow> canonical fs (butlast p)"
  by (cases "p = []") (simp_all add: canonical_def dir_chain_canonical [unfolded canonical_def])

lemma walk_canonical: "dir_chain fs cur \<Longrightarrow> walk fs False n cur cs = Some q \<Longrightarrow> canonical fs q"
proof (induction fs "False" n cur cs rule: walk.induct)
  case (5 fs n cur x cs)
  then show ?case by (auto simp: canonical_def split: option.splits node.splits if_splits)
qed (auto intro: dir_chain_canonical dir_chain_butlast)

lemma canonicalize_canonical: "canonicalize fs cs = Some q \<Longrightarrow> canonical fs q"
  unfolding canonicalize_def by (rule walk_canonical [OF dir_chain_Nil])

text \<open>A longer budget, and creating, change no walk that succeeds.\<close>

lemma walk_more: "walk fs False n cur cs = Some q \<Longrightarrow> n \<le> m \<Longrightarrow> walk fs creat m cur cs = Some q"
proof (induction fs "False" n cur cs arbitrary: m rule: walk.induct)
  case (5 fs n cur x cs)
  show ?case
  proof (cases "fs (cur @ [x])")
    case (Some v)
    then show ?thesis using 5 by (cases v) (auto split: if_splits)
  qed (use 5 in simp)
qed simp_all

text \<open>Where a path leads, its first part does.\<close>

lemma walk_prefix: "walk fs False n cur (cs @ ds) = Some q \<Longrightarrow> walk fs False n cur cs \<noteq> None"
proof (induction fs "False" n cur cs rule: walk.induct)
  case (5 fs n cur x cs)
  show ?case
  proof (cases "fs (cur @ [x])")
    case (Some v)
    then show ?thesis using 5 by (cases v) (auto split: if_splits)
  qed (use 5 in simp)
qed simp_all

text \<open>A walk down directories.\<close>

lemma walk_dirs: "dir_chain fs p \<Longrightarrow> walk fs creat n [] (map Normal p @ cs) = walk fs creat n p cs"
  by (induction p arbitrary: cs rule: rev_induct) simp_all

lemma walk_canonical_self: "canonical fs p \<Longrightarrow> walk fs creat n [] (map Normal p) = Some p"
proof (cases p rule: rev_cases)
  case (snoc q x)
  assume "canonical fs p"
  then obtain v where "dir_chain fs q" "fs (q @ [x]) = Some v" "\<forall>t. v \<noteq> LinkNode t"
    using snoc by (auto simp: canonical_def)
  then show ?thesis using snoc walk_dirs [of fs q creat n "[Normal x]"] by (cases v) simp_all
qed simp

lemma canonicalize_self: "canonical fs p \<Longrightarrow> canonicalize fs (map Normal p) = Some p"
  by (simp add: canonicalize_def walk_canonical_self)

lemma open_canonical: "canonical fs p \<Longrightarrow> open_target fs p = Some p"
  by (simp add: open_target_def walk_canonical_self)

text \<open>Below a canonical path that is no directory there is nothing.\<close>

lemma canonical_dir: "canonical fs p \<Longrightarrow> (\<forall>s. fs p \<noteq> Some (FileNode s)) \<Longrightarrow> dir_chain fs p"
proof (cases p rule: rev_cases)
  case (snoc q x)
  assume "canonical fs p" "\<forall>s. fs p \<noteq> Some (FileNode s)"
  then show ?thesis using snoc by (auto simp: canonical_def) (metis node.exhaust)
qed simp

lemma walk_below_file: "dir_chain fs p \<Longrightarrow> fs (p @ [y]) = Some (FileNode s) \<Longrightarrow>
    walk fs creat n [] (map Normal p @ Normal y # Normal x # cs) = None"
  by (simp add: walk_dirs)

lemma open_below:
  assumes "canonical fs p" "open_target fs (p @ [x]) = Some r"
  shows "dir_chain fs p \<or> p = []"
proof (rule ccontr)
  assume no: "\<not> (dir_chain fs p \<or> p = [])"
  then obtain s where s: "fs p = Some (FileNode s)" using canonical_dir [OF assms(1)] by auto
  obtain q y where p: "p = q @ [y]" using no by (cases p rule: rev_cases) auto
  then have "dir_chain fs q" using assms(1) by (auto simp: canonical_def)
  from walk_below_file [OF this s [unfolded p], of True SYMLINK_LIMIT x "[]"] show False
    using assms(2) p by (simp add: open_target_def)
qed

section \<open>Changing a leaf\<close>

text \<open>Two file systems that agree but for one place, which in the second is a file or free.\<close>

definition leaf_change :: "path \<Rightarrow> fs \<Rightarrow> fs \<Rightarrow> bool" where
  "leaf_change q fs fs' \<longleftrightarrow> q \<noteq> [] \<and> (\<forall>p. p \<noteq> q \<longrightarrow> fs' p = fs p) \<and> (fs' q = None \<or> (\<exists>s. fs' q = Some (FileNode s)))"

lemma leaf_changeD: "leaf_change q fs fs' \<Longrightarrow> p \<noteq> q \<Longrightarrow> fs' p = fs p"
  by (simp add: leaf_change_def)

lemma leaf_change_here:
  "leaf_change q fs fs' \<Longrightarrow> q \<noteq> []"
  "leaf_change q fs fs' \<Longrightarrow> fs' q \<noteq> Some DirNode"
  "leaf_change q fs fs' \<Longrightarrow> fs' q \<noteq> Some (LinkNode t)"
  by (auto simp: leaf_change_def)

lemma leaf_change_flip:
  "leaf_change q fs fs' \<Longrightarrow> fs q = None \<or> (\<exists>s. fs q = Some (FileNode s)) \<Longrightarrow> leaf_change q fs' fs"
  by (simp add: leaf_change_def)

lemma walk_leaf: "leaf_change q fs fs' \<Longrightarrow> walk fs' creat n cur cs = Some r \<Longrightarrow> r \<noteq> q \<Longrightarrow>
    walk fs creat n cur cs = Some r"
proof (induction fs' creat n cur cs rule: walk.induct)
  case (5 fs' creat n cur x cs)
  have eq: "fs' (cur @ [x]) = fs (cur @ [x])"
  proof (rule ccontr)
    assume "fs' (cur @ [x]) \<noteq> fs (cur @ [x])"
    then have "cur @ [x] = q" using leaf_changeD [OF 5(3)] by blast
    then show False using 5(3,4,5) by (auto simp: leaf_change_def split: if_splits)
  qed
  show ?case
  proof (cases "fs (cur @ [x])")
    case (Some v)
    then show ?thesis using 5 eq by (cases v) (auto split: if_splits)
  qed (use 5 eq in simp)
qed simp_all

lemma walk_leaf_back: "leaf_change q fs fs' \<Longrightarrow> walk fs' creat n cur cs = Some r \<Longrightarrow> r \<noteq> q \<Longrightarrow>
    walk fs False m cur cs = Some s \<Longrightarrow> walk fs' False m cur cs = Some s"
proof (induction fs' creat n cur cs arbitrary: m rule: walk.induct)
  case (5 fs' creat n cur x cs)
  have eq: "fs' (cur @ [x]) = fs (cur @ [x])"
  proof (rule ccontr)
    assume "fs' (cur @ [x]) \<noteq> fs (cur @ [x])"
    then have "cur @ [x] = q" using leaf_changeD [OF 5(3)] by blast
    then show False using 5(3,4,5) by (auto simp: leaf_change_def split: if_splits)
  qed
  show ?case
  proof (cases "fs (cur @ [x])")
    case (Some v)
    then show ?thesis using 5 eq by (cases v) (auto split: if_splits)
  qed (use 5 eq in simp)
qed simp_all

text \<open>A walk to a directory passes, with some of the links left, to what follows it, in both.\<close>

lemma walk_through:
  "leaf_change q fs fs' \<Longrightarrow> walk fs' False n cur cs = Some p \<Longrightarrow> p \<noteq> q \<Longrightarrow> p = [] \<or> (\<forall>s. fs p \<noteq> Some (FileNode s)) \<Longrightarrow>
    \<exists>m\<le>n. \<forall>creat ds. walk fs creat n cur (cs @ ds) = walk fs creat m p ds
                    \<and> walk fs' creat n cur (cs @ ds) = walk fs' creat m p ds"
proof (induction fs' "False" n cur cs rule: walk.induct)
  case (5 fs' n cur x cs)
  have eq: "fs' (cur @ [x]) = fs (cur @ [x])"
  proof (rule ccontr)
    assume "fs' (cur @ [x]) \<noteq> fs (cur @ [x])"
    then have "cur @ [x] = q" using leaf_changeD [OF 5(3)] by blast
    then show False using 5(3,4,5) by (auto simp: leaf_change_def split: if_splits)
  qed
  show ?case
  proof (cases "fs (cur @ [x])")
    case (Some v)
    show ?thesis
    proof (cases v)
      case (LinkNode t)
      have n: "n \<noteq> 0" "walk fs' False (n - 1) cur (components t @ cs) = Some p"
        using 5(4) LinkNode Some eq by (auto split: if_splits)
      have "\<exists>m\<le>n - 1. \<forall>creat ds. walk fs creat (n - 1) cur ((components t @ cs) @ ds) = walk fs creat m p ds
                  \<and> walk fs' creat (n - 1) cur ((components t @ cs) @ ds) = walk fs' creat m p ds"
        using 5 n LinkNode Some eq by fastforce
      then obtain m where "m \<le> n - 1"
        "\<forall>creat ds. walk fs creat (n - 1) cur ((components t @ cs) @ ds) = walk fs creat m p ds
                  \<and> walk fs' creat (n - 1) cur ((components t @ cs) @ ds) = walk fs' creat m p ds" by blast
      then show ?thesis using 5(4) LinkNode Some eq by (intro exI [of _ m]) (auto split: if_splits)
    qed (use 5 eq Some in \<open>auto split: if_splits\<close>)
  qed (use 5 eq in simp)
qed auto

section \<open>Confinement\<close>

text \<open>
  A path that cannot be resolved is where a file may be made. Nothing that is opened there may
  lie outside the workspace: no link in it dangles, or is one too many to follow, and leads out.
\<close>

definition links_confined :: "fs \<Rightarrow> path \<Rightarrow> bool" where
  "links_confined fs R \<longleftrightarrow> (\<forall>cs p x r. canonicalize fs cs = Some p \<longrightarrow> prefix R p \<longrightarrow>
     canonicalize fs (cs @ [Normal x]) = None \<longrightarrow> open_target fs (p @ [x]) = Some r \<longrightarrow> prefix R r)"

lemma links_confinedD:
  "links_confined fs R \<Longrightarrow> canonicalize fs cs = Some p \<Longrightarrow> prefix R p \<Longrightarrow>
    canonicalize fs (cs @ [Normal x]) = None \<Longrightarrow> open_target fs (p @ [x]) = Some r \<Longrightarrow> prefix R r"
  unfolding links_confined_def by blast

lemma no_links_confined:
  assumes "\<And>p t. fs p \<noteq> Some (LinkNode t)" shows "links_confined fs R"
proof -
  have down: "walk fs creat n cur (map Normal xs) = Some r \<Longrightarrow> r = cur @ xs" for creat n cur xs r
  proof (induction xs arbitrary: cur)
    case (Cons x xs)
    from Cons.prems have "walk fs creat n (cur @ [x]) (map Normal xs) = Some r \<or> r = cur @ [x] \<and> xs = []"
      using assms by (auto split: option.splits node.splits if_splits)
    then show ?case using Cons.IH [of "cur @ [x]"] by auto
  qed simp
  have "r = p" if "open_target fs p = Some r" for p r
    using down [of True SYMLINK_LIMIT "[]" p r] that by (simp add: open_target_def)
  then show ?thesis unfolding links_confined_def by (metis prefix_prefix)
qed

lemma leaf_change_confined:
  assumes fs: "links_confined fs R" "leaf_change q fs fs'" "prefix R q"
  shows "links_confined fs' R"
  unfolding links_confined_def
proof (intro allI impI)
  fix cs p x r
  assume p: "canonicalize fs' cs = Some p" "prefix R p" and none: "canonicalize fs' (cs @ [Normal x]) = None"
    and r: "open_target fs' (p @ [x]) = Some r"
  show "prefix R r"
  proof (cases "r = q")
    case False
    have chain: "dir_chain fs' p" using open_below [OF canonicalize_canonical [OF p(1)] r] by auto
    have "p = [] \<or> fs' p = Some DirNode" using chain by (cases p rule: rev_cases) simp_all
    moreover from this have pq: "p \<noteq> q" using leaf_change_here [OF fs(2)] by auto
    ultimately have p_dir: "p = [] \<or> fs p = Some DirNode" using leaf_changeD [OF fs(2) pq] by simp
    obtain m where m: "m \<le> SYMLINK_LIMIT" "\<And>creat ds. walk fs creat SYMLINK_LIMIT [] (cs @ ds) = walk fs creat m p ds"
        "\<And>creat ds. walk fs' creat SYMLINK_LIMIT [] (cs @ ds) = walk fs' creat m p ds"
      using walk_through [OF fs(2) p(1) [unfolded canonicalize_def] pq] p_dir by auto
    have old: "canonicalize fs cs = Some p" "open_target fs (p @ [x]) = Some r"
      using walk_leaf [OF fs(2)] p(1) r pq False by (auto simp: canonicalize_def open_target_def)
    have step: "walk fs' True SYMLINK_LIMIT p [Normal x] = Some r"
      using r walk_dirs [OF chain, of True SYMLINK_LIMIT "[Normal x]"] by (simp add: open_target_def)
    show ?thesis
    proof (cases "canonicalize fs (cs @ [Normal x])")
      case None
      then show ?thesis using links_confinedD [OF fs(1) old(1) p(2) _ old(2)] by simp
    next
      case (Some s)
      then have "walk fs False m p [Normal x] = Some s" by (simp only: canonicalize_def m(2))
      from walk_leaf_back [OF fs(2) step False this] none show ?thesis by (simp only: canonicalize_def m(3)) simp
    qed
  qed (use fs(3) in simp)
qed

lemma leaf_change_upd: "q \<noteq> [] \<Longrightarrow> leaf_change q fs (fs(q \<mapsto> FileNode s))"
  by (simp add: leaf_change_def)

lemma leaf_change_remove: "q \<noteq> [] \<Longrightarrow> leaf_change q fs (fs(q := None))"
  by (simp add: leaf_change_def)

lemma walk_open: "dir_chain fs cur \<Longrightarrow> walk fs creat n cur cs = Some q \<Longrightarrow>
    canonical fs q \<or> fs q = None \<and> q \<noteq> []"
proof (induction fs creat n cur cs rule: walk.induct)
  case (5 fs creat n cur x cs)
  then show ?case by (auto simp: canonical_def split: option.splits node.splits if_splits)
qed (auto intro: dir_chain_canonical dir_chain_butlast)

text \<open>
  A workspace: its root, where it can still be found, is a directory, and no link in it opens
  outside by mistake. A step keeps that, and everything outside, as it is.
\<close>

definition workspace_ok :: "fs \<Rightarrow> component list \<Rightarrow> path \<Rightarrow> bool" where
  "workspace_ok fs w R \<longleftrightarrow>
     canonicalize fs w \<in> {Some R, None} \<and> dir_chain fs R \<and> links_confined fs R"

definition confined_step :: "component list \<Rightarrow> path \<Rightarrow> fs \<Rightarrow> fs \<Rightarrow> bool" where
  "confined_step w R fs fs' \<longleftrightarrow> workspace_ok fs' w R \<and> (\<forall>p. \<not> prefix R p \<longrightarrow> fs' p = fs p)"

lemma confined_refl: "workspace_ok fs w R \<Longrightarrow> confined_step w R fs fs"
  by (simp add: confined_step_def)

lemma confined_trans: "confined_step w R a b \<Longrightarrow> confined_step w R b c \<Longrightarrow> confined_step w R a c"
  by (simp add: confined_step_def)

lemma dir_chain_update: "leaf_change q fs fs' \<Longrightarrow> \<not> prefix q p \<Longrightarrow> dir_chain fs p \<Longrightarrow> dir_chain fs' p"
  by (induction p rule: rev_induct) (auto simp: leaf_change_def)

lemma leaf_change_step:
  assumes "workspace_ok fs w R" "canonicalize fs w = Some R" "leaf_change q fs fs'" "prefix R q" "q \<noteq> R"
    and "leaf_change q fs' fs \<or> fs' q = None"
  shows "confined_step w R fs fs'"
proof -
  have "canonicalize fs' w \<in> {Some R, None}"
  proof (cases "fs' q = None")
    case True
    then have ne: "canonicalize fs' w \<noteq> Some q"
      using canonicalize_canonical [of fs' w q] leaf_change_here(1) [OF assms(3)] by (auto simp: canonical_def)
    show ?thesis
    proof (cases "canonicalize fs' w")
      case (Some r)
      then have "canonicalize fs w = Some r"
        using walk_leaf [OF assms(3)] ne unfolding canonicalize_def by simp
      then show ?thesis using Some assms(2) by simp
    qed simp
  next
    case False
    then have "leaf_change q fs' fs" using assms(6) by auto
    from walk_leaf [OF this, of False SYMLINK_LIMIT "[]" w R] show ?thesis
      using assms(2,5) by (simp add: canonicalize_def)
  qed
  moreover have "\<not> prefix q R" using assms(4,5) prefix_order.antisym by blast
  moreover have "fs' p = fs p" if "\<not> prefix R p" for p
  proof -
    have "p \<noteq> q" using that assms(4) by metis
    then show ?thesis by (rule leaf_changeD [OF assms(3)])
  qed
  ultimately show ?thesis
    using assms(1) leaf_change_confined [OF _ assms(3,4)] dir_chain_update [OF assms(3)]
    by (simp add: workspace_ok_def confined_step_def)
qed

text \<open>What the sandbox lets through is in the workspace, and existing or next to nothing.\<close>

lemma resolve_cases:
  assumes "resolve_sandbox_path fs u w = Inr p"
  obtains (existing) R where "canonicalize fs w = Some R" "prefix R p" "canonical fs p"
  | (fresh) R cs q x where "canonicalize fs w = Some R" "prefix R p" "p = q @ [x]" "canonicalize fs cs = Some q"
      "canonicalize fs (cs @ [Normal x]) = None"
proof -
  let ?c = "join_components w (components u)"
  obtain R where R: "canonicalize fs w = Some R" "prefix R p" "resolve_candidate fs ?c = Inr p"
    using assms by (auto simp: resolve_sandbox_path_def split: option.splits sum.splits if_splits)
  show thesis
  proof (cases "canonicalize fs ?c")
    case (Some q)
    then show thesis using R canonicalize_canonical existing by (auto simp: resolve_candidate_def)
  next
    case None
    then obtain cs x q where q: "path_parent ?c = Some cs" "path_file_name ?c = Some x"
        "canonicalize fs cs = Some q" "p = q @ [x]"
      using R(3) by (auto simp: resolve_candidate_def split: option.splits)
    have "?c = cs @ [Normal x]"
      using q(1,2) by (cases ?c rule: rev_cases)
        (auto simp: path_parent_def path_file_name_def split: if_splits component.splits)
    then show thesis using fresh R q None by metis
  qed
qed

lemma write_place:
  assumes ok: "workspace_ok fs w R" "resolve_sandbox_path fs u w = Inr p" and wr: "write_file fs p s = Some fs'"
  obtains q where "fs' = fs(q \<mapsto> FileNode s)" "q \<noteq> []" "q \<noteq> R" "prefix R q" "leaf_change q fs' fs"
    "canonicalize fs w = Some R"
proof -
  obtain q where q: "open_target fs p = Some q" "q \<noteq> []" "fs q \<noteq> Some DirNode" "fs' = fs(q \<mapsto> FileNode s)"
    using wr by (auto simp: write_file_def split: option.splits if_splits)
  have q_leaf: "leaf_change q fs' fs"
  proof -
    have "canonical fs q \<or> fs q = None" using walk_open [OF dir_chain_Nil q(1) [unfolded open_target_def]] by auto
    then have "fs q = None \<or> (\<exists>s. fs q = Some (FileNode s))"
      using q(2,3) by (auto simp: canonical_def) (metis node.exhaust)
    then show ?thesis using leaf_change_flip [OF leaf_change_upd [OF q(2)]] q(4) by simp
  qed
  have R: "canonicalize fs w = Some R" "dir_chain fs R" "links_confined fs R"
    using ok by (auto simp: workspace_ok_def resolve_sandbox_path_def split: option.splits if_splits)
  have "q \<noteq> R" using q(2,3) R(2) by (cases R rule: rev_cases) auto
  have "prefix R q"
    using ok(2)
  proof (cases rule: resolve_cases)
    case existing
    then show ?thesis using q(1) R(1) open_canonical by auto
  next
    case (fresh R' cs c x)
    have "p \<noteq> R" using q(1) open_canonical [OF dir_chain_canonical [OF R(2)]] \<open>q \<noteq> R\<close> by auto
    then have "prefix R c" using fresh(1,2,3) R(1) by simp
    from links_confinedD [OF R(3) fresh(4) this fresh(5)] show ?thesis using q(1) fresh(3) by simp
  qed
  then show thesis using that q(2,4) \<open>q \<noteq> R\<close> q_leaf R(1) by blast
qed

lemma sandbox_write:
  assumes "workspace_ok fs w R" "resolve_sandbox_path fs u w = Inr p" "write_file fs p s = Some fs'"
  shows "confined_step w R fs fs' \<and> canonicalize fs' w = Some R"
proof -
  obtain q where q: "fs' = fs(q \<mapsto> FileNode s)" "q \<noteq> []" "q \<noteq> R" "prefix R q" "leaf_change q fs' fs"
      "canonicalize fs w = Some R"
    using write_place [OF assms] .
  have "leaf_change q fs fs'" using leaf_change_upd q(1,2) by simp
  then show ?thesis
    using leaf_change_step [OF assms(1) q(6)] q(3,4,5) walk_leaf [OF q(5), of False SYMLINK_LIMIT "[]" w R]
    by (simp add: canonicalize_def q(6) [unfolded canonicalize_def])
qed

lemma remove_inside:
  assumes ok: "workspace_ok fs w R" "canonicalize fs w = Some R" and rm: "remove_file fs p = Some fs'"
    and inside: "\<And>q. canonicalize fs (map Normal (butlast p)) = Some q \<Longrightarrow> prefix R (q @ [last p])"
  shows "confined_step w R fs fs'"
proof -
  obtain q where q: "canonicalize fs (map Normal (butlast p)) = Some q" "fs (q @ [last p]) \<noteq> Some DirNode"
      "fs' = fs(q @ [last p] := None)"
    using rm by (auto simp: remove_file_def split: option.splits node.splits if_splits)
  have "dir_chain fs R" using ok(1) by (simp add: workspace_ok_def)
  then have "q @ [last p] \<noteq> R" using q(2) by (cases R rule: rev_cases) auto
  then show ?thesis
    using leaf_change_step [OF ok _ inside [OF q(1)]] leaf_change_remove [of "q @ [last p]" fs] q(3) by simp
qed

lemma resolved_parent:
  assumes "resolve_sandbox_path fs u w = Inr p"
  shows "canonical fs (butlast p)"
  using assms
proof (cases rule: resolve_cases)
  case (existing R)
  then show ?thesis using canonical_butlast by blast
next
  case fresh
  then show ?thesis using canonicalize_canonical by auto
qed

lemma resolved_inside:
  "workspace_ok fs w R \<Longrightarrow> resolve_sandbox_path fs u w = Inr p \<Longrightarrow> canonicalize fs w = Some R \<and> prefix R p"
  by (auto simp: workspace_ok_def resolve_sandbox_path_def split: option.splits if_splits sum.splits)

lemma sandbox_remove:
  assumes ok: "workspace_ok fs w R" "resolve_sandbox_path fs u w = Inr p" and rm: "remove_file fs p = Some fs'"
  shows "confined_step w R fs fs'"
proof (rule remove_inside [OF ok(1) _ rm])
  show "canonicalize fs w = Some R" using resolved_inside [OF ok] by simp
  fix q assume "canonicalize fs (map Normal (butlast p)) = Some q"
  then have "q = butlast p" using canonicalize_self [OF resolved_parent [OF ok(2)]] by simp
  moreover have "p \<noteq> []" using rm by (auto simp: remove_file_def)
  ultimately show "prefix R (q @ [last p])" using resolved_inside [OF ok] by simp
qed

text \<open>A file may be removed after another was written, as when a file is moved.\<close>

lemma sandbox_move:
  assumes ok: "workspace_ok fs w R" "resolve_sandbox_path fs u w = Inr p" "resolve_sandbox_path fs v w = Inr t"
    and wr: "write_file fs t s = Some fs1" and rm: "remove_file fs1 p = Some fs2"
  shows "confined_step w R fs fs2"
proof -
  obtain q where q: "fs1 = fs(q \<mapsto> FileNode s)" "q \<noteq> []" "prefix R q"
    using write_place [OF ok(1,3) wr] by metis
  have w1: "confined_step w R fs fs1" "canonicalize fs1 w = Some R" using sandbox_write [OF ok(1,3) wr] by simp_all
  have "confined_step w R fs1 fs2"
  proof (rule remove_inside [OF _ w1(2) rm])
    show "workspace_ok fs1 w R" using w1(1) by (simp add: confined_step_def)
    fix b assume b: "canonicalize fs1 (map Normal (butlast p)) = Some b"
    have "p \<noteq> []" using rm by (auto simp: remove_file_def)
    show "prefix R (b @ [last p])"
    proof (cases "b = q")
      case False
      then have "canonicalize fs (map Normal (butlast p)) = Some b"
        using walk_leaf [of q fs fs1] leaf_change_upd [OF q(2)] b q(1) by (simp add: canonicalize_def)
      then have "b = butlast p" using canonicalize_self [OF resolved_parent [OF ok(2)]] by simp
      then show ?thesis using resolved_inside [OF ok(1,2)] \<open>p \<noteq> []\<close> by simp
    qed (use q(3) in simp)
  qed
  then show ?thesis by (rule confined_trans [OF w1(1)])
qed

text \<open>Directories above a path the sandbox lets through are there already.\<close>

lemma create_dir_all_parent:
  assumes "resolve_sandbox_path fs u w = Inr p" "p \<noteq> []"
  shows "create_dir_all fs (butlast p) = (if is_dir fs (butlast p) then Some fs else None)"
proof -
  note c = resolved_parent [OF assms(1)]
  have "mkdir fs (butlast p) = Inl AlreadyExists"
  proof (cases "butlast p" rule: rev_cases)
    case (snoc d x)
    then have "dir_chain fs d" "fs (d @ [x]) \<noteq> None" using c by (auto simp: canonical_def)
    then show ?thesis using snoc canonicalize_self [OF dir_chain_canonical] by (simp add: mkdir_def)
  qed (simp add: mkdir_def)
  then show ?thesis by (simp add: create_dir_all.simps)
qed

end
