(* ===== verification/ApplyPatch.thy ===== *)
theory ApplyPatch
  imports Workspace
begin

text \<open>
  Patches: \<open>openfang-runtime/src/apply_patch.rs\<close>, the parser, the search for the place of a hunk
  and the application to the files of a workspace. Messages are values of \<open>parse_error\<close> and
  \<open>patch_failure\<close>; the loops over an index into the lines are recursions on the lines left.
\<close>

section \<open>Patches\<close>

record hunk =
  context_before :: "string list"
  old_lines :: "string list"
  new_lines :: "string list"
  context_after :: "string list"

datatype patch_op =
    AddFile string string
  | UpdateFile string "string option" "hunk list"
  | DeleteFile string

datatype parse_error =
    MissingBegin
  | MissingEnd
  | EndBeforeBegin
  | EmptyAddPath
  | ExpectedPlus string
  | EmptyUpdatePath
  | NoHunks string
  | EmptyDeletePath
  | UnexpectedLine string
  | NoOperations

section \<open>The parser\<close>

definition list_position :: "('a \<Rightarrow> bool) \<Rightarrow> 'a list \<Rightarrow> nat option" where
  "list_position P xs = find (\<lambda>i. P (xs ! i)) [0..<length xs]"

definition list_rposition :: "('a \<Rightarrow> bool) \<Rightarrow> 'a list \<Rightarrow> nat option" where
  "list_rposition P xs = find (\<lambda>i. P (xs ! i)) (rev [0..<length xs])"

definition is_marker :: "string \<Rightarrow> bool" where
  "is_marker l = starts_with (trim l) ''***''"

definition is_hunk_start :: "string \<Rightarrow> bool" where
  "is_hunk_start l = starts_with (trim l) ''@@''"

fun add_file_lines :: "string list \<Rightarrow> string list \<Rightarrow> parse_error + string list \<times> string list" where
  "add_file_lines [] acc = Inr (acc, [])"
| "add_file_lines (l # ls) acc =
     (if is_marker l then Inr (acc, l # ls)
      else case strip_prefix ''+'' l of
        Some stripped \<Rightarrow> add_file_lines ls (acc @ [stripped])
      | None \<Rightarrow> if trim l \<noteq> [] then Inl (ExpectedPlus l) else add_file_lines ls acc)"

text \<open>One line of a hunk, with the flags \<open>in_change\<close> and \<open>past_change\<close>.\<close>

definition hunk_context :: "string \<Rightarrow> hunk \<times> bool \<times> bool \<Rightarrow> hunk \<times> bool \<times> bool" where
  "hunk_context l = (\<lambda>(h, in_change, past_change).
     if in_change \<or> past_change then (h\<lparr>context_after := context_after h @ [l]\<rparr>, False, True)
     else (h\<lparr>context_before := context_before h @ [l]\<rparr>, in_change, past_change))"

definition hunk_line :: "string \<Rightarrow> hunk \<times> bool \<times> bool \<Rightarrow> hunk \<times> bool \<times> bool" where
  "hunk_line hl s =
     (case strip_prefix ''-'' hl of
        Some stripped \<Rightarrow> ((fst s)\<lparr>old_lines := old_lines (fst s) @ [stripped]\<rparr>, True, False)
      | None \<Rightarrow>
     (case strip_prefix ''+'' hl of
        Some stripped \<Rightarrow> ((fst s)\<lparr>new_lines := new_lines (fst s) @ [stripped]\<rparr>, True, False)
      | None \<Rightarrow>
     (case strip_prefix '' '' hl of
        Some stripped \<Rightarrow> hunk_context stripped s
      | None \<Rightarrow> if trim hl = [] then hunk_context [] s else hunk_context hl s)))"

fun hunk_body :: "string list \<Rightarrow> hunk \<times> bool \<times> bool \<Rightarrow> hunk \<times> string list" where
  "hunk_body [] s = (fst s, [])"
| "hunk_body (l # ls) s =
     (if is_hunk_start l \<or> is_marker l then (fst s, l # ls) else hunk_body ls (hunk_line l s))"

definition empty_hunk :: hunk where
  "empty_hunk = \<lparr>context_before = [], old_lines = [], new_lines = [], context_after = []\<rparr>"

lemma hunk_body_length: "length (snd (hunk_body ls s)) \<le> length ls"
  by (induction ls s rule: hunk_body.induct) auto

function parse_hunks :: "string list \<Rightarrow> hunk list \<Rightarrow> hunk list \<times> string list" where
  "parse_hunks [] hunks = (hunks, [])"
| "parse_hunks (l # ls) hunks =
     (if is_marker l then (hunks, l # ls)
      else if is_hunk_start l then
        let (h, rest) = hunk_body ls (empty_hunk, False, False) in parse_hunks rest (hunks @ [h])
      else parse_hunks ls hunks)"
  by pat_completeness auto
termination
  by (relation "measure (\<lambda>(ls, _). length ls)")
     (auto simp: less_Suc_eq_le, metis hunk_body_length snd_conv)

lemma parse_hunks_length: "length (snd (parse_hunks ls hs)) \<le> length ls"
proof (induction ls hs rule: parse_hunks.induct)
  case (2 l ls hs)
  obtain h rest where hb: "hunk_body ls (empty_hunk, False, False) = (h, rest)" by force
  then have "length rest \<le> length ls" using hunk_body_length [of ls "(empty_hunk, False, False)"] by simp
  moreover have "\<not> is_marker l \<Longrightarrow> is_hunk_start l \<Longrightarrow> length (snd (parse_hunks rest (hs @ [h]))) \<le> length rest"
    using 2(1) hb by simp
  ultimately show ?case using 2(2) hb by auto
qed simp

lemma add_file_lines_length: "add_file_lines ls acc = Inr (cs, rest) \<Longrightarrow> length rest \<le> length ls"
  by (induction ls acc rule: add_file_lines.induct) (auto split: if_splits option.splits)

definition update_paths :: "string \<Rightarrow> string \<times> string option" where
  "update_paths rest =
     (case split_once rest ''->'' of
        Some (old, new) \<Rightarrow> (trim old, Some (trim new))
      | None \<Rightarrow> (rest, None))"

function parse_ops :: "string list \<Rightarrow> patch_op list \<Rightarrow> parse_error + patch_op list" where
  "parse_ops [] ops = (if ops = [] then Inl NoOperations else Inr ops)"
| "parse_ops (l # ls) ops =
     (let line = trim l in
      case strip_prefix ''*** Add File:'' line of
        Some r \<Rightarrow>
          (if trim r = [] then Inl EmptyAddPath
           else case add_file_lines ls [] of
             Inl e \<Rightarrow> Inl e
           | Inr (content_lines, rest) \<Rightarrow>
               parse_ops rest (ops @ [AddFile (trim r) (join_with [newline] content_lines)]))
      | None \<Rightarrow>
     (case strip_prefix ''*** Update File:'' line of
        Some r \<Rightarrow>
          (let (path, move_to) = update_paths (trim r) in
           if path = [] then Inl EmptyUpdatePath
           else let (hunks, rest) = parse_hunks ls [] in
             if hunks = [] then Inl (NoHunks path)
             else parse_ops rest (ops @ [UpdateFile path move_to hunks]))
      | None \<Rightarrow>
     (case strip_prefix ''*** Delete File:'' line of
        Some r \<Rightarrow>
          (if trim r = [] then Inl EmptyDeletePath else parse_ops ls (ops @ [DeleteFile (trim r)]))
      | None \<Rightarrow> if line = [] then parse_ops ls ops else Inl (UnexpectedLine line))))"
  by pat_completeness auto
termination
  by (relation "measure (\<lambda>(ls, _). length ls)")
     (auto simp: less_Suc_eq_le add_file_lines_length, metis parse_hunks_length snd_conv)

definition parse_patch :: "string \<Rightarrow> parse_error + patch_op list" where
  "parse_patch input =
     (let lines = str_lines input in
      case list_position (\<lambda>l. trim l = ''*** Begin Patch'') lines of
        None \<Rightarrow> Inl MissingBegin
      | Some b \<Rightarrow>
          (case list_rposition (\<lambda>l. trim l = ''*** End Patch'') lines of
             None \<Rightarrow> Inl MissingEnd
           | Some e \<Rightarrow>
               if e \<le> b then Inl EndBeforeBegin
               else parse_ops (take (e - (b + 1)) (drop (b + 1) lines)) []))"

section \<open>Hunks\<close>

text \<open>The two searches differ in how they compare lines.\<close>

definition find_anchor_by :: "(string \<Rightarrow> string \<Rightarrow> bool) \<Rightarrow> string list \<Rightarrow> string list \<Rightarrow> nat option" where
  "find_anchor_by same file_lines anchor =
     (if anchor = [] then Some (length file_lines)
      else if length anchor > length file_lines then None
      else find (\<lambda>start. list_all2 same (take (length anchor) (drop start file_lines)) anchor)
             [0..<length file_lines - length anchor + 1])"

definition find_anchor :: "string list \<Rightarrow> string list \<Rightarrow> nat option" where
  "find_anchor = find_anchor_by (=)"

definition same_trimmed :: "string \<Rightarrow> string \<Rightarrow> bool" where
  "same_trimmed a b = (trim_end a = trim_end b)"

definition find_anchor_fuzzy :: "string list \<Rightarrow> string list \<Rightarrow> nat option" where
  "find_anchor_fuzzy = find_anchor_by same_trimmed"

definition hunk_anchor :: "hunk \<Rightarrow> string list" where
  "hunk_anchor h = context_before h @ old_lines h"

definition apply_hunk :: "string list \<Rightarrow> hunk \<Rightarrow> string list option" where
  "apply_hunk ls h =
     (if hunk_anchor h = [] \<and> old_lines h = [] then Some (ls @ new_lines h)
      else case or_else (find_anchor ls (hunk_anchor h)) (find_anchor_fuzzy ls (hunk_anchor h)) of
        None \<Rightarrow> None
      | Some pos \<Rightarrow> Some (take pos ls @ context_before h @ new_lines h
                          @ drop (pos + (length (context_before h) + length (old_lines h))) ls))"

fun apply_each :: "string list \<Rightarrow> nat \<Rightarrow> hunk list \<Rightarrow> nat + string list" where
  "apply_each ls n [] = Inr ls"
| "apply_each ls n (h # hs) =
     (case apply_hunk ls h of None \<Rightarrow> Inl (n + 1) | Some ls' \<Rightarrow> apply_each ls' (n + 1) hs)"

definition apply_hunks :: "string \<Rightarrow> hunk list \<Rightarrow> nat + string" where
  "apply_hunks content hunks =
     (case apply_each (str_lines content) 0 hunks of
        Inl n \<Rightarrow> Inl n
      | Inr ls \<Rightarrow>
          let result = join_with [newline] ls
          in Inr (if ends_with content [newline] \<and> \<not> ends_with result [newline] then result @ [newline] else result))"

section \<open>Application\<close>

datatype patch_failure =
    MkdirFailed string
  | WriteFailed string
  | PathRefused string sandbox_error
  | ReadFailed string
  | HunkFailed string nat
  | DeleteFailed string

record patch_result =
  files_added :: u32
  files_updated :: u32
  files_deleted :: u32
  files_moved :: u32
  patch_errors :: "patch_failure list"

definition no_result :: patch_result where
  "no_result = \<lparr>files_added = 0, files_updated = 0, files_deleted = 0, files_moved = 0, patch_errors = []\<rparr>"

definition result_is_ok :: "patch_result \<Rightarrow> bool" where
  "result_is_ok r = (patch_errors r = [])"

definition summary :: "patch_result \<Rightarrow> string" where
  "summary r =
     (let parts = (if files_added r > 0 then [show_word (files_added r) @ '' added''] else [])
        @ (if files_updated r > 0 then [show_word (files_updated r) @ '' updated''] else [])
        @ (if files_deleted r > 0 then [show_word (files_deleted r) @ '' deleted''] else [])
        @ (if files_moved r > 0 then [show_word (files_moved r) @ '' moved''] else [])
        @ (if patch_errors r \<noteq> [] then [show_nat (length (patch_errors r)) @ '' errors''] else [])
      in if parts = [] then ''No changes applied'' else join_with '', '' parts)"

definition failed :: "patch_failure \<Rightarrow> patch_result \<Rightarrow> patch_result" where
  "failed e r = r\<lparr>patch_errors := patch_errors r @ [e]\<rparr>"

definition apply_add :: "component list \<Rightarrow> string \<Rightarrow> string \<Rightarrow> fs \<Rightarrow> patch_result \<Rightarrow> fs \<times> patch_result" where
  "apply_add w path content fs r =
     (case resolve_sandbox_path fs path w of
        Inl e \<Rightarrow> (fs, failed (PathRefused path e) r)
      | Inr p \<Rightarrow>
          (case (if p = [] then Some fs else create_dir_all fs (butlast p)) of
             None \<Rightarrow> (fs, failed (MkdirFailed path) r)
           | Some fs1 \<Rightarrow>
               (case write_file fs1 p content of
                  None \<Rightarrow> (fs1, failed (WriteFailed path) r)
                | Some fs2 \<Rightarrow> (fs2, r\<lparr>files_added := files_added r + 1\<rparr>))))"

definition write_update ::
  "string \<Rightarrow> bool \<Rightarrow> path \<Rightarrow> path \<Rightarrow> string \<Rightarrow> fs \<Rightarrow> patch_result \<Rightarrow> fs \<times> patch_result" where
  "write_update path moves resolved target patched fs r =
     (let fs1 = (case (if target = [] then None else create_dir_all fs (butlast target)) of
            Some f \<Rightarrow> f | None \<Rightarrow> fs)
      in case write_file fs1 target patched of
           None \<Rightarrow> (fs1, failed (WriteFailed path) r)
         | Some fs2 \<Rightarrow>
             ((if moves \<and> target \<noteq> resolved
               then (case remove_file fs2 resolved of Some fs3 \<Rightarrow> fs3 | None \<Rightarrow> fs2) else fs2),
              r\<lparr>files_updated := files_updated r + 1\<rparr>))"

definition apply_update ::
  "component list \<Rightarrow> string \<Rightarrow> string option \<Rightarrow> hunk list \<Rightarrow> fs \<Rightarrow> patch_result \<Rightarrow> fs \<times> patch_result" where
  "apply_update w path move_to hunks fs r =
     (case resolve_sandbox_path fs path w of
        Inl e \<Rightarrow> (fs, failed (PathRefused path e) r)
      | Inr p \<Rightarrow>
          (case read_to_string fs p of
             None \<Rightarrow> (fs, failed (ReadFailed path) r)
           | Some original \<Rightarrow>
               (case apply_hunks original hunks of
                  Inl n \<Rightarrow> (fs, failed (HunkFailed path n) r)
                | Inr patched \<Rightarrow>
                    (case move_to of
                       None \<Rightarrow> write_update path False p p patched fs r
                     | Some new_path \<Rightarrow>
                         (case resolve_sandbox_path fs new_path w of
                            Inl e \<Rightarrow> (fs, failed (PathRefused new_path e) r)
                          | Inr t \<Rightarrow> write_update path True p t patched fs
                                       (r\<lparr>files_moved := files_moved r + 1\<rparr>))))))"

definition apply_delete :: "component list \<Rightarrow> string \<Rightarrow> fs \<Rightarrow> patch_result \<Rightarrow> fs \<times> patch_result" where
  "apply_delete w path fs r =
     (case resolve_sandbox_path fs path w of
        Inl e \<Rightarrow> (fs, failed (PathRefused path e) r)
      | Inr p \<Rightarrow>
          (case remove_file fs p of
             None \<Rightarrow> (fs, failed (DeleteFailed path) r)
           | Some fs1 \<Rightarrow> (fs1, r\<lparr>files_deleted := files_deleted r + 1\<rparr>)))"

fun apply_op :: "component list \<Rightarrow> fs \<times> patch_result \<Rightarrow> patch_op \<Rightarrow> fs \<times> patch_result" where
  "apply_op w (fs, r) (AddFile path content) = apply_add w path content fs r"
| "apply_op w (fs, r) (UpdateFile path move_to hunks) = apply_update w path move_to hunks fs r"
| "apply_op w (fs, r) (DeleteFile path) = apply_delete w path fs r"

definition apply_patch :: "patch_op list \<Rightarrow> component list \<Rightarrow> fs \<Rightarrow> fs \<times> patch_result" where
  "apply_patch ops w fs = foldl (apply_op w) (fs, no_result) ops"

section \<open>Lemmas on the application\<close>

lemma add_confined: "workspace_ok fs w R \<Longrightarrow> confined_step w R fs (fst (apply_add w path content fs r))"
  using sandbox_write [of fs w R path] create_dir_all_parent [of fs path w]
  by (auto simp: apply_add_def confined_refl split: sum.splits option.splits if_splits)

lemma delete_confined: "workspace_ok fs w R \<Longrightarrow> confined_step w R fs (fst (apply_delete w path fs r))"
  using sandbox_remove [of fs w R path]
  by (auto simp: apply_delete_def confined_refl split: sum.splits option.splits)

lemma write_update_confined:
  assumes "workspace_ok fs w R" "resolve_sandbox_path fs u w = Inr p" "resolve_sandbox_path fs v w = Inr t"
  shows "confined_step w R fs (fst (write_update path moves p t patched fs r))"
proof -
  have "(case (if t = [] then None else create_dir_all fs (butlast t)) of Some f \<Rightarrow> f | None \<Rightarrow> fs) = fs"
    using create_dir_all_parent [OF assms(3)] by simp
  then show ?thesis
    using assms sandbox_write [OF assms(1,3)] sandbox_move [OF assms]
    by (auto simp: write_update_def confined_refl Let_def split: option.splits)
qed

lemma update_confined: "workspace_ok fs w R \<Longrightarrow> confined_step w R fs (fst (apply_update w path move_to hunks fs r))"
  using write_update_confined [of fs w R path]
  by (auto simp: apply_update_def confined_refl split: sum.splits option.splits)

lemma op_confined: "workspace_ok fs w R \<Longrightarrow> confined_step w R fs (fst (apply_op w (fs, r) op))"
  by (cases op) (simp_all add: add_confined update_confined delete_confined)

lemma patch_confined:
  "workspace_ok fs w R \<Longrightarrow> confined_step w R fs (fst (foldl (apply_op w) (fs, r) ops))"
proof (induction ops arbitrary: fs r)
  case (Cons op ops)
  obtain fs1 r1 where 1: "apply_op w (fs, r) op = (fs1, r1)" by force
  then have "confined_step w R fs fs1" using op_confined [OF Cons.prems, of r op] by simp
  moreover from this have "workspace_ok fs1 w R" by (simp add: confined_step_def)
  ultimately show ?case using Cons.IH confined_trans 1 by simp
qed (simp add: confined_refl)

section \<open>Lemmas on the parser\<close>

lemma dropWhile_snoc_keep: "\<not> P c \<Longrightarrow> \<exists>ys. dropWhile P (xs @ c # zs) = ys @ c # zs"
  by (induction xs) auto

lemma trim_cons: "\<not> is_space c \<Longrightarrow> \<exists>r. trim (c # l) = c # r"
  using dropWhile_snoc_keep [of is_space c "rev l" "[]"] by (auto simp: trim_def) (metis rev_rev_ident)

lemma marker_line: "is_marker (''***'' @ l)"
proof -
  obtain ys where "dropWhile is_space (rev l @ CHR ''*'' # ''**'') = ys @ CHR ''*'' # ''**''"
    using dropWhile_snoc_keep [of is_space "CHR ''*''" "rev l" "''**''"] by (auto simp: is_space_def)
  then show ?thesis by (simp add: is_marker_def trim_def starts_with_def is_space_def)
qed

lemma not_marker_cons: "\<not> is_space c \<Longrightarrow> c \<noteq> CHR ''*'' \<Longrightarrow> \<not> is_marker (c # l)"
  using trim_cons [of c l] by (auto simp: is_marker_def starts_with_def)

lemma not_start_cons: "\<not> is_space c \<Longrightarrow> c \<noteq> CHR ''@'' \<Longrightarrow> \<not> is_hunk_start (c # l)"
  using trim_cons [of c l] by (auto simp: is_hunk_start_def starts_with_def)

lemma change_line: "c \<in> {CHR ''+'', CHR ''-''} \<Longrightarrow> \<not> is_marker (c # l) \<and> \<not> is_hunk_start (c # l)"
  using not_marker_cons [of c l] not_start_cons [of c l] by (auto simp: is_space_def)

lemma strip_one [simp]: "strip_prefix [c] (d # l) = (if c = d then Some l else None)"
  by (simp add: strip_prefix_def starts_with_def)

lemma add_file_lines_print:
  "rest = [] \<or> is_marker (hd rest) \<Longrightarrow> add_file_lines (map (\<lambda>l. CHR ''+'' # l) ls @ rest) acc = Inr (acc @ ls, rest)"
proof (induction ls arbitrary: acc)
  case Nil
  then show ?case by (cases rest) simp_all
qed (simp add: change_line)

section \<open>Printing\<close>

text \<open>A reference printer of the documented format.\<close>

definition print_hunk :: "hunk \<Rightarrow> string list" where
  "print_hunk h = ''@@'' # map (\<lambda>l. CHR '' '' # l) (context_before h) @ map (\<lambda>l. CHR ''-'' # l) (old_lines h)
     @ map (\<lambda>l. CHR ''+'' # l) (new_lines h) @ map (\<lambda>l. CHR '' '' # l) (context_after h)"

fun print_op :: "patch_op \<Rightarrow> string list" where
  "print_op (AddFile path content) =
     (''*** Add File: '' @ path) # map (\<lambda>l. CHR ''+'' # l) (split_on newline content)"
| "print_op (UpdateFile path move_to hunks) =
     (''*** Update File: '' @ path @ (case move_to of None \<Rightarrow> [] | Some t \<Rightarrow> '' -> '' @ t))
     # concat (map print_hunk hunks)"
| "print_op (DeleteFile path) = [''*** Delete File: '' @ path]"

definition print_patch :: "patch_op list \<Rightarrow> string" where
  "print_patch ops = join_with [newline] (''*** Begin Patch'' # concat (map print_op ops) @ [''*** End Patch''])"

text \<open>What the format can hold: trimmed paths, lines without line ends, context that is no marker.\<close>

definition good_path :: "string \<Rightarrow> bool" where
  "good_path p \<longleftrightarrow> p \<noteq> [] \<and> trim p = p \<and> newline \<notin> set p"

definition good_context :: "string \<Rightarrow> bool" where
  "good_context l \<longleftrightarrow> plain_line l \<and> \<not> is_marker (CHR '' '' # l) \<and> \<not> is_hunk_start (CHR '' '' # l)"

definition good_hunk :: "hunk \<Rightarrow> bool" where
  "good_hunk h \<longleftrightarrow> list_all good_context (context_before h @ context_after h)
     \<and> list_all plain_line (old_lines h @ new_lines h)
     \<and> (old_lines h @ new_lines h = [] \<longrightarrow> context_after h = [])"

fun good_op :: "patch_op \<Rightarrow> bool" where
  "good_op (AddFile path content) \<longleftrightarrow> good_path path \<and> list_all plain_line (split_on newline content)"
| "good_op (UpdateFile path move_to hunks) \<longleftrightarrow> good_path path \<and> \<not> str_contains path ''->''
     \<and> (case move_to of None \<Rightarrow> True | Some t \<Rightarrow> good_path t) \<and> hunks \<noteq> [] \<and> list_all good_hunk hunks"
| "good_op (DeleteFile path) \<longleftrightarrow> good_path path"

lemma hunk_body_before:
  "list_all good_context ls \<Longrightarrow>
    hunk_body (map (\<lambda>l. CHR '' '' # l) ls @ rest) (h, False, False)
      = hunk_body rest (h\<lparr>context_before := context_before h @ ls\<rparr>, False, False)"
  by (induction ls arbitrary: h) (simp_all add: good_context_def hunk_line_def hunk_context_def)

lemma hunk_body_after:
  "list_all good_context ls \<Longrightarrow> i \<or> p \<Longrightarrow>
    \<exists>i' p'. (i' \<or> p') \<and> hunk_body (map (\<lambda>l. CHR '' '' # l) ls @ rest) (h, i, p)
      = hunk_body rest (h\<lparr>context_after := context_after h @ ls\<rparr>, i', p')"
proof (induction ls arbitrary: h i p)
  case (Cons l ls)
  then have "hunk_body (map (\<lambda>l. CHR '' '' # l) (l # ls) @ rest) (h, i, p)
      = hunk_body (map (\<lambda>l. CHR '' '' # l) ls @ rest) (h\<lparr>context_after := context_after h @ [l]\<rparr>, False, True)"
    by (simp add: good_context_def hunk_line_def hunk_context_def)
  then show ?case using Cons.IH [of False True "h\<lparr>context_after := context_after h @ [l]\<rparr>"] Cons.prems(1) by simp
qed auto

lemma hunk_body_old:
  "hunk_body (map (\<lambda>l. CHR ''-'' # l) ls @ rest) (h, i, p)
    = hunk_body rest (h\<lparr>old_lines := old_lines h @ ls\<rparr>, if ls = [] then (i, p) else (True, False))"
  by (induction ls arbitrary: h i p) (simp_all add: change_line hunk_line_def)

lemma hunk_body_new:
  "hunk_body (map (\<lambda>l. CHR ''+'' # l) ls @ rest) (h, i, p)
    = hunk_body rest (h\<lparr>new_lines := new_lines h @ ls\<rparr>, if ls = [] then (i, p) else (True, False))"
  by (induction ls arbitrary: h i p) (simp_all add: change_line hunk_line_def)

definition hunk_stop :: "string list \<Rightarrow> bool" where
  "hunk_stop rest \<longleftrightarrow> rest = [] \<or> is_marker (hd rest) \<or> is_hunk_start (hd rest)"

lemma hunk_body_stop: "hunk_stop rest \<Longrightarrow> hunk_body rest s = (fst s, rest)"
  by (cases rest) (auto simp: hunk_stop_def)

lemma hunk_body_print:
  assumes "good_hunk h" "hunk_stop rest"
  shows "hunk_body (tl (print_hunk h) @ rest) (empty_hunk, False, False) = (h, rest)"
proof -
  let ?b = "list_all good_context (context_before h)" and ?a = "list_all good_context (context_after h)"
  have g: ?b ?a using assms(1) by (simp_all add: good_hunk_def)
  let ?h = "\<lparr>context_before = context_before h, old_lines = old_lines h, new_lines = new_lines h, context_after = []\<rparr>"
  let ?f = "if new_lines h = [] then if old_lines h = [] then (False, False) else (True, False) else (True, False)"
  have ip: "hunk_body (tl (print_hunk h) @ rest) (empty_hunk, False, False)
      = hunk_body (map (\<lambda>l. CHR '' '' # l) (context_after h) @ rest) (?h, ?f)"
    by (simp add: print_hunk_def hunk_body_before [OF g(1)] hunk_body_old hunk_body_new empty_hunk_def)
  show ?thesis
  proof (cases "context_after h = []")
    case True
    then show ?thesis using ip hunk_body_stop [OF assms(2)] by simp
  next
    case False
    then have "?f = (True, False)" using assms(1) by (auto simp: good_hunk_def)
    then show ?thesis
      using ip hunk_body_after [OF g(2), of True False rest ?h] hunk_body_stop [OF assms(2)] by auto
  qed
qed

lemma parse_hunks_print:
  "list_all good_hunk hs \<Longrightarrow> rest = [] \<or> is_marker (hd rest) \<Longrightarrow>
    parse_hunks (concat (map print_hunk hs) @ rest) acc = (acc @ hs, rest)"
proof (induction hs arbitrary: acc)
  case Nil
  then show ?case by (cases rest) auto
next
  case (Cons h hs)
  let ?rest = "concat (map print_hunk hs) @ rest"
  have "hunk_stop ?rest"
    using Cons.prems(2) by (cases hs) (auto simp: hunk_stop_def print_hunk_def is_hunk_start_def starts_with_def trim_def is_space_def)
  then have "hunk_body (tl (print_hunk h) @ ?rest) (empty_hunk, False, False) = (h, ?rest)"
    using Cons.prems(1) by (simp add: hunk_body_print)
  moreover have "print_hunk h = ''@@'' # tl (print_hunk h)" by (simp add: print_hunk_def)
  then have eq: "concat (map print_hunk (h # hs)) @ rest = ''@@'' # tl (print_hunk h) @ ?rest"
    by (metis append.assoc append_Cons concat.simps(2) list.simps(9))
  moreover have "\<not> is_marker ''@@''" "is_hunk_start ''@@''"
    by (simp_all add: is_marker_def is_hunk_start_def starts_with_def trim_def is_space_def)
  ultimately have "parse_hunks (''@@'' # tl (print_hunk h) @ ?rest) acc = parse_hunks ?rest (acc @ [h])" by simp
  then have "parse_hunks (concat (map print_hunk (h # hs)) @ rest) acc = parse_hunks ?rest (acc @ [h])"
    by (simp only: eq)
  then show ?case using Cons.IH [of "acc @ [h]"] Cons.prems by simp
qed

lemma good_path_pad: "good_path p \<Longrightarrow> trim (CHR '' '' # p) = p"
  by (simp add: good_path_def trim_pad)

lemma header_trim: "good_path p \<Longrightarrow> \<not> is_space c \<Longrightarrow> trim (c # h @ p) = c # h @ p"
  using trim_ends [of p] by (intro trim_id) (auto simp: good_path_def)

lemma parse_add:
  assumes "good_op (AddFile p content)" "rest = [] \<or> is_marker (hd rest)"
  shows "parse_ops (print_op (AddFile p content) @ rest) acc = parse_ops rest (acc @ [AddFile p content])"
proof -
  have p: "good_path p" using assms(1) by simp
  have "trim (''*** Add File: '' @ p) = ''*** Add File: '' @ p"
    using header_trim [OF p, of "CHR ''*''" "''** Add File: ''"] by (simp add: is_space_def)
  moreover have "strip_prefix ''*** Add File:'' (''*** Add File: '' @ p) = Some (CHR '' '' # p)"
    by (simp add: strip_prefix_def starts_with_def)
  ultimately show ?thesis
    using add_file_lines_print [OF assms(2), of "split_on newline content" "[]"] good_path_pad [OF p] p
    by (simp add: good_path_def join_split_on)
qed

lemma parse_delete:
  assumes "good_op (DeleteFile p)"
  shows "parse_ops (print_op (DeleteFile p) @ rest) acc = parse_ops rest (acc @ [DeleteFile p])"
proof -
  have p: "good_path p" using assms(1) by simp
  have "trim (''*** Delete File: '' @ p) = ''*** Delete File: '' @ p"
    using header_trim [OF p, of "CHR ''*''" "''** Delete File: ''"] by (simp add: is_space_def)
  moreover have "strip_prefix ''*** Delete File:'' (''*** Delete File: '' @ p) = Some (CHR '' '' # p)"
    "strip_prefix ''*** Add File:'' (''*** Delete File: '' @ p) = None"
    "strip_prefix ''*** Update File:'' (''*** Delete File: '' @ p) = None"
    by (simp_all add: strip_prefix_def starts_with_def)
  ultimately show ?thesis using good_path_pad [OF p] p by (simp add: good_path_def)
qed

lemma arrow_found: "\<not> str_contains p ''->'' \<Longrightarrow> str_find (p @ '' -> '' @ t) ''->'' = Some (Suc (length p))"
proof (induction p)
  case (Cons c p)
  have "starts_with ((c # p) @ '' -> '' @ t) ''->'' = starts_with (c # p) ''->''"
    by (cases p) (auto simp: starts_with_def)
  then show ?case using Cons by simp
qed (simp add: starts_with_def)

lemma update_paths_print:
  assumes "good_path p" "\<not> str_contains p ''->''" "\<And>t. m = Some t \<Longrightarrow> good_path t"
  shows "update_paths (p @ (case m of None \<Rightarrow> [] | Some t \<Rightarrow> '' -> '' @ t)) = (p, m)"
proof (cases m)
  case None
  then show ?thesis using assms(2) by (simp add: update_paths_def split_once_def flip: str_find_none)
next
  case (Some t)
  have "take (Suc (length p)) (p @ '' -> '' @ t) = p @ '' ''"
    "drop (Suc (Suc (Suc (length p)))) (p @ '' -> '' @ t) = CHR '' '' # t" by simp_all
  then show ?thesis
    using arrow_found [OF assms(2), of t] Some assms(1) assms(3) [OF Some]
    by (simp add: update_paths_def split_once_def good_path_pad) (simp add: good_path_def trim_pad)
qed

lemma parse_update:
  assumes "good_op (UpdateFile p m hs)" "rest = [] \<or> is_marker (hd rest)"
  shows "parse_ops (print_op (UpdateFile p m hs) @ rest) acc = parse_ops rest (acc @ [UpdateFile p m hs])"
proof -
  let ?r = "p @ (case m of None \<Rightarrow> [] | Some t \<Rightarrow> '' -> '' @ t)"
  have p: "good_path p" "\<not> str_contains p ''->''" and m: "\<And>t. m = Some t \<Longrightarrow> good_path t"
    and hs: "hs \<noteq> []" "list_all good_hunk hs"
    using assms(1) by auto
  have r: "trim ?r = ?r" "?r \<noteq> []"
    using p m trim_ends [of p] by (cases m; auto simp: good_path_def intro!: trim_id dest: trim_ends)+
  have "trim (''*** Update File: '' @ ?r) = ''*** Update File: '' @ ?r"
    using trim_ends [OF r] r(2) by (intro trim_id) (simp_all add: is_space_def)
  moreover have "strip_prefix ''*** Update File:'' (''*** Update File: '' @ ?r) = Some (CHR '' '' # ?r)"
    "strip_prefix ''*** Add File:'' (''*** Update File: '' @ ?r) = None"
    by (simp_all add: strip_prefix_def starts_with_def)
  ultimately show ?thesis
    using trim_pad(1) [OF r] update_paths_print [OF p m] parse_hunks_print [OF hs(2) assms(2), of "[]"] hs(1) p(1)
    by (simp add: good_path_def)
qed

lemma parse_op:
  assumes "good_op op" "rest = [] \<or> is_marker (hd rest)"
  shows "parse_ops (print_op op @ rest) acc = parse_ops rest (acc @ [op])"
  using assms parse_add parse_update parse_delete by (cases op) blast+

lemma print_op_marker: "\<exists>l ls. print_op op = l # ls \<and> is_marker l"
proof (cases op)
  case (AddFile p c)
  then show ?thesis using marker_line [of "'' Add File: '' @ p"] by simp
next
  case (UpdateFile p m hs)
  then show ?thesis
    using marker_line [of "'' Update File: '' @ p @ (case m of None \<Rightarrow> [] | Some t \<Rightarrow> '' -> '' @ t)"] by simp
next
  case (DeleteFile p)
  then show ?thesis using marker_line [of "'' Delete File: '' @ p"] by simp
qed

lemma parse_ops_print:
  "list_all good_op ops \<Longrightarrow> acc @ ops \<noteq> [] \<Longrightarrow> parse_ops (concat (map print_op ops)) acc = Inr (acc @ ops)"
proof (induction ops arbitrary: acc)
  case (Cons op ops)
  let ?rest = "concat (map print_op ops)"
  have "?rest = [] \<or> is_marker (hd ?rest)"
    using print_op_marker [of "hd ops"] by (cases ops) auto
  then show ?case using Cons.IH [of "acc @ [op]"] Cons.prems parse_op [of op ?rest acc] by simp
qed simp

lemma plain_header: "good_path p \<Longrightarrow> newline \<notin> set h \<Longrightarrow> plain_line (h @ p)"
  using trim_ends [of p] by (auto simp: good_path_def plain_line_def drop_cr_id is_space_def)

lemma plain_start: "plain_line ''@@''"
  by (simp add: plain_line_def drop_cr_id newline_def)

lemma plain_hunk: "good_hunk h \<Longrightarrow> list_all plain_line (print_hunk h)"
  using plain_start
  by (auto simp: good_hunk_def print_hunk_def list_all_iff good_context_def newline_def intro: plain_cons)

lemma plain_op: "good_op op \<Longrightarrow> list_all plain_line (print_op op)"
proof (cases op)
  case (AddFile p c)
  assume "good_op op"
  then have "plain_line (''*** Add File: '' @ p)" "list_all plain_line (split_on newline c)"
    using AddFile plain_header [of p "''*** Add File: ''"] by (simp_all add: newline_def)
  then show ?thesis using AddFile by (auto simp: list_all_iff newline_def intro: plain_cons)
next
  case (UpdateFile p m hs)
  assume g: "good_op op"
  have "plain_line (''*** Update File: '' @ p @ (case m of None \<Rightarrow> [] | Some t \<Rightarrow> '' -> '' @ t))"
  proof (cases m)
    case None
    then show ?thesis using g UpdateFile plain_header [of p "''*** Update File: ''"] by (simp add: newline_def)
  next
    case (Some t)
    then show ?thesis using g UpdateFile plain_header [of t "''*** Update File: '' @ p @ '' -> ''"]
      by (simp add: newline_def good_path_def)
  qed
  moreover have "list_all plain_line (concat (map print_hunk hs))"
    using g UpdateFile plain_hunk by (auto simp: list_all_iff)
  ultimately show ?thesis using UpdateFile by simp
next
  case (DeleteFile p)
  assume "good_op op"
  then show ?thesis using DeleteFile plain_header [of p "''*** Delete File: ''"] by (simp add: newline_def)
qed

lemma begin_trim: "trim ''*** Begin Patch'' = ''*** Begin Patch''"
  by (rule trim_id) (simp_all add: is_space_def)

lemma end_trim: "trim ''*** End Patch'' = ''*** End Patch''"
  by (rule trim_id) (simp_all add: is_space_def)

lemma print_patch_lines:
  assumes "list_all good_op ops"
  shows "str_lines (print_patch ops) = ''*** Begin Patch'' # concat (map print_op ops) @ [''*** End Patch'']"
  unfolding print_patch_def
proof (rule str_lines_join)
  have "plain_line ''*** Begin Patch''" "plain_line ''*** End Patch''"
    by (simp_all add: plain_line_def drop_cr_id newline_def)
  then show "\<forall>l\<in>set (''*** Begin Patch'' # concat (map print_op ops) @ [''*** End Patch'']). plain_line l"
    using assms plain_op by (auto simp: list_all_iff)
qed simp

lemma parse_print:
  assumes "list_all good_op ops" "ops \<noteq> []"
  shows "parse_patch (print_patch ops) = Inr ops"
proof -
  let ?body = "concat (map print_op ops)"
  let ?L = "''*** Begin Patch'' # ?body @ [''*** End Patch'']"
  have "list_position (\<lambda>l. trim l = ''*** Begin Patch'') ?L = Some 0"
    by (simp add: list_position_def upt_conv_Cons begin_trim del: upt_Suc)
  moreover have "list_rposition (\<lambda>l. trim l = ''*** End Patch'') ?L = Some (length ?body + 1)"
    by (simp add: list_rposition_def end_trim nth_append)
  moreover have "take (length ?body + 1 - (0 + 1)) (drop (0 + 1) ?L) = ?body" by simp
  ultimately show ?thesis
    using print_patch_lines [OF assms(1)] parse_ops_print [OF assms(1), of "[]"] assms(2)
    by (simp add: parse_patch_def Let_def)
qed

section \<open>Where a hunk applies\<close>

definition matches_at :: "(string \<Rightarrow> string \<Rightarrow> bool) \<Rightarrow> string list \<Rightarrow> string list \<Rightarrow> nat \<Rightarrow> bool" where
  "matches_at same ls a k \<longleftrightarrow> k + length a \<le> length ls \<and> list_all2 same (take (length a) (drop k ls)) a"

definition first_match :: "(string \<Rightarrow> string \<Rightarrow> bool) \<Rightarrow> string list \<Rightarrow> string list \<Rightarrow> nat \<Rightarrow> bool" where
  "first_match same ls a k \<longleftrightarrow> matches_at same ls a k \<and> (\<forall>i<k. \<not> matches_at same ls a i)"

definition replace_at :: "string list \<Rightarrow> hunk \<Rightarrow> nat \<Rightarrow> string list" where
  "replace_at ls h k = take k ls @ context_before h @ new_lines h @ drop (k + length (hunk_anchor h)) ls"

lemma find_upt_Some: "find P [0..<n] = Some k \<longleftrightarrow> k < n \<and> P k \<and> (\<forall>i<k. \<not> P i)"
  by (auto simp: find_Some_iff)

lemma find_upt_None: "find P [0..<n] = None \<longleftrightarrow> (\<forall>i<n. \<not> P i)"
  by (auto simp: find_None_iff)

lemma find_anchor_by_Some:
  assumes "a \<noteq> []"
  shows "find_anchor_by same ls a = Some k \<longleftrightarrow> first_match same ls a k"
proof (cases "length a \<le> length ls")
  case True
  then have "find_anchor_by same ls a = Some k \<longleftrightarrow> k < length ls - length a + 1
      \<and> list_all2 same (take (length a) (drop k ls)) a \<and> (\<forall>i<k. \<not> list_all2 same (take (length a) (drop i ls)) a)"
    using assms by (simp add: find_anchor_by_def find_upt_Some del: upt_Suc)
  then show ?thesis using True by (auto simp: first_match_def matches_at_def)
next
  case False
  then show ?thesis using assms by (auto simp: find_anchor_by_def first_match_def matches_at_def)
qed

lemma find_anchor_by_None:
  assumes "a \<noteq> []"
  shows "find_anchor_by same ls a = None \<longleftrightarrow> (\<forall>k. \<not> matches_at same ls a k)"
proof (cases "length a \<le> length ls")
  case True
  then have "find_anchor_by same ls a = None \<longleftrightarrow>
      (\<forall>i<length ls - length a + 1. \<not> list_all2 same (take (length a) (drop i ls)) a)"
    using assms by (simp add: find_anchor_by_def find_upt_None del: upt_Suc)
  then show ?thesis using True by (auto simp: matches_at_def less_Suc_eq_le)
next
  case False
  then show ?thesis using assms by (auto simp: find_anchor_by_def matches_at_def)
qed

lemma apply_hunk_eq:
  assumes "hunk_anchor h \<noteq> []"
  shows "apply_hunk ls h = map_option (replace_at ls h)
    (or_else (find_anchor_by (=) ls (hunk_anchor h)) (find_anchor_by same_trimmed ls (hunk_anchor h)))"
  using assms
  by (auto simp: apply_hunk_def find_anchor_def find_anchor_fuzzy_def replace_at_def hunk_anchor_def split: option.split)

section \<open>Properties\<close>

text \<open>
  C28: printed patches are read back. Whatever list of operations is written in the documented
  format, the parser returns it, provided that there is an operation, paths are trimmed and not empty,
  lines hold no line ends, no line of context reads as a marker or the start of a hunk, and an update
  has hunks, each with a change or only leading context, and no arrow in its path.
\<close>

theorem patch_roundtrip:
  assumes "list_all good_op ops" "ops \<noteq> []"
  shows "parse_patch (print_patch ops) = Inr ops"
  by (rule parse_print [OF assms])

definition sample_hunk :: hunk where
  "sample_hunk = \<lparr>context_before = [''fn a() {''], old_lines = [''  1''], new_lines = [''  2''], context_after = [''}'']\<rparr>"

theorem patch_roundtrip_witness:
  "parse_patch (print_patch [AddFile ''n.rs'' ''x'', UpdateFile ''a.rs'' (Some ''b.rs'') [sample_hunk]])
    = Inr [AddFile ''n.rs'' ''x'', UpdateFile ''a.rs'' (Some ''b.rs'') [sample_hunk]]"
  by (rule patch_roundtrip)
     (simp_all add: good_path_def good_hunk_def good_context_def plain_line_def drop_cr_id newline_def sample_hunk_def
        trim_def is_space_def is_marker_def is_hunk_start_def starts_with_def)

text \<open>
  C27: a patch stays in the workspace. Whatever operations it holds, applying a patch changes no file
  outside the root, provided that the root is a directory and no link in it that cannot be
  resolved would open a file outside.
\<close>

theorem patch_stays_in_workspace:
  assumes "canonicalize fs w = Some R" "dir_chain fs R" "links_confined fs R" "\<not> prefix R p"
  shows "fst (apply_patch ops w fs) p = fs p"
proof -
  have "workspace_ok fs w R" using assms by (simp add: workspace_ok_def)
  from patch_confined [OF this] show ?thesis using assms(4) by (simp add: apply_patch_def confined_step_def)
qed

definition sample_fs :: fs where
  "sample_fs = [[''etc''] \<mapsto> DirNode, [''w''] \<mapsto> DirNode, [''w'', ''a''] \<mapsto> FileNode ''1'']"

theorem patch_stays_in_workspace_witness:
  "fst (apply_patch [AddFile ''/etc/new'' ''x'', AddFile ''b'' ''x'', DeleteFile ''a''] [RootDir, Normal ''w''] sample_fs) [''etc'', ''new''] = None"
proof -
  have "canonicalize sample_fs [RootDir, Normal ''w''] = Some [''w'']"
    by (simp add: canonicalize_def sample_fs_def)
  moreover have "dir_chain sample_fs [''w'']" using dir_chain_snoc [of sample_fs "[]" "''w''"] by (simp add: sample_fs_def)
  moreover have "links_confined sample_fs [''w'']" by (rule no_links_confined) (simp add: sample_fs_def)
  moreover have "\<not> prefix [''w''] [''etc'', ''new'']" by simp
  ultimately have "fst (apply_patch [AddFile ''/etc/new'' ''x'', AddFile ''b'' ''x'', DeleteFile ''a''] [RootDir, Normal ''w''] sample_fs) [''etc'', ''new'']
      = sample_fs [''etc'', ''new'']" by (rule patch_stays_in_workspace)
  then show ?thesis by (simp add: sample_fs_def)
qed

text \<open>
  A dangling link leads out. A link in the workspace to a file outside that does not exist passes
  the sandbox, since only its directory is resolved, and writing through it makes the file.
\<close>

theorem dangling_link_leads_out:
  "fst (apply_patch [AddFile ''out'' ''x''] [RootDir, Normal ''w''] (sample_fs([''w'', ''out''] \<mapsto> LinkNode ''/etc/new''))) [''etc'', ''new'']
    = Some (FileNode ''x'')"
  by (simp add: apply_patch_def apply_add_def resolve_sandbox_path_def components_def part_component_def starts_with_def
      canonicalize_def sample_fs_def join_components_def is_absolute_def resolve_candidate_def path_parent_def path_file_name_def
      create_dir_all.simps mkdir_def write_file_def open_target_def is_dir_def SYMLINK_LIMIT_def)

text \<open>
  No directory is made. When the directory of a new file does not exist, the sandbox refuses the
  path, so the directories that \<open>apply_patch\<close> means to create for it never are.
\<close>

theorem missing_parent_refused:
  assumes "canonicalize fs w = Some R" "join_components w (components path) = cs @ [Normal x]"
    and "ParentDir \<notin> set (components path)" "canonicalize fs cs = None"
  shows "apply_op w (fs, r) (AddFile path content) = (fs, failed (PathRefused path ParentUnresolved) r)"
proof -
  have "canonicalize fs (cs @ [Normal x]) = None"
    using walk_prefix [of fs SYMLINK_LIMIT "[]" cs "[Normal x]"] assms(4)
    by (cases "canonicalize fs (cs @ [Normal x])") (simp_all add: canonicalize_def)
  then show ?thesis using assms
    by (simp add: apply_add_def resolve_sandbox_path_def resolve_candidate_def path_parent_def path_file_name_def)
qed

text \<open>
  Where a hunk goes. A hunk with an anchor, its leading context and old lines, replaces the first
  place that holds exactly those lines; if there is none, the first that does up to trailing
  white space; if there is none, it fails.
\<close>

theorem hunk_replaces_first_match:
  assumes "hunk_anchor h \<noteq> []"
  shows "apply_hunk ls h = Some ls' \<longleftrightarrow> (\<exists>k. ls' = replace_at ls h k \<and>
    (first_match (=) ls (hunk_anchor h) k
     \<or> (\<forall>i. \<not> matches_at (=) ls (hunk_anchor h) i) \<and> first_match same_trimmed ls (hunk_anchor h) k))"
proof (cases "find_anchor_by (=) ls (hunk_anchor h)")
  case None
  then have none: "\<forall>i. \<not> matches_at (=) ls (hunk_anchor h) i"
    using find_anchor_by_None [OF assms, of "(=)" ls] by simp
  have "apply_hunk ls h = Some ls' \<longleftrightarrow>
      (\<exists>k. find_anchor_by same_trimmed ls (hunk_anchor h) = Some k \<and> ls' = replace_at ls h k)"
    using None assms by (auto simp: apply_hunk_eq)
  moreover have "\<not> first_match (=) ls (hunk_anchor h) k" for k using none by (simp add: first_match_def)
  ultimately show ?thesis using none find_anchor_by_Some [OF assms, of same_trimmed ls] by metis
next
  case (Some k)
  then have "first_match (=) ls (hunk_anchor h) k" using assms by (simp add: find_anchor_by_Some)
  moreover have "first_match (=) ls (hunk_anchor h) i \<Longrightarrow> i = k" for i
    using calculation by (metis first_match_def linorder_neqE_nat)
  moreover have "\<not> (\<forall>i. \<not> matches_at (=) ls (hunk_anchor h) i)" using calculation(1) by (auto simp: first_match_def)
  moreover have "apply_hunk ls h = Some (replace_at ls h k)" using Some assms by (simp add: apply_hunk_eq)
  ultimately show ?thesis by (metis option.inject)
qed

theorem hunk_replaces_first_match_witness:
  "apply_hunk [''a'', ''b '', ''c''] \<lparr>context_before = [''a''], old_lines = [''b''], new_lines = [''d''], context_after = []\<rparr>
    = Some [''a'', ''d'', ''c'']"
proof -
  let ?h = "\<lparr>context_before = [''a''], old_lines = [''b''], new_lines = [''d''], context_after = []\<rparr>"
  have "\<not> matches_at (=) [''a'', ''b '', ''c''] (hunk_anchor ?h) i" for i
    by (cases i; cases "i - 1") (auto simp: matches_at_def hunk_anchor_def)
  moreover have "first_match same_trimmed [''a'', ''b '', ''c''] (hunk_anchor ?h) 0"
    by (simp add: first_match_def matches_at_def hunk_anchor_def same_trimmed_def trim_end_def is_space_def)
  ultimately show ?thesis
    using hunk_replaces_first_match [of ?h "[''a'', ''b '', ''c'']" "[''a'', ''d'', ''c'']"]
    by (auto simp: hunk_anchor_def replace_at_def)
qed

text \<open>
  Two changes do not fit in one hunk. The lines after the first change of a hunk are remembered
  as trailing context, but later old lines still join the old lines, so a hunk with an unchanged
  line between two removed ones looks for the two next to each other and fails on its own file.
\<close>

theorem two_changes_in_one_hunk_fail:
  assumes "good_context b" "trim_end a \<noteq> trim_end b" "trim_end b \<noteq> trim_end c"
  shows "apply_hunk [a, b, c] (fst (hunk_body [CHR ''-'' # a, CHR '' '' # b, CHR ''-'' # c] (empty_hunk, False, False))) = None"
proof -
  have h: "fst (hunk_body [CHR ''-'' # a, CHR '' '' # b, CHR ''-'' # c] (empty_hunk, False, False))
      = \<lparr>context_before = [], old_lines = [a, c], new_lines = [], context_after = [b]\<rparr>"
    using assms(1) by (simp add: change_line good_context_def hunk_line_def hunk_context_def empty_hunk_def)
  have no: "\<not> matches_at (=) [a, b, c] [a, c] k" "\<not> matches_at same_trimmed [a, b, c] [a, c] k" for k
    using assms(2,3) by (cases k; cases "k - 1"; auto simp: matches_at_def same_trimmed_def)+
  then show ?thesis unfolding h by (subst apply_hunk_eq) (simp_all add: hunk_anchor_def find_anchor_by_None)
qed

text \<open>A line of context that starts with three stars, as a rule of a Markdown file, ends the hunk.\<close>

theorem starred_context_refused:
  "parse_patch (print_patch [UpdateFile ''a.md'' None [sample_hunk\<lparr>context_before := [''***'']\<rparr>]])
    = Inl (UnexpectedLine ''***'')"
  by code_simp

theorem missing_parent_refused_witness:
  "apply_op [RootDir, Normal ''w''] (sample_fs, no_result) (AddFile ''new/f'' ''x'')
    = (sample_fs, failed (PathRefused ''new/f'' ParentUnresolved) no_result)"
  by (rule missing_parent_refused [of _ _ "[''w'']" _ "[RootDir, Normal ''w'', Normal ''new'']" "''f''"])
     (simp_all add: canonicalize_def sample_fs_def components_def part_component_def starts_with_def
        join_components_def is_absolute_def)

theorem two_changes_in_one_hunk_fail_witness:
  "apply_hunk [''a'', ''b'', ''c''] (fst (hunk_body [''-a'', '' b'', ''-c''] (empty_hunk, False, False))) = None"
  by (rule two_changes_in_one_hunk_fail)
     (simp_all add: good_context_def plain_line_def drop_cr_id newline_def trim_def trim_end_def is_space_def
        is_marker_def is_hunk_start_def starts_with_def)

end
