(* ===== verification/ShellPolicy.thy ===== *)
theory ShellPolicy
  imports Agents Workspace
begin

text \<open>
  What an agent may run as a process: \<open>openfang-runtime/src/subprocess_sandbox.rs\<close>, the
  environment of a child, the shell metacharacters and the allow list of commands. A slice out of
  range panics; a function that can is \<open>None\<close> there. The Windows variables and the killing of
  process trees are left out.
\<close>

section \<open>The environment of a child\<close>

definition SAFE_ENV_VARS :: "string list" where
  "SAFE_ENV_VARS = [''PATH'', ''HOME'', ''TMPDIR'', ''TMP'', ''TEMP'', ''LANG'', ''LC_ALL'', ''TERM'']"

type_synonym environment = "(string, string) dashmap"

definition pass_var :: "environment \<Rightarrow> string \<Rightarrow> environment \<Rightarrow> environment" where
  "pass_var parent var child =
     (case dm_get parent var of Some val \<Rightarrow> dm_insert var val child | None \<Rightarrow> child)"

definition sandbox_command :: "environment \<Rightarrow> string list \<Rightarrow> environment" where
  "sandbox_command parent allowed =
     (let safe = fold (pass_var parent) SAFE_ENV_VARS []
      in if list_ex (\<lambda>v. v = ''*'') allowed then fold (\<lambda>(k, v). dm_insert k v) parent safe
         else fold (pass_var parent) allowed safe)"

definition merge_env_passthrough :: "string list \<Rightarrow> string list \<Rightarrow> string list" where
  "merge_env_passthrough a b =
     (if list_ex (\<lambda>v. v = ''*'') a \<or> list_ex (\<lambda>v. v = ''*'') b then [''*'']
      else fold (\<lambda>v out. if v \<in> set out then out else out @ [v]) (a @ b) [])"

definition validate_executable_path :: "string \<Rightarrow> string + unit" where
  "validate_executable_path p = (if ParentDir \<in> set (components p) then Inl p else Inr ())"

section \<open>Metacharacters\<close>

datatype metacharacter =
    Backtick | DollarParen | DollarBrace | Semicolon | Pipe | Redirection | Braces
  | EmbeddedNewline | NullByte | Ampersand

definition contains_shell_metacharacters :: "string \<Rightarrow> metacharacter option" where
  "contains_shell_metacharacters command =
     (if CHR 0x60 \<in> set command then Some Backtick
      else if str_contains command ''$('' then Some DollarParen
      else if str_contains command ''${'' then Some DollarBrace
      else if CHR '';'' \<in> set command then Some Semicolon
      else if CHR ''|'' \<in> set command then Some Pipe
      else if CHR ''>'' \<in> set command \<or> CHR ''<'' \<in> set command then Some Redirection
      else if CHR ''{'' \<in> set command \<or> CHR ''}'' \<in> set command then Some Braces
      else if newline \<in> set command \<or> CHR 0x0D \<in> set command then Some EmbeddedNewline
      else if CHR 0x00 \<in> set command then Some NullByte
      else if CHR ''&'' \<in> set command then Some Ampersand
      else None)"

section \<open>Base commands\<close>

definition extract_base_command :: "string \<Rightarrow> string" where
  "extract_base_command cmd =
     (let first_word = (case split_whitespace (trim cmd) of w # _ \<Rightarrow> w | [] \<Rightarrow> [])
      in last (split_on (CHR 0x5C) (last (split_on (CHR ''/'') first_word))))"

definition separators :: "string list" where
  "separators = [''&&'', ''||'', ''|'', '';'']"

fun earliest :: "string \<Rightarrow> string list \<Rightarrow> nat \<times> nat \<Rightarrow> nat \<times> nat" where
  "earliest rest [] best = best"
| "earliest rest (sep # seps) best =
     (case str_find rest sep of
        Some pos \<Rightarrow> earliest rest seps (if pos < fst best then (pos, length sep) else best)
      | None \<Rightarrow> earliest rest seps best)"

lemma earliest_length:
  "l \<noteq> 0 \<or> p = length rest \<Longrightarrow> [] \<notin> set seps \<Longrightarrow> earliest rest seps (p, l) = (q, m) \<Longrightarrow> m \<noteq> 0 \<or> q = length rest"
proof (induction seps arbitrary: p l)
  case (Cons sep seps)
  show ?case
  proof (cases "str_find rest sep")
    case None
    then show ?thesis using Cons.IH [of l p] Cons.prems by simp
  next
    case (Some pos)
    have "length sep \<noteq> 0" using Cons.prems(2) by auto
    then show ?thesis
      using Cons.IH [of "length sep" pos] Cons.IH [of l p] Cons.prems Some by (simp split: if_splits)
  qed
qed simp

text \<open>The two loops that cut a command line at its separators differ only in what they return.\<close>

function split_commands :: "string \<Rightarrow> string list" where
  "split_commands rest =
     (if rest = [] then []
      else
        let (pos, len) = earliest rest separators (length rest, 0);
            base = extract_base_command (take pos rest);
            here = (if base \<noteq> [] then [base] else [])
        in if pos + len \<ge> length rest then here
           else here @ split_commands (drop (pos + len) rest))"
  by pat_completeness auto
termination
proof (relation "measure length")
  fix rest :: string and x pos len
  assume r: "rest \<noteq> []" "x = earliest rest separators (length rest, 0)" "(pos, len) = x" "\<not> length rest \<le> pos + len"
  have "len \<noteq> 0 \<or> pos = length rest"
    using earliest_length [of 0 "length rest" rest separators pos len] r by (simp add: separators_def)
  then show "(drop (pos + len) rest, rest) \<in> measure length" using r(1,4) by auto
qed (auto)

declare split_commands.simps [simp del]

definition extract_inner_script_commands :: "string \<Rightarrow> string list" where
  "extract_inner_script_commands = split_commands"

definition extract_all_commands :: "string \<Rightarrow> string list" where
  "extract_all_commands = split_commands"

section \<open>Shell wrappers\<close>

definition SHELL_WRAPPERS :: "string list" where
  "SHELL_WRAPPERS = [''powershell'', ''pwsh'', ''cmd'', ''bash'', ''sh'', ''zsh'']"

definition SHELL_INLINE_FLAGS :: "(string list \<times> string) list" where
  "SHELL_INLINE_FLAGS =
     [([''powershell'', ''pwsh''], ''-Command''), ([''powershell'', ''pwsh''], ''-command''),
      ([''powershell'', ''pwsh''], ''-c''), ([''cmd''], ''/c''), ([''cmd''], ''/C''),
      ([''bash'', ''sh'', ''zsh''], ''-c''), ([''bash'', ''sh'', ''zsh''], ''--command'')]"

text \<open>The arguments after the first one that is the flag and not the last argument.\<close>

fun after_flag :: "string \<Rightarrow> string list \<Rightarrow> string list option" where
  "after_flag flag [] = None"
| "after_flag flag (arg # args) =
     (if to_lowercase arg = to_lowercase flag \<and> args \<noteq> [] then Some args else after_flag flag args)"

fun inline_args :: "(string list \<times> string) list \<Rightarrow> string \<Rightarrow> string list \<Rightarrow> string list option" where
  "inline_args [] base args = None"
| "inline_args ((wrappers, flag) # flags) base args =
     (if base \<notin> set wrappers then inline_args flags base args
      else case after_flag flag args of Some script \<Rightarrow> Some script | None \<Rightarrow> inline_args flags base args)"

definition strip_quotes :: "string \<Rightarrow> string option" where
  "strip_quotes script =
     (if (starts_with script [CHR 0x22] \<and> ends_with script [CHR 0x22])
         \<or> (starts_with script [CHR 0x27] \<and> ends_with script [CHR 0x27])
      then if length script < 2 then None else Some (butlast (tl script))
      else Some script)"

definition normalized_base :: "string \<Rightarrow> string" where
  "normalized_base command =
     (let base_lower = to_lowercase (extract_base_command (trim command))
      in case strip_suffix ''.exe'' base_lower of Some b \<Rightarrow> b | None \<Rightarrow> base_lower)"

definition extract_shell_wrapper_commands :: "string \<Rightarrow> string list option" where
  "extract_shell_wrapper_commands command =
     (let base = normalized_base command
      in if base \<notin> set SHELL_WRAPPERS then Some []
         else case inline_args SHELL_INLINE_FLAGS base (drop 1 (split_whitespace (trim command))) of
           None \<Rightarrow> Some []
         | Some args \<Rightarrow> map_option extract_inner_script_commands (strip_quotes (trim (join_with '' '' args))))"

section \<open>The allow list\<close>

datatype exec_error =
    ExecDisabled
  | MetacharacterBlocked metacharacter
  | NotAllowlisted string
  | WrappedNotAllowlisted string

definition listed :: "exec_policy \<Rightarrow> string \<Rightarrow> bool" where
  "listed p base \<longleftrightarrow> base \<in> set (safe_bins p) \<or> base \<in> set (allowed_commands p)"

definition validate_command_allowlist :: "string \<Rightarrow> exec_policy \<Rightarrow> (exec_error + unit) option" where
  "validate_command_allowlist command policy =
     (case exec_mode policy of
        ExecDeny \<Rightarrow> Some (Inl ExecDisabled)
      | ExecFull \<Rightarrow> Some (Inr ())
      | ExecAllowlist \<Rightarrow>
          map_option (\<lambda>inner_commands.
            case (if inner_commands = [] then contains_shell_metacharacters command else None) of
              Some reason \<Rightarrow> Inl (MetacharacterBlocked reason)
            | None \<Rightarrow>
                (case find (\<lambda>b. \<not> listed policy b) (extract_all_commands command) of
                   Some b \<Rightarrow> Inl (NotAllowlisted b)
                 | None \<Rightarrow>
                     (case find (\<lambda>b. \<not> listed policy b) inner_commands of
                        Some b \<Rightarrow> Inl (WrappedNotAllowlisted b)
                      | None \<Rightarrow> Inr ())))
            (extract_shell_wrapper_commands command))"

section \<open>Lemmas\<close>

lemma star_in: "list_ex (\<lambda>v. v = ''*'') xs \<longleftrightarrow> ''*'' \<in> set xs"
  by (auto simp: list_ex_iff)

lemma fold_pass_var: "dm_get (fold (pass_var parent) vs child) v
    = (if v \<in> set vs \<and> dm_get parent v \<noteq> None then dm_get parent v else dm_get child v)"
  by (induction vs arbitrary: child) (auto simp: pass_var_def split: option.splits)

lemma fold_insert_all: "dm_wf parent \<Longrightarrow>
    dm_get (fold (\<lambda>(k, v). dm_insert k v) parent child) v = (case dm_get parent v of Some x \<Rightarrow> Some x | None \<Rightarrow> dm_get child v)"
proof (induction parent arbitrary: child)
  case (Cons kv parent)
  obtain k x where kv: "kv = (k, x)" by force
  have "dm_get parent k = None" "dm_wf parent"
    using Cons.prems kv by (auto simp: dm_wf_def dm_get_def map_of_eq_None_iff)
  moreover have "dm_get (kv # parent) v = (if v = k then Some x else dm_get parent v)" using kv by (simp add: dm_get_def)
  ultimately show ?case using Cons.IH kv by (auto split: option.split)
qed simp

lemma sandbox_env:
  assumes "dm_wf parent"
  shows "dm_get (sandbox_command parent allowed) v
    = (if v \<in> set SAFE_ENV_VARS \<or> v \<in> set allowed \<or> ''*'' \<in> set allowed then dm_get parent v else None)"
  using assms
  by (auto simp: sandbox_command_def star_in Let_def fold_pass_var fold_insert_all split: option.split)

lemma fold_dedup: "set (fold (\<lambda>v out. if v \<in> set out then out else out @ [v]) vs out) = set out \<union> set vs"
  by (induction vs arbitrary: out) auto

lemma merge_env_set: "set (merge_env_passthrough a b) = (if ''*'' \<in> set a \<union> set b then {''*''} else set a \<union> set b)"
  by (auto simp: merge_env_passthrough_def star_in fold_dedup)

lemma no_metacharacters:
  "contains_shell_metacharacters c = None \<longleftrightarrow>
    set c \<inter> {CHR 0x60, CHR '';'', CHR ''|'', CHR ''>'', CHR ''<'', CHR ''{'', CHR ''}'', newline, CHR 0x0D, CHR 0x00, CHR ''&''} = {}
    \<and> \<not> str_contains c ''$(''"
proof -
  have "str_contains c ''${'' \<Longrightarrow> CHR ''{'' \<in> set c" by (auto simp: str_contains_iff)
  then show ?thesis by (auto simp: contains_shell_metacharacters_def)
qed

lemma str_find_char: "str_find s p = Some k \<Longrightarrow> set p \<subseteq> set s"
  by (metis Un_upper1 Un_upper2 le_supI2 set_append str_find_Some order_trans)

lemma earliest_absent:
  "\<forall>sep\<in>set seps. str_find rest sep = None \<Longrightarrow> earliest rest seps best = best"
  by (induction seps) auto

lemma split_single:
  assumes "set c \<inter> {CHR '';'', CHR ''|'', CHR ''&''} = {}"
  shows "split_commands c = (if extract_base_command c = [] then [] else [extract_base_command c])"
proof (cases "c = []")
  case True
  then show ?thesis by (simp add: split_commands.simps extract_base_command_def split_whitespace_def trim_def)
next
  case False
  have "\<forall>sep\<in>set separators. str_find c sep = None"
    using assms str_find_char [of c] by (fastforce simp: separators_def)
  then show ?thesis using False by (subst split_commands.simps) (simp add: earliest_absent)
qed

lemma find_unlisted: "find (\<lambda>b. \<not> listed p b) bs = None \<longleftrightarrow> list_all (listed p) bs"
  by (auto simp: find_None_iff list_all_iff)

lemma validate_iff:
  assumes "exec_mode p = ExecAllowlist"
  shows "validate_command_allowlist c p = Some (Inr ()) \<longleftrightarrow>
    (\<exists>inner. extract_shell_wrapper_commands c = Some inner
      \<and> (if inner = [] then contains_shell_metacharacters c = None else list_all (listed p) inner)
      \<and> list_all (listed p) (extract_all_commands c))"
proof (cases "extract_shell_wrapper_commands c")
  case (Some inner)
  then have "validate_command_allowlist c p = Some (Inr ()) \<longleftrightarrow>
      (if inner = [] then contains_shell_metacharacters c else None) = None
      \<and> find (\<lambda>b. \<not> listed p b) (extract_all_commands c) = None \<and> find (\<lambda>b. \<not> listed p b) inner = None"
    using assms by (auto simp: validate_command_allowlist_def split: option.splits)
  then show ?thesis using Some unfolding find_unlisted by auto
qed (simp add: validate_command_allowlist_def assms)

text \<open>What evaluates the parts of a literal command line.\<close>

lemmas line_defs = extract_base_command_def split_whitespace_def trim_def is_space_def to_lowercase_def
  char_to_lower_def strip_suffix_def ends_with_def starts_with_def Let_def

text \<open>Words of letters, digits, slashes and dots.\<close>

lemma last_split_on: "last (split_on c (x @ c # y)) = last (split_on c y)"
proof (induction x)
  case (Cons a x)
  have "split_on c (x @ c # y) \<noteq> []" "length (split_on c (x @ c # y)) \<ge> 2"
    using split_on_nonempty split_on_two [of c "x @ c # y"] by auto
  then show ?case using Cons by (cases "split_on c (x @ c # y)") (auto split: list.split)
qed (simp add: split_on_nonempty)

lemma split_alnum: "list_all is_alnum b \<Longrightarrow> \<not> is_alnum c \<Longrightarrow> split_on c b = [b]"
  by (rule split_on_unused) (auto simp: list_all_iff)

lemma split_ws_word: "\<forall>c\<in>set s. \<not> is_space c \<Longrightarrow> split_ws s acc = (if s = [] \<and> acc = [] then [] else [rev acc @ s])"
  by (induction s arbitrary: acc) auto

lemma alnum_plain: "is_alnum c \<Longrightarrow> \<not> is_space c"
  by (auto simp: is_alnum_def is_digit_def is_space_def Let_def)

lemma plain_word:
  assumes "list_all (\<lambda>c. is_alnum c \<or> c = CHR ''/'' \<or> c = CHR ''.'') s"
  shows "trim s = s" "s \<noteq> [] \<Longrightarrow> split_whitespace s = [s]"
proof -
  have sp: "\<forall>c\<in>set s. \<not> is_space c" using assms alnum_plain by (auto simp: list_all_iff is_space_def)
  then show "s \<noteq> [] \<Longrightarrow> split_whitespace s = [s]" by (simp add: split_whitespace_def split_ws_word)
  show "trim s = s" using sp by (cases "s = []") (simp_all add: trim_id, simp add: trim_def)
qed

lemma plain_no_metacharacters:
  assumes "list_all (\<lambda>c. is_alnum c \<or> c = CHR ''/'' \<or> c = CHR ''.'') s"
  shows "contains_shell_metacharacters s = None"
proof -
  have no: "c \<notin> set s" if "\<not> is_alnum c" "c \<noteq> CHR ''/''" "c \<noteq> CHR ''.''" for c
    using assms that by (auto simp: list_all_iff)
  have "\<not> str_contains s ''$(''" using no [of "CHR ''$''"] by (auto simp: str_contains_iff is_alnum_def is_digit_def)
  then show ?thesis
    unfolding no_metacharacters by (simp add: newline_def no is_alnum_def is_digit_def)
qed

lemma lower_alnum:
  assumes "list_all is_alnum b" shows "CHR ''.'' \<notin> set (to_lowercase b)"
proof -
  have "char_to_lower c \<noteq> CHR ''.''" if "is_alnum c" for c
  proof
    assume "char_to_lower c = CHR ''.''"
    then have "of_char (char_to_lower c) = (46 :: nat)" by simp
    then show False using that
      by (auto simp: is_alnum_def is_digit_def char_to_lower_def Let_def split: if_splits)
  qed
  then show ?thesis using assms by (force simp: to_lowercase_def list_all_iff)
qed

section \<open>Scripts of plain words\<close>

text \<open>
  A reading of command lines that does not depend on the cutter: commands of plain words, divided
  by separators that stand as words of their own.
\<close>

definition script_word :: "string \<Rightarrow> bool" where
  "script_word w \<longleftrightarrow> w \<noteq> [] \<and> list_all (\<lambda>c. is_alnum c \<or> c = CHR ''-'' \<or> c = CHR ''.'' \<or> c = CHR ''_'') w"

fun line_words :: "string list \<Rightarrow> (string \<times> string list) list \<Rightarrow> string list" where
  "line_words c [] = c"
| "line_words c ((sep, d) # r) = c @ sep # line_words d r"

definition script_command :: "string list \<Rightarrow> bool" where
  "script_command c \<longleftrightarrow> c \<noteq> [] \<and> list_all script_word c"

text \<open>The words of a line may also have quotes.\<close>

definition line_word :: "string \<Rightarrow> bool" where
  "line_word w \<longleftrightarrow> w \<noteq> [] \<and> list_all (\<lambda>c. is_alnum c \<or> c = CHR ''-'' \<or> c = CHR ''.'' \<or> c = CHR ''_'' \<or> c = CHR 0x22 \<or> c = CHR 0x27) w"

definition line_command :: "string list \<Rightarrow> bool" where
  "line_command c \<longleftrightarrow> c \<noteq> [] \<and> list_all line_word c"

lemma line_word_chars:
  assumes "line_word w" "c \<in> set w"
  shows "\<not> is_space c" "c \<notin> {CHR '';'', CHR ''|'', CHR ''&'', CHR ''/'', CHR 0x5C}"
proof -
  have "is_alnum c \<or> c = CHR ''-'' \<or> c = CHR ''.'' \<or> c = CHR ''_'' \<or> c = CHR 0x22 \<or> c = CHR 0x27"
    using assms by (auto simp: line_word_def list_all_iff)
  then show "\<not> is_space c" "c \<notin> {CHR '';'', CHR ''|'', CHR ''&'', CHR ''/'', CHR 0x5C}"
    using alnum_plain by (auto simp: is_space_def is_alnum_def is_digit_def)
qed

lemma script_word_line: "script_word w \<Longrightarrow> line_word w"
  by (auto simp: script_word_def line_word_def list_all_iff)

lemma script_command_line: "script_command c \<Longrightarrow> line_command c" "list_all script_command cs \<Longrightarrow> list_all line_command cs"
  by (auto simp: script_command_def line_command_def list_all_iff script_word_line)

lemma script_word_unquoted: "script_word w \<Longrightarrow> c \<in> set w \<Longrightarrow> c \<notin> {CHR 0x22, CHR 0x27}"
  by (auto simp: script_word_def list_all_iff is_alnum_def is_digit_def)

lemma join_with_append: "xs \<noteq> [] \<Longrightarrow> ys \<noteq> [] \<Longrightarrow> join_with s (xs @ ys) = join_with s xs @ s @ join_with s ys"
proof (induction xs rule: induct_list012)
  case (2 x)
  then show ?case by (cases ys) auto
qed auto

definition solid_word :: "string \<Rightarrow> bool" where
  "solid_word w \<longleftrightarrow> w \<noteq> [] \<and> (\<forall>c\<in>set w. \<not> is_space c)"

lemma solid_line_word: "line_word w \<Longrightarrow> solid_word w"
  using line_word_chars(1) by (auto simp: solid_word_def line_word_def)

lemma solid_separator: "sep \<in> set separators \<Longrightarrow> solid_word sep"
  by (auto simp: solid_word_def separators_def is_space_def)

lemma split_ws_blank: "solid_word w \<Longrightarrow> split_ws (w @ CHR '' '' # rest) [] = w # split_ws rest []"
proof -
  have "\<forall>c\<in>set w. \<not> is_space c \<Longrightarrow> split_ws (w @ CHR '' '' # rest) acc = (if rev acc @ w = [] then [] else [rev acc @ w]) @ split_ws rest []" for w acc
    by (induction w arbitrary: acc) (auto simp: is_space_def)
  from this [of w "[]"] show "solid_word w \<Longrightarrow> split_ws (w @ CHR '' '' # rest) [] = w # split_ws rest []" by (simp add: solid_word_def)
qed

lemma split_whitespace_join: "list_all solid_word ws \<Longrightarrow> split_whitespace (join_with '' '' ws) = ws"
  unfolding split_whitespace_def
  by (induction ws rule: induct_list012) (simp_all add: split_ws_blank, simp add: solid_word_def split_ws_word)

lemma join_ends:
  assumes "ws \<noteq> []" "list_all solid_word ws"
  shows "join_with '' '' ws \<noteq> []" "hd (join_with '' '' ws) = hd (hd ws)" "last (join_with '' '' ws) = last (last ws)"
  using assms by (induction ws rule: induct_list012) (auto simp: solid_word_def)

lemma trim_padded:
  assumes "\<forall>c\<in>set a. is_space c" "\<forall>c\<in>set b. is_space c" "x \<noteq> []" "\<not> is_space (hd x)" "\<not> is_space (last x)"
  shows "trim (a @ x @ b) = x"
proof -
  have "dropWhile is_space (a @ x @ b) = x @ b" using assms(1,3,4) by (cases x) (simp_all add: dropWhile_append2)
  moreover have "dropWhile is_space (rev b @ rev x) = rev x"
    using assms(2,3,5) dropWhile_append2 [of "rev b" is_space "rev x"] by (cases x rule: rev_cases) simp_all
  ultimately show ?thesis by (simp add: trim_def)
qed

lemma trim_join:
  assumes "ws \<noteq> []" "list_all solid_word ws" "\<forall>c\<in>set a. is_space c" "\<forall>c\<in>set b. is_space c"
  shows "trim (a @ join_with '' '' ws @ b) = join_with '' '' ws"
proof (rule trim_padded [OF assms(3,4)])
  have "solid_word (hd ws)" "solid_word (last ws)" using assms(1,2) by (auto simp: list_all_iff)
  then show "\<not> is_space (hd (join_with '' '' ws))" "\<not> is_space (last (join_with '' '' ws))"
    using join_ends [OF assms(1,2)] by (auto simp: solid_word_def)
qed (rule join_ends [OF assms(1,2)])

lemma base_of_command:
  assumes "line_word w" "list_all solid_word ws" "\<forall>c\<in>set a. is_space c" "\<forall>c\<in>set b. is_space c"
  shows "extract_base_command (a @ join_with '' '' (w # ws) @ b) = w"
proof -
  have s: "list_all solid_word (w # ws)" using assms(1,2) by (simp add: solid_line_word)
  have "CHR ''/'' \<notin> set w" "CHR 0x5C \<notin> set w" using line_word_chars(2) [OF assms(1)] by auto
  then show ?thesis
    unfolding extract_base_command_def trim_join [OF _ s assms(3,4), simplified] split_whitespace_join [OF s]
    by (simp add: split_on_unused)
qed

lemma str_find_past: "p \<noteq> [] \<Longrightarrow> hd p \<notin> set a \<Longrightarrow> str_find (a @ x) p = map_option ((+) (length a)) (str_find x p)"
proof (induction a)
  case Nil
  then show ?case by (cases "str_find x p") simp_all
next
  case (Cons c a)
  then have "\<not> starts_with (c # a @ x) p" by (cases p) (auto simp: starts_with_def)
  then show ?case using Cons by (cases "str_find x p") simp_all
qed

lemma str_find_zero: "str_find (c # x) p = Some 0 \<longleftrightarrow> starts_with (c # x) p"
  by auto

lemma earliest_at:
  assumes "sep \<in> set separators" "set a \<inter> {CHR '';'', CHR ''|'', CHR ''&''} = {}"
  shows "earliest (a @ sep @ CHR '' '' # x) separators (length (a @ sep @ CHR '' '' # x), 0) = (length a, length sep)"
proof -
  let ?x = "sep @ CHR '' '' # x" and ?n = "length (a @ sep @ CHR '' '' # x)"
  have skip: "str_find (a @ ?x) p = map_option ((+) (length a)) (str_find ?x p)" if "p \<in> set separators" for p
    using that assms(2) by (intro str_find_past) (auto simp: separators_def)
  have z: "str_find ?x p = Some 0 \<longleftrightarrow> starts_with ?x p" for p
    using assms(1) by (cases sep) (auto simp: separators_def simp del: str_find.simps simp: str_find_zero)
  obtain e1 e2 e3 e4 where e: "str_find ?x ''&&'' = e1" "str_find ?x ''||'' = e2" "str_find ?x ''|'' = e3" "str_find ?x '';'' = e4" by blast
  have f: "earliest (a @ ?x) separators (?n, 0)
      = (let b1 = (case e1 of Some k \<Rightarrow> if length a + k < ?n then (length a + k, 2) else (?n, 0) | None \<Rightarrow> (?n, 0));
             b2 = (case e2 of Some k \<Rightarrow> if length a + k < fst b1 then (length a + k, 2) else b1 | None \<Rightarrow> b1);
             b3 = (case e3 of Some k \<Rightarrow> if length a + k < fst b2 then (length a + k, 1) else b2 | None \<Rightarrow> b2)
         in (case e4 of Some k \<Rightarrow> if length a + k < fst b3 then (length a + k, 1) else b3 | None \<Rightarrow> b3))"
    by (simp add: separators_def skip [unfolded separators_def] e Let_def split: option.split del: append_assoc)
  consider "sep = ''&&''" | "sep = ''||''" | "sep = ''|''" | "sep = '';''" using assms(1) by (auto simp: separators_def)
  then show ?thesis
  proof cases
    case 1
    then have "e1 = Some 0" "e2 \<noteq> Some 0" "e3 \<noteq> Some 0" "e4 \<noteq> Some 0" using z e by (auto simp: starts_with_def)
    then show ?thesis unfolding f using 1 by (auto simp: Let_def split: option.split)
  next
    case 2
    then have "e1 \<noteq> Some 0" "e2 = Some 0" "e3 = Some 0" "e4 \<noteq> Some 0" using z e by (auto simp: starts_with_def)
    then show ?thesis unfolding f using 2 by (auto simp: Let_def split: option.split)
  next
    case 3
    then have "e1 \<noteq> Some 0" "e2 \<noteq> Some 0" "e3 = Some 0" "e4 \<noteq> Some 0" using z e by (auto simp: starts_with_def)
    then show ?thesis unfolding f using 3 by (auto simp: Let_def split: option.split)
  next
    case 4
    then have "e1 \<noteq> Some 0" "e2 \<noteq> Some 0" "e3 \<noteq> Some 0" "e4 = Some 0" using z e by (auto simp: starts_with_def)
    then show ?thesis unfolding f using 4 by (auto simp: Let_def split: option.split)
  qed
qed

lemma command_chars: "line_command c \<Longrightarrow> set (join_with '' '' c) \<inter> {CHR '';'', CHR ''|'', CHR ''&''} = {}"
  unfolding line_command_def
proof (induction c rule: induct_list012)
  case (2 w)
  then show ?case using line_word_chars(2) [of w] by auto
next
  case (3 w v ws)
  then show ?case using line_word_chars(2) [of w] by auto
qed simp

lemma line_words_solid:
  "line_command c \<Longrightarrow> list_all line_command (map snd r) \<Longrightarrow> fst ` set r \<subseteq> set separators \<Longrightarrow>
    line_words c r \<noteq> [] \<and> list_all solid_word (line_words c r) \<and> hd (line_words c r) = hd c"
proof (induction c r rule: line_words.induct)
  case (1 c)
  then show ?case by (auto simp: line_command_def list_all_iff solid_line_word)
next
  case (2 c sep d r)
  then show ?case by (auto simp: line_command_def list_all_iff solid_line_word solid_separator)
qed

lemma blank_space: "set a \<subseteq> {CHR '' ''} \<Longrightarrow> \<forall>x\<in>set a. is_space x"
  by (auto simp: is_space_def)

lemma blank_before: "set a \<subseteq> {CHR '' ''} \<Longrightarrow> set s \<inter> {CHR '';'', CHR ''|'', CHR ''&''} = {} \<Longrightarrow> set (a @ s) \<inter> {CHR '';'', CHR ''|'', CHR ''&''} = {}"
  by auto

text \<open>The cutter finds the commands of a line, and no others.\<close>

lemma split_commands_line:
  assumes "line_command c" "list_all line_command (map snd r)" "fst ` set r \<subseteq> set separators" "set a \<subseteq> {CHR '' ''}"
  shows "split_commands (a @ join_with '' '' (line_words c r)) = hd c # map (hd \<circ> snd) r"
  using assms
proof (induction c r arbitrary: a rule: line_words.induct)
  case (1 c)
  then obtain w ws where c: "c = w # ws" "line_word w" "list_all solid_word ws"
    by (cases c) (auto simp: line_command_def list_all_iff solid_line_word)
  have sp: "\<forall>x\<in>set a. is_space x" using blank_space [OF 1(4)] .
  have "set (a @ join_with '' '' c) \<inter> {CHR '';'', CHR ''|'', CHR ''&''} = {}"
    by (rule blank_before [OF 1(4) command_chars [OF 1(1)]])
  note single = split_single [OF this]
  have "extract_base_command (a @ join_with '' '' c) = w"
    using base_of_command [OF c(2,3) sp, of "[]"] unfolding c(1) append_Nil2 by simp
  moreover have "w \<noteq> []" using c(2) by (simp add: line_word_def)
  ultimately show ?case unfolding line_words.simps single by (simp add: c(1))
next
  case (2 c sep d r)
  then obtain w ws where c: "c = w # ws" "line_word w" "list_all solid_word ws"
    by (cases c) (auto simp: line_command_def list_all_iff solid_line_word)
  have sp: "\<forall>x\<in>set a. is_space x" using blank_space [OF 2(5)] .
  let ?seg = "a @ join_with '' '' c @ '' ''" and ?tail = "join_with '' '' (line_words d r)"
  have ne: "line_words d r \<noteq> []" using 2 line_words_solid [of d r] by simp
  have line: "a @ join_with '' '' (line_words c ((sep, d) # r)) = ?seg @ sep @ CHR '' '' # ?tail"
    using c(1) ne by (simp add: join_with_append [of "w # ws" "sep # line_words d r", simplified]
        join_with_append [of "[sep]" "line_words d r", simplified])
  have sep: "sep \<in> set separators" using 2(4) by simp
  have "set (join_with '' '' c @ '' '') \<inter> {CHR '';'', CHR ''|'', CHR ''&''} = {}"
    using command_chars [OF 2(2)] unfolding set_append by (simp add: Int_Un_distrib2)
  then have free: "set ?seg \<inter> {CHR '';'', CHR ''|'', CHR ''&''} = {}" by (rule blank_before [OF 2(5)])
  have base: "extract_base_command ?seg = w" using base_of_command [OF c(2,3) sp, of "'' ''"] c(1) by (simp add: is_space_def)
  have IH: "split_commands ('' '' @ ?tail) = hd d # map (hd \<circ> snd) r" using 2 by (intro "2.IH") auto
  have "split_commands (?seg @ sep @ CHR '' '' # ?tail) = w # split_commands ('' '' @ ?tail)"
    unfolding split_commands.simps [of "?seg @ sep @ CHR '' '' # ?tail"] earliest_at [OF sep free]
    using base c(2) by (simp add: Let_def line_word_def)
  then show ?case unfolding line IH using c(1) by simp
qed

text \<open>A line in quotes is a line of words as well.\<close>

abbreviation line_ok :: "string list \<Rightarrow> (string \<times> string list) list \<Rightarrow> bool" where
  "line_ok c r \<equiv> line_command c \<and> list_all line_command (map snd r) \<and> fst ` set r \<subseteq> set separators"

lemma join_last: "ws \<noteq> [] \<Longrightarrow> join_with s (butlast ws @ [last ws @ q]) = join_with s ws @ q"
proof (induction ws rule: induct_list012)
  case (3 w v ws)
  then show ?case by (cases "butlast (v # ws)") auto
qed auto

lemma line_word_quoted: "line_word w \<Longrightarrow> q \<in> {[], [CHR 0x22], [CHR 0x27]} \<Longrightarrow> line_word (w @ q) \<and> line_word (q @ w)"
  by (auto simp: line_word_def)

lemma quote_behind:
  assumes "line_ok c r" "q \<in> {[], [CHR 0x22], [CHR 0x27]}"
  shows "\<exists>c' r'. line_ok c' r' \<and> join_with '' '' (line_words c' r') = join_with '' '' (line_words c r) @ q"
  using assms
proof (induction c r rule: line_words.induct)
  case (1 c)
  then have c: "c \<noteq> []" "list_all line_word (butlast c)" "line_word (last c @ q)"
    using line_word_quoted [of "last c" q] by (auto simp: line_command_def list_all_iff in_set_butlastD)
  then have "line_ok (butlast c @ [last c @ q]) []" by (simp add: line_command_def)
  moreover have "join_with '' '' (line_words (butlast c @ [last c @ q]) []) = join_with '' '' (line_words c []) @ q"
    using join_last [OF c(1)] by simp
  ultimately show ?case by blast
next
  case (2 c sep d r)
  then obtain d' r' where d: "line_ok d' r'" "join_with '' '' (line_words d' r') = join_with '' '' (line_words d r) @ q" by auto
  have ne: "line_words d r \<noteq> []" "line_words d' r' \<noteq> []" using 2(2) d(1) line_words_solid [of d r] line_words_solid [of d' r'] by auto
  have "line_ok c ((sep, d') # r')" using 2(2) d(1) by simp
  moreover have "join_with '' '' (line_words c ((sep, d') # r')) = join_with '' '' (line_words c ((sep, d) # r)) @ q"
  proof -
    have c: "c \<noteq> []" using 2(2) by (simp add: line_command_def)
    have cut: "join_with '' '' (c @ sep # ws) = join_with '' '' c @ '' '' @ sep @ '' '' @ join_with '' '' ws" if "ws \<noteq> []" for ws
      using join_with_append [OF c, of "sep # ws" "'' ''"] join_with_append [of "[sep]" ws "'' ''"] that by simp
    show ?thesis using cut ne d(2) by simp
  qed
  ultimately show ?case by blast
qed

lemma quoted_line:
  assumes "line_ok c r" "q \<in> {[], [CHR 0x22], [CHR 0x27]}"
  obtains c' r' where "line_ok c' r'" "join_with '' '' (line_words c' r') = q @ join_with '' '' (line_words c r) @ q"
proof -
  obtain c1 r' where 1: "line_ok c1 r'" "join_with '' '' (line_words c1 r') = join_with '' '' (line_words c r) @ q"
    using quote_behind [OF assms] by blast
  then obtain w ws where c1: "c1 = w # ws" "line_word w" by (cases c1) (auto simp: line_command_def)
  have front: "join_with '' '' ((q @ w) # xs) = q @ join_with '' '' (w # xs)" for xs by (cases xs) auto
  have "line_words ((q @ w) # ws) r' = (q @ w) # tl (line_words c1 r')" "line_words c1 r' = w # tl (line_words c1 r')"
    using c1(1) by (cases r'; auto)+
  then have "join_with '' '' (line_words ((q @ w) # ws) r') = q @ join_with '' '' (line_words c r) @ q"
    using front 1(2) by metis
  moreover have "line_ok ((q @ w) # ws) r'"
    using 1(1) c1 line_word_quoted [OF c1(2) assms(2)] by (simp add: line_command_def)
  ultimately show thesis using that by blast
qed

lemma strip_quotes_quoted:
  assumes "q \<in> {[], [CHR 0x22], [CHR 0x27]}" "s \<noteq> []" "hd s \<notin> {CHR 0x22, CHR 0x27}"
  shows "strip_quotes (q @ s @ q) = Some s"
proof (cases "q = []")
  case True
  then show ?thesis using assms by (cases s) (auto simp: strip_quotes_def starts_with_def)
next
  case False
  then show ?thesis using assms by (auto simp: strip_quotes_def starts_with_def ends_with_iff)
qed

section \<open>Properties\<close>

text \<open>
  What a child sees of the environment. A process is given exactly the variables of the parent
  that are safe or that the hand settings or the exec policy pass on, with their values; a star
  in either list passes on all of them.
\<close>

theorem child_environment:
  assumes "dm_wf parent"
  shows "dm_get (sandbox_command parent (merge_env_passthrough a b)) v
    = (if v \<in> set SAFE_ENV_VARS \<or> v \<in> set a \<union> set b \<or> ''*'' \<in> set a \<union> set b then dm_get parent v else None)"
  using sandbox_env [OF assms] by (auto simp: merge_env_set)

theorem child_environment_witness:
  "dm_get (sandbox_command [(''PATH'', ''/bin''), (''API_KEY'', ''k'')] (merge_env_passthrough [''TZ''] [''LANG''])) ''API_KEY'' = None"
  by (subst child_environment) (simp_all add: dm_wf_def SAFE_ENV_VARS_def)

lemma script_line_outer:
  assumes "shell \<in> {''bash'', ''sh'', ''zsh''}" "line_ok c r"
  shows "extract_all_commands (join_with '' '' (shell # ''-c'' # line_words c r)) = shell # map (hd \<circ> snd) r"
proof -
  have "line_word shell" "line_word ''-c''" using assms(1) by (auto simp: line_word_def is_alnum_def is_digit_def)
  then have cmd: "line_command (shell # ''-c'' # c)" using assms(2) by (simp add: line_command_def)
  have "shell # ''-c'' # line_words c r = line_words (shell # ''-c'' # c) r" by (cases r) auto
  then show ?thesis using split_commands_line [OF cmd, of r "[]"] assms(2) by (simp add: extract_all_commands_def)
qed

text \<open>What the wrapper of a line is found to run, once its words and its script are known.\<close>

lemma script_line_wrapper:
  assumes "shell \<in> {''bash'', ''sh'', ''zsh''}" "ws \<noteq> []" "list_all solid_word ws"
    and "strip_quotes (join_with '' '' ws) = Some script"
  shows "extract_shell_wrapper_commands (join_with '' '' (shell # ''-c'' # ws)) = Some (split_commands script)"
proof -
  let ?line = "join_with '' '' (shell # ''-c'' # ws)"
  have sh: "line_word shell" "line_word ''-c''" using assms(1) by (auto simp: line_word_def is_alnum_def is_digit_def)
  then have solid: "list_all solid_word (shell # ''-c'' # ws)" using assms(3) solid_line_word by auto
  have t: "trim ?line = ?line" "trim (join_with '' '' ws) = join_with '' '' ws"
    using trim_join [OF _ solid, of "[]" "[]"] trim_join [OF assms(2,3), of "[]" "[]"] by simp_all
  have "extract_base_command ?line = shell"
    using base_of_command [of shell "''-c'' # ws" "[]" "[]"] sh solid by simp
  then have "normalized_base ?line = shell"
    unfolding normalized_base_def t using assms(1)
    by (auto simp: to_lowercase_def char_to_lower_def strip_suffix_def ends_with_def starts_with_def Let_def)
  moreover have "inline_args SHELL_INLINE_FLAGS shell (''-c'' # ws) = Some ws"
    using assms(1,2) by (auto simp: SHELL_INLINE_FLAGS_def)
  moreover have "split_whitespace ?line = shell # ''-c'' # ws" by (rule split_whitespace_join [OF solid])
  ultimately show ?thesis
    using assms(1,4) t(2) unfolding extract_shell_wrapper_commands_def t(1)
    by (auto simp: SHELL_WRAPPERS_def extract_inner_script_commands_def simp del: join_with.simps)
qed

lemma script_unquoted:
  assumes "script_command c" "line_ok c r" "q \<in> {[], [CHR 0x22], [CHR 0x27]}"
  shows "strip_quotes (q @ join_with '' '' (line_words c r) @ q) = Some (join_with '' '' (line_words c r))"
proof -
  have sw: "script_word (hd c)" using assms(1) by (cases c) (auto simp: script_command_def)
  have "hd (join_with '' '' (line_words c r)) = hd (hd c)" "join_with '' '' (line_words c r) \<noteq> []"
    using join_ends [of "line_words c r"] line_words_solid [of c r] assms(2) by auto
  moreover have "hd (hd c) \<notin> {CHR 0x22, CHR 0x27}"
    using script_word_unquoted [OF sw, of "hd (hd c)"] sw by (simp add: script_word_def)
  ultimately show ?thesis using strip_quotes_quoted [OF assms(3)] by simp
qed

text \<open>
  C26: the commands of an inline script are checked one by one. For a line of \<open>bash\<close>, \<open>sh\<close> or
  \<open>zsh\<close> with the flag \<open>-c\<close> and a script, with or without quotes around it, whose commands are plain
  words divided by separators that stand as words of their own, the programs found are those of
  all the commands, in their order. In allow-list mode the line passes only if the shell and each of
  these programs are listed; without quotes, it then also passes. (Other forms of the flag, such as
  \<open>-lc\<close>, and words with other characters are not covered.)
\<close>

theorem script_commands_are_checked:
  assumes "exec_mode p = ExecAllowlist" "shell \<in> {''bash'', ''sh'', ''zsh''}" "q \<in> {[], [CHR 0x22], [CHR 0x27]}"
    and "script_command c" "list_all script_command (map snd r)" "fst ` set r \<subseteq> set separators"
    and "line = shell @ '' -c '' @ q @ join_with '' '' (line_words c r) @ q"
  shows "extract_shell_wrapper_commands line = Some (hd c # map (hd \<circ> snd) r)
    \<and> (validate_command_allowlist line p = Some (Inr ()) \<longrightarrow>
        listed p shell \<and> listed p (hd c) \<and> list_all (\<lambda>(sep, d). listed p (hd d)) r)
    \<and> (q = [] \<and> listed p shell \<and> listed p (hd c) \<and> list_all (\<lambda>(sep, d). listed p (hd d)) r \<longrightarrow>
        validate_command_allowlist line p = Some (Inr ()))"
proof -
  have ok: "line_ok c r" using assms(4-6) script_command_line by blast
  obtain c' r' where q: "line_ok c' r'" "join_with '' '' (line_words c' r') = q @ join_with '' '' (line_words c r) @ q"
    using quoted_line [OF ok assms(3)] .
  have ne: "line_words c' r' \<noteq> []" "list_all solid_word (line_words c' r')" "line_words c r \<noteq> []"
    using line_words_solid [of c' r'] line_words_solid [of c r] q(1) ok by auto
  have line: "line = join_with '' '' (shell # ''-c'' # line_words c' r')"
    using assms(7) q(2) ne(1) by (cases "line_words c' r'") auto
  have inner: "extract_shell_wrapper_commands line = Some (hd c # map (hd \<circ> snd) r)"
    unfolding line script_line_wrapper [OF assms(2) ne(1,2) script_unquoted [OF assms(4) ok assms(3), folded q(2)]]
    using split_commands_line [of c r "[]"] ok by simp
  have "validate_command_allowlist line p = Some (Inr ())"
    if "q = []" "listed p shell \<and> listed p (hd c) \<and> list_all (\<lambda>(sep, d). listed p (hd d)) r"
  proof -
    have "line = join_with '' '' (shell # ''-c'' # line_words c r)" using assms(7) that(1) ne(3) by (cases "line_words c r") auto
    then have "extract_all_commands line = shell # map (hd \<circ> snd) r" using script_line_outer [OF assms(2) ok] by simp
    then show ?thesis unfolding validate_iff [OF assms(1)] inner using that(2) by (auto simp: list_all_iff)
  qed
  then show ?thesis
    unfolding validate_iff [OF assms(1)] inner using script_line_outer [OF assms(2) q(1), folded line] by (auto simp: list_all_iff)
qed

theorem script_commands_are_checked_witness:
  "validate_command_allowlist (''bash -c '' @ [CHR 0x27] @ ''ls -l && rm x'' @ [CHR 0x27]) default_exec_policy \<noteq> Some (Inr ())"
proof -
  have rm: "\<not> listed default_exec_policy ''rm''" by (simp add: listed_def default_exec_policy_def)
  have m: "exec_mode default_exec_policy = ExecAllowlist" by (simp add: default_exec_policy_def)
  have w: "script_command [''ls'', ''-l'']" "script_command [''rm'', ''x'']" by code_simp+
  show ?thesis
    using script_commands_are_checked [OF m, of "''bash''" "[CHR 0x27]" "[''ls'', ''-l'']" "[(''&&'', [''rm'', ''x''])]"] w rm
    by (simp add: separators_def)
qed

text \<open>
  Any directory will do. The allow list compares the last part of the path of a program, so a
  listed name may be run from any directory, such as one the agent can write to.
\<close>

theorem any_directory_passes:
  assumes "exec_mode p = ExecAllowlist" "listed p b" "list_all is_alnum b" "b \<noteq> []"
    and "list_all (\<lambda>c. is_alnum c \<or> c = CHR ''/'' \<or> c = CHR ''.'') d" "to_lowercase b \<notin> set SHELL_WRAPPERS"
  shows "validate_command_allowlist (d @ ''/'' @ b) p = Some (Inr ())"
proof -
  let ?c = "d @ ''/'' @ b"
  have chars: "list_all (\<lambda>c. is_alnum c \<or> c = CHR ''/'' \<or> c = CHR ''.'') ?c" using assms(3,5) by (auto simp: list_all_iff)
  have base: "extract_base_command ?c = b"
    using plain_word [OF chars] assms(3) by (simp add: extract_base_command_def last_split_on split_alnum is_alnum_def is_digit_def)
  moreover have "normalized_base ?c = to_lowercase b"
  proof -
    have "CHR ''.'' \<notin> set (to_lowercase b)" using assms(3) by (rule lower_alnum)
    then have "strip_suffix ''.exe'' (to_lowercase b) = None" by (auto simp: strip_suffix_def ends_with_iff)
    then show ?thesis using plain_word [OF chars] base by (simp add: normalized_base_def)
  qed
  then have "extract_shell_wrapper_commands ?c = Some []" using assms(6) by (simp add: extract_shell_wrapper_commands_def)
  moreover have "contains_shell_metacharacters ?c = None" using chars by (rule plain_no_metacharacters)
  ultimately show ?thesis using assms(1,2) by (simp add: validate_iff extract_all_commands_def split_single no_metacharacters)
qed

theorem any_directory_passes_witness:
  "validate_command_allowlist ''/tmp/evil/cat'' default_exec_policy = Some (Inr ())"
  using any_directory_passes [of default_exec_policy "''cat''" "''/tmp/evil''"]
  by (simp add: default_exec_policy_def listed_def is_alnum_def is_digit_def to_lowercase_def char_to_lower_def SHELL_WRAPPERS_def)

text \<open>
  Bundled flags are not looked into. \<open>bash -c rm\<close> is refused unless \<open>rm\<close> is listed, but with
  any other letter in the same flag the script is not found and only \<open>bash\<close> is checked.
\<close>

theorem bundled_flag_passes:
  assumes "exec_mode p = ExecAllowlist" "listed p ''bash''"
  shows "validate_command_allowlist ''bash -lc rm'' p = Some (Inr ())
    \<and> (\<not> listed p ''rm'' \<longrightarrow> validate_command_allowlist ''bash -c rm'' p \<noteq> Some (Inr ()))"
proof -
  have b: "extract_base_command ''bash -lc rm'' = ''bash''" "extract_base_command ''bash -c rm'' = ''bash''"
    "extract_base_command ''rm'' = ''rm''" by (simp_all add: line_defs)
  have "extract_shell_wrapper_commands ''bash -lc rm'' = Some []"
    using b by (simp add: extract_shell_wrapper_commands_def normalized_base_def SHELL_WRAPPERS_def SHELL_INLINE_FLAGS_def line_defs)
  moreover have "extract_shell_wrapper_commands ''bash -c rm'' = Some [''rm'']"
    using b by (simp add: extract_shell_wrapper_commands_def normalized_base_def SHELL_WRAPPERS_def SHELL_INLINE_FLAGS_def
        extract_inner_script_commands_def split_single strip_quotes_def line_defs)
  moreover have "contains_shell_metacharacters ''bash -lc rm'' = None"
    by (simp add: contains_shell_metacharacters_def newline_def starts_with_def)
  ultimately show ?thesis using assms b by (simp add: validate_iff extract_all_commands_def split_single)
qed

text \<open>A script that is one quotation mark is sliced from its second to its last but one byte, and panics.\<close>

theorem lone_quote_panics:
  assumes "exec_mode p = ExecAllowlist"
  shows "validate_command_allowlist (''bash -c '' @ [CHR 0x22]) p = None"
proof -
  have b: "extract_base_command (''bash -c '' @ [CHR 0x22]) = ''bash''" by (simp add: line_defs)
  have "extract_shell_wrapper_commands (''bash -c '' @ [CHR 0x22]) = None"
    using b by (simp add: extract_shell_wrapper_commands_def normalized_base_def SHELL_WRAPPERS_def SHELL_INLINE_FLAGS_def
        strip_quotes_def line_defs)
  then show ?thesis using assms by (simp add: validate_command_allowlist_def)
qed

end
