(* ===== verification/Taint.thy ===== *)
theory Taint
  imports Prelude
begin

text \<open>
  Taint labels: \<open>openfang-types/src/taint.rs\<close>. A \<open>HashSet\<close> of labels is a list without
  repetitions; the order in which it is read is the order of the list.
\<close>

section \<open>Labels, values and sinks\<close>

datatype taint_label = ExternalNetwork | UserInput | Pii | Secret | UntrustedAgent

fun show_label :: "taint_label \<Rightarrow> string" where
  "show_label ExternalNetwork = ''ExternalNetwork''"
| "show_label UserInput = ''UserInput''"
| "show_label Pii = ''Pii''"
| "show_label Secret = ''Secret''"
| "show_label UntrustedAgent = ''UntrustedAgent''"

record tainted_value =
  tv_value :: string
  tv_labels :: "taint_label list"
  tv_source :: string

definition clean_value :: "string \<Rightarrow> string \<Rightarrow> tainted_value" where
  "clean_value v source = \<lparr>tv_value = v, tv_labels = [], tv_source = source\<rparr>"

definition merge_taint :: "tainted_value \<Rightarrow> tainted_value \<Rightarrow> tainted_value" where
  "merge_taint v other = v\<lparr>tv_labels := fold List.insert (tv_labels other) (tv_labels v)\<rparr>"

record taint_sink =
  sink_name :: string
  blocked_labels :: "taint_label list"

record taint_violation =
  tvi_label :: taint_label
  tvi_sink :: string
  tvi_source :: string

definition show_violation :: "taint_violation \<Rightarrow> string" where
  "show_violation v = ''taint violation: label '' @ in_quotes (show_label (tvi_label v)) @ '' from source ''
     @ in_quotes (tvi_source v) @ '' is not allowed to reach sink '' @ in_quotes (tvi_sink v)"

definition check_sink :: "tainted_value \<Rightarrow> taint_sink \<Rightarrow> taint_violation + unit" where
  "check_sink v s =
     (case find (\<lambda>l. l \<in> set (blocked_labels s)) (tv_labels v) of
        Some l \<Rightarrow> Inl \<lparr>tvi_label = l, tvi_sink = sink_name s, tvi_source = tv_source v\<rparr>
      | None \<Rightarrow> Inr ())"

definition declassify :: "tainted_value \<Rightarrow> taint_label \<Rightarrow> tainted_value" where
  "declassify v l = v\<lparr>tv_labels := filter (\<lambda>k. k \<noteq> l) (tv_labels v)\<rparr>"

definition is_tainted :: "tainted_value \<Rightarrow> bool" where
  "is_tainted v = (tv_labels v \<noteq> [])"

definition shell_exec_sink :: taint_sink where
  "shell_exec_sink = \<lparr>sink_name = ''shell_exec'', blocked_labels = [ExternalNetwork, UntrustedAgent, UserInput]\<rparr>"

definition net_fetch_sink :: taint_sink where
  "net_fetch_sink = \<lparr>sink_name = ''net_fetch'', blocked_labels = [Secret, Pii]\<rparr>"

definition agent_message_sink :: taint_sink where
  "agent_message_sink = \<lparr>sink_name = ''agent_message'', blocked_labels = [Secret]\<rparr>"

section \<open>Lemmas\<close>

lemma check_sink_ok [simp]: "check_sink v s = Inr () \<longleftrightarrow> set (tv_labels v) \<inter> set (blocked_labels s) = {}"
proof -
  have "check_sink v s = Inr () \<longleftrightarrow> find (\<lambda>l. l \<in> set (blocked_labels s)) (tv_labels v) = None"
    by (simp add: check_sink_def split: option.split)
  then show ?thesis by (auto simp: find_None_iff)
qed

lemma merge_taint_labels [simp]: "set (tv_labels (merge_taint v w)) = set (tv_labels v) \<union> set (tv_labels w)"
proof -
  have "set (fold List.insert ls acc) = set acc \<union> set ls" for ls acc :: "taint_label list"
    by (induction ls arbitrary: acc) auto
  then show ?thesis by (simp add: merge_taint_def)
qed

lemma merge_taint_distinct: "distinct (tv_labels v) \<Longrightarrow> distinct (tv_labels (merge_taint v w))"
proof -
  have "distinct acc \<Longrightarrow> distinct (fold List.insert ls acc)" for ls acc :: "taint_label list"
    by (induction ls arbitrary: acc) auto
  then show "distinct (tv_labels v) \<Longrightarrow> ?thesis" by (simp add: merge_taint_def)
qed

section \<open>Flows\<close>

text \<open>A value that is built from sources by merging, with labels taken off on the way.\<close>

datatype flow = Source tainted_value | Merge flow flow | Declassify taint_label flow

fun flow_value :: "flow \<Rightarrow> tainted_value" where
  "flow_value (Source v) = v"
| "flow_value (Merge a b) = merge_taint (flow_value a) (flow_value b)"
| "flow_value (Declassify l a) = declassify (flow_value a) l"

text \<open>A label survives from a source to the end if no step on the way takes it off.\<close>

fun survives :: "taint_label \<Rightarrow> flow \<Rightarrow> bool" where
  "survives l (Source v) = (l \<in> set (tv_labels v))"
| "survives l (Merge a b) = (survives l a \<or> survives l b)"
| "survives l (Declassify k a) = (l \<noteq> k \<and> survives l a)"

lemma flow_labels: "l \<in> set (tv_labels (flow_value f)) \<longleftrightarrow> survives l f"
  by (induction f) (auto simp: declassify_def)

section \<open>Properties\<close>

text \<open>
  No flow around a sink. Whatever values are merged and whatever labels are declassified on the
  way, the result may reach a sink exactly when no label the sink blocks came in with a source
  and was not taken off after it.
\<close>

theorem sink_blocks_surviving_labels:
  "check_sink (flow_value f) s = Inr () \<longleftrightarrow> (\<forall>l. survives l f \<longrightarrow> l \<notin> set (blocked_labels s))"
  by (auto simp: disjoint_iff flow_labels)

theorem sink_blocks_surviving_labels_witness:
  "check_sink (flow_value (Merge (Declassify Secret (Source \<lparr>tv_value = ''k'', tv_labels = [Secret], tv_source = ''env''\<rparr>))
     (Source \<lparr>tv_value = ''m'', tv_labels = [UserInput], tv_source = ''chat''\<rparr>))) agent_message_sink = Inr ()"
  by (simp only: sink_blocks_surviving_labels) (simp add: agent_message_sink_def)

end
