(* ===== verification/ToolGate.thy ===== *)
theory ToolGate
  imports Approval StrUtils ShellPolicy Taint Kernel
begin

text \<open>
  What stands between a tool call of a model and the tool: the gates of \<open>execute_tool\<close> and
  \<open>tool_process_start\<close> in \<open>openfang-runtime/src/tool_runner.rs\<close>, the tool names of
  \<open>openfang-types/src/tool_compat.rs\<close>, and the answer of the kernel to a request for approval
  (\<open>openfang-kernel/src/kernel.rs\<close>). The tools themselves are not run: the result of the gates
  is the tool that would be. The printer of JSON and the parser of agent ids are parameters.
\<close>

section \<open>Tool names\<close>

definition tool_aliases :: "(string list \<times> string) list" where
  "tool_aliases =
     [([''Read'', ''read'', ''read_file''], ''file_read''),
      ([''Write'', ''write'', ''write_file''], ''file_write''),
      ([''Edit'', ''edit''], ''file_write''),
      ([''Glob'', ''glob'', ''list_files''], ''file_list''),
      ([''Grep'', ''grep''], ''file_list''),
      ([''Mkdir'', ''mkdir'', ''make_directory'', ''makeDirectory'', ''make_dir'', ''makedir'', ''create_dir'',
        ''createDir'', ''createDirectory'', ''new_directory'', ''new_folder'', ''create_folder'', ''createFolder''],
       ''create_directory''),
      ([''Bash'', ''bash'', ''exec'', ''execute_command''], ''shell_exec''),
      ([''WebSearch'', ''web_search''], ''web_search''),
      ([''WebFetch'', ''fetch_url'', ''web_fetch''], ''web_fetch''),
      ([''browser_navigate''], ''browser_navigate''),
      ([''memory_search'', ''memory_recall''], ''memory_recall''),
      ([''memory_save'', ''memory_store''], ''memory_store''),
      ([''sessions_send'', ''agent_message''], ''agent_send''),
      ([''sessions_list'', ''agents_list'', ''agent_list''], ''agent_list''),
      ([''sessions_spawn''], ''agent_send''),
      ([''fs-read'', ''fs_read'', ''fsRead'', ''readFile''], ''file_read''),
      ([''fs-write'', ''fs_write'', ''fsWrite'', ''writeFile''], ''file_write''),
      ([''fs-list'', ''fs_list'', ''fsList'', ''listFiles'', ''list_dir'', ''ls''], ''file_list''),
      ([''fs-exec'', ''run'', ''run_command'', ''runCommand'', ''execute'', ''shell''], ''shell_exec'')]"

definition map_tool_name :: "string \<Rightarrow> string option" where
  "map_tool_name openclaw_name = map_option snd (find (\<lambda>(names, _). openclaw_name \<in> set names) tool_aliases)"

definition known_openfang_tools :: "string list" where
  "known_openfang_tools =
     [''file_read'', ''file_write'', ''file_list'', ''create_directory'', ''shell_exec'', ''web_search'',
      ''web_fetch'', ''browser_navigate'', ''memory_recall'', ''memory_store'', ''agent_send'', ''agent_list'',
      ''agent_spawn'', ''agent_kill'', ''agent_find'', ''task_post'', ''task_claim'', ''task_complete'',
      ''task_list'', ''event_publish'', ''schedule_create'', ''schedule_list'', ''schedule_delete'',
      ''image_analyze'', ''location_get'']"

definition is_known_openfang_tool :: "string \<Rightarrow> bool" where
  "is_known_openfang_tool name = (name \<in> set known_openfang_tools)"

definition normalize_tool_name :: "string \<Rightarrow> string" where
  "normalize_tool_name name =
     (if is_known_openfang_tool name then name
      else case map_tool_name name of Some n \<Rightarrow> n | None \<Rightarrow> name)"

section \<open>Taint checks\<close>

datatype taint_refusal = Injection metacharacter | Violation taint_violation

definition tainted_by :: "taint_label \<Rightarrow> taint_sink \<Rightarrow> string \<Rightarrow> bool \<Rightarrow> taint_violation option" where
  "tainted_by label sink s suspicious =
     (if suspicious then
        case check_sink \<lparr>tv_value = s, tv_labels = [label], tv_source = ''llm_tool_call''\<rparr> sink of
          Inl violation \<Rightarrow> Some violation
        | Inr _ \<Rightarrow> None
      else None)"

definition suspicious_patterns :: "string list" where
  "suspicious_patterns = [''curl '', ''wget '', ''| sh'', ''| bash'', ''base64 -d'', ''eval '']"

definition check_taint_shell_exec :: "string \<Rightarrow> taint_refusal option" where
  "check_taint_shell_exec command =
     (case contains_shell_metacharacters command of
        Some reason \<Rightarrow> Some (Injection reason)
      | None \<Rightarrow> map_option Violation
          (first_some (map (\<lambda>pat. tainted_by ExternalNetwork shell_exec_sink command (str_contains command pat))
             suspicious_patterns)))"

definition exfil_patterns :: "string list" where
  "exfil_patterns = [''api_key='', ''apikey='', ''token='', ''secret='', ''password='', ''Authorization:'']"

definition check_taint_net_fetch :: "string \<Rightarrow> taint_violation option" where
  "check_taint_net_fetch url =
     first_some (map (\<lambda>pat. tainted_by Secret net_fetch_sink url
        (str_contains (to_lowercase url) (to_lowercase pat))) exfil_patterns)"

section \<open>Approval\<close>

record kernel_handle =
  kh_requires :: "string \<Rightarrow> bool"
  kh_request :: "string \<Rightarrow> string \<Rightarrow> string \<Rightarrow> string + bool"

definition is_shell_tool :: "string \<Rightarrow> bool" where
  "is_shell_tool name = (name \<in> {''shell_exec'', ''process_start''})"

definition policy_bypasses_approval :: "string \<Rightarrow> exec_policy option \<Rightarrow> bool" where
  "policy_bypasses_approval tool exec =
     (is_shell_tool tool
      \<and> (case exec of
           Some p \<Rightarrow> exec_mode p = ExecFull
             \<or> exec_mode p = ExecAllowlist \<and> list_ex (\<lambda>c. c = ''*'') (allowed_commands p)
         | None \<Rightarrow> False))"

text \<open>The kernel's answer. \<open>ask\<close> is what the approval manager's request ends in.\<close>

definition auto_approved :: "(string \<Rightarrow> uuid option) \<Rightarrow> agent_registry \<Rightarrow> string \<Rightarrow> bool" where
  "auto_approved parse_id r agent =
     (case parse_id agent of
        Some i \<Rightarrow> (case get_agent r i of Some e \<Rightarrow> list_ex (\<lambda>t. starts_with t ''hand:'') (agent_tags e) | None \<Rightarrow> False)
      | None \<Rightarrow> False)"

definition typed_request ::
  "uuid \<Rightarrow> instant \<Rightarrow> approval_manager \<Rightarrow> string \<Rightarrow> string \<Rightarrow> string \<Rightarrow> approval_request" where
  "typed_request i now m agent tool summary =
     \<lparr>req_id = i, agent_id = agent, tool_name = tool,
      description = ''Agent '' @ agent @ '' requests to execute '' @ tool, action_summary = take 512 summary,
      risk = classify_risk tool, requested_at = now, timeout_secs = policy_timeout_secs (policy m)\<rparr>"

definition kernel_request_approval ::
  "(string \<Rightarrow> uuid option) \<Rightarrow> (approval_request \<Rightarrow> approval_decision) \<Rightarrow> uuid \<Rightarrow> instant \<Rightarrow> kernel \<Rightarrow> approval_manager \<Rightarrow>
    string \<Rightarrow> string \<Rightarrow> string \<Rightarrow> string + bool" where
  "kernel_request_approval parse_id ask i now k m agent tool summary =
     (if auto_approved parse_id (k_registry k) agent then Inr True
      else Inr (ask (typed_request i now m agent tool summary) = Approved))"

definition approving_handle ::
  "(string \<Rightarrow> uuid option) \<Rightarrow> (approval_request \<Rightarrow> approval_decision) \<Rightarrow> uuid \<Rightarrow> instant \<Rightarrow> kernel \<Rightarrow> approval_manager \<Rightarrow> kernel_handle" where
  "approving_handle parse_id ask i now k m =
     \<lparr>kh_requires = requires_approval m, kh_request = kernel_request_approval parse_id ask i now k m\<rparr>"

section \<open>The gates\<close>

datatype gate_result =
    NotPermitted string
  | ApprovalRefused string
  | ApprovalBroken string
  | MissingCommand
  | NoProcessManager
  | MetacharactersBlocked metacharacter
  | PolicyBlocked exec_error
  | TaintBlocked taint_refusal
  | GatePanics
  | Dispatched string

definition approval_gate ::
  "(json \<Rightarrow> string) \<Rightarrow> kernel_handle option \<Rightarrow> string option \<Rightarrow> exec_policy option \<Rightarrow> string \<Rightarrow> json \<Rightarrow> gate_result option" where
  "approval_gate show_json handle caller exec tool input =
     (case handle of
        None \<Rightarrow> None
      | Some kh \<Rightarrow>
          if \<not> policy_bypasses_approval tool exec \<and> kh_requires kh tool then
            (case kh_request kh (case caller of Some a \<Rightarrow> a | None \<Rightarrow> ''unknown'') tool
                    (tool @ '': '' @ safe_truncate_str (show_json input) 200) of
               Inr True \<Rightarrow> None
             | Inr False \<Rightarrow> Some (ApprovalRefused tool)
             | Inl e \<Rightarrow> Some (ApprovalBroken e))
          else None)"

definition string_field :: "json \<Rightarrow> string \<Rightarrow> string option" where
  "string_field input key = Option.bind (json_get input key) json_as_str"

definition policy_gate :: "string \<Rightarrow> exec_policy option \<Rightarrow> gate_result option" where
  "policy_gate command exec =
     (case exec of
        None \<Rightarrow> None
      | Some p \<Rightarrow>
          (case validate_command_allowlist command p of
             None \<Rightarrow> Some GatePanics
           | Some (Inl e) \<Rightarrow> Some (PolicyBlocked e)
           | Some (Inr _) \<Rightarrow> None))"

definition shell_command :: "json \<Rightarrow> string" where
  "shell_command input = (case string_field input ''command'' of Some c \<Rightarrow> c | None \<Rightarrow> [])"

definition shell_exec_gate :: "json \<Rightarrow> exec_policy option \<Rightarrow> gate_result option" where
  "shell_exec_gate input exec =
     (let command = shell_command input
      in case contains_shell_metacharacters command of
           Some reason \<Rightarrow> Some (MetacharactersBlocked reason)
         | None \<Rightarrow>
             (case policy_gate command exec of
                Some r \<Rightarrow> Some r
              | None \<Rightarrow>
                  if (case exec of Some p \<Rightarrow> exec_mode p = ExecFull | None \<Rightarrow> False) then None
                  else map_option TaintBlocked (check_taint_shell_exec command)))"

definition net_gate :: "json \<Rightarrow> gate_result option" where
  "net_gate input =
     map_option (\<lambda>v. TaintBlocked (Violation v))
       (check_taint_net_fetch (case string_field input ''url'' of Some u \<Rightarrow> u | None \<Rightarrow> []))"

definition process_args :: "json \<Rightarrow> string list" where
  "process_args input =
     (case json_get input ''args'' of Some (JArray vs) \<Rightarrow> List.map_filter json_as_str vs | _ \<Rightarrow> [])"

definition process_start_gate :: "bool \<Rightarrow> json \<Rightarrow> exec_policy option \<Rightarrow> gate_result option" where
  "process_start_gate manager input exec =
     (if \<not> manager then Some NoProcessManager
      else case string_field input ''command'' of
        None \<Rightarrow> Some MissingCommand
      | Some command \<Rightarrow>
          (case contains_shell_metacharacters command of
             Some reason \<Rightarrow> Some (MetacharactersBlocked reason)
           | None \<Rightarrow>
               (case first_some (map contains_shell_metacharacters (process_args input)) of
                  Some reason \<Rightarrow> Some (MetacharactersBlocked reason)
                | None \<Rightarrow> policy_gate command exec)))"

definition execute_tool_gate ::
  "(json \<Rightarrow> string) \<Rightarrow> string \<Rightarrow> json \<Rightarrow> kernel_handle option \<Rightarrow> string list option \<Rightarrow> string option \<Rightarrow>
    exec_policy option \<Rightarrow> bool \<Rightarrow> gate_result" where
  "execute_tool_gate show_json name input handle allowed caller exec manager =
     (let tool = normalize_tool_name name in
      if (case allowed of Some ts \<Rightarrow> tool \<notin> set ts | None \<Rightarrow> False) then NotPermitted tool
      else case approval_gate show_json handle caller exec tool input of
        Some r \<Rightarrow> r
      | None \<Rightarrow>
          (case (if tool \<in> {''web_fetch'', ''browser_navigate''} then net_gate input
                 else if tool = ''shell_exec'' then shell_exec_gate input exec
                 else if tool = ''process_start'' then process_start_gate manager input exec
                 else None) of
             Some r \<Rightarrow> r
           | None \<Rightarrow> Dispatched tool))"

section \<open>Lemmas\<close>

lemma first_some_None: "first_some xs = None \<longleftrightarrow> (\<forall>x\<in>set xs. x = None)"
  by (induction xs) auto

lemma shell_taint_None:
  "check_taint_shell_exec c = None \<longleftrightarrow>
    contains_shell_metacharacters c = None \<and> (\<forall>pat\<in>set suspicious_patterns. \<not> str_contains c pat)"
proof -
  have "tainted_by ExternalNetwork shell_exec_sink c b = None \<longleftrightarrow> \<not> b" for b
    by (simp add: tainted_by_def check_sink_def shell_exec_sink_def)
  then show ?thesis by (simp add: check_taint_shell_exec_def first_some_None split: option.split)
qed

lemma net_taint_None:
  "check_taint_net_fetch u = None \<longleftrightarrow>
    (\<forall>pat\<in>set exfil_patterns. \<not> str_contains (to_lowercase u) (to_lowercase pat))"
proof -
  have "tainted_by Secret net_fetch_sink u b = None \<longleftrightarrow> \<not> b" for b
    by (simp add: tainted_by_def check_sink_def net_fetch_sink_def)
  then show ?thesis by (simp add: check_taint_net_fetch_def first_some_None)
qed

lemma policy_gate_None:
  "policy_gate c exec = None \<longleftrightarrow> (\<forall>p. exec = Some p \<longrightarrow> validate_command_allowlist c p = Some (Inr ()))"
  by (auto simp: policy_gate_def split: option.splits sum.splits)

text \<open>What a command must satisfy under an exec policy when it holds no metacharacter.\<close>

definition policy_admits :: "exec_policy \<Rightarrow> string \<Rightarrow> bool" where
  "policy_admits p c \<longleftrightarrow> exec_mode p = ExecFull
     \<or> exec_mode p = ExecAllowlist \<and> (extract_base_command c = [] \<or> listed p (extract_base_command c))
         \<and> (\<exists>inner. extract_shell_wrapper_commands c = Some inner \<and> list_all (listed p) inner)"

lemma validate_plain:
  assumes "contains_shell_metacharacters c = None"
  shows "validate_command_allowlist c p = Some (Inr ()) \<longleftrightarrow> policy_admits p c"
proof (cases "exec_mode p")
  case ExecAllowlist
  have "list_all (listed p) (extract_all_commands c) \<longleftrightarrow> extract_base_command c = [] \<or> listed p (extract_base_command c)"
    using assms by (subst extract_all_commands_def, subst split_single) (auto simp: no_metacharacters)
  then show ?thesis unfolding validate_iff [OF ExecAllowlist] policy_admits_def
    using ExecAllowlist assms by (cases "extract_shell_wrapper_commands c") (simp_all, metis list.pred_inject(1))
qed (simp_all add: validate_command_allowlist_def policy_admits_def)

text \<open>The conditions of the three gates.\<close>

definition shell_ok :: "string \<Rightarrow> exec_policy option \<Rightarrow> bool" where
  "shell_ok c exec \<longleftrightarrow> contains_shell_metacharacters c = None
     \<and> (case exec of Some p \<Rightarrow> policy_admits p c | None \<Rightarrow> True)
     \<and> ((case exec of Some p \<Rightarrow> exec_mode p = ExecFull | None \<Rightarrow> False)
        \<or> list_all (\<lambda>pat. \<not> str_contains c pat) suspicious_patterns)"

lemma shell_exec_gate_None:
  "shell_exec_gate input exec = None \<longleftrightarrow> shell_ok (shell_command input) exec"
proof -
  define c where "c = shell_command input"
  show ?thesis
  proof (cases "contains_shell_metacharacters c")
    case None
    then have p: "policy_gate c exec = None \<longleftrightarrow> (case exec of Some p \<Rightarrow> policy_admits p c | None \<Rightarrow> True)"
      by (simp add: policy_gate_None validate_plain split: option.split)
    have t: "check_taint_shell_exec c = None \<longleftrightarrow> list_all (\<lambda>pat. \<not> str_contains c pat) suspicious_patterns"
      using None by (simp add: shell_taint_None list_all_iff)
    show ?thesis
      unfolding shell_exec_gate_def Let_def c_def [symmetric] shell_ok_def p [symmetric] t [symmetric]
      using None by (cases "policy_gate c exec") simp_all
  next
    case (Some reason)
    then show ?thesis unfolding shell_exec_gate_def Let_def c_def [symmetric] shell_ok_def by simp
  qed
qed

definition net_clean :: "json \<Rightarrow> bool" where
  "net_clean input \<longleftrightarrow>
     list_all (\<lambda>pat. \<not> str_contains (to_lowercase (case string_field input ''url'' of Some u \<Rightarrow> u | None \<Rightarrow> []))
       (to_lowercase pat)) exfil_patterns"

lemma net_gate_None: "net_gate input = None \<longleftrightarrow> net_clean input"
  by (simp add: net_gate_def net_taint_None list_all_iff net_clean_def)

definition process_ok :: "bool \<Rightarrow> json \<Rightarrow> exec_policy option \<Rightarrow> bool" where
  "process_ok manager input exec \<longleftrightarrow> manager \<and>
     (case string_field input ''command'' of
        None \<Rightarrow> False
      | Some c \<Rightarrow> contains_shell_metacharacters c = None
          \<and> list_all (\<lambda>a. contains_shell_metacharacters a = None) (process_args input)
          \<and> (case exec of Some p \<Rightarrow> policy_admits p c | None \<Rightarrow> True))"

lemma process_start_gate_None: "process_start_gate manager input exec = None \<longleftrightarrow> process_ok manager input exec"
proof (cases "string_field input ''command''")
  case (Some c)
  show ?thesis
  proof (cases "contains_shell_metacharacters c")
    case None
    then have "policy_gate c exec = None \<longleftrightarrow> (case exec of Some p \<Rightarrow> policy_admits p c | None \<Rightarrow> True)"
      by (simp add: policy_gate_None validate_plain split: option.split)
    moreover have "first_some (map contains_shell_metacharacters (process_args input)) = None
        \<longleftrightarrow> list_all (\<lambda>a. contains_shell_metacharacters a = None) (process_args input)"
      by (simp add: first_some_None list_all_iff)
    ultimately show ?thesis using Some None
      by (auto simp: process_start_gate_def process_ok_def split: option.split)
  qed (simp add: process_start_gate_def process_ok_def Some)
qed (simp add: process_start_gate_def process_ok_def)

text \<open>When the approval gate lets a call through.\<close>

definition approved_call ::
  "(json \<Rightarrow> string) \<Rightarrow> kernel_handle option \<Rightarrow> string option \<Rightarrow> exec_policy option \<Rightarrow> string \<Rightarrow> json \<Rightarrow> bool" where
  "approved_call show_json handle caller exec tool input \<longleftrightarrow>
     (case handle of
        None \<Rightarrow> True
      | Some kh \<Rightarrow> policy_bypasses_approval tool exec \<or> \<not> kh_requires kh tool
          \<or> kh_request kh (case caller of Some a \<Rightarrow> a | None \<Rightarrow> ''unknown'') tool
              (tool @ '': '' @ safe_truncate_str (show_json input) 200) = Inr True)"

lemma approval_gate_None:
  "approval_gate show_json handle caller exec tool input = None \<longleftrightarrow> approved_call show_json handle caller exec tool input"
  by (auto simp: approval_gate_def approved_call_def split: option.splits sum.splits bool.splits)

lemma approval_gate_stops: "approval_gate show_json handle caller exec tool input \<noteq> Some (Dispatched t)"
  by (auto simp: approval_gate_def split: option.splits sum.splits bool.splits)

lemma gates_stop:
  "shell_exec_gate input exec \<noteq> Some (Dispatched t)"
  "net_gate input \<noteq> Some (Dispatched t)"
  "process_start_gate manager input exec \<noteq> Some (Dispatched t)"
  by (auto simp: shell_exec_gate_def net_gate_def process_start_gate_def policy_gate_def Let_def split: option.splits sum.splits)

lemma known_targets: "list_all (\<lambda>(_, t). is_known_openfang_tool t) tool_aliases"
  by (simp add: tool_aliases_def is_known_openfang_tool_def known_openfang_tools_def)

lemma map_tool_name_known: "map_tool_name n = Some t \<Longrightarrow> is_known_openfang_tool t"
  using known_targets by (auto simp: map_tool_name_def find_Some_iff list_all_length)

lemma spawned_tags:
  assumes "spawn_agent_with_parent fm sha env k m p i = (Inr i, k')"
  shows "\<exists>e. get_agent (k_registry k') i = Some e \<and> agent_tags e = man_tags m"
  using assms
proof (cases rule: spawn_cases [of fm sha env k m p i])
  case (registered session e)
  then show ?thesis using assms
    by (auto simp: finish_spawn_def Let_def case_prod_beta new_agent_entry_def resolve_manifest_def grant_resources_def
        insert_entry_def add_child_def get_agent_def split: option.splits if_splits)
qed simp_all

section \<open>Properties\<close>

text \<open>
  C15: when a tool call reaches its tool. The call of a model is dispatched exactly when its
  normalised name is allowed, the exec policy bypasses the approval or it needs none or got it,
  and the tool's own gate is passed: secrets in the address of a fetch, metacharacters, policy
  and suspicious patterns of a shell command, metacharacters and policy of a process.
\<close>

theorem dispatch_iff_gates_pass:
  "execute_tool_gate show_json name input handle allowed caller exec manager = Dispatched t \<longleftrightarrow>
     t = normalize_tool_name name
     \<and> (case allowed of Some ts \<Rightarrow> t \<in> set ts | None \<Rightarrow> True)
     \<and> approved_call show_json handle caller exec t input
     \<and> (if t \<in> {''web_fetch'', ''browser_navigate''} then
          net_clean input
        else if t = ''shell_exec'' then shell_ok (shell_command input) exec
        else if t = ''process_start'' then process_ok manager input exec
        else True)"
proof -
  define tool where "tool = normalize_tool_name name"
  define g where "g = (if tool \<in> {''web_fetch'', ''browser_navigate''} then net_gate input
    else if tool = ''shell_exec'' then shell_exec_gate input exec
    else if tool = ''process_start'' then process_start_gate manager input exec else None)"
  have "g \<noteq> Some (Dispatched t)" using gates_stop by (simp add: g_def)
  then have "execute_tool_gate show_json name input handle allowed caller exec manager = Dispatched t \<longleftrightarrow>
      t = tool \<and> (case allowed of Some ts \<Rightarrow> tool \<in> set ts | None \<Rightarrow> True)
      \<and> approval_gate show_json handle caller exec tool input = None \<and> g = None"
    using approval_gate_stops [of show_json handle caller exec tool input t]
    unfolding execute_tool_gate_def Let_def tool_def [symmetric] g_def [symmetric]
    by (cases "approval_gate show_json handle caller exec tool input"; cases g; cases allowed) auto
  moreover have "g = None \<longleftrightarrow> (if tool \<in> {''web_fetch'', ''browser_navigate''} then net_clean input
      else if tool = ''shell_exec'' then shell_ok (shell_command input) exec
      else if tool = ''process_start'' then process_ok manager input exec else True)"
    unfolding g_def by (simp add: net_gate_None shell_exec_gate_None process_start_gate_None)
  ultimately show ?thesis unfolding approval_gate_None tool_def [symmetric] by (cases "t = tool") (hypsubst, simp, simp)
qed

text \<open>Normalising a tool name twice changes nothing more.\<close>

theorem normalize_idempotent: "normalize_tool_name (normalize_tool_name n) = normalize_tool_name n"
  using map_tool_name_known by (auto simp: normalize_tool_name_def split: option.splits)

text \<open>
  The arguments of a process are not checked against the allow list: with a listed shell as the
  command, any command without metacharacters can be given as its inline script.
\<close>

theorem process_arguments_unchecked:
  assumes "exec_mode p = ExecAllowlist" "listed p ''bash''" "contains_shell_metacharacters script = None"
  shows "process_start_gate True
      (JObject [(''command'', JString ''bash''), (''args'', JArray [JString ''-c'', JString script])]) (Some p) = None"
proof -
  have b: "extract_base_command ''bash'' = ''bash''" by (simp add: line_defs)
  then have "extract_shell_wrapper_commands ''bash'' = Some []"
    by (simp add: extract_shell_wrapper_commands_def normalized_base_def SHELL_WRAPPERS_def SHELL_INLINE_FLAGS_def line_defs)
  moreover have "contains_shell_metacharacters ''bash'' = None" "contains_shell_metacharacters ''-c'' = None"
    by (simp_all add: contains_shell_metacharacters_def newline_def starts_with_def)
  ultimately show ?thesis
    using assms b by (simp add: process_start_gate_None process_ok_def string_field_def process_args_def policy_admits_def
        List.map_filter_def)
qed

theorem process_arguments_unchecked_witness:
  "process_start_gate True
      (JObject [(''command'', JString ''bash''), (''args'', JArray [JString ''-c'', JString ''date''])])
      (Some (default_exec_policy\<lparr>allowed_commands := [''bash'']\<rparr>)) = None"
  by (rule process_arguments_unchecked)
    (simp_all add: default_exec_policy_def listed_def contains_shell_metacharacters_def newline_def starts_with_def)

text \<open>
  The star of an allow list. It bypasses the approval of shell commands as if every command were
  allowed, but the allow list itself takes it for a name: no command but one named \<open>*\<close> passes.
\<close>

theorem star_is_no_wildcard:
  assumes "exec_mode p = ExecAllowlist" "allowed_commands p = [''*'']" "safe_bins p = []"
    and "extract_base_command c \<notin> {[], ''*''}"
  shows "policy_bypasses_approval ''shell_exec'' (Some p) \<and> shell_exec_gate (JObject [(''command'', JString c)]) (Some p) \<noteq> None"
  using assms by (auto simp: policy_bypasses_approval_def is_shell_tool_def shell_exec_gate_None shell_ok_def shell_command_def
      string_field_def policy_admits_def listed_def)

text \<open>
  A tag skips the approval. An agent whose manifest has a tag that starts with \<open>hand:\<close> is taken
  for a curated package, and the tag may come from any manifest: an agent spawned by another
  with the tool \<open>agent_spawn\<close> is never asked for, whatever the policy of approvals says.
\<close>

theorem spawned_hand_needs_no_approval:
  assumes "tool_agent_spawn fm sha env k m caller i = (Inr i, k')"
    and "t \<in> set (man_tags m)" "starts_with t ''hand:''" "parse_id agent = Some i"
  shows "kernel_request_approval parse_id ask r now k' am agent tool summary = Inr True"
proof -
  have "\<exists>e. get_agent (k_registry k') i = Some e \<and> agent_tags e = man_tags m"
    using assms(1) unfolding tool_agent_spawn_def by (rule spawned_tags)
  then show ?thesis using assms(2-4) by (auto simp: kernel_request_approval_def auto_approved_def list_ex_iff)
qed

theorem spawned_hand_needs_no_approval_witness:
  "\<exists>k k'. tool_agent_spawn plain_formats (\<lambda>s. s) sample_env k ((named ''kid'')\<lparr>man_tags := [''hand:x'']\<rparr>) 7 2 = (Inr 2, k')
     \<and> kernel_request_approval (\<lambda>_. Some 2) (\<lambda>_. approval_decision.Denied) 3 5 k' (new_approval_manager default_approval_policy) ''2'' ''shell_exec'' ''rm'' = Inr True"
proof -
  let ?m = "(named ''kid'')\<lparr>man_tags := [''hand:x'']\<rparr>"
  obtain k' where "spawn_agent_with_parent plain_formats (\<lambda>s. s) sample_env booted ?m (Some 7) 2 = (Inr 2, k')"
    using spawn_sample [of booted ?m "Some 7" 2] by (fastforce simp: boot_def new_registry_def get_agent_def)
  then have "tool_agent_spawn plain_formats (\<lambda>s. s) sample_env booted ?m 7 2 = (Inr 2, k')"
    by (simp add: tool_agent_spawn_def)
  then show ?thesis
    using spawned_hand_needs_no_approval [of plain_formats "\<lambda>s. s" sample_env booted ?m 7 2 k' "''hand:x''" "\<lambda>_. Some 2"]
    by (fastforce simp: starts_with_def)
qed

end
