(* ===== verification/Utf8.thy ===== *)
theory Utf8
  imports StrUtils
begin

text \<open>
  Characters of a Rust string, for the code that walks or cuts text by characters: the split of a
  byte string into UTF-8 characters (\<open>str::chars\<close>), well-formed strings, which every \<open>String\<close>
  is, cutting at character boundaries, and \<open>str::rfind\<close>. A well-formed character is judged by
  its leading byte and its length; overlong forms and surrogates are not told apart.
\<close>

section \<open>Characters\<close>

function utf8_chars :: "string \<Rightarrow> string list" where
  "utf8_chars [] = []"
| "utf8_chars (c # cs) = (c # takeWhile is_continuation cs) # utf8_chars (dropWhile is_continuation cs)"
  by pat_completeness auto
termination by (relation "measure length") (auto simp: le_imp_less_Suc length_dropWhile_le)

definition char_width :: "char \<Rightarrow> nat" where
  "char_width c = (let n = (of_char c :: nat) in
     if n < 128 then 1 else if n < 192 then 0 else if n < 224 then 2 else if n < 240 then 3 else 4)"

definition utf8 :: "string \<Rightarrow> bool" where
  "utf8 s = list_all (\<lambda>ch. length ch = char_width (hd ch)) (utf8_chars s)"

lemma concat_utf8_chars: "concat (utf8_chars s) = s"
  by (induction s rule: utf8_chars.induct) auto

lemma char_width_continuation: "char_width c = 0 \<longleftrightarrow> is_continuation c"
  by (auto simp: char_width_def is_continuation_def Let_def)

lemma char_width_le: "char_width c \<le> 4"
  by (simp add: char_width_def Let_def)

lemma utf8_Nil [simp]: "utf8 []"
  by (simp add: utf8_def)

lemma utf8_not_continuation: "utf8 (c # cs) \<Longrightarrow> \<not> is_continuation c"
  by (auto simp: utf8_def char_width_continuation [symmetric])

lemma utf8_chars_nonempty: "ch \<in> set (utf8_chars s) \<Longrightarrow> ch \<noteq> []"
  by (induction s rule: utf8_chars.induct) auto

lemma utf8_chars_append:
  assumes "b = [] \<or> \<not> is_continuation (hd b)"
  shows "utf8_chars (a @ b) = utf8_chars a @ utf8_chars b"
proof (induction a rule: utf8_chars.induct)
  case (2 c cs)
  show ?case
  proof (cases "\<forall>x\<in>set cs. is_continuation x")
    case True
    have "takeWhile is_continuation (cs @ b) = cs" "dropWhile is_continuation (cs @ b) = b"
      using True assms by (cases b; simp)+
    then show ?thesis using True by (simp add: takeWhile_eq_all_conv [THEN iffD2] dropWhile_eq_Nil_conv [THEN iffD2])
  next
    case False
    then show ?thesis using 2 by (auto simp: takeWhile_append1 dropWhile_append1)
  qed
qed simp

lemma boundary_iff:
  "i \<le> length s \<Longrightarrow> is_char_boundary s i \<longleftrightarrow> i = 0 \<or> drop i s = [] \<or> \<not> is_continuation (hd (drop i s))"
  by (auto simp: is_char_boundary_def hd_drop_conv_nth)

lemma utf8_cut:
  assumes "utf8 s" "is_char_boundary s i"
  shows "utf8 (take i s)" "utf8 (drop i s)"
proof -
  have i: "i \<le> length s" using assms(2) by (auto simp: is_char_boundary_def split: if_splits)
  have "drop i s = [] \<or> \<not> is_continuation (hd (drop i s))"
    using assms i boundary_iff [OF i] by (cases s) (auto dest: utf8_not_continuation)
  then have "utf8_chars s = utf8_chars (take i s) @ utf8_chars (drop i s)"
    using utf8_chars_append [of "drop i s" "take i s"] by simp
  then show "utf8 (take i s)" "utf8 (drop i s)" using assms(1) by (auto simp: utf8_def)
qed

lemma utf8_append: "utf8 a \<Longrightarrow> utf8 b \<Longrightarrow> utf8 (a @ b)"
proof -
  assume ab: "utf8 a" "utf8 b"
  then have "b = [] \<or> \<not> is_continuation (hd b)" by (cases b) (auto dest: utf8_not_continuation)
  then show "utf8 (a @ b)" using ab by (simp add: utf8_def utf8_chars_append)
qed

lemma utf8_ascii:
  assumes "utf8 (c # cs)" "char_width c = 1"
  shows "utf8 cs"
proof -
  have "takeWhile is_continuation cs = []" using assms by (simp add: utf8_def)
  moreover from this have "dropWhile is_continuation cs = cs" by (metis append_Nil takeWhile_dropWhile_id)
  ultimately show ?thesis using assms(1) by (simp add: utf8_def)
qed

text \<open>A cut behind at least four bytes of a well-formed string is behind a character.\<close>

lemma walk_back_pos:
  assumes "utf8 s" "s \<noteq> []" "4 \<le> m" "m \<le> length s"
  shows "0 < walk_back s m"
proof (rule ccontr)
  assume z: "\<not> 0 < walk_back s m"
  obtain c cs where s: "s = c # cs" using assms(2) by (cases s) auto
  let ?ch = "c # takeWhile is_continuation cs"
  have "length ?ch \<le> 4" using assms(1) s char_width_le [of c] by (simp add: utf8_def)
  moreover have "is_char_boundary s (length ?ch)"
  proof -
    have d: "drop (length ?ch) s = dropWhile is_continuation cs"
      using s by (simp add: dropWhile_eq_drop)
    have l: "length ?ch \<le> length s" using s by (simp add: length_takeWhile_le)
    show ?thesis unfolding boundary_iff [OF l] d by (metis hd_dropWhile)
  qed
  ultimately show False
    using walk_back_maximal [of s m "length ?ch"] z assms(3) by auto
qed

text \<open>The em dash, U+2014.\<close>

definition em_dash :: string where
  "em_dash = [CHR 0xE2, CHR 0x80, CHR 0x94]"

text \<open>A pattern whose first character does not occur before it is found where it is.\<close>

lemma str_find_hit: "c \<notin> set a \<Longrightarrow> str_find (a @ (c # p) @ b) (c # p) = Some (length a)"
  by (induction a) (auto simp: starts_with_def)

section \<open>Reverse search\<close>

fun str_rfind :: "string \<Rightarrow> string \<Rightarrow> nat option" where
  "str_rfind [] p = (if p = [] then Some 0 else None)"
| "str_rfind (c # cs) p =
     (case str_rfind cs p of
        Some k \<Rightarrow> Some (Suc k)
      | None \<Rightarrow> if starts_with (c # cs) p then Some 0 else None)"

lemma str_rfind_Some: "str_rfind s p = Some k \<Longrightarrow> starts_with (drop k s) p \<and> k + length p \<le> length s"
proof (induction s p arbitrary: k rule: str_rfind.induct)
  case (2 c cs p)
  then show ?case by (auto simp: starts_with_iff split: option.splits if_splits) (metis length_Cons length_append le_add1)
qed (auto simp: starts_with_def split: if_splits)

lemma str_rfind_None: "str_rfind s p = None \<Longrightarrow> j \<le> length s \<Longrightarrow> \<not> starts_with (drop j s) p"
proof (induction s p arbitrary: j rule: str_rfind.induct)
  case (2 c cs p)
  then show ?case by (cases j) (auto split: option.splits if_splits)
qed (auto simp: starts_with_def split: if_splits)

lemma str_rfind_last: "str_rfind s p = Some k \<Longrightarrow> k < j \<Longrightarrow> j \<le> length s \<Longrightarrow> \<not> starts_with (drop j s) p"
proof (induction s p arbitrary: k j rule: str_rfind.induct)
  case (2 c cs p)
  then show ?case by (cases j) (auto dest: str_rfind_None split: option.splits if_splits)
qed simp

end
