(* ===== verification/Router.thy ===== *)
theory Router
  imports Utf8
begin

text \<open>
  The routing of channel messages to agents: \<open>openfang-channels/src/router.rs\<close>, the match rules
  of \<open>openfang-types/src/config.rs\<close>, the message types and the splitting of long messages of
  \<open>openfang-channels/src/types.rs\<close>, and the routing part of \<open>openfang-channels/src/bridge.rs\<close>.
  The derived \<open>Debug\<close> text of a channel type, which is the key of channel routes, and the answers
  of the kernel handle are parameters. A mutex is taken for one operation at a time.
\<close>

section \<open>Channel types and messages\<close>

datatype channel_type =
    Telegram | WhatsApp | Slack | Discord | Signal | Matrix | Email | Teams | Mattermost | WebChat | CLI | Mqtt
  | CustomChannel string

record channel_user =
  platform_id :: string
  display_name :: string
  openfang_user :: "string option"

datatype channel_content =
    TextContent string
  | ImageContent string "string option"
  | FileContent string string "string option" "u64 option"
  | FileData "u8 list" string string
  | VoiceContent string u32
  | LocationContent f64 f64
  | CommandContent string "string list"
  | MultipartContent "channel_content list"

record channel_message =
  cm_channel :: channel_type
  platform_message_id :: string
  cm_sender :: channel_user
  cm_content :: channel_content
  target_agent :: "uuid option"
  cm_timestamp :: instant
  is_group :: bool
  cm_thread_id :: "string option"
  cm_metadata :: "(string, json) dashmap"

definition CHANNELS_WITH_PLATFORM_ID_AS_CHANNEL :: "string list" where
  "CHANNELS_WITH_PLATFORM_ID_AS_CHANNEL =
     [''discord'', ''slack'', ''telegram'', ''matrix'', ''mattermost'', ''teams'', ''webex'', ''rocketchat'',
      ''nextcloud'', ''pumble'', ''revolt'', ''guilded'', ''feishu'', ''lark'', ''keybase'', ''google_chat'',
      ''line'', ''twist'', ''flock'', ''twitch'']"

fun channel_type_to_str :: "channel_type \<Rightarrow> string" where
  "channel_type_to_str Telegram = ''telegram''"
| "channel_type_to_str Discord = ''discord''"
| "channel_type_to_str Slack = ''slack''"
| "channel_type_to_str WhatsApp = ''whatsapp''"
| "channel_type_to_str Signal = ''signal''"
| "channel_type_to_str Matrix = ''matrix''"
| "channel_type_to_str Email = ''email''"
| "channel_type_to_str Teams = ''teams''"
| "channel_type_to_str Mattermost = ''mattermost''"
| "channel_type_to_str WebChat = ''webchat''"
| "channel_type_to_str CLI = ''cli''"
| "channel_type_to_str (CustomChannel s) = s"
| "channel_type_to_str Mqtt = ''unknown''"

text \<open>\<open>ChannelMessage::channel_id\<close> spells the channels itself, and knows MQTT.\<close>

fun channel_name :: "channel_type \<Rightarrow> string" where
  "channel_name Mqtt = ''mqtt''"
| "channel_name (CustomChannel s) = to_lowercase s"
| "channel_name ct = channel_type_to_str ct"

definition metadata_str :: "channel_message \<Rightarrow> string \<Rightarrow> string option" where
  "metadata_str m key = Option.bind (dm_get (cm_metadata m) key) json_as_str"

definition message_channel_id :: "channel_message \<Rightarrow> string option" where
  "message_channel_id m =
     (if channel_name (cm_channel m) \<in> set CHANNELS_WITH_PLATFORM_ID_AS_CHANNEL
      then Some (platform_id (cm_sender m)) else metadata_str m ''channel_id'')"

definition sender_user_id :: "channel_message \<Rightarrow> string" where
  "sender_user_id m = (case metadata_str m ''sender_user_id'' of Some u \<Rightarrow> u | None \<Rightarrow> platform_id (cm_sender m))"

section \<open>Bindings\<close>

record binding_match_rule =
  rule_channel :: "string option"
  rule_account_id :: "string option"
  rule_peer_id :: "string option"
  rule_guild_id :: "string option"
  rule_channel_id :: "string option"
  rule_roles :: "string list"

definition default_rule :: binding_match_rule where
  "default_rule = \<lparr>rule_channel = None, rule_account_id = None, rule_peer_id = None, rule_guild_id = None,
     rule_channel_id = None, rule_roles = []\<rparr>"

record agent_binding =
  bound_agent :: string
  match_rule :: binding_match_rule

text \<open>The score is an \<open>u32\<close> of at most 25.\<close>

definition specificity :: "binding_match_rule \<Rightarrow> nat" where
  "specificity rule =
     (if rule_peer_id rule \<noteq> None then 8 else 0)
     + (if rule_channel_id rule \<noteq> None then 8 else 0)
     + (if rule_guild_id rule \<noteq> None then 4 else 0)
     + (if rule_roles rule \<noteq> [] then 2 else 0)
     + (if rule_account_id rule \<noteq> None then 2 else 0)
     + (if rule_channel rule \<noteq> None then 1 else 0)"

record binding_context =
  ctx_channel :: string
  ctx_account_id :: "string option"
  ctx_peer_id :: string
  ctx_guild_id :: "string option"
  ctx_channel_id :: "string option"
  ctx_roles :: "string list"

definition binding_matches :: "agent_binding \<Rightarrow> binding_context \<Rightarrow> bool" where
  "binding_matches b ctx =
     (let rule = match_rule b in
      if (case rule_channel rule of Some ch \<Rightarrow> ch \<noteq> ctx_channel ctx | None \<Rightarrow> False) then False
      else if (case rule_account_id rule of Some acc \<Rightarrow> ctx_account_id ctx \<noteq> Some acc | None \<Rightarrow> False) then False
      else if (case rule_peer_id rule of Some p \<Rightarrow> p \<noteq> ctx_peer_id ctx | None \<Rightarrow> False) then False
      else if (case rule_guild_id rule of Some g \<Rightarrow> ctx_guild_id ctx \<noteq> Some g | None \<Rightarrow> False) then False
      else if (case rule_channel_id rule of Some c \<Rightarrow> ctx_channel_id ctx \<noteq> Some c | None \<Rightarrow> False) then False
      else if rule_roles rule \<noteq> [] \<and> \<not> list_ex (\<lambda>r. r \<in> set (ctx_roles ctx)) (rule_roles rule) then False
      else True)"

definition binding_context_for :: "channel_message \<Rightarrow> binding_context" where
  "binding_context_for m =
     \<lparr>ctx_channel = channel_type_to_str (cm_channel m), ctx_account_id = None, ctx_peer_id = sender_user_id m,
      ctx_guild_id = metadata_str m ''guild_id'', ctx_channel_id = message_channel_id m, ctx_roles = []\<rparr>"

section \<open>The router\<close>

datatype broadcast_strategy = Parallel | SequentialBroadcast

record broadcast_config =
  bc_strategy :: broadcast_strategy
  bc_routes :: "(string, string list) dashmap"

record agent_router =
  user_defaults :: "(string, uuid) dashmap"
  direct_routes :: "(string \<times> string, uuid) dashmap"
  default_agent :: "uuid option"
  channel_defaults :: "(string, uuid) dashmap"
  channel_default_names :: "(string, string) dashmap"
  rt_bindings :: "(agent_binding \<times> string) list"
  rt_broadcast :: broadcast_config
  agent_name_cache :: "(string, uuid) dashmap"

definition new_router :: agent_router where
  "new_router = \<lparr>user_defaults = [], direct_routes = [], default_agent = None, channel_defaults = [],
     channel_default_names = [], rt_bindings = [], rt_broadcast = \<lparr>bc_strategy = Parallel, bc_routes = []\<rparr>,
     agent_name_cache = []\<rparr>"

definition set_default :: "agent_router \<Rightarrow> uuid \<Rightarrow> agent_router" where
  "set_default r i = r\<lparr>default_agent := Some i\<rparr>"

definition set_channel_default :: "agent_router \<Rightarrow> string \<Rightarrow> uuid \<Rightarrow> agent_router" where
  "set_channel_default r key i = r\<lparr>channel_defaults := dm_insert key i (channel_defaults r)\<rparr>"

definition set_channel_default_with_name :: "agent_router \<Rightarrow> string \<Rightarrow> uuid \<Rightarrow> string \<Rightarrow> agent_router" where
  "set_channel_default_with_name r key i name =
     r\<lparr>channel_defaults := dm_insert key i (channel_defaults r),
       channel_default_names := dm_insert key name (channel_default_names r)\<rparr>"

definition channel_default_name :: "agent_router \<Rightarrow> string \<Rightarrow> string option" where
  "channel_default_name r key = dm_get (channel_default_names r) key"

definition update_channel_default :: "agent_router \<Rightarrow> string \<Rightarrow> uuid \<Rightarrow> agent_router" where
  "update_channel_default r key i = r\<lparr>channel_defaults := dm_insert key i (channel_defaults r)\<rparr>"

definition set_user_default :: "agent_router \<Rightarrow> string \<Rightarrow> uuid \<Rightarrow> agent_router" where
  "set_user_default r key i = r\<lparr>user_defaults := dm_insert key i (user_defaults r)\<rparr>"

definition set_direct_route :: "agent_router \<Rightarrow> string \<Rightarrow> string \<Rightarrow> uuid \<Rightarrow> agent_router" where
  "set_direct_route r key user i = r\<lparr>direct_routes := dm_insert (key, user) i (direct_routes r)\<rparr>"

text \<open>\<open>sort_by\<close> is stable, as \<open>sort_key\<close> is; the most specific rule comes first.\<close>

definition sort_bindings :: "(agent_binding \<times> string) list \<Rightarrow> (agent_binding \<times> string) list" where
  "sort_bindings = sort_key (\<lambda>b. - int (specificity (match_rule (fst b))))"

definition load_bindings :: "agent_router \<Rightarrow> agent_binding list \<Rightarrow> agent_router" where
  "load_bindings r bs = r\<lparr>rt_bindings := sort_bindings (map (\<lambda>b. (b, bound_agent b)) bs)\<rparr>"

definition load_broadcast :: "agent_router \<Rightarrow> broadcast_config \<Rightarrow> agent_router" where
  "load_broadcast r bc = r\<lparr>rt_broadcast := bc\<rparr>"

definition register_agent :: "agent_router \<Rightarrow> string \<Rightarrow> uuid \<Rightarrow> agent_router" where
  "register_agent r name i = r\<lparr>agent_name_cache := dm_insert name i (agent_name_cache r)\<rparr>"

definition add_binding :: "agent_router \<Rightarrow> agent_binding \<Rightarrow> agent_router" where
  "add_binding r b = r\<lparr>rt_bindings := sort_bindings (rt_bindings r @ [(b, bound_agent b)])\<rparr>"

definition remove_binding :: "agent_router \<Rightarrow> nat \<Rightarrow> agent_binding option \<times> agent_router" where
  "remove_binding r i =
     (if i < length (rt_bindings r)
      then (Some (fst (rt_bindings r ! i)), r\<lparr>rt_bindings := take i (rt_bindings r) @ drop (Suc i) (rt_bindings r)\<rparr>)
      else (None, r))"

definition list_bindings :: "agent_router \<Rightarrow> agent_binding list" where
  "list_bindings r = map fst (rt_bindings r)"

fun resolve_among :: "agent_router \<Rightarrow> binding_context \<Rightarrow> (agent_binding \<times> string) list \<Rightarrow> uuid option" where
  "resolve_among r ctx [] = None"
| "resolve_among r ctx ((b, _) # bs) =
     (if binding_matches b ctx then
        case dm_get (agent_name_cache r) (bound_agent b) of Some i \<Rightarrow> Some i | None \<Rightarrow> resolve_among r ctx bs
      else resolve_among r ctx bs)"

definition resolve_binding :: "agent_router \<Rightarrow> binding_context \<Rightarrow> uuid option" where
  "resolve_binding r ctx = resolve_among r ctx (rt_bindings r)"

definition resolve_with_context ::
  "(channel_type \<Rightarrow> string) \<Rightarrow> agent_router \<Rightarrow> channel_type \<Rightarrow> string \<Rightarrow> string option \<Rightarrow> binding_context \<Rightarrow> uuid option" where
  "resolve_with_context debug r ct user user_key ctx =
     (case resolve_binding r ctx of
        Some i \<Rightarrow> Some i
      | None \<Rightarrow>
          (case dm_get (direct_routes r) (debug ct, user) of
             Some i \<Rightarrow> Some i
           | None \<Rightarrow>
               (case Option.bind user_key (dm_get (user_defaults r)) of
                  Some i \<Rightarrow> Some i
                | None \<Rightarrow>
                    (case dm_get (user_defaults r) user of
                       Some i \<Rightarrow> Some i
                     | None \<Rightarrow>
                         (case dm_get (channel_defaults r) (debug ct) of
                            Some i \<Rightarrow> Some i
                          | None \<Rightarrow> default_agent r)))))"

definition resolve_with_channel_id ::
  "(channel_type \<Rightarrow> string) \<Rightarrow> agent_router \<Rightarrow> channel_type \<Rightarrow> string \<Rightarrow> string option \<Rightarrow> string option \<Rightarrow> uuid option" where
  "resolve_with_channel_id debug r ct user user_key chan =
     resolve_with_context debug r ct user user_key
       \<lparr>ctx_channel = channel_type_to_str ct, ctx_account_id = None, ctx_peer_id = user, ctx_guild_id = None,
        ctx_channel_id = chan, ctx_roles = []\<rparr>"

definition resolve_route ::
  "(channel_type \<Rightarrow> string) \<Rightarrow> agent_router \<Rightarrow> channel_type \<Rightarrow> string \<Rightarrow> string option \<Rightarrow> uuid option" where
  "resolve_route debug r ct user user_key = resolve_with_channel_id debug r ct user user_key None"

definition resolve_broadcast :: "agent_router \<Rightarrow> string \<Rightarrow> (string \<times> uuid option) list" where
  "resolve_broadcast r peer =
     (case dm_get (bc_routes (rt_broadcast r)) peer of
        Some names \<Rightarrow> map (\<lambda>n. (n, dm_get (agent_name_cache r) n)) names
      | None \<Rightarrow> [])"

definition broadcast_strategy :: "agent_router \<Rightarrow> broadcast_strategy" where
  "broadcast_strategy r = bc_strategy (rt_broadcast r)"

definition has_broadcast :: "agent_router \<Rightarrow> string \<Rightarrow> bool" where
  "has_broadcast r peer = (dm_get (bc_routes (rt_broadcast r)) peer \<noteq> None)"

text \<open>
  The routing of one message in the bridge, behind the broadcasts: a target named by the adapter,
  the router, then the agent named \<open>assistant\<close> or the first of the list, which becomes the
  default of the user.
\<close>

record bridge_handle =
  find_agent_by_name :: "string \<Rightarrow> string + uuid option"
  list_agents :: "string + (uuid \<times> string) list"

definition found_agent :: "'a bridge_handle_scheme \<Rightarrow> string \<Rightarrow> uuid option" where
  "found_agent h name = (case find_agent_by_name h name of Inr (Some i) \<Rightarrow> Some i | _ \<Rightarrow> None)"

definition fallback_agent :: "'a bridge_handle_scheme \<Rightarrow> uuid option" where
  "fallback_agent h =
     (case found_agent h ''assistant'' of
        Some i \<Rightarrow> Some i
      | None \<Rightarrow> (case list_agents h of Inr ((i, _) # _) \<Rightarrow> Some i | _ \<Rightarrow> None))"

definition route_or_fallback ::
  "(channel_type \<Rightarrow> string) \<Rightarrow> 'a bridge_handle_scheme \<Rightarrow> agent_router \<Rightarrow> uuid option \<Rightarrow> channel_message \<Rightarrow> uuid option \<times> agent_router" where
  "route_or_fallback debug h r routed_by_name m =
     (case or_else routed_by_name
             (resolve_with_context debug r (cm_channel m) (sender_user_id m) (openfang_user (cm_sender m))
                (binding_context_for m)) of
        Some i \<Rightarrow> (Some i, r)
      | None \<Rightarrow>
          (case fallback_agent h of
             Some i \<Rightarrow> (Some i, set_user_default r (sender_user_id m) i)
           | None \<Rightarrow> (None, r)))"

definition route_message ::
  "(channel_type \<Rightarrow> string) \<Rightarrow> 'a bridge_handle_scheme \<Rightarrow> agent_router \<Rightarrow> channel_message \<Rightarrow> uuid option \<times> agent_router" where
  "route_message debug h r m =
     route_or_fallback debug h r (Option.bind (metadata_str m ''target_agent_name'') (found_agent h)) m"

definition try_reresolution ::
  "'a bridge_handle_scheme \<Rightarrow> agent_router \<Rightarrow> string \<Rightarrow> string \<Rightarrow> uuid option \<times> agent_router" where
  "try_reresolution h r err key =
     (if \<not> str_contains (to_lowercase err) ''agent not found'' then (None, r)
      else case Option.bind (channel_default_name r key) (found_agent h) of
        Some i \<Rightarrow> (Some i, update_channel_default r key i)
      | None \<Rightarrow> (None, r))"

section \<open>Splitting long messages\<close>

text \<open>
  The loop may run forever, on a first character longer than the limit; \<open>None\<close> is not returning.
\<close>

definition split_point :: "string \<Rightarrow> nat \<Rightarrow> nat" where
  "split_point remaining max_len =
     (let safe_end = length (safe_truncate_str remaining max_len)
      in case str_rfind (take safe_end remaining) [newline] of Some i \<Rightarrow> i | None \<Rightarrow> safe_end)"

definition skip_newline :: "string \<Rightarrow> string" where
  "skip_newline rest =
     (case strip_prefix [CHR 0x0D, newline] rest of
        Some r \<Rightarrow> r
      | None \<Rightarrow> (case strip_prefix [newline] rest of Some r \<Rightarrow> r | None \<Rightarrow> rest))"

partial_function (option) split_loop :: "nat \<Rightarrow> string \<Rightarrow> string list option" where
  [code]: "split_loop max_len remaining =
     (if remaining = [] then Some []
      else if length remaining \<le> max_len then Some [remaining]
      else Option.bind (split_loop max_len (skip_newline (drop (split_point remaining max_len) remaining)))
        (\<lambda>cs. Some (take (split_point remaining max_len) remaining # cs)))"

definition split_message :: "string \<Rightarrow> nat \<Rightarrow> string list option" where
  "split_message txt max_len = (if length txt \<le> max_len then Some [txt] else split_loop max_len txt)"

section \<open>Histories of a router\<close>

datatype router_op =
    SetDefault uuid
  | SetChannelDefault string uuid
  | SetChannelDefaultWithName string uuid string
  | UpdateChannelDefault string uuid
  | SetUserDefault string uuid
  | SetDirectRoute string string uuid
  | LoadBindings "agent_binding list"
  | LoadBroadcast broadcast_config
  | RegisterAgent string uuid
  | AddBinding agent_binding
  | RemoveBinding nat

fun router_step :: "agent_router \<Rightarrow> router_op \<Rightarrow> agent_router" where
  "router_step r (SetDefault i) = set_default r i"
| "router_step r (SetChannelDefault key i) = set_channel_default r key i"
| "router_step r (SetChannelDefaultWithName key i name) = set_channel_default_with_name r key i name"
| "router_step r (UpdateChannelDefault key i) = update_channel_default r key i"
| "router_step r (SetUserDefault key i) = set_user_default r key i"
| "router_step r (SetDirectRoute key user i) = set_direct_route r key user i"
| "router_step r (LoadBindings bs) = load_bindings r bs"
| "router_step r (LoadBroadcast bc) = load_broadcast r bc"
| "router_step r (RegisterAgent name i) = register_agent r name i"
| "router_step r (AddBinding b) = add_binding r b"
| "router_step r (RemoveBinding i) = snd (remove_binding r i)"

definition more_specific_first :: "agent_binding list \<Rightarrow> bool" where
  "more_specific_first = sorted_wrt (\<lambda>a b. specificity (match_rule b) \<le> specificity (match_rule a))"

lemma sort_bindings_specific: "more_specific_first (map fst (sort_bindings bs))"
proof -
  have "sorted (map (\<lambda>b. - int (specificity (match_rule (fst b)))) (sort_bindings bs))"
    unfolding sort_bindings_def by (rule sorted_sort_key)
  then show ?thesis by (simp add: more_specific_first_def sorted_map sorted_wrt_map)
qed

lemma more_specific_delete:
  assumes "more_specific_first bs"
  shows "more_specific_first (take i bs @ drop (Suc i) bs)"
proof (cases "i < length bs")
  case True
  then have "bs = take i bs @ bs ! i # drop (Suc i) bs" by (rule id_take_nth_drop)
  then have "more_specific_first (take i bs @ bs ! i # drop (Suc i) bs)" using assms by simp
  then show ?thesis by (simp add: more_specific_first_def sorted_wrt_append)
qed (use assms in simp)

interpretation router: machine router_step "\<lambda>_ _. True" "\<lambda>r. more_specific_first (list_bindings r)"
proof unfold_locales
  fix r e
  assume "more_specific_first (list_bindings r)"
  then show "more_specific_first (list_bindings (router_step r e))"
    by (cases e) (simp_all add: set_default_def set_channel_default_def set_channel_default_with_name_def
        update_channel_default_def set_user_default_def set_direct_route_def load_bindings_def load_broadcast_def
        register_agent_def add_binding_def remove_binding_def list_bindings_def sort_bindings_specific
        more_specific_delete flip: take_map drop_map)
qed

lemma reachable_bindings_sorted: "more_specific_first (list_bindings (run router_step new_router es))"
  using router.run_inv [of new_router es] by (simp add: new_router_def list_bindings_def more_specific_first_def)

text \<open>The bindings a message can be routed by.\<close>

definition candidate :: "agent_router \<Rightarrow> binding_context \<Rightarrow> agent_binding \<Rightarrow> bool" where
  "candidate r ctx b \<longleftrightarrow> binding_matches b ctx \<and> dm_get (agent_name_cache r) (bound_agent b) \<noteq> None"

lemma resolve_among_candidates:
  "resolve_among r ctx bs =
    (case filter (candidate r ctx) (map fst bs) of [] \<Rightarrow> None | b # _ \<Rightarrow> dm_get (agent_name_cache r) (bound_agent b))"
  by (induction r ctx bs rule: resolve_among.induct) (auto simp: candidate_def split: option.splits)

lemma more_specific_filter: "more_specific_first bs \<Longrightarrow> more_specific_first (filter P bs)"
  by (simp add: more_specific_first_def sorted_wrt_filter)

section \<open>Lemmas on splitting\<close>

definition newline_mark :: "string \<Rightarrow> bool" where
  "newline_mark s \<longleftrightarrow> s \<in> {[], [newline], [CHR 0x0D, newline]}"

lemma strip_prefix_Some: "strip_prefix p s = Some r \<Longrightarrow> s = p @ r"
  by (auto simp: strip_prefix_def starts_with_iff split: if_splits)

lemma skip_newline_mark: "\<exists>x. newline_mark x \<and> rest = x @ skip_newline rest"
  unfolding skip_newline_def newline_mark_def
  by (cases "strip_prefix [CHR 0x0D, newline] rest"; cases "strip_prefix [newline] rest")
    (fastforce dest: strip_prefix_Some)+

lemma newline_width: "char_width newline = 1" "char_width (CHR 0x0D) = 1" "\<not> is_continuation newline"
  by (simp_all add: char_width_def newline_def is_continuation_def)

lemma utf8_after_mark: "newline_mark x \<Longrightarrow> utf8 (x @ r) \<Longrightarrow> utf8 r"
  by (auto simp: newline_mark_def newline_width dest!: utf8_ascii)

lemma utf8_skip_newline: "utf8 rest \<Longrightarrow> utf8 (skip_newline rest)"
  using skip_newline_mark [of rest] utf8_after_mark by metis

lemma split_point_props:
  assumes "utf8 s" "4 \<le> m" "m < length s"
  shows "split_point s m \<le> m" "is_char_boundary s (split_point s m)"
    "length (skip_newline (drop (split_point s m) s)) < length s"
proof -
  define e where "e = length (safe_truncate_str s m)"
  have "s \<noteq> []" using assms(3) by auto
  then have e: "e = walk_back s m" "e \<le> m" "0 < e" "is_char_boundary s e"
    using assms walk_back_le [of s m] walk_back_pos [of s m] walk_back_boundary [of s m]
    by (simp_all add: e_def safe_truncate_str_def)
  let ?k = "split_point s m"
  have "?k \<le> m \<and> is_char_boundary s ?k \<and> (0 < ?k \<or> (\<exists>r. s = newline # r))"
  proof (cases "str_rfind (take e s) [newline]")
    case None
    then show ?thesis using e by (simp add: split_point_def e_def [symmetric])
  next
    case (Some k)
    then have k: "k < e" "starts_with (drop k (take e s)) [newline]"
      using str_rfind_Some [OF Some] e(2) assms(3) by auto
    then obtain r where "drop k (take e s) = newline # r" by (auto simp: starts_with_iff)
    then have "take e s ! k = newline" by (rule nth_via_drop)
    then have n: "s ! k = newline" using k(1) by simp
    then have "is_char_boundary s k"
      using k(1) e(2) assms(3) newline_width by (simp add: is_char_boundary_def)
    moreover have "k = 0 \<Longrightarrow> s = newline # tl s" using n \<open>s \<noteq> []\<close> by (cases s) auto
    ultimately show ?thesis using Some k(1) e(2) by (auto simp: split_point_def e_def [symmetric])
  qed
  then have p: "0 < ?k \<or> (\<exists>r. s = newline # r)" and k: "?k \<le> m" "is_char_boundary s ?k" by simp_all
  show "?k \<le> m" "is_char_boundary s ?k" by (rule k)+
  obtain x where x: "drop ?k s = x @ skip_newline (drop ?k s)" using skip_newline_mark by blast
  have len: "length (skip_newline (drop ?k s)) \<le> length s - ?k" by (metis x length_append length_drop le_add2)
  show "length (skip_newline (drop ?k s)) < length s"
  proof (cases "0 < ?k")
    case True
    then show ?thesis using len assms(3) by linarith
  next
    case False
    with p obtain r where "drop ?k s = newline # r" by auto
    then have "skip_newline (drop ?k s) = r" by (simp add: skip_newline_def strip_prefix_def starts_with_def newline_def)
    then show ?thesis using \<open>drop ?k s = newline # r\<close> False by (auto dest: arg_cong [of _ _ length])
  qed
qed

lemma split_loop_pieces:
  assumes "4 \<le> m" "utf8 s"
  shows "\<exists>ps. split_loop m s = Some (map fst ps) \<and> list_all (\<lambda>(c, x). length c \<le> m \<and> utf8 c \<and> newline_mark x) ps
    \<and> s = concat (map (\<lambda>(c, x). c @ x) ps)"
  using assms(2)
proof (induction s rule: length_induct)
  case (1 s)
  show ?case
  proof (cases "length s \<le> m")
    case True
    then show ?thesis
      by (cases "s = []") (use 1(2) in \<open>auto simp: split_loop.simps newline_mark_def intro: exI [of _ "[]"] exI [of _ "[(s, [])]"]\<close>)
  next
    case False
    let ?k = "split_point s m"
    let ?rest = "skip_newline (drop ?k s)"
    have sp: "?k \<le> m" "is_char_boundary s ?k" "length ?rest < length s"
      using split_point_props [OF 1(2) assms(1)] False by simp_all
    obtain x where x: "newline_mark x" "drop ?k s = x @ ?rest" using skip_newline_mark by blast
    have "utf8 ?rest" using utf8_cut(2) [OF 1(2) sp(2)] by (rule utf8_skip_newline)
    with 1(1) sp(3) obtain ps where ps: "split_loop m ?rest = Some (map fst ps)"
      "list_all (\<lambda>(c, x). length c \<le> m \<and> utf8 c \<and> newline_mark x) ps" "?rest = concat (map (\<lambda>(c, x). c @ x) ps)"
      by blast
    have "s = take ?k s @ x @ ?rest" using x(2) by (metis append_take_drop_id)
    moreover have "split_loop m s = Some (take ?k s # map fst ps)"
      using False ps(1) by (subst split_loop.simps) auto
    ultimately show ?thesis
      using ps(2,3) x(1) sp(1) utf8_cut(1) [OF 1(2) sp(2)] False
      by (intro exI [of _ "(take ?k s, x) # ps"]) auto
  qed
qed

section \<open>Properties\<close>

text \<open>
  C29: bindings before routes, the most specific first. In every reachable router, a message goes to
  the agent of a matching binding whose agent is known and than which no other such binding is
  more specific; only when there is none do the direct route, the default of the user's key, the
  default of the platform user, that of the channel and that of the system decide, in this order.
\<close>

theorem most_specific_binding_wins:
  fixes es
  defines "r \<equiv> run router_step new_router es"
  shows "case filter (candidate r ctx) (list_bindings r) of
      [] \<Rightarrow> resolve_with_context debug r ct user user_key ctx =
        first_some [dm_get (direct_routes r) (debug ct, user), Option.bind user_key (dm_get (user_defaults r)),
          dm_get (user_defaults r) user, dm_get (channel_defaults r) (debug ct), default_agent r]
    | b # bs \<Rightarrow> resolve_with_context debug r ct user user_key ctx = dm_get (agent_name_cache r) (bound_agent b)
        \<and> list_all (\<lambda>c. specificity (match_rule c) \<le> specificity (match_rule b)) bs"
proof (cases "filter (candidate r ctx) (list_bindings r)")
  case Nil
  then have "resolve_binding r ctx = None"
    by (simp add: resolve_binding_def resolve_among_candidates list_bindings_def)
  then show ?thesis using Nil by (simp add: resolve_with_context_def split: option.split)
next
  case (Cons b bs)
  then have "resolve_binding r ctx = dm_get (agent_name_cache r) (bound_agent b)"
    by (simp add: resolve_binding_def resolve_among_candidates list_bindings_def)
  moreover have "candidate r ctx b" using Cons by (metis filter_eq_ConsD)
  moreover have "more_specific_first (b # bs)"
    using more_specific_filter [OF reachable_bindings_sorted [of es], of "candidate r ctx"] Cons by (simp add: r_def)
  ultimately show ?thesis
    using Cons by (auto simp: resolve_with_context_def candidate_def more_specific_first_def list_all_iff)
qed

text \<open>
  A long message is split into pieces. For a limit of at least four bytes the split ends; no
  piece is longer than the limit or cuts a character, and the pieces are the text but for line
  breaks dropped between them.
\<close>

theorem split_message_pieces:
  assumes "utf8 txt" "4 \<le> max_len"
  shows "\<exists>ps. split_message txt max_len = Some (map fst ps)
    \<and> list_all (\<lambda>(c, x). length c \<le> max_len \<and> utf8 c \<and> newline_mark x) ps
    \<and> txt = concat (map (\<lambda>(c, x). c @ x) ps)"
proof (cases "length txt \<le> max_len")
  case True
  then show ?thesis
    by (intro exI [of _ "[(txt, [])]"]) (use assms in \<open>simp add: split_message_def newline_mark_def\<close>)
next
  case False
  then show ?thesis using split_loop_pieces [OF assms(2,1)] by (simp add: split_message_def)
qed

theorem split_message_pieces_witness:
  "\<exists>ps. split_message (''hello'' @ [newline] @ ''world'') 8 = Some (map fst ps)
    \<and> list_all (\<lambda>(c, x). length c \<le> 8 \<and> utf8 c \<and> newline_mark x) ps
    \<and> ''hello'' @ [newline] @ ''world'' = concat (map (\<lambda>(c, x). c @ x) ps)"
  by (rule split_message_pieces) (simp_all add: utf8_def char_width_def newline_def is_continuation_def)

text \<open>A user whom the fallback gave an agent is routed to it from then on, as long as nothing else matches.\<close>

theorem fallback_sticks:
  assumes "route_message debug h r m = (Some i, r')" "resolve_with_context debug r (cm_channel m) (sender_user_id m)
      (openfang_user (cm_sender m)) (binding_context_for m) = None" "metadata_str m ''target_agent_name'' = None"
  shows "route_message debug h' r' m = (Some i, r')"
proof -
  have r': "r' = set_user_default r (sender_user_id m) i"
    using assms by (simp add: route_message_def route_or_fallback_def split: option.splits)
  have "resolve_among r' ctx bs = resolve_among r ctx bs" for ctx bs
    by (induction bs) (auto simp: r' set_user_default_def split: option.split)
  then have "resolve_binding r' ctx = resolve_binding r ctx" for ctx
    by (simp add: resolve_binding_def r' set_user_default_def)
  moreover have "resolve_binding r (binding_context_for m) = None" "dm_get (direct_routes r) (debug (cm_channel m), sender_user_id m) = None"
    "Option.bind (openfang_user (cm_sender m)) (dm_get (user_defaults r)) = None"
    using assms(2) by (simp_all add: resolve_with_context_def split: option.splits)
  ultimately have "resolve_with_context debug r' (cm_channel m) (sender_user_id m) (openfang_user (cm_sender m)) (binding_context_for m) = Some i"
    by (cases "openfang_user (cm_sender m)") (simp_all add: resolve_with_context_def r' set_user_default_def)
  then show ?thesis using assms(3) by (simp add: route_message_def route_or_fallback_def)
qed

text \<open>
  Account and role rules never match. The bridge builds the context of every message without an
  account and without roles, so a binding with either of them takes no message.
\<close>

theorem account_and_role_rules_dead:
  assumes "rule_account_id (match_rule b) \<noteq> None \<or> rule_roles (match_rule b) \<noteq> []"
  shows "\<not> binding_matches b (binding_context_for m)"
  using assms by (auto simp: binding_matches_def binding_context_for_def Let_def list_ex_iff)

text \<open>
  MQTT bindings never match. The bridge spells the channel of an MQTT message \<open>unknown\<close>, so a
  binding for the channel \<open>mqtt\<close> takes no message of it.
\<close>

theorem mqtt_rules_dead:
  assumes "cm_channel m = Mqtt" "rule_channel (match_rule b) = Some ''mqtt''"
  shows "\<not> binding_matches b (binding_context_for m)"
  using assms by (simp add: binding_matches_def binding_context_for_def)

text \<open>A text that starts with a line break before a piece of full length gives an empty piece, which no platform takes as a message.\<close>

theorem split_gives_empty_piece: "split_message ([newline] @ replicate 8 (CHR ''a'')) 8 = Some [[], replicate 8 (CHR ''a'')]"
proof -
  have "split_point (newline # replicate 8 (CHR ''a'')) 8 = 0"
    by (simp add: split_point_def safe_truncate_str_def eval_nat_numeral is_char_boundary_def is_continuation_def starts_with_def newline_def)
  then show ?thesis
    by (simp add: split_message_def split_loop.simps skip_newline_def strip_prefix_def starts_with_def newline_def)
qed

end
