(* ===== verification/Commands.thy ===== *)
theory Commands
  imports Utf8 "HOL-Library.Char_ord" "HOL-Library.List_Lexorder"
begin

text \<open>
  Slash commands: the registry of \<open>openfang-types/src/commands.rs\<close> with its lookup, help and
  completion, and the commands of channels in \<open>openfang-channels/src/bridge.rs\<close>. The bit flags
  of the surfaces are an \<open>u8\<close>.
\<close>

unbundle bit_operations_syntax

section \<open>The registry\<close>

datatype command_category =
    GeneralCategory | SessionCategory | ModelCategory | MemoryCategory | ControlCategory | InfoCategory
  | AutomationCategory | MonitoringCategory

fun category_label :: "command_category \<Rightarrow> string" where
  "category_label GeneralCategory = ''General''"
| "category_label SessionCategory = ''Session''"
| "category_label ModelCategory = ''Model''"
| "category_label MemoryCategory = ''Memory''"
| "category_label ControlCategory = ''Control''"
| "category_label InfoCategory = ''Info''"
| "category_label AutomationCategory = ''Automation''"
| "category_label MonitoringCategory = ''Monitoring''"

definition CLI_SURFACE :: u8 where "CLI_SURFACE = 1"
definition CHANNEL :: u8 where "CHANNEL = 2"
definition WEB :: u8 where "WEB = 4"
definition ALL_SURFACES :: u8 where "ALL_SURFACES = CLI_SURFACE OR CHANNEL OR WEB"

lemmas surface_defs = CLI_SURFACE_def CHANNEL_def WEB_def ALL_SURFACES_def

definition surface_contains :: "u8 \<Rightarrow> u8 \<Rightarrow> bool" where
  "surface_contains s f = (s AND f = f)"

definition surface_intersects :: "u8 \<Rightarrow> u8 \<Rightarrow> bool" where
  "surface_intersects s f = (s AND f \<noteq> 0)"

record command_def =
  def_name :: string
  aliases :: "string list"
  def_description :: string
  category :: command_category
  surfaces :: u8
  requires_agent :: bool

definition COMMAND_REGISTRY :: "command_def list" where
  "COMMAND_REGISTRY =
     [\<lparr>def_name = ''help'', aliases = [], def_description = ''Show available commands'', category = GeneralCategory,
        surfaces = ALL_SURFACES, requires_agent = False\<rparr>,
      \<lparr>def_name = ''start'', aliases = [], def_description = ''Show welcome message'', category = GeneralCategory,
        surfaces = CHANNEL, requires_agent = False\<rparr>,
      \<lparr>def_name = ''exit'', aliases = [''quit''], def_description = ''End chat session / disconnect from agent'', category = GeneralCategory,
        surfaces = CLI_SURFACE, requires_agent = False\<rparr>,
      \<lparr>def_name = ''new'', aliases = [''reset''], def_description = ''Reset session (clear history)'', category = SessionCategory,
        surfaces = (CHANNEL OR WEB), requires_agent = True\<rparr>,
      \<lparr>def_name = ''clear'', aliases = [], def_description = ''Clear chat display'', category = SessionCategory,
        surfaces = CLI_SURFACE, requires_agent = False\<rparr>,
      \<lparr>def_name = ''compact'', aliases = [], def_description = ''Trigger LLM session compaction'', category = SessionCategory,
        surfaces = (CHANNEL OR WEB), requires_agent = True\<rparr>,
      \<lparr>def_name = ''stop'', aliases = [], def_description = ''Cancel current agent run'', category = SessionCategory,
        surfaces = (CHANNEL OR WEB), requires_agent = True\<rparr>,
      \<lparr>def_name = ''usage'', aliases = [], def_description = ''Show session token usage and cost'', category = SessionCategory,
        surfaces = (CHANNEL OR WEB), requires_agent = True\<rparr>,
      \<lparr>def_name = ''think'', aliases = [], def_description = ''Toggle extended thinking'', category = SessionCategory,
        surfaces = CHANNEL, requires_agent = True\<rparr>,
      \<lparr>def_name = ''context'', aliases = [], def_description = ''Show context window usage & pressure'', category = SessionCategory,
        surfaces = WEB, requires_agent = True\<rparr>,
      \<lparr>def_name = ''verbose'', aliases = [], def_description = ''Cycle tool detail level (off|on|full)'', category = SessionCategory,
        surfaces = WEB, requires_agent = False\<rparr>,
      \<lparr>def_name = ''queue'', aliases = [], def_description = ''Check if agent is processing'', category = SessionCategory,
        surfaces = WEB, requires_agent = True\<rparr>,
      \<lparr>def_name = ''model'', aliases = [], def_description = ''Show or switch model'', category = ModelCategory,
        surfaces = ALL_SURFACES, requires_agent = True\<rparr>,
      \<lparr>def_name = ''models'', aliases = [], def_description = ''List available AI models'', category = ModelCategory,
        surfaces = CHANNEL, requires_agent = False\<rparr>,
      \<lparr>def_name = ''providers'', aliases = [], def_description = ''Show configured providers'', category = ModelCategory,
        surfaces = CHANNEL, requires_agent = False\<rparr>,
      \<lparr>def_name = ''kill'', aliases = [], def_description = ''Kill the current agent'', category = ControlCategory,
        surfaces = CLI_SURFACE, requires_agent = True\<rparr>,
      \<lparr>def_name = ''status'', aliases = [], def_description = ''Show system/connection status'', category = InfoCategory,
        surfaces = (CLI_SURFACE OR CHANNEL), requires_agent = False\<rparr>,
      \<lparr>def_name = ''agents'', aliases = [], def_description = ''List running agents'', category = InfoCategory,
        surfaces = (CLI_SURFACE OR CHANNEL), requires_agent = False\<rparr>,
      \<lparr>def_name = ''agent'', aliases = [], def_description = ''Select agent (/agent <name>)'', category = InfoCategory,
        surfaces = CHANNEL, requires_agent = False\<rparr>,
      \<lparr>def_name = ''skills'', aliases = [], def_description = ''List installed skills'', category = InfoCategory,
        surfaces = CHANNEL, requires_agent = False\<rparr>,
      \<lparr>def_name = ''hands'', aliases = [], def_description = ''List available and active hands'', category = InfoCategory,
        surfaces = (CLI_SURFACE OR CHANNEL), requires_agent = False\<rparr>,
      \<lparr>def_name = ''workflows'', aliases = [], def_description = ''List workflows'', category = AutomationCategory,
        surfaces = CHANNEL, requires_agent = False\<rparr>,
      \<lparr>def_name = ''workflow'', aliases = [], def_description = ''Run workflow (/workflow run <name> [input])'', category = AutomationCategory,
        surfaces = CHANNEL, requires_agent = False\<rparr>,
      \<lparr>def_name = ''triggers'', aliases = [], def_description = ''List event triggers'', category = AutomationCategory,
        surfaces = CHANNEL, requires_agent = False\<rparr>,
      \<lparr>def_name = ''trigger'', aliases = [], def_description = ''Manage triggers (/trigger add|del ...)'', category = AutomationCategory,
        surfaces = CHANNEL, requires_agent = False\<rparr>,
      \<lparr>def_name = ''schedules'', aliases = [], def_description = ''List cron jobs'', category = AutomationCategory,
        surfaces = CHANNEL, requires_agent = False\<rparr>,
      \<lparr>def_name = ''schedule'', aliases = [], def_description = ''Manage schedules (/schedule add|del|run ...)'', category = AutomationCategory,
        surfaces = CHANNEL, requires_agent = False\<rparr>,
      \<lparr>def_name = ''approvals'', aliases = [], def_description = ''List pending approvals'', category = AutomationCategory,
        surfaces = CHANNEL, requires_agent = False\<rparr>,
      \<lparr>def_name = ''approve'', aliases = [], def_description = ''Approve request (/approve <id>)'', category = AutomationCategory,
        surfaces = CHANNEL, requires_agent = False\<rparr>,
      \<lparr>def_name = ''reject'', aliases = [], def_description = ''Reject request (/reject <id>)'', category = AutomationCategory,
        surfaces = CHANNEL, requires_agent = False\<rparr>,
      \<lparr>def_name = ''budget'', aliases = [], def_description = ''Show spending limits and costs'', category = MonitoringCategory,
        surfaces = (CHANNEL OR WEB), requires_agent = False\<rparr>,
      \<lparr>def_name = ''peers'', aliases = [], def_description = ''Show OFP peer network status'', category = MonitoringCategory,
        surfaces = (CHANNEL OR WEB), requires_agent = False\<rparr>,
      \<lparr>def_name = ''a2a'', aliases = [], def_description = ''List discovered external A2A agents'', category = MonitoringCategory,
        surfaces = (CHANNEL OR WEB), requires_agent = False\<rparr>]"

definition strip_leading_slash :: "string \<Rightarrow> string" where
  "strip_leading_slash s = (case strip_prefix ''/'' s of Some r \<Rightarrow> r | None \<Rightarrow> s)"

definition eq_ignore_ascii_case :: "string \<Rightarrow> string \<Rightarrow> bool" where
  "eq_ignore_ascii_case a b = (to_lowercase a = to_lowercase b)"

definition resolve_command :: "string \<Rightarrow> command_def option" where
  "resolve_command name =
     (let needle = trim (strip_leading_slash name) in
      if needle = [] then None
      else find (\<lambda>d. eq_ignore_ascii_case (def_name d) needle
             \<or> list_ex (\<lambda>a. eq_ignore_ascii_case a needle) (aliases d)) COMMAND_REGISTRY)"

definition list_for_surface :: "u8 \<Rightarrow> command_def list" where
  "list_for_surface s = filter (\<lambda>d. surface_intersects (surfaces d) s) COMMAND_REGISTRY"

definition help_line :: "command_def \<Rightarrow> string" where
  "help_line d = ''  /'' @ def_name d
     @ (if aliases d = [] then []
        else '' (aliases: '' @ join_with '', '' (map (\<lambda>a. ''/'' @ a) (aliases d)) @ '')'')
     @ '' '' @ em_dash @ '' '' @ def_description d @ [newline]"

definition help_categories :: "command_category list" where
  "help_categories = [GeneralCategory, SessionCategory, ModelCategory, ControlCategory, MemoryCategory, InfoCategory,
     AutomationCategory, MonitoringCategory]"

definition render_help :: "u8 \<Rightarrow> string" where
  "render_help s =
     ''Available commands:''
     @ concat (map (\<lambda>c. let cmds = filter (\<lambda>d. category d = c) (list_for_surface s) in
          if cmds = [] then []
          else [newline, newline] @ category_label c @ '':'' @ [newline] @ butlast (concat (map help_line cmds)))
        help_categories)"

definition autocomplete :: "string \<Rightarrow> u8 \<Rightarrow> string list" where
  "autocomplete pfx s =
     (let needle = to_lowercase (strip_leading_slash pfx) in
      remdups_adj (sort (concat (map (\<lambda>d. filter (\<lambda>n. starts_with (to_lowercase n) needle) (def_name d # aliases d))
        (list_for_surface s)))))"

section \<open>Commands of channels\<close>

record chat_command_spec =
  spec_name :: string
  spec_desc :: string
  spec_help :: string
  spec_section :: string

definition CHANNEL_COMMAND_SPECS :: "chat_command_spec list" where
  "CHANNEL_COMMAND_SPECS =
     [\<lparr>spec_name = ''start'', spec_desc = ''Show welcome message'',
        spec_help = ''/start - show welcome message'', spec_section = ''General''\<rparr>,
      \<lparr>spec_name = ''help'', spec_desc = ''Show available commands'',
        spec_help = ''/help - show this help'', spec_section = ''General''\<rparr>,
      \<lparr>spec_name = ''agents'', spec_desc = ''List running agents'',
        spec_help = ''/agents - list running agents'', spec_section = ''Session''\<rparr>,
      \<lparr>spec_name = ''agent'', spec_desc = ''Select agent (/agent <name>)'',
        spec_help = ''/agent <name> - select which agent to talk to'', spec_section = ''Session''\<rparr>,
      \<lparr>spec_name = ''new'', spec_desc = ''Reset session (clear history)'',
        spec_help = ''/new - reset session (clear messages)'', spec_section = ''Session''\<rparr>,
      \<lparr>spec_name = ''compact'', spec_desc = ''Trigger LLM session compaction'',
        spec_help = ''/compact - trigger LLM session compaction'', spec_section = ''Session''\<rparr>,
      \<lparr>spec_name = ''model'', spec_desc = ''Show or switch model'',
        spec_help = ''/model [name] - show or switch agent model'', spec_section = ''Session''\<rparr>,
      \<lparr>spec_name = ''stop'', spec_desc = ''Cancel current agent run'',
        spec_help = ''/stop - cancel current agent run'', spec_section = ''Session''\<rparr>,
      \<lparr>spec_name = ''usage'', spec_desc = ''Show session usage and cost'',
        spec_help = ''/usage - show session token usage and cost'', spec_section = ''Session''\<rparr>,
      \<lparr>spec_name = ''think'', spec_desc = ''Toggle extended thinking'',
        spec_help = ''/think [on|off] - toggle extended thinking'', spec_section = ''Session''\<rparr>,
      \<lparr>spec_name = ''status'', spec_desc = ''Show system status'',
        spec_help = ''/status - show system status'', spec_section = ''Info''\<rparr>,
      \<lparr>spec_name = ''models'', spec_desc = ''List available AI models'',
        spec_help = ''/models - list available AI models'', spec_section = ''Info''\<rparr>,
      \<lparr>spec_name = ''providers'', spec_desc = ''Show configured providers'',
        spec_help = ''/providers - show configured providers'', spec_section = ''Info''\<rparr>,
      \<lparr>spec_name = ''skills'', spec_desc = ''List installed skills'',
        spec_help = ''/skills - list installed skills'', spec_section = ''Info''\<rparr>,
      \<lparr>spec_name = ''hands'', spec_desc = ''List available and active hands'',
        spec_help = ''/hands - list available and active hands'', spec_section = ''Info''\<rparr>,
      \<lparr>spec_name = ''workflows'', spec_desc = ''List workflows'',
        spec_help = ''/workflows - list workflows'', spec_section = ''Automation''\<rparr>,
      \<lparr>spec_name = ''workflow'', spec_desc = ''Run workflow (/workflow run <name> [input])'',
        spec_help = ''/workflow run <name> [input] - run a workflow'', spec_section = ''Automation''\<rparr>,
      \<lparr>spec_name = ''triggers'', spec_desc = ''List event triggers'',
        spec_help = ''/triggers - list event triggers'', spec_section = ''Automation''\<rparr>,
      \<lparr>spec_name = ''trigger'', spec_desc = ''Manage triggers'',
        spec_help = ''/trigger add <agent> <pattern> <prompt> | /trigger del <id>'', spec_section = ''Automation''\<rparr>,
      \<lparr>spec_name = ''schedules'', spec_desc = ''List cron jobs'',
        spec_help = ''/schedules - list cron jobs'', spec_section = ''Automation''\<rparr>,
      \<lparr>spec_name = ''schedule'', spec_desc = ''Manage schedules'',
        spec_help = ''/schedule add <agent> <cron-5-fields> <message> | /schedule del <id> | /schedule run <id>'', spec_section = ''Automation''\<rparr>,
      \<lparr>spec_name = ''approvals'', spec_desc = ''List pending approvals'',
        spec_help = ''/approvals - list pending approvals'', spec_section = ''Automation''\<rparr>,
      \<lparr>spec_name = ''approve'', spec_desc = ''Approve request'',
        spec_help = ''/approve <id> - approve a request'', spec_section = ''Automation''\<rparr>,
      \<lparr>spec_name = ''reject'', spec_desc = ''Reject request'',
        spec_help = ''/reject <id> - reject a request'', spec_section = ''Automation''\<rparr>,
      \<lparr>spec_name = ''budget'', spec_desc = ''Show spending limits and costs'',
        spec_help = ''/budget - show spending limits and current costs'', spec_section = ''Monitoring''\<rparr>,
      \<lparr>spec_name = ''peers'', spec_desc = ''Show OFP peer network status'',
        spec_help = ''/peers - show OFP peer network status'', spec_section = ''Monitoring''\<rparr>,
      \<lparr>spec_name = ''a2a'', spec_desc = ''List discovered external A2A agents'',
        spec_help = ''/a2a - list discovered external A2A agents'', spec_section = ''Monitoring''\<rparr>]"

definition is_channel_command :: "string \<Rightarrow> bool" where
  "is_channel_command name = list_ex (\<lambda>spec. spec_name spec = name) CHANNEL_COMMAND_SPECS"

definition help_sections :: "string list" where
  "help_sections = [''General'', ''Session'', ''Info'', ''Automation'', ''Monitoring'']"

definition format_channel_help :: string where
  "format_channel_help =
     ''OpenFang Bot Commands:''
     @ concat (map (\<lambda>section. let commands = filter (\<lambda>spec. spec_section spec = section) CHANNEL_COMMAND_SPECS in
          if commands = [] then []
          else [newline, newline] @ section @ '':'' @ [newline]
            @ butlast (concat (map (\<lambda>spec. spec_help spec @ [newline]) commands)))
        help_sections)"

text \<open>The name a handler of channel commands goes by, from \<open>handle_command\<close>.\<close>

definition canonical_command :: "string \<Rightarrow> string" where
  "canonical_command name =
     (case resolve_command name of
        Some d \<Rightarrow> if surface_contains (surfaces d) CHANNEL then def_name d else name
      | None \<Rightarrow> name)"

section \<open>Lemmas\<close>

definition command_names :: "command_def \<Rightarrow> string list" where
  "command_names d = def_name d # aliases d"

lemma registry_names:
  "distinct (concat (map (\<lambda>d. map to_lowercase (command_names d)) COMMAND_REGISTRY))"
  "[] \<notin> set (concat (map command_names COMMAND_REGISTRY))"
  by code_simp+

lemma trim_lower: "to_lowercase [] = []"
  by (simp add: to_lowercase_def)

lemma find_unique:
  assumes "distinct (concat (map f xs))" "x \<in> set xs" "k \<in> set (f x)"
  shows "find (\<lambda>y. k \<in> set (f y)) xs = Some x"
  using assms by (induction xs) (auto, blast?)

section \<open>Properties\<close>

text \<open>
  A name means one command. Looking a name up gives a command exactly when the name without its
  slash and surrounding blanks is that command's name or one of its aliases, in any case.
\<close>

theorem resolve_command_iff:
  "resolve_command name = Some d \<longleftrightarrow>
     d \<in> set COMMAND_REGISTRY \<and> to_lowercase (trim (strip_leading_slash name)) \<in> set (map to_lowercase (command_names d))"
proof -
  define k where "k = trim (strip_leading_slash name)"
  let ?P = "\<lambda>d. eq_ignore_ascii_case (def_name d) k \<or> list_ex (\<lambda>a. eq_ignore_ascii_case a k) (aliases d)"
  have e: "eq_ignore_ascii_case a k \<longleftrightarrow> to_lowercase k = to_lowercase a" for a
    by (auto simp: eq_ignore_ascii_case_def)
  have P: "?P = (\<lambda>d. to_lowercase k \<in> set (map to_lowercase (command_names d)))"
    by (auto simp: fun_eq_iff e command_names_def list_ex_iff)
  have "k = [] \<Longrightarrow> d \<in> set COMMAND_REGISTRY \<Longrightarrow> to_lowercase k \<notin> set (map to_lowercase (command_names d))"
    using registry_names(2) by (auto simp: to_lowercase_def)
  moreover have "find ?P COMMAND_REGISTRY = Some d \<longleftrightarrow>
      d \<in> set COMMAND_REGISTRY \<and> to_lowercase k \<in> set (map to_lowercase (command_names d))"
    unfolding P using find_unique [OF registry_names(1), of d "to_lowercase k"]
    by (auto simp: find_Some_iff)
  ultimately show ?thesis
    unfolding resolve_command_def Let_def k_def [symmetric] by auto
qed

text \<open>
  Completion. The completions of a prefix on a surface are sorted, and are the names and aliases
  of the commands visible there that start with it in any case.
\<close>

theorem autocomplete_iff:
  "n \<in> set (autocomplete pfx s) \<longleftrightarrow>
     (\<exists>d. d \<in> set COMMAND_REGISTRY \<and> surface_intersects (surfaces d) s \<and> n \<in> set (command_names d)
        \<and> starts_with (to_lowercase n) (to_lowercase (strip_leading_slash pfx)))"
  by (auto simp: autocomplete_def list_for_surface_def command_names_def Let_def)

text \<open>The two lists of channel commands agree on the names.\<close>

theorem channel_commands_agree:
  "is_channel_command name \<longleftrightarrow> (\<exists>d. d \<in> set COMMAND_REGISTRY \<and> surface_contains (surfaces d) CHANNEL \<and> def_name d = name)"
proof -
  have "set (map spec_name CHANNEL_COMMAND_SPECS)
      = set (map def_name (filter (\<lambda>d. surface_contains (surfaces d) CHANNEL) COMMAND_REGISTRY))"
    by code_simp
  then have "name \<in> set (map spec_name CHANNEL_COMMAND_SPECS) \<longleftrightarrow>
      name \<in> set (map def_name (filter (\<lambda>d. surface_contains (surfaces d) CHANNEL) COMMAND_REGISTRY))"
    by (rule arg_cong)
  then show ?thesis by (auto simp: is_channel_command_def list_ex_iff image_iff)
qed

text \<open>
  Aliases and capitals are not commands in a text. The handler resolves \<open>reset\<close> and \<open>NEW\<close> to
  the command \<open>new\<close>, but a text message that starts with them is not taken for a command.
\<close>

theorem alias_is_no_channel_command:
  "canonical_command ''reset'' = ''new'' \<and> canonical_command ''NEW'' = ''new''
     \<and> \<not> is_channel_command ''reset'' \<and> \<not> is_channel_command ''NEW''"
  by code_simp

end
