(* ===== verification/Users.thy ===== *)
theory Users
  imports Prelude
begin

text \<open>
  Users and devices: roles and channel bindings (\<open>openfang-kernel/src/auth.rs\<close>), the check the
  channel bridge makes (\<open>authorize_channel_user\<close> in \<open>openfang-api/src/channel_bridge.rs\<close>), and
  the pairing of devices (\<open>openfang-kernel/src/pairing.rs\<close>). Fresh ids, random tokens and the
  clock are arguments; an expiry so far off that the date overflows, which panics, is left out,
  and so are the push notifications, which are HTTP calls.
\<close>

section \<open>Roles\<close>

datatype user_role = Viewer | User | Admin | Owner

fun role_rank :: "user_role \<Rightarrow> nat" where
  "role_rank Viewer = 0"
| "role_rank User = 1"
| "role_rank Admin = 2"
| "role_rank Owner = 3"

instantiation user_role :: linorder
begin

definition less_eq_user_role :: "user_role \<Rightarrow> user_role \<Rightarrow> bool" where
  "less_eq_user_role a b = (role_rank a \<le> role_rank b)"

definition less_user_role :: "user_role \<Rightarrow> user_role \<Rightarrow> bool" where
  "less_user_role a b = (role_rank a < role_rank b)"

instance
proof
  fix x y :: user_role
  show "x \<le> y \<Longrightarrow> y \<le> x \<Longrightarrow> x = y"
    by (cases x; cases y) (simp_all add: less_eq_user_role_def)
qed (auto simp: less_eq_user_role_def less_user_role_def)

end

fun show_role :: "user_role \<Rightarrow> string" where
  "show_role Viewer = ''viewer''"
| "show_role User = ''user''"
| "show_role Admin = ''admin''"
| "show_role Owner = ''owner''"

definition from_str_role :: "string \<Rightarrow> user_role" where
  "from_str_role s =
     (let l = to_lowercase s in
      if l = ''owner'' then Owner else if l = ''admin'' then Admin else if l = ''viewer'' then Viewer else User)"

datatype action =
    ChatWithAgent | SpawnAgent | KillAgent | InstallSkill | ViewConfig | ModifyConfig | ViewUsage | ManageUsers

fun required_role :: "action \<Rightarrow> user_role" where
  "required_role ChatWithAgent = User"
| "required_role ViewConfig = User"
| "required_role ViewUsage = Admin"
| "required_role SpawnAgent = Admin"
| "required_role KillAgent = Admin"
| "required_role InstallSkill = Admin"
| "required_role ModifyConfig = Owner"
| "required_role ManageUsers = Owner"

section \<open>The manager\<close>

record user_identity =
  user_id :: uuid
  user_name :: string
  user_role :: user_role

record user_config =
  uc_name :: string
  uc_role :: string
  channel_bindings :: "(string, string) dashmap"
  api_key_hash :: "string option"

record auth_manager =
  auth_users :: "(uuid, user_identity) dashmap"
  channel_index :: "(string, uuid) dashmap"

definition channel_key :: "string \<Rightarrow> string \<Rightarrow> string" where
  "channel_key channel_type platform_id = channel_type @ '':'' @ platform_id"

definition add_user :: "uuid \<times> user_config \<Rightarrow> auth_manager \<Rightarrow> auth_manager" where
  "add_user = (\<lambda>(i, c) m.
     \<lparr>auth_users = dm_insert i \<lparr>user_id = i, user_name = uc_name c, user_role = from_str_role (uc_role c)\<rparr> (auth_users m),
      channel_index = fold (\<lambda>(ct, pid). dm_insert (channel_key ct pid) i) (channel_bindings c) (channel_index m)\<rparr>)"

definition new_auth :: "uuid list \<Rightarrow> user_config list \<Rightarrow> auth_manager" where
  "new_auth ids configs = fold add_user (zip ids configs) \<lparr>auth_users = [], channel_index = []\<rparr>"

definition identify :: "auth_manager \<Rightarrow> string \<Rightarrow> string \<Rightarrow> uuid option" where
  "identify m channel_type platform_id = dm_get (channel_index m) (channel_key channel_type platform_id)"

definition get_user :: "auth_manager \<Rightarrow> uuid \<Rightarrow> user_identity option" where
  "get_user m i = dm_get (auth_users m) i"

datatype auth_error = UnknownUser | Lacks string user_role action user_role

definition authorize :: "auth_manager \<Rightarrow> uuid \<Rightarrow> action \<Rightarrow> auth_error + unit" where
  "authorize m i act =
     (case dm_get (auth_users m) i of
        None \<Rightarrow> Inl UnknownUser
      | Some u \<Rightarrow>
          if user_role u \<ge> required_role act then Inr ()
          else Inl (Lacks (user_name u) (user_role u) act (required_role act)))"

definition is_enabled :: "auth_manager \<Rightarrow> bool" where
  "is_enabled m = (auth_users m \<noteq> [])"

definition user_count :: "auth_manager \<Rightarrow> nat" where
  "user_count m = length (auth_users m)"

definition list_users :: "auth_manager \<Rightarrow> user_identity list" where
  "list_users m = dm_values (auth_users m)"

definition channel_action :: "string \<Rightarrow> action" where
  "channel_action act =
     (if act = ''chat'' then ChatWithAgent else if act = ''spawn'' then SpawnAgent
      else if act = ''kill'' then KillAgent else if act = ''install_skill'' then InstallSkill else ChatWithAgent)"

datatype channel_refusal = Unrecognized | Refused auth_error

definition authorize_channel_user :: "auth_manager \<Rightarrow> string \<Rightarrow> string \<Rightarrow> string \<Rightarrow> channel_refusal + unit" where
  "authorize_channel_user m channel_type platform_id act =
     (if \<not> is_enabled m then Inr ()
      else case identify m channel_type platform_id of
        None \<Rightarrow> Inl Unrecognized
      | Some i \<Rightarrow> (case authorize m i (channel_action act) of Inl e \<Rightarrow> Inl (Refused e) | Inr _ \<Rightarrow> Inr ()))"

section \<open>Pairing\<close>

definition MAX_PENDING_REQUESTS :: nat where "MAX_PENDING_REQUESTS = 5"

record paired_device =
  device_id :: string
  device_name :: string
  device_platform :: string
  paired_at :: instant
  last_seen :: instant
  push_token :: "string option"

record pairing_request =
  req_token :: string
  created_at :: instant
  expires_at :: instant

datatype persist_op = Save | Remove

record pairing_config =
  pairing_enabled :: bool
  max_devices :: nat
  token_expiry_secs :: u64
  push_provider :: string
  ntfy_url :: "string option"
  ntfy_topic :: "string option"

definition default_pairing_config :: pairing_config where
  "default_pairing_config = \<lparr>pairing_enabled = False, max_devices = 10, token_expiry_secs = 300,
     push_provider = ''none'', ntfy_url = None, ntfy_topic = None\<rparr>"

text \<open>\<open>persisted\<close> is the list of the calls of the persistence callback, when there is one.\<close>

record pairing_manager =
  pm_config :: pairing_config
  pm_pending :: "(string, pairing_request) dashmap"
  pm_devices :: "(string, paired_device) dashmap"
  persisted :: "(paired_device \<times> persist_op) list option"

definition new_pairing :: "pairing_config \<Rightarrow> pairing_manager" where
  "new_pairing c = \<lparr>pm_config = c, pm_pending = [], pm_devices = [], persisted = None\<rparr>"

definition set_persist :: "pairing_manager \<Rightarrow> pairing_manager" where
  "set_persist m = m\<lparr>persisted := Some []\<rparr>"

definition persist :: "paired_device \<Rightarrow> persist_op \<Rightarrow> pairing_manager \<Rightarrow> pairing_manager" where
  "persist d op m = m\<lparr>persisted := map_option (\<lambda>calls. calls @ [(d, op)]) (persisted m)\<rparr>"

definition load_devices :: "pairing_manager \<Rightarrow> paired_device list \<Rightarrow> pairing_manager" where
  "load_devices m ds = m\<lparr>pm_devices := fold (\<lambda>d. dm_insert (device_id d) d) ds (pm_devices m)\<rparr>"

definition clean_expired :: "instant \<Rightarrow> pairing_manager \<Rightarrow> pairing_manager" where
  "clean_expired now m = m\<lparr>pm_pending := filter (\<lambda>(_, r). expires_at r > now) (pm_pending m)\<rparr>"

datatype pairing_error = PairingDisabled | TooManyPending | InvalidToken | TokenExpired | TooManyDevices nat | DeviceNotFound string

definition create_pairing_request ::
  "instant \<Rightarrow> string \<Rightarrow> pairing_manager \<Rightarrow> (pairing_error + pairing_request) \<times> pairing_manager" where
  "create_pairing_request now tok m =
     (if \<not> pairing_enabled (pm_config m) then (Inl PairingDisabled, m)
      else
        let m1 = (if length (pm_pending m) \<ge> MAX_PENDING_REQUESTS then clean_expired now m else m)
        in if length (pm_pending m1) \<ge> MAX_PENDING_REQUESTS then (Inl TooManyPending, m1)
           else
             let request = \<lparr>req_token = tok, created_at = now,
                   expires_at = now + from_secs (unat (token_expiry_secs (pm_config m)))\<rparr>
             in (Inr request, m1\<lparr>pm_pending := dm_insert tok request (pm_pending m1)\<rparr>))"

definition complete_pairing ::
  "instant \<Rightarrow> string \<Rightarrow> paired_device \<Rightarrow> pairing_manager \<Rightarrow> (pairing_error + paired_device) \<times> pairing_manager" where
  "complete_pairing now tok d m =
     (case find (\<lambda>(_, r). length (req_token r) = length tok \<and> req_token r = tok) (pm_pending m) of
        None \<Rightarrow> (Inl InvalidToken, m)
      | Some (key, request) \<Rightarrow>
          if now > expires_at request then (Inl TokenExpired, m\<lparr>pm_pending := dm_remove key (pm_pending m)\<rparr>)
          else if length (pm_devices m) \<ge> max_devices (pm_config m)
          then (Inl (TooManyDevices (max_devices (pm_config m))), m)
          else (Inr d, persist d Save
            (m\<lparr>pm_pending := dm_remove key (pm_pending m), pm_devices := dm_insert (device_id d) d (pm_devices m)\<rparr>)))"

definition list_devices :: "pairing_manager \<Rightarrow> paired_device list" where
  "list_devices m = dm_values (pm_devices m)"

definition remove_device :: "string \<Rightarrow> pairing_manager \<Rightarrow> (pairing_error + unit) \<times> pairing_manager" where
  "remove_device i m =
     (case dm_get (pm_devices m) i of
        None \<Rightarrow> (Inl (DeviceNotFound i), m)
      | Some d \<Rightarrow> (Inr (), persist d Remove (m\<lparr>pm_devices := dm_remove i (pm_devices m)\<rparr>)))"

section \<open>Lemmas on users\<close>

definition bound_to :: "string \<Rightarrow> string \<Rightarrow> uuid \<times> user_config \<Rightarrow> bool" where
  "bound_to ct pid = (\<lambda>(_, c). (ct, pid) \<in> set (channel_bindings c))"

text \<open>The channel types contain no colon, so a key tells its channel type and platform id.\<close>

definition plain_channels :: "user_config list \<Rightarrow> bool" where
  "plain_channels cs = list_all (\<lambda>c. list_all (\<lambda>(ct, _). CHR '':'' \<notin> set ct) (channel_bindings c)) cs"

lemma channel_of_key: "CHR '':'' \<notin> set a \<Longrightarrow> takeWhile (\<lambda>c. c \<noteq> CHR '':'') (channel_key a p) = a"
  by (induction a) (auto simp: channel_key_def)

lemma channel_key_inj:
  assumes "CHR '':'' \<notin> set a" "CHR '':'' \<notin> set b"
  shows "channel_key a p = channel_key b q \<longleftrightarrow> a = b \<and> p = q"
  using channel_of_key [OF assms(1), of p] channel_of_key [OF assms(2), of q] by (auto simp: channel_key_def)

lemma bind_keys:
  assumes "list_all (\<lambda>(ct, _). CHR '':'' \<notin> set ct) bs" "CHR '':'' \<notin> set ct"
  shows "dm_get (fold (\<lambda>(ct, pid). dm_insert (channel_key ct pid) i) bs m) (channel_key ct pid) =
    (if (ct, pid) \<in> set bs then Some i else dm_get m (channel_key ct pid))"
  using assms by (induction bs arbitrary: m) (auto simp: channel_key_inj split: if_splits)

lemma find_in_append: "find P (xs @ ys) = (case find P xs of None \<Rightarrow> find P ys | Some x \<Rightarrow> Some x)"
  by (induction xs) auto

lemma find_in_set: "find P xs = Some x \<Longrightarrow> x \<in> set xs \<and> P x"
  by (induction xs) (auto split: if_splits)

lemma identify_last:
  assumes "plain_channels (map snd us)" "CHR '':'' \<notin> set ct"
  shows "dm_get (channel_index (fold add_user us m)) (channel_key ct pid) =
    (case find (bound_to ct pid) (rev us) of Some (i, _) \<Rightarrow> Some i | None \<Rightarrow> dm_get (channel_index m) (channel_key ct pid))"
  using assms(1)
proof (induction us arbitrary: m)
  case (Cons u us)
  then show ?case
    using assms(2) by (cases u) (auto simp: plain_channels_def find_in_append add_user_def bind_keys bound_to_def split: option.split)
qed simp

lemma user_of_id:
  assumes "distinct (map fst us)" "(i, c) \<in> set us"
  shows "dm_get (auth_users (fold add_user us m)) i = Some \<lparr>user_id = i, user_name = uc_name c, user_role = from_str_role (uc_role c)\<rparr>"
  using assms
proof (induction us arbitrary: m)
  case (Cons u us)
  have other: "i \<notin> fst ` set us \<Longrightarrow> dm_get (auth_users (fold add_user us m)) i = dm_get (auth_users m) i" for m
    by (induction us arbitrary: m) (auto simp: add_user_def)
  show ?case
  proof (cases "u = (i, c)")
    case True
    then show ?thesis using Cons.prems(1) other by (simp add: add_user_def)
  next
    case False
    then show ?thesis using Cons by auto
  qed
qed simp

lemma enabled_iff: "is_enabled (fold add_user us m) \<longleftrightarrow> us \<noteq> [] \<or> is_enabled m"
proof (induction us arbitrary: m)
  case (Cons u us)
  have "is_enabled (add_user u m)"
    by (cases u) (simp add: is_enabled_def add_user_def, metis dm_get_empty dm_get_insert option.distinct(1))
  then show ?case using Cons by simp
qed simp

lemma channel_user_authorized_aux:
  assumes "distinct ids" "length ids = length configs" "plain_channels configs" "CHR '':'' \<notin> set ct"
  shows "authorize_channel_user (new_auth ids configs) ct pid act = Inr () \<longleftrightarrow>
    configs = [] \<or> (case find (bound_to ct pid) (rev (zip ids configs)) of
      None \<Rightarrow> False | Some (_, c) \<Rightarrow> required_role (channel_action act) \<le> from_str_role (uc_role c))"
proof (cases "find (bound_to ct pid) (rev (zip ids configs))")
  case None
  then show ?thesis using assms identify_last [of "zip ids configs" ct "\<lparr>auth_users = [], channel_index = []\<rparr>" pid]
    enabled_iff [of "zip ids configs"]
    by (auto simp: authorize_channel_user_def new_auth_def identify_def is_enabled_def)
next
  case (Some ic)
  obtain i c where ic: "ic = (i, c)" by (cases ic)
  have "(i, c) \<in> set (zip ids configs)" using find_in_set [OF Some] ic by simp
  then have "dm_get (auth_users (new_auth ids configs)) i = Some \<lparr>user_id = i, user_name = uc_name c, user_role = from_str_role (uc_role c)\<rparr>"
    unfolding new_auth_def using assms by (intro user_of_id) simp_all
  moreover have "identify (new_auth ids configs) ct pid = Some i"
    using identify_last [of "zip ids configs" ct "\<lparr>auth_users = [], channel_index = []\<rparr>" pid] assms Some ic
    by (simp add: identify_def new_auth_def)
  ultimately show ?thesis using Some ic by (auto simp: authorize_channel_user_def authorize_def is_enabled_def)
qed

section \<open>Properties of users\<close>

text \<open>
  Who may act on a channel. When users are configured, a sender is authorised exactly when some
  user is bound to the sender's channel and platform id and the last such user has at least the
  role the action requires; when none are, everybody is.
\<close>

theorem channel_user_authorized_iff:
  assumes "distinct ids" "length ids = length configs" "plain_channels configs" "CHR '':'' \<notin> set ct"
  shows "authorize_channel_user (new_auth ids configs) ct pid act = Inr () \<longleftrightarrow>
    configs = [] \<or> (case find (bound_to ct pid) (rev (zip ids configs)) of
      None \<Rightarrow> False | Some (_, c) \<Rightarrow> required_role (channel_action act) \<le> from_str_role (uc_role c))"
  by (rule channel_user_authorized_aux [OF assms])

text \<open>A role may do whatever a lower role may.\<close>

theorem authorize_monotone:
  assumes "authorize m i act = Inr ()" "get_user m i = Some u" "get_user m j = Some v" "user_role u \<le> user_role v"
  shows "authorize m j act = Inr ()"
  using assms by (auto simp: authorize_def get_user_def split: if_splits)

section \<open>Histories of pairings\<close>

datatype pairing_op =
    CreateRequest instant string
  | CompletePairing instant string paired_device
  | RemoveDevice string
  | CleanExpired instant

fun pairing_step :: "pairing_manager \<Rightarrow> pairing_op \<Rightarrow> pairing_manager" where
  "pairing_step m (CreateRequest now tok) = snd (create_pairing_request now tok m)"
| "pairing_step m (CompletePairing now tok d) = snd (complete_pairing now tok d m)"
| "pairing_step m (RemoveDevice i) = snd (remove_device i m)"
| "pairing_step m (CleanExpired now) = clean_expired now m"

definition succeeded :: "('e + 'a) \<Rightarrow> bool" where
  "succeeded r = (case r of Inl _ \<Rightarrow> False | Inr _ \<Rightarrow> True)"

text \<open>How often a token was given out and how often a device was paired with it.\<close>

fun created :: "pairing_manager \<Rightarrow> string \<Rightarrow> pairing_op \<Rightarrow> bool" where
  "created m t (CreateRequest now tok) = (tok = t \<and> succeeded (fst (create_pairing_request now tok m)))"
| "created m t _ = False"

fun paired :: "pairing_manager \<Rightarrow> string \<Rightarrow> pairing_op \<Rightarrow> bool" where
  "paired m t (CompletePairing now tok d) = (tok = t \<and> succeeded (fst (complete_pairing now tok d m)))"
| "paired m t _ = False"

fun times :: "(pairing_manager \<Rightarrow> pairing_op \<Rightarrow> bool) \<Rightarrow> pairing_manager \<Rightarrow> pairing_op list \<Rightarrow> nat" where
  "times P m [] = 0"
| "times P m (e # es) = (if P m e then 1 else 0) + times P (pairing_step m e) es"

lemma times_snoc: "times P m (es @ [e]) = times P m es + (if P (run pairing_step m es) e then 1 else 0)"
  by (induction es arbitrary: m) auto

definition request_ok :: "pairing_config \<Rightarrow> pairing_op list \<Rightarrow> string \<Rightarrow> pairing_request \<Rightarrow> bool" where
  "request_ok c es k r \<longleftrightarrow> req_token r = k
     \<and> (\<exists>n. CreateRequest n k \<in> set es \<and> expires_at r = n + from_secs (unat (token_expiry_secs c)))"

definition pending_ok :: "pairing_config \<Rightarrow> pairing_op list \<Rightarrow> pairing_manager \<Rightarrow> bool" where
  "pending_ok c es m \<longleftrightarrow> pm_config m = c \<and> dm_wf (pm_pending m) \<and> length (pm_pending m) \<le> MAX_PENDING_REQUESTS
     \<and> (\<forall>k r. dm_get (pm_pending m) k = Some r \<longrightarrow> request_ok c es k r)"

lemma length_dm_insert: "length (dm_insert k v m) \<le> Suc (length m)"
  unfolding dm_insert_def by (induction m) auto

lemma length_dm_delete: "length (dm_remove k m) \<le> length m"
  unfolding dm_remove_def by (rule length_delete_le)

lemma find_token_entries:
  assumes "\<forall>(k, r)\<in>set p. req_token r = k"
  shows "find (\<lambda>(_, r). length (req_token r) = length t \<and> req_token r = t) p = map_option (Pair t) (dm_get p t)"
  using assms by (induction p) (auto simp: dm_get_def)

lemma find_token:
  assumes "pending_ok c es m"
  shows "find (\<lambda>(_, r). length (req_token r) = length t \<and> req_token r = t) (pm_pending m)
    = map_option (Pair t) (dm_get (pm_pending m) t)"
  using assms by (intro find_token_entries) (auto simp: pending_ok_def request_ok_def dest: dm_in_get)

lemma get_filtered: "dm_wf p \<Longrightarrow> dm_get (filter (\<lambda>(_, r). Q r) p) k = (case dm_get p k of Some r \<Rightarrow> if Q r then Some r else None | None \<Rightarrow> None)"
  by (induction p) (auto simp: dm_get_def dm_wf_def map_of_eq_None_iff split: option.splits)

lemma wf_filter: "dm_wf p \<Longrightarrow> dm_wf (filter P p)"
  by (simp add: dm_wf_def distinct_map_filter)

lemma pending_ok_clean: "pending_ok c es m \<Longrightarrow> pending_ok c es (clean_expired now m)"
  unfolding pending_ok_def clean_expired_def
  by (auto simp: get_filtered wf_filter split: option.splits if_splits intro: order_trans [OF length_filter_le])

lemma pending_ok_more: "pending_ok c es m \<Longrightarrow> pending_ok c (es @ [e]) m"
  by (auto simp: pending_ok_def request_ok_def)

lemma pending_ok_insert:
  assumes "pending_ok c es m" "length (pm_pending m) < MAX_PENDING_REQUESTS" "request_ok c es k r"
  shows "pending_ok c es (m\<lparr>pm_pending := dm_insert k r (pm_pending m)\<rparr>)"
  using assms length_dm_insert [of k r "pm_pending m"] by (simp add: pending_ok_def)

lemma pending_ok_remove: "pending_ok c es m \<Longrightarrow> pending_ok c es (m\<lparr>pm_pending := dm_remove k (pm_pending m)\<rparr>)"
  using length_dm_delete [of k "pm_pending m"] by (simp add: pending_ok_def)

lemma pending_ok_devices [simp]:
  "pending_ok c es (m\<lparr>pm_devices := ds\<rparr>) = pending_ok c es m" "pending_ok c es (persist d op m) = pending_ok c es m"
  by (simp_all add: pending_ok_def persist_def)

lemma pending_ok_step:
  assumes ok: "pending_ok c es m"
  shows "pending_ok c (es @ [e]) (pairing_step m e)"
proof (cases e)
  case (CreateRequest now tok)
  define m1 where "m1 = (if length (pm_pending m) \<ge> MAX_PENDING_REQUESTS then clean_expired now m else m)"
  have m1: "pending_ok c (es @ [e]) m1" using pending_ok_clean [OF ok] ok pending_ok_more by (simp add: m1_def)
  have req: "request_ok c (es @ [e]) tok \<lparr>req_token = tok, created_at = now,
      expires_at = now + from_secs (unat (token_expiry_secs (pm_config m)))\<rparr>"
    using ok CreateRequest by (auto simp: request_ok_def pending_ok_def)
  show ?thesis
    using m1 req pending_ok_more [OF ok, of e] pending_ok_insert [OF m1 _ req]
    by (simp add: CreateRequest create_pairing_request_def m1_def [symmetric] Let_def)
next
  case (CompletePairing now tok d)
  show ?thesis
    using pending_ok_more [OF ok, of e] pending_ok_remove [OF pending_ok_more [OF ok, of e]]
    by (simp add: CompletePairing complete_pairing_def split: option.split prod.split)
next
  case (RemoveDevice i)
  then show ?thesis using pending_ok_more [OF ok, of e] by (simp add: remove_device_def split: option.split)
next
  case (CleanExpired now)
  then show ?thesis using pending_ok_clean [OF pending_ok_more [OF ok, of e]] by simp
qed

lemma pending_ok_reachable: "pending_ok c es (run pairing_step (new_pairing c) es)"
proof (induction es rule: rev_induct)
  case Nil
  show ?case by (simp add: pending_ok_def new_pairing_def)
next
  case (snoc e es)
  then show ?case using pending_ok_step by (simp add: run_append)
qed

lemma pairing_counts:
  "times (\<lambda>m. paired m t) (new_pairing c) es + (if dm_get (pm_pending (run pairing_step (new_pairing c) es)) t = None then 0 else 1)
    \<le> times (\<lambda>m. created m t) (new_pairing c) es"
proof (induction es rule: rev_induct)
  case Nil
  show ?case by (simp add: new_pairing_def)
next
  case (snoc e es)
  let ?m = "run pairing_step (new_pairing c) es"
  have ok: "pending_ok c es ?m" by (rule pending_ok_reachable)
  have clean: "dm_get (pm_pending (clean_expired n ?m)) t \<noteq> None \<Longrightarrow> dm_get (pm_pending ?m) t \<noteq> None" for n
    using ok by (auto simp: clean_expired_def get_filtered pending_ok_def split: option.splits)
  show ?case
  proof (cases e)
    case (CreateRequest now tok)
    then show ?thesis using snoc clean [of now]
      by (auto simp: run_append times_snoc create_pairing_request_def Let_def succeeded_def split: if_splits)
  next
    case (CompletePairing now tok d)
    then show ?thesis using snoc find_token [OF ok, of tok]
      by (auto simp: run_append times_snoc complete_pairing_def persist_def succeeded_def split: option.splits if_splits)
  next
    case (RemoveDevice i)
    then show ?thesis using snoc
      by (auto simp: run_append times_snoc remove_device_def persist_def split: option.splits if_splits)
  next
    case (CleanExpired now)
    then show ?thesis using snoc clean [of now] by (auto simp: run_append times_snoc split: if_splits)
  qed
qed

section \<open>Properties of pairings\<close>

text \<open>
  A device is paired with a token only within the token's time, only as often as the token was
  given out, and only while there are fewer devices than the limit: in every history of requests,
  pairings and removals.
\<close>

theorem pairing_needs_fresh_token:
  assumes "complete_pairing now t d (run pairing_step (new_pairing c) es) = (Inr d', m')"
  shows "(\<exists>n. CreateRequest n t \<in> set es \<and> now \<le> n + from_secs (unat (token_expiry_secs c)))
    \<and> times (\<lambda>m. paired m t) (new_pairing c) es < times (\<lambda>m. created m t) (new_pairing c) es
    \<and> d' = d \<and> dm_get (pm_devices m') (device_id d) = Some d \<and> length (pm_devices m') \<le> max_devices c"
proof -
  let ?m = "run pairing_step (new_pairing c) es"
  have ok: "pending_ok c es ?m" by (rule pending_ok_reachable)
  obtain r where r: "dm_get (pm_pending ?m) t = Some r" "now \<le> expires_at r" "length (pm_devices ?m) < max_devices c"
    and m': "d' = d" "pm_devices m' = dm_insert (device_id d) d (pm_devices ?m)"
    using assms find_token [OF ok, of t] ok
    by (auto simp: complete_pairing_def persist_def pending_ok_def split: option.splits if_splits)
  have "request_ok c es t r" using ok r(1) by (simp add: pending_ok_def)
  then show ?thesis
    using r m' pairing_counts [of t c es] length_dm_insert [of "device_id d" d "pm_devices ?m"]
    by (auto simp: request_ok_def)
qed

theorem pairing_needs_fresh_token_witness:
  "\<exists>m'. complete_pairing 200 ''t'' \<lparr>device_id = ''d'', device_name = ''phone'', device_platform = ''ios'', paired_at = 0,
        last_seen = 0, push_token = None\<rparr>
      (run pairing_step (new_pairing (default_pairing_config\<lparr>pairing_enabled := True\<rparr>)) [CreateRequest 100 ''t'']) =
      (Inr \<lparr>device_id = ''d'', device_name = ''phone'', device_platform = ''ios'', paired_at = 0, last_seen = 0, push_token = None\<rparr>, m')
    \<and> length (pm_devices m') \<le> 10"
proof -
  let ?c = "default_pairing_config\<lparr>pairing_enabled := True\<rparr>"
  let ?d = "\<lparr>device_id = ''d'', device_name = ''phone'', device_platform = ''ios'', paired_at = 0, last_seen = 0, push_token = None\<rparr>"
  obtain m' where m': "complete_pairing 200 ''t'' ?d (run pairing_step (new_pairing ?c) [CreateRequest 100 ''t'']) = (Inr ?d, m')"
    by (simp add: complete_pairing_def create_pairing_request_def new_pairing_def default_pairing_config_def
        MAX_PENDING_REQUESTS_def dm_insert_def from_secs_def Let_def persist_def)
  with pairing_needs_fresh_token [OF m'] show ?thesis by (auto simp: default_pairing_config_def)
qed

theorem channel_user_authorized_iff_witness:
  "authorize_channel_user (new_auth [1, 2] [\<lparr>uc_name = ''ada'', uc_role = ''Owner'', channel_bindings = [(''telegram'', ''7'')], api_key_hash = None\<rparr>,
       \<lparr>uc_name = ''bob'', uc_role = ''viewer'', channel_bindings = [(''telegram'', ''8'')], api_key_hash = None\<rparr>]) ''telegram'' ''8'' ''chat'' \<noteq> Inr ()"
  by (subst channel_user_authorized_iff)
    (simp_all add: plain_channels_def bound_to_def from_str_role_def to_lowercase_def char_to_lower_def channel_action_def less_eq_user_role_def)

end
