(* ===== verification/Bridge.thy ===== *)
theory Bridge
  imports Router Commands Users SessionRepair
begin

text \<open>
  What the channel bridge does with a message: \<open>dispatch_message\<close>, \<open>dispatch_with_blocks\<close> and
  \<open>handle_command\<close> of \<open>openfang-channels/src/bridge.rs\<close> with the rate limiter, the agent prefix,
  the texts of agent errors and the images. A dispatch changes the router and the rate limiter
  and gives the list of calls it makes, in order: \<open>bridge_effect\<close> (a delivery is recorded for the
  channel and sender of the message; agents of a parallel broadcast are called in any order). What the kernel handle, the
  adapter, the disk and the network answer are parameters. Logging, the typing refresher and the
  formatting of a reply for its platform are left out.
\<close>

section \<open>Configuration\<close>

datatype dm_policy = RespondDms | AllowedOnly | IgnoreDms

datatype group_policy = AllGroups | MentionOnly | CommandsOnly | IgnoreGroups

datatype prefix_style = PrefixOff | Bracket | BoldBracket

datatype output_format = Markdown | TelegramHtml | SlackMrkdwn | PlainText

datatype usage_footer_mode = FooterOff | FooterTokens | FooterCost | FooterFull

datatype typing_mode = TypingInstant | TypingMessage | TypingThinking | TypingNever

record channel_overrides =
  ov_model :: "string option"
  ov_system_prompt :: "string option"
  ov_dm_policy :: dm_policy
  ov_group_policy :: group_policy
  rate_limit_per_user :: u32
  threading :: bool
  ov_output_format :: "output_format option"
  usage_footer :: "usage_footer_mode option"
  ov_typing_mode :: "typing_mode option"
  lifecycle_reactions :: bool
  prefix_agent_name :: prefix_style

definition default_overrides :: channel_overrides where
  "default_overrides = \<lparr>ov_model = None, ov_system_prompt = None, ov_dm_policy = RespondDms,
     ov_group_policy = MentionOnly, rate_limit_per_user = 0, threading = False, ov_output_format = None,
     usage_footer = None, ov_typing_mode = None, lifecycle_reactions = True, prefix_agent_name = PrefixOff\<rparr>"

definition default_output_format_for_channel :: "string \<Rightarrow> output_format" where
  "default_output_format_for_channel ct =
     (if ct = ''telegram'' then TelegramHtml else if ct = ''slack'' then SlackMrkdwn
      else if ct = ''wecom'' then PlainText else if ct = ''signal'' then PlainText else Markdown)"

section \<open>Rate limiter\<close>

type_synonym rate_buckets = "(string, instant list) dashmap"

text \<open>The error holds the limit, which the message names.\<close>

definition rate_check :: "instant \<Rightarrow> string \<Rightarrow> string \<Rightarrow> u32 \<Rightarrow> rate_buckets \<Rightarrow> (u32 + unit) \<times> rate_buckets" where
  "rate_check now channel_type user max_per_minute buckets =
     (if max_per_minute = 0 then (Inr (), buckets)
      else
        let key = channel_type @ '':'' @ user;
            entry = filter (\<lambda>ts. now - ts < from_secs 60) (dm_entry buckets key [])
        in if length entry \<ge> unat max_per_minute then (Inl max_per_minute, dm_insert key entry buckets)
           else (Inr (), dm_insert key (entry @ [now]) buckets))"

definition rate_message :: "u32 \<Rightarrow> string" where
  "rate_message n = ''Rate limit exceeded ('' @ show_word n @ '' messages/minute). Please wait.''"

section \<open>Replies\<close>

definition apply_agent_prefix :: "prefix_style \<Rightarrow> string \<Rightarrow> string \<Rightarrow> string" where
  "apply_agent_prefix style agent_name txt =
     (if style = PrefixOff \<or> agent_name = [] then txt
      else
        let bracket = ''['' @ agent_name @ '']''; bold = ''**['' @ agent_name @ '']**''
        in if starts_with txt bracket \<or> starts_with txt bold then txt
           else case style of PrefixOff \<Rightarrow> txt | Bracket \<Rightarrow> bracket @ '' '' @ txt | BoldBracket \<Rightarrow> bold @ '' '' @ txt)"

definition mentions :: "string \<Rightarrow> string list \<Rightarrow> bool" where
  "mentions lower pats = list_ex (str_contains lower) pats"

definition sanitize_agent_error :: "string \<Rightarrow> string" where
  "sanitize_agent_error raw =
     (let lower = to_lowercase raw in
      if mentions lower [''rate limit'', ''rate_limit'', ''429'', ''too many requests'', ''resource_exhausted'']
      then ''Rate limit reached, please try again later.''
      else if mentions lower [''authentication'', ''unauthorized'', ''invalid api key'', ''invalid x-goog-api-key'',
        ''incorrect api key'', ''permission denied'', ''billing'', ''quota exceeded'']
      then ''Service temporarily unavailable.''
      else if mentions lower [''context length'', ''token limit'', ''too many tokens'', ''maximum context'', ''max_tokens'',
        ''context window'']
      then ''Message too long, try a shorter request.''
      else if mentions lower [''overloaded'', ''503'', ''502'', ''server error'', ''internal error'']
      then ''The AI service is temporarily overloaded, please try again shortly.''
      else if mentions lower [''timeout'', ''timed out'', ''deadline''] then ''Request timed out, please try again.''
      else if mentions lower [''model not found'', ''model_not_found''] then ''The requested model is currently unavailable.''
      else
        let cleaned = (case or_else (strip_prefix ''LLM driver error: '' raw) (strip_prefix ''Agent error: '' raw) of
              Some c \<Rightarrow> c | None \<Rightarrow> raw);
            short = (case str_find cleaned ''. '' of
              Some e \<Rightarrow> (let first = take (Suc e) cleaned in if length first < length cleaned div 2 then Some first else None)
            | None \<Rightarrow> None)
        in case short of
             Some first \<Rightarrow> ''Agent error: '' @ first
           | None \<Rightarrow>
               if CHR ''{'' \<in> set cleaned \<or> length cleaned > 200
               then ''Something went wrong processing your request. Please try again.''
               else ''Agent error: '' @ cleaned)"

section \<open>The world around the bridge\<close>

datatype command_call =
    UptimeInfo
  | SpawnAgentByName string
  | ResetSession uuid
  | CompactSession uuid
  | SetModel uuid string
  | StopRun uuid
  | SessionUsage uuid
  | SetThinking uuid bool
  | ListModelsText | ListProvidersText | ListSkillsText | ListHandsText
  | ListWorkflowsText
  | RunWorkflowText string string
  | ListTriggersText
  | CreateTriggerText string string string
  | DeleteTriggerText string
  | ListSchedulesText
  | ManageScheduleText string "string list"
  | ListApprovalsText
  | ResolveApprovalText string bool
  | BudgetText | PeersText | A2aAgentsText

text \<open>
  \<open>answer\<close> is the text of a call that cannot fail, \<open>try_call\<close> the result of one that can.
\<close>

record channel_handle = bridge_handle +
  send_to_agent :: "uuid \<Rightarrow> string \<Rightarrow> string + string"
  send_blocks :: "uuid \<Rightarrow> content_block list \<Rightarrow> string + string"
  spawn_agent_by_name :: "string \<Rightarrow> string + uuid"
  authorize_user :: "string \<Rightarrow> string \<Rightarrow> string \<Rightarrow> string + unit"
  overrides_for :: "string \<Rightarrow> channel_overrides option"
  free_response_channels :: "string \<Rightarrow> string list"
  check_auto_reply :: "uuid \<Rightarrow> string \<Rightarrow> string option"
  answer :: "command_call \<Rightarrow> string"
  try_call :: "command_call \<Rightarrow> string + string"

record adapter =
  should_auto_thread :: "channel_message \<Rightarrow> string option"
  create_thread :: "string \<Rightarrow> string + string"
  suppress_error_responses :: bool

datatype fetched = SendFailed string | BodyFailed string | Fetched "string option" "u8 list"

record bridge_world =
  debug_channel :: "channel_type \<Rightarrow> string"
  show_f64 :: "f64 \<Rightarrow> string"
  read_file :: "string \<Rightarrow> string + u8 list"
  http_get :: "string \<Rightarrow> fetched"
  base64 :: "u8 list \<Rightarrow> string"

datatype phase = Queued | ThinkingPhase | Done | ErrorPhase

datatype bridge_effect =
    Respond string "string option" output_format
  | CreateThread string
  | Invoke command_call
  | TypingIndicator
  | React phase
  | CallAgent uuid string
  | CallBlocks uuid "content_block list"
  | RecordDelivery uuid bool "string option" "string option"

section \<open>Images\<close>

definition MAX_DOWNLOAD_BYTES :: nat where
  "MAX_DOWNLOAD_BYTES = 5 * 1024 * 1024"

definition detect_image_magic :: "u8 list \<Rightarrow> string option" where
  "detect_image_magic bs =
     (if length bs \<ge> 3 \<and> take 3 bs = [0xFF, 0xD8, 0xFF] then Some ''image/jpeg''
      else if length bs \<ge> 4 \<and> take 4 bs = [0x89, 0x50, 0x4E, 0x47] then Some ''image/png''
      else if length bs \<ge> 4 \<and> take 4 bs = [0x47, 0x49, 0x46, 0x38] then Some ''image/gif''
      else if length bs \<ge> 12 \<and> take 4 bs = [0x52, 0x49, 0x46, 0x46] \<and> take 4 (drop 8 bs) = [0x57, 0x45, 0x42, 0x50]
      then Some ''image/webp''
      else None)"

definition media_type_from_url :: "string \<Rightarrow> string" where
  "media_type_from_url url =
     (if str_contains url ''.png'' then ''image/png'' else if str_contains url ''.gif'' then ''image/gif''
      else if str_contains url ''.webp'' then ''image/webp'' else ''image/jpeg'')"

definition image_header :: "string option \<Rightarrow> string option" where
  "image_header content_type =
     (case map_option (\<lambda>ct. trim (hd (split_on (CHR '';'') ct))) content_type of
        Some ct \<Rightarrow> if starts_with ct ''image/'' then Some ct else None
      | None \<Rightarrow> None)"

definition text_block :: "string \<Rightarrow> content_block" where
  "text_block s = ContentText s None"

definition image_blocks :: "bridge_world \<Rightarrow> string \<Rightarrow> string option \<Rightarrow> u8 list \<Rightarrow> string option \<Rightarrow> content_block list" where
  "image_blocks w url caption bytes header =
     (let media = (case header of Some t \<Rightarrow> t
            | None \<Rightarrow> (case detect_image_magic bytes of Some t \<Rightarrow> t | None \<Rightarrow> media_type_from_url url));
          note_text = ''[Image too large for vision ('' @ show_nat (length bytes div 1024) @ '' KB)]''
      in if length bytes > MAX_DOWNLOAD_BYTES
         then [text_block (case caption of Some c \<Rightarrow> note_text @ [newline] @ ''Caption: '' @ c | None \<Rightarrow> note_text)]
         else (case caption of Some c \<Rightarrow> if c \<noteq> [] then [text_block c] else [] | None \<Rightarrow> [])
              @ [Image media (base64 w bytes)])"

definition download_image_to_blocks :: "bridge_world \<Rightarrow> string \<Rightarrow> string option \<Rightarrow> content_block list" where
  "download_image_to_blocks w url caption =
     (case strip_prefix ''file://'' url of
        Some path \<Rightarrow>
          (case read_file w path of
             Inl e \<Rightarrow> [text_block (''[Image read failed: '' @ e @ '']'')]
           | Inr bytes \<Rightarrow> image_blocks w url caption bytes None)
      | None \<Rightarrow>
          (case http_get w url of
             SendFailed e \<Rightarrow> [text_block (''[Image download failed: '' @ e @ '']'')]
           | BodyFailed e \<Rightarrow> [text_block (''[Image read failed: '' @ e @ '']'')]
           | Fetched content_type bytes \<Rightarrow> image_blocks w url caption bytes (image_header content_type)))"

section \<open>The text of a message\<close>

fun command_text :: "string \<Rightarrow> string list \<Rightarrow> string" where
  "command_text name args = ''/'' @ name @ '' '' @ join_with '' '' args"

definition failed_photo :: "string option \<Rightarrow> string" where
  "failed_photo caption =
     (case caption of
        Some c \<Rightarrow> ''[User sent a photo, but it could not be downloaded]'' @ [newline] @ ''Caption: '' @ c
      | None \<Rightarrow> ''[User sent a photo, but it could not be downloaded]'')"

fun part_text :: "bridge_world \<Rightarrow> channel_content \<Rightarrow> string" where
  "part_text w (TextContent t) = t"
| "part_text w (ImageContent url caption) = failed_photo caption"
| "part_text w (FileContent url filename mime sz) = ''[User sent a file ('' @ filename @ ''): '' @ url @ '']''"
| "part_text w (VoiceContent url secs) = ''[User sent a voice message ('' @ show_word secs @ ''s): '' @ url @ '']''"
| "part_text w (LocationContent lat lon) = ''[User shared location: '' @ show_f64 w lat @ '', '' @ show_f64 w lon @ '']''"
| "part_text w (FileData d filename mime) = ''[User sent a local file: '' @ filename @ '']''"
| "part_text w (CommandContent name args) = command_text name args"
| "part_text w (MultipartContent _) = []"

fun content_text :: "bridge_world \<Rightarrow> channel_content \<Rightarrow> string" where
  "content_text w (MultipartContent parts) =
     join_with [newline] (filter (\<lambda>s. s \<noteq> []) (map (part_text w) parts))"
| "content_text w c = part_text w c"

fun part_blocks :: "bridge_world \<Rightarrow> channel_content \<Rightarrow> content_block list" where
  "part_blocks w (ImageContent url caption) = download_image_to_blocks w url caption"
| "part_blocks w (MultipartContent _) = []"
| "part_blocks w c = [text_block (part_text w c)]"

fun is_image :: "content_block \<Rightarrow> bool" where
  "is_image (Image _ _) = True"
| "is_image _ = False"

text \<open>The blocks a message is sent to the agent as, if it holds an image that could be loaded.\<close>

fun message_blocks :: "bridge_world \<Rightarrow> channel_content \<Rightarrow> content_block list option" where
  "message_blocks w (MultipartContent parts) =
     (let blocks = concat (map (part_blocks w) parts) in if list_ex is_image blocks then Some blocks else None)"
| "message_blocks w (ImageContent url caption) =
     (let blocks = download_image_to_blocks w url caption in if list_ex is_image blocks then Some blocks else None)"
| "message_blocks w _ = None"

definition sender_prefixed :: "channel_message \<Rightarrow> string \<Rightarrow> string" where
  "sender_prefixed m txt =
     (let name = display_name (cm_sender m) in
      if name \<noteq> [] then
        case metadata_str m ''sender_email'' of
          Some email \<Rightarrow> ''[From: '' @ name @ '' <'' @ email @ ''>] '' @ txt
        | None \<Rightarrow>
            (case metadata_str m ''telegram_user_id'' of
               Some tg \<Rightarrow> ''[From: '' @ name @ '' (tg_id:'' @ tg @ '')] '' @ txt
             | None \<Rightarrow> ''[From: '' @ name @ ''] '' @ txt)
      else txt)"

section \<open>Commands\<close>

definition agent_names :: "'a bridge_handle_scheme \<Rightarrow> string list" where
  "agent_names h = (case list_agents h of Inr as \<Rightarrow> map snd as | Inl _ \<Rightarrow> [])"

definition name_lines :: "string list \<Rightarrow> string" where
  "name_lines names = concat (map (\<lambda>n. ''  - '' @ n @ [newline]) names)"

definition result_text :: "string + string \<Rightarrow> string" where
  "result_text r = (case r of Inl e \<Rightarrow> ''Error: '' @ e | Inr t \<Rightarrow> t)"

type_synonym command_result = "string \<times> bridge_effect list \<times> agent_router"

definition say :: "agent_router \<Rightarrow> string \<Rightarrow> command_result" where
  "say r t = (t, [], r)"

definition ask :: "channel_handle \<Rightarrow> agent_router \<Rightarrow> command_call \<Rightarrow> command_result" where
  "ask h r c = (answer h c, [Invoke c], r)"

text \<open>The session commands look up the agent of the user as if the message had come from the CLI.\<close>

definition on_session ::
  "bridge_world \<Rightarrow> channel_handle \<Rightarrow> agent_router \<Rightarrow> channel_user \<Rightarrow> string \<Rightarrow> (uuid \<Rightarrow> command_call) \<Rightarrow> command_result" where
  "on_session w h r sender user c =
     (case resolve_route (debug_channel w) r CLI user (openfang_user sender) of
        Some i \<Rightarrow> (result_text (try_call h (c i)), [Invoke (c i)], r)
      | None \<Rightarrow> say r ''No agent selected. Use /agent <name> first.'')"

definition select_agent :: "channel_handle \<Rightarrow> agent_router \<Rightarrow> string \<Rightarrow> string list \<Rightarrow> command_result" where
  "select_agent h r user args =
     (case args of
        [] \<Rightarrow>
          if agent_names h = [] then say r ''No agents running. Usage: /agent <name>''
          else say r (trim_end (''Usage: /agent <name>'' @ [newline, newline] @ ''Available agents:'' @ [newline]
                 @ name_lines (agent_names h)))
      | name # _ \<Rightarrow>
          (case find_agent_by_name h name of
             Inr (Some i) \<Rightarrow> (''Now talking to agent: '' @ name, [], set_user_default r user i)
           | Inr None \<Rightarrow>
               (case spawn_agent_by_name h name of
                  Inr i \<Rightarrow> (''Spawned and connected to agent: '' @ name, [Invoke (SpawnAgentByName name)], set_user_default r user i)
                | Inl e \<Rightarrow> (''Agent '' @ [CHR 0x27] @ name @ [CHR 0x27] @ '' not found and could not spawn: '' @ e,
                      [Invoke (SpawnAgentByName name)], r))
           | Inl e \<Rightarrow> say r (''Error finding agent: '' @ e)))"

definition welcome_text :: "string list \<Rightarrow> string" where
  "welcome_text names =
     ''Welcome to OpenFang! I connect you to AI agents.'' @ [newline, newline] @ ''Available agents:'' @ [newline]
     @ (if names = [] then ''  (none running)'' @ [newline] else name_lines names)
     @ [newline] @ ''Commands:'' @ [newline] @ ''/agents - list agents'' @ [newline]
     @ ''/agent <name> - select an agent'' @ [newline] @ ''/help - show this help''"

definition trigger_usage :: string where
  "trigger_usage = ''Usage:'' @ [newline] @ ''  /trigger add <agent> <pattern> <prompt>'' @ [newline] @ ''  /trigger del <id-prefix>''"

definition schedule_usage :: string where
  "schedule_usage = ''Usage:'' @ [newline] @ ''  /schedule add <agent> <cron-5-fields> <message>'' @ [newline]
     @ ''  /schedule del <id-prefix>'' @ [newline] @ ''  /schedule run <id-prefix>''"

definition handle_command ::
  "bridge_world \<Rightarrow> channel_handle \<Rightarrow> agent_router \<Rightarrow> channel_user \<Rightarrow> string \<Rightarrow> string \<Rightarrow> string list \<Rightarrow> command_result" where
  "handle_command w h r sender user name args =
     (let canonical = canonical_command name in
      if canonical = ''start'' then say r (welcome_text (agent_names h))
      else if canonical = ''help'' then say r format_channel_help
      else if canonical = ''status'' then ask h r UptimeInfo
      else if canonical = ''agents'' then
        say r (if agent_names h = [] then ''No agents running.'' else ''Running agents:'' @ [newline] @ name_lines (agent_names h))
      else if canonical = ''agent'' then select_agent h r user args
      else if canonical = ''new'' then on_session w h r sender user ResetSession
      else if canonical = ''compact'' then on_session w h r sender user CompactSession
      else if canonical = ''model'' then
        on_session w h r sender user (\<lambda>i. SetModel i (case args of [] \<Rightarrow> [] | a # _ \<Rightarrow> a))
      else if canonical = ''stop'' then on_session w h r sender user StopRun
      else if canonical = ''usage'' then on_session w h r sender user SessionUsage
      else if canonical = ''think'' then
        on_session w h r sender user (\<lambda>i. SetThinking i (case args of [] \<Rightarrow> True | a # _ \<Rightarrow> a = ''on''))
      else if canonical = ''models'' then ask h r ListModelsText
      else if canonical = ''providers'' then ask h r ListProvidersText
      else if canonical = ''skills'' then ask h r ListSkillsText
      else if canonical = ''hands'' then ask h r ListHandsText
      else if canonical = ''workflows'' then ask h r ListWorkflowsText
      else if canonical = ''workflow'' then
        (if length args \<ge> 2 \<and> args ! 0 = ''run'' then ask h r (RunWorkflowText (args ! 1) (join_with '' '' (drop 2 args)))
         else say r ''Usage: /workflow run <name> [input]'')
      else if canonical = ''triggers'' then ask h r ListTriggersText
      else if canonical = ''trigger'' then
        (if length args \<ge> 4 \<and> args ! 0 = ''add''
         then ask h r (CreateTriggerText (args ! 1) (args ! 2) (join_with '' '' (drop 3 args)))
         else if length args \<ge> 2 \<and> args ! 0 = ''del'' then ask h r (DeleteTriggerText (args ! 1))
         else say r trigger_usage)
      else if canonical = ''schedules'' then ask h r ListSchedulesText
      else if canonical = ''schedule'' then
        (case args of
           [] \<Rightarrow> say r schedule_usage
         | act # rest \<Rightarrow>
             if act \<in> {''add'', ''del'', ''run''} then ask h r (ManageScheduleText act rest) else say r schedule_usage)
      else if canonical = ''approvals'' then ask h r ListApprovalsText
      else if canonical = ''approve'' then
        (case args of [] \<Rightarrow> say r ''Usage: /approve <id-prefix>'' | a # _ \<Rightarrow> ask h r (ResolveApprovalText a True))
      else if canonical = ''reject'' then
        (case args of [] \<Rightarrow> say r ''Usage: /reject <id-prefix>'' | a # _ \<Rightarrow> ask h r (ResolveApprovalText a False))
      else if canonical = ''budget'' then ask h r BudgetText
      else if canonical = ''peers'' then ask h r PeersText
      else if canonical = ''a2a'' then ask h r A2aAgentsText
      else say r (''Unknown command: /'' @ name @ [newline, newline] @ render_help CHANNEL))"

text \<open>A text that starts with a slash, cut at its first space.\<close>

definition slash_command :: "string \<Rightarrow> (string \<times> string list) option" where
  "slash_command txt =
     (if starts_with txt ''/'' then
        let cmd = tl (takeWhile (\<lambda>c. c \<noteq> CHR '' '') txt);
            args = split_whitespace (drop 1 (dropWhile (\<lambda>c. c \<noteq> CHR '' '') txt))
        in if is_channel_command cmd then Some (cmd, args) else None
      else None)"

section \<open>Talking to an agent\<close>

record dispatch_context =
  dc_thread :: "string option"
  dc_format :: output_format
  dc_reactions :: bool
  dc_style :: prefix_style

definition resolve_agent_name :: "'a bridge_handle_scheme \<Rightarrow> uuid \<Rightarrow> string option" where
  "resolve_agent_name h i =
     (case list_agents h of Inr as \<Rightarrow> map_option snd (find (\<lambda>(j, _). j = i) as) | Inl _ \<Rightarrow> None)"

definition maybe_prefix_response :: "'a bridge_handle_scheme \<Rightarrow> prefix_style \<Rightarrow> uuid \<Rightarrow> string \<Rightarrow> string" where
  "maybe_prefix_response h style i txt =
     (if style = PrefixOff then txt
      else case resolve_agent_name h i of Some name \<Rightarrow> apply_agent_prefix style name txt | None \<Rightarrow> txt)"

definition reply_effects :: "channel_handle \<Rightarrow> adapter \<Rightarrow> dispatch_context \<Rightarrow> uuid \<Rightarrow> string + string \<Rightarrow> bridge_effect list" where
  "reply_effects h ad dc i result =
     (case result of
        Inr response \<Rightarrow>
          (if dc_reactions dc then [React Done] else [])
          @ [Respond (maybe_prefix_response h (dc_style dc) i response) (dc_thread dc) (dc_format dc),
             RecordDelivery i True None (dc_thread dc)]
      | Inl e \<Rightarrow>
          (if dc_reactions dc then [React ErrorPhase] else [])
          @ (if suppress_error_responses ad then [] else [Respond (sanitize_agent_error e) (dc_thread dc) (dc_format dc)])
          @ [RecordDelivery i False (Some (sanitize_agent_error e)) (dc_thread dc)])"

text \<open>
  The call of an agent, with a second try at the agent its channel's default is resolved to anew.
  The two calls are given, since the second one need not send what the first one sent.
\<close>

definition talk ::
  "bridge_world \<Rightarrow> channel_handle \<Rightarrow> adapter \<Rightarrow> dispatch_context \<Rightarrow> agent_router \<Rightarrow> channel_message \<Rightarrow>
    (uuid \<Rightarrow> bridge_effect \<times> (string + string)) \<Rightarrow> (uuid \<Rightarrow> bridge_effect \<times> (string + string)) \<Rightarrow> uuid \<Rightarrow>
    agent_router \<times> bridge_effect list" where
  "talk w h ad dc r m call retry i =
     (let start = TypingIndicator # (if dc_reactions dc then [React Queued, React ThinkingPhase] else []) @ [fst (call i)]
      in case snd (call i) of
           Inr _ \<Rightarrow> (r, start @ reply_effects h ad dc i (snd (call i)))
         | Inl e \<Rightarrow>
             (case try_reresolution h r e (debug_channel w (cm_channel m)) of
                (Some j, r') \<Rightarrow> (r', start @ [fst (retry j)] @ reply_effects h ad dc j (snd (retry j)))
              | (None, r') \<Rightarrow> (r', start @ reply_effects h ad dc i (Inl e))))"

definition no_agents_text :: string where
  "no_agents_text = ''No agents available. Start the dashboard at http://127.0.0.1:4200 to create one.''"

definition dispatch_with_blocks ::
  "bridge_world \<Rightarrow> channel_handle \<Rightarrow> adapter \<Rightarrow> dispatch_context \<Rightarrow> agent_router \<Rightarrow> channel_message \<Rightarrow> content_block list \<Rightarrow>
    agent_router \<times> bridge_effect list" where
  "dispatch_with_blocks w h ad dc r m blocks =
     (case route_or_fallback (debug_channel w) h r None m of
        (None, r') \<Rightarrow> (r', [Respond no_agents_text (dc_thread dc) (dc_format dc)])
      | (Some i, r') \<Rightarrow>
          (case authorize_user h (channel_type_to_str (cm_channel m)) (sender_user_id m) ''chat'' of
             Inl denied \<Rightarrow> (r', [Respond (''Access denied: '' @ denied) (dc_thread dc) (dc_format dc)])
           | Inr _ \<Rightarrow>
               let call = (\<lambda>i. (CallBlocks i blocks, send_blocks h i blocks)) in talk w h ad dc r' m call call i))"

definition dispatch_text ::
  "bridge_world \<Rightarrow> channel_handle \<Rightarrow> adapter \<Rightarrow> dispatch_context \<Rightarrow> agent_router \<Rightarrow> channel_message \<Rightarrow> string \<Rightarrow>
    agent_router \<times> bridge_effect list" where
  "dispatch_text w h ad dc r m txt =
     (case route_message (debug_channel w) h r m of
        (None, r') \<Rightarrow> (r', [Respond no_agents_text (dc_thread dc) (dc_format dc)])
      | (Some i, r') \<Rightarrow>
          (case authorize_user h (channel_type_to_str (cm_channel m)) (sender_user_id m) ''chat'' of
             Inl denied \<Rightarrow> (r', [Respond (''Access denied: '' @ denied) (dc_thread dc) (dc_format dc)])
           | Inr _ \<Rightarrow>
               (case check_auto_reply h i txt of
                  Some reply \<Rightarrow>
                    (r', [Respond (maybe_prefix_response h (dc_style dc) i reply) (dc_thread dc) (dc_format dc),
                          RecordDelivery i True None (dc_thread dc)])
                | None \<Rightarrow>
                    let full = sender_prefixed m txt
                    in talk w h ad dc r' m (\<lambda>i. (CallAgent i full, send_to_agent h i full))
                         (\<lambda>i. (CallAgent i txt, send_to_agent h i txt)) i)))"

definition broadcast_effects ::
  "channel_handle \<Rightarrow> dispatch_context \<Rightarrow> (string \<times> uuid option) list \<Rightarrow> channel_message \<Rightarrow> string \<Rightarrow> bridge_effect list" where
  "broadcast_effects h dc targets m txt =
     (case authorize_user h (channel_type_to_str (cm_channel m)) (sender_user_id m) ''chat'' of
        Inl denied \<Rightarrow> [Respond (''Access denied: '' @ denied) (dc_thread dc) (dc_format dc)]
      | Inr _ \<Rightarrow>
          let known = List.map_filter (\<lambda>(n, i). map_option (Pair n) i) targets;
              responses = map (\<lambda>(n, i). ''['' @ n @ '']: ''
                @ (case send_to_agent h i txt of Inr t \<Rightarrow> t | Inl e \<Rightarrow> ''Error: '' @ e)) known
          in TypingIndicator # map (\<lambda>(n, i). CallAgent i txt) known
             @ [Respond (join_with [newline, newline] responses) (dc_thread dc) (dc_format dc)])"

section \<open>Dispatch\<close>

definition was_mentioned :: "channel_message \<Rightarrow> bool" where
  "was_mentioned m = (dm_get (cm_metadata m) ''was_mentioned'' = Some (JBool True))"

definition policy_ignores :: "channel_handle \<Rightarrow> channel_overrides \<Rightarrow> channel_message \<Rightarrow> bool" where
  "policy_ignores h ov m =
     (let is_command = (case cm_content m of CommandContent _ _ \<Rightarrow> True | _ \<Rightarrow> False);
          slash = (case cm_content m of TextContent t \<Rightarrow> starts_with t ''/'' | _ \<Rightarrow> False)
      in if is_group m then
           case ov_group_policy ov of
             IgnoreGroups \<Rightarrow> True
           | CommandsOnly \<Rightarrow> \<not> (is_command \<or> slash)
           | MentionOnly \<Rightarrow>
               platform_id (cm_sender m) \<notin> set (free_response_channels h (channel_type_to_str (cm_channel m)))
               \<and> \<not> was_mentioned m \<and> \<not> is_command
           | AllGroups \<Rightarrow> False
         else ov_dm_policy ov = IgnoreDms)"

record bridge_state =
  bs_router :: agent_router
  bs_buckets :: rate_buckets

definition command_effects ::
  "bridge_world \<Rightarrow> channel_handle \<Rightarrow> dispatch_context \<Rightarrow> agent_router \<Rightarrow> channel_message \<Rightarrow> string \<Rightarrow> string list \<Rightarrow>
    agent_router \<times> bridge_effect list" where
  "command_effects w h dc r m name args =
     (case handle_command w h r (cm_sender m) (sender_user_id m) name args of
        (txt, effects, r') \<Rightarrow> (r', effects @ [Respond txt (dc_thread dc) (dc_format dc)]))"

definition dispatch_content ::
  "bridge_world \<Rightarrow> channel_handle \<Rightarrow> adapter \<Rightarrow> dispatch_context \<Rightarrow> agent_router \<Rightarrow> channel_message \<Rightarrow>
    agent_router \<times> bridge_effect list" where
  "dispatch_content w h ad dc r m =
     (case cm_content m of
        CommandContent name args \<Rightarrow> command_effects w h dc r m name args
      | c \<Rightarrow>
          (case message_blocks w c of
             Some blocks \<Rightarrow> dispatch_with_blocks w h ad dc r m blocks
           | None \<Rightarrow>
               let txt = content_text w c in
               case slash_command txt of
                 Some (cmd, args) \<Rightarrow> command_effects w h dc r m cmd args
               | None \<Rightarrow>
                   (case resolve_broadcast r (sender_user_id m) of
                      [] \<Rightarrow> dispatch_text w h ad dc r m txt
                    | targets \<Rightarrow> (r, broadcast_effects h dc targets m txt))))"

definition dispatch_message ::
  "bridge_world \<Rightarrow> channel_handle \<Rightarrow> adapter \<Rightarrow> instant \<Rightarrow> bridge_state \<Rightarrow> channel_message \<Rightarrow> bridge_state \<times> bridge_effect list" where
  "dispatch_message w h ad now s m =
     (let ct = channel_type_to_str (cm_channel m);
          ov = (case overrides_for h ct of Some ov \<Rightarrow> ov | None \<Rightarrow> default_overrides);
          configured = (overrides_for h ct \<noteq> None);
          fmt = (case ov_output_format ov of Some f \<Rightarrow> f | None \<Rightarrow> default_output_format_for_channel ct);
          auto_thread = (if \<not> threading ov \<and> cm_thread_id m = None then should_auto_thread ad m else None)
      in if configured \<and> policy_ignores h ov m then (s, [])
         else
           let (verdict, buckets) = (if configured \<and> rate_limit_per_user ov > 0
                 then rate_check now ct (sender_user_id m) (rate_limit_per_user ov) (bs_buckets s)
                 else (Inr (), bs_buckets s));
               s1 = s\<lparr>bs_buckets := buckets\<rparr>
           in case verdict of
                Inl n \<Rightarrow> (s1, [Respond (rate_message n) (cm_thread_id m) fmt])
              | Inr _ \<Rightarrow>
                  let thread = (case auto_thread of
                        Some name \<Rightarrow> (case create_thread ad name of Inr t \<Rightarrow> Some t | Inl _ \<Rightarrow> cm_thread_id m)
                      | None \<Rightarrow> cm_thread_id m);
                      threads = (case auto_thread of Some name \<Rightarrow> [CreateThread name] | None \<Rightarrow> []);
                      dc = \<lparr>dc_thread = thread, dc_format = fmt, dc_reactions = lifecycle_reactions ov,
                            dc_style = prefix_agent_name ov\<rparr>;
                      (r, effects) = dispatch_content w h ad dc (bs_router s) m
                  in (s1\<lparr>bs_router := r\<rparr>, threads @ effects))"

section \<open>Lemmas\<close>

text \<open>
  What gets an agent a message: a call, an automatic reply in its name, and of the commands those
  that run a workflow, run or schedule a job, or set a trigger (\<open>channel_bridge.rs\<close>).
\<close>

fun command_reaches :: "command_call \<Rightarrow> bool" where
  "command_reaches (RunWorkflowText _ _) = True"
| "command_reaches (CreateTriggerText _ _ _) = True"
| "command_reaches (ManageScheduleText act _) = (act = ''add'' \<or> act = ''run'')"
| "command_reaches _ = False"

fun reaches_agent :: "bridge_effect \<Rightarrow> bool" where
  "reaches_agent (CallAgent _ _) = True"
| "reaches_agent (CallBlocks _ _) = True"
| "reaches_agent (RecordDelivery _ _ _ _) = True"
| "reaches_agent (Invoke c) = command_reaches c"
| "reaches_agent _ = False"

text \<open>The command that a message is, if it is one.\<close>

definition commanded :: "bridge_world \<Rightarrow> channel_message \<Rightarrow> (string \<times> string list) option" where
  "commanded w m =
     (case cm_content m of CommandContent name args \<Rightarrow> Some (name, args) | c \<Rightarrow> slash_command (content_text w c))"

text \<open>The effects of a command that may reach an agent, and the commands that have them.\<close>

definition by_command :: "bridge_world \<Rightarrow> channel_message \<Rightarrow> bridge_effect \<Rightarrow> bool" where
  "by_command w m e \<longleftrightarrow>
     (\<exists>name args c. commanded w m = Some (name, args) \<and> canonical_command name \<in> {''workflow'', ''trigger'', ''schedule''}
        \<and> e = Invoke c)"

lemma command_reaches_few:
  "handle_command w h r sender user name args = (txt, effects, r') \<Longrightarrow> e \<in> set effects \<Longrightarrow> reaches_agent e \<Longrightarrow>
    canonical_command name \<in> {''workflow'', ''trigger'', ''schedule''} \<and> (\<exists>c. e = Invoke c)"
  by (auto simp: handle_command_def Let_def say_def ask_def on_session_def select_agent_def
      split: if_splits option.splits list.splits sum.splits)

lemma command_effects_few:
  "e \<in> set (snd (command_effects w h dc r m name args)) \<Longrightarrow> reaches_agent e \<Longrightarrow> commanded w m = Some (name, args) \<Longrightarrow>
    by_command w m e"
  unfolding by_command_def
  by (auto simp: command_effects_def dest: command_reaches_few split: prod.splits)

lemma blocks_authorized:
  "e \<in> set (snd (dispatch_with_blocks w h ad dc r m blocks)) \<Longrightarrow> reaches_agent e \<Longrightarrow>
    authorize_user h (channel_type_to_str (cm_channel m)) (sender_user_id m) ''chat'' = Inr ()"
  by (auto simp: dispatch_with_blocks_def split: option.splits sum.splits prod.splits)

lemma text_authorized:
  "e \<in> set (snd (dispatch_text w h ad dc r m txt)) \<Longrightarrow> reaches_agent e \<Longrightarrow>
    authorize_user h (channel_type_to_str (cm_channel m)) (sender_user_id m) ''chat'' = Inr ()"
  by (auto simp: dispatch_text_def split: option.splits sum.splits prod.splits)

lemma broadcast_authorized:
  "e \<in> set (broadcast_effects h dc targets m txt) \<Longrightarrow> reaches_agent e \<Longrightarrow>
    authorize_user h (channel_type_to_str (cm_channel m)) (sender_user_id m) ''chat'' = Inr ()"
  by (auto simp: broadcast_effects_def split: sum.splits)

lemma content_authorized:
  assumes "e \<in> set (snd (dispatch_content w h ad dc r m))" "reaches_agent e" "\<not> by_command w m e"
  shows "authorize_user h (channel_type_to_str (cm_channel m)) (sender_user_id m) ''chat'' = Inr ()"
proof -
  have c: "\<not> e \<in> set (snd (command_effects w h dc r m name args))" if "commanded w m = Some (name, args)" for name args
    using command_effects_few [OF _ assms(2) that] assms(3) by blast
  show ?thesis
    using assms(1,2) c unfolding dispatch_content_def commanded_def Let_def
    by (auto dest: blocks_authorized text_authorized broadcast_authorized
        split: channel_content.splits option.splits list.splits prod.splits)
qed

text \<open>The checks of a limiter in a history, and the times at which a key passed.\<close>

definition rate_step ::
  "u32 \<Rightarrow> rate_buckets \<times> (instant \<times> string) list \<Rightarrow> instant \<times> string \<times> string \<Rightarrow> rate_buckets \<times> (instant \<times> string) list" where
  "rate_step n = (\<lambda>(b, passes) (now, ct, user).
     case rate_check now ct user n b of
       (Inr _, b') \<Rightarrow> (b', passes @ [(now, ct @ '':'' @ user)])
     | (Inl _, b') \<Rightarrow> (b', passes))"

definition passed :: "string \<Rightarrow> (instant \<times> string) list \<Rightarrow> instant list" where
  "passed key passes = map fst (filter (\<lambda>(_, k). k = key) passes)"

definition within_limit :: "nat \<Rightarrow> instant list \<Rightarrow> bool" where
  "within_limit n ts = list_all (\<lambda>i. length (filter (\<lambda>t. ts ! i - t < from_secs 60) (take (Suc i) ts)) \<le> n) [0..<length ts]"

lemma within_limit_snoc:
  "within_limit n (ts @ [t]) \<longleftrightarrow> within_limit n ts \<and> length (filter (\<lambda>x. t - x < from_secs 60) ts) < n"
proof -
  have "0 < from_secs 60" by (simp add: from_secs_def)
  then show ?thesis by (auto simp: within_limit_def list_all_iff nth_append)
qed

definition bucket_ok :: "string \<Rightarrow> nat \<Rightarrow> (instant \<times> string \<times> string) list \<Rightarrow> rate_buckets \<times> (instant \<times> string) list \<Rightarrow> bool" where
  "bucket_ok key n es = (\<lambda>(b, passes). within_limit n (passed key passes)
     \<and> (\<exists>l. (\<forall>t. (\<forall>e\<in>set es. fst e \<le> t) \<longrightarrow> l \<le> t)
          \<and> dm_entry b key [] = filter (\<lambda>ts. l - ts < from_secs 60) (passed key passes)))"

lemma bucket_ok_step:
  assumes ok: "bucket_ok key (unat n) es (b, passes)" and n: "n \<noteq> 0" and later: "\<forall>e\<in>set es. fst e \<le> now"
  shows "bucket_ok key (unat n) (es @ [(now, ct, user)]) (rate_step n (b, passes) (now, ct, user))"
proof -
  obtain l where l: "\<forall>t. (\<forall>e\<in>set es. fst e \<le> t) \<longrightarrow> l \<le> t"
    "dm_entry b key [] = filter (\<lambda>ts. l - ts < from_secs 60) (passed key passes)" and lim: "within_limit (unat n) (passed key passes)"
    using ok by (auto simp: bucket_ok_def)
  show ?thesis
  proof (cases "ct @ '':'' @ user = key")
    case True
    define entry where "entry = filter (\<lambda>ts. now - ts < from_secs 60) (dm_entry b key [])"
    have "l \<le> now" using l(1) later by blast
    then have entry: "entry = filter (\<lambda>ts. now - ts < from_secs 60) (passed key passes)"
      unfolding entry_def l(2) filter_filter by (intro filter_cong) auto
    have bound: "\<forall>t. (\<forall>e\<in>set (es @ [(now, ct, user)]). fst e \<le> t) \<longrightarrow> now \<le> t" by auto
    show ?thesis
    proof (cases "length entry \<ge> unat n")
      case full: True
      then have "rate_step n (b, passes) (now, ct, user) = (dm_insert key entry b, passes)"
        using True n by (simp add: rate_step_def rate_check_def entry_def Let_def)
      moreover have "bucket_ok key (unat n) (es @ [(now, ct, user)]) (dm_insert key entry b, passes)"
        unfolding bucket_ok_def using lim bound entry by (auto simp: dm_entry_def intro!: exI [of _ now])
      ultimately show ?thesis by simp
    next
      case free: False
      then have "rate_step n (b, passes) (now, ct, user) = (dm_insert key (entry @ [now]) b, passes @ [(now, key)])"
        using True n by (simp add: rate_step_def rate_check_def entry_def Let_def)
      moreover have "bucket_ok key (unat n) (es @ [(now, ct, user)]) (dm_insert key (entry @ [now]) b, passes @ [(now, key)])"
        unfolding bucket_ok_def using lim bound entry free
        by (auto simp: dm_entry_def passed_def within_limit_snoc from_secs_def intro!: exI [of _ now])
      ultimately show ?thesis by simp
    qed
  next
    case False
    have "\<exists>e' passes'. rate_step n (b, passes) (now, ct, user) = (dm_insert (ct @ '':'' @ user) e' b, passes')
        \<and> passed key passes' = passed key passes"
      using n False by (auto simp: rate_step_def rate_check_def Let_def passed_def)
    then obtain e' passes' where s: "rate_step n (b, passes) (now, ct, user) = (dm_insert (ct @ '':'' @ user) e' b, passes')"
      "passed key passes' = passed key passes" by blast
    have "dm_entry (dm_insert (ct @ '':'' @ user) e' b) key [] = dm_entry b key []" using False by (simp add: dm_entry_def)
    then show ?thesis unfolding s(1) bucket_ok_def using lim l s(2) by auto
  qed
qed

lemma bucket_ok_run:
  assumes "n \<noteq> 0" "sorted (map fst es)"
  shows "bucket_ok key (unat n) es (foldl (rate_step n) ([], []) es)"
  using assms(2)
proof (induction es rule: rev_induct)
  case Nil
  show ?case by (auto simp: bucket_ok_def within_limit_def passed_def dm_entry_def)
next
  case (snoc e es)
  obtain now ct user where e: "e = (now, ct, user)" by (cases e)
  obtain b passes where s: "foldl (rate_step n) ([], []) es = (b, passes)" by (cases "foldl (rate_step n) ([], []) es")
  have "bucket_ok key (unat n) es (b, passes)" using snoc s by (simp add: sorted_append)
  moreover have "\<forall>e\<in>set es. fst e \<le> now" using snoc.prems e by (auto simp: sorted_append)
  ultimately show ?case using bucket_ok_step [OF _ assms(1)] e s by simp
qed

lemma dispatch_authorized:
  assumes "dispatch_message w h ad now s m = (s', effects)" "e \<in> set effects" "reaches_agent e" "\<not> by_command w m e"
  shows "authorize_user h (channel_type_to_str (cm_channel m)) (sender_user_id m) ''chat'' = Inr ()"
proof -
  have "e \<in> set (snd (dispatch_message w h ad now s m))" using assms(1,2) by simp
  then have "\<exists>dc. e \<in> set (snd (dispatch_content w h ad dc (bs_router s) m))"
    using assms(3) unfolding dispatch_message_def Let_def case_prod_beta
    by (auto split: if_splits option.splits sum.splits)
  then show ?thesis using content_authorized [OF _ assms(3,4)] by blast
qed

section \<open>Properties\<close>

text \<open>
  Only authorised users talk to agents. Whatever a message holds, if its dispatch calls an agent or
  delivers an automatic reply, then its sender was authorised to chat.
\<close>

theorem chat_needs_authorization:
  assumes "dispatch_message w h ad now s m = (s', effects)" "e \<in> set effects" "reaches_agent e" "\<forall>c. e \<noteq> Invoke c"
  shows "authorize_user h (channel_type_to_str (cm_channel m)) (sender_user_id m) ''chat'' = Inr ()"
  by (rule dispatch_authorized [OF assms(1-3)]) (use assms(4) in \<open>simp add: by_command_def\<close>)

text \<open>
  The rate limit holds. However the checks of all users are interleaved, at a limit of \<open>n\<close>
  messages no user passes more than \<open>n\<close> times within any minute.
\<close>

theorem rate_limit_holds:
  assumes "n \<noteq> 0" "sorted (map fst es)"
  shows "within_limit (unat n) (passed key (snd (foldl (rate_step n) ([], []) es)))"
  using bucket_ok_run [OF assms, of key] by (auto simp: bucket_ok_def split: prod.splits)

theorem rate_limit_holds_witness:
  "within_limit 2 (passed ''t:a'' (snd (foldl (rate_step 2) ([], []) [(1, ''t'', ''a''), (2, ''t'', ''a''), (3, ''t'', ''a'')])))"
  using rate_limit_holds [of 2 "[(1, ''t'', ''a''), (2, ''t'', ''a''), (3, ''t'', ''a'')]" "''t:a''"] by simp

text \<open>The prefix of an agent is put once, also when the text passes the bridge twice.\<close>

theorem prefix_idempotent: "apply_agent_prefix style n (apply_agent_prefix style n t) = apply_agent_prefix style n t"
  by (cases style) (auto simp: apply_agent_prefix_def Let_def starts_with_def)


text \<open>A sample world in which nobody is authorised.\<close>

definition closed_handle :: channel_handle where
  "closed_handle = \<lparr>find_agent_by_name = (\<lambda>_. Inr (Some 1)), list_agents = Inr [(1, ''ada'')], send_to_agent = (\<lambda>_ t. Inr t),
     send_blocks = (\<lambda>_ _. Inr []), spawn_agent_by_name = (\<lambda>_. Inr 2), authorize_user = (\<lambda>_ _ _. Inl ''stranger''),
     overrides_for = (\<lambda>_. None), free_response_channels = (\<lambda>_. []), check_auto_reply = (\<lambda>_ _. None),
     answer = (\<lambda>_. ''ok''), try_call = (\<lambda>_. Inr ''ok'')\<rparr>"

definition plain_world :: bridge_world where
  "plain_world = \<lparr>debug_channel = channel_name, show_f64 = (\<lambda>_. ''0''), read_file = (\<lambda>_. Inl ''gone''),
     http_get = (\<lambda>_. SendFailed ''offline''), base64 = (\<lambda>_. [])\<rparr>"

definition plain_adapter :: adapter where
  "plain_adapter = \<lparr>should_auto_thread = (\<lambda>_. None), create_thread = (\<lambda>_. Inl ''no''), suppress_error_responses = False\<rparr>"

definition text_from :: "string \<Rightarrow> string \<Rightarrow> channel_message" where
  "text_from user txt = \<lparr>cm_channel = Telegram, platform_message_id = ''1'',
     cm_sender = \<lparr>platform_id = user, display_name = ''Eve'', openfang_user = None\<rparr>, cm_content = TextContent txt,
     target_agent = None, cm_timestamp = 0, is_group = False, cm_thread_id = None, cm_metadata = []\<rparr>"

lemma slash_approve: "split_whitespace x = [x] \<Longrightarrow> slash_command (''/approve '' @ x) = Some (''approve'', [x])"
proof -
  have "is_channel_command ''approve''" by code_simp
  then show "split_whitespace x = [x] \<Longrightarrow> ?thesis" by (simp add: slash_command_def starts_with_def Let_def)
qed

lemma canonical_names: "canonical_command ''approve'' = ''approve''" "canonical_command ''new'' = ''new''"
  by code_simp+



theorem chat_needs_authorization_witness:
  "\<exists>s' effects. dispatch_message plain_world (closed_handle\<lparr>authorize_user := (\<lambda>_ _ _. Inr ())\<rparr>) plain_adapter 0
      \<lparr>bs_router = new_router, bs_buckets = []\<rparr> (text_from ''7'' ''hi'') = (s', effects)
    \<and> CallAgent 1 ''[From: Eve] hi'' \<in> set effects
    \<and> authorize_user (closed_handle\<lparr>authorize_user := (\<lambda>_ _ _. Inr ())\<rparr>) ''telegram'' ''7'' ''chat'' = Inr ()"
proof -
  let ?h = "closed_handle\<lparr>authorize_user := (\<lambda>_ _ _. Inr ())\<rparr>"
  let ?d = "dispatch_message plain_world ?h plain_adapter 0 \<lparr>bs_router = new_router, bs_buckets = []\<rparr> (text_from ''7'' ''hi'')"
  have call: "CallAgent 1 ''[From: Eve] hi'' \<in> set (snd ?d)"
    by (simp add: dispatch_message_def dispatch_content_def dispatch_text_def slash_command_def starts_with_def text_from_def
        closed_handle_def plain_adapter_def default_overrides_def resolve_broadcast_def new_router_def route_message_def
        route_or_fallback_def resolve_with_context_def resolve_binding_def metadata_str_def found_agent_def fallback_agent_def
        sender_user_id_def sender_prefixed_def talk_def Let_def)
  have "authorize_user ?h (channel_type_to_str (cm_channel (text_from ''7'' ''hi''))) (sender_user_id (text_from ''7'' ''hi'')) ''chat'' = Inr ()"
    by (rule chat_needs_authorization [of plain_world ?h plain_adapter 0 _ _ "fst ?d" "snd ?d" "CallAgent 1 ''[From: Eve] hi''"]) (use call in simp_all)
  then show ?thesis using call by (intro exI [of _ "fst ?d"] exI [of _ "snd ?d"]) simp
qed

text \<open>
  Anybody may approve. A command is answered before any authorisation: whoever sends
  \<open>/approve\<close> with the beginning of a request's id approves it, also a sender who may not chat.
\<close>

theorem approve_by_anyone:
  assumes "overrides_for h (channel_type_to_str (cm_channel m)) = None" "cm_content m = TextContent (''/approve '' @ x)"
    and "split_whitespace x = [x]"
  shows "Invoke (ResolveApprovalText x True) \<in> set (snd (dispatch_message w h ad now s m))"
  using slash_approve [OF assms(3)] assms(1,2) canonical_names(1)
  by (simp add: dispatch_message_def dispatch_content_def command_effects_def handle_command_def ask_def Let_def case_prod_beta
      split: option.split sum.split)

theorem approve_by_anyone_witness:
  "Invoke (ResolveApprovalText ''1f'' True) \<in> set (snd (dispatch_message plain_world closed_handle plain_adapter 0
      \<lparr>bs_router = new_router, bs_buckets = []\<rparr> (text_from ''7'' ''/approve 1f'')))
    \<and> authorize_user closed_handle ''telegram'' ''7'' ''chat'' = Inl ''stranger''"
  using approve_by_anyone [of closed_handle "text_from ''7'' ''/approve 1f''" "''1f''" plain_world plain_adapter 0
      "\<lparr>bs_router = new_router, bs_buckets = []\<rparr>"]
  by (simp add: closed_handle_def text_from_def split_whitespace_def is_space_def)

text \<open>
  Anybody may run a workflow. Its steps send the text of the command to their agents, and no step
  asks whether the sender may chat.
\<close>

theorem stranger_runs_workflow:
  assumes "overrides_for h (channel_type_to_str (cm_channel m)) = None" "cm_content m = TextContent (''/workflow '' @ x)"
    and "split_whitespace x = ''run'' # name # ws"
  shows "Invoke (RunWorkflowText name (join_with '' '' ws)) \<in> set (snd (dispatch_message w h ad now s m))"
    "reaches_agent (Invoke (RunWorkflowText name (join_with '' '' ws)))"
proof -
  have "is_channel_command ''workflow''" by code_simp
  then have slash: "slash_command (''/workflow '' @ x) = Some (''workflow'', ''run'' # name # ws)"
    using assms(3) by (simp add: slash_command_def starts_with_def Let_def)
  have "canonical_command ''workflow'' = ''workflow''" by code_simp
  then show "Invoke (RunWorkflowText name (join_with '' '' ws)) \<in> set (snd (dispatch_message w h ad now s m))"
    using slash assms(1,2)
    by (simp add: dispatch_message_def dispatch_content_def command_effects_def handle_command_def ask_def Let_def case_prod_beta
        split: option.split sum.split)
qed simp

text \<open>
  Session commands lose the channel's agent. They look the agent up as on the CLI, so for a user
  whose messages go to the default agent of the channel, \<open>/new\<close> finds no agent to reset.
\<close>

theorem session_command_loses_channel_default:
  fixes i
  assumes "debug_channel w (cm_channel m) \<noteq> debug_channel w CLI" "metadata_str m ''target_agent_name'' = None"
  defines "r \<equiv> set_channel_default new_router (debug_channel w (cm_channel m)) i"
  shows "fst (route_message (debug_channel w) h r m) = Some i
    \<and> handle_command w h r (cm_sender m) (sender_user_id m) ''new'' [] = (''No agent selected. Use /agent <name> first.'', [], r)"
  using assms canonical_names(2)
  by (cases "openfang_user (cm_sender m)")
    (simp_all add: route_message_def route_or_fallback_def resolve_with_context_def resolve_binding_def r_def set_channel_default_def
      new_router_def handle_command_def on_session_def resolve_route_def resolve_with_channel_id_def say_def)

text \<open>
  The second try loses the sender. When the agent is gone and the channel's default is resolved
  anew, the new agent is sent the text without the prefix that says who wrote it.
\<close>

theorem retry_loses_sender:
  assumes "route_message (debug_channel w) h r m = (Some i, r1)" "check_auto_reply h i txt = None"
    and "authorize_user h (channel_type_to_str (cm_channel m)) (sender_user_id m) ''chat'' = Inr ()"
    and "send_to_agent h i (sender_prefixed m txt) = Inl e"
    and "try_reresolution h r1 e (debug_channel w (cm_channel m)) = (Some j, r2)"
  shows "CallAgent i (sender_prefixed m txt) \<in> set (snd (dispatch_text w h ad dc r m txt))
    \<and> CallAgent j txt \<in> set (snd (dispatch_text w h ad dc r m txt))"
  using assms by (simp add: dispatch_text_def talk_def Let_def)

text \<open>
  Images go past the named target. A text is sent to the agent its adapter named; the same
  message with an image goes to the agent of the router.
\<close>

theorem images_ignore_named_target:
  assumes "metadata_str m ''target_agent_name'' = Some name" "found_agent h name = Some i"
    and "resolve_with_context (debug_channel w) r (cm_channel m) (sender_user_id m) (openfang_user (cm_sender m)) (binding_context_for m) = Some j"
    and "authorize_user h (channel_type_to_str (cm_channel m)) (sender_user_id m) ''chat'' = Inr ()"
  shows "fst (route_message (debug_channel w) h r m) = Some i
    \<and> CallBlocks j blocks \<in> set (snd (dispatch_with_blocks w h ad dc r m blocks))"
  using assms by (simp add: route_message_def route_or_fallback_def dispatch_with_blocks_def talk_def Let_def
      split: sum.split prod.split option.split)

end
