(* ===== verification/LlmErrors.thy ===== *)
theory LlmErrors
  imports Utf8
begin

text \<open>
  The classification of model errors: \<open>openfang-runtime/src/llm_errors.rs\<close>. An HTTP status is a
  \<open>u16\<close>; the JSON parser, a third-party crate, is the parameter \<open>parse_json\<close>. Letters and digits
  are those of ASCII. The loop that redacts secrets runs with the length of the text as fuel;
  \<open>redaction_ends\<close> shows that this is enough for the prefixes of the code.
\<close>

section \<open>Categories\<close>

datatype llm_error_category =
    RateLimit | Overloaded | Timeout | Billing | Auth | ContextOverflow | Format | ModelNotFound

record classified_error =
  err_category :: llm_error_category
  is_retryable :: bool
  is_billing :: bool
  suggested_delay_ms :: "u64 option"
  sanitized_message :: string
  raw_message :: string

section \<open>Pattern tables\<close>

definition CONTEXT_OVERFLOW_PATTERNS :: "string list" where
  "CONTEXT_OVERFLOW_PATTERNS = [
    ''context_length_exceeded'', ''context length'', ''context_length'', ''maximum context'',
    ''context window'', ''token limit'', ''too many tokens'', ''max_tokens_exceeded'',
    ''max tokens exceeded'', ''prompt is too long'', ''input too long'', ''context.length'']"

definition BILLING_PATTERNS :: "string list" where
  "BILLING_PATTERNS = [
    ''payment required'', ''insufficient credits'', ''credit balance'', ''billing'',
    ''insufficient balance'', ''usage limit'']"

definition AUTH_PATTERNS :: "string list" where
  "AUTH_PATTERNS = [
    ''invalid api key'', ''invalid api_key'', ''invalid apikey'', ''incorrect api key'',
    ''invalid x-api-key'', ''invalid token'', ''unauthorized'', ''invalid_auth'', ''authentication_error'',
    ''authentication failed'', ''api key not found'', ''api key is missing'', ''invalid credentials'',
    ''not authenticated'']"

definition FORBIDDEN_NON_AUTH_PATTERNS :: "string list" where
  "FORBIDDEN_NON_AUTH_PATTERNS = [
    ''quota'', ''limit'', ''balance'', ''credit'', ''billing'', ''region'', ''not available'',
    ''not supported'', ''not allowed'', ''access denied'', ''permission'', ''insufficient'', ''exceeded'',
    ''capacity'', ''blocked'', ''restricted'', ''not enabled'', ''does not exist'', ''model'']"

definition RATE_LIMIT_PATTERNS :: "string list" where
  "RATE_LIMIT_PATTERNS = [
    ''rate limit'', ''rate_limit'', ''too many requests'', ''exceeded quota'', ''exceeded your quota'',
    ''resource exhausted'', ''resource_exhausted'', ''quota exceeded'', ''tokens per minute'',
    ''requests per minute'', ''tpm limit'', ''rpm limit'']"

definition MODEL_NOT_FOUND_PATTERNS :: "string list" where
  "MODEL_NOT_FOUND_PATTERNS = [
    ''model not found'', ''model_not_found'', ''unknown model'', ''does not exist'', ''not_found'',
    ''model unavailable'', ''model_unavailable'', ''no such model'', ''invalid model'', ''is not found'']"

definition FORMAT_PATTERNS :: "string list" where
  "FORMAT_PATTERNS = [
    ''invalid request'', ''invalid_request'', ''malformed'', ''tool_use'', ''schema'',
    ''validation error'', ''validation_error'', ''invalid parameter'', ''invalid_parameter'',
    ''missing required'', ''bad request'', ''bad_request'']"

definition EMPTY_RESPONSE_PATTERNS :: "string list" where
  "EMPTY_RESPONSE_PATTERNS = [
    ''eof while parsing a value'', ''eof while parsing'', ''provider returned empty response'',
    ''empty response body'', ''unexpected end of json'', ''unexpected eof'']"

definition OVERLOADED_PATTERNS :: "string list" where
  "OVERLOADED_PATTERNS = [
    ''overloaded'', ''overloaded_error'', ''service unavailable'', ''service_unavailable'',
    ''high demand'', ''capacity'', ''server_error'', ''internal server error'', ''internal_server_error'']"

definition TIMEOUT_PATTERNS :: "string list" where
  "TIMEOUT_PATTERNS = [
    ''timeout'', ''timed out'', ''deadline exceeded'', ''etimedout'', ''econnreset'', ''econnrefused'',
    ''econnaborted'', ''epipe'', ''ehostunreach'', ''enetunreach'', ''connection reset'',
    ''connection refused'', ''network error'', ''fetch failed'']"

definition matches_any :: "string \<Rightarrow> string list \<Rightarrow> bool" where
  "matches_any haystack patterns = list_ex (str_contains haystack) patterns"

section \<open>Sanitised messages\<close>

definition is_html_error_page :: "string \<Rightarrow> bool" where
  "is_html_error_page body =
     (let lower = to_lowercase body
      in str_contains lower ''<!doctype'' \<or> str_contains lower ''<html''
         \<or> str_contains lower ''cf-error-code'' \<or> str_contains lower ''cf-error-type''
         \<or> list_ex (\<lambda>code. str_contains lower (show_nat code) \<and> str_contains lower ''cloudflare'') [521..<531])"

text \<open>\<open>serde_json::Value::pointer\<close> for a path of object keys.\<close>

fun json_pointer :: "json \<Rightarrow> string list \<Rightarrow> json option" where
  "json_pointer v [] = Some v"
| "json_pointer v (k # ks) = Option.bind (json_get v k) (\<lambda>w. json_pointer w ks)"

definition extract_json_message :: "(string \<Rightarrow> json option) \<Rightarrow> string \<Rightarrow> string option" where
  "extract_json_message parse_json raw =
     Option.bind (parse_json raw) (\<lambda>v. first_some (map (\<lambda>path. Option.bind (json_pointer v path) json_as_str)
       [[''error'', ''message''], [''message''], [''detail'']]))"

definition key_char :: "char \<Rightarrow> bool" where
  "key_char c = (is_alnum c \<or> c = CHR ''-'' \<or> c = CHR ''_'')"

text \<open>One round of the loop over a prefix; \<open>None\<close> when the loop ends.\<close>

definition redact_once :: "string \<Rightarrow> string \<Rightarrow> string option" where
  "redact_once pre s =
     (case str_find s pre of
        None \<Rightarrow> None
      | Some start \<Rightarrow>
          let body = start + length pre; stop = body + length (takeWhile key_char (drop body s))
          in if stop > body + 4 then Some (take start s @ ''<redacted>'' @ drop stop s) else None)"

fun redact_loop :: "nat \<Rightarrow> string \<Rightarrow> string \<Rightarrow> string" where
  "redact_loop 0 pre s = s"
| "redact_loop (Suc n) pre s = (case redact_once pre s of None \<Rightarrow> s | Some r \<Rightarrow> redact_loop n pre r)"

definition redact_prefix :: "string \<Rightarrow> string \<Rightarrow> string" where
  "redact_prefix pre s = redact_loop (length s) pre s"

definition SECRET_PREFIXES :: "string list" where
  "SECRET_PREFIXES = [''sk-'', ''key-'', ''Bearer '', ''bearer '']"

definition redact_secrets :: "string \<Rightarrow> string" where
  "redact_secrets s = fold redact_prefix SECRET_PREFIXES s"

definition strip_llm_wrapper :: "string \<Rightarrow> string" where
  "strip_llm_wrapper s =
     (case Option.bind (str_find s ''API error ('') (\<lambda>i. map_option (\<lambda>j. i + j + 3) (str_find (drop i s) ''): '')) of
        Some k \<Rightarrow> drop k s
      | None \<Rightarrow> (case strip_prefix ''LLM driver error: '' s of Some rest \<Rightarrow> rest | None \<Rightarrow> s))"

text \<open>The byte position of the \<open>n\<close>th character is the length of the characters before it.\<close>

definition cap_message :: "string \<Rightarrow> nat \<Rightarrow> string" where
  "cap_message msg max_chars =
     (if length (utf8_chars msg) \<le> max_chars then msg
      else safe_truncate_str msg (length (concat (take (max_chars - 3) (utf8_chars msg)))) @ ''...'')"

definition sanitize_raw_excerpt :: "(string \<Rightarrow> json option) \<Rightarrow> string \<Rightarrow> string" where
  "sanitize_raw_excerpt parse_json raw =
     (if raw = [] then []
      else if is_html_error_page raw then ''provider returned an error page (possible outage)''
      else cap_message (strip_llm_wrapper (redact_secrets
        (case extract_json_message parse_json raw of Some t \<Rightarrow> t | None \<Rightarrow> raw))) 200)"

fun category_prefix :: "llm_error_category \<Rightarrow> string" where
  "category_prefix RateLimit = ''Rate limited''"
| "category_prefix Overloaded = ''Provider overloaded''"
| "category_prefix Timeout = ''Request timed out''"
| "category_prefix Billing = ''Billing issue''"
| "category_prefix Auth = ''Auth error''"
| "category_prefix ContextOverflow = ''Context too long''"
| "category_prefix Format = ''Request failed''"
| "category_prefix ModelNotFound = ''Model not found''"

fun generic_message :: "llm_error_category \<Rightarrow> string" where
  "generic_message RateLimit = ''Rate limited '' @ em_dash @ '' retrying shortly.''"
| "generic_message Overloaded = ''Provider temporarily overloaded '' @ em_dash @ '' retrying.''"
| "generic_message Timeout = ''Request timed out. Check your network connection.''"
| "generic_message Billing = ''Billing issue. Check your API plan and balance.''"
| "generic_message Auth = ''Auth error. Check your API key configuration.''"
| "generic_message ContextOverflow = ''Context too long for the model'' @ [CHR 0x27] @ ''s context window.''"
| "generic_message Format = ''Request failed. Check API key and model config.''"
| "generic_message ModelNotFound = ''Model not found. Check the model name.''"

definition sanitize_for_user :: "(string \<Rightarrow> json option) \<Rightarrow> llm_error_category \<Rightarrow> string \<Rightarrow> string" where
  "sanitize_for_user parse_json category raw =
     (let detail = sanitize_raw_excerpt parse_json raw
      in if detail = [] then generic_message category
         else cap_message (category_prefix category @ '': '' @ detail) 300)"

section \<open>Retry delays\<close>

definition delay_after :: "string \<Rightarrow> string \<Rightarrow> u64 option" where
  "delay_after lower pre =
     Option.bind (str_find lower pre) (\<lambda>start.
       let after = drop (start + length pre) lower; num_str = takeWhile is_digit after
       in Option.bind (parse_u64 num_str) (\<lambda>n.
            if n = 0 then None
            else if starts_with (drop (length num_str) after) ''ms'' then Some n
            else Some (saturating_mul n 1000)))"

definition extract_retry_delay :: "string \<Rightarrow> u64 option" where
  "extract_retry_delay message =
     first_some (map (delay_after (to_lowercase message)) [''retry after '', ''retry-after: '', ''try again in ''])"

section \<open>Classification\<close>

text \<open>The early returns on a status; \<open>None\<close> falls through to the patterns.\<close>

definition status_category :: "string \<Rightarrow> u16 \<Rightarrow> llm_error_category option" where
  "status_category lower code =
     (if code = 429 then Some RateLimit
      else if code = 402 then Some Billing
      else if code = 401 then Some Auth
      else if code = 403 then
        (if matches_any lower RATE_LIMIT_PATTERNS then Some RateLimit
         else if matches_any lower BILLING_PATTERNS then Some Billing
         else if matches_any lower CONTEXT_OVERFLOW_PATTERNS then Some ContextOverflow
         else if matches_any lower MODEL_NOT_FOUND_PATTERNS then Some ModelNotFound
         else if matches_any lower FORBIDDEN_NON_AUTH_PATTERNS then None
         else if matches_any lower AUTH_PATTERNS then Some Auth
         else Some Auth)
      else if code = 404 then Some ModelNotFound
      else None)"

definition pattern_category :: "string \<Rightarrow> string \<Rightarrow> u16 option \<Rightarrow> llm_error_category" where
  "pattern_category message lower status =
     (if matches_any lower CONTEXT_OVERFLOW_PATTERNS then ContextOverflow
      else if matches_any lower BILLING_PATTERNS then Billing
      else if status = Some 402 then Billing
      else if matches_any lower AUTH_PATTERNS then Auth
      else if status = Some 401 then Auth
      else if matches_any lower RATE_LIMIT_PATTERNS then RateLimit
      else if status = Some 429 then RateLimit
      else if matches_any lower MODEL_NOT_FOUND_PATTERNS then ModelNotFound
      else if str_contains lower ''model'' \<and> str_contains lower ''not found'' then ModelNotFound
      else if matches_any lower EMPTY_RESPONSE_PATTERNS then Overloaded
      else if matches_any lower FORMAT_PATTERNS then Format
      else if status = Some 400 then Format
      else if matches_any lower OVERLOADED_PATTERNS then Overloaded
      else if status = Some 500 \<or> status = Some 503 then Overloaded
      else if matches_any lower TIMEOUT_PATTERNS then Timeout
      else if is_html_error_page message then Overloaded
      else (case status of
          Some code \<Rightarrow>
            if 500 \<le> code \<and> code < 600 then Overloaded
            else if 400 \<le> code \<and> code < 500 then Format
            else if str_contains lower ''connect'' \<or> str_contains lower ''network'' \<or> str_contains lower ''dns''
            then Timeout else Format
        | None \<Rightarrow>
            if str_contains lower ''connect'' \<or> str_contains lower ''network'' \<or> str_contains lower ''dns''
            then Timeout else Format))"

definition build_error :: "(string \<Rightarrow> json option) \<Rightarrow> string \<Rightarrow> llm_error_category \<Rightarrow> classified_error" where
  "build_error parse_json message category = \<lparr>
     err_category = category,
     is_retryable = (category \<in> {RateLimit, Overloaded, Timeout}),
     is_billing = (category = Billing),
     suggested_delay_ms = extract_retry_delay message,
     sanitized_message = sanitize_for_user parse_json category message,
     raw_message = message\<rparr>"

definition classify_error :: "(string \<Rightarrow> json option) \<Rightarrow> string \<Rightarrow> u16 option \<Rightarrow> classified_error" where
  "classify_error parse_json message status =
     (let lower = to_lowercase message
      in build_error parse_json message
        (case Option.bind status (status_category lower) of
           Some category \<Rightarrow> category
         | None \<Rightarrow> pattern_category message lower status))"

definition is_transient :: "string \<Rightarrow> bool" where
  "is_transient message =
     (let lower = to_lowercase message
      in matches_any lower TIMEOUT_PATTERNS \<or> matches_any lower OVERLOADED_PATTERNS \<or> matches_any lower RATE_LIMIT_PATTERNS)"

section \<open>The end of the redaction\<close>

definition markable :: "string \<Rightarrow> bool" where
  "markable p = (p \<noteq> [] \<and> CHR ''<'' \<notin> set p \<and> CHR ''>'' \<notin> set p \<and> \<not> str_contains ''redacted'' p)"

definition quiet :: "string \<Rightarrow> string \<Rightarrow> string \<Rightarrow> bool" where
  "quiet p a r = (\<forall>i<length a. \<not> starts_with (drop i (a @ r)) p)"

lemma secret_prefixes_markable: "p \<in> set SECRET_PREFIXES \<Longrightarrow> markable p"
  by (auto simp: SECRET_PREFIXES_def markable_def starts_with_def)

lemma starts_with_across: "starts_with (u @ c # v) p \<Longrightarrow> c \<notin> set p \<Longrightarrow> starts_with u p"
  by (auto simp: starts_with_iff append_eq_append_conv2 Cons_eq_append_conv)

lemma starts_with_more: "starts_with u p \<Longrightarrow> starts_with (u @ v) p"
  by (auto simp: starts_with_iff)

lemma contains_in_drop: "starts_with (drop j u) p \<Longrightarrow> str_contains u p"
  by (metis append_take_drop_id starts_with_iff str_contains_iff)

lemma drop_within: "k \<le> length u \<Longrightarrow> drop k (u @ v) = drop k u @ v"
  by simp

lemma quiet_replaced:
  assumes "markable p" "\<And>i. i < start \<Longrightarrow> \<not> starts_with (drop i s) p" "start \<le> length s"
  shows "quiet p (take start s @ ''<redacted>'') r"
  unfolding quiet_def
proof (intro allI impI notI)
  fix i
  assume i: "i < length (take start s @ ''<redacted>'')"
    and m: "starts_with (drop i ((take start s @ ''<redacted>'') @ r)) p"
  show False
  proof (cases "i < start")
    case True
    have "drop i ((take start s @ ''<redacted>'') @ r) = drop i (take start s) @ CHR ''<'' # ''redacted>'' @ r"
      using True assms(3) by simp
    then have "starts_with (drop i (take start s)) p"
      using m assms(1) starts_with_across by (auto simp: markable_def)
    then have "starts_with (drop i (take start s) @ drop start s) p" by (rule starts_with_more)
    moreover have "drop i (take start s) @ drop start s = drop i s"
      using True assms(3) by (metis append_take_drop_id drop_append diff_is_0_eq drop_0 length_take less_imp_le min.absorb2)
    ultimately show False using assms(2) [OF True] by simp
  next
    case False
    then obtain j where j: "i = start + j" "j < 10" using i assms(3) that [of "i - start"] by auto
    have d: "drop i ((take start s @ ''<redacted>'') @ r) = drop j ''<redacted>'' @ r"
      using j assms(3) drop_append [of j "''<redacted>''" r] by simp
    show False
    proof (cases j)
      case 0
      then have "starts_with ([] @ CHR ''<'' # ''redacted>'' @ r) p" using m unfolding d by simp
      then have "starts_with [] p" by (rule starts_with_across) (use assms(1) in \<open>simp add: markable_def\<close>)
      then show False using assms(1) by (simp add: markable_def starts_with_def)
    next
      case (Suc k)
      then have "drop j ''<redacted>'' = drop k (''redacted'' @ ''>'')" by simp
      also have "\<dots> = drop k ''redacted'' @ ''>''" by (rule drop_within) (use Suc j(2) in simp)
      finally have "drop j ''<redacted>'' @ r = drop k ''redacted'' @ CHR ''>'' # r" by simp
      then have "starts_with (drop k ''redacted'') p"
        using m d assms(1) starts_with_across by (auto simp: markable_def)
      then have "str_contains ''redacted'' p" by (rule contains_in_drop)
      then show False using assms(1) unfolding markable_def by blast
    qed
  qed
qed

lemma find_starts: "str_find s p = Some k \<Longrightarrow> starts_with (drop k s) p"
proof -
  assume f: "str_find s p = Some k"
  have "k \<le> length s" using str_find_le [OF f] by simp
  then have "drop k (take k s @ p @ drop (k + length p) s) = p @ drop (k + length p) s" by simp
  then have "drop k s = p @ drop (k + length p) s" by (subst str_find_Some [OF f])
  then show ?thesis by (auto simp: starts_with_iff)
qed

lemma redact_once_advances:
  assumes "markable p" "quiet p a r" "redact_once p (a @ r) = Some t"
  shows "\<exists>a' r'. t = a' @ r' \<and> length r' < length r \<and> quiet p a' r'"
proof -
  let ?s = "a @ r"
  obtain start where f: "str_find ?s p = Some start" using assms(3) by (auto simp: redact_once_def split: option.splits)
  let ?stop = "start + length p + length (takeWhile key_char (drop (start + length p) ?s))"
  have t: "t = (take start ?s @ ''<redacted>'') @ drop ?stop ?s" and long: "?stop > start + length p + 4"
    using assms(3) f by (auto simp: redact_once_def Let_def split: if_splits)
  have le: "start + length p \<le> length ?s" by (rule str_find_le [OF f])
  have "starts_with (drop start ?s) p" by (rule find_starts [OF f])
  then have a: "length a \<le> start" using assms(2) by (auto simp: quiet_def not_le [symmetric] simp del: drop_append)
  have "length (drop ?stop ?s) < length r"
    using a long le assms(1) length_greater_0_conv [of p] by (simp add: markable_def del: length_greater_0_conv)
  moreover have "quiet p (take start ?s @ ''<redacted>'') (drop ?stop ?s)"
    using str_find_first [OF f] le by (intro quiet_replaced [OF assms(1)]) auto
  ultimately show ?thesis using t by blast
qed

lemma redact_once_quiet:
  assumes "quiet p a []" "markable p" shows "redact_once p a = None"
proof (cases "str_find a p")
  case None
  then show ?thesis by (simp add: redact_once_def)
next
  case (Some k)
  have "k < length a" using str_find_le [OF Some] assms(2) by (cases p) (auto simp: markable_def)
  then show ?thesis using find_starts [OF Some] assms(1) by (simp add: quiet_def)
qed

lemma redact_loop_ends:
  "markable p \<Longrightarrow> quiet p a r \<Longrightarrow> length r \<le> n \<Longrightarrow> redact_once p (redact_loop n p (a @ r)) = None"
proof (induction n arbitrary: a r)
  case 0
  then show ?case using redact_once_quiet [of p a] by simp
next
  case (Suc n)
  show ?case
  proof (cases "redact_once p (a @ r)")
    case None
    then show ?thesis by simp
  next
    case (Some t)
    then obtain a' r' where "t = a' @ r'" "length r' < length r" "quiet p a' r'"
      using redact_once_advances [OF Suc.prems(1,2)] by blast
    with Suc Some show ?thesis by simp
  qed
qed

section \<open>The length of a message\<close>

lemma chars_of_take: "utf8_chars (concat (take n (utf8_chars s))) = take n (utf8_chars s)"
proof (induction s arbitrary: n rule: utf8_chars.induct)
  case (2 c cs)
  show ?case
  proof (cases n)
    case (Suc m)
    let ?b = "concat (take m (utf8_chars (dropWhile is_continuation cs)))"
    have "?b = [] \<or> \<not> is_continuation (hd ?b)"
    proof (cases "dropWhile is_continuation cs")
      case (Cons y ys)
      then have "\<not> is_continuation y" by (metis hd_dropWhile list.distinct(1) list.sel(1))
      then show ?thesis unfolding Cons by (cases m) simp_all
    next
      case Nil
      then show ?thesis unfolding Nil by simp
    qed
    then have "utf8_chars ((c # takeWhile is_continuation cs) @ ?b) = utf8_chars (c # takeWhile is_continuation cs) @ utf8_chars ?b"
      by (rule utf8_chars_append)
    moreover have "dropWhile is_continuation (takeWhile is_continuation cs) = []"
      by (simp add: dropWhile_eq_Nil_conv) (metis set_takeWhileD)
    ultimately show ?thesis using Suc 2 by simp
  qed simp
qed simp

lemma char_start:
  "Suc m < length (utf8_chars s) \<Longrightarrow> \<exists>y ys. concat (drop (Suc m) (utf8_chars s)) = y # ys \<and> \<not> is_continuation y"
proof (induction s arbitrary: m rule: utf8_chars.induct)
  case (2 c cs)
  show ?case
  proof (cases m)
    case 0
    then have "dropWhile is_continuation cs \<noteq> []" using 2(2) by (cases "dropWhile is_continuation cs") simp_all
    then obtain y ys where "dropWhile is_continuation cs = y # ys" by (meson neq_Nil_conv)
    moreover from this have "\<not> is_continuation y" by (metis hd_dropWhile list.distinct(1) list.sel(1))
    ultimately show ?thesis using 0 concat_utf8_chars [of "y # ys"] by simp
  next
    case (Suc k)
    then show ?thesis using 2(1) [of k] 2(2) by simp
  qed
qed simp

lemma walk_back_at: "is_char_boundary s e \<Longrightarrow> walk_back s e = e"
  by (cases e) simp_all

lemma length_utf8_chars: "length (utf8_chars s) \<le> length s"
proof (induction s rule: utf8_chars.induct)
  case (2 c cs)
  then show ?case using length_dropWhile_le [of is_continuation cs] by simp
qed simp

lemma chars_cut:
  assumes "n < length (utf8_chars s)"
  shows "safe_truncate_str s (length (concat (take n (utf8_chars s)))) = concat (take n (utf8_chars s))"
proof -
  let ?a = "concat (take n (utf8_chars s))" and ?b = "concat (drop n (utf8_chars s))"
  have s: "s = ?a @ ?b" by (metis append_take_drop_id concat_append concat_utf8_chars)
  have "is_char_boundary s (length ?a)"
  proof (cases n)
    case 0
    then show ?thesis by (simp add: is_char_boundary_def)
  next
    case (Suc m)
    then obtain y ys where b: "?b = y # ys" "\<not> is_continuation y" using char_start [of m s] assms by auto
    have "s ! length ?a = y" by (subst (1) s) (simp add: b nth_append)
    moreover have "length ?a < length s" by (subst (2) s) (simp add: b)
    ultimately show ?thesis using b by (simp add: is_char_boundary_def)
  qed
  then have "walk_back s (length ?a) = length ?a" by (rule walk_back_at)
  moreover have "take (length ?a) s = ?a" using s by (metis append_eq_conv_conj)
  ultimately show ?thesis by (cases "length s \<le> length ?a") (simp_all add: safe_truncate_str_def)
qed

lemma cap_message_bound: "3 \<le> n \<Longrightarrow> length (utf8_chars (cap_message m n)) \<le> n"
proof (cases "length (utf8_chars m) \<le> n")
  case False
  assume n: "3 \<le> n"
  let ?a = "concat (take (n - 3) (utf8_chars m))"
  have "cap_message m n = ?a @ ''...''"
    using False n chars_cut [of "n - 3" m] by (simp add: cap_message_def)
  moreover have "utf8_chars (?a @ ''...'') = utf8_chars ?a @ utf8_chars ''...''"
    by (rule utf8_chars_append) (simp add: is_continuation_def)
  moreover have "length (utf8_chars ''...'') = 3" by (simp add: is_continuation_def)
  ultimately show ?thesis using n False by (simp add: chars_of_take)
qed (simp add: cap_message_def)

section \<open>Properties\<close>

text \<open>
  The redaction ends: for each prefix of the code, the loop has come to a text it leaves as it is.
  (The length of the text is fuel enough.)
\<close>

theorem redaction_ends: "list_all (\<lambda>p. redact_once p (redact_prefix p s) = None) SECRET_PREFIXES"
  unfolding list_all_iff redact_prefix_def
  using redact_loop_ends [of _ "[]" s "length s"] secret_prefixes_markable by (simp add: quiet_def)

text \<open>
  A short match hides the secrets behind it. The loop over a prefix stops at the first occurrence
  with fewer than five key characters, so behind a word like \<open>task-1\<close> no key is redacted.
\<close>

theorem short_match_hides_secrets: "redact_prefix ''sk-'' (''task-1 failed, '' @ s) = ''task-1 failed, '' @ s"
proof -
  have "redact_once ''sk-'' (''task-1 failed, '' @ s) = None"
    by (simp add: redact_once_def starts_with_def key_char_def is_alnum_def is_digit_def)
  then have "redact_loop (Suc n) ''sk-'' (''task-1 failed, '' @ s) = ''task-1 failed, '' @ s" for n by simp
  then show ?thesis by (simp add: redact_prefix_def)
qed

text \<open>A redacted key behind \<open>Bearer\<close> has that effect too: the next token is shown.\<close>

theorem redacted_key_hides_token: "redact_secrets ''Bearer sk-abcdef, Bearer ghijkl'' = ''Bearer <redacted>, Bearer ghijkl''"
  by code_simp

text \<open>
  A message for the user has at most three hundred characters, however long the error is.
\<close>

theorem sanitized_message_bounded:
  "length (utf8_chars (sanitized_message (classify_error parse_json message status))) \<le> 300"
proof -
  have "length (utf8_chars (generic_message c)) \<le> 300" for c
    by (rule order_trans [OF length_utf8_chars]) (cases c; simp add: em_dash_def)
  then show ?thesis
    by (simp add: classify_error_def build_error_def sanitize_for_user_def Let_def cap_message_bound)
qed

end
