(* ===== verification/ContextBudget.thy ===== *)
theory ContextBudget
  imports SessionRepair Agents Utf8
begin

text \<open>
  Keeping a conversation within the model's context window:
  \<open>openfang-runtime/src/context_budget.rs\<close> (the cap of a tool result and the guard over all
  results), \<open>context_overflow.rs\<close> (the stages of recovery) and \<open>estimate_token_count\<close> of
  \<open>compactor.rs\<close>. The factors are \<open>f64\<close> values; their arithmetic is modelled exactly, rounding
  included, on non-negative values \<open>m * 2 ^ (- k)\<close> far from overflow. The rendering of JSON by
  \<open>serde_json\<close> is the parameter \<open>js\<close>.
\<close>

section \<open>Floating point scaling\<close>

text \<open>Rounding to \<open>p\<close> significant bits, to nearest, ties to even.\<close>

fun bit_length :: "nat \<Rightarrow> nat" where
  "bit_length n = (if n = 0 then 0 else Suc (bit_length (n div 2)))"

declare bit_length.simps [simp del]

definition round_bits :: "nat \<Rightarrow> nat \<Rightarrow> nat" where
  "round_bits p n =
     (let e = bit_length n - p; q = n div 2 ^ e; r = n mod 2 ^ e
      in if e = 0 then n
         else (if 2 ^ e < 2 * r \<or> (2 ^ e = 2 * r \<and> odd q) then q + 1 else q) * 2 ^ e)"

datatype dyadic = Dyadic nat nat

definition f64_of_nat :: "nat \<Rightarrow> dyadic" where
  "f64_of_nat n = Dyadic (round_bits 53 n) 0"

fun f64_mult :: "dyadic \<Rightarrow> dyadic \<Rightarrow> dyadic" where
  "f64_mult (Dyadic a i) (Dyadic b j) = Dyadic (round_bits 53 (a * b)) (i + j)"

fun as_usize :: "dyadic \<Rightarrow> usize" where
  "as_usize (Dyadic a i) = min (a div 2 ^ i) (2 ^ 64 - 1)"

text \<open>The constants of the code: \<open>0.30\<close> and the like are the nearest \<open>f64\<close> values.\<close>

definition F_030 :: dyadic where "F_030 = Dyadic 5404319552844595 54"
definition F_050 :: dyadic where "F_050 = Dyadic 1 1"
definition F_070 :: dyadic where "F_070 = Dyadic 3152519739159347 52"
definition F_075 :: dyadic where "F_075 = Dyadic 3 2"
definition F_090 :: dyadic where "F_090 = Dyadic 8106479329266893 53"

definition scaled :: "usize \<Rightarrow> dyadic \<Rightarrow> usize" where
  "scaled n f = as_usize (f64_mult (f64_of_nat n) f)"

section \<open>The budget\<close>

record context_budget =
  context_window_tokens :: usize
  tool_chars_per_token :: dyadic
  general_chars_per_token :: dyadic

definition new_budget :: "usize \<Rightarrow> context_budget" where
  "new_budget n = \<lparr>context_window_tokens = n, tool_chars_per_token = Dyadic 2 0, general_chars_per_token = Dyadic 4 0\<rparr>"

definition default_budget :: context_budget where
  "default_budget = new_budget 200000"

definition per_result_cap :: "context_budget \<Rightarrow> usize" where
  "per_result_cap b = scaled (scaled (context_window_tokens b) F_030) (tool_chars_per_token b)"

definition single_result_max :: "context_budget \<Rightarrow> usize" where
  "single_result_max b = scaled (scaled (context_window_tokens b) F_050) (tool_chars_per_token b)"

definition total_tool_headroom_chars :: "context_budget \<Rightarrow> usize" where
  "total_tool_headroom_chars b = scaled (scaled (context_window_tokens b) F_075) (tool_chars_per_token b)"

section \<open>Truncating one result\<close>

definition PAGING_MARK :: string where
  "PAGING_MARK = ''[file_read: returned bytes ''"

text \<open>
  The numbers of a header are \<open>usize\<close>, 64 bits wide, and their sums and differences wrap. The
  range of a header is read by splitting it at the first hyphen, at \<open>of\<close> and at a blank.
\<close>

definition paging_range :: "string \<Rightarrow> (u64 \<times> u64) option" where
  "paging_range header =
     Option.bind (split_once (drop (length PAGING_MARK) header) ''-'') (\<lambda>(start_s, rest).
     Option.bind (split_once rest '' of '') (\<lambda>(_, ending).
     Option.bind (split_once ending '' '') (\<lambda>(total_s, _).
     Option.bind (parse_u64 start_s) (\<lambda>start.
     Option.bind (parse_u64 total_s) (\<lambda>total_len. Some (start, total_len))))))"

definition paging_header :: "u64 \<Rightarrow> u64 \<Rightarrow> nat \<Rightarrow> string" where
  "paging_header start total_len body_len =
     (let delivered_end = min (start + of_nat body_len) total_len;
          remaining = saturating_sub total_len delivered_end
      in ''[file_read: returned bytes '' @ show_word start @ ''-'' @ show_word delivered_end @ '' of '' @ show_word total_len
         @ '' total in this file ('' @ show_word (delivered_end - start)
         @ '' bytes); the request was cut short by the context budget''
         @ (if remaining > 0
            then ''; '' @ show_word remaining @ '' bytes remain. Call file_read again with offset=''
                 @ show_word delivered_end @ '' to continue reading.]''
            else '']''))"

definition rewrite_paging_header :: "string \<Rightarrow> string" where
  "rewrite_paging_header kept =
     (if \<not> starts_with kept PAGING_MARK then kept
      else case str_find kept [newline] of
        None \<Rightarrow> kept
      | Some nl \<Rightarrow>
          (case paging_range (take nl kept) of
             None \<Rightarrow> kept
           | Some (start, total_len) \<Rightarrow>
               paging_header start total_len (length kept - (nl + 1)) @ [newline] @ drop (nl + 1) kept))"

text \<open>
  Where a text is cut: behind the last line feed between a boundary \<open>back\<close> bytes before the
  limit and the limit, or at the given position.
\<close>

definition cut_point :: "string \<Rightarrow> nat \<Rightarrow> nat \<Rightarrow> nat \<Rightarrow> nat" where
  "cut_point s limit back otherwise =
     (let search_start = walk_back s (limit - back)
      in case str_rfind (drop search_start (take limit s)) [newline] of
           Some pos \<Rightarrow> search_start + pos
         | None \<Rightarrow> otherwise)"

definition truncate_tool_result_dynamic :: "string \<Rightarrow> context_budget \<Rightarrow> string" where
  "truncate_tool_result_dynamic s budget =
     (let cap = per_result_cap budget
      in if length s \<le> cap then s
         else
           let safe_cap = walk_back s (min cap (length s));
               break_point = walk_back s (cut_point s safe_cap 200 (safe_cap - 100))
           in rewrite_paging_header (take break_point s) @ [newline, newline] @ ''[TRUNCATED: result was ''
              @ show_nat (length s) @ '' bytes, showing first '' @ show_nat break_point @ '' (budget: 30% of ''
              @ show_nat (context_window_tokens budget div 1000) @ ''K context window)]'')"

section \<open>The guard over all results\<close>

definition arrow :: string where
  "arrow = [CHR 0xE2, CHR 0x86, CHR 0x92]"

definition truncate_to :: "string \<Rightarrow> nat \<Rightarrow> string" where
  "truncate_to s max_chars =
     (if length s \<le> max_chars then s
      else
        let keep = walk_back s (min (max_chars - 80) (length s));
            safe_content = safe_truncate_str s (cut_point s keep 100 keep)
        in safe_content @ [newline, newline] @ ''[COMPACTED: '' @ show_nat (length s) @ '' '' @ arrow @ '' ''
           @ show_nat (length safe_content) @ '' chars by context guard]'')"

text \<open>The result at a place, and its replacement.\<close>

fun block_result :: "content_block \<Rightarrow> string option" where
  "block_result (ToolResult _ _ c _) = Some c"
| "block_result _ = None"

fun with_result :: "string \<Rightarrow> content_block \<Rightarrow> content_block" where
  "with_result c (ToolResult i n _ e) = ToolResult i n c e"
| "with_result c b = b"

definition blocks_of :: "message \<Rightarrow> content_block list" where
  "blocks_of m = (case content m of Blocks bs \<Rightarrow> bs | Text _ \<Rightarrow> [])"

definition result_at :: "message list \<Rightarrow> nat \<times> nat \<Rightarrow> string option" where
  "result_at ms = (\<lambda>(i, j).
     if i < length ms \<and> j < length (blocks_of (ms ! i)) then block_result (blocks_of (ms ! i) ! j) else None)"

definition set_result :: "message list \<Rightarrow> nat \<times> nat \<Rightarrow> string \<Rightarrow> message list" where
  "set_result ms = (\<lambda>(i, j) c.
     let bs = blocks_of (ms ! i) in ms[i := (ms ! i)\<lparr>content := Blocks (bs[j := with_result c (bs ! j)])\<rparr>])"

definition result_locations :: "message list \<Rightarrow> ((nat \<times> nat) \<times> nat) list" where
  "result_locations ms =
     concat (map (\<lambda>(i, m). List.map_filter (\<lambda>(j, b). map_option (\<lambda>c. ((i, j), length c)) (block_result b))
       (enumerate 0 (blocks_of m))) (enumerate 0 ms))"

record guard_state =
  gs_messages :: "message list"
  total_chars :: nat
  compacted :: nat

definition compact_at :: "nat \<Rightarrow> nat \<times> nat \<Rightarrow> string \<Rightarrow> guard_state \<Rightarrow> guard_state" where
  "compact_at n loc c s = (let c' = truncate_to c n in
     \<lparr>gs_messages = set_result (gs_messages s) loc c', total_chars = total_chars s - length c + length c',
      compacted = compacted s + 1\<rparr>)"

definition cap_single :: "nat \<Rightarrow> (nat \<times> nat) \<times> nat \<Rightarrow> guard_state \<Rightarrow> guard_state" where
  "cap_single single_max = (\<lambda>(loc, char_len) s.
     if char_len > single_max
     then (case result_at (gs_messages s) loc of None \<Rightarrow> s | Some c \<Rightarrow> compact_at single_max loc c s)
     else s)"

text \<open>The loop of the second pass ends when the results fit; from then on the step changes nothing.\<close>

definition COMPACT_TARGET :: nat where "COMPACT_TARGET = 2000"

definition compact_oldest :: "nat \<Rightarrow> (nat \<times> nat) \<times> nat \<Rightarrow> guard_state \<Rightarrow> guard_state" where
  "compact_oldest headroom = (\<lambda>(loc, char_len) s.
     if total_chars s \<le> headroom then s
     else if char_len \<le> COMPACT_TARGET then s
     else (case result_at (gs_messages s) loc of
             None \<Rightarrow> s
           | Some c \<Rightarrow> if length c > COMPACT_TARGET then compact_at COMPACT_TARGET loc c s else s))"

definition apply_context_guard :: "message list \<Rightarrow> context_budget \<Rightarrow> message list \<times> nat" where
  "apply_context_guard ms budget =
     (let headroom = total_tool_headroom_chars budget;
          locations = result_locations ms;
          start = \<lparr>gs_messages = ms, total_chars = sum_list (map snd locations), compacted = 0\<rparr>
      in if total_chars start \<le> headroom then (ms, 0)
         else
           let done = fold (compact_oldest headroom) locations (fold (cap_single (single_result_max budget)) locations start)
           in (gs_messages done, compacted done))"

section \<open>The estimate\<close>

definition estimate_token_count ::
  "(json \<Rightarrow> string) \<Rightarrow> message list \<Rightarrow> string option \<Rightarrow> tool_definition list option \<Rightarrow> nat" where
  "estimate_token_count js ms sys tools =
     ((case sys of Some sp \<Rightarrow> length sp | None \<Rightarrow> 0)
      + sum_list (map (\<lambda>m. text_length js (content m) + 16) ms)
      + (case tools of
           Some ts \<Rightarrow> sum_list (map (\<lambda>t. length (tool_name t) + length (tool_description t) + length (js (input_schema t))) ts)
         | None \<Rightarrow> 0)) div 4"

section \<open>Recovery from overflow\<close>

definition has_tool_result :: "message \<Rightarrow> bool" where
  "has_tool_result m = list_ex (\<lambda>b. block_result b \<noteq> None) (blocks_of m)"

definition has_tool_use :: "message \<Rightarrow> bool" where
  "has_tool_use m = list_ex (\<lambda>b. block_use_id b \<noteq> None) (blocks_of m)"

text \<open>
  The second case of the code, an orphaned assistant message in front of the boundary, only takes
  the minimum of the boundary and the number of messages.
\<close>

definition safe_drain_boundary :: "message list \<Rightarrow> nat \<Rightarrow> nat" where
  "safe_drain_boundary ms boundary =
     (if boundary = 0 \<or> boundary \<ge> length ms then boundary
      else
        let b = (if role (ms ! boundary) = User \<and> has_tool_result (ms ! boundary)
                   \<and> role (ms ! (boundary - 1)) = Assistant \<and> has_tool_use (ms ! (boundary - 1))
                 then boundary - 1 else boundary)
        in if 0 < b \<and> b < length ms \<and> role (ms ! (b - 1)) = Assistant \<and> has_tool_use (ms ! (b - 1))
              \<and> \<not> list_ex (\<lambda>x. x \<in> set (use_ids (content (ms ! (b - 1))))) (result_ids (content (ms ! b)))
           then min b (length ms) else b)"

datatype recovery_stage =
    NoRecovery
  | AutoCompaction nat
  | OverflowCompaction nat
  | ToolResultTruncation nat
  | FinalError

definition removed_marker :: "nat \<Rightarrow> message" where
  "removed_marker n = \<lparr>role = User, content = Text (''[System: '' @ show_nat n
     @ '' earlier messages were removed due to context overflow. The conversation continues from here. ''
     @ ''Use /compact for smarter summarization.]'')\<rparr>"

definition TOOL_TRUNCATION_LIMIT :: nat where "TOOL_TRUNCATION_LIMIT = 2000"

definition overflow_truncated :: "string \<Rightarrow> string" where
  "overflow_truncated c =
     (if length c > TOOL_TRUNCATION_LIMIT
      then let safe_keep = walk_back c (TOOL_TRUNCATION_LIMIT - 80)
           in take safe_keep c @ [newline, newline] @ ''[OVERFLOW RECOVERY: truncated from '' @ show_nat (length c)
              @ '' to '' @ show_nat safe_keep @ '' chars]''
      else c)"

definition truncate_results :: "message \<Rightarrow> message" where
  "truncate_results m = (case content m of
     Text _ \<Rightarrow> m
   | Blocks bs \<Rightarrow> m\<lparr>content := Blocks (map (\<lambda>b. case block_result b of None \<Rightarrow> b
       | Some c \<Rightarrow> with_result (overflow_truncated c) b) bs)\<rparr>)"

definition oversized_results :: "message list \<Rightarrow> nat" where
  "oversized_results ms = length (filter (\<lambda>c. length c > TOOL_TRUNCATION_LIMIT)
     (List.map_filter block_result (concat (map blocks_of ms))))"

definition drain_keeping :: "message list \<Rightarrow> nat \<Rightarrow> nat" where
  "drain_keeping ms keep = safe_drain_boundary ms (length ms - min keep (length ms))"

definition stage_truncate :: "(message list \<Rightarrow> nat) \<Rightarrow> usize \<Rightarrow> message list \<Rightarrow> recovery_stage \<times> message list" where
  "stage_truncate est window ms =
     (let truncated = oversized_results ms; ms' = map truncate_results ms
      in if truncated > 0 \<and> est ms' \<le> scaled window F_090 then (ToolResultTruncation truncated, ms')
         else (FinalError, ms'))"

definition stage_drain :: "(message list \<Rightarrow> nat) \<Rightarrow> usize \<Rightarrow> message list \<Rightarrow> recovery_stage \<times> message list" where
  "stage_drain est window ms =
     (let remove = drain_keeping ms 4; ms' = removed_marker remove # drop remove ms
      in if remove > 0
         then (if est ms' \<le> scaled window F_090 then (OverflowCompaction remove, ms') else stage_truncate est window ms')
         else stage_truncate est window ms)"

definition recover_from_overflow ::
  "(json \<Rightarrow> string) \<Rightarrow> message list \<Rightarrow> string \<Rightarrow> tool_definition list \<Rightarrow> usize \<Rightarrow> recovery_stage \<times> message list" where
  "recover_from_overflow js ms sys tools window =
     (let est = (\<lambda>ms. estimate_token_count js ms (Some sys) (Some tools)); estimated = est ms
      in if estimated \<le> scaled window F_070 then (NoRecovery, ms)
         else if estimated \<le> scaled window F_090
         then
           (let remove = drain_keeping ms 10
            in if remove > 0
               then (if est (drop remove ms) \<le> scaled window F_070 then (AutoCompaction remove, drop remove ms)
                     else stage_drain est window (drop remove ms))
               else stage_drain est window ms)
         else stage_drain est window ms)"

section \<open>The results of a conversation\<close>

definition results_of :: "message list \<Rightarrow> string list" where
  "results_of ms = List.map_filter block_result (concat (map blocks_of ms))"

definition result_list :: "message list \<Rightarrow> ((nat \<times> nat) \<times> string) list" where
  "result_list ms = concat (map (\<lambda>i. concat (map (\<lambda>j.
     case block_result (blocks_of (ms ! i) ! j) of None \<Rightarrow> [] | Some c \<Rightarrow> [((i, j), c)])
     [0..<length (blocks_of (ms ! i))])) [0..<length ms])"

definition erase_results :: "message \<Rightarrow> message" where
  "erase_results m = (case content m of Text _ \<Rightarrow> m | Blocks bs \<Rightarrow> m\<lparr>content := Blocks (map (with_result []) bs)\<rparr>)"

lemma enumerate_upt: "enumerate 0 xs = map (\<lambda>i. (i, xs ! i)) [0..<length xs]"
  by (rule nth_equalityI) (simp_all add: nth_enumerate_eq)

lemma map_filter_concat: "List.map_filter f xs = concat (map (\<lambda>x. case f x of None \<Rightarrow> [] | Some y \<Rightarrow> [y]) xs)"
  by (induction xs) (auto split: option.split)

lemma result_locations_list: "result_locations ms = map (\<lambda>(l, c). (l, length c)) (result_list ms)"
  unfolding result_locations_def result_list_def enumerate_upt map_filter_concat map_concat map_map o_def case_prod_beta fst_conv snd_conv
  by (intro arg_cong [where f = concat] map_cong refl) (simp_all split: option.split)

lemma concat_upt_nth: "concat (map (\<lambda>i. f (xs ! i)) [0..<length xs]) = concat (map f xs)"
  by (metis map_map map_nth comp_def map_cong)

lemma results_of_list: "results_of ms = map snd (result_list ms)"
proof -
  have "map snd (result_list ms) = concat (map (\<lambda>i. concat (map (\<lambda>j. case block_result (blocks_of (ms ! i) ! j) of
      None \<Rightarrow> [] | Some c \<Rightarrow> [c]) [0..<length (blocks_of (ms ! i))])) [0..<length ms])"
    unfolding result_list_def map_concat map_map o_def
    by (intro arg_cong [where f = concat] map_cong refl) (simp split: option.split)
  also have "\<dots> = concat (map (\<lambda>m. List.map_filter block_result (blocks_of m)) ms)"
    unfolding map_filter_concat concat_upt_nth [of "\<lambda>b. case block_result b of None \<Rightarrow> [] | Some c \<Rightarrow> [c]"]
    by (rule concat_upt_nth [of "\<lambda>m. concat (map (\<lambda>b. case block_result b of None \<Rightarrow> [] | Some c \<Rightarrow> [c]) (blocks_of m))"])
  also have "\<dots> = results_of ms"
    unfolding results_of_def by (induction ms) simp_all
  finally show ?thesis by simp
qed

lemma result_list_at: "((i, j), c) \<in> set (result_list ms) \<longleftrightarrow> result_at ms (i, j) = Some c"
  by (auto simp: result_list_def result_at_def split: option.splits if_splits)

lemma result_at_Some: "result_at ms (i, j) = Some c \<longleftrightarrow>
    i < length ms \<and> (\<exists>bs x n e. content (ms ! i) = Blocks bs \<and> j < length bs \<and> bs ! j = ToolResult x n c e)"
  by (auto simp: result_at_def blocks_of_def split: message_content.splits elim: block_result.elims)

lemma result_list_set:
  assumes "result_at ms (i, j) = Some c"
  shows "result_list (set_result ms (i, j) c') = map (\<lambda>(l, d). (l, if l = (i, j) then c' else d)) (result_list ms)"
proof -
  obtain bs x n e where b: "i < length ms" "content (ms ! i) = Blocks bs" "j < length bs" "bs ! j = ToolResult x n c e"
    using assms unfolding result_at_Some by blast
  have blocks: "blocks_of (set_result ms (i, j) c' ! k) = (if k = i then bs[j := ToolResult x n c' e] else blocks_of (ms ! k))" if "k < length ms" for k
    using b that by (simp add: set_result_def blocks_of_def)
  have len: "length (set_result ms (i, j) c') = length ms" by (simp add: set_result_def Let_def)
  show ?thesis
    unfolding result_list_def len map_concat map_map o_def
    by (intro arg_cong [where f = concat] map_cong refl)
      (use b blocks in \<open>auto simp: blocks_of_def nth_list_update split: option.split\<close>)
qed

lemma erase_set:
  assumes "result_at ms (i, j) = Some c"
  shows "map erase_results (set_result ms (i, j) c') = map erase_results ms"
proof -
  obtain bs x n e where b: "i < length ms" "content (ms ! i) = Blocks bs" "j < length bs" "bs ! j = ToolResult x n c e"
    using assms unfolding result_at_Some by blast
  have "(map (with_result []) bs)[j := ToolResult x n [] e] = map (with_result []) bs"
    using b(3,4) by (metis list_update_id nth_map with_result.simps(1))
  then have "erase_results ((ms ! i)\<lparr>content := Blocks (bs[j := with_result c' (bs ! j)])\<rparr>) = erase_results (ms ! i)"
    using b by (simp add: erase_results_def map_update)
  moreover have "set_result ms (i, j) c' = ms[i := (ms ! i)\<lparr>content := Blocks (bs[j := with_result c' (bs ! j)])\<rparr>]"
    using b by (simp add: set_result_def blocks_of_def)
  ultimately show ?thesis using b(1) by (metis map_update list_update_id nth_map)
qed

section \<open>The guard keeps its promises\<close>

lemma length_show_nat: "n < 10 ^ k \<Longrightarrow> 1 \<le> k \<Longrightarrow> length (show_nat n) \<le> k"
proof (induction k arbitrary: n)
  case (Suc k)
  show ?case
  proof (cases "n < 10")
    case False
    then have "1 \<le> k" "n div 10 < 10 ^ k" using Suc.prems(1) by (cases k; simp add: less_mult_imp_div_less mult.commute)+
    then show ?thesis using Suc.IH [of "n div 10"] False by (subst show_nat.simps) simp
  qed (simp add: show_nat.simps)
qed simp

lemma cut_point_le: "k \<le> limit \<Longrightarrow> cut_point s limit back k \<le> limit"
proof -
  let ?st = "walk_back s (limit - back)"
  assume "k \<le> limit"
  moreover have "?st + pos \<le> limit" if "str_rfind (drop ?st (take limit s)) [newline] = Some pos" for pos
  proof -
    have "pos + 1 \<le> min (length s) limit - ?st" using str_rfind_Some [OF that] by simp
    then show ?thesis by arith
  qed
  ultimately show ?thesis by (auto simp: cut_point_def Let_def split: option.split)
qed

lemma length_safe_truncate: "length (safe_truncate_str s m) \<le> m"
  using walk_back_le [of s m] by (simp add: safe_truncate_str_def)

lemma truncate_to_length: "length s < 10 ^ 18 \<Longrightarrow> length (truncate_to s n) \<le> max n 79"
proof (cases "length s \<le> n")
  case False
  assume s: "length s < 10 ^ 18"
  let ?keep = "walk_back s (min (n - 80) (length s))"
  let ?safe = "safe_truncate_str s (cut_point s ?keep 100 ?keep)"
  have safe: "length ?safe \<le> n - 80"
    using length_safe_truncate [of s "cut_point s ?keep 100 ?keep"] cut_point_le [of ?keep ?keep s 100]
      walk_back_le [of s "min (n - 80) (length s)"] by linarith
  have d: "length (show_nat (length ?safe)) \<le> 18" "length (show_nat (length s)) \<le> 18"
    using safe s False by (auto intro!: length_show_nat simp del: power_numeral_even power_numeral_odd)
  have "length (truncate_to s n) = length ?safe + 43 + length (show_nat (length s)) + length (show_nat (length ?safe))"
    using False by (simp add: truncate_to_def Let_def arrow_def)
  then show ?thesis using safe d by linarith
qed (simp add: truncate_to_def)

lemma distinct_locations: "distinct (map fst (result_list ms))"
proof -
  have "map fst (result_list ms) = concat (map (\<lambda>i. map (Pair i) (filter (\<lambda>j. block_result (blocks_of (ms ! i) ! j) \<noteq> None)
      [0..<length (blocks_of (ms ! i))])) [0..<length ms])"
  proof -
    have e: "concat (map (\<lambda>j. map fst (case f j of None \<Rightarrow> [] | Some c \<Rightarrow> [((i, j), c)])) js) = map (Pair i) (filter (\<lambda>j. f j \<noteq> None) js)"
      for f :: "nat \<Rightarrow> string option" and i :: nat and js
      by (induction js) (auto split: option.split)
    show ?thesis unfolding result_list_def map_concat map_map o_def
      by (intro arg_cong [where f = concat] map_cong refl) (rule e)
  qed
  moreover have "distinct (concat (map (\<lambda>i. map (Pair i) (filter (P i) (js i))) is))" if "distinct is" "\<And>i. distinct (js i)"
    for P :: "nat \<Rightarrow> nat \<Rightarrow> bool" and js and "is" :: "nat list"
    using that by (induction "is") (auto simp: distinct_map inj_on_def)
  ultimately show ?thesis by simp
qed

lemma sum_replaced:
  assumes "distinct (map fst xs)" "(l, c) \<in> set xs"
  shows "sum_list (map (\<lambda>(k, d). length (if k = l then c' else d)) xs)
    = sum_list (map (\<lambda>(k, d). length d) xs) - length c + length c'"
  using assms
proof (induction xs)
  case (Cons x xs)
  obtain k d where x: "x = (k, d)" by (cases x)
  show ?case
  proof (cases "k = l")
    case True
    then have "l \<notin> fst ` set xs" "d = c" using Cons.prems x by (auto simp: rev_image_eqI)
    moreover from this have e: "map (\<lambda>(k, d). length (if k = l then c' else d)) xs = map (\<lambda>(k, d). length d) xs"
      by (intro map_cong refl) (auto split: prod.split simp: rev_image_eqI)
    ultimately show ?thesis unfolding list.map sum_list.Cons x prod.case e using True by simp
  next
    case False
    then have m: "(l, c) \<in> set xs" using Cons.prems x by auto
    have "length c \<le> sum_list (map (\<lambda>(k, d). length d) xs)"
      using member_le_sum_list [of "length c" "map (\<lambda>(k, d). length d) xs"] m by force
    then show ?thesis using Cons.IH Cons.prems m False x by simp
  qed
qed simp

lemma result_at_map_of: "result_at ms l = map_of (result_list ms) l"
proof -
  have "result_at ms l = Some c \<longleftrightarrow> map_of (result_list ms) l = Some c" for c
    using result_list_at [of "fst l" "snd l" c ms] map_of_eq_Some_iff [OF distinct_locations] by simp
  then show ?thesis by (metis not_None_eq)
qed

lemma map_of_replaced: "map_of (map (\<lambda>(l, d). (l, if l = a then c else d)) xs) k =
    (if k = a \<and> map_of xs a \<noteq> None then Some c else map_of xs k)"
  by (induction xs) auto

lemma replaced_maps:
  "map fst (map (\<lambda>(l, d). (l, if l = a then c else d)) xs) = map fst xs"
  "map (\<lambda>(k, d). length d) (map (\<lambda>(l, d). (l, if l = a then c else d)) xs) = map (\<lambda>(k, d). length (if k = a then c else d)) xs"
  by (induction xs) auto

definition guard_ok :: "message list \<Rightarrow> guard_state \<Rightarrow> bool" where
  "guard_ok ms s \<longleftrightarrow> map erase_results (gs_messages s) = map erase_results ms
    \<and> map fst (result_list (gs_messages s)) = map fst (result_list ms)
    \<and> total_chars s = sum_list (map (\<lambda>(k, d). length d) (result_list (gs_messages s)))"

lemma guard_ok_compact:
  assumes "guard_ok ms s" "result_at (gs_messages s) l = Some c"
  shows "guard_ok ms (compact_at n l c s)"
    and "result_at (gs_messages (compact_at n l c s)) k = (if k = l then Some (truncate_to c n) else result_at (gs_messages s) k)"
proof -
  obtain i j where l: "l = (i, j)" by (cases l)
  note r = result_list_set [OF assms(2) [unfolded l]]
  have "(l, c) \<in> set (result_list (gs_messages s))" using assms(2) l by (simp add: result_list_at)
  then show "guard_ok ms (compact_at n l c s)"
    using assms(1) erase_set [OF assms(2) [unfolded l]] sum_replaced [OF distinct_locations, of l c "gs_messages s" "truncate_to c n"]
    unfolding guard_ok_def compact_at_def Let_def l guard_state.simps r replaced_maps by simp
  show "result_at (gs_messages (compact_at n l c s)) k = (if k = l then Some (truncate_to c n) else result_at (gs_messages s) k)"
    using assms(2) by (simp add: compact_at_def Let_def l r result_at_map_of map_of_replaced)
qed

text \<open>What the first pass leaves: results that were small are small, and none is enormous.\<close>

definition small_kept :: "((nat \<times> nat) \<times> nat) list \<Rightarrow> guard_state \<Rightarrow> bool" where
  "small_kept locs s = (\<forall>l len c. (l, len) \<in> set locs \<longrightarrow> result_at (gs_messages s) l = Some c \<longrightarrow>
     length c < 10 ^ 18 \<and> (len \<le> COMPACT_TARGET \<longrightarrow> length c \<le> COMPACT_TARGET))"

lemma small_kept_compact:
  assumes "guard_ok ms s" "small_kept locs s" "result_at (gs_messages s) l = Some c" "(l, len) \<in> set locs"
    and "distinct (map fst locs)" "len \<le> COMPACT_TARGET \<longrightarrow> n \<le> COMPACT_TARGET" "n < 10 ^ 18"
  shows "small_kept locs (compact_at n l c s)"
  unfolding small_kept_def
proof (intro allI impI)
  fix k klen d
  assume k: "(k, klen) \<in> set locs" "result_at (gs_messages (compact_at n l c s)) k = Some d"
  show "length d < 10 ^ 18 \<and> (klen \<le> COMPACT_TARGET \<longrightarrow> length d \<le> COMPACT_TARGET)"
  proof (cases "k = l")
    case True
    then have "klen = len" using k(1) assms(4,5) by (auto dest: eq_key_imp_eq_value)
    moreover have "length c < 10 ^ 18" using assms(2-4) unfolding small_kept_def by blast
    moreover have "d = truncate_to c n" using k(2) True guard_ok_compact(2) [OF assms(1,3), of n l] by simp
    ultimately show ?thesis
      using truncate_to_length [of c n] assms(6,7) by (auto simp: COMPACT_TARGET_def max_def split: if_splits)
  next
    case False
    then have "result_at (gs_messages s) k = Some d" using k(2) guard_ok_compact(2) [OF assms(1,3), of n k] by simp
    then show ?thesis using k(1) assms(2) unfolding small_kept_def by blast
  qed
qed

lemma first_pass:
  assumes "guard_ok ms s" "small_kept locs s" "distinct (map fst locs)" "set ls \<subseteq> set locs"
    and "\<And>l len. (l, len) \<in> set locs \<Longrightarrow> len < 10 ^ 18"
  shows "guard_ok ms (fold (cap_single n) ls s) \<and> small_kept locs (fold (cap_single n) ls s)"
  using assms(1,2,4)
proof (induction ls arbitrary: s)
  case (Cons x ls)
  obtain l len where x: "x = (l, len)" by (cases x)
  then have m: "(l, len) \<in> set locs" using Cons.prems(3) by simp
  have "guard_ok ms (cap_single n x s) \<and> small_kept locs (cap_single n x s)"
  proof (cases "n < len \<and> result_at (gs_messages s) l \<noteq> None")
    case True
    then obtain c where c: "result_at (gs_messages s) l = Some c" by auto
    have "len < 10 ^ 18" by (rule assms(5) [OF m])
    then show ?thesis
      using guard_ok_compact(1) [OF Cons.prems(1) c, of n] True c x
        small_kept_compact [OF Cons.prems(1,2) c m assms(3), of n] by (simp add: cap_single_def)
  next
    case False
    then show ?thesis using Cons.prems x by (auto simp: cap_single_def)
  qed
  then show ?case using Cons.IH [of "cap_single n x s"] Cons.prems(3) by simp
qed simp

definition fits_or_small :: "nat \<Rightarrow> (nat \<times> nat) list \<Rightarrow> guard_state \<Rightarrow> bool" where
  "fits_or_small h ls s \<longleftrightarrow> total_chars s \<le> h
     \<or> (\<forall>l c. l \<in> set ls \<longrightarrow> result_at (gs_messages s) l = Some c \<longrightarrow> length c \<le> COMPACT_TARGET)"

lemma second_pass:
  assumes "guard_ok ms s" "small_kept locs s" "distinct (map fst locs)" "set ls \<subseteq> set locs"
    and "fits_or_small h seen s"
  shows "guard_ok ms (fold (compact_oldest h) ls s) \<and> fits_or_small h (seen @ map fst ls) (fold (compact_oldest h) ls s)"
  using assms(1,2,4-)
proof (induction ls arbitrary: s seen)
  case (Cons x ls)
  obtain l len where x: "x = (l, len)" by (cases x)
  then have m: "(l, len) \<in> set locs" using Cons.prems(3) by simp
  note seen = Cons.prems(4) [unfolded fits_or_small_def]
  let ?t = "compact_oldest h x s"
  have "guard_ok ms ?t \<and> small_kept locs ?t \<and> fits_or_small h (seen @ [l]) ?t"
  proof (cases "total_chars s \<le> h \<or> len \<le> COMPACT_TARGET \<or> result_at (gs_messages s) l = None")
    case True
    then have "?t = s" using x by (auto simp: compact_oldest_def)
    moreover have "total_chars s \<le> h \<or> (\<forall>c. result_at (gs_messages s) l = Some c \<longrightarrow> length c \<le> COMPACT_TARGET)"
      using True Cons.prems(2) m unfolding small_kept_def by fastforce
    ultimately show ?thesis using Cons.prems(1,2) seen unfolding fits_or_small_def by auto
  next
    case False
    then obtain c where c: "result_at (gs_messages s) l = Some c" by auto
    show ?thesis
    proof (cases "length c > COMPACT_TARGET")
      case True
      then have t: "?t = compact_at COMPACT_TARGET l c s" using False c x by (simp add: compact_oldest_def)
      have "length c < 10 ^ 18" using Cons.prems(2) m c unfolding small_kept_def by blast
      then have "length (truncate_to c COMPACT_TARGET) \<le> COMPACT_TARGET"
        using truncate_to_length [of c COMPACT_TARGET] by (simp add: COMPACT_TARGET_def)
      then have "fits_or_small h (seen @ [l]) ?t"
        using seen False guard_ok_compact(2) [OF Cons.prems(1) c, of COMPACT_TARGET]
        unfolding t fits_or_small_def by auto
      then show ?thesis
        using guard_ok_compact(1) [OF Cons.prems(1) c] small_kept_compact [OF Cons.prems(1,2) c m assms(3), of COMPACT_TARGET] t
        by (simp add: COMPACT_TARGET_def)
    next
      case small: False
      then have "?t = s" using False c x by (simp add: compact_oldest_def)
      then show ?thesis using Cons.prems(1,2) seen small c unfolding fits_or_small_def by auto
    qed
  qed
  then show ?case using Cons.IH [of ?t "seen @ [l]"] Cons.prems(3) x by simp
qed simp

lemma map_fst_locations: "map fst (result_locations ms) = map fst (result_list ms)"
  by (simp add: result_locations_list case_prod_unfold o_def)

lemma small_start:
  assumes "list_all (\<lambda>c. length c < 10 ^ 18) (results_of ms)"
  shows "small_kept (result_locations ms) \<lparr>gs_messages = ms, total_chars = t, compacted = k\<rparr>"
    and "(l, len) \<in> set (result_locations ms) \<Longrightarrow> len < 10 ^ 18"
proof -
  have "length c < 10 ^ 18 \<and> len = length c" if loc: "(l, len) \<in> set (result_locations ms)" "result_at ms l = Some c" for l len c
  proof -
    obtain x where "x \<in> set (result_list ms)" "(l, len) = (fst x, length (snd x))"
      using loc(1) unfolding result_locations_list set_map image_iff case_prod_unfold by blast
    then obtain d where d: "(l, d) \<in> set (result_list ms)" "len = length d" by (metis prod.collapse prod.inject)
    moreover have "result_at ms l = Some d" using d(1) distinct_locations by (simp add: result_at_map_of)
    moreover have "d \<in> set (results_of ms)" using d(1) by (force simp: results_of_list)
    ultimately show ?thesis using loc(2) assms by (auto simp: list_all_iff)
  qed
  then show "small_kept (result_locations ms) \<lparr>gs_messages = ms, total_chars = t, compacted = k\<rparr>"
    unfolding small_kept_def guard_state.simps by blast
  show "(l, len) \<in> set (result_locations ms) \<Longrightarrow> len < 10 ^ 18"
    using assms by (force simp: result_locations_list results_of_list list_all_iff)
qed

lemma context_guard_aux:
  assumes "list_all (\<lambda>c. length c < 10 ^ 18) (results_of ms)" "apply_context_guard ms budget = (ms', n)"
  shows "map erase_results ms' = map erase_results ms
    \<and> (sum_list (map length (results_of ms')) \<le> total_tool_headroom_chars budget
       \<or> list_all (\<lambda>c. length c \<le> COMPACT_TARGET) (results_of ms'))"
proof -
  let ?locs = "result_locations ms" and ?h = "total_tool_headroom_chars budget"
  let ?s = "\<lparr>gs_messages = ms, total_chars = sum_list (map snd ?locs), compacted = 0\<rparr>"
  let ?one = "fold (cap_single (single_result_max budget)) ?locs ?s"
  let ?two = "fold (compact_oldest ?h) ?locs ?one"
  have sum: "sum_list (map length (results_of xs)) = sum_list (map (\<lambda>(k, d). length d) (result_list xs))" for xs
    by (simp add: results_of_list case_prod_unfold o_def)
  have start: "sum_list (map snd ?locs) = sum_list (map (\<lambda>(k, d). length d) (result_list ms))"
    by (simp add: result_locations_list case_prod_unfold o_def)
  show ?thesis
  proof (cases "sum_list (map snd ?locs) \<le> ?h")
    case True
    then show ?thesis using assms(2) sum [of ms] start by (simp add: apply_context_guard_def Let_def)
  next
    case False
    then have ms': "ms' = gs_messages ?two" using assms(2) by (simp add: apply_context_guard_def Let_def)
    have d: "distinct (map fst ?locs)" by (simp add: map_fst_locations distinct_locations)
    have ok: "guard_ok ms ?s" using start by (simp add: guard_ok_def)
    have one: "guard_ok ms ?one \<and> small_kept ?locs ?one"
      by (rule first_pass [OF ok small_start(1) [OF assms(1)] d order_refl]) (rule small_start(2) [OF assms(1)])
    have two: "guard_ok ms ?two \<and> fits_or_small ?h ([] @ map fst ?locs) ?two"
      by (rule second_pass [OF conjunct1 [OF one] conjunct2 [OF one] d order_refl]) (simp add: fits_or_small_def)
    have "length c \<le> COMPACT_TARGET" if big: "\<not> total_chars ?two \<le> ?h" "c \<in> set (results_of ms')" for c
    proof -
      obtain l where l: "(l, c) \<in> set (result_list ms')" using big(2) by (auto simp: results_of_list)
      then have "l \<in> set (map fst (result_list ms'))" by force
      moreover have "map fst (result_list ms') = map fst ?locs"
        using conjunct1 [OF two] unfolding ms' map_fst_locations guard_ok_def by blast
      ultimately have "l \<in> set (map fst ?locs)" by metis
      moreover have "result_at ms' l = Some c" using l distinct_locations by (simp add: result_at_map_of)
      ultimately show ?thesis
        using conjunct2 [OF two] big(1) unfolding ms' fits_or_small_def append_Nil by blast
    qed
    moreover have "map erase_results ms' = map erase_results ms" "total_chars ?two = sum_list (map length (results_of ms'))"
      using conjunct1 [OF two] unfolding ms' sum guard_ok_def by blast+
    ultimately show ?thesis unfolding list_all_iff by metis
  qed
qed

section \<open>Recovery makes room\<close>

lemma oversized_small: "length c < 10 ^ 18 \<Longrightarrow> length (overflow_truncated c) \<le> TOOL_TRUNCATION_LIMIT"
proof (cases "length c > TOOL_TRUNCATION_LIMIT")
  case True
  assume c: "length c < 10 ^ 18"
  let ?k = "walk_back c (TOOL_TRUNCATION_LIMIT - 80)"
  have k: "?k \<le> 1920" using walk_back_le [of c 1920] by (simp add: TOOL_TRUNCATION_LIMIT_def)
  have d: "length (show_nat ?k) \<le> 4" "length (show_nat (length c)) \<le> 18"
    using k c by (auto intro!: length_show_nat simp del: power_numeral_even power_numeral_odd)
  have "length (overflow_truncated c) = min (length c) ?k + 48 + length (show_nat (length c)) + length (show_nat ?k)"
    using True by (simp add: overflow_truncated_def Let_def)
  then show ?thesis using k d by (simp add: TOOL_TRUNCATION_LIMIT_def)
qed (simp add: overflow_truncated_def)

lemma drain_bound: "drain_keeping ms k \<le> length ms \<and> length ms - k \<le> drain_keeping ms k + 1"
  by (auto simp: drain_keeping_def safe_drain_boundary_def Let_def)

lemma results_of_simps: "results_of [] = []" "results_of (m # ms) = List.map_filter block_result (blocks_of m) @ results_of ms"
  by (simp_all add: results_of_def)

lemma truncated_results: "results_of (map truncate_results ms) = map overflow_truncated (results_of ms)"
proof -
  have "List.map_filter block_result (map (\<lambda>b. case block_result b of None \<Rightarrow> b | Some c \<Rightarrow> with_result (overflow_truncated c) b) bs)
      = map overflow_truncated (List.map_filter block_result bs)" for bs
  proof (induction bs)
    case (Cons b bs)
    then show ?case by (cases b) simp_all
  qed simp
  then have "List.map_filter block_result (blocks_of (truncate_results m)) = map overflow_truncated (List.map_filter block_result (blocks_of m))" for m
    by (cases "content m") (simp_all add: truncate_results_def blocks_of_def)
  then show ?thesis by (induction ms) (simp_all add: results_of_simps)
qed

lemma stage_truncate_result:
  assumes "stage_truncate est w ms = (st, ms')" "list_all (\<lambda>c. length c < 10 ^ 18) (results_of ms)"
  shows "(\<exists>n. st = ToolResultTruncation n \<and> est ms' \<le> scaled w F_090) \<or>
    (st = FinalError \<and> length ms' = length ms \<and> list_all (\<lambda>c. length c \<le> TOOL_TRUNCATION_LIMIT) (results_of ms'))"
proof -
  have ms': "ms' = map truncate_results ms" using assms(1) by (auto simp: stage_truncate_def Let_def split: if_splits)
  have "list_all (\<lambda>c. length c \<le> TOOL_TRUNCATION_LIMIT) (results_of ms')"
    using assms(2) oversized_small unfolding ms' truncated_results list_all_iff by auto
  then show ?thesis using assms(1) ms' by (auto simp: stage_truncate_def Let_def split: if_splits)
qed

lemma results_of_drop: "set (results_of (drop n ms)) \<subseteq> set (results_of ms)"
proof (induction ms arbitrary: n)
  case (Cons m ms)
  then show ?case by (cases n) (auto simp: results_of_simps)
qed simp

lemma stage_drain_result:
  assumes "stage_drain est w ms = (st, ms')" "list_all (\<lambda>c. length c < 10 ^ 18) (results_of ms)"
  shows "(\<exists>k. st = OverflowCompaction k \<and> ms' = removed_marker k # drop k ms \<and> est ms' \<le> scaled w F_090)
    \<or> (\<exists>n. st = ToolResultTruncation n \<and> est ms' \<le> scaled w F_090)
    \<or> (st = FinalError \<and> length ms' \<le> 6 \<and> list_all (\<lambda>c. length c \<le> TOOL_TRUNCATION_LIMIT) (results_of ms'))"
proof (cases "0 < drain_keeping ms 4 \<and> est (removed_marker (drain_keeping ms 4) # drop (drain_keeping ms 4) ms) \<le> scaled w F_090")
  case True
  then show ?thesis using assms(1) by (auto simp: stage_drain_def Let_def)
next
  case False
  let ?k = "drain_keeping ms 4"
  let ?in = "if 0 < ?k then removed_marker ?k # drop ?k ms else ms"
  have "stage_truncate est w ?in = (st, ms')" using assms(1) False by (auto simp: stage_drain_def Let_def split: if_splits)
  moreover have "list_all (\<lambda>c. length c < 10 ^ 18) (results_of ?in)"
    using assms(2) results_of_drop [of ?k ms] by (auto simp: list_all_iff results_of_simps removed_marker_def blocks_of_def)
  moreover have "length ?in \<le> 6" using drain_bound [of ms 4] by auto
  ultimately show ?thesis using stage_truncate_result [of est w ?in st ms'] by auto
qed

section \<open>Reading a paging header\<close>

lemma split_once_hit: "c \<notin> set a \<Longrightarrow> split_once (a @ (c # p) @ b) (c # p) = Some (a, b)"
  by (simp add: split_once_def str_find_hit del: append_Cons)

lemma show_word_digits: "c \<in> set (show_word w) \<Longrightarrow> is_digit c"
  using show_nat_digits [of "unat w"] by (auto simp: show_word_def list_all_iff)

lemma paging_range_printed:
  fixes a b c :: u64
  shows "paging_range (PAGING_MARK @ show_word a @ ''-'' @ show_word b @ '' of '' @ show_word c @ '' '' @ extra) = Some (a, c)"
proof -
  have d: "CHR ''-'' \<notin> set (show_word w)" "CHR '' '' \<notin> set (show_word w)" for w :: u64
    by (auto dest!: show_word_digits simp: is_digit_def)
  have "split_once (show_word a @ ''-'' @ r) ''-'' = Some (show_word a, r)" for r
    by (rule split_once_hit [OF d(1)])
  moreover have "split_once (show_word b @ '' of '' @ r) '' of '' = Some (show_word b, r)" for r
    by (rule split_once_hit [OF d(2)])
  moreover have "split_once (show_word c @ '' '' @ r) '' '' = Some (show_word c, r)" for r
    by (rule split_once_hit [OF d(2)])
  ultimately show ?thesis
    by (simp add: paging_range_def parse_show_u64 del: append_Cons)
qed

lemma rewrite_header:
  assumes "newline \<notin> set h" "starts_with h PAGING_MARK" "paging_range h = Some (a, c)"
  shows "rewrite_paging_header (h @ [newline] @ body) = paging_header a c (length body) @ [newline] @ body"
proof -
  have "starts_with (h @ [newline] @ body) PAGING_MARK" using assms(2) by (auto simp: starts_with_iff)
  then show ?thesis using str_find_hit [OF assms(1), of "[]" body] assms(3) by (simp add: rewrite_paging_header_def)
qed

section \<open>Properties\<close>

text \<open>
  C22: the guard keeps tool results within their share. It changes nothing of a conversation but the
  text of tool results, and afterwards either all results together are within three quarters of
  the window or none is longer than two thousand bytes. (No result has \<open>10 ^ 18\<close> bytes.)
\<close>

theorem context_guard_fits:
  assumes "list_all (\<lambda>c. length c < 10 ^ 18) (results_of ms)" "apply_context_guard ms budget = (ms', n)"
  shows "map erase_results ms' = map erase_results ms
    \<and> (sum_list (map length (results_of ms')) \<le> total_tool_headroom_chars budget
       \<or> list_all (\<lambda>c. length c \<le> COMPACT_TARGET) (results_of ms'))"
  by (rule context_guard_aux [OF assms])

text \<open>
  Recovery makes room or has nothing left to drop. The stage that is reported leaves an estimate
  within its limit; the final error comes with at most six messages and short results.
\<close>

theorem recovery_makes_room:
  assumes "recover_from_overflow js ms sys tools w = (st, ms')" "list_all (\<lambda>c. length c < 10 ^ 18) (results_of ms)"
  shows "case st of
      NoRecovery \<Rightarrow> ms' = ms \<and> estimate_token_count js ms' (Some sys) (Some tools) \<le> scaled w F_070
    | AutoCompaction k \<Rightarrow> ms' = drop k ms \<and> estimate_token_count js ms' (Some sys) (Some tools) \<le> scaled w F_070
    | OverflowCompaction k \<Rightarrow> (\<exists>j. ms' = removed_marker k # drop j ms)
        \<and> estimate_token_count js ms' (Some sys) (Some tools) \<le> scaled w F_090
    | ToolResultTruncation _ \<Rightarrow> estimate_token_count js ms' (Some sys) (Some tools) \<le> scaled w F_090
    | FinalError \<Rightarrow> length ms' \<le> 6 \<and> list_all (\<lambda>c. length c \<le> TOOL_TRUNCATION_LIMIT) (results_of ms')"
proof -
  let ?est = "\<lambda>ms. estimate_token_count js ms (Some sys) (Some tools)"
  have small: "list_all (\<lambda>c. length c < 10 ^ 18) (results_of (drop k ms))" for k
    using assms(2) results_of_drop [of k ms] by (auto simp: list_all_iff)
  consider "st = NoRecovery" "ms' = ms" "?est ms \<le> scaled w F_070"
    | k where "st = AutoCompaction k" "ms' = drop k ms" "?est ms' \<le> scaled w F_070"
    | k where "stage_drain ?est w (drop k ms) = (st, ms')"
  proof -
    note r = assms(1) [unfolded recover_from_overflow_def Let_def]
    show thesis
    proof (cases "?est ms \<le> scaled w F_070")
      case True
      with r show thesis by (intro that(1)) simp_all
    next
      case over: False
      show thesis
      proof (cases "?est ms \<le> scaled w F_090 \<and> 0 < drain_keeping ms 10")
        case True
        then show thesis using r over that(2) [of "drain_keeping ms 10"] that(3) [of "drain_keeping ms 10"]
          by (cases "?est (drop (drain_keeping ms 10) ms) \<le> scaled w F_070") simp_all
      next
        case False
        then have "stage_drain ?est w ms = (st, ms')" using r over by (cases "?est ms \<le> scaled w F_090") simp_all
        then show thesis by (intro that(3) [of 0]) simp
      qed
    qed
  qed
  then show ?thesis
  proof cases
    case (3 k)
    then show ?thesis using stage_drain_result [OF 3 small] by (auto simp: drop_drop) 
  qed auto
qed

text \<open>
  A drained conversation keeps its pairs: the first message that stays is not the results of an
  assistant message that goes.
\<close>

theorem drain_keeps_pairs:
  assumes "0 < safe_drain_boundary ms b" "safe_drain_boundary ms b < length ms"
  shows "\<not> (role (ms ! safe_drain_boundary ms b) = User \<and> has_tool_result (ms ! safe_drain_boundary ms b)
    \<and> role (ms ! (safe_drain_boundary ms b - 1)) = Assistant \<and> has_tool_use (ms ! (safe_drain_boundary ms b - 1)))"
  using assms by (auto simp: safe_drain_boundary_def Let_def split: if_splits)

text \<open>
  A final error below the limit. Short conversations over seventy percent of the window are
  reported as unrecoverable even when they are within ninety, the limit of every later stage.
\<close>

theorem final_error_below_limit:
  assumes "length ms \<le> 4" "list_all (\<lambda>c. length c \<le> TOOL_TRUNCATION_LIMIT) (results_of ms)"
    and "scaled w F_070 < estimate_token_count js ms (Some sys) (Some tools)"
    and "estimate_token_count js ms (Some sys) (Some tools) \<le> scaled w F_090"
  shows "recover_from_overflow js ms sys tools w = (FinalError, ms)"
proof -
  have k: "drain_keeping ms 4 = 0" "drain_keeping ms 10 = 0" using assms(1) by (simp_all add: drain_keeping_def safe_drain_boundary_def)
  have "oversized_results ms = 0"
    using assms(2) by (simp add: oversized_results_def results_of_def list_all_iff filter_empty_conv not_less)
  moreover have "map truncate_results ms = ms"
  proof (rule map_idI)
    fix m assume m: "m \<in> set ms"
    have "with_result (overflow_truncated c) b = b" if "block_result b = Some c" "b \<in> set (blocks_of m)" for b c
    proof -
      have "c \<in> set (results_of ms)" using that m by (force simp: results_of_def map_filter_def image_iff)
      then have "length c \<le> TOOL_TRUNCATION_LIMIT" using assms(2) by (auto simp: list_all_iff)
      then have "overflow_truncated c = c" by (simp add: overflow_truncated_def)
      then show ?thesis using that(1) by (cases b) simp_all
    qed
    then show "truncate_results m = m"
      by (cases "content m") (auto simp: truncate_results_def blocks_of_def map_idI split: option.split)
  qed
  ultimately show ?thesis using assms(3,4) k by (simp add: recover_from_overflow_def stage_drain_def stage_truncate_def Let_def)
qed

text \<open>
  A cut result tells the truth. When a result of \<open>file_read\<close> is cut, its header is rewritten to
  the range that is left of it: from the same start, as many bytes as there are.
\<close>

theorem paging_header_corrected:
  fixes a b c :: u64
  assumes "newline \<notin> set extra"
  shows "rewrite_paging_header (PAGING_MARK @ show_word a @ ''-'' @ show_word b @ '' of '' @ show_word c @ '' '' @ extra @ [newline] @ body)
    = paging_header a c (length body) @ [newline] @ body"
proof -
  let ?h = "PAGING_MARK @ show_word a @ ''-'' @ show_word b @ '' of '' @ show_word c @ '' '' @ extra"
  have "newline \<notin> set (show_word w)" for w :: u64 by (auto dest!: show_word_digits simp: is_digit_def newline_def)
  moreover have "newline \<notin> set PAGING_MARK" "newline \<notin> set ''-''" "newline \<notin> set '' of ''" "newline \<notin> set '' ''"
    by (simp_all add: PAGING_MARK_def newline_def)
  ultimately have "newline \<notin> set ?h" unfolding set_append using assms by blast
  moreover have "starts_with ?h PAGING_MARK" unfolding starts_with_iff by blast
  ultimately have "rewrite_paging_header (?h @ [newline] @ body) = paging_header a c (length body) @ [newline] @ body"
    using paging_range_printed by (rule rewrite_header)
  then show ?thesis unfolding append_assoc .
qed

theorem paging_header_corrected_witness:
  "rewrite_paging_header (''[file_read: returned bytes 5-200000 of 200000 total in this file (199995 bytes)]'' @ [newline] @ ''abc'')
    = ''[file_read: returned bytes 5-8 of 200000 total in this file (3 bytes); the request was cut short by the context budget; ''
      @ ''199992 bytes remain. Call file_read again with offset=8 to continue reading.]'' @ [newline] @ ''abc''"
proof -
  have "char_of (48 :: nat) = CHR ''0''" "char_of (49 :: nat) = CHR ''1''" "char_of (50 :: nat) = CHR ''2''" "char_of (51 :: nat) = CHR ''3''"
    "char_of (53 :: nat) = CHR ''5''" "char_of (56 :: nat) = CHR ''8''" "char_of (57 :: nat) = CHR ''9''"
    by code_simp+
  then have digits: "show_nat 5 = ''5''" "show_nat 200000 = ''200000''" "show_nat 8 = ''8''" "show_nat 3 = ''3''" "show_nat 199992 = ''199992''"
    by (simp_all add: show_nat.simps)
  have w: "show_word (5 :: u64) = ''5''" "show_word (200000 :: u64) = ''200000''" "show_word (8 :: u64) = ''8''"
    "show_word (3 :: u64) = ''3''" "show_word (199992 :: u64) = ''199992''"
    by (simp_all add: show_word_def digits)
  have "paging_header 5 200000 (length ''abc'') = ''[file_read: returned bytes 5-8 of 200000 total in this file (3 bytes); the request was cut short by the context budget; ''
      @ ''199992 bytes remain. Call file_read again with offset=8 to continue reading.]''"
    by (simp add: paging_header_def w saturating_sub_def word_le_nat_alt min_def Let_def)
  then show ?thesis
    using paging_header_corrected [of "''total in this file (199995 bytes)]''" 5 200000 200000 "''abc''"]
    by (simp add: PAGING_MARK_def w newline_def)
qed

lemma no_results: "results_of [\<lparr>role = r, content = Text t\<rparr>] = []"
  by (simp add: results_of_def blocks_of_def)

theorem final_error_below_limit_witness:
  "recover_from_overflow (\<lambda>_. []) [\<lparr>role = User, content = Text (replicate 300 (CHR ''x''))\<rparr>] [] [] 100
    = (FinalError, [\<lparr>role = User, content = Text (replicate 300 (CHR ''x''))\<rparr>])"
proof (rule final_error_below_limit)
  have "scaled 100 F_070 = 70" "scaled 100 F_090 = 90"
    by (simp_all add: scaled_def F_070_def F_090_def f64_of_nat_def round_bits_def bit_length.simps Let_def)
  moreover have "estimate_token_count (\<lambda>_. []) [\<lparr>role = User, content = Text (replicate 300 (CHR ''x''))\<rparr>] (Some []) (Some []) = 79"
    by (simp add: estimate_token_count_def)
  ultimately show "scaled 100 F_070 < estimate_token_count (\<lambda>_. []) [\<lparr>role = User, content = Text (replicate 300 (CHR ''x''))\<rparr>] (Some []) (Some [])"
    "estimate_token_count (\<lambda>_. []) [\<lparr>role = User, content = Text (replicate 300 (CHR ''x''))\<rparr>] (Some []) (Some []) \<le> scaled 100 F_090"
    by simp_all
qed (simp_all add: no_results)

theorem context_guard_fits_witness:
  "map erase_results (fst (apply_context_guard [\<lparr>role = User, content = Blocks [ToolResult ''t'' ''ls'' (replicate 3000 (CHR ''x'')) False]\<rparr>] (new_budget 10)))
      = [\<lparr>role = User, content = Blocks [ToolResult ''t'' ''ls'' [] False]\<rparr>]
    \<and> list_all (\<lambda>c. length c \<le> 2000)
        (results_of (fst (apply_context_guard [\<lparr>role = User, content = Blocks [ToolResult ''t'' ''ls'' (replicate 3000 (CHR ''x'')) False]\<rparr>] (new_budget 10))))"
proof -
  let ?ms = "[\<lparr>role = User, content = Blocks [ToolResult ''t'' ''ls'' (replicate 3000 (CHR ''x'')) False]\<rparr>]"
  have r: "list_all (\<lambda>c. length c < 10 ^ 18) (results_of ?ms)" by (simp add: results_of_def blocks_of_def)
  have h: "total_tool_headroom_chars (new_budget 10) = 14"
    by (simp add: total_tool_headroom_chars_def new_budget_def scaled_def F_075_def f64_of_nat_def round_bits_def bit_length.simps Let_def)
  have "sum_list (map length cs) \<le> 14 \<Longrightarrow> list_all (\<lambda>c. length c \<le> 2000) cs" for cs :: "string list"
    using member_le_sum_list [of _ "map length cs"] by (force simp: list_all_iff)
  then show ?thesis
    using context_guard_fits [OF r, of "new_budget 10" "fst (apply_context_guard ?ms (new_budget 10))" "snd (apply_context_guard ?ms (new_budget 10))"]
    unfolding h by (auto simp: erase_results_def COMPACT_TARGET_def)
qed

theorem recovery_makes_room_witness:
  "\<exists>st ms'. recover_from_overflow (\<lambda>_. []) [\<lparr>role = User, content = Text ''hi''\<rparr>] [] [] 100 = (st, ms') \<and> st = NoRecovery
    \<and> estimate_token_count (\<lambda>_. []) ms' (Some []) (Some []) \<le> scaled 100 F_070"
proof -
  let ?ms = "[\<lparr>role = User, content = Text ''hi''\<rparr>]"
  have "estimate_token_count (\<lambda>_. []) ?ms (Some []) (Some []) \<le> scaled 100 F_070"
    by (simp add: estimate_token_count_def scaled_def F_070_def f64_of_nat_def round_bits_def bit_length.simps Let_def)
  then have r: "recover_from_overflow (\<lambda>_. []) ?ms [] [] 100 = (NoRecovery, ?ms)" by (simp add: recover_from_overflow_def Let_def)
  show ?thesis using recovery_makes_room [OF r] r by (simp add: no_results)
qed

end
