(* ===== verification/ReplyDirectives.thy ===== *)
theory ReplyDirectives
  imports Utf8
begin

text \<open>
  Inline directives of a reply: \<open>openfang-runtime/src/reply_directives.rs\<close>. The accumulator walks
  over the characters of its input (\<open>utf8_chars\<close>) and keeps back a tag that may go on in the next
  chunk.
\<close>

record directive_set =
  reply_to :: "string option"
  current_thread :: bool
  silent :: bool

definition no_directives :: directive_set where
  "no_directives = \<lparr>reply_to = None, current_thread = False, silent = False\<rparr>"

record accumulator =
  partial_tag :: string
  directives :: directive_set

definition new_accumulator :: accumulator where
  "new_accumulator = \<lparr>partial_tag = [], directives = no_directives\<rparr>"

definition MAX_PARTIAL_LEN :: nat where "MAX_PARTIAL_LEN = 30"

definition parse_tag :: "string \<Rightarrow> directive_set \<Rightarrow> directive_set" where
  "parse_tag tag d =
     (let trimmed = trim tag
      in case strip_prefix ''reply:'' trimmed of
           Some i \<Rightarrow> if trim i \<noteq> [] then d\<lparr>reply_to := Some (trim i)\<rparr> else d
         | None \<Rightarrow>
             if trimmed = ''@current'' then d\<lparr>current_thread := True\<rparr>
             else if trimmed = ''silent'' then d\<lparr>silent := True\<rparr>
             else d)"

text \<open>
  The loop over the characters. The length of a tag is counted in bytes, and that many characters
  are skipped. The result is the output, the directives and the part kept back.
\<close>

definition tag_end :: "string list \<Rightarrow> nat option" where
  "tag_end chs = Option.bind (strip_prefix ''[['' (concat chs)) (\<lambda>after_open. str_find after_open '']]'')"

function consume_loop :: "bool \<Rightarrow> string list \<Rightarrow> directive_set \<Rightarrow> string \<times> directive_set \<times> string" where
  "consume_loop is_final [] d = ([], d, [])"
| "consume_loop is_final (ch # chs) d =
     (let remaining = concat (ch # chs)
      in if ch = ''['' \<and> starts_with remaining ''[[''
         then (case tag_end (ch # chs) of
             Some stop \<Rightarrow>
               consume_loop is_final (drop (2 + stop + 2) (ch # chs)) (parse_tag (take stop (drop 2 remaining)) d)
           | None \<Rightarrow>
               if \<not> is_final \<and> length remaining < MAX_PARTIAL_LEN then ([], d, remaining)
               else (let (out, d', p) = consume_loop is_final chs d in (ch @ out, d', p)))
         else (let (out, d', p) = consume_loop is_final chs d in (ch @ out, d', p)))"
  by pat_completeness auto
termination by (relation "measure (\<lambda>(_, chs, _). length chs)") auto

definition consume :: "accumulator \<Rightarrow> string \<Rightarrow> bool \<Rightarrow> string \<times> accumulator" where
  "consume acc chunk is_final =
     (let (out, d, p) = consume_loop is_final (utf8_chars (partial_tag acc @ chunk)) (directives acc)
      in if is_final \<and> p \<noteq> [] then (out @ p, \<lparr>partial_tag = [], directives = d\<rparr>)
         else (out, \<lparr>partial_tag = p, directives = d\<rparr>))"

definition parse_directives :: "string \<Rightarrow> string \<times> directive_set" where
  "parse_directives s = (let (cleaned, acc) = consume new_accumulator s True in (trim cleaned, directives acc))"

section \<open>Properties\<close>

lemma utf8_chars_ascii: "list_all (\<lambda>c. \<not> is_continuation c) s \<Longrightarrow> utf8_chars s = map (\<lambda>c. [c]) s"
proof (induction s)
  case (Cons c s)
  then have "takeWhile is_continuation s = []" "dropWhile is_continuation s = s" by (cases s; simp)+
  then show ?case using Cons by simp
qed simp

lemma consume_loop_no_tag:
  "\<not> str_contains (concat chs) ''[['' \<Longrightarrow> list_all (\<lambda>ch. ch \<noteq> []) chs \<Longrightarrow> consume_loop f chs d = (concat chs, d, [])"
proof (induction chs)
  case (Cons ch chs)
  then have "\<not> starts_with (concat (ch # chs)) ''[[''" by (auto simp: str_contains_iff starts_with_iff dest: spec [of _ "[]"])
  moreover have "\<not> str_contains (concat chs) ''[[''" using Cons.prems(1) by (auto simp: str_contains_iff) (metis append.assoc)
  ultimately show ?case using Cons by simp
qed simp

text \<open>A text without an opening bracket pair is only trimmed and carries no directive.\<close>

theorem plain_reply: "\<not> str_contains s ''[['' \<Longrightarrow> parse_directives s = (trim s, no_directives)"
proof -
  assume a: "\<not> str_contains s ''[[''"
  have "consume_loop True (utf8_chars s) no_directives = (s, no_directives, [])"
    using consume_loop_no_tag [of "utf8_chars s"] a utf8_chars_nonempty by (simp add: concat_utf8_chars list_all_iff)
  then show ?thesis by (simp add: parse_directives_def consume_def new_accumulator_def)
qed

text \<open>
  A directive in front of a text without tags is read and removed. (All characters of the tag are
  ASCII and none is a closing bracket.)
\<close>

theorem leading_directive:
  assumes "list_all (\<lambda>c. (of_char c :: nat) < 128) t" "CHR '']'' \<notin> set t" "list_all (\<lambda>c. (of_char c :: nat) < 128) s" "\<not> str_contains s ''[[''"
  shows "parse_directives (''[['' @ t @ '']]'' @ s) = (trim s, parse_tag t no_directives)"
proof -
  let ?u = "''[['' @ t @ '']]'' @ s"
  have "list_all (\<lambda>c. \<not> is_continuation c) ?u" using assms(1,3) by (auto simp: is_continuation_def list_all_iff)
  then have u: "utf8_chars ?u = map (\<lambda>c. [c]) ?u" by (rule utf8_chars_ascii)
  have te: "tag_end (map (\<lambda>c. [c]) ?u) = Some (length t)"
    using str_find_hit [OF assms(2), of "'']''" s] strip_prefix_append [of "''[[''" "t @ '']]'' @ s"] by (simp add: tag_end_def concat_map_singleton)
  have c: "concat (map (\<lambda>c. [c]) ?u) = ?u" by (simp add: concat_map_singleton)
  have "consume_loop True (map (\<lambda>c. [c]) ?u) no_directives = consume_loop True (map (\<lambda>c. [c]) s) (parse_tag t no_directives)"
    using te by (simp add: starts_with_def concat_map_singleton)
  also have "\<dots> = (s, parse_tag t no_directives, [])"
    using consume_loop_no_tag [of "map (\<lambda>c. [c]) s"] assms(4) by (simp add: concat_map_singleton list_all_iff)
  finally show ?thesis unfolding parse_directives_def consume_def u [symmetric] by (simp add: new_accumulator_def)
qed

text \<open>
  A tag with other characters eats the text behind it: one more character for every byte beyond
  the first of a character.
\<close>

theorem wide_tag_eats_text:
  "parse_directives (''[[reply:'' @ [CHR 0xC3, CHR 0xA9] @ '']]42'') = (''2'', no_directives\<lparr>reply_to := Some [CHR 0xC3, CHR 0xA9]\<rparr>)"
  by code_simp

text \<open>A tag whose two opening brackets arrive in different chunks is shown to the user and has no effect.\<close>

theorem split_brackets_missed:
  "let (out1, a1) = consume new_accumulator ''['' False; (out2, a2) = consume a1 ''[silent]]'' True
   in (out1 @ out2, directives a2) = (''[[silent]]'', no_directives)"
  by code_simp

end
