(* ===== verification/ToolText.thy ===== *)
theory ToolText
  imports Agents Utf8 "HOL-Library.Char_ord" "HOL-Library.List_Lexorder"
begin

text \<open>
  Tool calls that models write as text: \<open>recover_text_tool_calls\<close> and its parsers in
  \<open>openfang-runtime/src/agent_loop.rs\<close>. The JSON parser, the two regular expressions and the
  generator of fresh ids are third-party code, the fields of \<open>text_lib\<close>: \<open>attribute_calls\<close> and
  \<open>parameter_blocks\<close> list the two captured groups of every match. A JSON object is sorted by key,
  as \<open>serde_json\<close> keeps it.
\<close>

section \<open>Calls\<close>

record tool_call =
  tc_id :: string
  tc_name :: string
  tc_input :: json

record text_lib =
  parse_json :: "string \<Rightarrow> json option"
  attribute_calls :: "string \<Rightarrow> (string \<times> string) list"
  parameter_blocks :: "string \<Rightarrow> (string \<times> string) list"
  fresh_uuid :: "nat \<Rightarrow> string"

text \<open>The \<open>n\<close>th call recovered from a text gets the \<open>n\<close>th fresh id.\<close>

definition push_call :: "text_lib \<Rightarrow> tool_call list \<Rightarrow> string \<times> json \<Rightarrow> tool_call list" where
  "push_call lib calls = (\<lambda>(name, input).
     calls @ [\<lparr>tc_id = ''recovered_'' @ fresh_uuid lib (length calls), tc_name = name, tc_input = input\<rparr>])"

definition push_new :: "text_lib \<Rightarrow> tool_call list \<Rightarrow> string \<times> json \<Rightarrow> tool_call list" where
  "push_new lib calls = (\<lambda>(name, input).
     if list_ex (\<lambda>c. tc_name c = name \<and> tc_input c = input) calls then calls else push_call lib calls (name, input))"

definition push_some :: "text_lib \<Rightarrow> (string \<times> json) option \<Rightarrow> tool_call list \<Rightarrow> tool_call list" where
  "push_some lib found calls = (case found of None \<Rightarrow> calls | Some c \<Rightarrow> push_new lib calls c)"

section \<open>Parsers of one call\<close>

text \<open>\<open>tool_name{json}\<close>, as in the bodies of tags.\<close>

definition named_body :: "text_lib \<Rightarrow> string list \<Rightarrow> string \<Rightarrow> (string \<times> json) option" where
  "named_body lib tools inner =
     Option.bind (str_find inner ''{'') (\<lambda>brace.
       let name = trim (take brace inner)
       in if name \<noteq> [] \<and> name \<in> set tools then map_option (Pair name) (parse_json lib (trim (drop brace inner))) else None)"

fun json_as_object :: "json \<Rightarrow> (string \<times> json) list option" where
  "json_as_object (JObject kvs) = Some kvs"
| "json_as_object _ = None"

definition parse_json_tool_call_object :: "text_lib \<Rightarrow> string list \<Rightarrow> string \<Rightarrow> (string \<times> json) option" where
  "parse_json_tool_call_object lib tools s =
     Option.bind (parse_json lib s) (\<lambda>v. Option.bind (json_as_object v) (\<lambda>obj.
       let get = map_of obj
       in Option.bind (Option.bind (first_some [get ''name'', get ''function'', get ''tool'']) json_as_str) (\<lambda>name.
            if name \<notin> set tools then None
            else
              let args = (case first_some [get ''arguments'', get ''parameters'', get ''args'', get ''input''] of
                    Some a \<Rightarrow> a | None \<Rightarrow> JObject [])
              in Some (name, case json_as_str args of
                   Some t \<Rightarrow> (case parse_json lib t of Some a \<Rightarrow> a | None \<Rightarrow> JObject [])
                 | None \<Rightarrow> args))))"

definition unescape_xml_entities :: "string \<Rightarrow> string" where
  "unescape_xml_entities s =
     str_replace (str_replace (str_replace (str_replace (str_replace s ''&quot;'' [CHR 0x22]) ''&amp;'' ''&'')
       ''&lt;'' ''<'') ''&gt;'' ''>'') ''&apos;'' [CHR 0x27]"

fun json_insert :: "string \<Rightarrow> json \<Rightarrow> (string \<times> json) list \<Rightarrow> (string \<times> json) list" where
  "json_insert k v [] = [(k, v)]"
| "json_insert k v ((k', v') # kvs) =
     (if k = k' then (k, v) # kvs else if k < k' then (k, v) # (k', v') # kvs else (k', v') # json_insert k v kvs)"

definition parse_xml_parameter_blocks :: "text_lib \<Rightarrow> string \<Rightarrow> json option" where
  "parse_xml_parameter_blocks lib s =
     (let params = fold (\<lambda>(raw_name, raw_value) params.
        let name = trim raw_name; value_text = trim (unescape_xml_entities raw_value)
        in if name = [] then params
           else json_insert name (case parse_json lib value_text of Some v \<Rightarrow> v | None \<Rightarrow> JString value_text) params)
        (parameter_blocks lib s) []
      in if params = [] then None else Some (JObject params))"

text \<open>The position of the brace that closes the first one, counting from depth \<open>d\<close>.\<close>

fun brace_end :: "int \<Rightarrow> nat \<Rightarrow> string \<Rightarrow> nat option" where
  "brace_end d i [] = None"
| "brace_end d i (c # cs) =
     (if c = CHR ''{'' then brace_end (d + 1) (i + 1) cs
      else if c = CHR ''}'' then (if d - 1 = 0 then Some i else brace_end (d - 1) (i + 1) cs)
      else brace_end d (i + 1) cs)"

definition trim_start :: "string \<Rightarrow> string" where
  "trim_start s = dropWhile is_space s"

text \<open>
  One round of the loop over \<open>--key value\<close> pairs, behind the two hyphens: the value bound to the
  key, and the rest; no rest after an unclosed quotation mark.
\<close>

definition dash_value :: "string \<Rightarrow> json \<times> string option" where
  "dash_value remaining =
     (if starts_with remaining [CHR 0x22]
      then (case str_find (drop 1 remaining) [CHR 0x22] of
          Some stop \<Rightarrow> (JString (take stop (drop 1 remaining)), Some (drop (2 + stop) remaining))
        | None \<Rightarrow> (JString (drop 1 remaining), None))
      else
        let comma = length (takeWhile (\<lambda>c. c \<noteq> CHR '','' \<and> c \<noteq> CHR ''}'') remaining);
            stop = (if comma < length remaining then comma
                    else case str_find remaining ''--'' of Some k \<Rightarrow> k | None \<Rightarrow> length remaining);
            val = trim (take stop remaining)
        in (if val \<noteq> [] then JString val else JBool True, Some (drop stop remaining)))"

definition key_end :: "string \<Rightarrow> nat" where
  "key_end s = length (takeWhile (\<lambda>c. \<not> (is_space c \<or> c = CHR ''='' \<or> c = CHR 0x22)) s)"

definition skip_mark :: "char \<Rightarrow> string \<Rightarrow> string" where
  "skip_mark c s = (if starts_with s [c] then trim_start (drop 1 s) else s)"

lemma skip_mark_le: "length (skip_mark c s) \<le> length s"
  using length_dropWhile_le [of is_space "drop 1 s"] by (auto simp: skip_mark_def trim_start_def)

lemma trim_start_le: "length (trim_start s) \<le> length s"
  by (simp add: trim_start_def length_dropWhile_le)

lemma dash_value_rest: "dash_value s = (v, Some r) \<Longrightarrow> length r \<le> length s"
  by (auto simp: dash_value_def Let_def split: if_splits option.splits)

lemma dash_step_shrinks:
  assumes "str_find s ''--'' = Some k" "dash_value (skip_mark (CHR ''='') (trim_start (drop n (drop (k + 2) s)))) = (v, Some r)"
  shows "length (skip_mark (CHR '','') (trim_start r)) < length s"
proof -
  have "length (skip_mark (CHR '','') (trim_start r)) \<le> length r"
    using skip_mark_le [of "CHR '',''" "trim_start r"] trim_start_le [of r] by linarith
  also have "\<dots> \<le> length (skip_mark (CHR ''='') (trim_start (drop n (drop (k + 2) s))))"
    using assms(2) by (rule dash_value_rest)
  also have "\<dots> \<le> length (drop (k + 2) s)"
    using skip_mark_le [of "CHR ''=''" "trim_start (drop n (drop (k + 2) s))"] trim_start_le [of "drop n (drop (k + 2) s)"] by simp
  also have "\<dots> < length s" using str_find_shrinks [OF assms(1)] by simp
  finally show ?thesis .
qed

function dash_loop :: "string \<Rightarrow> (string \<times> json) list \<Rightarrow> (string \<times> json) list" where
  "dash_loop remaining acc =
     (case str_find remaining ''--'' of
        None \<Rightarrow> acc
      | Some dash_pos \<Rightarrow>
          let after = drop (dash_pos + 2) remaining; key = take (key_end after) after
          in if key = [] then dash_loop after acc
             else (case dash_value (skip_mark (CHR ''='') (trim_start (drop (key_end after) after))) of
                 (v, None) \<Rightarrow> json_insert key v acc
               | (v, Some r) \<Rightarrow> dash_loop (skip_mark (CHR '','') (trim_start r)) (json_insert key v acc)))"
  by pat_completeness auto
termination
proof (relation "measure (\<lambda>(s, _). length s)", goal_cases)
  case (2 s acc k after key)
  then show ?case using str_find_shrinks [of s "''--''" k] by auto
next
  case 3
  then show ?case by (auto simp del: drop_drop add_2_eq_Suc' intro: dash_step_shrinks [OF _ sym])
qed simp

declare dash_loop.simps [simp del]

definition parse_dash_dash_args :: "string \<Rightarrow> json" where
  "parse_dash_dash_args s =
     (let inner = (if starts_with s ''{''
        then trim (drop 1 (take (case brace_end 0 0 s of Some k \<Rightarrow> k | None \<Rightarrow> length s) s)) else trim s)
      in JObject (dash_loop inner []))"

definition arrow_args :: "text_lib \<Rightarrow> string \<Rightarrow> json option" where
  "arrow_args lib s =
     (case str_find s ''args'' of
        None \<Rightarrow> Some (JObject [])
      | Some k \<Rightarrow>
          Option.bind (strip_prefix ''=>'' (trim_start (drop (k + 4) s))) (\<lambda>r.
            let after_args = trim_start r
            in Some (if starts_with after_args ''{''
               then (case parse_json lib after_args of Some v \<Rightarrow> v | None \<Rightarrow> parse_dash_dash_args after_args)
               else JObject [])))"

definition parse_arrow_syntax_tool_call :: "text_lib \<Rightarrow> string list \<Rightarrow> string \<Rightarrow> (string \<times> json) option" where
  "parse_arrow_syntax_tool_call lib tools s =
     Option.bind (str_find s ''tool'') (\<lambda>k.
     Option.bind (strip_prefix ''=>'' (trim_start (drop (k + 4) s))) (\<lambda>r.
     let after_arrow = trim_start r
     in Option.bind (case strip_prefix [CHR 0x22] after_arrow of
            Some stripped \<Rightarrow> map_option (\<lambda>q. take q stripped) (str_find stripped [CHR 0x22])
          | None \<Rightarrow> Some (takeWhile (\<lambda>c. \<not> (c = CHR '','' \<or> c = CHR ''}'' \<or> is_space c)) after_arrow)) (\<lambda>name.
        if name = [] \<or> name \<notin> set tools then None else map_option (Pair name) (arrow_args lib s))))"

definition try_parse_bare_json_tool_call :: "text_lib \<Rightarrow> string list \<Rightarrow> string \<Rightarrow> (string \<times> json) option" where
  "try_parse_bare_json_tool_call lib tools s =
     Option.bind (brace_end 0 0 s) (\<lambda>k. parse_json_tool_call_object lib tools (take (k + 1) s))"

section \<open>Scanning a text\<close>

text \<open>
  The bodies between an opening and a closing tag, from left to right; an opening tag without a
  closing one is passed over. (No tag of the code is empty.)
\<close>

function tag_bodies :: "string \<Rightarrow> string \<Rightarrow> string \<Rightarrow> string list" where
  "tag_bodies opening closing s =
     (if opening = [] then []
      else case str_find s opening of
        None \<Rightarrow> []
      | Some start \<Rightarrow>
          let after_tag = drop (start + length opening) s
          in (case str_find after_tag closing of
                None \<Rightarrow> tag_bodies opening closing after_tag
              | Some k \<Rightarrow> take k after_tag # tag_bodies opening closing (drop (k + length closing) after_tag)))"
  by pat_completeness auto
termination
  by (relation "measure (\<lambda>(_, _, s). length s)") (auto dest!: str_find_shrinks intro: le_less_trans [OF diff_le_self])

declare tag_bodies.simps [simp del]

text \<open>Pattern 1: the name and the body of \<open><function=name>body</function>\<close>.\<close>

function function_bodies :: "string \<Rightarrow> (string \<times> string) list" where
  "function_bodies s =
     (case str_find s ''<function='' of
        None \<Rightarrow> []
      | Some start \<Rightarrow>
          let after_prefix = drop (start + length ''<function='') s
          in (case str_find after_prefix ''>'' of
                None \<Rightarrow> function_bodies after_prefix
              | Some name_end \<Rightarrow>
                  let body = drop (name_end + 1) after_prefix
                  in (case str_find body ''</function>'' of
                        None \<Rightarrow> function_bodies body
                      | Some k \<Rightarrow>
                          (take name_end after_prefix, trim (take k body)) # function_bodies (drop (k + length ''</function>'') body))))"
  by pat_completeness auto
termination
  by (relation "measure length") (auto dest!: str_find_shrinks intro: le_less_trans [OF diff_le_self])

declare function_bodies.simps [simp del]

definition function_call :: "text_lib \<Rightarrow> string list \<Rightarrow> string \<times> string \<Rightarrow> (string \<times> json) option" where
  "function_call lib tools = (\<lambda>(name, body).
     if name \<notin> set tools then None
     else map_option (Pair name) (or_else (parse_json lib body) (parse_xml_parameter_blocks lib body)))"

definition push_first :: "text_lib \<Rightarrow> (string \<times> json) option \<Rightarrow> tool_call list \<Rightarrow> tool_call list" where
  "push_first lib found calls = (case found of None \<Rightarrow> calls | Some c \<Rightarrow> push_call lib calls c)"

text \<open>Pattern 4: Markdown code blocks. The state is whether the line is in a block, and the block's text.\<close>

definition fence_body :: "text_lib \<Rightarrow> string list \<Rightarrow> string \<Rightarrow> (string \<times> json) option" where
  "fence_body lib tools block =
     (let body = trim block
      in Option.bind (str_find body ''{'') (\<lambda>brace.
           let name = trim (take brace body)
           in if name \<in> set tools then map_option (Pair name) (parse_json lib (trim (drop brace body))) else None))"

definition fence_line ::
  "text_lib \<Rightarrow> string list \<Rightarrow> string \<Rightarrow> bool \<times> string \<times> tool_call list \<Rightarrow> bool \<times> string \<times> tool_call list" where
  "fence_line lib tools line = (\<lambda>(in_block, block, calls).
     let trimmed = trim line
     in if starts_with trimmed ''```''
        then (if in_block then (False, [], push_some lib (fence_body lib tools block) calls) else (True, [], calls))
        else if in_block then (True, (if block = [] then [] else block @ [newline]) @ trimmed, calls)
        else (in_block, block, calls))"

text \<open>Pattern 5: every second part of the text split at backticks.\<close>

fun every_second :: "'a list \<Rightarrow> 'a list" where
  "every_second (x # y # ys) = y # every_second ys"
| "every_second _ = []"

definition backtick_body :: "text_lib \<Rightarrow> string list \<Rightarrow> string \<Rightarrow> (string \<times> json) option" where
  "backtick_body lib tools chunk =
     (let trimmed = trim chunk
      in Option.bind (str_find trimmed ''{'') (\<lambda>brace.
           let name = trim (take brace trimmed)
           in if name \<noteq> [] \<and> CHR '' '' \<notin> set name \<and> name \<in> set tools
              then map_option (Pair name) (parse_json lib (trim (drop brace trimmed))) else None))"

text \<open>Pattern 11: \<open>Action:\<close> and \<open>Action Input:\<close> on two lines.\<close>

definition action_name :: "string list \<Rightarrow> string \<Rightarrow> string option" where
  "action_name tools line =
     Option.bind (or_else (strip_prefix ''Action:'' (trim line)) (strip_prefix ''action:'' (trim line)))
       (\<lambda>t. if trim t \<in> set tools then Some (trim t) else None)"

definition action_input :: "string \<Rightarrow> string option" where
  "action_input line =
     first_some [strip_prefix ''Action Input:'' (trim line), strip_prefix ''action input:'' (trim line),
       strip_prefix ''action_input:'' (trim line)]"

fun action_calls :: "text_lib \<Rightarrow> string list \<Rightarrow> string list \<Rightarrow> tool_call list \<Rightarrow> tool_call list" where
  "action_calls lib tools [] calls = calls"
| "action_calls lib tools [line] calls = calls"
| "action_calls lib tools (line # after # lines) calls =
     (case action_name tools line of
        None \<Rightarrow> action_calls lib tools (after # lines) calls
      | Some name \<Rightarrow>
          (case action_input after of
             None \<Rightarrow> action_calls lib tools (after # lines) calls
           | Some json_part \<Rightarrow>
               action_calls lib tools lines (push_some lib (map_option (Pair name) (parse_json lib (trim json_part))) calls)))"

text \<open>Pattern 12: a tool's name alone on a line and JSON on the next.\<close>

definition name_line_call :: "text_lib \<Rightarrow> string list \<Rightarrow> string \<times> string \<Rightarrow> (string \<times> json) option" where
  "name_line_call lib tools = (\<lambda>(line, after).
     let name = trim line; json_line = trim after
     in if CHR '' '' \<in> set name \<or> CHR ''{'' \<in> set name \<or> name = [] then None
        else if name \<notin> set tools then None
        else if \<not> starts_with json_line ''{'' then None
        else map_option (Pair name) (parse_json lib json_line))"

text \<open>Pattern 9: the attributes of a tag.\<close>

definition attribute_call :: "text_lib \<Rightarrow> string list \<Rightarrow> string \<times> string \<Rightarrow> (string \<times> json) option" where
  "attribute_call lib tools = (\<lambda>(name, raw).
     if name \<notin> set tools then None else map_option (Pair name) (parse_json lib (unescape_xml_entities raw)))"

text \<open>Pattern 8: every opening brace may start a bare call.\<close>

fun brace_suffixes :: "string \<Rightarrow> string list" where
  "brace_suffixes [] = []"
| "brace_suffixes (c # cs) = (if c = CHR ''{'' then (c # cs) # brace_suffixes cs else brace_suffixes cs)"

text \<open>One pattern: its candidates in order, each parsed and pushed unless it is there already.\<close>

definition pattern :: "text_lib \<Rightarrow> ('a \<Rightarrow> (string \<times> json) option) \<Rightarrow> 'a list \<Rightarrow> tool_call list \<Rightarrow> tool_call list" where
  "pattern lib parse cands calls = fold (\<lambda>x. push_some lib (parse x)) cands calls"

definition later_patterns :: "text_lib \<Rightarrow> string list \<Rightarrow> string \<Rightarrow> tool_call list \<Rightarrow> tool_call list" where
  "later_patterns lib tools s c1 =
     (let object = (\<lambda>inner. parse_json_tool_call_object lib tools (trim inner));
          c2 = pattern lib (named_body lib tools) (tag_bodies ''<function>'' ''</function>'' s) c1;
          c3 = pattern lib (named_body lib tools) (tag_bodies ''<tool>'' ''</tool>'' s) c2;
          c4 = snd (snd (fold (fence_line lib tools) (str_lines s) (False, [], c3)));
          c5 = pattern lib (backtick_body lib tools) (every_second (split_on (CHR 0x60) s)) c4;
          c6 = pattern lib (\<lambda>inner. or_else (object inner) (parse_arrow_syntax_tool_call lib tools (trim inner)))
            (tag_bodies ''[TOOL_CALL]'' ''[/TOOL_CALL]'' s) c5;
          c7 = pattern lib object (tag_bodies ''<tool_call>'' ''</tool_call>'' s) c6;
          c9 = pattern lib (attribute_call lib tools) (attribute_calls lib s) c7;
          c10 = pattern lib object (tag_bodies ''<|plugin|>'' ''<|endofblock|>'' s) c9;
          c11 = action_calls lib tools (str_lines s) c10;
          c12 = pattern lib (name_line_call lib tools) (zip (str_lines s) (tl (str_lines s))) c11
      in pattern lib object (tag_bodies ''<tool_use>'' ''</tool_use>'' s) c12)"

definition recover_text_tool_calls :: "text_lib \<Rightarrow> string \<Rightarrow> tool_definition list \<Rightarrow> tool_call list" where
  "recover_text_tool_calls lib s available_tools =
     (let tools = map tool_name available_tools;
          c1 = fold (\<lambda>x. push_first lib (function_call lib tools x)) (function_bodies s) [];
          c13 = later_patterns lib tools s c1
      in if c13 = [] then pattern lib (try_parse_bare_json_tool_call lib tools) (brace_suffixes s) [] else c13)"

section \<open>Only known tools are recovered\<close>

definition known :: "string list \<Rightarrow> tool_call list \<Rightarrow> bool" where
  "known tools calls = list_all (\<lambda>c. tc_name c \<in> set tools) calls"

definition sound_parser :: "string list \<Rightarrow> ('a \<Rightarrow> (string \<times> json) option) \<Rightarrow> bool" where
  "sound_parser tools parse = (\<forall>x n v. parse x = Some (n, v) \<longrightarrow> n \<in> set tools)"

named_theorems parser_sound \<open>parsers that only return known tools\<close>

lemma known_push_some: "(\<And>n v. found = Some (n, v) \<Longrightarrow> n \<in> set tools) \<Longrightarrow> known tools calls \<Longrightarrow> known tools (push_some lib found calls)"
  by (auto simp: push_some_def push_new_def push_call_def known_def split: option.split prod.split)

lemma known_pattern: "sound_parser tools parse \<Longrightarrow> known tools calls \<Longrightarrow> known tools (pattern lib parse cands calls)"
proof (induction cands arbitrary: calls)
  case (Cons x cands)
  have "known tools (push_some lib (parse x) calls)"
    by (rule known_push_some) (use Cons.prems in \<open>auto simp: sound_parser_def\<close>)
  then show ?case using Cons.IH [OF Cons.prems(1)] by (simp add: pattern_def)
qed (simp add: pattern_def)

lemma named_body_sound [parser_sound]: "sound_parser tools (named_body lib tools)"
  by (auto simp: sound_parser_def named_body_def Let_def bind_eq_Some_conv split: if_splits)

lemma object_sound: "parse_json_tool_call_object lib tools s = Some (n, v) \<Longrightarrow> n \<in> set tools"
  by (auto simp: parse_json_tool_call_object_def Let_def bind_eq_Some_conv split: if_splits)

lemma arrow_sound: "parse_arrow_syntax_tool_call lib tools s = Some (n, v) \<Longrightarrow> n \<in> set tools"
  by (auto simp: parse_arrow_syntax_tool_call_def Let_def bind_eq_Some_conv split: if_splits)

lemma object_parsers_sound [parser_sound]:
  "sound_parser tools (\<lambda>inner. parse_json_tool_call_object lib tools (trim inner))"
  "sound_parser tools (\<lambda>inner. or_else (parse_json_tool_call_object lib tools (trim inner)) (parse_arrow_syntax_tool_call lib tools (trim inner)))"
  "sound_parser tools (try_parse_bare_json_tool_call lib tools)"
  unfolding sound_parser_def try_parse_bare_json_tool_call_def
  by (auto simp: bind_eq_Some_conv dest: object_sound arrow_sound arrow_sound [OF sym] elim!: or_else.elims)

lemma line_parsers_sound [parser_sound]:
  "sound_parser tools (backtick_body lib tools)" "sound_parser tools (attribute_call lib tools)" "sound_parser tools (name_line_call lib tools)"
  by (auto simp: sound_parser_def backtick_body_def attribute_call_def name_line_call_def Let_def bind_eq_Some_conv split: if_splits)

lemma known_fence: "known tools (snd (snd st)) \<Longrightarrow> known tools (snd (snd (fold (fence_line lib tools) lines st)))"
proof (induction lines arbitrary: st)
  case (Cons l ls)
  have "fence_body lib tools b = Some (n, v) \<Longrightarrow> n \<in> set tools" for b n v
    by (auto simp: fence_body_def Let_def bind_eq_Some_conv split: if_splits)
  then have "known tools (snd (snd (fence_line lib tools l st)))"
    using Cons.prems by (auto simp: fence_line_def Let_def intro: known_push_some split: prod.split)
  then show ?case using Cons.IH by simp
qed simp

lemma known_action: "known tools calls \<Longrightarrow> known tools (action_calls lib tools lines calls)"
proof (induction lib tools lines calls rule: action_calls.induct)
  case (3 lib tools line after lines calls)
  have "action_name tools line = Some n \<Longrightarrow> n \<in> set tools" for n
    by (auto simp: action_name_def bind_eq_Some_conv split: if_splits)
  then show ?case using 3 by (auto intro!: known_push_some split: option.split)
qed simp_all

lemma known_function: "known tools calls \<Longrightarrow> known tools (fold (\<lambda>x. push_first lib (function_call lib tools x)) xs calls)"
proof (induction xs arbitrary: calls)
  case (Cons x xs)
  have "known tools (push_first lib (function_call lib tools x) calls)"
    using Cons.prems by (auto simp: push_first_def function_call_def push_call_def known_def split: option.split prod.split if_splits)
  then show ?case using Cons.IH by simp
qed simp

lemma known_later: "known tools calls \<Longrightarrow> known tools (later_patterns lib tools s calls)"
  unfolding later_patterns_def Let_def
  by (intro known_pattern known_action known_fence parser_sound) (simp add: known_pattern parser_sound)

lemma known_recovered: "known (map tool_name tools) (recover_text_tool_calls lib s tools)"
proof -
  have "known (map tool_name tools) []" by (simp add: known_def)
  then show ?thesis
    unfolding recover_text_tool_calls_def Let_def
    by (auto intro!: known_pattern known_later known_function parser_sound)
qed

section \<open>What is recovered stays\<close>

definition keeps :: "(tool_call list \<Rightarrow> tool_call list) \<Rightarrow> bool" where
  "keeps f = (\<forall>calls. \<exists>ds. f calls = calls @ ds)"

lemma keepsD: "keeps f \<Longrightarrow> \<exists>ds. f (c # cs) = c # ds"
  unfolding keeps_def by (metis append_Cons)

lemma keeps_push_some: "keeps (push_some lib found)"
  by (auto simp: keeps_def push_some_def push_new_def push_call_def split: option.split prod.split)

lemma keeps_pattern: "keeps (pattern lib parse cands)"
proof -
  have "\<exists>ds. pattern lib parse cands calls = calls @ ds" for calls
  proof (induction cands arbitrary: calls)
    case (Cons x cands)
    have "\<exists>ds. push_some lib (parse x) calls = calls @ ds" using keeps_push_some by (auto simp: keeps_def)
    then show ?case using Cons.IH [of "push_some lib (parse x) calls"] by (auto simp: pattern_def)
  qed (simp add: pattern_def)
  then show ?thesis by (simp add: keeps_def)
qed

lemma keeps_fence: "keeps (\<lambda>calls. snd (snd (fold (fence_line lib tools) lines (False, [], calls))))"
proof -
  have "\<exists>ds. snd (snd (fold (fence_line lib tools) lines st)) = snd (snd st) @ ds" for st
  proof (induction lines arbitrary: st)
    case (Cons l ls)
    have "\<exists>ds. snd (snd (fence_line lib tools l st)) = snd (snd st) @ ds"
      using keeps_push_some by (auto simp: keeps_def fence_line_def Let_def split: prod.split)
    then show ?case using Cons.IH [of "fence_line lib tools l st"] by auto
  qed simp
  then show ?thesis unfolding keeps_def by (metis snd_conv)
qed

lemma keeps_action: "keeps (action_calls lib tools lines)"
proof -
  have "\<exists>ds. action_calls lib tools lines calls = calls @ ds" for calls
  proof (induction lib tools lines calls rule: action_calls.induct)
    case (3 lib tools line after lines calls)
    have "\<exists>ds. push_some lib found calls = calls @ ds" for found using keeps_push_some by (auto simp: keeps_def)
    then show ?case using 3 by (auto split: option.split) (metis append.assoc)
  qed simp_all
  then show ?thesis by (simp add: keeps_def)
qed

lemma prefix_kept: "keeps f \<Longrightarrow> prefix c calls \<Longrightarrow> prefix c (f calls)"
  by (auto simp: keeps_def prefix_def) (metis append.assoc)

lemma keeps_later: "keeps (later_patterns lib tools s)"
proof -
  have "prefix calls (later_patterns lib tools s calls)" for calls
    unfolding later_patterns_def Let_def
    by (intro prefix_kept [OF keeps_pattern] prefix_kept [OF keeps_action] prefix_kept [OF keeps_fence] prefix_order.refl)
  then show ?thesis by (simp add: keeps_def prefix_def)
qed

lemma first_recovered:
  assumes "fold (\<lambda>x. push_first lib (function_call lib (map tool_name tools) x)) (function_bodies s) [] = c # cs"
  shows "\<exists>ds. recover_text_tool_calls lib s tools = c # ds"
  using keepsD [OF keeps_later [of lib "map tool_name tools" s], of c cs]
  by (auto simp: recover_text_tool_calls_def assms)

lemma function_bodies_one:
  assumes "CHR ''>'' \<notin> set name" "CHR ''<'' \<notin> set body"
  shows "function_bodies (''<function='' @ name @ ''>'' @ body @ ''</function>'') = [(name, trim body)]"
proof -
  have "str_find (name @ ''>'' @ body @ ''</function>'') ''>'' = Some (length name)"
    by (rule str_find_hit [OF assms(1)])
  moreover have "str_find (body @ ''</function>'') ''</function>'' = Some (length body)"
    using str_find_hit [OF assms(2), of "''/function>''" "[]"] by simp
  moreover have "str_find (''<function='' @ r) ''<function='' = Some 0" for r
    by (simp add: starts_with_def)
  moreover have "function_bodies [] = []" by (simp add: function_bodies.simps)
  ultimately show ?thesis by (subst function_bodies.simps) (simp del: str_find.simps)
qed

section \<open>Properties\<close>

text \<open>
  C21: a model cannot name a tool in prose that it was not offered: every call recovered from a text,
  in whichever of the fourteen notations, is for one of the available tools.
\<close>

theorem recovered_calls_known:
  "list_all (\<lambda>c. tc_name c \<in> set (map tool_name tools)) (recover_text_tool_calls lib s tools)"
  using known_recovered unfolding known_def .

text \<open>
  A call written as \<open><function=name>body</function>\<close> is read back: when the name is that of an
  available tool and the body is JSON, the first call recovered has that name and that input.
\<close>

theorem function_syntax_roundtrip:
  assumes "name \<in> set (map tool_name tools)" "CHR ''>'' \<notin> set name" "CHR ''<'' \<notin> set body" "parse_json lib (trim body) = Some v"
  shows "\<exists>cs. recover_text_tool_calls lib (''<function='' @ name @ ''>'' @ body @ ''</function>'') tools
    = \<lparr>tc_id = ''recovered_'' @ fresh_uuid lib 0, tc_name = name, tc_input = v\<rparr> # cs"
proof (rule first_recovered)
  show "fold (\<lambda>x. push_first lib (function_call lib (map tool_name tools) x))
      (function_bodies (''<function='' @ name @ ''>'' @ body @ ''</function>'')) []
    = \<lparr>tc_id = ''recovered_'' @ fresh_uuid lib 0, tc_name = name, tc_input = v\<rparr> # []"
    unfolding function_bodies_one [OF assms(2,3)] using assms(1,4)
    by (simp add: push_first_def function_call_def push_call_def)
qed

definition sample_lib :: text_lib where
  "sample_lib = \<lparr>parse_json = (\<lambda>t. if t = ''{}'' then Some (JObject []) else None), attribute_calls = (\<lambda>_. []),
     parameter_blocks = (\<lambda>_. []), fresh_uuid = show_nat\<rparr>"

theorem function_syntax_roundtrip_witness:
  "\<exists>cs. recover_text_tool_calls sample_lib ''<function=ls>{}</function>'' [\<lparr>tool_name = ''ls'', tool_description = [], input_schema = JNull\<rparr>]
    = \<lparr>tc_id = ''recovered_'' @ fresh_uuid sample_lib 0, tc_name = ''ls'', tc_input = JObject []\<rparr> # cs"
  using function_syntax_roundtrip [of "''ls''" "[\<lparr>tool_name = ''ls'', tool_description = [], input_schema = JNull\<rparr>]" "''{}''" sample_lib "JObject []"]
  by (simp add: sample_lib_def trim_def is_space_def)

text \<open>
  An entity is unescaped twice: \<open>&amp;lt;\<close>, which stands for the text \<open>&lt;\<close>, becomes an angle
  bracket, since ampersands are replaced before brackets.
\<close>

theorem entity_unescaped_twice: "unescape_xml_entities ''&amp;lt;'' = ''<''"
  by code_simp

text \<open>
  A value swallows the next argument: the end of an unquoted value is looked for at the next comma
  or brace anywhere, and at the next \<open>--\<close> only when there is none.
\<close>

theorem value_swallows_argument:
  "parse_dash_dash_args ''{--a 1 --b 2, --c 3}'' = JObject [(''a'', JString ''1 --b 2''), (''c'', JString ''3'')]"
  by code_simp

end
