(* ===== verification/Hooks.thy ===== *)
theory Hooks
  imports StrUtils
begin

text \<open>
  The hooks of the agent loop, from \<open>openfang-runtime/src/hooks.rs\<close>: handlers registered for an
  event, fired in the order of their registration. A handler is a function from its context to an
  error, or none; what else it does is outside the model. \<open>None\<close> is \<open>Ok(())\<close>.
\<close>

datatype hook_event = BeforeToolCall | AfterToolCall | BeforePromptBuild | AgentLoopEnd

record hook_context =
  hc_agent_name :: string
  hc_agent_id :: string
  hc_event :: hook_event
  hc_data :: json

type_synonym hook_handler = "hook_context \<Rightarrow> string option"

type_synonym hook_registry = "(hook_event, hook_handler list) dashmap"

definition new_hooks :: hook_registry where
  "new_hooks = []"

definition register_hook :: "hook_event \<Rightarrow> hook_handler \<Rightarrow> hook_registry \<Rightarrow> hook_registry" where
  "register_hook event handler hooks = dm_insert event (dm_entry hooks event [] @ [handler]) hooks"

fun fire_handlers :: "hook_context \<Rightarrow> hook_handler list \<Rightarrow> string option" where
  "fire_handlers ctx [] = None"
| "fire_handlers ctx (handler # handlers) =
     (case handler ctx of
        Some reason \<Rightarrow> if hc_event ctx = BeforeToolCall then Some reason else fire_handlers ctx handlers
      | None \<Rightarrow> fire_handlers ctx handlers)"

definition fire :: "hook_registry \<Rightarrow> hook_context \<Rightarrow> string option" where
  "fire hooks ctx = (case dm_get hooks (hc_event ctx) of None \<Rightarrow> None | Some handlers \<Rightarrow> fire_handlers ctx handlers)"

definition has_handlers :: "hook_registry \<Rightarrow> hook_event \<Rightarrow> bool" where
  "has_handlers hooks event = (case dm_get hooks event of None \<Rightarrow> False | Some handlers \<Rightarrow> handlers \<noteq> [])"

section \<open>Who can block what\<close>

lemma fire_handlers_observes: "hc_event ctx \<noteq> BeforeToolCall \<Longrightarrow> fire_handlers ctx handlers = None"
  by (induction handlers) (auto split: option.splits)

text \<open>
  The handlers registered for an event, in order, whatever else was registered in between; and
  a tool call is blocked with the reason of the first of them that objects.
\<close>

definition registered :: "(hook_event \<times> hook_handler) list \<Rightarrow> hook_registry" where
  "registered hs = fold (\<lambda>(e, h). register_hook e h) hs new_hooks"

lemma registered_snoc: "registered (hs @ [(e, h)]) = register_hook e h (registered hs)"
  by (simp add: registered_def)

lemma registered_handlers: "dm_entry (registered hs) e [] = map snd (filter (\<lambda>(e', _). e' = e) hs)"
proof (induction hs rule: rev_induct)
  case Nil
  then show ?case by (simp add: registered_def new_hooks_def dm_entry_def)
next
  case (snoc x hs)
  obtain e' h where "x = (e', h)" by (cases x)
  with snoc show ?case by (auto simp: registered_snoc register_hook_def dm_entry_def split: option.splits)
qed

lemma fire_handlers_before:
  "hc_event ctx = BeforeToolCall \<Longrightarrow>
   fire_handlers ctx handlers = (case filter (\<lambda>h. h ctx \<noteq> None) handlers of [] \<Rightarrow> None | h # _ \<Rightarrow> h ctx)"
  by (induction handlers) (auto split: option.splits)

lemma fire_entry: "fire hooks ctx = fire_handlers ctx (dm_entry hooks (hc_event ctx) [])"
  by (simp add: fire_def dm_entry_def split: option.split)

theorem first_objection_blocks:
  "fire (registered hs) ctx =
     (if hc_event ctx = BeforeToolCall
      then (case filter (\<lambda>h. h ctx \<noteq> None) (map snd (filter (\<lambda>(e, _). e = BeforeToolCall) hs)) of
              [] \<Rightarrow> None | h # _ \<Rightarrow> h ctx)
      else None)"
  by (auto simp: fire_entry registered_handlers fire_handlers_before fire_handlers_observes split: list.split)

end
