(* ===== verification/ModelCalls.thy ===== *)
theory ModelCalls
  imports LlmErrors ToolText ContextBudget Cooldown Scheduler Hooks
begin

text \<open>
  Calls of language models: the types of \<open>openfang-runtime/src/llm_driver.rs\<close>, the chain of
  \<open>drivers/fallback.rs\<close>, \<open>call_with_retry\<close> and \<open>stream_with_retry\<close> of \<open>agent_loop.rs\<close>, and the rows
  of \<open>openfang-types/src/usage.rs\<close> that account for them. A driver is a function of the moment it is
  asked and of the request; a moment is the number of events logged so far, so the same request
  can get a different answer each time. What a driver streams itself is not modelled.
\<close>

section \<open>Drivers\<close>

datatype stop_reason = EndTurn | ToolUseStop | MaxTokens | StopSequence

datatype llm_error =
    Http string
  | Api u16 string
  | RateLimited u64
  | Parse string
  | MissingApiKey string
  | OverloadedError u64
  | AuthenticationFailed string
  | ModelNotFoundError string

fun show_llm_error :: "llm_error \<Rightarrow> string" where
  "show_llm_error (Http s) = ''HTTP error: '' @ s"
| "show_llm_error (Api status message) = ''API error ('' @ show_word status @ ''): '' @ message"
| "show_llm_error (RateLimited ms) = ''Rate limited, retry after '' @ show_word ms @ ''ms''"
| "show_llm_error (Parse s) = ''Parse error: '' @ s"
| "show_llm_error (MissingApiKey s) = ''Missing API key: '' @ s"
| "show_llm_error (OverloadedError ms) = ''Model overloaded, retry after '' @ show_word ms @ ''ms''"
| "show_llm_error (AuthenticationFailed s) = ''Authentication failed: '' @ s"
| "show_llm_error (ModelNotFoundError s) = ''Model not found: '' @ s"

record thinking_config =
  budget_tokens :: u32
  stream_thinking :: bool

record completion_request =
  req_model :: string
  req_messages :: "message list"
  req_tools :: "tool_definition list"
  req_max_tokens :: u32
  req_temperature :: f64
  req_system :: "string option"
  req_thinking :: "thinking_config option"

record completion_response =
  resp_content :: "content_block list"
  stop_reason :: stop_reason
  resp_tool_calls :: "tool_call list"
  resp_usage :: token_usage

fun shown_text :: "content_block \<Rightarrow> string" where
  "shown_text (ContentText t _) = t"
| "shown_text _ = []"

definition response_text :: "completion_response \<Rightarrow> string" where
  "response_text r = concat (map shown_text (resp_content r))"

fun has_content :: "content_block \<Rightarrow> bool" where
  "has_content (ContentText t _) = (t \<noteq> [])"
| "has_content (Thinking t _ _) = (t \<noteq> [])"
| "has_content (RedactedThinking d) = (d \<noteq> [])"
| "has_content (ToolUse _ _ _ _) = True"
| "has_content (Image _ _) = True"
| "has_content _ = False"

definition has_any_content :: "completion_response \<Rightarrow> bool" where
  "has_any_content r = list_ex has_content (resp_content r)"

record call_report =
  substituted :: "string option"
  report_provider :: "string option"
  report_reason :: "string option"

definition no_report :: call_report where
  "no_report = \<lparr>substituted = None, report_provider = None, report_reason = None\<rparr>"

type_synonym answer = "llm_error + completion_response \<times> call_report"

record driver =
  complete_reported :: "nat \<Rightarrow> completion_request \<Rightarrow> answer"
  stream_reported :: "nat \<Rightarrow> completion_request \<Rightarrow> answer"

record driver_config =
  dc_provider :: string
  dc_api_key :: "string option"
  dc_base_url :: "string option"
  dc_skip_permissions :: bool
  dc_subprocess_timeout_secs :: "u64 option"

section \<open>A chain of drivers\<close>

record fallback_target =
  ft_driver :: driver
  ft_model :: string
  ft_model_id :: string
  ft_provider :: string

definition accounting_model :: "fallback_target \<Rightarrow> string" where
  "accounting_model t = (if ft_model_id t = [] then ft_model t else ft_model_id t)"

definition some_name :: "string \<Rightarrow> string option" where
  "some_name s = (if s = [] then None else Some s)"

definition report_for :: "nat \<Rightarrow> fallback_target \<Rightarrow> call_report \<Rightarrow> string option \<Rightarrow> call_report" where
  "report_for i t inner first_error =
     (if substituted inner \<noteq> None
      then inner\<lparr>report_provider := or_else (report_provider inner) (some_name (ft_provider t))\<rparr>
      else if i = 0 then no_report
      else \<lparr>substituted = Some (accounting_model t), report_provider = some_name (ft_provider t),
            report_reason = first_error\<rparr>)"

definition exhausted :: "llm_error option \<Rightarrow> llm_error" where
  "exhausted last_error =
     (case last_error of Some e \<Rightarrow> e | None \<Rightarrow> Api 0 ''No drivers configured in fallback chain'')"

definition wire_request :: "fallback_target \<Rightarrow> completion_request \<Rightarrow> completion_request" where
  "wire_request t req = (if ft_model t = [] then req else req\<lparr>req_model := ft_model t\<rparr>)"

text \<open>The loop over the targets; \<open>call\<close> is \<open>complete_reported\<close> or \<open>stream_reported\<close>.\<close>

fun chain_loop ::
  "(string \<Rightarrow> json option) \<Rightarrow> (driver \<Rightarrow> completion_request \<Rightarrow> answer) \<Rightarrow> completion_request \<Rightarrow>
   nat \<Rightarrow> fallback_target list \<Rightarrow> string option \<Rightarrow> llm_error option \<Rightarrow> answer" where
  "chain_loop parse call req i [] first_error last_error = Inl (exhausted last_error)"
| "chain_loop parse call req i (t # ts) first_error last_error =
     (case call (ft_driver t) (wire_request t req) of
        Inr (response, inner) \<Rightarrow> Inr (response, report_for i t inner first_error)
      | Inl e \<Rightarrow>
          chain_loop parse call req (i + 1) ts
            (if i = 0 then Some (sanitized_message (classify_error parse (show_llm_error e) None)) else first_error)
            (Some e))"

definition fallback_driver :: "(string \<Rightarrow> json option) \<Rightarrow> fallback_target list \<Rightarrow> driver" where
  "fallback_driver parse ts =
     \<lparr>complete_reported = (\<lambda>n req. chain_loop parse (\<lambda>d. complete_reported d n) req 0 ts None None),
      stream_reported = (\<lambda>n req. chain_loop parse (\<lambda>d. stream_reported d n) req 0 ts None None)\<rparr>"

section \<open>Events of a turn\<close>

datatype loop_phase = PhaseThinking | PhaseToolUse string | PhaseStreaming | PhaseDone | PhaseError

datatype stream_event =
    TextDelta string
  | ToolUseStart string string
  | ToolInputDelta string
  | ToolUseEnd string string json
  | ThinkingDelta string
  | ContentComplete stop_reason token_usage
  | CallReported u32 string string "string option" "string option" token_usage
  | PhaseChange string "string option"
  | ToolExecutionResult string string string bool

text \<open>What a turn does to the world, in order.\<close>

datatype loop_event =
    Phase loop_phase
  | Touched string
  | Asked completion_request
  | AskedFallback string completion_request
  | Slept u64
  | Fired hook_context
  | Saved "message list"
  | Remembered string
  | Executed string json
  | Streamed stream_event

record call_env =
  ce_driver :: driver
  ce_create_driver :: "driver_config \<Rightarrow> driver option"
  ce_env_var :: "string \<Rightarrow> string option"
  ce_parse_json :: "string \<Rightarrow> json option"
  ce_clock :: "nat \<Rightarrow> instant"
  ce_streaming :: bool

record call_state =
  cs_events :: "loop_event list"
  cs_cooldown :: "provider_cooldown option"

definition emit :: "loop_event \<Rightarrow> 'a call_state_scheme \<Rightarrow> 'a call_state_scheme" where
  "emit e st = st\<lparr>cs_events := cs_events st @ [e]\<rparr>"

definition moment :: "'a call_state_scheme \<Rightarrow> nat" where
  "moment st = length (cs_events st)"

section \<open>Calling a model\<close>

definition MAX_RETRIES :: u32 where "MAX_RETRIES = 3"

definition BASE_RETRY_DELAY_MS :: u64 where "BASE_RETRY_DELAY_MS = 1000"

definition on_cooldown ::
  "(provider_cooldown \<Rightarrow> string \<Rightarrow> provider_cooldown) \<Rightarrow> string option \<Rightarrow> 'a call_state_scheme \<Rightarrow> 'a call_state_scheme" where
  "on_cooldown f prov st =
     (case (prov, cs_cooldown st) of
        (Some p, Some cb) \<Rightarrow> st\<lparr>cs_cooldown := Some (f cb p)\<rparr>
      | _ \<Rightarrow> st)"

definition ask ::
  "call_env \<Rightarrow> loop_event \<Rightarrow> driver \<Rightarrow> completion_request \<Rightarrow> 'a call_state_scheme \<Rightarrow> answer \<times> 'a call_state_scheme" where
  "ask env e d req st =
     ((if ce_streaming env then stream_reported d else complete_reported d) (moment st) req, emit e st)"

definition fallback_config :: "call_env \<Rightarrow> fallback_model \<Rightarrow> driver_config" where
  "fallback_config env fb = \<lparr>dc_provider = fb_provider fb,
     dc_api_key = Option.bind (fb_api_key_env fb) (ce_env_var env), dc_base_url = fb_base_url fb,
     dc_skip_permissions = True, dc_subprocess_timeout_secs = None\<rparr>"

fun try_fallbacks ::
  "call_env \<Rightarrow> string \<Rightarrow> completion_request \<Rightarrow> fallback_model list \<Rightarrow> 'a call_state_scheme \<Rightarrow>
   (completion_response \<times> call_report) option \<times> 'a call_state_scheme" where
  "try_fallbacks env reason req [] st = (None, st)"
| "try_fallbacks env reason req (fb # fbs) st =
     (case ce_create_driver env (fallback_config env fb) of
        None \<Rightarrow> try_fallbacks env reason req fbs st
      | Some d \<Rightarrow>
          let fb_request = req\<lparr>req_model := strip_provider_prefix (fb_model fb) (fb_provider fb)\<rparr>
          in (case ask env (AskedFallback (fb_provider fb) fb_request) d fb_request st of
                (Inr (response, _), st1) \<Rightarrow>
                  (Some (response, \<lparr>substituted = Some (fb_model fb), report_provider = Some (fb_provider fb),
                                   report_reason = Some reason\<rparr>), st1)
              | (Inl _, st1) \<Rightarrow> try_fallbacks env reason req fbs st1))"

definition failure_text :: "classified_error \<Rightarrow> string \<Rightarrow> string" where
  "failure_text classified raw_error =
     (if err_category classified = Format
      then sanitized_message classified @ '' '' @ em_dash @ '' raw: '' @ raw_error
      else sanitized_message classified)"

text \<open>The errors that are tried again, with their name in the final error and the provider's hint.\<close>

fun retry_hint :: "llm_error \<Rightarrow> (string \<times> string \<times> u64) option" where
  "retry_hint (RateLimited ms) = Some (''Rate limited'', ''Rate limited'', ms)"
| "retry_hint (OverloadedError ms) = Some (''Model overloaded'', ''Overloaded'', ms)"
| "retry_hint _ = None"

fun api_status :: "llm_error \<Rightarrow> u16 option" where
  "api_status (Api status _) = Some status"
| "api_status _ = None"

definition failed_call ::
  "call_env \<Rightarrow> string option \<Rightarrow> completion_request \<Rightarrow> fallback_model list \<Rightarrow> llm_error \<Rightarrow> 'a call_state_scheme \<Rightarrow>
   (string + completion_response \<times> call_report) \<times> 'a call_state_scheme" where
  "failed_call env prov req fbs e st =
     (let raw_error = show_llm_error e;
          classified = classify_error (ce_parse_json env) raw_error (api_status e);
          st1 = on_cooldown (\<lambda>cb p. Cooldown.record_failure (ce_clock env (moment st)) cb p (classified_error.is_billing classified)) prov st
      in if err_category classified = ModelNotFound \<and> fbs \<noteq> []
         then (case try_fallbacks env (sanitized_message classified) req fbs st1 of
                 (Some ok, st2) \<Rightarrow> (Inr ok, st2)
               | (None, st2) \<Rightarrow> (Inl (failure_text classified raw_error), st2))
         else (Inl (failure_text classified raw_error), st1))"

text \<open>The rounds left, the number of the round, and the last error that was tried again.\<close>

fun call_attempts ::
  "call_env \<Rightarrow> string option \<Rightarrow> completion_request \<Rightarrow> fallback_model list \<Rightarrow> nat \<Rightarrow> nat \<Rightarrow> string option \<Rightarrow>
   'a call_state_scheme \<Rightarrow> (string + completion_response \<times> call_report) \<times> 'a call_state_scheme" where
  "call_attempts env prov req fbs 0 attempt last_error st =
     (Inl (case last_error of Some e \<Rightarrow> e | None \<Rightarrow> ''Unknown error''), st)"
| "call_attempts env prov req fbs (Suc left) attempt last_error st =
     (case ask env (Asked req) (ce_driver env) req st of
        (Inr ok, st1) \<Rightarrow> (Inr ok, on_cooldown Cooldown.record_success prov st1)
      | (Inl e, st1) \<Rightarrow>
          (case retry_hint e of
             None \<Rightarrow> failed_call env prov req fbs e st1
           | Some (final, short, retry_after_ms) \<Rightarrow>
               if attempt = unat MAX_RETRIES
               then (Inl (final @ '' after '' @ show_word MAX_RETRIES @ '' retries''),
                     on_cooldown (\<lambda>cb p. Cooldown.record_failure (ce_clock env (moment st1)) cb p False) prov st1)
               else call_attempts env prov req fbs left (attempt + 1) (Some short)
                      (emit (Slept (max retry_after_ms (BASE_RETRY_DELAY_MS * 2 ^ attempt))) st1)))"

definition call_with_retry ::
  "call_env \<Rightarrow> completion_request \<Rightarrow> string option \<Rightarrow> fallback_model list \<Rightarrow> 'a call_state_scheme \<Rightarrow>
   (string + completion_response \<times> call_report) \<times> 'a call_state_scheme" where
  "call_with_retry env req prov fbs st =
     (let attempts = call_attempts env prov req fbs (unat MAX_RETRIES + 1) 0 None
      in case (prov, cs_cooldown st) of
           (Some p, Some cb) \<Rightarrow>
             (case Cooldown.check (ce_clock env (moment st)) cb p of
                Cooldown.Reject reason retry_after_secs \<Rightarrow>
                  (Inl (''Provider '' @ [CHR 0x27] @ p @ [CHR 0x27] @ '' is in cooldown ('' @ reason @ ''). Retry in ''
                     @ show_word retry_after_secs @ ''s.''), st)
              | _ \<Rightarrow> attempts st)
         | _ \<Rightarrow> attempts st)"

text \<open>\<open>stream_with_retry\<close> is the same function with the driver's streaming method.\<close>

definition stream_with_retry ::
  "call_env \<Rightarrow> completion_request \<Rightarrow> string option \<Rightarrow> fallback_model list \<Rightarrow> 'a call_state_scheme \<Rightarrow>
   (string + completion_response \<times> call_report) \<times> 'a call_state_scheme" where
  "stream_with_retry env = call_with_retry (env\<lparr>ce_streaming := True\<rparr>)"

section \<open>Accounting\<close>

record llm_call =
  lc_n :: u32
  lc_provider :: string
  lc_model :: string
  lc_requested :: "string option"
  lc_reason :: "string option"
  lc_input_tokens :: u64
  lc_output_tokens :: u64
  lc_tool_calls :: u32
  lc_cost_usd :: f64

definition record_call :: "u32 \<Rightarrow> model_config \<Rightarrow> call_report \<Rightarrow> token_usage \<Rightarrow> llm_call list \<Rightarrow> llm_call list" where
  "record_call iteration model report tokens calls = calls @ [\<lparr>
     lc_n = iteration,
     lc_provider = (case report_provider report of Some p \<Rightarrow> p | None \<Rightarrow> model_provider model),
     lc_model = (case substituted report of Some m \<Rightarrow> m | None \<Rightarrow> model_name model),
     lc_requested = map_option (\<lambda>_. model_name model) (substituted report),
     lc_reason = report_reason report,
     lc_input_tokens = input_tokens tokens, lc_output_tokens = output_tokens tokens,
     lc_tool_calls = 0, lc_cost_usd = Finite 0\<rparr>]"

definition set_last_tool_calls :: "llm_call list \<Rightarrow> nat \<Rightarrow> llm_call list" where
  "set_last_tool_calls calls n =
     (if calls = [] then [] else butlast calls @ [(List.last calls)\<lparr>lc_tool_calls := of_nat n\<rparr>])"

definition call_substituted :: "llm_call \<Rightarrow> bool" where
  "call_substituted c = (lc_requested c \<noteq> None)"

record fallback_summary =
  fs_used :: bool
  fs_calls :: u32
  fs_of :: u32
  fs_requested :: string
  fs_served_by :: "string list"
  fs_reason :: string

definition summarise_fallback :: "llm_call list \<Rightarrow> fallback_summary option" where
  "summarise_fallback calls =
     Option.bind (find call_substituted calls) (\<lambda>c.
       let subs = filter call_substituted calls
       in Some \<lparr>fs_used = True, fs_calls = of_nat (length subs), fs_of = of_nat (length calls),
            fs_requested = (case lc_requested c of Some r \<Rightarrow> r | None \<Rightarrow> []),
            fs_served_by = fold (\<lambda>c served. if lc_model c \<in> set served then served else served @ [lc_model c]) subs [],
            fs_reason = (case lc_reason c of Some r \<Rightarrow> r | None \<Rightarrow> [])\<rparr>)"

definition last_served :: "llm_call list \<Rightarrow> (string \<times> string) option" where
  "last_served calls =
     (if calls = [] then None else Some (lc_provider (List.last calls), lc_model (List.last calls)))"


section \<open>A chain asks its drivers in order\<close>

text \<open>What the targets answer, in order, and the error each gives.\<close>

definition target_answers :: "(driver \<Rightarrow> completion_request \<Rightarrow> answer) \<Rightarrow> completion_request \<Rightarrow> fallback_target list \<Rightarrow> answer list" where
  "target_answers call req ts = map (\<lambda>t. call (ft_driver t) (wire_request t req)) ts"

definition failed :: "answer \<Rightarrow> bool" where
  "failed a = (case a of Inl _ \<Rightarrow> True | Inr _ \<Rightarrow> False)"

lemma chain_all_fail:
  "list_all failed (target_answers call req ts) \<Longrightarrow>
   chain_loop parse call req i ts fe le =
     Inl (if ts = [] then exhausted le else projl (List.last (target_answers call req ts)))"
proof (induction ts arbitrary: i fe le)
  case (Cons t ts)
  then obtain e where e: "call (ft_driver t) (wire_request t req) = Inl e"
    by (auto simp: target_answers_def failed_def split: sum.splits)
  show ?case using Cons by (auto simp: target_answers_def e exhausted_def last_map)
qed (simp add: target_answers_def)

lemma chain_first_ok:
  assumes "k < length ts" "target_answers call req ts ! k = Inr (response, inner)"
    and "\<forall>j<k. failed (target_answers call req ts ! j)"
  shows "\<exists>fe'. chain_loop parse call req i ts fe le = Inr (response, report_for (i + k) (ts ! k) inner fe')
    \<and> (k = 0 \<longrightarrow> fe' = fe)
    \<and> (i = 0 \<and> k \<noteq> 0 \<longrightarrow> fe' = Some (sanitized_message (classify_error parse
         (show_llm_error (projl (target_answers call req ts ! 0))) None)))
    \<and> (i \<noteq> 0 \<longrightarrow> fe' = fe)"
  using assms
proof (induction ts arbitrary: k i fe le)
  case (Cons t ts)
  show ?case
  proof (cases k)
    case 0
    then show ?thesis using Cons.prems by (simp add: target_answers_def)
  next
    case (Suc k')
    have "failed (target_answers call req (t # ts) ! 0)" using Cons.prems(3) Suc by blast
    then obtain e where e: "call (ft_driver t) (wire_request t req) = Inl e"
      by (auto simp: target_answers_def failed_def split: sum.splits)
    have "\<forall>j<k'. failed (target_answers call req ts ! j)"
    proof (intro allI impI)
      fix j assume "j < k'"
      then show "failed (target_answers call req ts ! j)"
        using Cons.prems(3) Suc by (auto simp: target_answers_def dest: spec [of _ "Suc j"])
    qed
    then obtain fe' where fe': "chain_loop parse call req (i + 1) ts
        (if i = 0 then Some (sanitized_message (classify_error parse (show_llm_error e) None)) else fe) (Some e)
        = Inr (response, report_for (i + 1 + k') (ts ! k') inner fe')"
      "fe' = (if i = 0 then Some (sanitized_message (classify_error parse (show_llm_error e) None)) else fe)"
      using Cons.IH [of k' "i + 1"] Cons.prems Suc by (fastforce simp: target_answers_def)
    then show ?thesis using Suc by (auto simp: e target_answers_def)
  qed
qed simp

text \<open>
  C20: a chain answers with the first of its drivers that does, and names the substitute unless it was
  the primary; it fails only when every driver fails, with the last one's error. The reason it
  gives for a substitution is the sanitised error of the primary, never the raw one.
\<close>

theorem chain_answers_first:
  assumes "k < length ts" "target_answers (\<lambda>d. complete_reported d n) req ts ! k = Inr (response, no_report)"
    and "\<forall>j<k. failed (target_answers (\<lambda>d. complete_reported d n) req ts ! j)"
  shows "complete_reported (fallback_driver parse ts) n req = Inr (response,
    if k = 0 then no_report
    else \<lparr>substituted = Some (accounting_model (ts ! k)), report_provider = some_name (ft_provider (ts ! k)),
          report_reason = Some (sanitized_message (classify_error parse
            (show_llm_error (projl (target_answers (\<lambda>d. complete_reported d n) req ts ! 0))) None))\<rparr>)"
  using chain_first_ok [OF assms, of parse 0 None None]
  by (auto simp: fallback_driver_def report_for_def no_report_def)

theorem chain_answers_first_witness:
  "complete_reported (fallback_driver (\<lambda>_. None)
     [\<lparr>ft_driver = \<lparr>complete_reported = (\<lambda>_ _. Inl (MissingApiKey ''K'')), stream_reported = (\<lambda>_ _. Inl (MissingApiKey ''K''))\<rparr>,
       ft_model = [], ft_model_id = [], ft_provider = []\<rparr>,
      \<lparr>ft_driver = \<lparr>complete_reported = (\<lambda>_ req. Inr (\<lparr>resp_content = [], stop_reason = EndTurn, resp_tool_calls = [],
           resp_usage = \<lparr>input_tokens = 1, output_tokens = 1\<rparr>\<rparr>, no_report)), stream_reported = (\<lambda>_ _. Inl (MissingApiKey ''K''))\<rparr>,
       ft_model = ''small'', ft_model_id = ''local/small'', ft_provider = ''local''\<rparr>]) 0
     \<lparr>req_model = ''big'', req_messages = [], req_tools = [], req_max_tokens = 10, req_temperature = Finite 0,
      req_system = None, req_thinking = None\<rparr>
   = Inr (\<lparr>resp_content = [], stop_reason = EndTurn, resp_tool_calls = [],
           resp_usage = \<lparr>input_tokens = 1, output_tokens = 1\<rparr>\<rparr>,
       \<lparr>substituted = Some ''local/small'', report_provider = Some ''local'',
        report_reason = Some (sanitized_message (classify_error (\<lambda>_. None) ''Missing API key: K'' None))\<rparr>)"
  by (subst chain_answers_first [where k = 1])
    (auto simp: target_answers_def failed_def accounting_model_def some_name_def)

theorem chain_fails_last:
  assumes "list_all failed (target_answers (\<lambda>d. complete_reported d n) req ts)" "ts \<noteq> []"
  shows "complete_reported (fallback_driver parse ts) n req
    = Inl (projl (List.last (target_answers (\<lambda>d. complete_reported d n) req ts)))"
  using chain_all_fail [OF assms(1)] assms(2) by (simp add: fallback_driver_def)

section \<open>A call asks at most four times\<close>

fun is_asked :: "loop_event \<Rightarrow> bool" where
  "is_asked (Asked _) = True"
| "is_asked _ = False"

fun is_fallback :: "loop_event \<Rightarrow> bool" where
  "is_fallback (AskedFallback _ _) = True"
| "is_fallback _ = False"

fun is_slept :: "loop_event \<Rightarrow> bool" where
  "is_slept (Slept _) = True"
| "is_slept _ = False"

text \<open>
  What a call adds to the events: at most \<open>n\<close> requests to the driver with a wait between two of
  them, and at most \<open>m\<close> requests to fallbacks.
\<close>

definition call_events :: "nat \<Rightarrow> nat \<Rightarrow> loop_event list \<Rightarrow> bool" where
  "call_events n m es \<longleftrightarrow>
     list_all (\<lambda>e. is_asked e \<or> is_fallback e \<or> is_slept e) es
     \<and> length (filter is_asked es) \<le> n
     \<and> length (filter is_fallback es) \<le> m
     \<and> (0 < n \<longrightarrow> length (filter is_slept es) < length (filter is_asked es))"

definition adds :: "(loop_event list \<Rightarrow> bool) \<Rightarrow> 'a call_state_scheme \<Rightarrow> 'a call_state_scheme \<Rightarrow> bool" where
  "adds P st st' \<longleftrightarrow> (\<exists>es. cs_events st' = cs_events st @ es \<and> P es) \<and> call_state.more st' = call_state.more st"

lemma events_on_cooldown [simp]: "cs_events (on_cooldown f prov st) = cs_events st"
  by (auto simp: on_cooldown_def split: option.split)

lemma events_emit [simp]: "cs_events (emit e st) = cs_events st @ [e]"
  by (simp add: emit_def)

lemma more_on_cooldown [simp]: "call_state.more (on_cooldown f prov st) = call_state.more st"
  by (auto simp: on_cooldown_def split: option.split)

lemma more_emit [simp]: "call_state.more (emit e st) = call_state.more st"
  by (simp add: emit_def)

lemma fallbacks_add:
  "try_fallbacks env reason req fbs st = (r, st') \<Longrightarrow>
   adds (\<lambda>es. list_all is_fallback es \<and> length es \<le> length fbs) st st'"
proof (induction fbs arbitrary: st)
  case (Cons fb fbs)
  show ?case
  proof (cases "ce_create_driver env (fallback_config env fb)")
    case None
    then show ?thesis using Cons by (fastforce simp: adds_def)
  next
    case (Some d)
    let ?req = "req\<lparr>req_model := strip_provider_prefix (fb_model fb) (fb_provider fb)\<rparr>"
    let ?e = "AskedFallback (fb_provider fb) ?req"
    show ?thesis
    proof (cases "fst (ask env ?e d ?req st)")
      case (Inr ok)
      then show ?thesis using Cons.prems Some
        by (auto simp: ask_def adds_def split: prod.splits)
    next
      case (Inl e)
      then have "try_fallbacks env reason req fbs (emit ?e st) = (r, st')"
        using Cons.prems Some by (auto simp: ask_def Let_def split: prod.splits)
      from Cons.IH [OF this] show ?thesis by (fastforce simp: adds_def)
    qed
  qed
qed (auto simp: adds_def)

lemma failed_call_adds:
  "failed_call env prov req fbs e st = (r, st') \<Longrightarrow>
   adds (\<lambda>es. list_all is_fallback es \<and> length es \<le> length fbs) st st'"
  by (auto simp: failed_call_def Let_def split: if_splits prod.splits option.splits)
    (auto simp: adds_def dest!: fallbacks_add)

lemma only_fallbacks:
  "list_all is_fallback es \<Longrightarrow> filter is_asked es = [] \<and> filter is_slept es = [] \<and> filter is_fallback es = es"
proof (induction es)
  case (Cons e es)
  then show ?case by (cases e) auto
qed simp

lemma call_attempts_add:
  "call_attempts env prov req fbs left attempt le st = (r, st') \<Longrightarrow> attempt + left = 4 \<Longrightarrow>
   adds (call_events left (length fbs)) st st'"
proof (induction left arbitrary: attempt le st)
  case 0
  then show ?case by (auto simp: adds_def call_events_def)
next
  case (Suc left)
  let ?st1 = "emit (Asked req) st"
  consider (ok) ok where "ask env (Asked req) (ce_driver env) req st = (Inr ok, ?st1)"
    | (error) e where "ask env (Asked req) (ce_driver env) req st = (Inl e, ?st1)"
    by (metis ask_def sum.exhaust)
  then show ?case
  proof cases
    case ok
    then show ?thesis using Suc.prems by (auto simp: adds_def call_events_def)
  next
    case error
    show ?thesis
    proof (cases "retry_hint e")
      case None
      then have "failed_call env prov req fbs e ?st1 = (r, st')" using Suc.prems error by simp
      from failed_call_adds [OF this] obtain es where
        "cs_events st' = cs_events st @ Asked req # es" "list_all is_fallback es" "length es \<le> length fbs"
        "call_state.more st' = call_state.more st"
        by (auto simp: adds_def)
      then show ?thesis
        by (auto simp: adds_def call_events_def only_fallbacks list_all_iff)
    next
      case (Some h)
      obtain final short ms where h: "h = (final, short, ms)" by (cases h)
      show ?thesis
      proof (cases "attempt = unat MAX_RETRIES")
        case True
        then show ?thesis using Suc.prems error Some h by (auto simp: adds_def call_events_def)
      next
        case False
        let ?st2 = "emit (Slept (max ms (BASE_RETRY_DELAY_MS * 2 ^ attempt))) ?st1"
        have "call_attempts env prov req fbs left (attempt + 1) (Some short) ?st2 = (r, st')"
          using Suc.prems error Some h False by simp
        from Suc.IH [OF this] Suc.prems(2) obtain es where es:
          "cs_events st' = cs_events ?st2 @ es" "call_events left (length fbs) es"
          "call_state.more st' = call_state.more ?st2"
          by (auto simp: adds_def)
        have "left \<noteq> 0" using False Suc.prems(2) by (auto simp: MAX_RETRIES_def)
        with es show ?thesis by (auto simp: adds_def call_events_def)
      qed
    qed
  qed
qed

lemma call_without_breaker:
  "cs_cooldown st = None \<Longrightarrow> call_with_retry env req prov fbs st = call_attempts env prov req fbs 4 0 None st"
  by (simp add: call_with_retry_def MAX_RETRIES_def Let_def split: option.split)

text \<open>Without a breaker, a call changes the events and nothing else.\<close>

lemma no_cooldown [simp]: "cs_cooldown st = None \<Longrightarrow> on_cooldown f prov st = st"
  by (simp add: on_cooldown_def split: option.split)

lemma cooldown_emit [simp]: "cs_cooldown (emit e st) = cs_cooldown st"
  by (simp add: emit_def)

lemma fallbacks_cooldown:
  "try_fallbacks env reason req fbs st = (r, st') \<Longrightarrow> cs_cooldown st' = cs_cooldown st"
  by (induction fbs arbitrary: st) (fastforce simp: ask_def Let_def split: option.splits sum.splits prod.splits)+

lemma failed_call_cooldown:
  "failed_call env prov req fbs e st = (r, st') \<Longrightarrow> cs_cooldown st = None \<Longrightarrow> cs_cooldown st' = None"
  by (auto simp: failed_call_def Let_def dest!: fallbacks_cooldown split: if_splits prod.splits option.splits)

lemma attempts_cooldown:
  "call_attempts env prov req fbs left attempt le st = (r, st') \<Longrightarrow> cs_cooldown st = None \<Longrightarrow> cs_cooldown st' = None"
proof (induction left arbitrary: attempt le st)
  case (Suc left)
  have n: "cs_cooldown (emit (Asked req) st) = None" using Suc.prems(2) by simp
  show ?case
  proof (cases "fst (ask env (Asked req) (ce_driver env) req st)")
    case (Inr ok)
    then show ?thesis using Suc.prems n by (auto simp: ask_def split: sum.splits)
  next
    case (Inl e)
    then have a: "ask env (Asked req) (ce_driver env) req st = (Inl e, emit (Asked req) st)"
      by (simp add: ask_def)
    show ?thesis
    proof (cases "retry_hint e")
      case None
      then show ?thesis using Suc.prems(1) a failed_call_cooldown [OF _ n] by simp
    next
      case (Some h)
      then show ?thesis using Suc.prems(1) a n Suc.IH by (cases h) (auto split: if_splits)
    qed
  qed
qed simp

lemma call_adds:
  "call_with_retry env req prov fbs st = (r, st') \<Longrightarrow> cs_cooldown st = None \<Longrightarrow> adds (call_events 4 (length fbs)) st st'"
  using call_attempts_add [of env prov req fbs 4 0 None st r st'] by (simp add: call_without_breaker)

text \<open>
  One call of a model asks its driver between one and four times, waits only between two requests,
  and asks each fallback at most once.
\<close>

theorem call_is_bounded:
  assumes "call_with_retry env req prov fbs st = (r, st')" and "cs_cooldown st = None"
  shows "\<exists>es. cs_events st' = cs_events st @ es \<and> call_events 4 (length fbs) es"
  using call_adds [OF assms] by (simp add: adds_def)

lemma call_only_emits:
  assumes "call_with_retry env req prov fbs st = (r, st')" "cs_cooldown st = None"
  obtains es where "st' = st\<lparr>cs_events := cs_events st @ es\<rparr>" "call_events 4 (length fbs) es"
proof -
  have "cs_cooldown st' = None"
    using assms attempts_cooldown by (metis call_without_breaker)
  with call_adds [OF assms] assms(2) have "\<exists>es. st' = st\<lparr>cs_events := cs_events st @ es\<rparr> \<and> call_events 4 (length fbs) es"
    by (cases st; cases st') (auto simp: adds_def)
  then show thesis using that by blast
qed

text \<open>A provider that is busy fewer times than there are rounds is answered for in the end.\<close>

fun busy_then :: "nat \<Rightarrow> answer \<Rightarrow> nat \<Rightarrow> completion_request \<Rightarrow> answer" where
  "busy_then k a n req = (if n < 2 * k then Inl (OverloadedError 0) else a)"

lemma moment_emit [simp]: "moment (emit e st) = Suc (moment st)"
  by (simp add: moment_def)

lemma attempts_outlast_busy:
  assumes "complete_reported (ce_driver env) = busy_then k (Inr ok)" "\<not> ce_streaming env"
    and "moment st = 2 * attempt" "attempt \<le> k" "k < attempt + left" "attempt + left = 4"
  shows "fst (call_attempts env prov req fbs left attempt le st) = Inr ok"
  using assms(3-)
proof (induction left arbitrary: attempt le st)
  case (Suc left)
  show ?case
  proof (cases "attempt = k")
    case True
    then show ?thesis using Suc.prems assms(1,2) by (simp add: ask_def)
  next
    case False
    then have "attempt \<noteq> unat MAX_RETRIES" using Suc.prems by (auto simp: MAX_RETRIES_def)
    then show ?thesis using Suc False assms(1,2) by (simp add: ask_def)
  qed
qed simp

theorem busy_provider_is_outlasted:
  assumes "complete_reported (ce_driver env) = busy_then k (Inr ok)" "\<not> ce_streaming env" "k \<le> 3"
    and "cs_cooldown st = None" "cs_events st = []"
  shows "fst (call_with_retry env req prov fbs st) = Inr ok"
  using attempts_outlast_busy [OF assms(1,2), of st 0 4 prov req fbs None] assms(3-)
  by (simp add: call_without_breaker moment_def)

section \<open>What users see of an error\<close>

text \<open>
  The classifier sanitises what users see, and a comment of the fallback chain relies on it; but
  the text of an error of the category \<open>Format\<close> has the raw error appended, with any key in it.
\<close>

theorem format_error_shows_raw:
  "err_category (classify_error parse raw status) = Format \<Longrightarrow>
   \<exists>safe. failure_text (classify_error parse raw status) raw = safe @ raw"
  by (auto simp: failure_text_def)

section \<open>The rollup of substitutions\<close>

lemma served_by_fold:
  "set (fold (\<lambda>c served. if lc_model c \<in> set served then served else served @ [lc_model c]) cs acc)
     = set acc \<union> lc_model ` set cs
   \<and> (distinct acc \<longrightarrow>
      distinct (fold (\<lambda>c served. if lc_model c \<in> set served then served else served @ [lc_model c]) cs acc))"
  by (induction cs arbitrary: acc) auto

text \<open>
  A turn has a rollup exactly when some call was served by a substitute; it then names each
  model that served such a call once, and no other.
\<close>

theorem rollup_names_substitutes:
  "(case summarise_fallback calls of
      None \<Rightarrow> \<forall>c\<in>set calls. \<not> call_substituted c
    | Some s \<Rightarrow> set (fs_served_by s) = lc_model ` {c \<in> set calls. call_substituted c}
        \<and> distinct (fs_served_by s) \<and> fs_served_by s \<noteq> []
        \<and> fs_calls s = of_nat (length (filter call_substituted calls)) \<and> fs_of s = of_nat (length calls))"
proof (cases "find call_substituted calls")
  case None
  then show ?thesis using None [unfolded find_None_iff] by (simp add: summarise_fallback_def)
next
  case (Some c)
  let ?subs = "filter call_substituted calls"
  let ?served = "fold (\<lambda>c served. if lc_model c \<in> set served then served else served @ [lc_model c]) ?subs []"
  have f: "set ?served = lc_model ` {c \<in> set calls. call_substituted c}" "distinct ?served"
    using served_by_fold [of ?subs "[]"] by auto
  have "c \<in> set calls" "call_substituted c" using Some by (auto simp: find_Some_iff)
  then have "?served \<noteq> []" using f(1) by (metis (mono_tags, lifting) empty_iff empty_set image_eqI mem_Collect_eq)
  with f Some show ?thesis by (simp add: summarise_fallback_def Let_def)
qed

end
