(* ===== verification/AgentLoop.thy ===== *)
theory AgentLoop
  imports ModelCalls LoopGuard SessionRepair ReplyDirectives ToolGate
begin

text \<open>
  The agent loop, \<open>run_agent_loop\<close> and \<open>run_agent_loop_streaming\<close> of
  \<open>openfang-runtime/src/agent_loop.rs\<close>: the turn of an agent from the user's message to its answer,
  with the memory section of \<open>prompt_builder.rs\<close>. The two functions are copies of each other; the
  model has one body, which asks \<open>ce_streaming\<close> where they differ. The state of a turn extends the
  state of a model call, so the events of a turn are in one list. What the world answers (drivers,
  saves, tools behind their gates, the time a tool takes) is a function of the moment, the number
  of events so far. Logging, embeddings and the results of remembering are not modelled; a tool
  that is cut off by its timeout counts as executed.
\<close>

section \<open>Constants and texts\<close>

definition MAX_ITERATIONS :: u32 where "MAX_ITERATIONS = 50"

definition TOOL_TIMEOUT_SECS :: u64 where "TOOL_TIMEOUT_SECS = 120"

definition AGENT_TOOL_TIMEOUT_SECS :: u64 where "AGENT_TOOL_TIMEOUT_SECS = 600"

definition MAX_CONTINUATIONS :: u32 where "MAX_CONTINUATIONS = 5"

definition DEFAULT_CONTEXT_WINDOW :: usize where "DEFAULT_CONTEXT_WINDOW = 200000"

definition MAX_ITER_SUMMARY_CALLS :: nat where "MAX_ITER_SUMMARY_CALLS = 20"

definition MAX_ITER_SUMMARY_ARG_CHARS :: nat where "MAX_ITER_SUMMARY_ARG_CHARS = 300"

definition blank_line :: string where
  "blank_line = [newline, newline]"

definition quoted :: "string \<Rightarrow> string" where
  "quoted s = CHR 0x27 # s @ [CHR 0x27]"

definition ellipsis :: string where
  "ellipsis = [CHR 0xE2, CHR 0x80, CHR 0xA6]"

definition env_timeout_secs :: "(string \<Rightarrow> string option) \<Rightarrow> string \<Rightarrow> u64 option" where
  "env_timeout_secs vars var = Option.bind (vars var) (\<lambda>s. parse_u64 (trim s))"

definition tool_timeout_for :: "(string \<Rightarrow> string option) \<Rightarrow> string \<Rightarrow> u64 option" where
  "tool_timeout_for vars name =
     (let secs = (if name \<in> {''agent_send'', ''agent_spawn''}
        then (case env_timeout_secs vars ''OPENFANG_AGENT_TOOL_TIMEOUT_SECS'' of Some t \<Rightarrow> t | None \<Rightarrow> AGENT_TOOL_TIMEOUT_SECS)
        else (case env_timeout_secs vars ''OPENFANG_TOOL_TIMEOUT_SECS'' of Some t \<Rightarrow> t | None \<Rightarrow> TOOL_TIMEOUT_SECS))
      in if secs = 0 then None else Some secs)"

definition phantom_action_detected :: "string \<Rightarrow> bool" where
  "phantom_action_detected s =
     (let lower = to_lowercase s
      in list_ex (str_contains lower) [''sent '', ''posted '', ''emailed '', ''delivered '', ''forwarded '']
         \<and> list_ex (str_contains lower) [''telegram'', ''whatsapp'', ''slack'', ''discord'', ''email'', ''channel'',
             ''message sent'', ''successfully sent'', ''has been sent''])"

definition is_silent_token :: "string \<Rightarrow> bool" where
  "is_silent_token s = (trim s = ''NO_REPLY'' \<or> to_lowercase (trim s) = ''[silent]'')"

definition TOOL_ERROR_GUIDANCE :: string where
  "TOOL_ERROR_GUIDANCE = ''[System: One or more tool calls failed. Failed tools did not produce usable data. ''
     @ ''Do NOT invent missing results, cite nonexistent search results, or pretend failed tools succeeded. ''
     @ ''If your next steps depend on a failed tool, either retry with a materially different approach or explain ''
     @ ''the failure to the user and stop. Do not write files, store memory, or take downstream actions based on ''
     @ ''failed tool outputs.]''"

fun failed_result :: "content_block \<Rightarrow> bool" where
  "failed_result (ToolResult _ _ _ err) = err"
| "failed_result _ = False"

definition append_tool_error_guidance :: "content_block list \<Rightarrow> content_block list" where
  "append_tool_error_guidance blocks =
     (if list_ex failed_result blocks then blocks @ [ContentText TOOL_ERROR_GUIDANCE None] else blocks)"

section \<open>Messages\<close>

definition user_text :: "string \<Rightarrow> message" where
  "user_text s = \<lparr>role = User, content = Text s\<rparr>"

definition assistant_text :: "string \<Rightarrow> message" where
  "assistant_text s = \<lparr>role = Assistant, content = Text s\<rparr>"

definition block_message :: "role \<Rightarrow> content_block list \<Rightarrow> message" where
  "block_message r blocks = \<lparr>role = r, content = Blocks blocks\<rparr>"

fun is_reasoning :: "content_block \<Rightarrow> bool" where
  "is_reasoning (Thinking _ _ _) = True"
| "is_reasoning (RedactedThinking _) = True"
| "is_reasoning _ = False"

fun is_text_block :: "content_block \<Rightarrow> bool" where
  "is_text_block (ContentText _ _) = True"
| "is_text_block _ = False"

text \<open>The first text block becomes the final text, further ones are dropped.\<close>

fun replace_text :: "string \<Rightarrow> content_block list \<Rightarrow> content_block list \<times> bool" where
  "replace_text final_text [] = ([], False)"
| "replace_text final_text (ContentText t md # bs) =
     (ContentText final_text None # filter (\<lambda>b. \<not> is_text_block b) bs, True)"
| "replace_text final_text (b # bs) = (let (bs', emitted) = replace_text final_text bs in (b # bs', emitted))"

definition build_assistant_message_preserving_thinking :: "content_block list \<Rightarrow> string \<Rightarrow> message" where
  "build_assistant_message_preserving_thinking blocks final_text =
     (if \<not> list_ex is_reasoning blocks then assistant_text final_text
      else let (bs, emitted) = replace_text final_text blocks
           in block_message Assistant
                (if \<not> emitted \<and> final_text \<noteq> [] then bs @ [ContentText final_text None] else bs))"

definition build_user_turn_message :: "string \<Rightarrow> content_block list option \<Rightarrow> message" where
  "build_user_turn_message message blocks =
     (case blocks of
        Some bs \<Rightarrow>
          if bs = [] then user_text message
          else if trim message = [] then block_message User bs
          else block_message User (ContentText message None # bs)
      | None \<Rightarrow> user_text message)"

fun is_image :: "content_block \<Rightarrow> bool" where
  "is_image (Image _ _) = True"
| "is_image _ = False"

definition strip_images :: "message \<Rightarrow> message" where
  "strip_images m =
     (case content m of
        Text _ \<Rightarrow> m
      | Blocks bs \<Rightarrow>
          if list_ex is_image bs
          then let kept = filter (\<lambda>b. \<not> is_image b) bs
               in m\<lparr>content := Blocks (if kept = [] then [ContentText ''[Image processed]'' None] else kept)\<rparr>
          else m)"

section \<open>The prompt\<close>

definition cap_str :: "string \<Rightarrow> nat \<Rightarrow> string" where
  "cap_str s max_chars =
     (if length (utf8_chars s) \<le> max_chars then s
      else safe_truncate_str s (length (concat (take max_chars (utf8_chars s)))) @ ''...'')"

definition data_section :: "string \<Rightarrow> string \<Rightarrow> string" where
  "data_section tag body = ''<'' @ tag @ ''>'' @ [newline] @ trim_end body @ [newline] @ ''</'' @ tag @ ''>''"

definition memory_line :: "string \<times> string \<Rightarrow> string" where
  "memory_line = (\<lambda>(key, content).
     ''- '' @ (if key = [] then [] else ''['' @ key @ ''] '') @ cap_str content 500 @ [newline])"

definition build_memory_section :: "(string \<times> string) list \<Rightarrow> string" where
  "build_memory_section memories = data_section ''memory''
     (if memories = []
      then ''- When the user asks about something from a previous conversation, use memory_recall first.'' @ [newline]
         @ ''- Store important preferences, decisions, and context with memory_store for future use.''
      else ''- Use the recalled memories below to inform your responses.'' @ [newline]
         @ ''- Only call memory_recall if you need information not already shown here.'' @ [newline]
         @ ''- Store important preferences, decisions, and context with memory_store for future use.''
         @ blank_line @ ''Recalled memories:'' @ [newline] @ concat (map memory_line (take 5 memories)))"

section \<open>What became of the tool calls\<close>

datatype tool_call_fate = Completed | Errored | Blocked string

record turn_tool_call =
  ttc_name :: string
  ttc_args :: string
  ttc_fate :: tool_call_fate

definition fate_counts :: "turn_tool_call list \<Rightarrow> nat \<times> nat \<times> nat" where
  "fate_counts calls = fold (\<lambda>c (a, b, d).
     case ttc_fate c of Completed \<Rightarrow> (a + 1, b, d) | Errored \<Rightarrow> (a, b + 1, d) | Blocked _ \<Rightarrow> (a, b, d + 1)) calls (0, 0, 0)"

definition truncate_chars :: "string \<Rightarrow> nat \<Rightarrow> string" where
  "truncate_chars s n = (if length (utf8_chars s) \<le> n then s else concat (take n (utf8_chars s)) @ ellipsis)"

definition fate_line :: "nat \<times> turn_tool_call \<Rightarrow> string" where
  "fate_line = (\<lambda>(i, c). [newline] @ ''  '' @ show_nat (i + 1) @ ''. '' @ ttc_name c
     @ (case ttc_fate c of Blocked by_what \<Rightarrow> '' '' @ em_dash @ '' '' @ by_what | _ \<Rightarrow> []) @ '' ''
     @ truncate_chars (ttc_args c) MAX_ITER_SUMMARY_ARG_CHARS)"

definition fate_section :: "string \<Rightarrow> turn_tool_call list \<Rightarrow> string" where
  "fate_section heading calls =
     (if calls = [] then []
      else blank_line @ heading @ '' ('' @ show_nat (length calls) @ ''):''
         @ concat (map fate_line (List.enumerate 0 (take MAX_ITER_SUMMARY_CALLS calls)))
         @ (if length calls > MAX_ITER_SUMMARY_CALLS
            then [newline] @ ''  '' @ ellipsis @ '' and '' @ show_nat (length calls - MAX_ITER_SUMMARY_CALLS) @ '' more'' else []))"

fun was_blocked :: "tool_call_fate \<Rightarrow> bool" where
  "was_blocked (Blocked _) = True"
| "was_blocked _ = False"

definition max_iterations_notice :: "u32 \<Rightarrow> turn_tool_call list \<Rightarrow> string" where
  "max_iterations_notice n calls =
     (let completed = filter (\<lambda>c. ttc_fate c = Completed) calls;
          errored = filter (\<lambda>c. ttc_fate c = Errored) calls;
          blocked = filter (\<lambda>c. was_blocked (ttc_fate c)) calls
      in ''[Turn incomplete '' @ em_dash @ '' Max iterations exceeded ('' @ show_word n @ ''). The agent ''
         @ ''stopped here without finishing. Configure a higher limit in agent.toml ''
         @ ''under [autonomous] max_iterations.]''
         @ (if completed = [] \<and> errored = [] \<and> blocked = []
            then blank_line @ ''No tool calls were executed in this turn.''
            else fate_section ''Tool calls that ran and succeeded'' completed
               @ fate_section ''Tool calls that returned an error'' errored
               @ fate_section ''Tool calls stopped before they ran'' blocked))"

definition max_iterations_summary :: "string \<Rightarrow> string \<Rightarrow> string" where
  "max_iterations_summary accumulated notice =
     (if trim accumulated = [] then notice else trim accumulated @ blank_line @ notice)"

section \<open>Turns without text\<close>

datatype no_text = EmptyFinalMessage | TruncatedWithNoText u32

definition NO_TEXT_FAILURE_PREFIX :: string where
  "NO_TEXT_FAILURE_PREFIX = ''The turn produced no text:''"

definition no_text_failure :: "string \<Rightarrow> u32 \<Rightarrow> token_usage \<Rightarrow> bool \<Rightarrow> bool \<Rightarrow> no_text \<Rightarrow> string" where
  "no_text_failure agent iterations tokens any_tools streaming cause =
     (let stream = (if streaming then '' streamed'' else []);
          what = (case cause of
              EmptyFinalMessage \<Rightarrow> ''after '' @ show_word iterations @ '' iteration(s) the final'' @ stream
                @ '' message carried no text, no tool calls and no content''
            | TruncatedWithNoText n \<Rightarrow> ''the provider stopped at finish_reason=length '' @ show_word n
                @ '' times in a row across '' @ show_word iterations @ '' iteration(s), and the turn ended with no''
                @ stream @ '' text to return'')
      in NO_TEXT_FAILURE_PREFIX @ '' '' @ what @ '' ('' @ show_word (input_tokens tokens) @ '' in / ''
         @ show_word (output_tokens tokens) @ '' out tokens).''
         @ (if any_tools then '' Tools executed earlier in this turn did run and their effects stand, ''
             @ ''but the provider never summarised them.'' else [])
         @ '' (agent: '' @ agent @ '')'')"

section \<open>The state of a turn\<close>

record turn_state = call_state +
  t_session :: "message list"
  t_messages :: "message list"
  t_usage :: token_usage
  t_calls :: "llm_call list"
  t_text :: string
  t_guard :: loop_guard
  t_max_tokens :: u32
  t_any_tools :: bool
  t_tool_calls :: "turn_tool_call list"

record loop_env =
  le_call :: call_env
  le_manifest :: agent_manifest
  le_agent_id :: string
  le_tools :: "tool_definition list"
  le_hashing :: hashing
  le_text :: "nat \<Rightarrow> text_lib"
  le_hooks :: "hook_registry option"
  le_handle :: "nat \<Rightarrow> kernel_handle option"
  le_manager :: bool
  le_refusal :: "gate_result \<Rightarrow> string"
  le_dispatch :: "nat \<Rightarrow> string \<Rightarrow> json \<Rightarrow> string \<times> bool"
  le_duration_ms :: "nat \<Rightarrow> tool_call \<Rightarrow> nat"
  le_save :: "nat \<Rightarrow> string option"
  le_phases :: bool
  le_window :: "usize option"
  le_memories :: "string list"

datatype loop_error = LlmDriverError string | MemoryError string | InternalError string | TurnPanics

record loop_result =
  lr_response :: string
  lr_usage :: token_usage
  lr_iterations :: u32
  lr_cost_usd :: "f64 option"
  lr_silent :: bool
  lr_directives :: directive_set
  lr_calls :: "llm_call list"

datatype flow = Continue | Return "loop_error + loop_result"

definition streaming :: "loop_env \<Rightarrow> bool" where
  "streaming env = ce_streaming (le_call env)"

definition stream :: "loop_env \<Rightarrow> stream_event \<Rightarrow> turn_state \<Rightarrow> turn_state" where
  "stream env e st = (if streaming env then emit (Streamed e) st else st)"

definition phase :: "loop_env \<Rightarrow> loop_phase \<Rightarrow> turn_state \<Rightarrow> turn_state" where
  "phase env p st = (if le_phases env then emit (Phase p) st else st)"

definition fire_hook :: "loop_env \<Rightarrow> hook_event \<Rightarrow> (string \<times> json) list \<Rightarrow> turn_state \<Rightarrow> string option \<times> turn_state" where
  "fire_hook env event data st =
     (case le_hooks env of
        None \<Rightarrow> (None, st)
      | Some hooks \<Rightarrow>
          let ctx = \<lparr>hc_agent_name = man_name (le_manifest env), hc_agent_id = le_agent_id env,
                     hc_event = event, hc_data = JObject data\<rparr>
          in (fire hooks ctx, emit (Fired ctx) st))"

definition observe :: "loop_env \<Rightarrow> hook_event \<Rightarrow> (string \<times> json) list \<Rightarrow> turn_state \<Rightarrow> turn_state" where
  "observe env event data st = snd (fire_hook env event data st)"

definition save_session :: "loop_env \<Rightarrow> turn_state \<Rightarrow> string option \<times> turn_state" where
  "save_session env st = (le_save env (moment st), emit (Saved (t_session st)) st)"

definition json_nat :: "nat \<Rightarrow> json" where
  "json_nat n = JNumber (show_nat n)"

definition touch :: "loop_env \<Rightarrow> turn_state \<Rightarrow> turn_state" where
  "touch env st = (case le_handle env (moment st) of None \<Rightarrow> st | Some _ \<Rightarrow> emit (Touched (le_agent_id env)) st)"

definition say :: "message list \<Rightarrow> turn_state \<Rightarrow> turn_state" where
  "say ms st = st\<lparr>t_messages := t_messages st @ ms\<rparr>"

definition remember_session :: "message list \<Rightarrow> turn_state \<Rightarrow> turn_state" where
  "remember_session ms st = st\<lparr>t_session := t_session st @ ms\<rparr>"

definition result_of :: "string \<Rightarrow> u32 \<Rightarrow> bool \<Rightarrow> directive_set \<Rightarrow> turn_state \<Rightarrow> loop_result" where
  "result_of response iterations is_silent dirs st = \<lparr>lr_response = response, lr_usage = t_usage st,
     lr_iterations = iterations, lr_cost_usd = None, lr_silent = is_silent, lr_directives = dirs, lr_calls = t_calls st\<rparr>"

section \<open>The start of a turn\<close>

definition loop_system_prompt :: "loop_env \<Rightarrow> string" where
  "loop_system_prompt env =
     system_prompt (man_model (le_manifest env))
     @ (if le_memories env = [] then [] else blank_line @ build_memory_section (map (Pair []) (le_memories env)))"

definition loop_max_iterations :: "loop_env \<Rightarrow> u32" where
  "loop_max_iterations env =
     (case man_autonomous (le_manifest env) of Some a \<Rightarrow> auto_max_iterations a | None \<Rightarrow> MAX_ITERATIONS)"

definition loop_guard_config_for :: "u32 \<Rightarrow> loop_guard_config" where
  "loop_guard_config_for n =
     (let cfg = default_guard_config
      in if n > global_circuit_breaker cfg then cfg\<lparr>global_circuit_breaker := n * 3\<rparr> else cfg)"

definition add_canonical_context :: "agent_manifest \<Rightarrow> message list \<Rightarrow> message list" where
  "add_canonical_context m ms =
     (case Option.bind (dm_get (man_metadata m) ''canonical_context_msg'') json_as_str of
        Some cc \<Rightarrow> if cc \<noteq> [] then user_text cc # ms else ms
      | None \<Rightarrow> ms)"

definition trim_history :: "agent_manifest \<Rightarrow> message list \<Rightarrow> message list" where
  "trim_history m ms =
     (let max_history = effective_max_history_messages m
      in if length ms > max_history
         then ensure_starts_with_user (validate_and_repair (drop (length ms - max_history) ms))
         else ms)"

definition begin_turn :: "loop_env \<Rightarrow> string \<Rightarrow> content_block list option \<Rightarrow> message list \<Rightarrow> turn_state" where
  "begin_turn env message blocks session =
     (let m = le_manifest env;
          session1 = session @ [build_user_turn_message message blocks];
          llm_messages = filter (\<lambda>x. role x \<noteq> System) session1;
          st = \<lparr>cs_events = [], cs_cooldown = None, t_session = map strip_images session1,
                t_messages = trim_history m (add_canonical_context m (validate_and_repair llm_messages)),
                t_usage = \<lparr>input_tokens = 0, output_tokens = 0\<rparr>, t_calls = [], t_text = [],
                t_guard = new_guard (loop_guard_config_for (loop_max_iterations env)),
                t_max_tokens = 0, t_any_tools = False, t_tool_calls = []\<rparr>
      in observe env BeforePromptBuild
           [(''system_prompt'', JString (system_prompt (man_model m))), (''user_message'', JString message)] st)"

section \<open>Asking the model\<close>

definition loop_window :: "loop_env \<Rightarrow> usize" where
  "loop_window env = (case le_window env of Some w \<Rightarrow> w | None \<Rightarrow> DEFAULT_CONTEXT_WINDOW)"

definition context_warning :: "recovery_stage \<Rightarrow> stream_event option" where
  "context_warning recovery =
     (case recovery of
        NoRecovery \<Rightarrow> None
      | FinalError \<Rightarrow> Some (PhaseChange ''context_warning'' (Some ''Context overflow unrecoverable. Use /reset or /compact.''))
      | _ \<Rightarrow> Some (PhaseChange ''context_warning''
               (Some ''Older messages trimmed to stay within context limits. Use /compact for smarter summarization.'')))"

definition fit_context :: "loop_env \<Rightarrow> turn_state \<Rightarrow> turn_state" where
  "fit_context env st =
     (let (recovery, ms) = recover_from_overflow (json_text (le_hashing env)) (t_messages st)
            (loop_system_prompt env) (le_tools env) (loop_window env);
          st1 = (case context_warning recovery of Some e \<Rightarrow> stream env e st | None \<Rightarrow> st);
          ms1 = (if recovery \<noteq> NoRecovery then ensure_starts_with_user (validate_and_repair ms) else ms)
      in st1\<lparr>t_messages := fst (apply_context_guard ms1 (new_budget (loop_window env)))\<rparr>)"

definition loop_request :: "loop_env \<Rightarrow> turn_state \<Rightarrow> completion_request" where
  "loop_request env st = (let model = man_model (le_manifest env) in
     \<lparr>req_model = strip_provider_prefix (model_name model) (model_provider model), req_messages = t_messages st,
      req_tools = le_tools env, req_max_tokens = model_max_tokens model, req_temperature = model_temperature model,
      req_system = Some (loop_system_prompt env), req_thinking = None\<rparr>)"

definition promote_recovered :: "text_lib \<Rightarrow> tool_definition list \<Rightarrow> completion_response \<Rightarrow> completion_response" where
  "promote_recovered lib tools resp =
     (if stop_reason resp \<in> {EndTurn, StopSequence} \<and> resp_tool_calls resp = []
      then let recovered = recover_text_tool_calls lib (response_text resp) tools
           in if recovered = [] then resp
              else resp\<lparr>resp_tool_calls := recovered, stop_reason := ToolUseStop,
                        resp_content := map (\<lambda>tc. ToolUse (tc_id tc) (tc_name tc) (tc_input tc) None) recovered\<rparr>
      else resp)"

definition add_usage :: "token_usage \<Rightarrow> token_usage \<Rightarrow> token_usage" where
  "add_usage a b = \<lparr>input_tokens = input_tokens a + input_tokens b, output_tokens = output_tokens a + output_tokens b\<rparr>"

definition report_call :: "loop_env \<Rightarrow> token_usage \<Rightarrow> turn_state \<Rightarrow> turn_state" where
  "report_call env tokens st =
     (if t_calls st = [] then st
      else let c = List.last (t_calls st)
           in stream env (CallReported (lc_n c) (lc_provider c) (lc_model c) (lc_requested c) (lc_reason c) tokens) st)"

definition account :: "loop_env \<Rightarrow> u32 \<Rightarrow> completion_response \<times> call_report \<Rightarrow> turn_state \<Rightarrow> completion_response \<times> turn_state" where
  "account env iteration = (\<lambda>(resp, report) st.
     let st1 = st\<lparr>t_usage := add_usage (t_usage st) (resp_usage resp),
           t_calls := record_call iteration (man_model (le_manifest env)) report (resp_usage resp) (t_calls st)\<rparr>;
         st2 = report_call env (resp_usage resp) st1;
         resp1 = promote_recovered (le_text env (moment st2)) (le_tools env) resp
     in (resp1, st2\<lparr>t_calls := set_last_tool_calls (t_calls st2) (length (resp_tool_calls resp1))\<rparr>))"

definition ask_model :: "loop_env \<Rightarrow> u32 \<Rightarrow> turn_state \<Rightarrow> (string + completion_response) \<times> turn_state" where
  "ask_model env iteration st =
     (let st1 = fit_context env st;
          st2 = touch env (phase env (if streaming env \<and> iteration = 0 then PhaseStreaming else PhaseThinking) st1)
      in case call_with_retry (le_call env) (loop_request env st2) (Some (model_provider (man_model (le_manifest env))))
                (fallback_models (le_manifest env)) st2 of
           (Inl e, st3) \<Rightarrow> (Inl e, st3)
         | (Inr answered, st3) \<Rightarrow> (let (resp, st4) = account env iteration answered st3 in (Inr resp, st4)))"

section \<open>An answer\<close>

definition loop_ended :: "loop_env \<Rightarrow> (string \<times> json) list \<Rightarrow> turn_state \<Rightarrow> turn_state" where
  "loop_ended env data st = observe env AgentLoopEnd data st"

definition silent_end :: "loop_env \<Rightarrow> u32 \<Rightarrow> directive_set \<Rightarrow> turn_state \<Rightarrow> flow \<times> turn_state" where
  "silent_end env iteration dirs st =
     (let (err, st1) = save_session env (remember_session [assistant_text ''[no reply needed]''] st)
      in (Return (case err of
            Some e \<Rightarrow> Inl (MemoryError e)
          | None \<Rightarrow> Inr (result_of [] (iteration + 1) True (dirs\<lparr>silent := True\<rparr>) st1)), st1))"

definition silent_failure :: "completion_response \<Rightarrow> bool" where
  "silent_failure resp = (input_tokens (resp_usage resp) = 0 \<and> output_tokens (resp_usage resp) = 0)"

definition retry_empty :: "completion_response \<Rightarrow> turn_state \<Rightarrow> turn_state" where
  "retry_empty resp st =
     say [assistant_text ''[no response]'', user_text ''Please provide your response.'']
       (if silent_failure resp then st\<lparr>t_messages := validate_and_repair (t_messages st)\<rparr> else st)"

definition fail_without_text :: "loop_env \<Rightarrow> u32 \<Rightarrow> string \<Rightarrow> no_text \<Rightarrow> turn_state \<Rightarrow> flow \<times> turn_state" where
  "fail_without_text env iteration reason cause st =
     (let st1 = loop_ended env [(''any_tools_executed'', JBool (t_any_tools st)),
            (''iterations'', json_nat (unat (iteration + 1))), (''reason'', JString reason)] (snd (save_session env st))
      in (Return (Inl (LlmDriverError (no_text_failure (man_name (le_manifest env)) (iteration + 1) (t_usage st)
            (t_any_tools st) (streaming env) cause))), st1))"

definition PHANTOM_PROMPT :: string where
  "PHANTOM_PROMPT = ''[System: You claimed to perform an action but did not call any tools. ''
     @ ''You must use the appropriate tool (e.g., channel_send, web_fetch, file_write) ''
     @ ''to actually perform the action. Do not claim completion without executing tools.]''"

definition interaction_text :: "string \<Rightarrow> string \<Rightarrow> string" where
  "interaction_text message response = ''User asked: '' @ message @ [newline] @ ''I responded: '' @ response"

definition finish_turn ::
  "loop_env \<Rightarrow> string \<Rightarrow> u32 \<Rightarrow> completion_response \<Rightarrow> string \<Rightarrow> turn_state \<Rightarrow> flow \<times> turn_state" where
  "finish_turn env message iteration resp answer st =
     (let said = t_session st @ [build_assistant_message_preserving_thinking (resp_content resp) answer];
          (err, st1) = save_session env (st\<lparr>t_session := prune_heartbeat_turns said 10\<rparr>)
      in case err of
           Some e \<Rightarrow> (Return (Inl (MemoryError e)), st1)
         | None \<Rightarrow>
             let st2 = phase env PhaseDone (emit (Remembered (interaction_text message answer)) st1);
                 st3 = loop_ended env [(''iterations'', json_nat (unat (iteration + 1))),
                         (''response_length'', json_nat (length answer))] st2
             in (Return (Inr (result_of answer (iteration + 1) False no_directives st3)), st3))"

text \<open>The text a turn ends with: the last response, or what earlier responses said next to their tools.\<close>

definition text_or_accumulated :: "string \<Rightarrow> turn_state \<Rightarrow> string option" where
  "text_or_accumulated s st =
     (if trim s \<noteq> [] then Some s else if t_text st \<noteq> [] then Some (t_text st) else None)"

definition end_turn ::
  "loop_env \<Rightarrow> string \<Rightarrow> u32 \<Rightarrow> completion_response \<Rightarrow> turn_state \<Rightarrow> flow \<times> turn_state" where
  "end_turn env message iteration resp st =
     (let (answer, dirs) = parse_directives (response_text resp)
      in if is_silent_token answer \<or> silent dirs then silent_end env iteration dirs st
         else if trim answer = [] \<and> resp_tool_calls resp = [] \<and> \<not> has_any_content resp
           \<and> (iteration = 0 \<or> silent_failure resp)
         then (Continue, retry_empty resp st)
         else case text_or_accumulated answer st of
           None \<Rightarrow> fail_without_text env iteration ''empty_response'' EmptyFinalMessage st
         | Some answer \<Rightarrow>
             if \<not> streaming env \<and> \<not> t_any_tools st \<and> iteration = 0 \<and> phantom_action_detected answer
             then (Continue, say [assistant_text answer, user_text PHANTOM_PROMPT] st)
             else finish_turn env message iteration resp answer st)"

section \<open>Tool calls\<close>

fun guard_msg_text :: "guard_msg \<Rightarrow> string" where
  "guard_msg_text (ExceededTotalCalls n) = ''Circuit breaker: exceeded '' @ show_word n
     @ '' total tool calls in this loop. The agent appears to be stuck.''"
| "guard_msg_text (ReturningIdenticalResults t) = ''Blocked: tool '' @ quoted t
     @ '' is returning identical results repeatedly. The current approach is not working '' @ em_dash
     @ '' try something different.''"
| "guard_msg_text (CalledWithIdenticalParams t n) = ''Blocked: tool '' @ quoted t @ '' called '' @ show_word n
     @ '' times with identical parameters. Try a different approach or different parameters.''"
| "guard_msg_text (WarningsExhausted t n) = ''Blocked: tool '' @ quoted t @ '' called '' @ show_word n
     @ '' times with identical parameters (warnings exhausted). Try a different approach.''"
| "guard_msg_text (HasBeenCalled t n) = ''Warning: tool '' @ quoted t @ '' has been called '' @ show_word n
     @ '' times with identical parameters. Consider a different approach.''"
| "guard_msg_text (Alternating a b) = ''Ping-pong detected: tools '' @ quoted a @ '' and '' @ quoted b
     @ '' are alternating repeatedly. Break the cycle by trying a different approach.''"
| "guard_msg_text (Cycling a b c) = ''Ping-pong detected: tools '' @ quoted a @ '', '' @ quoted b @ '', '' @ quoted c
     @ '' are cycling repeatedly. Break the cycle by trying a different approach.''"

fun deduplicate :: "hashing \<Rightarrow> string list \<Rightarrow> tool_call list \<Rightarrow> tool_call list" where
  "deduplicate hs seen [] = []"
| "deduplicate hs seen (tc # tcs) =
     (let h = compute_hash hs (tc_name tc) (tc_input tc)
      in if h \<in> set seen then deduplicate hs seen tcs else tc # deduplicate hs (h # seen) tcs)"

definition deduplicate_tool_calls :: "hashing \<Rightarrow> completion_response \<Rightarrow> tool_call list" where
  "deduplicate_tool_calls hs resp = deduplicate hs [] (resp_tool_calls resp)"

definition note_fate :: "loop_env \<Rightarrow> tool_call \<Rightarrow> tool_call_fate \<Rightarrow> turn_state \<Rightarrow> turn_state" where
  "note_fate env tc fate st = st\<lparr>t_tool_calls := t_tool_calls st @
     [\<lparr>ttc_name = tc_name tc, ttc_args = json_text (le_hashing env) (tc_input tc), ttc_fate = fate\<rparr>]\<rparr>"

definition tool_names :: "loop_env \<Rightarrow> string list" where
  "tool_names env = map tool_definition.tool_name (le_tools env)"

definition call_gate :: "loop_env \<Rightarrow> tool_call \<Rightarrow> nat \<Rightarrow> gate_result" where
  "call_gate env tc n =
     execute_tool_gate (json_text (le_hashing env)) (tc_name tc) (tc_input tc) (le_handle env n)
       (Some (tool_names env)) (Some (le_agent_id env)) (man_exec_policy (le_manifest env)) (le_manager env)"

text \<open>The call of \<open>execute_tool\<close> under its timeout; \<open>None\<close> is a panic.\<close>

definition execute_call :: "loop_env \<Rightarrow> tool_call \<Rightarrow> turn_state \<Rightarrow> (string \<times> bool) option \<times> turn_state" where
  "execute_call env tc st =
     (let n = moment st;
          (outcome, st1) = (case call_gate env tc n of
              GatePanics \<Rightarrow> (None, st)
            | Dispatched tool \<Rightarrow> (Some (le_dispatch env n tool (tc_input tc)), emit (Executed tool (tc_input tc)) st)
            | refused \<Rightarrow> (Some (le_refusal env refused, True), st))
      in (case tool_timeout_for (ce_env_var (le_call env)) (tc_name tc) of
            Some secs \<Rightarrow>
              if unat secs * 1000 < le_duration_ms env n tc
              then Some (''Tool '' @ quoted (tc_name tc) @ '' timed out after '' @ show_word secs @ ''s.'', True)
              else outcome
          | None \<Rightarrow> outcome, st1))"

definition is_control :: "char \<Rightarrow> bool" where
  "is_control c = (let n = (of_char c :: nat) in n < 32 \<or> n = 127)"

definition phase_name :: "string \<Rightarrow> string" where
  "phase_name s = concat (take 64 (filter (\<lambda>ch. \<not> list_all is_control ch) (utf8_chars s)))"

definition run_call :: "loop_env \<Rightarrow> tool_call \<Rightarrow> turn_state \<Rightarrow> (loop_error + content_block) \<times> turn_state" where
  "run_call env tc st =
     (let (g, verdict) = check_call (le_hashing env) (t_guard st) (tc_name tc) (tc_input tc);
          st1 = st\<lparr>t_guard := g\<rparr>;
          result = ToolResult (tc_id tc) (tc_name tc)
      in case verdict of
           CircuitBreak msg \<Rightarrow>
             (Inl (InternalError (guard_msg_text msg)),
              loop_ended env [(''error'', JString (guard_msg_text msg)), (''reason'', JString ''circuit_break'')]
                (snd (save_session env st1)))
         | Block msg \<Rightarrow>
             (Inr (result (guard_msg_text msg) True), note_fate env tc (Blocked ''stopped by the loop guard'') st1)
         | _ \<Rightarrow>
             let (objection, st2) = fire_hook env BeforeToolCall
                   [(''input'', tc_input tc), (''tool_name'', JString (tc_name tc))]
                   (phase env (PhaseToolUse (phase_name (tc_name tc))) st1)
             in case objection of
                  Some reason \<Rightarrow>
                    (Inr (result (''Hook blocked tool '' @ quoted (tc_name tc) @ '': '' @ reason) True),
                     note_fate env tc (Blocked ''stopped by a BeforeToolCall hook'') st2)
                | None \<Rightarrow>
                    (case execute_call env tc st2 of
                       (None, st3) \<Rightarrow> (Inl TurnPanics, st3)
                     | (Some (output, is_error), st3) \<Rightarrow>
                         let st4 = observe env AfterToolCall [(''is_error'', JBool is_error),
                                (''result'', JString output), (''tool_name'', JString (tc_name tc))] st3;
                             shown = truncate_tool_result_dynamic output (new_budget (loop_window env));
                             final = (case verdict of LoopGuard.Warn msg \<Rightarrow> shown @ blank_line @ ''[LOOP GUARD] '' @ guard_msg_text msg
                                      | _ \<Rightarrow> shown);
                             st5 = stream env (ToolExecutionResult (tc_id tc) (tc_name tc)
                                (concat (take 300 (utf8_chars final))) is_error) st4
                         in (Inr (result final is_error), note_fate env tc (if is_error then Errored else Completed) st5)))"

fun run_calls :: "loop_env \<Rightarrow> tool_call list \<Rightarrow> turn_state \<Rightarrow> (loop_error + content_block list) \<times> turn_state" where
  "run_calls env [] st = (Inr [], st)"
| "run_calls env (tc # tcs) st =
     (case run_call env tc st of
        (Inl e, st1) \<Rightarrow> (Inl e, st1)
      | (Inr b, st1) \<Rightarrow>
          (case run_calls env tcs st1 of
             (Inl e, st2) \<Rightarrow> (Inl e, st2)
           | (Inr bs, st2) \<Rightarrow> (Inr (b # bs), st2)))"

fun is_denial :: "content_block \<Rightarrow> bool" where
  "is_denial (ToolResult _ _ c err) = (err \<and> str_contains c ''requires human approval and was denied'')"
| "is_denial _ = False"

definition denial_guidance :: "nat \<Rightarrow> string" where
  "denial_guidance n = ''[System: '' @ show_nat n @ '' tool call(s) were denied by approval policy. ''
     @ ''Do NOT retry denied tools. Explain to the user what you wanted to do and that it requires their approval. ''
     @ ''Hint: set auto_approve = true in [approval] section of config.toml, or start with --yolo flag, to auto-approve ''
     @ ''all tool calls.]''"

definition error_guidance :: "nat \<Rightarrow> string" where
  "error_guidance n = ''[System: '' @ show_nat n @ '' tool(s) returned errors. Report the error honestly ''
     @ ''to the user. Do NOT fabricate results or pretend the tool succeeded. ''
     @ ''If a search or fetch failed, tell the user it failed and suggest alternatives instead of making up data.]''"

definition add_guidance :: "content_block list \<Rightarrow> content_block list" where
  "add_guidance results =
     (let blocks = append_tool_error_guidance results;
          denials = length (filter is_denial blocks);
          blocks1 = (if denials > 0 then blocks @ [ContentText (denial_guidance denials) None] else blocks);
          other_errors = length (filter failed_result blocks1) - denials
      in if other_errors > 0 then blocks1 @ [ContentText (error_guidance other_errors) None] else blocks1)"

definition accumulate :: "string \<Rightarrow> string \<Rightarrow> string" where
  "accumulate accumulated s =
     (if trim s = [] then accumulated else (if accumulated = [] then [] else accumulated @ blank_line) @ trim s)"

definition tool_turn :: "loop_env \<Rightarrow> completion_response \<Rightarrow> turn_state \<Rightarrow> flow \<times> turn_state" where
  "tool_turn env resp st =
     (let asked = block_message Assistant (resp_content resp);
          st1 = say [asked] (remember_session [asked] (st\<lparr>t_max_tokens := 0, t_any_tools := True,
                  t_text := accumulate (t_text st) (response_text resp)\<rparr>))
      in case run_calls env (deduplicate_tool_calls (le_hashing env) resp) st1 of
           (Inl e, st2) \<Rightarrow> (Return (Inl e), st2)
         | (Inr results, st2) \<Rightarrow>
             let answered = block_message User (add_guidance results)
             in (Continue, snd (save_session env (say [answered] (remember_session [answered] st2)))))"

section \<open>Continuations\<close>

definition max_tokens_turn :: "loop_env \<Rightarrow> u32 \<Rightarrow> completion_response \<Rightarrow> turn_state \<Rightarrow> flow \<times> turn_state" where
  "max_tokens_turn env iteration resp st =
     (let st1 = st\<lparr>t_max_tokens := t_max_tokens st + 1\<rparr>
      in if t_max_tokens st1 \<ge> MAX_CONTINUATIONS
         then (case text_or_accumulated (response_text resp) st1 of
             None \<Rightarrow> fail_without_text env iteration ''max_continuations_no_text''
                 (TruncatedWithNoText (t_max_tokens st1)) st1
           | Some answer \<Rightarrow>
               let st2 = snd (save_session env (remember_session
                       [build_assistant_message_preserving_thinking (resp_content resp) answer] st1));
                   st3 = loop_ended env [(''iterations'', json_nat (unat (iteration + 1))),
                       (''reason'', JString ''max_continuations'')] st2
               in (Return (Inr (result_of answer (iteration + 1) False no_directives st3)), st3))
         else
           let said = [build_assistant_message_preserving_thinking (resp_content resp) (response_text resp),
                 user_text ''Please continue.'']
           in (Continue, say said (remember_session said st1)))"

section \<open>The loop\<close>

definition iterate_once :: "loop_env \<Rightarrow> string \<Rightarrow> u32 \<Rightarrow> turn_state \<Rightarrow> flow \<times> turn_state" where
  "iterate_once env message iteration st =
     (case ask_model env iteration st of
        (Inl e, st1) \<Rightarrow> (Return (Inl (LlmDriverError e)), st1)
      | (Inr resp, st1) \<Rightarrow>
          (case stop_reason resp of
             EndTurn \<Rightarrow> end_turn env message iteration resp st1
           | StopSequence \<Rightarrow> end_turn env message iteration resp st1
           | ToolUseStop \<Rightarrow> tool_turn env resp st1
           | MaxTokens \<Rightarrow> max_tokens_turn env iteration resp st1))"

definition out_of_iterations :: "loop_env \<Rightarrow> turn_state \<Rightarrow> loop_result \<times> turn_state" where
  "out_of_iterations env st =
     (let n = loop_max_iterations env;
          notice = max_iterations_notice n (t_tool_calls st);
          summary = max_iterations_summary (t_text st) notice;
          st1 = remember_session [assistant_text summary] st;
          st2 = stream env (TextDelta (if trim (t_text st) = [] then notice else blank_line @ notice)) st1;
          (ran, errored, blocked) = fate_counts (t_tool_calls st);
          st3 = loop_ended env [(''iterations'', json_nat (unat n)), (''partial'', JBool True),
                  (''reason'', JString ''max_iterations_exceeded''), (''tool_calls_blocked'', json_nat blocked),
                  (''tool_calls_errored'', json_nat errored), (''tool_calls_ran'', json_nat ran)]
                  (snd (save_session env st2))
      in (result_of summary n False no_directives st3, st3))"

fun loop_turn :: "loop_env \<Rightarrow> string \<Rightarrow> nat \<Rightarrow> u32 \<Rightarrow> turn_state \<Rightarrow> (loop_error + loop_result) \<times> turn_state" where
  "loop_turn env message 0 iteration st = map_prod Inr id (out_of_iterations env st)"
| "loop_turn env message (Suc left) iteration st =
     (case iterate_once env message iteration st of
        (Continue, st1) \<Rightarrow> loop_turn env message left (iteration + 1) st1
      | (Return r, st1) \<Rightarrow> (r, st1))"

definition run_turn ::
  "loop_env \<Rightarrow> string \<Rightarrow> content_block list option \<Rightarrow> message list \<Rightarrow> (loop_error + loop_result) \<times> turn_state" where
  "run_turn env message blocks session =
     loop_turn env message (unat (loop_max_iterations env)) 0 (begin_turn env message blocks session)"

definition run_agent_loop ::
  "loop_env \<Rightarrow> string \<Rightarrow> content_block list option \<Rightarrow> message list \<Rightarrow> (loop_error + loop_result) \<times> turn_state" where
  "run_agent_loop env = run_turn (env\<lparr>le_call := (le_call env)\<lparr>ce_streaming := False\<rparr>\<rparr>)"

definition run_agent_loop_streaming ::
  "loop_env \<Rightarrow> string \<Rightarrow> content_block list option \<Rightarrow> message list \<Rightarrow> (loop_error + loop_result) \<times> turn_state" where
  "run_agent_loop_streaming env = run_turn (env\<lparr>le_call := (le_call env)\<lparr>ce_streaming := True\<rparr>\<rparr>)"

end
