(* ===== verification/TurnProofs.thy ===== *)
theory TurnProofs
  imports AgentLoop
begin

text \<open>
  What a turn of the agent loop guarantees. Every step of a turn is summarised by what it adds to
  the events and which fields it changes; the locale \<open>turn_invariant\<close> lifts an invariant of one
  iteration to the result of a turn, and each property is an instance of it.
\<close>

section \<open>Events on the side\<close>

fun is_executed :: "loop_event \<Rightarrow> bool" where
  "is_executed (Executed _ _) = True"
| "is_executed _ = False"

definition side :: "loop_event \<Rightarrow> bool" where
  "side e \<longleftrightarrow> \<not> is_asked e \<and> \<not> is_executed e"

text \<open>A step that only adds side events.\<close>

definition quietly :: "turn_state \<Rightarrow> turn_state \<Rightarrow> bool" where
  "quietly st st' \<longleftrightarrow> (\<exists>es. st' = st\<lparr>cs_events := cs_events st @ es\<rparr> \<and> list_all side es)"

lemma quietly_refl [simp, intro]: "quietly st st"
  unfolding quietly_def by (rule exI [of _ "[]"]) simp

lemma quietly_trans: "quietly st st1 \<Longrightarrow> quietly st1 st2 \<Longrightarrow> quietly st st2"
  unfolding quietly_def by (elim exE conjE) (rule_tac x = "es @ esa" in exI, simp)

lemma quietly_emit: "side e \<Longrightarrow> quietly st (emit e st)"
  unfolding quietly_def emit_def by (rule exI [of _ "[e]"]) simp

lemma quietly_observe [simp, intro]: "quietly st (observe env ev data st)"
  by (auto simp: observe_def fire_hook_def Let_def side_def intro: quietly_emit split: option.split)

lemma quietly_fire: "fire_hook env ev data st = (r, st') \<Longrightarrow> quietly st st'"
  by (auto simp: fire_hook_def Let_def side_def intro: quietly_emit split: option.splits)

lemma quietly_small [simp, intro]:
  "quietly st (stream env e st)" "quietly st (phase env p st)" "quietly st (touch env st)"
  "quietly st (loop_ended env data st)" "quietly st (snd (save_session env st))"
  by (auto simp: stream_def phase_def touch_def loop_ended_def save_session_def side_def intro: quietly_emit split: option.split)

lemma quietly_save: "save_session env st = (r, st') \<Longrightarrow> quietly st st'"
  by (metis quietly_small(5) snd_conv)

text \<open>The fields such a step leaves alone.\<close>

lemma quietly_fields:
  assumes "quietly st st'"
  shows "cs_cooldown st' = cs_cooldown st" "t_session st' = t_session st" "t_messages st' = t_messages st"
    "t_usage st' = t_usage st" "t_calls st' = t_calls st" "t_text st' = t_text st" "t_guard st' = t_guard st"
    "t_max_tokens st' = t_max_tokens st" "t_any_tools st' = t_any_tools st" "t_tool_calls st' = t_tool_calls st"
  using assms by (auto simp: quietly_def)

lemma quietly_counts:
  assumes "quietly st st'"
  shows "filter is_asked (cs_events st') = filter is_asked (cs_events st)"
    "filter is_executed (cs_events st') = filter is_executed (cs_events st)"
  using assms by (auto simp: quietly_def side_def list_all_iff filter_empty_conv)

section \<open>From an iteration to a turn\<close>

locale turn_invariant =
  fixes env :: loop_env and message :: string and blocks :: "content_block list option" and session :: "message list"
    and inv :: "nat \<Rightarrow> turn_state \<Rightarrow> bool" and post :: "loop_error + loop_result \<Rightarrow> turn_state \<Rightarrow> bool"
  assumes start: "inv 0 (begin_turn env message blocks session)"
    and step: "inv i st \<Longrightarrow> i < unat (loop_max_iterations env)
      \<Longrightarrow> iterate_once env message (of_nat i) st = (Continue, st') \<Longrightarrow> inv (Suc i) st'"
    and stop: "inv i st \<Longrightarrow> i < unat (loop_max_iterations env)
      \<Longrightarrow> iterate_once env message (of_nat i) st = (Return r, st') \<Longrightarrow> post r st'"
    and out: "inv (unat (loop_max_iterations env)) st \<Longrightarrow> out_of_iterations env st = (res, st') \<Longrightarrow> post (Inr res) st'"
begin

lemma loop_post:
  "inv i st \<Longrightarrow> i + left = unat (loop_max_iterations env)
   \<Longrightarrow> loop_turn env message left (of_nat i) st = (r, st') \<Longrightarrow> post r st'"
proof (induction left arbitrary: i st)
  case 0
  then show ?case using out by (cases "out_of_iterations env st") auto
next
  case (Suc left)
  obtain f st1 where s: "iterate_once env message (of_nat i) st = (f, st1)" by (cases "iterate_once env message (of_nat i) st")
  show ?case
  proof (cases f)
    case Continue
    then have "inv (Suc i) st1" using Suc.prems s step by simp
    with Suc.IH [of "Suc i" st1] Suc.prems s Continue show ?thesis by (simp add: add.commute)
  next
    case (Return r')
    then show ?thesis using Suc.prems s stop by auto
  qed
qed

lemma turn_post: "run_turn env message blocks session = (r, st') \<Longrightarrow> post r st'"
  using loop_post [of 0] start by (simp add: run_turn_def)

end

section \<open>What asking the model changes\<close>

definition asks :: "nat \<Rightarrow> turn_state \<Rightarrow> turn_state \<Rightarrow> bool" where
  "asks n st st' \<longleftrightarrow> (\<exists>es. cs_events st' = cs_events st @ es \<and> length (filter is_asked es) \<le> n \<and> filter is_executed es = [])"

lemma asks_quietly: "quietly st st' \<Longrightarrow> asks 0 st st'"
  by (auto simp: quietly_def asks_def side_def list_all_iff filter_empty_conv)

lemma asks_trans: "asks n st st1 \<Longrightarrow> asks m st1 st2 \<Longrightarrow> asks (n + m) st st2"
  unfolding asks_def by (elim exE conjE) (rule_tac x = "es @ esa" in exI, simp)

lemma asks_messages: "asks n st (st'\<lparr>t_messages := ms\<rparr>) \<longleftrightarrow> asks n st st'"
  by (simp add: asks_def)

text \<open>The fields only the accounting and the tools change.\<close>

definition same_turn :: "turn_state \<Rightarrow> turn_state \<Rightarrow> bool" where
  "same_turn st st' \<longleftrightarrow> cs_cooldown st' = cs_cooldown st \<and> t_session st' = t_session st \<and> t_text st' = t_text st
     \<and> t_guard st' = t_guard st \<and> t_max_tokens st' = t_max_tokens st \<and> t_any_tools st' = t_any_tools st
     \<and> t_tool_calls st' = t_tool_calls st"

lemma same_turn_trans: "same_turn st st1 \<Longrightarrow> same_turn st1 st2 \<Longrightarrow> same_turn st st2"
  by (simp add: same_turn_def)

lemma same_turn_quietly: "quietly st st' \<Longrightarrow> same_turn st st'"
  by (simp add: same_turn_def quietly_fields)

lemma fit_context_effect:
  "quietly st st1 \<Longrightarrow> fit_context env st = st2 \<Longrightarrow> \<exists>st1 ms. quietly st st1 \<and> st2 = st1\<lparr>t_messages := ms\<rparr>"
  by (auto simp: fit_context_def Let_def split: prod.splits option.splits)

lemma call_events_asks: "call_events 4 m es \<Longrightarrow> length (filter is_asked es) \<le> 4 \<and> filter is_executed es = []"
proof
  assume c: "call_events 4 m es"
  then show "length (filter is_asked es) \<le> 4" by (simp add: call_events_def)
  have "\<not> is_executed e" if "e \<in> set es" for e
    using c that by (cases e) (auto simp: call_events_def list_all_iff)
  then show "filter is_executed es = []" by (simp add: filter_empty_conv)
qed

definition last_calls :: "turn_state \<Rightarrow> u32 \<Rightarrow> turn_state \<Rightarrow> bool" where
  "last_calls st iteration st' \<longleftrightarrow>
     (\<exists>c. t_calls st' = t_calls st @ [c] \<and> lc_n c = iteration
        \<and> t_usage st' = add_usage (t_usage st) \<lparr>input_tokens = lc_input_tokens c, output_tokens = lc_output_tokens c\<rparr>)"

lemma account_effect:
  assumes "account env iteration answered st = (resp, st')"
  shows "same_turn st st'" "asks 0 st st'" "last_calls st iteration st'" "t_messages st' = t_messages st"
proof -
  obtain r report where a: "answered = (r, report)" by (cases answered)
  let ?st1 = "st\<lparr>t_usage := add_usage (t_usage st) (resp_usage r),
       t_calls := record_call iteration (man_model (le_manifest env)) report (resp_usage r) (t_calls st)\<rparr>"
  let ?st2 = "report_call env (resp_usage r) ?st1"
  have q: "quietly ?st1 ?st2" by (auto simp: report_call_def Let_def)
  have st': "st' = ?st2\<lparr>t_calls := set_last_tool_calls (t_calls ?st2) (length (resp_tool_calls resp))\<rparr>"
    using assms a by (auto simp: account_def Let_def)
  show "same_turn st st'" using same_turn_quietly [OF q] by (simp add: st' same_turn_def)
  show "asks 0 st st'" using asks_quietly [OF q] by (simp add: st' asks_def)
  show "t_messages st' = t_messages st" using quietly_fields [OF q] by (simp add: st')
  show "last_calls st iteration st'"
    using quietly_fields [OF q]
    by (auto simp: st' last_calls_def set_last_tool_calls_def record_call_def add_usage_def)
qed

lemma ask_model_effect:
  assumes "ask_model env iteration st = (r, st')" "cs_cooldown st = None"
  shows "same_turn st st'" "asks 4 st st'" "\<And>resp. r = Inr resp \<Longrightarrow> last_calls st iteration st'"
proof -
  let ?st1 = "fit_context env st"
  let ?st2 = "touch env (phase env (if streaming env \<and> iteration = 0 then PhaseStreaming else PhaseThinking) ?st1)"
  obtain q ms where q: "quietly st q" "?st1 = q\<lparr>t_messages := ms\<rparr>"
    using fit_context_effect [of st st env ?st1] by auto
  have q2: "quietly ?st1 ?st2" by (meson quietly_small quietly_trans)
  have s2: "same_turn st ?st2" "asks 0 st ?st2" "t_calls ?st2 = t_calls st" "t_usage ?st2 = t_usage st"
    using q quietly_fields [OF q2] quietly_fields [OF q(1)] asks_trans [OF _ asks_quietly [OF q2], of 0 st] asks_quietly [OF q(1)]
    by (auto simp: same_turn_def asks_messages)
  let ?call = "call_with_retry (le_call env) (loop_request env ?st2) (Some (model_provider (man_model (le_manifest env))))
     (fallback_models (le_manifest env)) ?st2"
  obtain a st3 where a: "?call = (a, st3)" by (cases ?call)
  have "cs_cooldown ?st2 = None" using s2(1) assms(2) by (simp add: same_turn_def)
  then obtain es where es: "st3 = ?st2\<lparr>cs_events := cs_events ?st2 @ es\<rparr>" "call_events 4 (length (fallback_models (le_manifest env))) es"
    using call_only_emits [OF a] by blast
  have s3: "same_turn st st3" "t_calls st3 = t_calls st" "t_usage st3 = t_usage st"
    using s2 by (simp_all add: es(1) same_turn_def)
  have "asks 4 ?st2 st3" using call_events_asks [OF es(2)] by (auto simp: es(1) asks_def)
  from asks_trans [OF s2(2) this] have a3: "asks 4 st st3" by simp
  show "same_turn st st'" and "asks 4 st st'" and "\<And>resp. r = Inr resp \<Longrightarrow> last_calls st iteration st'"
  proof -
    have "same_turn st st' \<and> asks 4 st st' \<and> (\<forall>resp. r = Inr resp \<longrightarrow> last_calls st iteration st')"
    proof (cases a)
      case (Inl e)
      then have "r = Inl e" "st' = st3" using assms(1) a by (simp_all add: ask_model_def Let_def)
      then show ?thesis using s3 a3 by simp
    next
      case (Inr answered)
      obtain resp st4 where acc: "account env iteration answered st3 = (resp, st4)" by (cases "account env iteration answered st3")
      then have "r = Inr resp" "st' = st4" using assms(1) a Inr by (simp_all add: ask_model_def Let_def)
      then show ?thesis
        using account_effect [OF acc] s3 a3 same_turn_trans asks_trans [of 4 st st3 0 st4] by (auto simp: last_calls_def)
    qed
    then show "same_turn st st'" "asks 4 st st'" "\<And>resp. r = Inr resp \<Longrightarrow> last_calls st iteration st'" by blast+
  qed
qed

section \<open>What tool calls change\<close>

text \<open>An executed tool passed every gate for the call it was asked by.\<close>

fun permitted :: "loop_env \<Rightarrow> loop_event \<Rightarrow> bool" where
  "permitted env (Executed t input) = (\<exists>n tc. tc_input tc = input \<and> call_gate env tc n = Dispatched t)"
| "permitted env _ = True"

definition runs :: "loop_env \<Rightarrow> nat \<Rightarrow> turn_state \<Rightarrow> turn_state \<Rightarrow> bool" where
  "runs env n st st' \<longleftrightarrow> (\<exists>es. cs_events st' = cs_events st @ es \<and> filter is_asked es = []
     \<and> length (filter is_executed es) \<le> n \<and> list_all (permitted env) es)"

lemma side_permitted: "side e \<Longrightarrow> permitted env e"
  by (cases e) (auto simp: side_def)

lemma runs_quietly: "quietly st st' \<Longrightarrow> runs env 0 st st'"
  by (auto simp: quietly_def runs_def side_def list_all_iff filter_empty_conv intro!: side_permitted)

lemma runs_trans: "runs env n st st1 \<Longrightarrow> runs env m st1 st2 \<Longrightarrow> runs env (n + m) st st2"
  unfolding runs_def by (elim exE conjE) (rule_tac x = "es @ esa" in exI, simp)

lemma runs_mono: "runs env n st st' \<Longrightarrow> n \<le> m \<Longrightarrow> runs env m st st'"
  unfolding runs_def by (meson le_trans)

lemma runs_events: "cs_events a = cs_events st \<Longrightarrow> cs_events b = cs_events st' \<Longrightarrow> runs env n a b = runs env n st st'"
  by (simp add: runs_def)

definition tools_frame :: "turn_state \<Rightarrow> turn_state \<Rightarrow> bool" where
  "tools_frame st st' \<longleftrightarrow> cs_cooldown st' = cs_cooldown st \<and> t_session st' = t_session st \<and> t_messages st' = t_messages st
     \<and> t_usage st' = t_usage st \<and> t_calls st' = t_calls st \<and> t_text st' = t_text st
     \<and> t_max_tokens st' = t_max_tokens st \<and> t_any_tools st' = t_any_tools st"

lemma tools_frame_refl [simp]: "tools_frame st st"
  by (simp add: tools_frame_def)

lemma tools_frame_trans: "tools_frame st st1 \<Longrightarrow> tools_frame st1 st2 \<Longrightarrow> tools_frame st st2"
  by (simp add: tools_frame_def)

lemma tools_frame_quietly: "quietly st st' \<Longrightarrow> tools_frame st st' \<and> t_guard st' = t_guard st"
  by (simp add: tools_frame_def quietly_fields)

text \<open>One step of the tools: what it executed, and the guard it leaves.\<close>

definition tool_step :: "loop_env \<Rightarrow> nat \<Rightarrow> loop_guard \<Rightarrow> turn_state \<Rightarrow> turn_state \<Rightarrow> bool" where
  "tool_step env n g st st' \<longleftrightarrow> runs env n st st' \<and> tools_frame st st' \<and> t_guard st' = g"

lemma tool_step_quietly: "quietly st st' \<Longrightarrow> tool_step env 0 (t_guard st) st st'"
  by (simp add: tool_step_def runs_quietly tools_frame_quietly)

lemma tool_step_trans:
  "tool_step env n (t_guard st) st st1 \<Longrightarrow> tool_step env m (t_guard st1) st1 st2 \<Longrightarrow> tool_step env (n + m) (t_guard st) st st2"
  by (auto simp: tool_step_def intro: runs_trans tools_frame_trans)

lemma tool_step_fate: "tool_step env n g st st' \<Longrightarrow> tool_step env n g st (note_fate env tc fate st')"
  by (simp add: tool_step_def note_fate_def runs_def tools_frame_def)

lemma tool_step_guard: "tool_step env n g (st\<lparr>t_guard := g\<rparr>) st' \<Longrightarrow> tool_step env n g st st'"
  by (simp add: tool_step_def runs_def tools_frame_def)

lemma permitted_now: "call_gate env tc n = Dispatched t \<Longrightarrow> permitted env (Executed t (tc_input tc))"
  by (simp only: permitted.simps) blast

lemma execute_step:
  "execute_call env tc st = (r, st') \<Longrightarrow> tool_step env 1 (t_guard st) st st'"
  by (auto simp: execute_call_def Let_def tool_step_def tools_frame_def runs_def emit_def
      simp del: permitted.simps intro: permitted_now split: gate_result.splits)

lemma check_breaks:
  "(\<exists>m. snd (check_call hs g t p) = CircuitBreak m) \<longleftrightarrow> total_calls g + 1 > global_circuit_breaker (config g)"
  by (auto simp: check_call_def check_ping_pong_def bump_def Let_def split: option.split)

definition answers :: "tool_call \<Rightarrow> content_block \<Rightarrow> bool" where
  "answers tc b \<longleftrightarrow> (\<exists>c err. b = ToolResult (tc_id tc) (tc_name tc) c err)"

definition breaks :: "loop_env \<Rightarrow> tool_call \<Rightarrow> turn_state \<Rightarrow> bool" where
  "breaks env tc st \<longleftrightarrow> total_calls (t_guard st) + 1 > global_circuit_breaker (config (t_guard st))"

definition guard_after :: "loop_env \<Rightarrow> tool_call \<Rightarrow> turn_state \<Rightarrow> loop_guard" where
  "guard_after env tc st = fst (check_call (le_hashing env) (t_guard st) (tc_name tc) (tc_input tc))"

text \<open>A call that is let through: hook, gates, tool, and the result block.\<close>

lemma let_through:
  fixes st1 :: turn_state
  assumes "run_call env tc st = (r, st')" "check_call (le_hashing env) (t_guard st) (tc_name tc) (tc_input tc) = (g, v)"
    and "\<And>m. v \<noteq> CircuitBreak m" "\<And>m. v \<noteq> Block m"
  shows "tool_step env 1 g st st' \<and> (\<forall>b. r = Inr b \<longrightarrow> answers tc b)"
proof -
  let ?st1 = "st\<lparr>t_guard := g\<rparr>"
  let ?ph = "phase env (PhaseToolUse (phase_name (tc_name tc))) ?st1"
  let ?data = "[(''input'', tc_input tc), (''tool_name'', JString (tc_name tc))]"
  obtain objection st2 where h: "fire_hook env BeforeToolCall ?data ?ph = (objection, st2)"
    by (cases "fire_hook env BeforeToolCall ?data ?ph")
  have q2: "quietly ?st1 st2" using quietly_fire [OF h] quietly_small(2) quietly_trans by blast
  have t2: "tool_step env 0 g ?st1 st2" using tool_step_quietly [OF q2, of env] by simp
  show ?thesis
  proof (cases objection)
    case (Some reason)
    then have "r = Inr (ToolResult (tc_id tc) (tc_name tc) (''Hook blocked tool '' @ quoted (tc_name tc) @ '': '' @ reason) True)"
      "st' = note_fate env tc (Blocked ''stopped by a BeforeToolCall hook'') st2"
      using assms h by (cases v; simp add: run_call_def)+
    then show ?thesis
      using tool_step_guard [OF tool_step_fate [OF t2]]
      by (auto simp: answers_def tool_step_def intro: runs_mono)
  next
    case None
    obtain x st3 where e: "execute_call env tc st2 = (x, st3)" by (cases "execute_call env tc st2")
    have "t_guard st2 = g" using t2 by (simp add: tool_step_def)
    then have t3: "tool_step env 1 g ?st1 st3"
      using tool_step_trans [of env 0 ?st1 st2 1 st3] t2 execute_step [OF e] by simp
    show ?thesis
    proof (cases x)
      case None
      then have "r = Inl TurnPanics" "st' = st3"
        using assms h \<open>objection = None\<close> e by (cases v; simp add: run_call_def)+
      then show ?thesis using tool_step_guard [OF t3] by simp
    next
      case (Some y)
      obtain c err where y: "y = (c, err)" by (cases y)
      define shown where "shown = truncate_tool_result_dynamic c (new_budget (loop_window env))"
      define final where "final = (case v of LoopGuard.Warn msg \<Rightarrow> shown @ blank_line @ ''[LOOP GUARD] '' @ guard_msg_text msg | _ \<Rightarrow> shown)"
      let ?st4 = "observe env AfterToolCall [(''is_error'', JBool err), (''result'', JString c), (''tool_name'', JString (tc_name tc))] st3"
      let ?st5 = "stream env (ToolExecutionResult (tc_id tc) (tc_name tc) (concat (take 300 (utf8_chars final))) err) ?st4"
      have r: "r = Inr (ToolResult (tc_id tc) (tc_name tc) final err)"
        and s: "st' = note_fate env tc (if err then Errored else Completed) ?st5"
        using assms h \<open>objection = None\<close> e Some y
        by (cases v; simp add: run_call_def Let_def shown_def final_def)+
      have "quietly st3 ?st5" by (meson quietly_observe quietly_small(1) quietly_trans)
      moreover have "t_guard st3 = g" using t3 by (simp add: tool_step_def)
      ultimately have "tool_step env 1 g ?st1 ?st5"
        using tool_step_trans [of env 1 ?st1 st3 0 ?st5] t3 tool_step_quietly [of st3 ?st5 env] by simp
      then show ?thesis using r s tool_step_guard [OF tool_step_fate] by (simp add: answers_def)
    qed
  qed
qed

lemma run_call_effect:
  assumes "run_call env tc st = (r, st')"
  shows "tool_step env (if breaks env tc st then 0 else 1) (guard_after env tc st) st st'"
    and "r = Inr b \<Longrightarrow> answers tc b \<and> \<not> breaks env tc st"
proof -
  obtain g v where c: "check_call (le_hashing env) (t_guard st) (tc_name tc) (tc_input tc) = (g, v)"
    by (cases "check_call (le_hashing env) (t_guard st) (tc_name tc) (tc_input tc)")
  have g: "guard_after env tc st = g" by (simp add: guard_after_def c)
  have br: "breaks env tc st \<longleftrightarrow> (\<exists>m. v = CircuitBreak m)"
    using check_breaks [of "le_hashing env" "t_guard st" "tc_name tc" "tc_input tc"] c by (simp add: breaks_def)
  have "tool_step env (if breaks env tc st then 0 else 1) g st st' \<and> (\<forall>b. r = Inr b \<longrightarrow> answers tc b \<and> \<not> breaks env tc st)"
  proof (cases "\<exists>m. v = CircuitBreak m \<or> v = Block m")
    case False
    then show ?thesis using let_through [OF assms c] br by simp
  next
    case True
    then obtain m where "v = CircuitBreak m \<or> v = Block m" by blast
    then show ?thesis
    proof
      assume v: "v = CircuitBreak m"
      let ?st1 = "st\<lparr>t_guard := g\<rparr>"
      have "r = Inl (InternalError (guard_msg_text m))"
        "st' = loop_ended env [(''error'', JString (guard_msg_text m)), (''reason'', JString ''circuit_break'')] (snd (save_session env ?st1))"
        using assms c v by (simp_all add: run_call_def)
      moreover have "quietly ?st1 (loop_ended env [(''error'', JString (guard_msg_text m)), (''reason'', JString ''circuit_break'')] (snd (save_session env ?st1)))"
        by (meson quietly_small quietly_trans)
      ultimately show ?thesis
        using tool_step_guard [of env 0 g st st'] tool_step_quietly [of ?st1 st' env] br v by auto
    next
      assume v: "v = Block m"
      have "r = Inr (ToolResult (tc_id tc) (tc_name tc) (guard_msg_text m) True)"
        "st' = note_fate env tc (Blocked ''stopped by the loop guard'') (st\<lparr>t_guard := g\<rparr>)"
        using assms c v by (simp_all add: run_call_def)
      then show ?thesis
        using br v by (auto simp: answers_def tool_step_def note_fate_def runs_def tools_frame_def)
    qed
  qed
  then show "tool_step env (if breaks env tc st then 0 else 1) (guard_after env tc st) st st'"
    and "r = Inr b \<Longrightarrow> answers tc b \<and> \<not> breaks env tc st"
    using g by auto
qed

definition executed :: "turn_state \<Rightarrow> nat" where
  "executed st = length (filter is_executed (cs_events st))"

definition breaker :: "turn_state \<Rightarrow> u32" where
  "breaker st = global_circuit_breaker (config (t_guard st))"

text \<open>The guard's view of the calls that went through: none of them is missed, and no outcome is recorded.\<close>

definition guard_counts :: "turn_state \<Rightarrow> bool" where
  "guard_counts st \<longleftrightarrow> executed st \<le> unat (total_calls (t_guard st)) \<and> total_calls (t_guard st) \<le> breaker st"

definition same_outcomes :: "turn_state \<Rightarrow> turn_state \<Rightarrow> bool" where
  "same_outcomes st st' \<longleftrightarrow> outcome_counts (t_guard st') = outcome_counts (t_guard st)
     \<and> blocked_outcomes (t_guard st') = blocked_outcomes (t_guard st) \<and> breaker st' = breaker st"

lemma guard_after_frame:
  "config (guard_after env tc st) = config (t_guard st)"
  "total_calls (guard_after env tc st) = total_calls (t_guard st) + 1"
  "blocked_outcomes (guard_after env tc st) = blocked_outcomes (t_guard st)"
  "outcome_counts (guard_after env tc st) = outcome_counts (t_guard st)"
  by (simp_all add: guard_after_def check_frame)

lemma run_call_same:
  "run_call env tc st = (r, st') \<Longrightarrow> same_outcomes st st' \<and> tools_frame st st' \<and> runs env 1 st st'"
  using run_call_effect(1) [of env tc st r st']
  by (auto simp: tool_step_def same_outcomes_def breaker_def guard_after_frame intro: runs_mono split: if_splits)

lemma executed_runs: "runs env n st st' \<Longrightarrow> executed st' \<le> executed st + n"
  by (auto simp: runs_def executed_def)

lemma run_call_counts:
  assumes "run_call env tc st = (r, st')" "guard_counts st" "breaker st \<noteq> - 1"
  shows "executed st' \<le> unat (breaker st)" "r = Inr b \<Longrightarrow> guard_counts st'"
proof -
  let ?g = "t_guard st"
  have step: "runs env (if breaks env tc st then 0 else 1) st st'" "t_guard st' = guard_after env tc st"
    using run_call_effect(1) [OF assms(1)] by (simp_all add: tool_step_def)
  have le: "executed st' \<le> executed st + (if breaks env tc st then 0 else 1)" using executed_runs [OF step(1)] .
  have "total_calls ?g \<noteq> - 1"
    using assms(2,3) by (auto simp: guard_counts_def word_order.extremum_unique)
  then have "1 + total_calls ?g \<noteq> 0" by (metis add_eq_0_iff equation_minus_iff)
  then have suc: "unat (total_calls ?g + 1) = unat (total_calls ?g) + 1"
    using unatSuc [of "total_calls ?g"] by (simp add: add.commute)
  have "guard_counts st' \<and> executed st' \<le> unat (breaker st)" if n: "\<not> breaks env tc st"
  proof -
    have t: "total_calls ?g + 1 \<le> breaker st" using n by (simp add: breaks_def breaker_def)
    have "executed st' \<le> unat (total_calls ?g + 1)" using le n suc assms(2) by (simp add: guard_counts_def)
    with t show ?thesis
      by (auto simp: guard_counts_def step(2) guard_after_frame breaker_def word_le_nat_alt)
  qed
  moreover have "executed st' \<le> unat (breaker st)" if "breaks env tc st"
    using le that assms(2) by (auto simp: guard_counts_def word_le_nat_alt)
  ultimately show "executed st' \<le> unat (breaker st)" "r = Inr b \<Longrightarrow> guard_counts st'"
    using run_call_effect(2) [OF assms(1)] by blast+
qed

lemma same_outcomes_trans: "same_outcomes st st1 \<Longrightarrow> same_outcomes st1 st2 \<Longrightarrow> same_outcomes st st2"
  by (simp add: same_outcomes_def)

lemma run_calls_same:
  "run_calls env tcs st = (r, st') \<Longrightarrow>
   same_outcomes st st' \<and> tools_frame st st' \<and> (\<exists>n. runs env n st st') \<and> (\<forall>bs. r = Inr bs \<longrightarrow> list_all2 answers tcs bs)"
proof (induction tcs arbitrary: st r st')
  case Nil
  then show ?case by (auto simp: same_outcomes_def runs_def)
next
  case (Cons tc tcs)
  obtain x st1 where x: "run_call env tc st = (x, st1)" by (cases "run_call env tc st")
  note one = run_call_same [OF x]
  show ?case
  proof (cases x)
    case (Inl e)
    then show ?thesis using Cons.prems x one by auto
  next
    case (Inr b)
    obtain y st2 where y: "run_calls env tcs st1 = (y, st2)" by (cases "run_calls env tcs st1")
    have "st2 = st'" using Cons.prems x Inr y by (auto split: sum.splits)
    moreover have "answers tc b" using run_call_effect(2) [OF x] Inr by blast
    ultimately show ?thesis
      using Cons.IH [OF y] Cons.prems x Inr y one
      by (auto split: sum.splits intro: same_outcomes_trans tools_frame_trans runs_trans)
  qed
qed

lemma run_calls_counts:
  "run_calls env tcs st = (r, st') \<Longrightarrow> guard_counts st \<Longrightarrow> breaker st \<noteq> - 1 \<Longrightarrow>
   executed st' \<le> unat (breaker st) \<and> (\<forall>bs. r = Inr bs \<longrightarrow> guard_counts st')"
proof (induction tcs arbitrary: st r st')
  case Nil
  then show ?case by (auto simp: guard_counts_def word_le_nat_alt)
next
  case (Cons tc tcs)
  obtain x st1 where x: "run_call env tc st = (x, st1)" by (cases "run_call env tc st")
  note one = run_call_counts [OF x Cons.prems(2,3)]
  have b: "breaker st1 = breaker st" using run_call_same [OF x] by (simp add: same_outcomes_def)
  show ?case
  proof (cases x)
    case (Inl e)
    then show ?thesis using Cons.prems x one by auto
  next
    case (Inr b')
    obtain y st2 where y: "run_calls env tcs st1 = (y, st2)" by (cases "run_calls env tcs st1")
    have "guard_counts st1" using one(2) Inr by simp
    from Cons.IH [OF y this] Cons.prems x Inr y b show ?thesis by (auto split: sum.splits)
  qed
qed

section \<open>The invariant of a turn\<close>

text \<open>The rows of a turn: one per iteration, numbered from zero, adding up to its usage.\<close>

definition adds_up :: "nat \<Rightarrow> token_usage \<Rightarrow> llm_call list \<Rightarrow> bool" where
  "adds_up n tokens calls \<longleftrightarrow> map lc_n calls = map of_nat [0..<n]
     \<and> input_tokens tokens = sum_list (map lc_input_tokens calls)
     \<and> output_tokens tokens = sum_list (map lc_output_tokens calls)"

lemma adds_up_length: "adds_up n tokens calls \<Longrightarrow> length calls = n"
  by (auto simp: adds_up_def dest: arg_cong [of _ _ length])

text \<open>Text that is either missing or worth showing.\<close>

definition spoken :: "string \<Rightarrow> bool" where
  "spoken s \<longleftrightarrow> s = [] \<or> trim s \<noteq> []"

definition lawful :: "loop_env \<Rightarrow> nat \<Rightarrow> turn_state \<Rightarrow> bool" where
  "lawful env n st \<longleftrightarrow> list_all (permitted env) (cs_events st) \<and> length (filter is_asked (cs_events st)) \<le> 4 * n
     \<and> outcome_counts (t_guard st) = [] \<and> blocked_outcomes (t_guard st) = {}"

definition turn_inv :: "loop_env \<Rightarrow> nat \<Rightarrow> turn_state \<Rightarrow> bool" where
  "turn_inv env n st \<longleftrightarrow> lawful env n st \<and> cs_cooldown st = None \<and> spoken (t_text st) \<and> adds_up n (t_usage st) (t_calls st)"

definition good_result :: "loop_env \<Rightarrow> loop_result \<Rightarrow> bool" where
  "good_result env res \<longleftrightarrow> lr_iterations res \<le> loop_max_iterations env
     \<and> adds_up (unat (lr_iterations res)) (lr_usage res) (lr_calls res)
     \<and> (\<not> lr_silent res \<longrightarrow> trim (lr_response res) \<noteq> [])"

definition turn_post :: "loop_env \<Rightarrow> loop_error + loop_result \<Rightarrow> turn_state \<Rightarrow> bool" where
  "turn_post env r st \<longleftrightarrow> lawful env (unat (loop_max_iterations env)) st \<and> (\<forall>res. r = Inr res \<longrightarrow> good_result env res)"

lemma dropWhile_all: "list_all P (dropWhile P s) \<longleftrightarrow> list_all P s"
  by (induction s) auto

lemma list_all_dropWhile_Nil: "dropWhile P s = [] \<longleftrightarrow> list_all P s"
  by (simp add: dropWhile_eq_Nil_conv list_all_iff)

lemma trim_Nil_iff: "trim s = [] \<longleftrightarrow> list_all is_space s"
  unfolding trim_def rev_is_Nil_conv list_all_dropWhile_Nil list_all_rev dropWhile_all by (rule refl)

lemma trim_all: "list_all is_space (trim s) \<longleftrightarrow> list_all is_space s"
  unfolding trim_def list_all_rev dropWhile_all by (rule refl)

lemma lawful_mono: "lawful env n st \<Longrightarrow> n \<le> m \<Longrightarrow> lawful env m st"
  by (auto simp: lawful_def)

lemma lawful_quietly: "quietly st st' \<Longrightarrow> lawful env n st \<Longrightarrow> lawful env n st'"
  by (auto simp: lawful_def quietly_fields quietly_counts) (auto simp: quietly_def side_permitted list_all_iff)

lemma turn_inv_quietly: "quietly st st' \<Longrightarrow> turn_inv env n st \<Longrightarrow> turn_inv env n st'"
  by (simp add: turn_inv_def lawful_quietly quietly_fields)

text \<open>The fields the invariant does not look at.\<close>

lemma turn_inv_other [simp]:
  "turn_inv env n (say ms st) = turn_inv env n st" "turn_inv env n (remember_session ms st) = turn_inv env n st"
  "turn_inv env n (st\<lparr>t_messages := ms\<rparr>) = turn_inv env n st" "turn_inv env n (st\<lparr>t_session := ms\<rparr>) = turn_inv env n st"
  "turn_inv env n (st\<lparr>t_max_tokens := k\<rparr>) = turn_inv env n st" "turn_inv env n (st\<lparr>t_any_tools := b\<rparr>) = turn_inv env n st"
  by (simp_all add: turn_inv_def lawful_def say_def remember_session_def)

lemma turn_inv_text: "turn_inv env n st \<Longrightarrow> spoken s \<Longrightarrow> turn_inv env n (st\<lparr>t_text := s\<rparr>)"
  by (simp add: turn_inv_def lawful_def)

lemma spoken_accumulate: "spoken s \<Longrightarrow> spoken (accumulate s t)"
  by (auto simp: spoken_def accumulate_def trim_Nil_iff trim_all)

lemma turn_inv_lawful: "turn_inv env n st \<Longrightarrow> n \<le> m \<Longrightarrow> lawful env m st"
  by (auto simp: turn_inv_def intro: lawful_mono)

lemma adds_up_snoc:
  "adds_up n tokens calls \<Longrightarrow> lc_n c = of_nat n \<Longrightarrow>
   adds_up (Suc n) (add_usage tokens \<lparr>input_tokens = lc_input_tokens c, output_tokens = lc_output_tokens c\<rparr>) (calls @ [c])"
  by (simp add: adds_up_def add_usage_def)

lemma lawful_asks:
  assumes "asks 4 st st'" "same_turn st st'" "lawful env n st"
  shows "lawful env (Suc n) st'"
proof -
  obtain es where es: "cs_events st' = cs_events st @ es" "length (filter is_asked es) \<le> 4" "filter is_executed es = []"
    using assms(1) by (auto simp: asks_def)
  have "permitted env e" if "e \<in> set es" for e
    using es(3) that by (cases e) (auto simp: filter_empty_conv)
  then show ?thesis using es assms(2,3) by (auto simp: lawful_def same_turn_def list_all_iff)
qed

lemma ask_model_inv:
  assumes "ask_model env (of_nat i) st = (r, st')" "turn_inv env i st"
  shows "lawful env (Suc i) st'" "r = Inr resp \<Longrightarrow> turn_inv env (Suc i) st'"
proof -
  have c: "cs_cooldown st = None" "lawful env i st" using assms(2) by (auto simp: turn_inv_def)
  note eff = ask_model_effect [OF assms(1) c(1)]
  show l: "lawful env (Suc i) st'" by (rule lawful_asks [OF eff(2,1) c(2)])
  assume "r = Inr resp"
  from eff(3) [OF this] show "turn_inv env (Suc i) st'"
    using l eff(1) assms(2) adds_up_snoc by (auto simp: turn_inv_def last_calls_def same_turn_def)
qed

lemma turn_inv_tools:
  assumes "run_calls env tcs st = (r, st')" "turn_inv env n st"
  shows "turn_inv env n st'"
proof -
  obtain k where k: "runs env k st st'" "same_outcomes st st'" "tools_frame st st'"
    using run_calls_same [OF assms(1)] by blast
  then show ?thesis
    using assms(2) by (auto simp: turn_inv_def lawful_def runs_def same_outcomes_def tools_frame_def)
qed

lemma iteration_word: "Suc i \<le> unat (n :: u32) \<Longrightarrow> unat (of_nat i + 1 :: u32) = Suc i"
proof -
  assume "Suc i \<le> unat n"
  also have "unat n < 2 ^ 32" by (rule order_less_le_trans [OF unsigned_less]) simp
  finally have "Suc i < 2 ^ 32" .
  then have "unat (of_nat (Suc i) :: u32) = Suc i" by (simp add: unat_of_nat del: of_nat_Suc)
  then show ?thesis by (simp add: add.commute)
qed

text \<open>What a branch owes the turn: the invariant if it continues, a good result if it returns one.\<close>

definition owes :: "loop_env \<Rightarrow> nat \<Rightarrow> flow \<times> turn_state \<Rightarrow> bool" where
  "owes env n = (\<lambda>(f, st). turn_inv env n st
     \<and> (\<forall>res. f = Return (Inr res) \<longrightarrow> unat (lr_iterations res) = n \<and> lr_usage res = t_usage st \<and> lr_calls res = t_calls st
          \<and> (\<not> lr_silent res \<longrightarrow> trim (lr_response res) \<noteq> [])))"

lemma fail_owes: "turn_inv env n st \<Longrightarrow> owes env n (fail_without_text env iteration reason cause st)"
  unfolding fail_without_text_def Let_def owes_def
  using turn_inv_quietly [OF quietly_trans [OF quietly_small(5) quietly_small(4)]] by auto

lemma silent_owes:
  assumes "turn_inv env (Suc i) st" "Suc i \<le> unat (loop_max_iterations env)"
  shows "owes env (Suc i) (silent_end env (of_nat i) dirs st)"
proof -
  obtain err st1 where s: "save_session env (remember_session [assistant_text ''[no reply needed]''] st) = (err, st1)"
    by (cases "save_session env (remember_session [assistant_text ''[no reply needed]''] st)")
  have "turn_inv env (Suc i) st1" using turn_inv_quietly [OF quietly_save [OF s]] assms(1) by simp
  then show ?thesis
    by (auto simp: silent_end_def s owes_def result_of_def iteration_word [OF assms(2)] split: option.splits)
qed

lemma finish_owes:
  assumes "turn_inv env (Suc i) st" "Suc i \<le> unat (loop_max_iterations env)" "trim answer \<noteq> []"
  shows "owes env (Suc i) (finish_turn env message (of_nat i) resp answer st)"
proof -
  let ?st0 = "st\<lparr>t_session := prune_heartbeat_turns (t_session st
       @ [build_assistant_message_preserving_thinking (resp_content resp) answer]) 10\<rparr>"
  obtain err st1 where s: "save_session env ?st0 = (err, st1)" by (cases "save_session env ?st0")
  have i1: "turn_inv env (Suc i) st1" using turn_inv_quietly [OF quietly_save [OF s]] assms(1) by simp
  let ?st3 = "loop_ended env [(''iterations'', json_nat (unat (of_nat i + 1 :: u32))), (''response_length'', json_nat (length answer))]
     (phase env PhaseDone (emit (Remembered (interaction_text message answer)) st1))"
  have "quietly st1 ?st3"
    by (rule quietly_trans [OF quietly_emit quietly_trans [OF quietly_small(2) quietly_small(4)]]) (simp add: side_def)
  then have "turn_inv env (Suc i) ?st3" using i1 turn_inv_quietly by blast
  then show ?thesis
    using i1 assms(3) iteration_word [OF assms(2)]
    by (cases err) (auto simp: finish_turn_def s Let_def owes_def result_of_def)
qed

lemma text_or_accumulated_spoken:
  "text_or_accumulated s st = Some answer \<Longrightarrow> spoken (t_text st) \<Longrightarrow> trim answer \<noteq> []"
  by (auto simp: text_or_accumulated_def spoken_def split: if_splits)

lemma end_turn_owes:
  assumes "turn_inv env (Suc i) st" "Suc i \<le> unat (loop_max_iterations env)"
  shows "owes env (Suc i) (end_turn env message (of_nat i) resp st)"
proof -
  obtain answer dirs where d: "parse_directives (response_text resp) = (answer, dirs)"
    by (cases "parse_directives (response_text resp)")
  have sp: "spoken (t_text st)" using assms(1) by (simp add: turn_inv_def)
  have cont: "owes env (Suc i) (Continue, say ms st')" if "turn_inv env (Suc i) st'" for ms st'
    using that by (simp add: owes_def)
  have "owes env (Suc i) (Continue, retry_empty resp st)"
    unfolding retry_empty_def using assms(1) by (intro cont) simp
  then show ?thesis
    unfolding end_turn_def d Let_def prod.case
    by (simp only: split: if_split option.split)
      (use silent_owes [OF assms] fail_owes [OF assms(1)] finish_owes [OF assms text_or_accumulated_spoken [OF _ sp]]
        cont [OF assms(1)] in blast)
qed

lemma tool_turn_owes:
  assumes "turn_inv env n st" shows "owes env n (tool_turn env resp st)"
proof -
  let ?asked = "block_message Assistant (resp_content resp)"
  let ?st1 = "say [?asked] (remember_session [?asked] (st\<lparr>t_max_tokens := 0, t_any_tools := True,
      t_text := accumulate (t_text st) (response_text resp)\<rparr>))"
  have "spoken (accumulate (t_text st) (response_text resp))" using assms spoken_accumulate by (simp add: turn_inv_def)
  then have i1: "turn_inv env n ?st1" using turn_inv_text [of env n "st\<lparr>t_max_tokens := 0, t_any_tools := True\<rparr>"] assms by simp
  obtain r st2 where r: "run_calls env (deduplicate_tool_calls (le_hashing env) resp) ?st1 = (r, st2)"
    by (cases "run_calls env (deduplicate_tool_calls (le_hashing env) resp) ?st1")
  have i2: "turn_inv env n st2" by (rule turn_inv_tools [OF r i1])
  have "turn_inv env n (snd (save_session env (say ms (remember_session ms st2))))" for ms
    using turn_inv_quietly [OF quietly_small(5)] i2 by simp
  then show ?thesis using i2 by (cases r) (auto simp: tool_turn_def r owes_def Let_def)
qed

lemma max_tokens_owes:
  assumes "turn_inv env (Suc i) st" "Suc i \<le> unat (loop_max_iterations env)"
  shows "owes env (Suc i) (max_tokens_turn env (of_nat i) resp st)"
proof -
  let ?st1 = "st\<lparr>t_max_tokens := t_max_tokens st + 1\<rparr>"
  have i1: "turn_inv env (Suc i) ?st1" using assms(1) by simp
  show ?thesis
  proof (cases "t_max_tokens ?st1 \<ge> MAX_CONTINUATIONS")
    case False
    then show ?thesis using i1 by (simp add: max_tokens_turn_def Let_def owes_def)
  next
    case True
    show ?thesis
    proof (cases "text_or_accumulated (response_text resp) ?st1")
      case None
      then show ?thesis using True fail_owes [OF i1] by (simp add: max_tokens_turn_def Let_def)
    next
      case (Some answer)
      let ?st3 = "loop_ended env [(''iterations'', json_nat (unat (of_nat i + 1 :: u32))), (''reason'', JString ''max_continuations'')]
        (snd (save_session env (remember_session [build_assistant_message_preserving_thinking (resp_content resp) answer] ?st1)))"
      have "turn_inv env (Suc i) ?st3"
        by (rule turn_inv_quietly [OF quietly_trans [OF quietly_small(5) quietly_small(4)]]) (use i1 in simp)
      moreover have "trim answer \<noteq> []" using text_or_accumulated_spoken [OF Some] i1 by (simp add: turn_inv_def)
      ultimately show ?thesis
        using True Some iteration_word [OF assms(2)] by (simp add: max_tokens_turn_def Let_def owes_def result_of_def)
    qed
  qed
qed

lemma iterate_owes:
  assumes "turn_inv env i st" "i < unat (loop_max_iterations env)" "iterate_once env message (of_nat i) st = (f, st')"
  shows "lawful env (Suc i) st'" "f = Continue \<Longrightarrow> turn_inv env (Suc i) st'"
    "f = Return (Inr res) \<Longrightarrow> owes env (Suc i) (f, st')"
proof -
  obtain r st1 where a: "ask_model env (of_nat i) st = (r, st1)" by (cases "ask_model env (of_nat i) st")
  note inv = ask_model_inv [OF a assms(1)]
  have le: "Suc i \<le> unat (loop_max_iterations env)" using assms(2) by simp
  have "owes env (Suc i) (f, st')" if "r = Inr resp" for resp
    using assms(3) a that end_turn_owes [OF inv(2) le] tool_turn_owes [OF inv(2)] max_tokens_owes [OF inv(2) le]
    by (cases "stop_reason resp") (simp_all add: iterate_once_def, metis+)
  moreover have "f = Return (Inl (LlmDriverError e)) \<and> st' = st1" if "r = Inl e" for e
    using assms(3) a that by (simp add: iterate_once_def)
  ultimately show "lawful env (Suc i) st'" "f = Continue \<Longrightarrow> turn_inv env (Suc i) st'"
    "f = Return (Inr res) \<Longrightarrow> owes env (Suc i) (f, st')"
    using inv(1) by (cases r; auto simp: owes_def turn_inv_def)+
qed

lemma begin_turn_inv: "turn_inv env 0 (begin_turn env message blocks session)"
  unfolding begin_turn_def Let_def
  by (rule turn_inv_quietly [OF quietly_observe])
    (simp add: turn_inv_def lawful_def adds_up_def spoken_def new_guard_def)

lemma notice_shown: "trim (max_iterations_summary s (max_iterations_notice n calls)) \<noteq> []"
  by (auto simp: max_iterations_summary_def max_iterations_notice_def Let_def trim_Nil_iff is_space_def)

lemma out_of_iterations_good:
  assumes "turn_inv env (unat (loop_max_iterations env)) st" "out_of_iterations env st = (res, st')"
  shows "turn_post env (Inr res) st'"
proof -
  define notice where "notice = max_iterations_notice (loop_max_iterations env) (t_tool_calls st)"
  define summary where "summary = max_iterations_summary (t_text st) notice"
  define st1 where "st1 = remember_session [assistant_text summary] st"
  obtain ran errored blocked where c: "fate_counts (t_tool_calls st) = (ran, errored, blocked)" by (metis prod_cases3)
  have e: "res = result_of summary (loop_max_iterations env) False no_directives st'" "quietly st1 st'"
    using assms(2)
    by (auto simp: out_of_iterations_def Let_def c notice_def [symmetric] summary_def [symmetric] st1_def [symmetric]
        intro!: quietly_trans [OF quietly_small(1) quietly_trans [OF quietly_small(5) quietly_small(4)]])
  then have "turn_inv env (unat (loop_max_iterations env)) st'"
    using turn_inv_quietly assms(1) by (simp add: st1_def)
  then show ?thesis
    using notice_shown by (simp add: e(1) turn_post_def turn_inv_def good_result_def result_of_def summary_def notice_def)
qed

interpretation turn: turn_invariant env message blocks session "turn_inv env" "turn_post env" for env message blocks session
proof
  show "turn_inv env 0 (begin_turn env message blocks session)" by (rule begin_turn_inv)
next
  fix i st st'
  assume "turn_inv env i st" "i < unat (loop_max_iterations env)" "iterate_once env message (of_nat i) st = (Continue, st')"
  then show "turn_inv env (Suc i) st'" using iterate_owes(2) by blast
next
  fix i st r st'
  assume a: "turn_inv env i st" "i < unat (loop_max_iterations env)" "iterate_once env message (of_nat i) st = (Return r, st')"
  have "good_result env res" if "r = Inr res" for res
  proof -
    have o: "owes env (Suc i) (Return (Inr res), st')" using iterate_owes(3) [OF a] that by blast
    then have "unat (lr_iterations res) = Suc i" by (simp add: owes_def)
    then show ?thesis using o a(2) by (auto simp: good_result_def owes_def turn_inv_def word_le_nat_alt)
  qed
  then show "turn_post env r st'"
    using lawful_mono [OF iterate_owes(1) [OF a]] a(2) by (auto simp: turn_post_def)
next
  fix st res st'
  assume "turn_inv env (unat (loop_max_iterations env)) st" "out_of_iterations env st = (res, st')"
  then show "turn_post env (Inr res) st'" by (rule out_of_iterations_good)
qed

section \<open>What a turn guarantees\<close>

text \<open>
  C18: a turn asks the model at most four times per iteration, whatever the drivers answer, and ends;
  what it reports are the iterations it ran, at most the agent's maximum.
\<close>

theorem turn_is_bounded:
  "case run_turn env message blocks session of (r, st) \<Rightarrow>
     length (filter is_asked (cs_events st)) \<le> 4 * unat (loop_max_iterations env)
     \<and> (case r of Inr res \<Rightarrow> lr_iterations res \<le> loop_max_iterations env | Inl _ \<Rightarrow> True)"
  using turn.turn_post [of env message blocks session]
  by (auto simp: turn_post_def lawful_def good_result_def split: prod.splits sum.splits)

text \<open>
  C6: the accounting of a turn is complete: a result has one row per iteration, numbered in order, and
  the usage it reports is the sum of the rows.
\<close>

theorem usage_is_sum_of_calls:
  "case fst (run_turn env message blocks session) of
      Inl _ \<Rightarrow> True
    | Inr res \<Rightarrow> length (lr_calls res) = unat (lr_iterations res)
        \<and> map lc_n (lr_calls res) = map of_nat [0..<unat (lr_iterations res)]
        \<and> input_tokens (lr_usage res) = sum_list (map lc_input_tokens (lr_calls res))
        \<and> output_tokens (lr_usage res) = sum_list (map lc_output_tokens (lr_calls res))"
proof (cases "run_turn env message blocks session")
  case (Pair r st)
  have "adds_up (unat (lr_iterations res)) (lr_usage res) (lr_calls res)" if "r = Inr res" for res
    using turn.turn_post [OF Pair] that by (simp add: turn_post_def good_result_def)
  then show ?thesis using Pair adds_up_length by (cases r) (auto simp: adds_up_def)
qed

text \<open>The state of a turn after iterations that all went on, and a response that asks for silence.\<close>

fun rounds :: "loop_env \<Rightarrow> string \<Rightarrow> nat \<Rightarrow> u32 \<Rightarrow> turn_state \<Rightarrow> turn_state option" where
  "rounds env message 0 iteration st = Some st"
| "rounds env message (Suc k) iteration st =
     (case iterate_once env message iteration st of
        (Continue, st1) \<Rightarrow> rounds env message k (iteration + 1) st1
      | _ \<Rightarrow> None)"

definition asks_silence :: "completion_response \<Rightarrow> bool" where
  "asks_silence resp \<longleftrightarrow>
     (let (answer, dirs) = parse_directives (response_text resp) in is_silent_token answer \<or> silent dirs)"

lemma end_turn_silent:
  assumes "end_turn env message iteration resp st = (Return (Inr res), st')" "lr_silent res"
  shows "asks_silence resp \<and> lr_iterations res = iteration + 1"
proof -
  obtain answer dirs where d: "parse_directives (response_text resp) = (answer, dirs)"
    by (cases "parse_directives (response_text resp)")
  have f: "fail_without_text env iteration reason cause st \<noteq> (Return (Inr res), st')" for reason cause
    by (simp add: fail_without_text_def Let_def)
  have g: "finish_turn env message iteration resp answer st \<noteq> (Return (Inr res), st')" for answer
    using assms(2) by (auto simp: finish_turn_def result_of_def Let_def split: prod.splits option.splits)
  show ?thesis
  proof (cases "is_silent_token answer \<or> silent dirs")
    case True
    then have "silent_end env iteration dirs st = (Return (Inr res), st')" using assms(1) by (simp add: end_turn_def d)
    then have "lr_iterations res = iteration + 1"
      by (auto simp: silent_end_def result_of_def Let_def split: prod.splits option.splits)
    then show ?thesis using True by (simp add: asks_silence_def d)
  next
    case False
    then show ?thesis using assms(1) f g by (auto simp: end_turn_def d Let_def split: if_splits option.splits)
  qed
qed

lemma iterate_silent:
  assumes "iterate_once env message iteration st = (Return (Inr res), st')" "lr_silent res"
  shows "\<exists>resp st1. ask_model env iteration st = (Inr resp, st1) \<and> asks_silence resp \<and> lr_iterations res = iteration + 1"
proof -
  obtain r st1 where a: "ask_model env iteration st = (r, st1)" by (cases "ask_model env iteration st")
  have t: "tool_turn env resp st1 \<noteq> (Return (Inr res), st')" for resp
    by (auto simp: tool_turn_def Let_def split: sum.splits prod.splits)
  have m: "max_tokens_turn env iteration resp st1 \<noteq> (Return (Inr res), st')" for resp
    using assms(2) by (auto simp: max_tokens_turn_def result_of_def fail_without_text_def Let_def split: option.splits)
  show ?thesis
  proof (cases r)
    case (Inr resp)
    then have "end_turn env message iteration resp st1 = (Return (Inr res), st')"
      using assms(1) a t m by (cases "stop_reason resp") (auto simp: iterate_once_def)
    then show ?thesis using end_turn_silent [OF _ assms(2)] a Inr by blast
  qed (use assms(1) a in \<open>simp add: iterate_once_def\<close>)
qed

lemma loop_silent:
  assumes "loop_turn env message left iteration st = (Inr res, st')" "lr_silent res"
  shows "\<exists>k st0 resp st1. rounds env message k iteration st = Some st0 \<and> lr_iterations res = iteration + of_nat (Suc k)
    \<and> ask_model env (iteration + of_nat k) st0 = (Inr resp, st1) \<and> asks_silence resp"
  using assms(1)
proof (induction left arbitrary: iteration st)
  case 0
  then show ?case using assms(2) by (auto simp: out_of_iterations_def result_of_def Let_def split: prod.splits)
next
  case (Suc left)
  obtain f st1 where i: "iterate_once env message iteration st = (f, st1)" by (cases "iterate_once env message iteration st")
  show ?case
  proof (cases f)
    case Continue
    then have "loop_turn env message left (iteration + 1) st1 = (Inr res, st')" using Suc.prems i by simp
    from Suc.IH [OF this] obtain k st0 resp st2 where
      "rounds env message k (iteration + 1) st1 = Some st0" "lr_iterations res = iteration + 1 + of_nat (Suc k)"
      "ask_model env (iteration + 1 + of_nat k) st0 = (Inr resp, st2)" "asks_silence resp" by blast
    then show ?thesis using i Continue by (intro exI [of _ "Suc k"]) (auto simp: algebra_simps)
  next
    case (Return r)
    then have "iterate_once env message iteration st = (Return (Inr res), st')" using Suc.prems i by simp
    from iterate_silent [OF this assms(2)] show ?thesis by (intro exI [of _ 0]) auto
  qed
qed

text \<open>
  C5: a turn never passes off an empty answer as silence. If its result is silent, the response of the
  call the turn ended with asks for silence, by the token for no reply or by a directive; if its
  result is not silent, its response has visible text.
\<close>

theorem answers_have_text:
  "case fst (run_turn env message blocks session) of
      Inl _ \<Rightarrow> True
    | Inr res \<Rightarrow>
        if lr_silent res
        then (\<exists>k st0 resp st1. rounds env message k 0 (begin_turn env message blocks session) = Some st0
            \<and> lr_iterations res = of_nat (Suc k) \<and> ask_model env (of_nat k) st0 = (Inr resp, st1) \<and> asks_silence resp)
        else 0 < length (trim (lr_response res))"
proof (cases "run_turn env message blocks session")
  case (Pair r st)
  show ?thesis
  proof (cases r)
    case (Inr res)
    have "lr_silent res \<Longrightarrow> \<exists>k st0 resp st1. rounds env message k 0 (begin_turn env message blocks session) = Some st0
        \<and> lr_iterations res = of_nat (Suc k) \<and> ask_model env (of_nat k) st0 = (Inr resp, st1) \<and> asks_silence resp"
      using loop_silent [of env message "unat (loop_max_iterations env)" 0 "begin_turn env message blocks session" res st] Pair Inr
      by (simp add: run_turn_def)
    moreover have "\<not> lr_silent res \<Longrightarrow> 0 < length (trim (lr_response res))"
      using turn.turn_post [OF Pair] Inr by (auto simp: turn_post_def good_result_def)
    ultimately show ?thesis using Pair Inr by simp
  qed (simp add: Pair)
qed

lemma dispatched_allowed:
  "execute_tool_gate js name input handle (Some ts) caller exec manager = Dispatched t \<Longrightarrow>
   t \<in> set ts \<and> t = normalize_tool_name name"
  using approval_gate_stops gates_stop
  by (fastforce simp: execute_tool_gate_def Let_def split: if_split_asm option.split_asm)

text \<open>
  C4: every tool that runs in a turn is one the agent was offered, and passed every gate for a call of
  its input.
\<close>

theorem executed_tools_are_offered:
  "list_all (\<lambda>e. case e of
       Executed t input \<Rightarrow> t \<in> set (tool_names env) \<and> (\<exists>n tc. tc_input tc = input \<and> call_gate env tc n = Dispatched t)
     | _ \<Rightarrow> True) (cs_events (snd (run_turn env message blocks session)))"
proof -
  have "list_all (permitted env) (cs_events (snd (run_turn env message blocks session)))"
    using turn.turn_post [of env message blocks session] by (cases "run_turn env message blocks session") (simp add: turn_post_def lawful_def)
  then show ?thesis
  proof (rule list.pred_mono_strong)
    fix e assume "permitted env e"
    then show "case e of Executed t input \<Rightarrow>
        t \<in> set (tool_names env) \<and> (\<exists>n tc. tc_input tc = input \<and> call_gate env tc n = Dispatched t) | _ \<Rightarrow> True"
      by (cases e) (auto simp: call_gate_def dest!: dispatched_allowed)
  qed
qed

text \<open>
  The outcomes of calls are never recorded, so the guard's detection of identical outcomes, which
  its documentation promises, blocks nothing in a turn.
\<close>

theorem outcome_detection_never_runs:
  "case run_turn env message blocks session of (r, st) \<Rightarrow>
     outcome_counts (t_guard st) = [] \<and> blocked_outcomes (t_guard st) = {}"
  using turn.turn_post [of env message blocks session]
  by (auto simp: turn_post_def lawful_def split: prod.splits)

section \<open>A small agent\<close>

definition reply :: "stop_reason \<Rightarrow> string \<Rightarrow> u64 \<Rightarrow> completion_response" where
  "reply stop s tokens = \<lparr>resp_content = (if s = [] then [] else [ContentText s None]), stop_reason = stop, resp_tool_calls = [],
     resp_usage = \<lparr>input_tokens = tokens, output_tokens = tokens\<rparr>\<rparr>"

definition call_reply :: "string \<Rightarrow> tool_call list \<Rightarrow> completion_response" where
  "call_reply s tcs = \<lparr>resp_content = ContentText s None # map (\<lambda>tc. ToolUse (tc_id tc) (tc_name tc) (tc_input tc) None) tcs,
     stop_reason = ToolUseStop, resp_tool_calls = tcs, resp_usage = \<lparr>input_tokens = 7, output_tokens = 3\<rparr>\<rparr>"

text \<open>Its driver answers by the number of messages it is shown; it has one tool, \<open>ls\<close>.\<close>

definition sample_env :: "u32 \<Rightarrow> (nat \<Rightarrow> completion_response) \<Rightarrow> loop_env" where
  "sample_env n responses =
     (let d = (\<lambda>_ req. Inr (responses (length (req_messages req)), no_report))
      in \<lparr>le_call = \<lparr>ce_driver = \<lparr>complete_reported = d, stream_reported = d\<rparr>, ce_create_driver = (\<lambda>_. None),
             ce_env_var = (\<lambda>_. None), ce_parse_json = (\<lambda>_. None), ce_clock = (\<lambda>_. 0), ce_streaming = False\<rparr>,
          le_manifest = default_manifest\<lparr>man_autonomous := Some (default_autonomous_config\<lparr>auto_max_iterations := n\<rparr>)\<rparr>,
          le_agent_id = ''a'', le_tools = [\<lparr>tool_definition.tool_name = ''ls'', tool_description = [], input_schema = JNull\<rparr>],
          le_hashing = plain_hashing, le_text = (\<lambda>_. sample_lib), le_hooks = None, le_handle = (\<lambda>_. None), le_manager = False,
          le_refusal = (\<lambda>_. ''refused''), le_dispatch = (\<lambda>_ _ _. (''a b'', False)), le_duration_ms = (\<lambda>_ _. 0),
          le_save = (\<lambda>_. None), le_phases = False, le_window = Some 1000, le_memories = []\<rparr>)"

section \<open>The circuit breaker\<close>

text \<open>Steps that execute nothing and leave the guard alone.\<close>

definition idle :: "turn_state \<Rightarrow> turn_state \<Rightarrow> bool" where
  "idle st st' \<longleftrightarrow> filter is_executed (cs_events st') = filter is_executed (cs_events st)
     \<and> t_guard st' = t_guard st \<and> cs_cooldown st' = cs_cooldown st"

lemma idle_trans: "idle st st1 \<Longrightarrow> idle st1 st2 \<Longrightarrow> idle st st2"
  by (simp add: idle_def)

lemma idle_quietly: "quietly st st' \<Longrightarrow> idle st st'"
  by (simp add: idle_def quietly_fields quietly_counts)

lemma idle_fields [simp]:
  "idle st (say ms st') = idle st st'" "idle st (remember_session ms st') = idle st st'"
  "idle st (st'\<lparr>t_messages := ms\<rparr>) = idle st st'" "idle st (st'\<lparr>t_session := ms\<rparr>) = idle st st'"
  "idle st (st'\<lparr>t_max_tokens := k\<rparr>) = idle st st'" "idle st (st'\<lparr>t_any_tools := b\<rparr>) = idle st st'"
  "idle st (st'\<lparr>t_text := s\<rparr>) = idle st st'"
  "idle (say ms st) st' = idle st st'" "idle (remember_session ms st) st' = idle st st'"
  "idle (st\<lparr>t_session := ms\<rparr>) st' = idle st st'" "idle (st\<lparr>t_max_tokens := k\<rparr>) st' = idle st st'"
  by (simp_all add: idle_def say_def remember_session_def)

lemma idle_refl [simp]: "idle st st"
  by (simp add: idle_def)

lemma idle_small [simp]:
  "idle st (snd (save_session env st'))= idle st st'" "idle st (loop_ended env data st') = idle st st'"
  "idle st (phase env ph st') = idle st st'" "idle st (emit (Remembered s) st') = idle st st'"
  using idle_quietly [OF quietly_small(5), of st' env] idle_quietly [OF quietly_small(4), of st' env data]
    idle_quietly [OF quietly_small(2), of st' env ph]
  by (auto simp: idle_def emit_def)

lemma end_turn_idle: "idle st (snd (end_turn env message iteration resp st))"
proof -
  have "idle st (snd (silent_end env iteration dirs st))" for dirs
    using idle_quietly [OF quietly_save, of env "remember_session [assistant_text ''[no reply needed]''] st"]
    by (auto simp: silent_end_def split: prod.split)
  moreover have "idle st (snd (fail_without_text env iteration reason cause st))" for reason cause
    by (simp add: fail_without_text_def Let_def)
  moreover have "idle st (snd (finish_turn env message iteration resp answer st))" for answer
    using idle_quietly [OF quietly_save, of env "st\<lparr>t_session := prune_heartbeat_turns (t_session st
       @ [build_assistant_message_preserving_thinking (resp_content resp) answer]) 10\<rparr>"]
    by (auto simp: finish_turn_def Let_def split: prod.split option.split)
  moreover have "idle st (retry_empty resp st)" by (simp add: retry_empty_def)
  ultimately show ?thesis
    unfolding end_turn_def Let_def by (simp split: prod.split option.split)
qed

lemma max_tokens_idle: "idle st (snd (max_tokens_turn env iteration resp st))"
  by (simp add: max_tokens_turn_def fail_without_text_def Let_def split: option.split)

lemma ask_model_idle:
  "ask_model env iteration st = (r, st') \<Longrightarrow> cs_cooldown st = None \<Longrightarrow> idle st st'"
  using ask_model_effect(1,2) [of env iteration st r st'] by (auto simp: idle_def same_turn_def asks_def)

definition loop_breaker :: "loop_env \<Rightarrow> u32" where
  "loop_breaker env = global_circuit_breaker (loop_guard_config_for (loop_max_iterations env))"

definition counts_inv :: "loop_env \<Rightarrow> turn_state \<Rightarrow> bool" where
  "counts_inv env st \<longleftrightarrow> cs_cooldown st = None \<and> breaker st = loop_breaker env \<and> (loop_breaker env \<noteq> - 1 \<longrightarrow> guard_counts st)"

lemma counts_idle: "idle st st' \<Longrightarrow> counts_inv env st \<Longrightarrow> counts_inv env st'"
  by (auto simp: counts_inv_def idle_def breaker_def guard_counts_def executed_def)

definition counts_post :: "loop_env \<Rightarrow> turn_state \<Rightarrow> bool" where
  "counts_post env st \<longleftrightarrow> loop_breaker env \<noteq> - 1 \<longrightarrow> executed st \<le> unat (loop_breaker env)"

lemma counts_inv_post: "counts_inv env st \<Longrightarrow> counts_post env st"
  by (auto simp: counts_inv_def counts_post_def guard_counts_def word_le_nat_alt)

lemma tool_turn_counts:
  assumes "tool_turn env resp st = (f, st')" "counts_inv env st"
  shows "counts_post env st'" "f = Continue \<Longrightarrow> counts_inv env st'"
proof -
  let ?asked = "block_message Assistant (resp_content resp)"
  let ?st1 = "say [?asked] (remember_session [?asked] (st\<lparr>t_max_tokens := 0, t_any_tools := True,
      t_text := accumulate (t_text st) (response_text resp)\<rparr>))"
  have "idle st ?st1" by simp
  then have i1: "counts_inv env ?st1" using counts_idle assms(2) by blast
  obtain r st2 where r: "run_calls env (deduplicate_tool_calls (le_hashing env) resp) ?st1 = (r, st2)"
    by (cases "run_calls env (deduplicate_tool_calls (le_hashing env) resp) ?st1")
  have k: "counts_post env st2" "\<forall>bs. r = Inr bs \<longrightarrow> counts_inv env st2"
    using run_calls_counts [OF r] run_calls_same [OF r] i1
    by (auto simp: counts_inv_def counts_post_def same_outcomes_def tools_frame_def)
  have "idle st2 (snd (save_session env (say ms (remember_session ms st2))))" for ms by simp
  then have "counts_inv env st2 \<Longrightarrow> counts_inv env (snd (save_session env (say ms (remember_session ms st2))))" for ms
    using counts_idle by blast
  then show "counts_post env st'" "f = Continue \<Longrightarrow> counts_inv env st'"
    using k assms(1) counts_inv_post by (cases r; auto simp: tool_turn_def r Let_def)+
qed

lemma iterate_counts:
  assumes "iterate_once env message iteration st = (f, st')" "counts_inv env st"
  shows "counts_post env st'" "f = Continue \<Longrightarrow> counts_inv env st'"
proof -
  obtain r st1 where a: "ask_model env iteration st = (r, st1)" by (cases "ask_model env iteration st")
  have "cs_cooldown st = None" using assms(2) by (simp add: counts_inv_def)
  then have i1: "counts_inv env st1" by (rule counts_idle [OF ask_model_idle [OF a] assms(2)])
  have "counts_post env st' \<and> (f = Continue \<longrightarrow> counts_inv env st')"
  proof (cases r)
    case (Inl e)
    then show ?thesis using assms(1) a counts_inv_post [OF i1] by (auto simp: iterate_once_def)
  next
    case (Inr resp)
    have it: "counts_inv env (snd (end_turn env message iteration resp st1))"
      "counts_inv env (snd (max_tokens_turn env iteration resp st1))"
      using counts_idle [OF end_turn_idle i1] counts_idle [OF max_tokens_idle i1] by blast+
    show ?thesis
    proof (cases "stop_reason resp = ToolUseStop")
      case True
      then show ?thesis using assms(1) a Inr tool_turn_counts [OF _ i1] by (auto simp: iterate_once_def)
    next
      case False
      then have "st' = snd (end_turn env message iteration resp st1) \<or> st' = snd (max_tokens_turn env iteration resp st1)"
        using assms(1) a Inr by (cases "stop_reason resp") (auto simp: iterate_once_def)
      then show ?thesis using it counts_inv_post by blast
    qed
  qed
  then show "counts_post env st'" "f = Continue \<Longrightarrow> counts_inv env st'" by blast+
qed

lemma begin_turn_counts: "counts_inv env (begin_turn env message blocks session)"
  unfolding begin_turn_def Let_def
  by (rule counts_idle [OF idle_quietly [OF quietly_observe]])
    (simp add: counts_inv_def breaker_def loop_breaker_def guard_counts_def executed_def new_guard_def)

interpretation counted: turn_invariant env message blocks session "\<lambda>_. counts_inv env" "\<lambda>_. counts_post env"
  for env message blocks session
proof
  fix st res st'
  assume a: "counts_inv env st" "out_of_iterations env st = (res, st')"
  have "idle st st'"
    using a(2) idle_quietly [OF quietly_small(1)]
    by (auto simp: out_of_iterations_def Let_def idle_trans [OF _ idle_quietly [OF quietly_small(1)]] split: prod.splits)
  then show "counts_post env st'" using a(1) counts_idle counts_inv_post by blast
qed (use begin_turn_counts iterate_counts in blast)+

text \<open>
  C19: a turn executes at most as many tool calls as its circuit breaker allows: thirty, or three per
  iteration for an agent with a higher maximum than that.
\<close>

theorem executions_are_bounded:
  assumes "loop_max_iterations env < 2 ^ 30"
  shows "length (filter is_executed (cs_events (snd (run_turn env message blocks session))))
    \<le> (if loop_max_iterations env > 30 then 3 * unat (loop_max_iterations env) else 30)"
proof -
  let ?n = "loop_max_iterations env"
  have n: "unat ?n < 2 ^ 30" using assms by (simp add: word_less_nat_alt)
  have "unat (?n * 3) = 3 * unat ?n" using n by (simp add: unat_mult_lem [THEN iffD1])
  then have b: "unat (loop_breaker env) = (if ?n > 30 then 3 * unat ?n else 30)"
    by (simp add: loop_breaker_def loop_guard_config_for_def default_guard_config_def)
  moreover have "loop_breaker env \<noteq> - 1"
  proof
    assume "loop_breaker env = - 1"
    then have "unat (loop_breaker env) = 2 ^ 32 - 1" by (simp add: unat_minus_one_word)
    with b n show False by (auto split: if_splits)
  qed
  ultimately show ?thesis
    using counted.turn_post [of env message blocks session]
    by (cases "run_turn env message blocks session") (simp add: counts_post_def executed_def)
qed

theorem executions_are_bounded_witness:
  "length (filter is_executed (cs_events (snd (run_turn (sample_env 40 (\<lambda>k. reply EndTurn ''hello'' 5)) ''hi'' None [])))) \<le> 120"
  using executions_are_bounded [of "sample_env 40 (\<lambda>k. reply EndTurn ''hello'' 5)" "''hi''" None "[]"]
  by (simp add: sample_env_def loop_max_iterations_def Let_def)

section \<open>Results answer calls\<close>

fun result_id :: "content_block \<Rightarrow> string option" where
  "result_id (ToolResult i _ _ _) = Some i"
| "result_id _ = None"



lemma answers_ids: "list_all2 answers tcs bs \<Longrightarrow> List.map_filter result_id bs = map tc_id tcs"
  by (induction rule: list_all2_induct) (auto simp: answers_def map_filter_def)

lemma guidance_ids: "List.map_filter result_id (add_guidance bs) = List.map_filter result_id bs"
proof -
  have text_block: "List.map_filter result_id (xs @ [ContentText t m]) = List.map_filter result_id xs" for xs t m
    by (simp add: map_filter_def)
  show ?thesis unfolding add_guidance_def append_tool_error_guidance_def Let_def
    by (simp only: text_block split: if_split) simp
qed

lemma tool_turn_results:
  assumes "tool_turn env resp st = (Continue, st')"
  shows "\<exists>results. t_messages st' = t_messages st
      @ [block_message Assistant (resp_content resp), block_message User results]
    \<and> t_session st' = t_session st
      @ [block_message Assistant (resp_content resp), block_message User results]
    \<and> List.map_filter result_id results = map tc_id (deduplicate_tool_calls (le_hashing env) resp)"
proof -
  let ?asked = "block_message Assistant (resp_content resp)"
  let ?st1 = "say [?asked] (remember_session [?asked] (st\<lparr>t_max_tokens := 0, t_any_tools := True,
      t_text := accumulate (t_text st) (response_text resp)\<rparr>))"
  let ?tcs = "deduplicate_tool_calls (le_hashing env) resp"
  obtain r st2 where r: "run_calls env ?tcs ?st1 = (r, st2)" by (cases "run_calls env ?tcs ?st1")
  with assms obtain bs where bs: "r = Inr bs"
    "st' = snd (save_session env (say [block_message User (add_guidance bs)]
       (remember_session [block_message User (add_guidance bs)] st2)))"
    by (cases r) (auto simp: tool_turn_def Let_def)
  have f: "tools_frame ?st1 st2" "list_all2 answers ?tcs bs" using run_calls_same [OF r] bs(1) by auto
  have "List.map_filter result_id (add_guidance bs) = map tc_id ?tcs"
    by (simp add: guidance_ids answers_ids [OF f(2)])
  moreover have "t_messages st' = t_messages st @ [?asked, block_message User (add_guidance bs)]
    \<and> t_session st' = t_session st @ [?asked, block_message User (add_guidance bs)]"
    using f(1) quietly_fields(2,3) [OF quietly_small(5) [of "say [block_message User (add_guidance bs)]
       (remember_session [block_message User (add_guidance bs)] st2)" env]]
    by (simp add: bs(2) tools_frame_def say_def remember_session_def)
  ultimately show ?thesis by blast
qed




section \<open>What the loop does not intend\<close>

text \<open>
  The calls that the deduplication drops stay in the assistant's message, and get no result: two
  calls of a tool with the same input leave the second use unanswered in the next request.
\<close>

theorem duplicate_call_unanswered:
  assumes "tool_turn env resp st = (Continue, st')"
    and "resp_content resp = [ToolUse ''a'' ''ls'' JNull None, ToolUse ''b'' ''ls'' JNull None]"
    and "resp_tool_calls resp = [\<lparr>tc_id = ''a'', tc_name = ''ls'', tc_input = JNull\<rparr>, \<lparr>tc_id = ''b'', tc_name = ''ls'', tc_input = JNull\<rparr>]"
  shows "\<exists>results. t_messages st' = t_messages st @ [block_message Assistant (resp_content resp), block_message User results]
    \<and> List.map_filter result_id results = [''a'']"
  using tool_turn_results [OF assms(1)] by (auto simp: deduplicate_tool_calls_def assms(3))

text \<open>
  When the circuit breaks, the turn ends in an error that carries no usage, although the provider
  charged for it; and the session that is saved ends with the uses of that response, without the
  results of those that ran before the break.
\<close>

theorem circuit_break_loses_turn:
  assumes "tool_turn env resp st = (Return r, st')"
  shows "(\<exists>e. r = Inl e) \<and> t_session st' = t_session st @ [block_message Assistant (resp_content resp)]
    \<and> t_calls st' = t_calls st"
proof -
  let ?asked = "block_message Assistant (resp_content resp)"
  let ?st1 = "say [?asked] (remember_session [?asked] (st\<lparr>t_max_tokens := 0, t_any_tools := True,
      t_text := accumulate (t_text st) (response_text resp)\<rparr>))"
  obtain x st2 where x: "run_calls env (deduplicate_tool_calls (le_hashing env) resp) ?st1 = (x, st2)"
    by (cases "run_calls env (deduplicate_tool_calls (le_hashing env) resp) ?st1")
  then have "\<exists>e. x = Inl e \<and> r = Inl e \<and> st' = st2" using assms by (cases x) (auto simp: tool_turn_def Let_def)
  then show ?thesis using run_calls_same [OF x] by (auto simp: tools_frame_def say_def remember_session_def)
qed

text \<open>
  A response cut at the token limit is continued, but its text is not kept for the answer: when
  the continuation ends the turn, the caller gets the continuation alone.
\<close>

theorem continuation_forgets_text:
  assumes "max_tokens_turn env i resp1 st = (Continue, st1)"
    and "parse_directives (response_text resp2) = (answer, dirs)" "trim answer \<noteq> []"
    and "end_turn env message j resp2 st1 = (Return (Inr res), st2)" "\<not> lr_silent res"
  shows "lr_response res = answer \<and> t_text st1 = t_text st"
proof -
  have "t_text st1 = t_text st"
    using assms(1) by (auto simp: max_tokens_turn_def fail_without_text_def Let_def say_def remember_session_def
      split: if_splits option.splits)
  moreover have "lr_response res = answer"
    using assms(2-5)
    by (auto simp: end_turn_def silent_end_def finish_turn_def text_or_accumulated_def result_of_def Let_def
      split: if_splits option.splits prod.splits)
  ultimately show ?thesis by simp
qed

text \<open>
  The retry of an empty response is announced as one-shot, but a response with no tokens is retried
  in every iteration, each time with two more messages.
\<close>

lemma no_text_no_directives: "parse_directives [] = ([], no_directives)"
  by code_simp

theorem empty_response_retried_forever:
  assumes "response_text resp = []" "resp_tool_calls resp = []" "\<not> has_any_content resp" "silent_failure resp"
  shows "end_turn env message iteration resp st = (Continue, retry_empty resp st)
    \<and> t_messages (retry_empty resp st) = validate_and_repair (t_messages st)
        @ [assistant_text ''[no response]'', user_text ''Please provide your response.'']"
proof
  have s: "\<not> is_silent_token []" "trim [] = []" by (simp_all add: is_silent_token_def trim_def to_lowercase_def)
  show "end_turn env message iteration resp st = (Continue, retry_empty resp st)"
    using assms s by (simp add: end_turn_def no_text_no_directives no_directives_def)
  show "t_messages (retry_empty resp st) = validate_and_repair (t_messages st)
      @ [assistant_text ''[no response]'', user_text ''Please provide your response.'']"
    using assms(4) by (simp add: retry_empty_def say_def)
qed

text \<open>
  The breaker of an autonomous agent is three times its maximum, in 32 bits: a maximum that is
  meant to be without limit can leave a breaker that trips at the third call.
\<close>

theorem breaker_wraps_around: "global_circuit_breaker (loop_guard_config_for 1431655766) = 2"
  by (simp add: loop_guard_config_for_def default_guard_config_def)

text \<open>
  A claim of an action without a tool call is asked again for only in the loop that does not
  stream; the other returns it as the answer.
\<close>

theorem streamed_phantom_is_answered:
  assumes "streaming env" "le_save env (moment (st\<lparr>t_session := prune_heartbeat_turns (t_session st
       @ [build_assistant_message_preserving_thinking [ContentText ''I sent it to Slack.'' None] ''I sent it to Slack.'']) 10\<rparr>)) = None"
  shows "\<exists>res st'. end_turn env message 0 (reply EndTurn ''I sent it to Slack.'' 5) st = (Return (Inr res), st')
    \<and> lr_response res = ''I sent it to Slack.'' \<and> phantom_action_detected (lr_response res)"
proof -
  have d: "parse_directives ''I sent it to Slack.'' = (''I sent it to Slack.'', no_directives)" by code_simp
  have p: "phantom_action_detected ''I sent it to Slack.''" "\<not> is_silent_token ''I sent it to Slack.''"
    "trim ''I sent it to Slack.'' = ''I sent it to Slack.''" by code_simp+
  show ?thesis
    using assms p
    by (simp add: end_turn_def reply_def response_text_def d no_directives_def text_or_accumulated_def finish_turn_def
        save_session_def Let_def result_of_def)
qed

end
