(* ===== verification/Peers.thy ===== *)
theory Peers
  imports Utf8
begin

text \<open>
  The messages of the peer protocol and the registry of known peers:
  \<open>openfang-wire/src/message.rs\<close> and \<open>registry.rs\<close>. How a message is written as JSON is a
  parameter of the theory that frames messages; here are the length header and what the registry
  keeps of a peer. A socket address is its text.
\<close>

type_synonym socket_addr = string
type_synonym i32 = "32 word"

section \<open>Messages\<close>

record remote_agent_info =
  ra_id :: string
  ra_name :: string
  ra_description :: string
  ra_tags :: "string list"
  ra_tools :: "string list"
  ra_state :: string

text \<open>Node, name, protocol version, agents, nonce and signature of a greeting and of its answer.\<close>

datatype wire_request =
    Handshake string string u32 "remote_agent_info list" string string
  | Discover string
  | AgentMessage string string "string option"
  | Ping

datatype wire_response =
    HandshakeAck string string u32 "remote_agent_info list" string string
  | DiscoverResult "remote_agent_info list"
  | AgentResponse string
  | Pong u64
  | ErrorResponse i32 string

datatype wire_notification =
    AgentSpawned remote_agent_info
  | AgentTerminated string
  | ShuttingDown

datatype wire_message_kind =
    Request wire_request
  | Response wire_response
  | Notification wire_notification

record wire_message =
  wm_id :: string
  wm_kind :: wire_message_kind

definition PROTOCOL_VERSION :: u32 where "PROTOCOL_VERSION = 1"

section \<open>The length header\<close>

text \<open>\<open>u32::to_be_bytes\<close> and \<open>from_be_bytes\<close>.\<close>

definition to_be_bytes :: "u32 \<Rightarrow> string" where
  "to_be_bytes n = map (\<lambda>k. char_of (unat n div 2 ^ k mod 256)) [24, 16, 8, 0]"

definition decode_length :: "string \<Rightarrow> u32" where
  "decode_length header = of_nat (foldl (\<lambda>acc c. 256 * acc + of_char c) 0 header)"

text \<open>
  The frame of a message whose JSON text is given. The cast of the length to \<open>u32\<close> wraps.
\<close>

definition encode_message :: "(wire_message \<Rightarrow> string option) \<Rightarrow> wire_message \<Rightarrow> string option" where
  "encode_message to_json msg =
     map_option (\<lambda>json. to_be_bytes (of_nat (length json)) @ json) (to_json msg)"

lemma length_to_be_bytes [simp]: "length (to_be_bytes n) = 4"
  by (simp add: to_be_bytes_def)

lemma decode_to_be_bytes [simp]: "decode_length (to_be_bytes n) = n"
proof -
  let ?n = "unat n"
  have lt: "?n < 256 * 256 * 256 * 256" using unat_lt_2p [of n] by simp
  have "foldl (\<lambda>acc c. 256 * acc + of_char c) 0 (to_be_bytes n)
      = 256 * (256 * (256 * (?n div 16777216 mod 256) + ?n div 65536 mod 256) + ?n div 256 mod 256) + ?n mod 256"
    by (simp add: to_be_bytes_def)
  also have "\<dots> = ?n"
  proof -
    have digit: "256 * (?n div (k * 256)) + ?n div k mod 256 = ?n div k" for k
      by (simp add: div_mult2_eq)
    have "?n div 16777216 mod 256 = ?n div 16777216" using lt by (simp add: less_mult_imp_div_less)
    then show ?thesis using digit [of 65536] digit [of 256] digit [of 1] by simp
  qed
  finally show ?thesis by (simp add: decode_length_def)
qed

section \<open>The registry\<close>

datatype peer_state = Connected | Disconnected

record peer_entry =
  pe_node_id :: string
  pe_node_name :: string
  pe_address :: socket_addr
  pe_agents :: "remote_agent_info list"
  pe_state :: peer_state
  pe_connected_at :: instant
  pe_protocol_version :: u32

record remote_agent =
  rem_peer_node_id :: string
  rem_info :: remote_agent_info

type_synonym peer_registry = "(string, peer_entry) dashmap"

definition new_registry :: peer_registry where "new_registry = []"

definition add_peer :: "peer_entry \<Rightarrow> peer_registry \<Rightarrow> peer_registry" where
  "add_peer e peers = dm_insert (pe_node_id e) e peers"

definition remove_peer :: "string \<Rightarrow> peer_registry \<Rightarrow> peer_entry option \<times> peer_registry" where
  "remove_peer i peers = (dm_get peers i, dm_remove i peers)"

definition mark_disconnected :: "string \<Rightarrow> peer_registry \<Rightarrow> peer_registry" where
  "mark_disconnected i = dm_modify i (\<lambda>e. e\<lparr>pe_state := Disconnected\<rparr>)"

definition mark_connected :: "string \<Rightarrow> peer_registry \<Rightarrow> peer_registry" where
  "mark_connected i = dm_modify i (\<lambda>e. e\<lparr>pe_state := Connected\<rparr>)"

definition get_peer :: "peer_registry \<Rightarrow> string \<Rightarrow> peer_entry option" where
  "get_peer peers i = dm_get peers i"

definition connected_peers :: "peer_registry \<Rightarrow> peer_entry list" where
  "connected_peers peers = filter (\<lambda>p. pe_state p = Connected) (dm_values peers)"

definition all_peers :: "peer_registry \<Rightarrow> peer_entry list" where
  "all_peers peers = dm_values peers"

definition update_agents :: "string \<Rightarrow> remote_agent_info list \<Rightarrow> peer_registry \<Rightarrow> peer_registry" where
  "update_agents i agents = dm_modify i (\<lambda>e. e\<lparr>pe_agents := agents\<rparr>)"

text \<open>\<open>add_agent\<close> replaces the first agent of that id, or appends.\<close>

fun put_agent :: "remote_agent_info \<Rightarrow> remote_agent_info list \<Rightarrow> remote_agent_info list" where
  "put_agent a [] = [a]"
| "put_agent a (x # xs) = (if ra_id x = ra_id a then a # xs else x # put_agent a xs)"

definition add_agent :: "string \<Rightarrow> remote_agent_info \<Rightarrow> peer_registry \<Rightarrow> peer_registry" where
  "add_agent i agent = dm_modify i (\<lambda>e. e\<lparr>pe_agents := put_agent agent (pe_agents e)\<rparr>)"

definition remove_remote_agent :: "string \<Rightarrow> string \<Rightarrow> peer_registry \<Rightarrow> peer_registry" where
  "remove_remote_agent i agent_id =
     dm_modify i (\<lambda>e. e\<lparr>pe_agents := filter (\<lambda>a. ra_id a \<noteq> agent_id) (pe_agents e)\<rparr>)"

definition agents_of :: "peer_entry \<Rightarrow> remote_agent list" where
  "agents_of p = map (\<lambda>a. \<lparr>rem_peer_node_id = pe_node_id p, rem_info = a\<rparr>) (pe_agents p)"

definition agent_matches :: "string \<Rightarrow> remote_agent_info \<Rightarrow> bool" where
  "agent_matches query_lower agent =
     (str_contains (to_lowercase (ra_name agent)) query_lower
      \<or> str_contains (to_lowercase (ra_description agent)) query_lower
      \<or> list_ex (\<lambda>t. str_contains (to_lowercase t) query_lower) (ra_tags agent))"

definition find_agents :: "peer_registry \<Rightarrow> string \<Rightarrow> remote_agent list" where
  "find_agents peers query =
     (let q = to_lowercase query
      in filter (\<lambda>r. agent_matches q (rem_info r)) (concat (map agents_of (connected_peers peers))))"

definition all_remote_agents :: "peer_registry \<Rightarrow> remote_agent list" where
  "all_remote_agents peers = concat (map agents_of (connected_peers peers))"

definition connected_count :: "peer_registry \<Rightarrow> usize" where
  "connected_count peers = length (connected_peers peers)"

definition total_count :: "peer_registry \<Rightarrow> usize" where
  "total_count peers = length peers"

section \<open>What the registry keeps\<close>

text \<open>Every entry stands under its own id, whatever is done to the registry.\<close>

definition registry_wf :: "peer_registry \<Rightarrow> bool" where
  "registry_wf peers \<longleftrightarrow> dm_wf peers \<and> (\<forall>i e. dm_get peers i = Some e \<longrightarrow> pe_node_id e = i)"

lemma registry_wf_new [simp]: "registry_wf new_registry"
  by (simp add: registry_wf_def new_registry_def)

lemma registry_wf_add [intro]: "registry_wf peers \<Longrightarrow> registry_wf (add_peer e peers)"
  by (auto simp: registry_wf_def add_peer_def)

lemma registry_wf_modify:
  "registry_wf peers \<Longrightarrow> (\<And>e. pe_node_id (f e) = pe_node_id e) \<Longrightarrow> registry_wf (dm_modify i f peers)"
  by (auto simp: registry_wf_def split: if_splits)

lemma registry_wf_ops [intro]:
  assumes "registry_wf peers"
  shows "registry_wf (snd (remove_peer i peers))" "registry_wf (mark_disconnected i peers)"
    "registry_wf (mark_connected i peers)" "registry_wf (update_agents i as peers)"
    "registry_wf (add_agent i a peers)" "registry_wf (remove_remote_agent i k peers)"
  using assms
  by (auto simp: remove_peer_def mark_disconnected_def mark_connected_def update_agents_def
      add_agent_def remove_remote_agent_def intro!: registry_wf_modify)
     (auto simp: registry_wf_def split: if_splits)

lemma dm_modify_keys: "dm_get (dm_modify i f peers) k \<noteq> None \<longleftrightarrow> dm_get peers k \<noteq> None"
  by auto

lemma put_agent_ids: "set (map ra_id (put_agent a as)) = insert (ra_id a) (set (map ra_id as))"
  by (induction as) auto

lemma put_agent_distinct: "distinct (map ra_id as) \<Longrightarrow> distinct (map ra_id (put_agent a as))"
  using put_agent_ids [of a] by (induction as) (auto simp del: set_map)

lemma connected_in_registry:
  "registry_wf peers \<Longrightarrow> p \<in> set (connected_peers peers) \<longleftrightarrow>
     dm_get peers (pe_node_id p) = Some p \<and> pe_state p = Connected"
  by (auto simp: connected_peers_def registry_wf_def dm_values_get)

text \<open>
  A search finds exactly the agents that match the query and that a connected peer advertises;
  a disconnected peer's agents are not offered.
\<close>

theorem find_agents_iff:
  assumes "registry_wf peers"
  shows "r \<in> set (find_agents peers query) \<longleftrightarrow>
    (\<exists>p. get_peer peers (rem_peer_node_id r) = Some p \<and> pe_state p = Connected
       \<and> rem_info r \<in> set (pe_agents p) \<and> agent_matches (to_lowercase query) (rem_info r))"
proof -
  have "r \<in> set (concat (map agents_of (connected_peers peers))) \<longleftrightarrow>
      (\<exists>p. p \<in> set (connected_peers peers) \<and> pe_node_id p = rem_peer_node_id r \<and> rem_info r \<in> set (pe_agents p))"
    by (cases r) (auto simp: agents_of_def)
  also have "\<dots> \<longleftrightarrow>
      (\<exists>p. dm_get peers (rem_peer_node_id r) = Some p \<and> pe_state p = Connected \<and> rem_info r \<in> set (pe_agents p))"
    using connected_in_registry [OF assms] assms unfolding registry_wf_def by metis
  finally have "r \<in> set (concat (map agents_of (connected_peers peers))) \<longleftrightarrow>
      (\<exists>p. dm_get peers (rem_peer_node_id r) = Some p \<and> pe_state p = Connected \<and> rem_info r \<in> set (pe_agents p))" .
  then show ?thesis by (auto simp: find_agents_def get_peer_def Let_def)
qed

end
