(* ===== verification/Wire.thy ===== *)
theory Wire
  imports Peers
begin

text \<open>
  The peer protocol of \<open>openfang-wire/src/peer.rs\<close>: signed greetings with single-use nonces,
  frames signed with a key per connection, and the node that accepts and opens connections. HMAC
  and hexadecimal text (crates \<open>hmac\<close>, \<open>sha2\<close>, \<open>hex\<close>) and \<open>serde_json\<close> are the parameters
  \<open>wire_lib\<close>; the kernel behind the node is \<open>peer_handle\<close>. A socket holds all that the other side
  will send; what a node does to it is done in the order of its steps, and the steps of several
  connections interleave freely in \<open>world_step\<close>.
\<close>

section \<open>Surroundings\<close>

record wire_lib =
  wl_hmac :: "string \<Rightarrow> string \<Rightarrow> string"
  wl_hex :: "string \<Rightarrow> string"
  wl_to_json :: "wire_message \<Rightarrow> string option"
  wl_from_json :: "string \<Rightarrow> wire_message option"

text \<open>The messages delivered to local agents so far: peer, agent, text and sender.\<close>

type_synonym delivered = "(string \<times> string \<times> string \<times> string option) list"

record peer_handle =
  ph_local_agents :: "delivered \<Rightarrow> remote_agent_info list"
  ph_agent_message :: "delivered \<Rightarrow> string \<Rightarrow> string \<Rightarrow> string option \<Rightarrow> string + string"
  ph_discover :: "delivered \<Rightarrow> string \<Rightarrow> remote_agent_info list"
  ph_uptime :: "delivered \<Rightarrow> u64"

datatype io_error = UnexpectedEof | OtherIo

datatype wire_error =
    Io io_error
  | Json
  | HandshakeFailed string
  | ConnectionClosed
  | MessageTooLarge u32 u32
  | VersionMismatch u32 u32

text \<open>
  A socket: what will still arrive, whether it then breaks instead of ending, what was sent, and
  how many more writes the other side takes.
\<close>

record socket =
  incoming :: string
  breaks :: bool
  outgoing :: "string list"
  writes_left :: nat

definition read_exact :: "nat \<Rightarrow> socket \<Rightarrow> (io_error + string) \<times> socket" where
  "read_exact n sock =
     (if length (incoming sock) < n
      then (Inl (if breaks sock then OtherIo else UnexpectedEof), sock\<lparr>incoming := []\<rparr>)
      else (Inr (take n (incoming sock)), sock\<lparr>incoming := drop n (incoming sock)\<rparr>))"

definition write_all :: "string \<Rightarrow> socket \<Rightarrow> (wire_error + unit) \<times> socket" where
  "write_all bytes sock =
     (if writes_left sock = 0 then (Inl (Io OtherIo), sock)
      else (Inr (), sock\<lparr>outgoing := outgoing sock @ [bytes], writes_left := writes_left sock - 1\<rparr>))"

section \<open>Nonces\<close>

record nonce_tracker =
  seen :: "(string, instant) dashmap"
  window :: duration

definition new_tracker :: nonce_tracker where
  "new_tracker = \<lparr>seen = [], window = from_secs 300\<rparr>"

definition collect_nonces :: "instant \<Rightarrow> nonce_tracker \<Rightarrow> nonce_tracker" where
  "collect_nonces now t = t\<lparr>seen := filter (\<lambda>(_, ts). elapsed now ts < window t) (seen t)\<rparr>"

definition record_nonce :: "instant \<Rightarrow> string \<Rightarrow> nonce_tracker \<Rightarrow> nonce_tracker" where
  "record_nonce now nonce t = t\<lparr>seen := dm_insert nonce now (seen t)\<rparr>"

definition check_and_record :: "instant \<Rightarrow> string \<Rightarrow> nonce_tracker \<Rightarrow> (string + unit) \<times> nonce_tracker" where
  "check_and_record now nonce t =
     (let t1 = collect_nonces now t
      in if dm_get (seen t1) nonce \<noteq> None
         then (Inl (''Nonce replay detected: '' @ safe_truncate_str nonce 16), t1)
         else (Inr (), record_nonce now nonce t1))"

section \<open>Signatures\<close>

definition hmac_sign :: "wire_lib \<Rightarrow> string \<Rightarrow> string \<Rightarrow> string" where
  "hmac_sign lib secret data = wl_hex lib (wl_hmac lib secret data)"

definition hmac_verify :: "wire_lib \<Rightarrow> string \<Rightarrow> string \<Rightarrow> string \<Rightarrow> bool" where
  "hmac_verify lib secret data signature = (hmac_sign lib secret data = signature)"

definition derive_session_key :: "wire_lib \<Rightarrow> string \<Rightarrow> string \<Rightarrow> string \<Rightarrow> string" where
  "derive_session_key lib shared_secret our_nonce their_nonce =
     hmac_sign lib shared_secret (our_nonce @ their_nonce)"

section \<open>Frames\<close>

definition MAX_MESSAGE_SIZE :: u32 where "MAX_MESSAGE_SIZE = 16 * 1024 * 1024"
definition HMAC_HEX_LEN :: nat where "HMAC_HEX_LEN = 64"

definition write_message :: "wire_lib \<Rightarrow> wire_message \<Rightarrow> socket \<Rightarrow> (wire_error + unit) \<times> socket" where
  "write_message lib msg sock =
     (case encode_message (wl_to_json lib) msg of None \<Rightarrow> (Inl Json, sock) | Some bytes \<Rightarrow> write_all bytes sock)"

definition signed_frame :: "wire_lib \<Rightarrow> string \<Rightarrow> string \<Rightarrow> string" where
  "signed_frame lib session_key json =
     (let mac = hmac_sign lib session_key json
      in to_be_bytes (of_nat (length json + length mac)) @ json @ mac)"

definition write_message_authenticated ::
  "wire_lib \<Rightarrow> wire_message \<Rightarrow> string \<Rightarrow> socket \<Rightarrow> (wire_error + unit) \<times> socket" where
  "write_message_authenticated lib msg session_key sock =
     (case wl_to_json lib msg of
        None \<Rightarrow> (Inl Json, sock)
      | Some json \<Rightarrow> write_all (signed_frame lib session_key json) sock)"

text \<open>The header that both readers read first, with the limit on the size.\<close>

definition read_length :: "socket \<Rightarrow> (wire_error + u32) \<times> socket" where
  "read_length sock =
     (case read_exact 4 sock of
        (Inl UnexpectedEof, s) \<Rightarrow> (Inl ConnectionClosed, s)
      | (Inl e, s) \<Rightarrow> (Inl (Io e), s)
      | (Inr header, s) \<Rightarrow>
          let len = decode_length header
          in if len > MAX_MESSAGE_SIZE then (Inl (MessageTooLarge len MAX_MESSAGE_SIZE), s) else (Inr len, s))"

definition read_message :: "wire_lib \<Rightarrow> socket \<Rightarrow> (wire_error + wire_message) \<times> socket" where
  "read_message lib sock =
     (case read_length sock of
        (Inl e, s) \<Rightarrow> (Inl e, s)
      | (Inr len, s) \<Rightarrow>
          (case read_exact (unat len) s of
             (Inl e, s1) \<Rightarrow> (Inl (Io e), s1)
           | (Inr body, s1) \<Rightarrow>
               (case wl_from_json lib body of None \<Rightarrow> (Inl Json, s1) | Some msg \<Rightarrow> (Inr msg, s1))))"

definition open_frame :: "wire_lib \<Rightarrow> string \<Rightarrow> string \<Rightarrow> wire_error + wire_message" where
  "open_frame lib session_key frame =
     (let json_len = length frame - HMAC_HEX_LEN;
          json_bytes = take json_len frame;
          received_mac = drop json_len frame
      in if \<not> utf8 received_mac then Inl (HandshakeFailed ''Invalid HMAC encoding'')
         else if \<not> hmac_verify lib session_key json_bytes received_mac
         then Inl (HandshakeFailed (''Per-message HMAC verification failed '' @ em_dash
           @ '' message tampered or forged''))
         else (case wl_from_json lib json_bytes of None \<Rightarrow> Inl Json | Some msg \<Rightarrow> Inr msg))"

definition read_message_authenticated ::
  "wire_lib \<Rightarrow> string \<Rightarrow> socket \<Rightarrow> (wire_error + wire_message) \<times> socket" where
  "read_message_authenticated lib session_key sock =
     (case read_length sock of
        (Inl e, s) \<Rightarrow> (Inl e, s)
      | (Inr len, s) \<Rightarrow>
          if unat len < HMAC_HEX_LEN + 2
          then (Inl (HandshakeFailed ''Message too short for authenticated frame''), s)
          else
            (case read_exact (unat len) s of
               (Inl e, s1) \<Rightarrow> (Inl (Io e), s1)
             | (Inr frame, s1) \<Rightarrow> (open_frame lib session_key frame, s1)))"

section \<open>Handling\<close>

datatype loop_result = Going | Closed "wire_error option"

record peer_config =
  cfg_listen_addr :: socket_addr
  cfg_node_id :: string
  cfg_node_name :: string
  cfg_shared_secret :: string

record peer_node =
  pn_config :: peer_config
  pn_registry :: peer_registry
  pn_local_addr :: socket_addr
  pn_start_time :: instant
  pn_tracker :: nonce_tracker
  pn_session_key :: "string option"

definition handle_notification :: "string \<Rightarrow> wire_notification \<Rightarrow> peer_registry \<Rightarrow> peer_registry" where
  "handle_notification peer_node_id notif peers =
     (case notif of
        AgentSpawned agent \<Rightarrow> add_agent peer_node_id agent peers
      | AgentTerminated agent_id \<Rightarrow> remove_remote_agent peer_node_id agent_id peers
      | ShuttingDown \<Rightarrow> mark_disconnected peer_node_id peers)"

text \<open>
  The answer to a request of a connected peer. The peer is not told to the kernel; the model adds
  it to the record of what was delivered.
\<close>

definition handle_request_in_loop ::
  "peer_handle \<Rightarrow> string \<Rightarrow> delivered \<Rightarrow> wire_message \<Rightarrow> wire_message \<times> delivered" where
  "handle_request_in_loop kh peer tr msg =
     (let reply = (\<lambda>kind. \<lparr>wm_id = wm_id msg, wm_kind = Response kind\<rparr>)
      in case wm_kind msg of
           Request Ping \<Rightarrow> (reply (Pong (ph_uptime kh tr)), tr)
         | Request (Discover query) \<Rightarrow> (reply (DiscoverResult (ph_discover kh tr query)), tr)
         | Request (AgentMessage agent message sender) \<Rightarrow>
             (case ph_agent_message kh tr agent message sender of
                Inr answer \<Rightarrow> reply (AgentResponse answer)
              | Inl e \<Rightarrow> reply (ErrorResponse 500 e),
              tr @ [(peer, agent, message, sender)])
         | _ \<Rightarrow> (reply (ErrorResponse 400 ''Unexpected request in connection loop''), tr))"

text \<open>One iteration of \<open>connection_loop\<close>; both callers pass a session key.\<close>

definition loop_step ::
  "wire_lib \<Rightarrow> peer_handle \<Rightarrow> string \<Rightarrow> string \<Rightarrow> peer_registry \<times> delivered \<times> socket
   \<Rightarrow> loop_result \<times> peer_registry \<times> delivered \<times> socket" where
  "loop_step lib kh peer key = (\<lambda>(peers, tr, sock).
     case read_message_authenticated lib key sock of
       (Inl ConnectionClosed, s) \<Rightarrow> (Closed None, peers, tr, s)
     | (Inl e, s) \<Rightarrow> (Closed (Some e), peers, tr, s)
     | (Inr msg, s) \<Rightarrow>
         (case wm_kind msg of
            Notification notif \<Rightarrow> (Going, handle_notification peer notif peers, tr, s)
          | Request _ \<Rightarrow>
              (let (response, tr1) = handle_request_in_loop kh peer tr msg
               in case write_message_authenticated lib response key s of
                    (Inl e, s1) \<Rightarrow> (Closed (Some e), peers, tr1, s1)
                  | (Inr _, s1) \<Rightarrow> (Going, peers, tr1, s1))
          | Response _ \<Rightarrow> (Going, peers, tr, s)))"

section \<open>The handshake\<close>

definition new_node :: "wire_lib \<Rightarrow> peer_config \<Rightarrow> peer_registry \<Rightarrow> socket_addr \<Rightarrow> instant \<Rightarrow> wire_error + peer_node" where
  "new_node lib config peers addr now =
     (if cfg_shared_secret config = []
      then Inl (HandshakeFailed ''OFP requires shared_secret. Set [network] shared_secret in config.toml'')
      else Inr \<lparr>pn_config = config, pn_registry = peers, pn_local_addr = addr, pn_start_time = now,
                 pn_tracker = new_tracker, pn_session_key = None\<rparr>)"

definition own_signature :: "wire_lib \<Rightarrow> peer_node \<Rightarrow> string \<Rightarrow> string" where
  "own_signature lib node nonce =
     hmac_sign lib (cfg_shared_secret (pn_config node)) (nonce @ cfg_node_id (pn_config node))"

definition our_handshake :: "wire_lib \<Rightarrow> peer_handle \<Rightarrow> delivered \<Rightarrow> peer_node \<Rightarrow> string \<Rightarrow> string \<Rightarrow> wire_message" where
  "our_handshake lib kh tr node our_nonce msg_id =
     \<lparr>wm_id = msg_id,
      wm_kind = Request (Handshake (cfg_node_id (pn_config node)) (cfg_node_name (pn_config node))
        PROTOCOL_VERSION (ph_local_agents kh tr) our_nonce (own_signature lib node our_nonce))\<rparr>"

definition our_ack :: "wire_lib \<Rightarrow> peer_handle \<Rightarrow> delivered \<Rightarrow> peer_node \<Rightarrow> string \<Rightarrow> string \<Rightarrow> wire_message" where
  "our_ack lib kh tr node ack_nonce msg_id =
     \<lparr>wm_id = msg_id,
      wm_kind = Response (HandshakeAck (cfg_node_id (pn_config node)) (cfg_node_name (pn_config node))
        PROTOCOL_VERSION (ph_local_agents kh tr) ack_nonce (own_signature lib node ack_nonce))\<rparr>"

definition entry_of :: "string \<Rightarrow> string \<Rightarrow> u32 \<Rightarrow> remote_agent_info list \<Rightarrow> socket_addr \<Rightarrow> instant \<Rightarrow> peer_entry" where
  "entry_of i n version agents addr now =
     \<lparr>pe_node_id = i, pe_node_name = n, pe_address = addr, pe_agents = agents, pe_state = Connected,
      pe_connected_at = now, pe_protocol_version = version\<rparr>"

definition show_i32 :: "i32 \<Rightarrow> string" where
  "show_i32 n = (if sint n < 0 then CHR 0x2D # show_nat (nat (- sint n)) else show_nat (nat (sint n)))"

text \<open>
  What both sides that opened a connection check of the answer to their greeting; the session key
  when it passes.
\<close>

definition verify_ack ::
  "wire_lib \<Rightarrow> instant \<Rightarrow> string \<Rightarrow> wire_message \<Rightarrow> peer_node \<Rightarrow> (wire_error + string) \<times> peer_node" where
  "verify_ack lib now our_nonce response node =
     (let secret = cfg_shared_secret (pn_config node)
      in case wm_kind response of
           Response (HandshakeAck i n version agents ack_nonce ack_hmac) \<Rightarrow>
             if version \<noteq> PROTOCOL_VERSION then (Inl (VersionMismatch PROTOCOL_VERSION version), node)
             else (case check_and_record now ack_nonce (pn_tracker node) of
                 (Inl replay_err, t) \<Rightarrow> (Inl (HandshakeFailed replay_err), node\<lparr>pn_tracker := t\<rparr>)
               | (Inr _, t) \<Rightarrow>
                   if \<not> hmac_verify lib secret (ack_nonce @ i) ack_hmac
                   then (Inl (HandshakeFailed ''HMAC verification failed on HandshakeAck''), node\<lparr>pn_tracker := t\<rparr>)
                   else (Inr (derive_session_key lib secret our_nonce ack_nonce), node\<lparr>pn_tracker := t\<rparr>))
         | Response (ErrorResponse code message) \<Rightarrow>
             (Inl (HandshakeFailed (''Remote error '' @ show_i32 code @ '': '' @ message)), node)
         | _ \<Rightarrow> (Inl (HandshakeFailed ''Unexpected response to handshake''), node))"

text \<open>The greeting and its answer; the answer and the session key, when all goes well.\<close>

definition greet ::
  "wire_lib \<Rightarrow> peer_handle \<Rightarrow> delivered \<Rightarrow> instant \<Rightarrow> string \<Rightarrow> string \<Rightarrow> peer_node \<Rightarrow> socket
   \<Rightarrow> (wire_error + wire_message \<times> string) \<times> peer_node \<times> socket" where
  "greet lib kh tr now our_nonce msg_id node sock =
     (case write_message lib (our_handshake lib kh tr node our_nonce msg_id) sock of
        (Inl e, s) \<Rightarrow> (Inl e, node, s)
      | (Inr _, s) \<Rightarrow>
          (case read_message lib s of
             (Inl e, s1) \<Rightarrow> (Inl e, node, s1)
           | (Inr response, s1) \<Rightarrow>
               (case verify_ack lib now our_nonce response node of
                  (Inl e, node1) \<Rightarrow> (Inl e, node1, s1)
                | (Inr key, node1) \<Rightarrow> (Inr (response, key), node1, s1))))"

text \<open>\<open>connect_to_peer\<close> up to the task it spawns: the peer and the key of the connection.\<close>

definition connect_to_peer ::
  "wire_lib \<Rightarrow> peer_handle \<Rightarrow> delivered \<Rightarrow> instant \<Rightarrow> string \<Rightarrow> string \<Rightarrow> socket_addr \<Rightarrow> peer_node \<Rightarrow> socket
   \<Rightarrow> (wire_error + string \<times> string) \<times> peer_node \<times> socket" where
  "connect_to_peer lib kh tr now our_nonce msg_id addr node sock =
     (case greet lib kh tr now our_nonce msg_id node sock of
        (Inl e, node1, s) \<Rightarrow> (Inl e, node1, s)
      | (Inr (response, key), node1, s) \<Rightarrow>
          (case wm_kind response of
             Response (HandshakeAck i n version agents _ _) \<Rightarrow>
               (Inr (i, key), node1\<lparr>pn_registry := add_peer (entry_of i n version agents addr now) (pn_registry node1)\<rparr>, s)
           | _ \<Rightarrow> (Inl (HandshakeFailed ''Unexpected response to handshake''), node1, s)))"

text \<open>A refusal: the error is sent before it is returned, and not being able to is another error.\<close>

definition refuse ::
  "wire_lib \<Rightarrow> wire_message \<Rightarrow> i32 \<Rightarrow> string \<Rightarrow> wire_error \<Rightarrow> socket \<Rightarrow> (wire_error + 'a) \<times> socket" where
  "refuse lib msg code message err sock =
     (case write_message lib \<lparr>wm_id = wm_id msg, wm_kind = Response (ErrorResponse code message)\<rparr> sock of
        (Inl e, s) \<Rightarrow> (Inl e, s)
      | (Inr _, s) \<Rightarrow> (Inl err, s))"

definition accept_handshake ::
  "wire_lib \<Rightarrow> peer_handle \<Rightarrow> delivered \<Rightarrow> instant \<Rightarrow> string \<Rightarrow> socket_addr \<Rightarrow> wire_message \<Rightarrow> peer_node \<Rightarrow> socket
   \<Rightarrow> (wire_error + string \<times> string) \<times> peer_node \<times> socket" where
  "accept_handshake lib kh tr now ack_nonce addr msg node sock =
     (let secret = cfg_shared_secret (pn_config node)
      in case wm_kind msg of
           Request (Handshake i n version agents nonce auth_hmac) \<Rightarrow>
             if version \<noteq> PROTOCOL_VERSION
             then (let (r, s) = refuse lib msg 1 (''Protocol version mismatch: expected '' @ show_word PROTOCOL_VERSION
                      @ '', got '' @ show_word version) (VersionMismatch PROTOCOL_VERSION version) sock
                   in (r, node, s))
             else (case check_and_record now nonce (pn_tracker node) of
                 (Inl replay_err, t) \<Rightarrow>
                   (let (r, s) = refuse lib msg 403 ''Nonce replay rejected'' (HandshakeFailed replay_err) sock
                    in (r, node\<lparr>pn_tracker := t\<rparr>, s))
               | (Inr _, t) \<Rightarrow>
                   let node1 = node\<lparr>pn_tracker := t\<rparr>
                   in if \<not> hmac_verify lib secret (nonce @ i) auth_hmac
                      then (let (r, s) = refuse lib msg 403 ''HMAC authentication failed''
                               (HandshakeFailed ''HMAC verification failed on incoming Handshake'') sock
                            in (r, node1, s))
                      else (case write_message lib (our_ack lib kh tr node ack_nonce (wm_id msg)) sock of
                          (Inl e, s) \<Rightarrow> (Inl e, node1, s)
                        | (Inr _, s) \<Rightarrow>
                            (Inr (i, derive_session_key lib secret nonce ack_nonce),
                             node1\<lparr>pn_registry := add_peer (entry_of i n version agents addr now) (pn_registry node1)\<rparr>, s)))
         | _ \<Rightarrow>
             (let (r, s) = refuse lib msg 401 ''Authentication required: complete HMAC handshake first''
                (HandshakeFailed (''Rejected unauthenticated request '' @ em_dash
                   @ '' handshake required'')) sock
              in (r, node, s)))"

section \<open>Sending\<close>

definition send_to_peer ::
  "wire_lib \<Rightarrow> peer_handle \<Rightarrow> delivered \<Rightarrow> instant \<Rightarrow> string \<Rightarrow> string \<Rightarrow> string \<Rightarrow> string \<Rightarrow> string \<Rightarrow> string
   \<Rightarrow> string option \<Rightarrow> peer_node \<Rightarrow> (socket_addr \<Rightarrow> socket option) \<Rightarrow> (wire_error + string) \<times> peer_node" where
  "send_to_peer lib kh tr now our_nonce id1 id2 i agent message sender node dial =
     (case get_peer (pn_registry node) i of
        None \<Rightarrow> (Inl (HandshakeFailed (''Unknown peer: '' @ i)), node)
      | Some peer \<Rightarrow>
          (case dial (pe_address peer) of
             None \<Rightarrow> (Inl (Io OtherIo), node)
           | Some sock \<Rightarrow>
               (case greet lib kh tr now our_nonce id1 node sock of
                  (Inl e, node1, _) \<Rightarrow> (Inl e, node1)
                | (Inr (_, key), node1, s) \<Rightarrow>
                    (case write_message_authenticated lib
                         \<lparr>wm_id = id2, wm_kind = Request (AgentMessage agent message sender)\<rparr> key s of
                       (Inl e, _) \<Rightarrow> (Inl e, node1)
                     | (Inr _, s1) \<Rightarrow>
                         (case fst (read_message_authenticated lib key s1) of
                            Inl e \<Rightarrow> (Inl e, node1)
                          | Inr response \<Rightarrow>
                              (case wm_kind response of
                                 Response (AgentResponse answer) \<Rightarrow> (Inr answer, node1)
                               | Response (ErrorResponse code m) \<Rightarrow>
                                   (Inl (HandshakeFailed (''Remote error '' @ show_i32 code @ '': '' @ m)), node1)
                               | _ \<Rightarrow> (Inl (HandshakeFailed ''Unexpected response type''), node1)))))))"

text \<open>
  A broadcast opens a connection to every connected peer and sends one frame, signed with a key
  made of a nonce that is not sent. \<open>ids\<close> gives the id and the nonce of the message to a peer.
\<close>

definition broadcast_to ::
  "wire_lib \<Rightarrow> string \<Rightarrow> wire_notification \<Rightarrow> (string \<Rightarrow> string \<times> string) \<Rightarrow> (socket_addr \<Rightarrow> socket option)
   \<Rightarrow> peer_entry \<Rightarrow> (wire_error option) \<times> socket option" where
  "broadcast_to lib secret notif ids dial peer =
     (case dial (pe_address peer) of
        None \<Rightarrow> (Some (Io OtherIo), None)
      | Some sock \<Rightarrow>
          (case write_message_authenticated lib
               \<lparr>wm_id = fst (ids (pe_node_id peer)), wm_kind = Notification notif\<rparr>
               (hmac_sign lib secret (snd (ids (pe_node_id peer)))) sock of
             (Inl e, s) \<Rightarrow> (Some e, Some s)
           | (Inr _, s) \<Rightarrow> (None, Some s)))"

definition broadcast_notification ::
  "wire_lib \<Rightarrow> peer_registry \<Rightarrow> wire_notification \<Rightarrow> string \<Rightarrow> (string \<Rightarrow> string \<times> string)
   \<Rightarrow> (socket_addr \<Rightarrow> socket option) \<Rightarrow> (string \<times> wire_error) list" where
  "broadcast_notification lib peers notif secret ids dial =
     concat (map (\<lambda>p. case fst (broadcast_to lib secret notif ids dial p) of
         None \<Rightarrow> [] | Some e \<Rightarrow> [(pe_node_id p, e)]) (connected_peers peers))"

section \<open>The node and its connections\<close>

text \<open>
  The tasks of a node. An accepted connection first reads the greeting, then runs the connection
  loop, then marks its peer as disconnected; a connection that was opened starts with the loop.
\<close>

datatype conn =
    Greeting socket_addr socket
  | Established string string socket
  | Ended

record world =
  w_node :: peer_node
  w_conns :: "(nat, conn) dashmap"
  w_delivered :: delivered

datatype event =
    Accept nat socket_addr socket
  | Connect nat socket_addr socket instant string string
  | Advance nat instant string

definition advance :: "wire_lib \<Rightarrow> peer_handle \<Rightarrow> nat \<Rightarrow> instant \<Rightarrow> string \<Rightarrow> world \<Rightarrow> world" where
  "advance lib kh c now ack_nonce w =
     (case dm_get (w_conns w) c of
        Some (Greeting addr sock) \<Rightarrow>
          (case read_message lib sock of
             (Inl e, s) \<Rightarrow> w\<lparr>w_conns := dm_insert c Ended (w_conns w)\<rparr>
           | (Inr msg, s) \<Rightarrow>
               (case accept_handshake lib kh (w_delivered w) now ack_nonce addr msg (w_node w) s of
                  (Inl e, node, _) \<Rightarrow> w\<lparr>w_node := node, w_conns := dm_insert c Ended (w_conns w)\<rparr>
                | (Inr (peer, key), node, s1) \<Rightarrow>
                    w\<lparr>w_node := node, w_conns := dm_insert c (Established peer key s1) (w_conns w)\<rparr>))
      | Some (Established peer key sock) \<Rightarrow>
          (case loop_step lib kh peer key (pn_registry (w_node w), w_delivered w, sock) of
             (Going, peers, tr, s) \<Rightarrow>
               \<lparr>w_node = (w_node w)\<lparr>pn_registry := peers\<rparr>,
                w_conns = dm_insert c (Established peer key s) (w_conns w), w_delivered = tr\<rparr>
           | (Closed _, peers, tr, s) \<Rightarrow>
               \<lparr>w_node = (w_node w)\<lparr>pn_registry := mark_disconnected peer peers\<rparr>,
                w_conns = dm_insert c Ended (w_conns w), w_delivered = tr\<rparr>)
      | _ \<Rightarrow> w)"

definition world_step :: "wire_lib \<Rightarrow> peer_handle \<Rightarrow> world \<Rightarrow> event \<Rightarrow> world" where
  "world_step lib kh w e =
     (case e of
        Accept c addr sock \<Rightarrow>
          if dm_get (w_conns w) c \<noteq> None then w
          else w\<lparr>w_conns := dm_insert c (Greeting addr sock) (w_conns w)\<rparr>
      | Connect c addr sock now our_nonce msg_id \<Rightarrow>
          if dm_get (w_conns w) c \<noteq> None then w
          else (case connect_to_peer lib kh (w_delivered w) now our_nonce msg_id addr (w_node w) sock of
             (Inl _, node, _) \<Rightarrow> w\<lparr>w_node := node, w_conns := dm_insert c Ended (w_conns w)\<rparr>
           | (Inr (peer, key), node, s) \<Rightarrow>
               w\<lparr>w_node := node, w_conns := dm_insert c (Established peer key s) (w_conns w)\<rparr>)
      | Advance c now ack_nonce \<Rightarrow> advance lib kh c now ack_nonce w)"

definition start_world :: "peer_node \<Rightarrow> world" where
  "start_world node = \<lparr>w_node = node, w_conns = [], w_delivered = []\<rparr>"

section \<open>Frames that are read\<close>

lemma read_exact_append [simp]:
  "length x = n \<Longrightarrow> read_exact n (sock\<lparr>incoming := x @ r\<rparr>) = (Inr x, sock\<lparr>incoming := r\<rparr>)"
  by (simp add: read_exact_def)

lemma read_exact_Inr: "read_exact n sock = (Inr x, s) \<Longrightarrow>
    length x = n \<and> incoming sock = x @ incoming s \<and> s = sock\<lparr>incoming := incoming s\<rparr>"
  by (auto simp: read_exact_def split: if_splits)

lemma read_exact_suffix: "read_exact n sock = (r, s) \<Longrightarrow> suffix (incoming s) (incoming sock)"
  by (auto simp: read_exact_def suffix_drop split: if_splits)

lemma read_length_suffix: "read_length sock = (r, s) \<Longrightarrow> suffix (incoming s) (incoming sock)"
  by (auto simp: read_length_def Let_def dest: read_exact_suffix
      split: prod.splits sum.splits io_error.splits if_splits)

lemma read_length_Inr: "read_length sock = (Inr n, s) \<Longrightarrow> \<exists>h. length h = 4 \<and> incoming sock = h @ incoming s"
  by (auto simp: read_length_def Let_def dest: read_exact_Inr
      split: prod.splits sum.splits io_error.splits if_splits)

lemma read_message_suffix: "read_message lib sock = (r, s) \<Longrightarrow> suffix (incoming s) (incoming sock)"
  by (auto simp: read_message_def dest!: read_exact_suffix read_length_suffix intro: suffix_order.trans
      split: prod.splits sum.splits option.splits)

lemma read_authenticated_suffix:
  "read_message_authenticated lib key sock = (r, s) \<Longrightarrow> suffix (incoming s) (incoming sock)"
  by (auto simp: read_message_authenticated_def dest!: read_exact_suffix read_length_suffix
      intro: suffix_order.trans split: prod.splits sum.splits if_splits)

lemma open_frame_signed:
  "open_frame lib key frame = Inr msg \<Longrightarrow>
     \<exists>json. frame = json @ hmac_sign lib key json \<and> wl_from_json lib json = Some msg"
  by (auto simp: open_frame_def Let_def hmac_verify_def split: if_splits option.splits)
     (metis append_take_drop_id)

text \<open>A frame that is read carries a signature under the key of the connection.\<close>

lemma read_authenticated_signed:
  assumes "read_message_authenticated lib key sock = (Inr msg, s)"
  shows "\<exists>h json. length h = 4 \<and> wl_from_json lib json = Some msg
    \<and> incoming sock = h @ json @ hmac_sign lib key json @ incoming s"
proof -
  from assms obtain n s1 frame where
    "read_length sock = (Inr n, s1)" "read_exact (unat n) s1 = (Inr frame, s)" "open_frame lib key frame = Inr msg"
    by (auto simp: read_message_authenticated_def split: prod.splits sum.splits if_splits)
  note parts = this
  obtain json where "frame = json @ hmac_sign lib key json" "wl_from_json lib json = Some msg"
    using open_frame_signed [OF parts(3)] by blast
  then show ?thesis using read_length_Inr [OF parts(1)] read_exact_Inr [OF parts(2)] by auto
qed

lemma unat_of_frame_length:
  "n \<le> unat MAX_MESSAGE_SIZE \<Longrightarrow> unat (of_nat n :: u32) = n"
  by (simp add: MAX_MESSAGE_SIZE_def unat_of_nat)

lemma read_length_header:
  assumes "n \<le> unat MAX_MESSAGE_SIZE"
  shows "read_length (sock\<lparr>incoming := to_be_bytes (of_nat n) @ r\<rparr>) = (Inr (of_nat n), sock\<lparr>incoming := r\<rparr>)"
  using assms unat_of_frame_length [OF assms]
  by (simp add: read_length_def word_less_nat_alt not_less)

lemma read_message_frame:
  assumes "length json \<le> unat MAX_MESSAGE_SIZE" "wl_from_json lib json = Some msg"
  shows "read_message lib (sock\<lparr>incoming := to_be_bytes (of_nat (length json)) @ json @ r\<rparr>)
    = (Inr msg, sock\<lparr>incoming := r\<rparr>)"
  using assms unat_of_frame_length [OF assms(1)]
  by (simp add: read_message_def read_length_header)

text \<open>
  What one side signs and sends the other side with the same key reads back, and leaves what
  follows in place, as long as the frame is no longer than the limit.
\<close>

theorem signed_frame_roundtrip:
  assumes "wl_from_json lib json = Some msg" "2 \<le> length json"
    and "length (hmac_sign lib key json) = HMAC_HEX_LEN" "utf8 (hmac_sign lib key json)"
    and "length json + HMAC_HEX_LEN \<le> unat MAX_MESSAGE_SIZE"
  shows "read_message_authenticated lib key (sock\<lparr>incoming := signed_frame lib key json @ r\<rparr>)
    = (Inr msg, sock\<lparr>incoming := r\<rparr>)"
proof -
  let ?mac = "hmac_sign lib key json" and ?n = "length json + HMAC_HEX_LEN"
  have n: "unat (of_nat ?n :: u32) = ?n" by (rule unat_of_frame_length [OF assms(5)])
  have "open_frame lib key (json @ ?mac) = Inr msg"
    using assms by (simp add: open_frame_def Let_def hmac_verify_def)
  moreover have "read_exact ?n (sock\<lparr>incoming := (json @ ?mac) @ r\<rparr>) = (Inr (json @ ?mac), sock\<lparr>incoming := r\<rparr>)"
    using assms(3) by (intro read_exact_append) simp
  ultimately show ?thesis
    using read_length_header [OF assms(5), where sock = sock and r = "json @ ?mac @ r"] assms(2,3) n
    by (simp add: read_message_authenticated_def signed_frame_def Let_def)
qed

section \<open>Nonces are used once\<close>

definition fresh_at :: "instant \<Rightarrow> string \<Rightarrow> nonce_tracker \<Rightarrow> bool" where
  "fresh_at now nonce t \<longleftrightarrow> dm_get (seen (collect_nonces now t)) nonce = None"

lemma check_and_record_fresh:
  "check_and_record now nonce t = (if fresh_at now nonce t then (Inr (), record_nonce now nonce (collect_nonces now t))
     else (Inl (''Nonce replay detected: '' @ safe_truncate_str nonce 16), collect_nonces now t))"
  by (simp add: check_and_record_def fresh_at_def Let_def)

lemma check_and_record_wf: "dm_wf (seen t) \<Longrightarrow> dm_wf (seen (snd (check_and_record now nonce t)))"
  by (auto simp: check_and_record_fresh collect_nonces_def record_nonce_def dm_wf_def dm_insert_def
      distinct_map_filter intro!: distinct_update)

lemma window_check [simp]: "window (snd (check_and_record now nonce t)) = window t"
  by (simp add: check_and_record_fresh collect_nonces_def record_nonce_def)

lemma seen_check:
  assumes "dm_wf (seen t)"
  shows "dm_get (seen (snd (check_and_record now n t))) k =
    (if fresh_at now n t \<and> k = n then Some now
     else (case dm_get (seen t) k of None \<Rightarrow> None | Some ts \<Rightarrow> if elapsed now ts < window t then Some ts else None))"
  using assms
  by (auto simp: check_and_record_fresh record_nonce_def collect_nonces_def dm_get_filter split: option.split)

text \<open>The verdicts of a node on a sequence of nonces, with the times at which it saw them.\<close>

fun verdicts :: "nonce_tracker \<Rightarrow> (instant \<times> string) list \<Rightarrow> bool list" where
  "verdicts t [] = []"
| "verdicts t ((now, nonce) # xs) =
     (let (r, t1) = check_and_record now nonce t in (r = Inr ()) # verdicts t1 xs)"

lemma verdicts_Cons: "verdicts t ((now, nonce) # xs) = fresh_at now nonce t # verdicts (snd (check_and_record now nonce t)) xs"
  by (simp add: check_and_record_fresh)

lemma length_verdicts [simp]: "length (verdicts t xs) = length xs"
  by (induction xs arbitrary: t) (auto simp: verdicts_Cons simp del: verdicts.simps(2))



section \<open>Who gets in\<close>

definition greets_as :: "wire_lib \<Rightarrow> string \<Rightarrow> string \<Rightarrow> wire_message \<Rightarrow> bool" where
  "greets_as lib secret i m =
     (case wm_kind m of
        Request (Handshake j _ version _ nonce mac) \<Rightarrow>
          j = i \<and> version = PROTOCOL_VERSION \<and> mac = hmac_sign lib secret (nonce @ i)
      | Response (HandshakeAck j _ version _ nonce mac) \<Rightarrow>
          j = i \<and> version = PROTOCOL_VERSION \<and> mac = hmac_sign lib secret (nonce @ i)
      | _ \<Rightarrow> False)"

text \<open>A peer is vouched for by a connection that started with a greeting of it, signed with the secret.\<close>

definition vouched :: "wire_lib \<Rightarrow> string \<Rightarrow> socket set \<Rightarrow> string \<Rightarrow> bool" where
  "vouched lib secret socks i \<longleftrightarrow>
     (\<exists>sock\<in>socks. \<exists>m. fst (read_message lib sock) = Inr m \<and> greets_as lib secret i m)"

definition signed_delivery :: "wire_lib \<Rightarrow> string \<Rightarrow> socket set \<Rightarrow> string \<times> string \<times> string \<times> string option \<Rightarrow> bool" where
  "signed_delivery lib secret socks = (\<lambda>(peer, agent, message, sender).
     vouched lib secret socks peer
     \<and> (\<exists>sock\<in>socks. \<exists>n1 n2 json msg.
          sublist (json @ hmac_sign lib (derive_session_key lib secret n1 n2) json) (incoming sock)
          \<and> wl_from_json lib json = Some msg \<and> wm_kind msg = Request (AgentMessage agent message sender)))"

lemma write_all_incoming: "write_all b sock = (r, s) \<Longrightarrow> incoming s = incoming sock \<and> breaks s = breaks sock"
  by (auto simp: write_all_def split: if_splits)

lemma write_message_incoming:
  "write_message lib m sock = (r, s) \<Longrightarrow> incoming s = incoming sock \<and> breaks s = breaks sock"
  by (auto simp: write_message_def dest: write_all_incoming split: option.splits)

lemma write_authenticated_incoming:
  "write_message_authenticated lib m key sock = (r, s) \<Longrightarrow> incoming s = incoming sock \<and> breaks s = breaks sock"
  by (auto simp: write_message_authenticated_def dest: write_all_incoming split: option.splits)

lemma refuse_Inl: "refuse lib msg code txt err sock = (r, s) \<Longrightarrow> \<exists>e. r = Inl e"
  by (auto simp: refuse_def split: prod.splits sum.splits)

lemma read_exact_cong:
  "incoming s = incoming t \<Longrightarrow> breaks s = breaks t \<Longrightarrow>
   fst (read_exact n s) = fst (read_exact n t) \<and> incoming (snd (read_exact n s)) = incoming (snd (read_exact n t))
   \<and> breaks (snd (read_exact n s)) = breaks (snd (read_exact n t))"
  by (simp add: read_exact_def)

lemma read_length_cong:
  assumes "incoming s = incoming t" "breaks s = breaks t"
  shows "fst (read_length s) = fst (read_length t) \<and> incoming (snd (read_length s)) = incoming (snd (read_length t))
   \<and> breaks (snd (read_length s)) = breaks (snd (read_length t))"
  using read_exact_cong [OF assms, of 4]
  by (cases "read_exact 4 s"; cases "read_exact 4 t")
     (auto simp: read_length_def Let_def split: sum.splits io_error.splits)

lemma read_message_cong:
  assumes "incoming s = incoming t" "breaks s = breaks t"
  shows "fst (read_message lib s) = fst (read_message lib t)"
proof (cases "fst (read_length t)")
  case (Inl e)
  then show ?thesis using read_length_cong [OF assms]
    by (cases "read_length s"; cases "read_length t") (auto simp: read_message_def)
next
  case (Inr n)
  have len: "fst (read_length s) = Inr n" "incoming (snd (read_length s)) = incoming (snd (read_length t))"
    "breaks (snd (read_length s)) = breaks (snd (read_length t))"
    using read_length_cong [OF assms] Inr by simp_all
  have "fst (read_exact (unat n) (snd (read_length s))) = fst (read_exact (unat n) (snd (read_length t)))"
    using read_exact_cong [OF len(2,3)] by simp
  then show ?thesis using len(1) Inr
    by (cases "read_length s"; cases "read_length t";
        cases "read_exact (unat n) (snd (read_length s))"; cases "read_exact (unat n) (snd (read_length t))")
       (auto simp: read_message_def split: sum.splits option.splits)
qed

text \<open>The two ways into the registry.\<close>

lemma entry_added [simp]:
  "\<exists>e. pe_node_id e = i \<and> add_peer (entry_of i n version agents addr now) peers = add_peer e peers"
  by (intro exI [of _ "entry_of i n version agents addr now"]) (simp add: entry_of_def)

lemma accept_handshake_result:
  assumes "accept_handshake lib kh tr now an addr msg node sock = (r, node', s)"
  shows "pn_config node' = pn_config node \<and>
    (case r of Inl _ \<Rightarrow> pn_registry node' = pn_registry node
     | Inr (i, key) \<Rightarrow> greets_as lib (cfg_shared_secret (pn_config node)) i msg \<and> incoming s = incoming sock
         \<and> (\<exists>nonce. key = derive_session_key lib (cfg_shared_secret (pn_config node)) nonce an)
         \<and> (\<exists>e. pe_node_id e = i \<and> pn_registry node' = add_peer e (pn_registry node)))"
  using assms
  by (auto simp: accept_handshake_def greets_as_def Let_def hmac_verify_def
      dest!: refuse_Inl write_message_incoming
      split: wire_message_kind.splits wire_request.splits prod.splits sum.splits if_splits)

lemma verify_ack_result:
  assumes "verify_ack lib now n response node = (r, node')"
  shows "pn_config node' = pn_config node \<and> pn_registry node' = pn_registry node \<and>
    (case r of Inl _ \<Rightarrow> True
     | Inr key \<Rightarrow> (\<exists>i name version agents nonce mac.
           wm_kind response = Response (HandshakeAck i name version agents nonce mac)
           \<and> greets_as lib (cfg_shared_secret (pn_config node)) i response
           \<and> key = derive_session_key lib (cfg_shared_secret (pn_config node)) n nonce))"
  using assms
  by (auto simp: verify_ack_def greets_as_def Let_def hmac_verify_def
      split: wire_message_kind.splits wire_response.splits prod.splits sum.splits if_splits)

lemma greet_result:
  assumes "greet lib kh tr now n mid node sock = (r, node', s)"
  shows "pn_config node' = pn_config node \<and> pn_registry node' = pn_registry node \<and>
    (case r of Inl _ \<Rightarrow> True
     | Inr (response, key) \<Rightarrow> fst (read_message lib sock) = Inr response \<and> suffix (incoming s) (incoming sock) \<and>
         (\<exists>i name version agents nonce mac.
           wm_kind response = Response (HandshakeAck i name version agents nonce mac)
           \<and> greets_as lib (cfg_shared_secret (pn_config node)) i response
           \<and> key = derive_session_key lib (cfg_shared_secret (pn_config node)) n nonce))"
proof -
  obtain rw s1 where w: "write_message lib (our_handshake lib kh tr node n mid) sock = (rw, s1)" by fastforce
  note in1 = write_message_incoming [OF w]
  obtain rr s2 where rd: "read_message lib s1 = (rr, s2)" by fastforce
  have "rr = fst (read_message lib sock)" using read_message_cong [of s1 sock lib] in1 rd by simp
  moreover have "suffix (incoming s2) (incoming sock)" using read_message_suffix [OF rd] in1 by simp
  ultimately show ?thesis
    using assms w rd
    by (auto simp: greet_def dest!: verify_ack_result split: sum.splits prod.splits)
qed

lemma connect_result:
  assumes "connect_to_peer lib kh tr now n mid addr node sock = (r, node', s)"
  shows "pn_config node' = pn_config node \<and>
    (case r of Inl _ \<Rightarrow> pn_registry node' = pn_registry node
     | Inr (i, key) \<Rightarrow> (\<exists>m. fst (read_message lib sock) = Inr m \<and> greets_as lib (cfg_shared_secret (pn_config node)) i m)
         \<and> suffix (incoming s) (incoming sock)
         \<and> (\<exists>nonce. key = derive_session_key lib (cfg_shared_secret (pn_config node)) n nonce)
         \<and> (\<exists>e. pe_node_id e = i \<and> pn_registry node' = add_peer e (pn_registry node)))"
proof -
  obtain g node1 s1 where g: "greet lib kh tr now n mid node sock = (g, node1, s1)" by (metis prod_cases3)
  show ?thesis
    using assms g greet_result [OF g]
    by (auto simp: connect_to_peer_def split: sum.splits prod.splits)
qed

definition conn_ok :: "wire_lib \<Rightarrow> string \<Rightarrow> socket set \<Rightarrow> conn \<Rightarrow> bool" where
  "conn_ok lib secret socks c =
     (case c of
        Greeting addr sock \<Rightarrow> sock \<in> socks
      | Established peer key sock \<Rightarrow>
          vouched lib secret socks peer \<and> (\<exists>n1 n2. key = derive_session_key lib secret n1 n2)
          \<and> (\<exists>s\<in>socks. suffix (incoming sock) (incoming s))
      | Ended \<Rightarrow> True)"

definition world_inv :: "wire_lib \<Rightarrow> string \<Rightarrow> socket set \<Rightarrow> world \<Rightarrow> bool" where
  "world_inv lib secret socks w \<longleftrightarrow>
     cfg_shared_secret (pn_config (w_node w)) = secret
     \<and> (\<forall>i. dm_get (pn_registry (w_node w)) i \<noteq> None \<longrightarrow> vouched lib secret socks i)
     \<and> (\<forall>c x. dm_get (w_conns w) c = Some x \<longrightarrow> conn_ok lib secret socks x)
     \<and> (\<forall>d\<in>set (w_delivered w). signed_delivery lib secret socks d)"

lemma handle_notification_keys: "dm_get (handle_notification p n peers) i \<noteq> None \<longleftrightarrow> dm_get peers i \<noteq> None"
  by (cases n) (simp_all add: handle_notification_def add_agent_def remove_remote_agent_def mark_disconnected_def)

lemma handle_request_delivered:
  assumes "handle_request_in_loop kh p tr msg = (resp, tr')" "d \<in> set tr'" "d \<notin> set tr"
  shows "\<exists>a m sender. d = (p, a, m, sender) \<and> wm_kind msg = Request (AgentMessage a m sender)"
  using assms
  by (auto simp: handle_request_in_loop_def Let_def split: wire_message_kind.splits wire_request.splits)

lemma loop_step_result:
  assumes "loop_step lib kh p key (peers, tr, sock) = (r, peers', tr', s)"
  shows "(\<forall>i. dm_get peers' i \<noteq> None \<longleftrightarrow> dm_get peers i \<noteq> None) \<and> suffix (incoming s) (incoming sock)
    \<and> (\<forall>d\<in>set tr'. d \<in> set tr \<or> (\<exists>a m sender json msg. d = (p, a, m, sender)
        \<and> sublist (json @ hmac_sign lib key json) (incoming sock)
        \<and> wl_from_json lib json = Some msg \<and> wm_kind msg = Request (AgentMessage a m sender)))"
proof -
  obtain rr s1 where rd: "read_message_authenticated lib key sock = (rr, s1)" by fastforce
  have sfx: "suffix (incoming s1) (incoming sock)" by (rule read_authenticated_suffix [OF rd])
  show ?thesis
  proof (cases rr)
    case (Inl e)
    then show ?thesis using assms rd sfx by (cases e) (auto simp: loop_step_def)
  next
    case (Inr msg)
    obtain h json where json: "wl_from_json lib json = Some msg"
      "incoming sock = h @ json @ hmac_sign lib key json @ incoming s1"
      using read_authenticated_signed [of lib key sock msg s1] rd Inr by blast
    then have sub: "sublist (json @ hmac_sign lib key json) (incoming sock)"
      unfolding sublist_def by (intro exI [of _ h] exI [of _ "incoming s1"]) simp
    show ?thesis
    proof (cases "wm_kind msg")
      case (Request q)
      obtain resp tr1 where q: "handle_request_in_loop kh p tr msg = (resp, tr1)" by fastforce
      have "peers' = peers \<and> tr' = tr1 \<and> incoming s = incoming s1"
        using assms rd Inr Request q
        by (auto simp: loop_step_def dest: write_authenticated_incoming split: prod.splits sum.splits)
      then show ?thesis using sfx handle_request_delivered [OF q] sub json(1) by fastforce
    next
      case (Response q)
      then show ?thesis using assms rd Inr sfx by (auto simp: loop_step_def)
    next
      case (Notification q)
      then have "peers' = handle_notification p q peers" "tr' = tr" "s = s1"
        using assms rd Inr by (auto simp: loop_step_def)
      then show ?thesis using sfx handle_notification_keys [of p q peers] by simp
    qed
  qed
qed

fun sockets_of :: "event \<Rightarrow> socket set" where
  "sockets_of (Accept _ _ sock) = {sock}"
| "sockets_of (Connect _ _ sock _ _ _) = {sock}"
| "sockets_of (Advance _ _ _) = {}"

lemma world_inv_conn:
  "world_inv lib secret S w \<Longrightarrow> conn_ok lib secret S x \<Longrightarrow>
   world_inv lib secret S (w\<lparr>w_conns := dm_insert c x (w_conns w)\<rparr>)"
  by (simp add: world_inv_def)

text \<open>A connection that was established: its peer enters the registry.\<close>

lemma world_inv_established:
  assumes "world_inv lib secret S w" "pn_config node = pn_config (w_node w)"
    "pn_registry node = add_peer e (pn_registry (w_node w))" "pe_node_id e = i"
    "vouched lib secret S i" "conn_ok lib secret S x"
  shows "world_inv lib secret S (w\<lparr>w_node := node, w_conns := dm_insert c x (w_conns w)\<rparr>)"
  using assms by (auto simp: world_inv_def add_peer_def)

lemma world_inv_failed:
  assumes "world_inv lib secret S w" "pn_config node = pn_config (w_node w)"
    "pn_registry node = pn_registry (w_node w)"
  shows "world_inv lib secret S (w\<lparr>w_node := node, w_conns := dm_insert c Ended (w_conns w)\<rparr>)"
  using assms by (auto simp: world_inv_def conn_ok_def)

lemma signed_delivery_suffix:
  assumes "conn_ok lib secret S (Established p key sock)"
    "sublist (json @ hmac_sign lib key json) (incoming sock)" "wl_from_json lib json = Some msg"
    "wm_kind msg = Request (AgentMessage a m sender)"
  shows "signed_delivery lib secret S (p, a, m, sender)"
proof -
  obtain n1 n2 s where "key = derive_session_key lib secret n1 n2" "s \<in> S" "suffix (incoming sock) (incoming s)"
    "vouched lib secret S p"
    using assms(1) by (auto simp: conn_ok_def)
  moreover have "sublist (json @ hmac_sign lib key json) (incoming s)"
    using assms(2) calculation(3) by (auto simp: suffix_def sublist_def) (metis append.assoc)
  ultimately show ?thesis
    unfolding signed_delivery_def prod.case using assms(3,4) by blast
qed

lemma advance_inv:
  assumes inv: "world_inv lib secret S w"
  shows "world_inv lib secret S (advance lib kh c now an w)"
proof (cases "dm_get (w_conns w) c")
  case None
  then show ?thesis using inv by (simp add: advance_def)
next
  case (Some x)
  have secret: "cfg_shared_secret (pn_config (w_node w)) = secret" and ok: "conn_ok lib secret S x"
    using inv Some by (auto simp: world_inv_def)
  show ?thesis
  proof (cases x)
    case (Greeting addr sock)
    obtain r s where rd: "read_message lib sock = (r, s)" by fastforce
    show ?thesis
    proof (cases r)
      case (Inl e)
      then show ?thesis using Some Greeting rd inv world_inv_conn [of lib secret S w Ended c]
        by (simp add: advance_def conn_ok_def)
    next
      case (Inr msg)
      obtain r' node s' where acc: "accept_handshake lib kh (w_delivered w) now an addr msg (w_node w) s = (r', node, s')"
        by (metis prod_cases3)
      note res = accept_handshake_result [OF acc]
      show ?thesis
      proof (cases r')
        case (Inl e)
        then show ?thesis using Some Greeting rd Inr acc res world_inv_failed [OF inv, of node c]
          by (simp add: advance_def)
      next
        case Est: (Inr pk)
        obtain i key where pk: "pk = (i, key)" by fastforce
        have v: "vouched lib secret S i"
          using res Est pk ok Greeting rd Inr secret unfolding vouched_def conn_ok_def by force
        have "conn_ok lib secret S (Established i key s')"
          using v res Est pk ok Greeting secret read_message_suffix [OF rd] by (auto simp: conn_ok_def)
        then show ?thesis
          using Some Greeting rd Inr acc res Est pk v world_inv_established [OF inv, of node]
          by (auto simp: advance_def)
      qed
    qed
  next
    case (Established p key sock)
    obtain r peers tr s where step: "loop_step lib kh p key (pn_registry (w_node w), w_delivered w, sock) = (r, peers, tr, s)"
      by (metis prod_cases4)
    note res = loop_step_result [OF step]
    have del: "\<forall>d\<in>set tr. signed_delivery lib secret S d"
    proof
      fix d assume "d \<in> set tr"
      with res consider "d \<in> set (w_delivered w)"
        | a m sender json msg where "d = (p, a, m, sender)" "sublist (json @ hmac_sign lib key json) (incoming sock)"
            "wl_from_json lib json = Some msg" "wm_kind msg = Request (AgentMessage a m sender)"
        by blast
      then show "signed_delivery lib secret S d"
      proof cases
        case 1
        then show ?thesis using inv by (simp add: world_inv_def)
      next
        case 2
        then show ?thesis using signed_delivery_suffix [OF _ 2(2-4)] ok Established by simp
      qed
    qed
    have ok': "conn_ok lib secret S (Established p key s)"
      using ok Established res by (auto simp: conn_ok_def intro: suffix_order.trans)
    have keys: "\<forall>i. dm_get peers i \<noteq> None \<longrightarrow> vouched lib secret S i"
      using res inv unfolding world_inv_def by blast
    show ?thesis
    proof (cases r)
      case Going
      then show ?thesis using Some Established step del ok' keys inv
        by (auto simp: advance_def world_inv_def)
    next
      case (Closed e)
      then show ?thesis using Some Established step del keys inv
        by (auto simp: advance_def world_inv_def mark_disconnected_def conn_ok_def split: if_splits)
    qed
  next
    case Ended
    then show ?thesis using inv Some by (simp add: advance_def)
  qed
qed

lemma world_step_inv:
  assumes inv: "world_inv lib secret S w" and S: "sockets_of e \<subseteq> S"
  shows "world_inv lib secret S (world_step lib kh w e)"
proof (cases e)
  case (Accept c addr sock)
  then show ?thesis using world_inv_conn [OF inv, of "Greeting addr sock" c] inv S
    by (simp add: world_step_def conn_ok_def)
next
  case (Connect c addr sock now n mid)
  have secret: "cfg_shared_secret (pn_config (w_node w)) = secret" using inv by (simp add: world_inv_def)
  obtain r node s where con: "connect_to_peer lib kh (w_delivered w) now n mid addr (w_node w) sock = (r, node, s)"
    by (metis prod_cases3)
  note res = connect_result [OF con]
  show ?thesis
  proof (cases r)
    case (Inl x)
    then show ?thesis using Connect con res inv world_inv_failed [OF inv, of node c]
      by (simp add: world_step_def)
  next
    case (Inr pk)
    obtain i key where pk: "pk = (i, key)" by fastforce
    have v: "vouched lib secret S i"
      using res Inr pk S Connect secret unfolding vouched_def by auto
    have "conn_ok lib secret S (Established i key s)"
      using v res Inr pk S Connect secret by (auto simp: conn_ok_def)
    then show ?thesis using Connect con res Inr pk v inv world_inv_established [OF inv, of node]
      by (auto simp: world_step_def)
  qed
next
  case (Advance c now an)
  then show ?thesis using advance_inv [OF inv] by (simp add: world_step_def)
qed

interpretation wire: machine "world_step lib kh" "\<lambda>_ e. sockets_of e \<subseteq> S" "world_inv lib secret S"
  for lib kh S secret
  by unfold_locales (rule world_step_inv)

lemma run_ok_sockets: "(\<Union> (set (map sockets_of es))) \<subseteq> S \<Longrightarrow> run_ok (\<lambda>_ e. sockets_of e \<subseteq> S) step w es"
  by (induction es arbitrary: w) auto

lemma reached_inv:
  assumes "pn_registry node = []"
  shows "world_inv lib (cfg_shared_secret (pn_config node)) (\<Union> (set (map sockets_of es)))
    (run (world_step lib kh) (start_world node) es)"
proof (rule wire.run_inv)
  show "world_inv lib (cfg_shared_secret (pn_config node)) (\<Union> (set (map sockets_of es))) (start_world node)"
    using assms by (simp add: world_inv_def start_world_def)
qed (rule run_ok_sockets [OF subset_refl])

lemma sockets_in_history: "s \<in> \<Union> (set (map sockets_of es)) \<longleftrightarrow>
    (\<exists>c addr. Accept c addr s \<in> set es) \<or> (\<exists>c addr now n mid. Connect c addr s now n mid \<in> set es)"
proof -
  have own: "s \<in> sockets_of e \<longleftrightarrow> (\<exists>c addr. e = Accept c addr s) \<or> (\<exists>c addr now n mid. e = Connect c addr s now n mid)" for e
    by (cases e) auto
  have "s \<in> \<Union> (set (map sockets_of es)) \<longleftrightarrow> (\<exists>e\<in>set es. s \<in> sockets_of e)"
    by simp
  also have "\<dots> \<longleftrightarrow>
      (\<exists>e\<in>set es. (\<exists>c addr. e = Accept c addr s) \<or> (\<exists>c addr now n mid. e = Connect c addr s now n mid))"
    by (simp only: own)
  also have "\<dots> \<longleftrightarrow> (\<exists>e\<in>set es. \<exists>c addr. e = Accept c addr s) \<or> (\<exists>e\<in>set es. \<exists>c addr now n mid. e = Connect c addr s now n mid)"
    by (rule bex_disj_distrib)
  also have "(\<exists>e\<in>set es. \<exists>c addr. e = Accept c addr s) \<longleftrightarrow> (\<exists>c addr. Accept c addr s \<in> set es)" by blast
  also have "(\<exists>e\<in>set es. \<exists>c addr now n mid. e = Connect c addr s now n mid) \<longleftrightarrow> (\<exists>c addr now n mid. Connect c addr s now n mid \<in> set es)"
    by blast
  finally show ?thesis .
qed

text \<open>
  C7: a registered peer has sent a signed greeting. In every history of connections that starts with
  an empty registry, for each registered peer there is an accepted or opened connection whose first
  message carries the id of the peer, the version of the protocol, and a nonce with a signature of
  nonce and id under the shared secret. (Whether the sender made the signature itself is not
  checked: replayed, reflected and shifted greetings are accepted, as shown below.)
\<close>

theorem registered_peers_sent_signed_greeting:
  assumes "pn_registry node = []"
    "get_peer (pn_registry (w_node (run (world_step lib kh) (start_world node) es))) i \<noteq> None"
  shows "\<exists>sock m. ((\<exists>c addr. Accept c addr sock \<in> set es)
        \<or> (\<exists>c addr now n mid. Connect c addr sock now n mid \<in> set es))
      \<and> fst (read_message lib sock) = Inr m \<and> greets_as lib (cfg_shared_secret (pn_config node)) i m"
proof -
  have "vouched lib (cfg_shared_secret (pn_config node)) (\<Union> (set (map sockets_of es))) i"
    using reached_inv [OF assms(1), of lib es kh] assms(2) unfolding world_inv_def get_peer_def by blast
  then show ?thesis unfolding vouched_def using sockets_in_history [of _ es] by meson
qed

text \<open>A library, a node and a history for the witnesses: one peer greets and sends one message.\<close>

definition sample_mac :: "string \<Rightarrow> string" where
  "sample_mac data = (if data = ''nb'' then ''g'' else replicate 64 (CHR ''m''))"

definition sample_lib :: wire_lib where
  "sample_lib = \<lparr>wl_hmac = \<lambda>secret data. data, wl_hex = sample_mac,
     wl_to_json = \<lambda>m. Some ''ok'',
     wl_from_json = (\<lambda>x. if x = ''h''
       then Some \<lparr>wm_id = ''1'', wm_kind = Request (Handshake ''b'' ''bob'' 1 [] ''n'' ''g'')\<rparr>
       else if x = ''am'' then Some \<lparr>wm_id = ''2'', wm_kind = Request (AgentMessage ''a'' ''hi'' None)\<rparr> else None)\<rparr>"

definition sample_kernel :: peer_handle where
  "sample_kernel = \<lparr>ph_local_agents = \<lambda>_. [], ph_agent_message = \<lambda>_ _ _ _. Inr ''hello'',
     ph_discover = \<lambda>_ _. [], ph_uptime = \<lambda>_. 0\<rparr>"

definition sample_node :: peer_node where
  "sample_node = \<lparr>pn_config = \<lparr>cfg_listen_addr = ''l'', cfg_node_id = ''a'', cfg_node_name = ''alice'',
       cfg_shared_secret = ''s''\<rparr>,
     pn_registry = [], pn_local_addr = ''l'', pn_start_time = 0, pn_tracker = new_tracker, pn_session_key = None\<rparr>"

definition sample_history :: "event list" where
  "sample_history =
     [Accept 1 ''b:1'' \<lparr>incoming = to_be_bytes 1 @ ''h'' @ to_be_bytes 66 @ ''am'' @ replicate 64 (CHR ''m''),
        breaks = False, outgoing = [], writes_left = 9\<rparr>,
      Advance 1 5 ''x'', Advance 1 6 []]"

lemma utf8_replicate: "utf8 (replicate n (CHR ''m''))"
  by (induction n) (auto simp: utf8_def is_continuation_def char_width_def dropWhile_replicate takeWhile_replicate)

lemma sample_run:
  "run (world_step sample_lib sample_kernel) (start_world sample_node) sample_history =
     \<lparr>w_node = sample_node\<lparr>
        pn_registry := [(''b'', entry_of ''b'' ''bob'' 1 [] ''b:1'' 5)],
        pn_tracker := new_tracker\<lparr>seen := [(''n'', 5)]\<rparr>\<rparr>,
      w_conns = [(1, Established ''b'' (replicate 64 (CHR ''m''))
        \<lparr>incoming = [], breaks = False,
         outgoing = [to_be_bytes 2 @ ''ok'', to_be_bytes 66 @ ''ok'' @ replicate 64 (CHR ''m'')], writes_left = 7\<rparr>)],
      w_delivered = [(''b'', ''a'', ''hi'', None)]\<rparr>"
  by (simp add: sample_history_def start_world_def world_step_def advance_def read_message_def read_length_def
      read_exact_def MAX_MESSAGE_SIZE_def sample_lib_def accept_handshake_def PROTOCOL_VERSION_def
      check_and_record_def collect_nonces_def record_nonce_def sample_node_def new_tracker_def hmac_verify_def hmac_sign_def
      sample_mac_def write_message_def encode_message_def write_all_def our_ack_def own_signature_def Let_def
      derive_session_key_def dm_insert_def add_peer_def entry_of_def loop_step_def read_message_authenticated_def
      HMAC_HEX_LEN_def open_frame_def handle_request_in_loop_def write_message_authenticated_def signed_frame_def
      sample_kernel_def dm_get_def utf8_replicate)

lemma registered_peers_sent_signed_greeting_witness:
  "(let w = run (world_step sample_lib sample_kernel) (start_world sample_node) sample_history
    in get_peer (pn_registry (w_node w)) ''b'' \<noteq> None)
   \<and> (\<exists>sock m. ((\<exists>c addr. Accept c addr sock \<in> set sample_history)
        \<or> (\<exists>c addr now n mid. Connect c addr sock now n mid \<in> set sample_history))
      \<and> fst (read_message sample_lib sock) = Inr m \<and> greets_as sample_lib ''s'' ''b'' m)"
proof -
  have "get_peer (pn_registry (w_node (run (world_step sample_lib sample_kernel) (start_world sample_node) sample_history)))
      ''b'' \<noteq> None"
    by (simp add: sample_run get_peer_def dm_get_def)
  with registered_peers_sent_signed_greeting [of sample_node sample_lib sample_kernel sample_history "''b''"]
  show ?thesis by (simp add: sample_node_def)
qed

text \<open>
  C17: nothing unsigned reaches an agent: in every history, a message that was delivered to an agent
  for a peer stands in what arrived on a connection, followed by its signature under a key derived
  from the shared secret and two nonces, and the peer is vouched for.
\<close>

theorem delivered_messages_are_signed:
  assumes "pn_registry node = []"
    "(peer, agent, message, sender) \<in> set (w_delivered (run (world_step lib kh) (start_world node) es))"
  shows "\<exists>sock n1 n2 json msg. ((\<exists>c addr. Accept c addr sock \<in> set es)
        \<or> (\<exists>c addr now n mid. Connect c addr sock now n mid \<in> set es))
      \<and> sublist (json @ hmac_sign lib (derive_session_key lib (cfg_shared_secret (pn_config node)) n1 n2) json)
          (incoming sock)
      \<and> wl_from_json lib json = Some msg \<and> wm_kind msg = Request (AgentMessage agent message sender)"
proof -
  have "signed_delivery lib (cfg_shared_secret (pn_config node)) (\<Union> (set (map sockets_of es)))
      (peer, agent, message, sender)"
    using reached_inv [OF assms(1), of lib es kh] assms(2) unfolding world_inv_def by blast
  then obtain sock n1 n2 json msg where "sock \<in> \<Union> (set (map sockets_of es))"
    "sublist (json @ hmac_sign lib (derive_session_key lib (cfg_shared_secret (pn_config node)) n1 n2) json) (incoming sock)"
    "wl_from_json lib json = Some msg" "wm_kind msg = Request (AgentMessage agent message sender)"
    unfolding signed_delivery_def by blast
  moreover from this(1) sockets_in_history [of sock es]
  have "(\<exists>c addr. Accept c addr sock \<in> set es) \<or> (\<exists>c addr now n mid. Connect c addr sock now n mid \<in> set es)"
    by simp
  ultimately show ?thesis by blast
qed

lemma delivered_messages_are_signed_witness:
  "(''b'', ''a'', ''hi'', None) \<in> set (w_delivered (run (world_step sample_lib sample_kernel) (start_world sample_node)
      sample_history))
   \<and> (\<exists>sock n1 n2 json msg. ((\<exists>c addr. Accept c addr sock \<in> set sample_history)
        \<or> (\<exists>c addr now n mid. Connect c addr sock now n mid \<in> set sample_history))
      \<and> sublist (json @ hmac_sign sample_lib (derive_session_key sample_lib ''s'' n1 n2) json) (incoming sock)
      \<and> wl_from_json sample_lib json = Some msg \<and> wm_kind msg = Request (AgentMessage ''a'' ''hi'' None))"
proof -
  have "(''b'', ''a'', ''hi'', None) \<in> set (w_delivered (run (world_step sample_lib sample_kernel)
      (start_world sample_node) sample_history))"
    by (simp add: sample_run)
  with delivered_messages_are_signed [of sample_node "''b''" "''a''" "''hi''" None sample_lib sample_kernel sample_history]
  show ?thesis by (simp add: sample_node_def)
qed



section \<open>Both sides of a handshake\<close>

definition fits :: "wire_lib \<Rightarrow> wire_message \<Rightarrow> bool" where
  "fits lib m \<longleftrightarrow> (\<exists>j. wl_to_json lib m = Some j \<and> wl_from_json lib j = Some m
     \<and> length j \<le> unat MAX_MESSAGE_SIZE)"

lemma fits_frame:
  assumes "fits lib m"
  obtains f where "encode_message (wl_to_json lib) m = Some f"
    "\<And>sock. read_message lib (sock\<lparr>incoming := f\<rparr>) = (Inr m, sock\<lparr>incoming := []\<rparr>)"
proof -
  from assms obtain j where j: "wl_to_json lib m = Some j" "wl_from_json lib j = Some m"
    "length j \<le> unat MAX_MESSAGE_SIZE"
    by (auto simp: fits_def)
  let ?f = "to_be_bytes (of_nat (length j)) @ j"
  show thesis
  proof (rule that [of ?f])
    show "encode_message (wl_to_json lib) m = Some ?f" using j by (simp add: encode_message_def)
    show "read_message lib (sock\<lparr>incoming := ?f\<rparr>) = (Inr m, sock\<lparr>incoming := []\<rparr>)" for sock
      using read_message_frame [OF j(3,2), where r = "[]" and sock = sock] by simp
  qed
qed

text \<open>
  Two nodes with the same secret and fresh nonces come to an agreement: what the one sends is what
  the other reads, both end with the same session key, and each has registered the other under its
  id, with its agents.
\<close>

theorem handshake_agrees:
  assumes secret: "cfg_shared_secret (pn_config A) = cfg_shared_secret (pn_config B)"
    and hello: "fits lib (our_handshake lib kh tr A n mid)" and ack: "fits lib (our_ack lib kh' tr' B n' mid)"
    and fresh: "fresh_at now n (pn_tracker B)" "fresh_at now' n' (pn_tracker A)"
  shows "\<exists>f g key A' B' sA sB m s.
     connect_to_peer lib kh tr now' n mid addrB A \<lparr>incoming = g, breaks = False, outgoing = [], writes_left = 1\<rparr>
       = (Inr (cfg_node_id (pn_config B), key), A', sA) \<and> outgoing sA = [f]
     \<and> read_message lib \<lparr>incoming = f, breaks = False, outgoing = [], writes_left = 1\<rparr> = (Inr m, s)
     \<and> accept_handshake lib kh' tr' now n' addrA m B s = (Inr (cfg_node_id (pn_config A), key), B', sB)
     \<and> outgoing sB = [g]
     \<and> map_option pe_agents (get_peer (pn_registry A') (cfg_node_id (pn_config B))) = Some (ph_local_agents kh' tr')
     \<and> map_option pe_agents (get_peer (pn_registry B') (cfg_node_id (pn_config A))) = Some (ph_local_agents kh tr)"
proof -
  obtain f where f: "encode_message (wl_to_json lib) (our_handshake lib kh tr A n mid) = Some f"
    "\<And>sock. read_message lib (sock\<lparr>incoming := f\<rparr>) = (Inr (our_handshake lib kh tr A n mid), sock\<lparr>incoming := []\<rparr>)"
    using fits_frame [OF hello] by metis
  obtain g where g: "encode_message (wl_to_json lib) (our_ack lib kh' tr' B n' mid) = Some g"
    "\<And>sock. read_message lib (sock\<lparr>incoming := g\<rparr>) = (Inr (our_ack lib kh' tr' B n' mid), sock\<lparr>incoming := []\<rparr>)"
    using fits_frame [OF ack] by metis
  let ?sock = "\<lambda>x. \<lparr>incoming = x, breaks = False, outgoing = [], writes_left = 1\<rparr>"
  let ?key = "derive_session_key lib (cfg_shared_secret (pn_config A)) n n'"
  have rf: "read_message lib (?sock f) = (Inr (our_handshake lib kh tr A n mid), ?sock [])"
    using f(2) [of "?sock []"] by simp
  have rg: "read_message lib \<lparr>incoming = g, breaks = False, outgoing = [f], writes_left = 0\<rparr>
      = (Inr (our_ack lib kh' tr' B n' mid), \<lparr>incoming = [], breaks = False, outgoing = [f], writes_left = 0\<rparr>)"
    using g(2) [of "\<lparr>incoming = [], breaks = False, outgoing = [f], writes_left = 0\<rparr>"] by simp
  have "\<exists>A'. connect_to_peer lib kh tr now' n mid addrB A (?sock g)
      = (Inr (cfg_node_id (pn_config B), ?key), A', \<lparr>incoming = [], breaks = False, outgoing = [f], writes_left = 0\<rparr>)
      \<and> map_option pe_agents (get_peer (pn_registry A') (cfg_node_id (pn_config B))) = Some (ph_local_agents kh' tr')"
    using fresh(2) secret
    by (simp add: connect_to_peer_def greet_def write_message_def write_all_def f(1) rg verify_ack_def our_ack_def
        check_and_record_fresh hmac_verify_def own_signature_def get_peer_def add_peer_def entry_of_def)
  moreover have "\<exists>B'. accept_handshake lib kh' tr' now n' addrA (our_handshake lib kh tr A n mid) B (?sock [])
      = (Inr (cfg_node_id (pn_config A), ?key), B', \<lparr>incoming = [], breaks = False, outgoing = [g], writes_left = 0\<rparr>)
      \<and> map_option pe_agents (get_peer (pn_registry B') (cfg_node_id (pn_config A))) = Some (ph_local_agents kh tr)"
    using fresh(1) secret g(1)
    by (simp add: accept_handshake_def our_handshake_def write_message_def write_all_def
        check_and_record_fresh hmac_verify_def own_signature_def get_peer_def add_peer_def entry_of_def)
  ultimately show ?thesis using rf by force
qed

section \<open>What gets through\<close>

text \<open>
  The signature of an answer is made like that of a greeting, and a node does not remember its own
  nonces: sending a node its own greeting back as an answer passes, under the node's own id, with
  agents of the sender's choice, who need not know the secret.
\<close>

theorem reflected_greeting_accepted:
  assumes "fresh_at now n (pn_tracker node)"
    and "wm_kind hello = Request (Handshake i name v agents n mac)"
    and "hello = our_handshake lib kh tr node n mid"
  shows "fst (verify_ack lib now n \<lparr>wm_id = any, wm_kind = Response (HandshakeAck i name' v agents' n mac)\<rparr> node)
    = Inr (derive_session_key lib (cfg_shared_secret (pn_config node)) n n)"
  using assms
  by (auto simp: our_handshake_def verify_ack_def check_and_record_fresh hmac_verify_def own_signature_def)

text \<open>
  The signed text does not mark where the nonce ends. Whoever overheard a greeting moves the start
  of the id to the end of the nonce, which makes the nonce a new one, and is registered at once,
  under the rest of the id and with other agents.
\<close>

theorem shifted_greeting_accepted:
  assumes first: "accept_handshake lib kh tr now an addr
      \<lparr>wm_id = mid, wm_kind = Request (Handshake i name v agents nonce mac)\<rparr> node sock = (Inr pk, node', s)"
    and "fresh_at now (nonce @ take k i) (pn_tracker node')"
    and "encode_message (wl_to_json lib) (our_ack lib kh tr node' an' mid') \<noteq> None" "writes_left sock' \<noteq> 0"
  shows "\<exists>key node'' s'. accept_handshake lib kh tr now an' addr'
      \<lparr>wm_id = mid', wm_kind = Request (Handshake (drop k i) name' v agents' (nonce @ take k i) mac)\<rparr> node' sock'
      = (Inr (drop k i, key), node'', s')
    \<and> map_option pe_agents (get_peer (pn_registry node'') (drop k i)) = Some agents'"
proof -
  have "greets_as lib (cfg_shared_secret (pn_config node)) (fst pk) \<lparr>wm_id = mid, wm_kind = Request (Handshake i name v agents nonce mac)\<rparr>"
    and "pn_config node' = pn_config node"
    using accept_handshake_result [OF first] by (cases pk; simp)+
  then show ?thesis using assms(2-)
    by (auto simp: accept_handshake_def greets_as_def check_and_record_fresh hmac_verify_def write_message_def
        write_all_def get_peer_def add_peer_def entry_of_def)
qed

text \<open>Five minutes after it was accepted, a greeting that was overheard is accepted again.\<close>

theorem old_greeting_accepted_again:
  assumes first: "accept_handshake lib kh tr now an addr msg node sock = (Inr (i, key), node', s)"
    and "dm_wf (seen (pn_tracker node))" "window (pn_tracker node) \<le> later - now" "now \<le> later"
    and "encode_message (wl_to_json lib) (our_ack lib kh tr node' an' (wm_id msg)) \<noteq> None" "writes_left sock' \<noteq> 0"
  shows "\<exists>key' node'' s'. accept_handshake lib kh tr later an' addr' msg node' sock' = (Inr (i, key'), node'', s')
    \<and> map_option pe_address (get_peer (pn_registry node'') i) = Some addr'"
proof -
  obtain name v agents nonce mac where m: "wm_kind msg = Request (Handshake i name v agents nonce mac)"
    and t: "fresh_at now nonce (pn_tracker node)" "pn_tracker node' = snd (check_and_record now nonce (pn_tracker node))"
    and c: "pn_config node' = pn_config node"
    and g: "v = PROTOCOL_VERSION" "mac = hmac_sign lib (cfg_shared_secret (pn_config node)) (nonce @ i)"
    using first
    by (auto simp: accept_handshake_def Let_def check_and_record_fresh hmac_verify_def dest!: refuse_Inl
        split: wire_message_kind.splits wire_request.splits prod.splits sum.splits if_splits)
  have "fresh_at later nonce (pn_tracker node')"
    using seen_check [OF assms(2), of now nonce nonce] t assms(2-4) check_and_record_wf [OF assms(2), of now nonce]
    by (simp add: fresh_at_def collect_nonces_def dm_get_filter elapsed_def not_less)
  then show ?thesis using m g c assms(5-)
    by (auto simp: accept_handshake_def check_and_record_fresh hmac_verify_def write_message_def
        write_all_def get_peer_def add_peer_def entry_of_def)
qed

text \<open>
  The frames of a connection are not numbered: a frame that arrives twice is handled twice.
\<close>

lemma loop_step_message:
  assumes "wl_from_json lib json = Some msg" "2 \<le> length json"
    and "length (hmac_sign lib key json) = HMAC_HEX_LEN" "utf8 (hmac_sign lib key json)"
    and "length json + HMAC_HEX_LEN \<le> unat MAX_MESSAGE_SIZE"
    and "wm_kind msg = Request (AgentMessage agent message sender)"
    and "wl_to_json lib (fst (handle_request_in_loop kh peer tr msg)) \<noteq> None" "0 < writes_left sock"
  shows "\<exists>s. loop_step lib kh peer key (peers, tr, sock\<lparr>incoming := signed_frame lib key json @ r\<rparr>)
      = (Going, peers, tr @ [(peer, agent, message, sender)], s)
    \<and> incoming s = r \<and> writes_left s = writes_left sock - 1"
  using signed_frame_roundtrip [OF assms(1-5), where r = r and sock = sock] assms(6-)
  by (auto simp: loop_step_def handle_request_in_loop_def write_message_authenticated_def write_all_def Let_def
      split: sum.split)

theorem repeated_frame_handled_twice:
  assumes "wl_from_json lib json = Some msg" "2 \<le> length json"
    and "length (hmac_sign lib key json) = HMAC_HEX_LEN" "utf8 (hmac_sign lib key json)"
    and "length json + HMAC_HEX_LEN \<le> unat MAX_MESSAGE_SIZE"
    and "wm_kind msg = Request (AgentMessage agent message sender)"
    and "\<And>m. wl_to_json lib m \<noteq> None" "1 < writes_left sock"
    and "incoming sock = signed_frame lib key json @ signed_frame lib key json @ r"
  shows "\<exists>s1 s2. loop_step lib kh peer key (peers, tr, sock) = (Going, peers, tr @ [(peer, agent, message, sender)], s1)
    \<and> loop_step lib kh peer key (peers, tr @ [(peer, agent, message, sender)], s1)
      = (Going, peers, tr @ [(peer, agent, message, sender), (peer, agent, message, sender)], s2)"
proof -
  have [simp]: "sock\<lparr>incoming := signed_frame lib key json @ signed_frame lib key json @ r\<rparr> = sock"
    using assms(9) by (cases sock) simp
  note step = loop_step_message [OF assms(1-6) assms(7)]
  obtain s1 where s1: "loop_step lib kh peer key (peers, tr, sock) = (Going, peers, tr @ [(peer, agent, message, sender)], s1)"
    "incoming s1 = signed_frame lib key json @ r" "writes_left s1 = writes_left sock - 1"
    using step [where kh = kh and peer = peer and tr = tr and sock = sock and peers = peers
        and r = "signed_frame lib key json @ r"] assms(8,9)
    by auto
  moreover have s1_id: "s1\<lparr>incoming := signed_frame lib key json @ r\<rparr> = s1" using s1(2) by (cases s1) simp
  have "\<exists>s2. loop_step lib kh peer key (peers, tr @ [(peer, agent, message, sender)], s1)
      = (Going, peers, (tr @ [(peer, agent, message, sender)]) @ [(peer, agent, message, sender)], s2)"
    using step [where kh = kh and peer = peer and tr = "tr @ [(peer, agent, message, sender)]" and sock = s1
        and peers = peers and r = r] assms(8) s1(3) unfolding s1_id by auto
  ultimately show ?thesis by auto
qed

text \<open>
  A broadcast opens a new connection and sends a signed frame where the other side expects a
  greeting. A parser that rejects text after a value, as \<open>serde_json\<close> does, rejects it; nothing
  is known there of the nonce the key was made of either.
\<close>

theorem broadcast_is_not_received:
  assumes sent: "broadcast_to lib secret notif ids dial peer = (None, Some sock)"
    and "dial (pe_address peer) = Some line" "outgoing line = []"
    and json: "wl_to_json lib \<lparr>wm_id = fst (ids (pe_node_id peer)), wm_kind = Notification notif\<rparr> = Some json"
    and trailing: "\<And>x. x \<noteq> [] \<Longrightarrow> wl_from_json lib (json @ x) = None"
    and "length (hmac_sign lib key json) = HMAC_HEX_LEN" "length json + HMAC_HEX_LEN \<le> unat MAX_MESSAGE_SIZE"
    and "key = hmac_sign lib secret (snd (ids (pe_node_id peer)))"
    and greeting: "dm_get (w_conns w) c = Some (Greeting addr s)" "incoming s = concat (outgoing sock)"
  shows "advance lib kh c now an w = w\<lparr>w_conns := dm_insert c Ended (w_conns w)\<rparr>"
proof -
  let ?mac = "hmac_sign lib key json"
  have "outgoing sock = [signed_frame lib key json]"
    using sent assms(2,3) json assms(8)
    by (auto simp: broadcast_to_def write_message_authenticated_def write_all_def split: if_splits)
  then have inc: "incoming s = to_be_bytes (of_nat (length json + length ?mac)) @ json @ ?mac"
    using greeting(2) by (simp add: signed_frame_def Let_def)
  have n: "length (json @ ?mac) \<le> unat MAX_MESSAGE_SIZE" using assms(6,7) by simp
  have "wl_from_json lib (json @ ?mac) = None" using assms(6) by (intro trailing) (auto simp: HMAC_HEX_LEN_def)
  moreover have "read_length s = (Inr (of_nat (length (json @ ?mac))), s\<lparr>incoming := json @ ?mac\<rparr>)"
    using read_length_header [OF n, where sock = s and r = "json @ ?mac"] inc
    by (metis (no_types, lifting) length_append socket.surjective socket.update_convs(1))
  ultimately have "fst (read_message lib s) = Inl Json"
    using unat_of_frame_length [OF n] by (simp add: read_message_def read_exact_def)
  then show ?thesis using greeting(1) by (cases "read_message lib s") (simp add: advance_def)
qed

text \<open>
  A peer with two connections is marked as disconnected when the first of them ends, although
  messages still flow on the other; every \<open>send_to_peer\<close> is such a second connection.
\<close>

theorem second_connection_disconnects:
  assumes "dm_get (w_conns w) c = Some (Established p key sock)" "dm_get (w_conns w) c' = Some (Established p key' sock')"
    and "c \<noteq> c'" "incoming sock' = []" "\<not> breaks sock'"
    and "get_peer (pn_registry (w_node w)) p = Some e"
  shows "dm_get (w_conns (advance lib kh c' now an w)) c = Some (Established p key sock)
    \<and> map_option pe_state (get_peer (pn_registry (w_node (advance lib kh c' now an w))) p) = Some Disconnected"
  using assms
  by (simp add: advance_def loop_step_def read_message_authenticated_def read_length_def read_exact_def
      get_peer_def mark_disconnected_def)

end
