(* ===== verification/Ssrf.thy ===== *)
theory Ssrf
  imports Capability Utf8
begin

text \<open>
  The check that keeps fetches out of internal networks: \<open>check_ssrf\<close>, \<open>extract_host\<close> and the
  address predicates of \<open>openfang-runtime/src/web_fetch.rs\<close>, with the standard library's parser of
  addresses, the call of it by \<open>host_net_fetch\<close> (\<open>host_functions.rs\<close>), and the simpler checks of
  \<open>mcp.rs\<close> and \<open>link_understanding.rs\<close>. The name service is the parameter \<open>lookup\<close>; a name it
  does not know is \<open>None\<close>. An error holds what its message interpolates.
\<close>

section \<open>Addresses\<close>

datatype ip_addr = V4 u32 | V6 "128 word"

definition octets :: "u32 \<Rightarrow> nat list" where
  "octets v = map (\<lambda>k. unat v div 2 ^ k mod 256) [24, 16, 8, 0]"

definition first_segment :: "128 word \<Rightarrow> u16" where
  "first_segment w = of_nat (unat w div 2 ^ 112)"

fun is_loopback :: "ip_addr \<Rightarrow> bool" where
  "is_loopback (V4 v) = (hd (octets v) = 127)"
| "is_loopback (V6 w) = (w = 1)"

fun is_unspecified :: "ip_addr \<Rightarrow> bool" where
  "is_unspecified (V4 v) = (v = 0)"
| "is_unspecified (V6 w) = (w = 0)"

fun is_metadata_ip :: "ip_addr \<Rightarrow> bool" where
  "is_metadata_ip (V4 v) = (octets v = [169, 254, 169, 254] \<or> octets v = [100, 100, 100, 200] \<or> octets v = [192, 0, 0, 192])"
| "is_metadata_ip (V6 _) = False"

fun is_private_ip :: "ip_addr \<Rightarrow> bool" where
  "is_private_ip (V4 v) =
     (case octets v of
        [a, b, _, _] \<Rightarrow> a = 10 \<or> (a = 172 \<and> 16 \<le> b \<and> b \<le> 31) \<or> (a = 192 \<and> b = 168) \<or> (a = 169 \<and> b = 254)
      | _ \<Rightarrow> False)"
| "is_private_ip (V6 w) =
     (and (first_segment w) 0xfe00 = 0xfc00 \<or> and (first_segment w) 0xffc0 = 0xfe80)"

fun ip_in_cidr :: "ip_addr \<Rightarrow> ip_addr \<Rightarrow> u32 \<Rightarrow> bool" where
  "ip_in_cidr (V4 ip) (V4 base) prefix_len =
     (if prefix_len > 32 then False
      else if prefix_len = 0 then True
      else let mask = push_bit (32 - unat prefix_len) (- 1) in and ip mask = and base mask)"
| "ip_in_cidr (V6 ip) (V6 base) prefix_len =
     (if prefix_len > 128 then False
      else if prefix_len = 0 then True
      else let mask = push_bit (128 - unat prefix_len) (- 1) in and ip mask = and base mask)"
| "ip_in_cidr _ _ _ = False"

section \<open>Reading addresses\<close>

text \<open>\<open>str::parse\<close> for \<open>Ipv4Addr\<close> and \<open>Ipv6Addr\<close>.\<close>

definition parse_octet :: "string \<Rightarrow> nat option" where
  "parse_octet s =
     (if list_all is_digit s \<and> length s \<le> 3 \<and> (hd s \<noteq> CHR ''0'' \<or> length s = 1) then parse_u8 s else None)"

definition parse_v4 :: "string \<Rightarrow> u32 option" where
  "parse_v4 s =
     (case map parse_octet (split_on (CHR ''.'') s) of
        [Some a, Some b, Some c, Some d] \<Rightarrow> Some (of_nat (((a * 256 + b) * 256 + c) * 256 + d))
      | _ \<Rightarrow> None)"

definition hex_digit :: "char \<Rightarrow> nat option" where
  "hex_digit c = (let n = (of_char c :: nat) in
     if is_digit c then Some (n - 48)
     else if 65 \<le> n \<and> n \<le> 70 then Some (n - 55)
     else if 97 \<le> n \<and> n \<le> 102 then Some (n - 87) else None)"

definition parse_hextet :: "string \<Rightarrow> nat option" where
  "parse_hextet s =
     (if s = [] \<or> length s > 4 then None
      else foldl (\<lambda>acc c. Option.bind acc (\<lambda>n. map_option (\<lambda>d. 16 * n + d) (hex_digit c))) (Some 0) s)"

text \<open>Groups between colons; the last may be written as a dotted address, which makes two.\<close>

fun parse_groups :: "bool \<Rightarrow> string list \<Rightarrow> nat list option" where
  "parse_groups dotted [] = Some []"
| "parse_groups dotted [p] =
     (case parse_hextet p of
        Some n \<Rightarrow> Some [n]
      | None \<Rightarrow>
          if dotted then map_option (\<lambda>v. [unat v div 65536, unat v mod 65536]) (parse_v4 p) else None)"
| "parse_groups dotted (p # ps) =
     Option.bind (parse_hextet p) (\<lambda>n. map_option (Cons n) (parse_groups dotted ps))"

definition groups_between :: "bool \<Rightarrow> string \<Rightarrow> nat list option" where
  "groups_between dotted s = (if s = [] then Some [] else parse_groups dotted (split_on (CHR '':'') s))"

definition v6_of_groups :: "nat list \<Rightarrow> 128 word" where
  "v6_of_groups gs = of_nat (foldl (\<lambda>acc g. 65536 * acc + g) 0 gs)"

definition parse_v6 :: "string \<Rightarrow> (128 word) option" where
  "parse_v6 s =
     (case str_find s ''::'' of
        None \<Rightarrow> Option.bind (groups_between True s) (\<lambda>gs. if length gs = 8 then Some (v6_of_groups gs) else None)
      | Some k \<Rightarrow>
          Option.bind (groups_between False (take k s)) (\<lambda>front.
            Option.bind (groups_between True (drop (k + 2) s)) (\<lambda>back.
              if length front + length back \<le> 7
              then Some (v6_of_groups (front @ replicate (8 - length front - length back) 0 @ back)) else None)))"

definition parse_ip :: "string \<Rightarrow> ip_addr option" where
  "parse_ip s = or_else (map_option V4 (parse_v4 s)) (map_option V6 (parse_v6 s))"

section \<open>The allow list\<close>

definition entry_covers_host :: "string \<Rightarrow> string \<Rightarrow> bool" where
  "entry_covers_host lower entry =
     (let e = to_lowercase entry
      in e = lower
         \<or> (case strip_prefix ''*.'' e of Some sfx \<Rightarrow> ends_with lower (''.'' @ sfx) \<or> lower = sfx | None \<Rightarrow> False))"

definition is_host_allowed :: "string \<Rightarrow> string list \<Rightarrow> bool" where
  "is_host_allowed hostname allowed_hosts = list_ex (entry_covers_host (to_lowercase hostname)) allowed_hosts"

definition entry_covers_ip :: "ip_addr \<Rightarrow> string \<Rightarrow> bool" where
  "entry_covers_ip ip entry =
     (case str_find entry ''/'' of
        Some pos \<Rightarrow>
          (case (parse_ip (take pos entry), parse_u32 (drop (pos + 1) entry)) of
             (Some base_ip, Some prefix_len) \<Rightarrow> ip_in_cidr ip base_ip prefix_len
           | _ \<Rightarrow> False)
      | None \<Rightarrow> parse_ip entry = Some ip)"

definition is_ip_allowed :: "ip_addr \<Rightarrow> string list \<Rightarrow> bool" where
  "is_ip_allowed ip allowed_hosts = list_ex (entry_covers_ip ip) allowed_hosts"

section \<open>Hosts of URLs\<close>

text \<open>\<open>url.split("://").nth(1)\<close> and \<open>s.split(c).next()\<close>.\<close>

definition after_scheme :: "string \<Rightarrow> string option" where
  "after_scheme url =
     map_option (\<lambda>k. let r = drop (k + 3) url in (case str_find r ''://'' of Some j \<Rightarrow> take j r | None \<Rightarrow> r))
       (str_find url ''://'')"

definition before_char :: "char \<Rightarrow> string \<Rightarrow> string" where
  "before_char c s = takeWhile (\<lambda>x. x \<noteq> c) s"

definition default_port :: "string \<Rightarrow> string" where
  "default_port url = (if starts_with url ''https'' then ''443'' else ''80'')"

definition extract_host :: "string \<Rightarrow> string" where
  "extract_host url =
     (case after_scheme url of
        None \<Rightarrow> url
      | Some rest \<Rightarrow>
          let host_port = before_char (CHR ''/'') rest;
              bracket_end = (if starts_with host_port ''['' then str_find host_port '']'' else None)
          in case bracket_end of
               Some b \<Rightarrow>
                 (case strip_prefix '':'' (drop (b + 1) host_port) of
                    Some port \<Rightarrow> take (b + 1) host_port @ '':'' @ port
                  | None \<Rightarrow> take (b + 1) host_port @ '':'' @ default_port url)
             | None \<Rightarrow>
                 if CHR '':'' \<in> set host_port then host_port else host_port @ '':'' @ default_port url)"

definition checked_hostname :: "string \<Rightarrow> string" where
  "checked_hostname url =
     (let host = extract_host url
      in if starts_with host ''[''
         then (case str_find host '']'' of Some i \<Rightarrow> take (i + 1) host | None \<Rightarrow> host)
         else before_char (CHR '':'') host)"

definition BLOCKED_HOSTNAMES :: "string list" where
  "BLOCKED_HOSTNAMES =
     [''localhost'', ''ip6-localhost'', ''metadata.google.internal'', ''metadata.aws.internal'', ''instance-data'',
      ''169.254.169.254'', ''100.100.100.200'', ''192.0.0.192'', ''0.0.0.0'', ''::1'', ''[::1]'']"

section \<open>The check\<close>

datatype ssrf_error =
    BadScheme
  | RestrictedHostname string
  | ResolvesToMetadata string ip_addr
  | ResolvesToPrivate string ip_addr

text \<open>
  \<open>to_socket_addrs\<close> on a host and a port: an address is read as one, another name is looked up.
\<close>

definition socket_addresses :: "(string \<Rightarrow> ip_addr list option) \<Rightarrow> string \<Rightarrow> ip_addr list option" where
  "socket_addresses lookup hostname =
     (let literal = (if starts_with hostname ''['' \<and> ends_with hostname '']''
            then map_option V6 (parse_v6 (butlast (tl hostname))) else map_option V4 (parse_v4 hostname))
      in case literal of Some ip \<Rightarrow> Some [ip] | None \<Rightarrow> lookup hostname)"

definition is_internal :: "ip_addr \<Rightarrow> bool" where
  "is_internal ip = (is_loopback ip \<or> is_unspecified ip \<or> is_private_ip ip)"

fun check_addresses :: "string \<Rightarrow> string list \<Rightarrow> ip_addr list \<Rightarrow> ssrf_error + unit" where
  "check_addresses hostname allowed [] = Inr ()"
| "check_addresses hostname allowed (ip # ips) =
     (if is_metadata_ip ip then Inl (ResolvesToMetadata hostname ip)
      else if is_internal ip \<and> \<not> is_ip_allowed ip allowed then Inl (ResolvesToPrivate hostname ip)
      else check_addresses hostname allowed ips)"

definition check_ssrf :: "(string \<Rightarrow> ip_addr list option) \<Rightarrow> string \<Rightarrow> string list \<Rightarrow> ssrf_error + unit" where
  "check_ssrf lookup url allowed_hosts =
     (if \<not> starts_with url ''http://'' \<and> \<not> starts_with url ''https://'' then Inl BadScheme
      else let hostname = checked_hostname url
           in if hostname \<in> set BLOCKED_HOSTNAMES then Inl (RestrictedHostname hostname)
              else if is_host_allowed hostname allowed_hosts then Inr ()
              else (case socket_addresses lookup hostname of
                      Some addrs \<Rightarrow> check_addresses hostname allowed_hosts addrs
                    | None \<Rightarrow> Inr ()))"

text \<open>What a fetch of a WebAssembly guest passes before its request: the check, then its grants.\<close>

definition host_net_gate ::
  "(string \<Rightarrow> ip_addr list option) \<Rightarrow> string list \<Rightarrow> capability list \<Rightarrow> string \<Rightarrow> ssrf_error option + bool" where
  "host_net_gate lookup allowed_hosts caps url =
     (case check_ssrf lookup url allowed_hosts of
        Inl e \<Rightarrow> Inl (Some e)
      | Inr _ \<Rightarrow>
          if list_ex (\<lambda>g. capability_matches g (NetConnect (extract_host url))) caps then Inr True else Inl None)"

section \<open>The other checks\<close>

definition mcp_check_ssrf :: "string \<Rightarrow> bool" where
  "mcp_check_ssrf url =
     (let lower = to_lowercase url
      in \<not> (str_contains lower ''169.254.169.254'' \<or> str_contains lower ''metadata.google''))"

definition link_host :: "string \<Rightarrow> string" where
  "link_host authority =
     (if starts_with authority ''['' then dropWhile (\<lambda>c. c = CHR ''['') (before_char (CHR '']'') authority)
      else before_char (CHR '':'') authority)"

definition is_private_url :: "string \<Rightarrow> bool" where
  "is_private_url url =
     (case after_scheme url of
        None \<Rightarrow> True
      | Some rest \<Rightarrow>
          let host = to_lowercase (link_host (before_char (CHR ''/'') rest))
          in host \<in> {''localhost'', ''127.0.0.1'', ''0.0.0.0'', ''::1'', ''[::1]'', ''metadata.google.internal'', ''169.254.169.254''}
             \<or> ends_with host ''.local'' \<or> ends_with host ''.internal''
             \<or> starts_with host ''10.'' \<or> starts_with host ''192.168.''
             \<or> (starts_with host ''172.''
                \<and> (case split_on (CHR ''.'') host of
                      _ # p # _ \<Rightarrow> (case parse_u8 p of Some n \<Rightarrow> 16 \<le> n \<and> n \<le> 31 | None \<Rightarrow> False)
                    | _ \<Rightarrow> False)))"

text \<open>
  The URLs of a message: the matches of the regular expression, which \<open>regex_lite\<close> finds, each
  once, without private ones, at most \<open>max\<close> of them; the limit is looked at after each.
\<close>

fun keep_urls :: "nat \<Rightarrow> string list \<Rightarrow> string list \<Rightarrow> string list \<Rightarrow> string list" where
  "keep_urls max_links seen urls [] = urls"
| "keep_urls max_links seen urls (u # us) =
     (if u \<in> set seen then keep_urls max_links seen urls us
      else if is_private_url u then keep_urls max_links (u # seen) urls us
      else let urls1 = urls @ [u]
           in if length urls1 \<ge> max_links then urls1 else keep_urls max_links (u # seen) urls1 us)"

definition extract_urls :: "(string \<Rightarrow> string list) \<Rightarrow> string \<Rightarrow> nat \<Rightarrow> string list" where
  "extract_urls find_urls txt max_links = keep_urls max_links [] [] (find_urls txt)"

definition build_link_context :: "(string \<Rightarrow> string list) \<Rightarrow> string \<Rightarrow> bool \<Rightarrow> nat \<Rightarrow> string option" where
  "build_link_context find_urls txt is_enabled max_links =
     (if \<not> is_enabled then None
      else let urls = extract_urls find_urls txt max_links
           in if urls = [] then None
              else Some ([newline, newline] @ ''[Link Context - URLs detected in message]'' @ [newline]
                @ concat (map (\<lambda>u. ''- '' @ u @ [newline]) urls)
                @ ''Use web_fetch to retrieve content from these URLs if relevant to the user's request.'' @ [newline]))"

section \<open>Ranges\<close>

lemma mask_agrees_iff:
  fixes a b :: "'a::len word"
  assumes "k \<le> LENGTH('a)"
  shows "and a (push_bit k (- 1)) = and b (push_bit k (- 1)) \<longleftrightarrow> unat a div 2 ^ k = unat b div 2 ^ k"
proof -
  have "and a (push_bit k (- 1)) = and b (push_bit k (- 1)) \<longleftrightarrow> drop_bit k a = drop_bit k b"
  proof
    assume eq: "and a (push_bit k (- 1)) = and b (push_bit k (- 1))"
    show "drop_bit k a = drop_bit k b"
    proof (rule bit_eqI)
      fix n assume n: "possible_bit TYPE('a word) n"
      show "bit (drop_bit k a) n \<longleftrightarrow> bit (drop_bit k b) n"
      proof (cases "n + k < LENGTH('a)")
        case True
        have "bit (and a (push_bit k (- 1))) (n + k) \<longleftrightarrow> bit (and b (push_bit k (- 1))) (n + k)" using eq by simp
        then show ?thesis using True by (simp add: bit_simps add.commute)
      next
        case False
        then show ?thesis by (auto simp: bit_drop_bit_eq add.commute dest: bit_imp_le_length)
      qed
    qed
  next
    assume eq: "drop_bit k a = drop_bit k b"
    show "and a (push_bit k (- 1)) = and b (push_bit k (- 1))"
    proof (rule bit_eqI)
      fix n assume "possible_bit TYPE('a word) n"
      show "bit (and a (push_bit k (- 1))) n \<longleftrightarrow> bit (and b (push_bit k (- 1))) n"
      proof (cases "k \<le> n")
        case True
        have "bit (drop_bit k a) (n - k) \<longleftrightarrow> bit (drop_bit k b) (n - k)" using eq by simp
        then show ?thesis using True by (simp add: bit_simps)
      next
        case False
        then show ?thesis by (simp add: bit_simps)
      qed
    qed
  qed
  also have "\<dots> \<longleftrightarrow> unat (drop_bit k a) = unat (drop_bit k b)" by (simp add: word_unat_eq_iff)
  also have "\<dots> \<longleftrightarrow> unat a div 2 ^ k = unat b div 2 ^ k"
    by (simp only: unat_drop_bit_eq) (simp add: drop_bit_eq_div)
  finally show ?thesis .
qed

text \<open>
  C31: the test of a range is the textbook one: an address is in \<open>base/p\<close> exactly if it agrees with
  the base on the leading \<open>p\<close> bits, for both families and every length of prefix; addresses of
  different families never match.
\<close>

theorem cidr_compares_leading_bits:
  "ip_in_cidr ip base p =
     (case (ip, base) of
        (V4 a, V4 b) \<Rightarrow> unat p \<le> 32 \<and> unat a div 2 ^ (32 - unat p) = unat b div 2 ^ (32 - unat p)
      | (V6 a, V6 b) \<Rightarrow> unat p \<le> 128 \<and> unat a div 2 ^ (128 - unat p) = unat b div 2 ^ (128 - unat p)
      | _ \<Rightarrow> False)"
proof -
  have zero: "unat (a :: u32) div 4294967296 = 0"
    "unat (b :: 128 word) div 340282366920938463463374607431768211456 = 0" for a b
    using unat_lt_2p [of a] unat_lt_2p [of b] by simp_all
  have small: "unat (32 :: u32) = 32" "unat (128 :: u32) = 128" by simp_all
  show ?thesis
    by (cases ip; cases base)
       (auto simp: zero Let_def mask_agrees_iff word_le_nat_alt word_less_nat_alt unat_eq_0 not_less small
         simp del: push_bit_minus_one_eq_not_mask)
qed

section \<open>What the check lets through\<close>



lemma str_find_no_char: "c \<notin> set s \<Longrightarrow> str_find s (c # p) = None"
  by (induction s) (auto simp: starts_with_def)
















section \<open>What it does not stop\<close>

text \<open>
  The host is cut out of the URL without regard for user information, a query or a fragment. The
  name that is checked is then none, and a name that is not known passes; the HTTP client connects
  to the metadata service all the same.
\<close>

theorem user_information_passes:
  assumes "lookup ''x@169.254.169.254'' = None" "lookup ''169.254.169.254?a'' = None"
  shows "check_ssrf lookup ''http://x@169.254.169.254/latest'' [] = Inr ()"
    and "check_ssrf lookup ''http://169.254.169.254?a'' [] = Inr ()"
proof -
  have "checked_hostname ''http://x@169.254.169.254/latest'' = ''x@169.254.169.254''"
    "checked_hostname ''http://169.254.169.254?a'' = ''169.254.169.254?a''"
    "parse_v4 ''x@169.254.169.254'' = None" "parse_v4 ''169.254.169.254?a'' = None"
    by code_simp+
  then show "check_ssrf lookup ''http://x@169.254.169.254/latest'' [] = Inr ()"
    "check_ssrf lookup ''http://169.254.169.254?a'' [] = Inr ()"
    using assms
    by (simp_all add: check_ssrf_def socket_addresses_def starts_with_def BLOCKED_HOSTNAMES_def is_host_allowed_def)
qed

lemma five_zeros: "replicate 5 (0 :: nat) = [0, 0, 0, 0, 0]"
  by (simp add: eval_nat_numeral)

text \<open>The metadata address, written as a mapped address of the other family, is not recognised.\<close>

theorem mapped_address_passes:
  "check_ssrf lookup ''http://[::ffff:169.254.169.254]/'' [] = Inr ()"
proof -
  have host: "checked_hostname ''http://[::ffff:169.254.169.254]/'' = ''[::ffff:169.254.169.254]''"
    by code_simp
  have "parse_octet ''169'' = Some 169" "parse_octet ''254'' = Some 254"
    "split_on (CHR ''.'') ''169.254.169.254'' = [''169'', ''254'', ''169'', ''254'']"
    "str_find ''::ffff:169.254.169.254'' ''::'' = Some 0"
    "split_on (CHR '':'') ''ffff:169.254.169.254'' = [''ffff'', ''169.254.169.254'']"
    "parse_hextet ''169.254.169.254'' = None"
    by code_simp+
  moreover have "parse_hextet ''ffff'' = Some 0xFFFF"
    by (simp add: parse_hextet_def hex_digit_def is_digit_def)
  ultimately have v6: "parse_v6 ''::ffff:169.254.169.254'' = Some 0xFFFFA9FEA9FE"
    by (simp add: parse_v6_def groups_between_def parse_v4_def v6_of_groups_def five_zeros)
  then show ?thesis using host
    by (simp add: check_ssrf_def socket_addresses_def starts_with_def ends_with_def BLOCKED_HOSTNAMES_def
        is_host_allowed_def is_internal_def first_segment_def)
qed

text \<open>
  The documentation says that metadata addresses are refused whatever the allow list says. A host
  that the list names is not resolved, so it may be any name for the metadata service; and the names
  of the block list are compared with their case, the allow list without.
\<close>

theorem allowed_host_reaches_metadata:
  "check_ssrf (\<lambda>_. Some [V4 0xA9FEA9FE]) ''http://meta.corp.example/'' [''*.corp.example''] = Inr ()"
  "check_ssrf (\<lambda>_. Some [V4 0xA9FEA9FE]) ''http://Metadata.google.internal/'' [''*.google.internal''] = Inr ()"
proof -
  have "checked_hostname ''http://meta.corp.example/'' = ''meta.corp.example''"
    "is_host_allowed ''meta.corp.example'' [''*.corp.example'']"
    "checked_hostname ''http://Metadata.google.internal/'' = ''Metadata.google.internal''"
    "is_host_allowed ''Metadata.google.internal'' [''*.google.internal'']"
    by code_simp+
  then show "check_ssrf (\<lambda>_. Some [V4 0xA9FEA9FE]) ''http://meta.corp.example/'' [''*.corp.example''] = Inr ()"
    "check_ssrf (\<lambda>_. Some [V4 0xA9FEA9FE]) ''http://Metadata.google.internal/'' [''*.google.internal''] = Inr ()"
    by (simp_all add: check_ssrf_def starts_with_def BLOCKED_HOSTNAMES_def)
qed

text \<open>
  The grant is compared with what was cut out of the URL too: a grant for one host covers a URL
  that leads to another.
\<close>

theorem grant_covers_other_host:
  "capability_matches (NetConnect ''api.example.com:*'') (NetConnect (extract_host ''http://api.example.com:@10.0.0.1/''))"
  by code_simp

theorem zero_links_gives_one:
  "extract_urls (\<lambda>_. [''http://a.example/'']) txt 0 = [''http://a.example/'']"
proof -
  have "\<not> is_private_url ''http://a.example/''" by code_simp
  then show ?thesis by (simp add: extract_urls_def)
qed

theorem link_check_misses_loopback: "\<not> is_private_url ''http://127.0.0.2/''" "\<not> is_private_url ''http://u@localhost/''"
  by code_simp+

end
