(* ===== verification/Heartbeat.thy ===== *)
theory Heartbeat
  imports Registry Background Supervisor
begin

text \<open>
  The heartbeat monitor: \<open>openfang-kernel/src/heartbeat.rs\<close> and the loop that
  \<open>start_heartbeat_monitor\<close> (\<open>kernel.rs\<close>) spawns. A tick reads the agents once and then handles
  them one after the other. Its surroundings are the agents with a running turn, the time, the
  minute of the day and the clock of the recovery tracker, which counts seconds.
\<close>

section \<open>Configuration and tracker\<close>

record heartbeat_status =
  hs_agent_id :: uuid
  hs_name :: string
  hs_inactive_secs :: int
  hs_unresponsive :: bool
  hs_state :: agent_state

record heartbeat_config =
  check_interval_secs :: u64
  default_timeout_secs :: u64
  max_recovery_attempts :: u32
  recovery_cooldown_secs :: u64

definition UNRESPONSIVE_MULTIPLIER :: u64 where "UNRESPONSIVE_MULTIPLIER = 2"
definition IDLE_GRACE_SECS :: int where "IDLE_GRACE_SECS = 10"

definition default_heartbeat_config :: heartbeat_config where
  "default_heartbeat_config = \<lparr>check_interval_secs = 30, default_timeout_secs = 180, max_recovery_attempts = 3,
     recovery_cooldown_secs = 60\<rparr>"

text \<open>Failures in a row and the second of the last attempt, for each agent.\<close>

type_synonym recovery_tracker = "(uuid, u32 \<times> u64) dashmap"

definition new_recovery_tracker :: recovery_tracker where "new_recovery_tracker = []"

definition record_attempt :: "u64 \<Rightarrow> uuid \<Rightarrow> recovery_tracker \<Rightarrow> u32 \<times> recovery_tracker" where
  "record_attempt now i t =
     (let n = fst (dm_entry t i (0, 0)) + 1 in (n, dm_insert i (n, now) t))"

definition can_attempt :: "u64 \<Rightarrow> uuid \<Rightarrow> u64 \<Rightarrow> recovery_tracker \<Rightarrow> bool" where
  "can_attempt now i cooldown_secs t =
     (case dm_get t i of Some (_, last_attempt) \<Rightarrow> saturating_sub now last_attempt \<ge> cooldown_secs | None \<Rightarrow> True)"

definition failure_count :: "uuid \<Rightarrow> recovery_tracker \<Rightarrow> u32" where
  "failure_count i t = (case dm_get t i of Some (n, _) \<Rightarrow> n | None \<Rightarrow> 0)"

definition reset_tracker :: "uuid \<Rightarrow> recovery_tracker \<Rightarrow> recovery_tracker" where
  "reset_tracker i t = dm_remove i t"

section \<open>The check\<close>

definition should_exempt_idle_reactive_agent :: "agent_entry \<Rightarrow> bool \<Rightarrow> bool" where
  "should_exempt_idle_reactive_agent e is_running_task = (man_schedule (manifest e) = Reactive \<and> \<not> is_running_task)"

text \<open>\<open>(a - b).num_seconds()\<close>: whole seconds, towards zero.\<close>

definition seconds_between :: "instant \<Rightarrow> instant \<Rightarrow> int" where
  "seconds_between a b = (if b \<le> a then int (as_secs (a - b)) else - int (as_secs (b - a)))"

text \<open>The cast of the timeout to \<open>i64\<close> reads the word as signed.\<close>

definition timeout_of :: "heartbeat_config \<Rightarrow> agent_entry \<Rightarrow> int" where
  "timeout_of cfg e =
     sint (case man_autonomous (manifest e) of
         Some a \<Rightarrow> heartbeat_interval_secs a * UNRESPONSIVE_MULTIPLIER
       | None \<Rightarrow> default_timeout_secs cfg)"

definition check_agent :: "heartbeat_config \<Rightarrow> instant \<Rightarrow> agent_entry \<Rightarrow> heartbeat_status option" where
  "check_agent cfg now e =
     (if agent_state e \<noteq> Agents.Running \<and> agent_state e \<noteq> Agents.Crashed then None
      else let inactive_secs = seconds_between now (last_active e);
               never_active = (seconds_between (last_active e) (created_at e) \<le> IDLE_GRACE_SECS)
           in if never_active \<and> agent_state e = Agents.Running then None
              else Some \<lparr>hs_agent_id = entry_id e, hs_name = entry_name e, hs_inactive_secs = inactive_secs,
                hs_unresponsive = (agent_state e = Agents.Crashed \<or> inactive_secs > timeout_of cfg e),
                hs_state = agent_state e\<rparr>)"

definition check_agents :: "agent_registry \<Rightarrow> heartbeat_config \<Rightarrow> instant \<Rightarrow> heartbeat_status list" where
  "check_agents r cfg now = List.map_filter (check_agent cfg now) (list_agents r)"

section \<open>Quiet hours\<close>

definition parse_time :: "string \<Rightarrow> nat option" where
  "parse_time s =
     (case split_on (CHR '':'') (trim s) of
        [h, m] \<Rightarrow>
          Option.bind (parse_u32 h) (\<lambda>hh. Option.bind (parse_u32 m) (\<lambda>mm.
            if hh > 23 \<or> mm > 59 then None else Some (unat hh * 60 + unat mm)))
      | _ \<Rightarrow> None)"

definition is_quiet_hours :: "nat \<Rightarrow> string \<Rightarrow> bool" where
  "is_quiet_hours current_minutes hours =
     (case split_on (CHR ''-'') hours of
        [a, b] \<Rightarrow>
          (case (parse_time a, parse_time b) of
             (Some start, Some finish) \<Rightarrow>
               if start \<le> finish then start \<le> current_minutes \<and> current_minutes < finish
               else start \<le> current_minutes \<or> current_minutes < finish
           | _ \<Rightarrow> False)
      | _ \<Rightarrow> False)"

section \<open>The summary\<close>

record heartbeat_summary =
  hsum_total_checked :: usize
  hsum_responsive :: usize
  hsum_unresponsive :: usize
  hsum_unresponsive_agents :: "heartbeat_status list"

definition summarize :: "heartbeat_status list \<Rightarrow> heartbeat_summary" where
  "summarize statuses =
     (let bad = filter hs_unresponsive statuses
      in \<lparr>hsum_total_checked = length statuses, hsum_responsive = length statuses - length bad,
          hsum_unresponsive = length bad, hsum_unresponsive_agents = bad\<rparr>)"

section \<open>The monitor\<close>

record monitor =
  hm_registry :: agent_registry
  hm_bus :: event_bus
  hm_tracker :: recovery_tracker

text \<open>
  What a tick finds: the time, the second of the system clock, the minute of the day, the agents
  with a running turn, and the ids of the events it publishes, at most one for each agent.
\<close>

record tick =
  tk_now :: instant
  tk_secs :: u64
  tk_minutes :: nat
  tk_running :: "uuid \<Rightarrow> bool"
  tk_event_id :: "uuid \<Rightarrow> uuid"

definition mark :: "tick \<Rightarrow> uuid \<Rightarrow> agent_state \<Rightarrow> monitor \<Rightarrow> monitor" where
  "mark t i s m = m\<lparr>hm_registry := snd (update_entry (set_state s) (tk_now t) (hm_registry m) i)\<rparr>"

definition report :: "tick \<Rightarrow> uuid \<Rightarrow> u64 \<Rightarrow> monitor \<Rightarrow> monitor" where
  "report t i secs m =
     m\<lparr>hm_bus := publish (hm_bus m) (new_event (tk_event_id t i) (tk_now t) i ToSystem (SystemEvent (HealthCheckFailed i secs)))\<rparr>"

definition track :: "(recovery_tracker \<Rightarrow> recovery_tracker) \<Rightarrow> monitor \<Rightarrow> monitor" where
  "track f m = m\<lparr>hm_tracker := f (hm_tracker m)\<rparr>"

definition in_quiet_hours :: "tick \<Rightarrow> agent_entry \<Rightarrow> bool" where
  "in_quiet_hours t e =
     (case man_autonomous (manifest e) of
        Some a \<Rightarrow> (case quiet_hours a of Some qh \<Rightarrow> is_quiet_hours (tk_minutes t) qh | None \<Rightarrow> False)
      | None \<Rightarrow> False)"

definition recover :: "heartbeat_config \<Rightarrow> tick \<Rightarrow> heartbeat_status \<Rightarrow> agent_entry \<Rightarrow> monitor \<Rightarrow> monitor" where
  "recover cfg t st e m =
     (let i = hs_agent_id st
      in if failure_count i (hm_tracker m) \<ge> max_recovery_attempts cfg
         then (if agent_state e = Agents.Crashed
               then report t i (word_of_int (hs_inactive_secs st)) (mark t i Agents.Terminated m) else m)
         else if \<not> can_attempt (tk_secs t) i (recovery_cooldown_secs cfg) (hm_tracker m) then m
         else report t i 0 (mark t i Agents.Running (track (\<lambda>r. snd (record_attempt (tk_secs t) i r)) m)))"

definition handle_status :: "heartbeat_config \<Rightarrow> tick \<Rightarrow> heartbeat_status \<Rightarrow> monitor \<Rightarrow> monitor" where
  "handle_status cfg t st m =
     (let i = hs_agent_id st
      in case get_agent (hm_registry m) i of
           None \<Rightarrow> m
         | Some e \<Rightarrow>
             if should_exempt_idle_reactive_agent e (tk_running t i)
             then track (reset_tracker i) (if agent_state e = Agents.Crashed then mark t i Agents.Running m else m)
             else if in_quiet_hours t e then m
             else if hs_state st = Agents.Crashed then recover cfg t st e m
             else
               let m1 = (if hs_state st = Agents.Running \<and> \<not> hs_unresponsive st \<and> failure_count i (hm_tracker m) > 0
                         then track (reset_tracker i) m else m)
               in if hs_unresponsive st \<and> hs_state st = Agents.Running
                  then report t i (word_of_int (hs_inactive_secs st)) (mark t i Agents.Crashed m1) else m1)"

text \<open>One round of the loop; none after the shutdown.\<close>

definition monitor_tick :: "heartbeat_config \<Rightarrow> supervisor \<Rightarrow> tick \<Rightarrow> monitor \<Rightarrow> monitor" where
  "monitor_tick cfg sv t m =
     (if is_shutting_down sv then m
      else fold (handle_status cfg t) (check_agents (hm_registry m) cfg (tk_now t)) m)"

section \<open>One agent in a tick\<close>

text \<open>What the monitor knows of an agent: its entry and its recoveries.\<close>

definition view :: "monitor \<Rightarrow> uuid \<Rightarrow> agent_entry option \<times> (u32 \<times> u64) option" where
  "view m i = (get_agent (hm_registry m) i, dm_get (hm_tracker m) i)"

lemma view_mark: "view (mark t i s m) j =
    (if j = i then (map_option (\<lambda>e. (set_state s e)\<lparr>last_active := tk_now t\<rparr>) (get_agent (hm_registry m) i), dm_get (hm_tracker m) i)
     else view m j)"
  by (auto simp: view_def mark_def update_entry_def get_agent_def split: option.splits)

lemma get_mark: "get_agent (hm_registry (mark t i s m)) j =
    (if j = i then map_option (\<lambda>e. (set_state s e)\<lparr>last_active := tk_now t\<rparr>) (get_agent (hm_registry m) i)
     else get_agent (hm_registry m) j)"
  by (auto simp: mark_def update_entry_def get_agent_def split: option.splits)

lemma view_report [simp]: "view (report t i n m) j = view m j"
  by (simp add: view_def report_def)

lemma view_reset: "view (track (reset_tracker i) m) j = (if j = i then (get_agent (hm_registry m) i, None) else view m j)"
  by (simp add: view_def track_def reset_tracker_def)

lemma view_attempt: "view (track (\<lambda>r. snd (record_attempt n i r)) m) j =
    (if j = i then (get_agent (hm_registry m) i, Some (failure_count i (hm_tracker m) + 1, n)) else view m j)"
  by (auto simp: view_def track_def record_attempt_def failure_count_def dm_entry_def Let_def split: option.splits)

lemma failure_of_view: "failure_count i (hm_tracker m) = (case snd (view m i) of Some (n, _) \<Rightarrow> n | None \<Rightarrow> 0)"
  by (simp add: failure_count_def view_def)

lemma can_of_view: "can_attempt n i c (hm_tracker m) =
    (case snd (view m i) of Some (_, a) \<Rightarrow> saturating_sub n a \<ge> c | None \<Rightarrow> True)"
  by (auto simp: can_attempt_def view_def split: option.splits)

lemma view_mark_own: "view m i = (Some e, r) \<Longrightarrow>
    view (mark t i s m) i = (Some ((set_state s e)\<lparr>last_active := tk_now t\<rparr>), r)"
  by (simp add: view_mark) (simp add: view_def)

lemma view_reset_own: "view m i = (e, r) \<Longrightarrow> view (track (reset_tracker i) m) i = (e, None)"
  by (simp add: view_reset) (simp add: view_def)

lemma view_attempt_own: "view m i = (e, r) \<Longrightarrow>
    view (track (\<lambda>r. snd (record_attempt n i r)) m) i = (e, Some (failure_count i (hm_tracker m) + 1, n))"
  by (simp add: view_attempt) (simp add: view_def)

lemmas view_simps = view_mark view_reset view_attempt
lemmas view_own = view_mark_own view_reset_own view_attempt_own

lemma registry_parts [simp]:
  "hm_registry (report t i n m) = hm_registry m" "hm_registry (track f m) = hm_registry m"
  "hm_tracker (report t i n m) = hm_tracker m" "hm_tracker (mark t i s m) = hm_tracker m"
  by (simp_all add: report_def track_def mark_def)

text \<open>
  The effect of a status on its own agent, as a function of what the monitor knows of it.
\<close>

definition local_step :: "heartbeat_config \<Rightarrow> tick \<Rightarrow> heartbeat_status \<Rightarrow> agent_entry \<Rightarrow> (u32 \<times> u64) option
    \<Rightarrow> agent_entry \<times> (u32 \<times> u64) option" where
  "local_step cfg t st e rec_state =
     (let stamped = (\<lambda>s. (set_state s e)\<lparr>last_active := tk_now t\<rparr>);
          failures = (case rec_state of Some (n, _) \<Rightarrow> n | None \<Rightarrow> 0);
          rested = (case rec_state of Some (_, a) \<Rightarrow> saturating_sub (tk_secs t) a \<ge> recovery_cooldown_secs cfg | None \<Rightarrow> True)
      in if should_exempt_idle_reactive_agent e (tk_running t (hs_agent_id st))
         then (if agent_state e = Agents.Crashed then stamped Agents.Running else e, None)
         else if in_quiet_hours t e then (e, rec_state)
         else if hs_state st = Agents.Crashed
         then (if failures \<ge> max_recovery_attempts cfg
               then (if agent_state e = Agents.Crashed then stamped Agents.Terminated else e, rec_state)
               else if \<not> rested then (e, rec_state)
               else (stamped Agents.Running, Some (failures + 1, tk_secs t)))
         else if hs_unresponsive st \<and> hs_state st = Agents.Running then (stamped Agents.Crashed, rec_state)
         else if hs_state st = Agents.Running \<and> failures > 0 then (e, None) else (e, rec_state))"

lemma handle_status_view:
  assumes "view m (hs_agent_id st) = (Some e, r)"
  shows "view (handle_status cfg t st m) (hs_agent_id st) =
    (let (e', r') = local_step cfg t st e r in (Some e', r'))"
proof -
  let ?i = "hs_agent_id st"
  have e: "get_agent (hm_registry m) ?i = Some e" using assms by (simp add: view_def)
  have f: "failure_count ?i (hm_tracker m) = (case r of Some (n, _) \<Rightarrow> n | None \<Rightarrow> 0)"
    by (simp add: failure_of_view assms)
  have c: "can_attempt n ?i k (hm_tracker m) = (case r of Some (_, a) \<Rightarrow> saturating_sub n a \<ge> k | None \<Rightarrow> True)" for n k
    by (simp add: can_of_view assms)
  have own: "view (mark t ?i s m) ?i = (Some ((set_state s e)\<lparr>last_active := tk_now t\<rparr>), r)"
    "view (track (reset_tracker ?i) m) ?i = (Some e, None)"
    "view (track (reset_tracker ?i) (mark t ?i s m)) ?i = (Some ((set_state s e)\<lparr>last_active := tk_now t\<rparr>), None)"
    "view (mark t ?i s (track (reset_tracker ?i) m)) ?i = (Some ((set_state s e)\<lparr>last_active := tk_now t\<rparr>), None)"
    "view (mark t ?i s (track (\<lambda>r. snd (record_attempt n ?i r)) m)) ?i =
      (Some ((set_state s e)\<lparr>last_active := tk_now t\<rparr>), Some ((case r of Some (n, _) \<Rightarrow> n | None \<Rightarrow> 0) + 1, n))" for s n
    by (simp_all add: view_own [OF assms] view_own [OF view_own(1) [OF assms]] view_own [OF view_own(2) [OF assms]]
        view_own [OF view_own(3) [OF assms]] f)
  show ?thesis
    by (simp add: handle_status_def local_step_def recover_def Let_def e f c own assms)
qed

lemma handle_status_missing: "get_agent (hm_registry m) (hs_agent_id st) = None \<Longrightarrow> handle_status cfg t st m = m"
  by (simp add: handle_status_def Let_def)

lemma handle_status_other: "j \<noteq> hs_agent_id st \<Longrightarrow> view (handle_status cfg t st m) j = view m j"
  by (simp add: handle_status_def recover_def Let_def view_simps split: option.split)

lemma fold_other: "j \<notin> hs_agent_id ` set sts \<Longrightarrow> view (fold (handle_status cfg t) sts m) j = view m j"
  by (induction sts arbitrary: m) (auto simp: handle_status_other)

lemma fold_own:
  assumes "distinct (map hs_agent_id sts)" "st \<in> set sts" "view m (hs_agent_id st) = (Some e, r)"
  shows "view (fold (handle_status cfg t) sts m) (hs_agent_id st) = (let (e', r') = local_step cfg t st e r in (Some e', r'))"
  using assms
proof (induction sts arbitrary: m)
  case (Cons x xs)
  show ?case
  proof (cases "x = st")
    case True
    then show ?thesis using Cons.prems fold_other [of "hs_agent_id st" xs cfg t "handle_status cfg t st m"]
      handle_status_view [OF Cons.prems(3)] by simp
  next
    case False
    then have st: "st \<in> set xs" using Cons.prems(2) by simp
    then have "hs_agent_id st \<noteq> hs_agent_id x" using Cons.prems(1) by (metis distinct.simps(2) image_eqI list.simps(9) set_map)
    then show ?thesis using Cons st handle_status_other [of "hs_agent_id st" x cfg t m] by simp
  qed
qed simp

lemma check_agent_id: "check_agent cfg now e = Some st \<Longrightarrow> hs_agent_id st = entry_id e \<and> hs_state st = agent_state e"
  by (auto simp: check_agent_def Let_def split: if_splits)

lemma map_filter_ids:
  assumes "distinct (map entry_id es)"
  shows "distinct (map hs_agent_id (List.map_filter (check_agent cfg now) es))"
proof -
  have "distinct (map entry_id es) \<Longrightarrow> distinct (map hs_agent_id (List.map_filter (check_agent cfg now) es))
      \<and> hs_agent_id ` set (List.map_filter (check_agent cfg now) es) \<subseteq> entry_id ` set es"
  proof (induction es)
    case (Cons x es)
    then show ?case
      by (cases "check_agent cfg now x") (auto 4 4 simp: List.map_filter_simps image_subset_iff dest: check_agent_id)
  qed (simp add: List.map_filter_simps)
  then show ?thesis using assms by blast
qed

text \<open>
  A tick acts on each agent by itself: by what the check found of it, or not at all.
\<close>

lemma tick_view:
  assumes ids: "ids_ok (hm_registry m)" and e: "view m i = (Some e, r)" and run: "\<not> is_shutting_down sv"
  shows "view (monitor_tick cfg sv t m) i =
    (case check_agent cfg (tk_now t) e of
       None \<Rightarrow> (Some e, r)
     | Some st \<Rightarrow> (let (e', r') = local_step cfg t st e r in (Some e', r')))"
proof -
  let ?es = "list_agents (hm_registry m)" and ?sts = "check_agents (hm_registry m) cfg (tk_now t)"
  have own: "entry_id x = k" if "(k, x) \<in> set (agents (hm_registry m))" for k x
    using ids that dm_in_get [of "agents (hm_registry m)" k x] by (auto simp: ids_ok_def)
  have "map entry_id ?es = map fst (agents (hm_registry m))"
    using own by (auto simp: list_agents_def dm_values_def)
  then have d: "distinct (map entry_id ?es)" using ids by (simp add: ids_ok_def dm_wf_def)
  note sts = map_filter_ids [OF d, of cfg "tk_now t", folded check_agents_def]
  have mem: "(i, e) \<in> set (agents (hm_registry m))" "entry_id e = i"
    using e dm_get_in [of "agents (hm_registry m)" i e] own [of i e] by (simp_all add: view_def get_agent_def)
  then have e_in: "e \<in> set ?es" by (auto simp: list_agents_def dm_values_def image_iff intro: bexI [of _ "(i, e)"])
  show ?thesis
  proof (cases "check_agent cfg (tk_now t) e")
    case None
    have "i \<notin> hs_agent_id ` set ?sts"
    proof
      assume "i \<in> hs_agent_id ` set ?sts"
      then obtain e2 st where "e2 \<in> set ?es" "check_agent cfg (tk_now t) e2 = Some st" "hs_agent_id st = i"
        by (auto simp: check_agents_def List.map_filter_def)
      then have "e2 = e" using d e_in mem(2) check_agent_id
        by (metis distinct_map inj_onD)
      then show False using None \<open>check_agent cfg (tk_now t) e2 = Some st\<close> by simp
    qed
    then show ?thesis using None run e fold_other [of i ?sts] by (simp add: monitor_tick_def)
  next
    case (Some st)
    then have "st \<in> set ?sts" using e_in by (auto simp: check_agents_def List.map_filter_def intro: rev_image_eqI)
    then show ?thesis using Some run fold_own [OF sts, of st m e r] e check_agent_id [OF Some] mem(2)
      by (simp add: monitor_tick_def)
  qed
qed

section \<open>Quiet hours are an arc of the day\<close>

lemma parse_time_bound: "parse_time s = Some n \<Longrightarrow> n < 1440"
proof -
  have "unat h * 60 + unat m < 1440" if "\<not> (h > 23 \<or> m > 59)" for h m :: u32
  proof -
    have "unat h \<le> 23" "unat m \<le> 59" using that by (simp_all add: not_less word_le_nat_alt)
    then show ?thesis by simp
  qed
  then show "parse_time s = Some n \<Longrightarrow> n < 1440"
    by (auto simp: parse_time_def Option.bind_eq_Some_conv split: list.splits if_splits)
qed

lemma arc_of_day:
  fixes a b c d :: nat
  assumes "a < d" "b < d" "c < d"
  shows "(if a \<le> b then a \<le> c \<and> c < b else a \<le> c \<or> c < b) \<longleftrightarrow> (c + d - a) mod d < (b + d - a) mod d"
proof -
  have arc: "(x + d - a) mod d = (if a \<le> x then x - a else x + d - a)" if "x < d" for x
  proof (cases "a \<le> x")
    case True
    then have "(x + d - a) mod d = ((x - a) + d) mod d" by simp
    also have "\<dots> = x - a" using that by (simp only: mod_add_self2) simp
    finally show ?thesis using True by simp
  next
    case False
    then show ?thesis using that by simp
  qed
  show ?thesis using assms by (auto simp: arc)
qed

text \<open>
  A minute is quiet if, going round the day from the start of the quiet hours, it comes before their
  finish; hours that finish where they start hold no minute.
\<close>

theorem quiet_hours_are_circular:
  assumes "CHR ''-'' \<notin> set a" "CHR ''-'' \<notin> set b" "parse_time a = Some from_minute" "parse_time b = Some to_minute"
    and "now_minute < 1440"
  shows "is_quiet_hours now_minute (a @ ''-'' @ b) \<longleftrightarrow>
    (now_minute + 1440 - from_minute) mod 1440 < (to_minute + 1440 - from_minute) mod 1440"
  using assms arc_of_day [of from_minute 1440 to_minute now_minute] parse_time_bound [of a] parse_time_bound [of b]
  by (simp add: is_quiet_hours_def split_on_append split_on_unused)

theorem quiet_hours_are_circular_witness:
  "is_quiet_hours 30 (''22:00'' @ ''-'' @ '' 06:30'') \<and> \<not> is_quiet_hours 720 (''22:00'' @ ''-'' @ '' 06:30'')"
proof -
  have n: "parse_nat ''22'' = Some 22" "parse_nat ''00'' = Some 0" "parse_nat ''06'' = Some 6" "parse_nat ''30'' = Some 30"
    by code_simp+
  have u: "parse_u32 ''22'' = Some 22" "parse_u32 ''00'' = Some 0" "parse_u32 ''06'' = Some 6" "parse_u32 ''30'' = Some 30"
    by (simp_all add: parse_u32_def n)
  have w: "split_on (CHR '':'') (trim ''22:00'') = [''22'', ''00'']" "split_on (CHR '':'') (trim '' 06:30'') = [''06'', ''30'']"
    by code_simp+
  have p: "parse_time ''22:00'' = Some 1320" "parse_time '' 06:30'' = Some 390" by (simp_all add: parse_time_def u w)
  show ?thesis
    using quiet_hours_are_circular [of "''22:00''" "'' 06:30''" 1320 390 30] quiet_hours_are_circular [of "''22:00''" "'' 06:30''" 1320 390 720]
    by (simp add: p)
qed

section \<open>What a tick does to an agent\<close>

lemma local_step_terminated:
  assumes "local_step cfg t st e r = (e', r')" "agent_state e' = Agents.Terminated" "agent_state e \<noteq> Agents.Terminated"
  shows "agent_state e = Agents.Crashed \<and> \<not> in_quiet_hours t e \<and> r' = r
    \<and> max_recovery_attempts cfg \<le> (case r of Some (n, _) \<Rightarrow> n | None \<Rightarrow> 0)"
  using assms by (auto simp: local_step_def Let_def set_state_def split: if_splits)

text \<open>
  Only an agent that is crashed, outside of its quiet hours, and has been recovered as many times
  as the configuration allows, is given up.
\<close>

theorem terminated_only_after_attempts:
  assumes "ids_ok (hm_registry m)" "get_agent (hm_registry m) i = Some e" "agent_state e \<noteq> Agents.Terminated"
    and "get_agent (hm_registry (monitor_tick cfg sv t m)) i = Some e'" "agent_state e' = Agents.Terminated"
  shows "agent_state e = Agents.Crashed" "\<not> in_quiet_hours t e" "max_recovery_attempts cfg \<le> failure_count i (hm_tracker m)"
proof -
  have run: "\<not> is_shutting_down sv" using assms by (auto simp: monitor_tick_def)
  have v: "view m i = (Some e, dm_get (hm_tracker m) i)" using assms(2) by (simp add: view_def)
  note tv = tick_view [OF assms(1) v run, of cfg t]
  obtain st where st: "check_agent cfg (tk_now t) e = Some st"
    using tv assms(3-5) by (cases "check_agent cfg (tk_now t) e") (auto simp: view_def)
  then obtain r' where "local_step cfg t st e (dm_get (hm_tracker m) i) = (e', r')"
    using tv assms(4) by (auto simp: view_def Let_def split: prod.splits)
  note local_step_terminated [OF this assms(5,3)]
  then show "agent_state e = Agents.Crashed" "\<not> in_quiet_hours t e" "max_recovery_attempts cfg \<le> failure_count i (hm_tracker m)"
    by (simp_all add: failure_of_view v)
qed

text \<open>An idle reactive agent stays as it is, or comes back from a crash, and its count is cleared.\<close>

theorem idle_reactive_agent_kept:
  assumes "ids_ok (hm_registry m)" "get_agent (hm_registry m) i = Some e" "man_schedule (manifest e) = Reactive" "\<not> tk_running t i"
    and "\<not> is_shutting_down sv" "agent_state e = Agents.Crashed"
  shows "view (monitor_tick cfg sv t m) i = (Some ((set_state Agents.Running e)\<lparr>last_active := tk_now t\<rparr>), None)"
proof -
  have v: "view m i = (Some e, dm_get (hm_tracker m) i)" using assms(2) by (simp add: view_def)
  have id: "entry_id e = i" using assms(1,2) by (auto simp: ids_ok_def get_agent_def)
  obtain st where st: "check_agent cfg (tk_now t) e = Some st" using assms(6) by (simp add: check_agent_def Let_def)
  show ?thesis using tick_view [OF assms(1) v assms(5), of cfg t] st check_agent_id [OF st] id assms(3,4,6)
    by (simp add: local_step_def should_exempt_idle_reactive_agent_def)
qed

section \<open>A hung agent is recovered without end\<close>

lemma ids_ok_mark: "ids_ok (hm_registry m) \<Longrightarrow> ids_ok (hm_registry (mark t i s m))"
  by (auto simp: mark_def update_entry_def ids_ok_def set_state_def split: option.split if_splits)

lemma ids_ok_handle: "ids_ok (hm_registry m) \<Longrightarrow> ids_ok (hm_registry (handle_status cfg t st m))"
  by (simp add: handle_status_def recover_def Let_def ids_ok_mark split: option.split)

lemma ids_ok_tick:
  assumes "ids_ok (hm_registry m)"
  shows "ids_ok (hm_registry (monitor_tick cfg sv t m))"
proof -
  have "ids_ok (hm_registry m') \<Longrightarrow> ids_ok (hm_registry (fold (handle_status cfg t) sts m'))" for sts m'
    by (induction sts arbitrary: m') (simp_all add: ids_ok_handle)
  then show ?thesis using assms by (simp add: monitor_tick_def)
qed

text \<open>Ticks of which none comes later than the timeout after the one before.\<close>

fun ticks_within :: "int \<Rightarrow> instant \<Rightarrow> tick list \<Rightarrow> bool" where
  "ticks_within d p [] = True"
| "ticks_within d p (t # ts) = (p \<le> tk_now t \<and> seconds_between (tk_now t) p \<le> d \<and> ticks_within d (tk_now t) ts)"

text \<open>
  What is true of such an agent after a tick at \<open>p\<close>: a recovery that was counted has just stamped
  the agent, or the check does not look at it.
\<close>

definition recovering :: "instant \<Rightarrow> agent_entry \<Rightarrow> (u32 \<times> u64) option \<Rightarrow> bool" where
  "recovering p e r \<longleftrightarrow>
     (let failures = (case r of Some (n, _) \<Rightarrow> n | None \<Rightarrow> 0)
      in man_autonomous (manifest e) = None
       \<and> (agent_state e = Agents.Crashed \<and> failures = 0
          \<or> agent_state e = Agents.Running
            \<and> (failures = 0 \<or> last_active e = p \<or> seconds_between (last_active e) (created_at e) \<le> IDLE_GRACE_SECS)))"

lemma recovering_none:
  assumes "recovering p e r" "check_agent cfg now e = None"
  shows "recovering q e r"
  using assms by (auto simp: recovering_def check_agent_def Let_def split: if_splits)

lemma recovering_step:
  assumes "recovering p e r" "check_agent cfg (tk_now t) e = Some st" "local_step cfg t st e r = (e', r')"
    and "seconds_between (tk_now t) p \<le> sint (default_timeout_secs cfg)" "0 < max_recovery_attempts cfg"
  shows "recovering (tk_now t) e' r'"
proof -
  have aut: "man_autonomous (manifest e) = None" using assms(1) by (simp add: recovering_def Let_def)
  have st: "hs_agent_id st = entry_id e" "hs_state st = agent_state e"
    "hs_unresponsive st = (agent_state e = Agents.Crashed \<or> sint (default_timeout_secs cfg) < seconds_between (tk_now t) (last_active e))"
    "agent_state e = Agents.Crashed \<or> agent_state e = Agents.Running \<and> \<not> seconds_between (last_active e) (created_at e) \<le> IDLE_GRACE_SECS"
    using assms(2) aut by (auto simp: check_agent_def timeout_of_def Let_def split: if_splits)
  have q: "\<not> in_quiet_hours t e" using aut by (simp add: in_quiet_hours_def)
  have n: "\<not> max_recovery_attempts cfg \<le> 0" using assms(5) by (simp add: not_le)
  consider (crashed) "agent_state e = Agents.Crashed" "(case r of Some (n, _) \<Rightarrow> n | None \<Rightarrow> 0) = 0"
    | (fresh) "agent_state e = Agents.Running" "(case r of Some (n, _) \<Rightarrow> n | None \<Rightarrow> 0) = 0"
    | (stamped) "agent_state e = Agents.Running" "last_active e = p"
    using assms(1) st(4) by (auto simp: recovering_def Let_def)
  then show ?thesis
  proof cases
    case crashed
    then show ?thesis using assms(3) st aut q n
      by (auto simp: local_step_def recovering_def set_state_def Let_def split: if_splits)
  next
    case fresh
    then show ?thesis using assms(3) st aut q
      by (auto simp: local_step_def recovering_def set_state_def Let_def split: if_splits)
  next
    case stamped
    then show ?thesis using assms(3,4) st aut q
      by (auto simp: local_step_def recovering_def set_state_def Let_def word_gt_0 split: if_splits)
  qed
qed

lemma recovering_ticks:
  assumes "ids_ok (hm_registry m)" "view m i = (Some e, r)" "recovering p e r"
    and "ticks_within (sint (default_timeout_secs cfg)) p ts" "0 < max_recovery_attempts cfg"
  shows "\<exists>e' r' q. view (fold (monitor_tick cfg sv) ts m) i = (Some e', r') \<and> recovering q e' r'"
  using assms
proof (induction ts arbitrary: m e r p)
  case (Cons t ts)
  show ?case
  proof (cases "is_shutting_down sv")
    case True
    then have "fold (monitor_tick cfg sv) xs m = m" for xs by (induction xs) (simp_all add: monitor_tick_def)
    from this [of "t # ts"] show ?thesis using Cons.prems(2,3) by auto
  next
    case False
    obtain e' r' where v: "view (monitor_tick cfg sv t m) i = (Some e', r')" and k: "recovering (tk_now t) e' r'"
    proof (cases "check_agent cfg (tk_now t) e")
      case None
      then show ?thesis using that tick_view [OF Cons.prems(1,2) False, of cfg t] recovering_none [OF Cons.prems(3) None] by simp
    next
      case (Some st)
      obtain e2 r2 where l: "local_step cfg t st e r = (e2, r2)" by fastforce
      have "recovering (tk_now t) e2 r2" using recovering_step [OF Cons.prems(3) Some l] Cons.prems(4,5) by simp
      then show ?thesis using that tick_view [OF Cons.prems(1,2) False, of cfg t] Some l by simp
    qed
    show ?thesis using Cons.IH [OF ids_ok_tick [OF Cons.prems(1)] v k] Cons.prems(4,5) by simp
  qed
qed auto

text \<open>
  A running agent that never shows any activity, without quiet hours, is not given up, however long
  the monitor runs and however few recoveries are allowed: a recovery stamps the agent as active,
  so that the next tick takes it for recovered and clears the count.
\<close>

theorem hung_agent_never_given_up:
  assumes "ids_ok (hm_registry m)" "get_agent (hm_registry m) i = Some e" "agent_state e = Agents.Running"
    and "man_autonomous (manifest e) = None" "failure_count i (hm_tracker m) = 0" "0 < max_recovery_attempts cfg"
    and "ticks_within (sint (default_timeout_secs cfg)) p ts"
  obtains e' where "get_agent (hm_registry (fold (monitor_tick cfg sv) ts m)) i = Some e'"
    "agent_state e' = Agents.Running \<or> agent_state e' = Agents.Crashed"
proof -
  have v: "view m i = (Some e, dm_get (hm_tracker m) i)" using assms(2) by (simp add: view_def)
  have "recovering p e (dm_get (hm_tracker m) i)" using assms(3-5) by (simp add: recovering_def failure_of_view v)
  from recovering_ticks [OF assms(1) v this assms(7,6), of sv] show ?thesis
    using that by (auto simp: view_def recovering_def Let_def)
qed

end
