(* ===== verification/ConfigReload.thy ===== *)
theory ConfigReload
  imports Kernel Approval Workspace
begin

text \<open>
  The hot reload of the configuration: \<open>openfang-kernel/src/config_reload.rs\<close>, and
  \<open>reload_config\<close>, \<open>apply_hot_actions\<close> and the start of \<open>kernel.rs\<close> that it is compared with.
  A section of the configuration that the reload only compares is the JSON that serde makes of it;
  the entries of a hash map come in the order of its iteration. Printing JSON and the \<open>Debug\<close>
  form of a path are parameters (\<open>reload_lib\<close>).
\<close>

section \<open>The configuration file\<close>

datatype config_section =
    SecMemory | SecChannels | SecWeb | SecBrowser | SecVault | SecWebhookTriggers | SecExtensions
  | SecMcpServers | SecA2a

record network_config =
  nc_listen_addresses :: "string list"
  nc_bootstrap_peers :: "string list"
  nc_mdns_enabled :: bool
  nc_max_peers :: u32
  nc_shared_secret :: string

record file_default_model = default_model_config +
  dm_subprocess_timeout_secs :: "u64 option"

record fallback_provider_config =
  fp_provider :: string
  fp_model :: string
  fp_api_key_env :: string
  fp_base_url :: "string option"
  fp_subprocess_timeout_secs :: "u64 option"

datatype kernel_mode = ModeStable | ModeDefault | ModeDev
datatype usage_footer_mode = FooterOff | FooterTokens | FooterCost | FooterFull
datatype reload_mode = ReloadOff | ReloadRestart | ReloadHot | ReloadHybrid

text \<open>\<open>cf_unseen\<close> stands for the sections that the reload never looks at, from users to skills.\<close>

record config_file =
  cf_home_dir :: string
  cf_data_dir :: string
  cf_log_level :: string
  cf_api_listen :: string
  cf_network_enabled :: bool
  cf_default_model :: file_default_model
  cf_network :: network_config
  cf_api_key :: string
  cf_mode :: kernel_mode
  cf_language :: string
  cf_usage_footer :: usage_footer_mode
  cf_fallback_providers :: "fallback_provider_config list"
  cf_reload_mode :: reload_mode
  cf_approval :: approval_policy
  cf_max_cron_jobs :: nat
  cf_provider_urls :: "(string \<times> string) list"
  cf_provider_api_keys :: "(string \<times> string) list"
  cf_sections :: "config_section \<Rightarrow> json"
  cf_unseen :: json

record reload_lib =
  rl_to_string :: "json \<Rightarrow> string option"
  rl_debug :: "string \<Rightarrow> string"

section \<open>What serde makes of the sections\<close>

definition json_strings :: "string list \<Rightarrow> json" where
  "json_strings xs = JArray (map JString xs)"

definition json_option :: "('a \<Rightarrow> json) \<Rightarrow> 'a option \<Rightarrow> json" where
  "json_option f x = (case x of None \<Rightarrow> JNull | Some a \<Rightarrow> f a)"

definition json_word :: "'a::len word \<Rightarrow> json" where
  "json_word n = JNumber (show_word n)"

definition json_map :: "(string \<times> string) list \<Rightarrow> json" where
  "json_map m = JObject (map (map_prod id JString) m)"

definition network_json :: "network_config \<Rightarrow> json" where
  "network_json n = JObject
     [(''listen_addresses'', json_strings (nc_listen_addresses n)), (''bootstrap_peers'', json_strings (nc_bootstrap_peers n)),
      (''mdns_enabled'', JBool (nc_mdns_enabled n)), (''max_peers'', json_word (nc_max_peers n)),
      (''shared_secret'', JString (nc_shared_secret n))]"

definition default_model_json :: "file_default_model \<Rightarrow> json" where
  "default_model_json d = JObject
     [(''provider'', JString (dm_provider d)), (''model'', JString (dm_model d)), (''api_key_env'', JString (dm_api_key_env d)),
      (''base_url'', json_option JString (dm_base_url d)),
      (''subprocess_timeout_secs'', json_option json_word (dm_subprocess_timeout_secs d))]"

definition fallback_json :: "fallback_provider_config \<Rightarrow> json" where
  "fallback_json f = JObject
     [(''provider'', JString (fp_provider f)), (''model'', JString (fp_model f)), (''api_key_env'', JString (fp_api_key_env f)),
      (''base_url'', json_option JString (fp_base_url f)),
      (''subprocess_timeout_secs'', json_option json_word (fp_subprocess_timeout_secs f))]"

definition approval_json :: "approval_policy \<Rightarrow> json" where
  "approval_json p = JObject
     [(''require_approval'', json_strings (require_approval p)), (''timeout_secs'', json_word (policy_timeout_secs p)),
      (''auto_approve_autonomous'', JBool (auto_approve_autonomous p)), (''auto_approve'', JBool (auto_approve p))]"

section \<open>The plan\<close>

datatype hot_action =
    ReloadChannels | ReloadSkills | UpdateUsageFooter | ReloadWebConfig | ReloadBrowserConfig | UpdateApprovalPolicy
  | UpdateCronConfig | UpdateWebhookConfig | ReloadExtensions | ReloadMcpServers | ReloadA2aConfig
  | ReloadFallbackProviders | ReloadProviderUrls | UpdateDefaultModel

record reload_plan =
  restart_required :: bool
  restart_reasons :: "string list"
  hot_actions :: "hot_action list"
  noop_changes :: "string list"
  applied_actions :: "hot_action list"
  deferred_actions :: "hot_action list"

definition has_changes :: "reload_plan \<Rightarrow> bool" where
  "has_changes p = (restart_required p \<or> hot_actions p \<noteq> [] \<or> noop_changes p \<noteq> [])"

definition is_hot_reloadable :: "reload_plan \<Rightarrow> bool" where
  "is_hot_reloadable p = (\<not> restart_required p)"

definition field_changed :: "reload_lib \<Rightarrow> json \<Rightarrow> json \<Rightarrow> bool" where
  "field_changed lib old new = (rl_to_string lib old \<noteq> rl_to_string lib new)"

definition section_changed :: "reload_lib \<Rightarrow> config_section \<Rightarrow> config_file \<Rightarrow> config_file \<Rightarrow> bool" where
  "section_changed lib s old new = field_changed lib (cf_sections old s) (cf_sections new s)"

text \<open>What the checks of one kind push, in their order.\<close>

definition pushed :: "(bool \<times> 'a) list \<Rightarrow> 'a list" where
  "pushed checks = map snd (filter fst checks)"

fun show_mode :: "kernel_mode \<Rightarrow> string" where
  "show_mode ModeStable = ''Stable''"
| "show_mode ModeDefault = ''Default''"
| "show_mode ModeDev = ''Dev''"

definition changed_to :: "string \<Rightarrow> string \<Rightarrow> string \<Rightarrow> string" where
  "changed_to what a b = what @ '': '' @ a @ '' -> '' @ b"

definition restart_checks :: "reload_lib \<Rightarrow> config_file \<Rightarrow> config_file \<Rightarrow> (bool \<times> string) list" where
  "restart_checks lib old new =
     [(cf_api_listen old \<noteq> cf_api_listen new, changed_to ''api_listen changed'' (cf_api_listen old) (cf_api_listen new)),
      (cf_api_key old \<noteq> cf_api_key new, ''api_key changed''),
      (cf_network_enabled old \<noteq> cf_network_enabled new, ''network_enabled changed''),
      (field_changed lib (network_json (cf_network old)) (network_json (cf_network new)), ''network config changed''),
      (section_changed lib SecMemory old new, ''memory config changed''),
      (components (cf_home_dir old) \<noteq> components (cf_home_dir new),
       changed_to ''home_dir changed'' (rl_debug lib (cf_home_dir old)) (rl_debug lib (cf_home_dir new))),
      (components (cf_data_dir old) \<noteq> components (cf_data_dir new),
       changed_to ''data_dir changed'' (rl_debug lib (cf_data_dir old)) (rl_debug lib (cf_data_dir new))),
      (section_changed lib SecVault old new, ''vault config changed'')]"

definition hot_checks :: "reload_lib \<Rightarrow> config_file \<Rightarrow> config_file \<Rightarrow> (bool \<times> hot_action) list" where
  "hot_checks lib old new =
     [(field_changed lib (default_model_json (cf_default_model old)) (default_model_json (cf_default_model new)), UpdateDefaultModel),
      (section_changed lib SecChannels old new, ReloadChannels),
      (cf_usage_footer old \<noteq> cf_usage_footer new, UpdateUsageFooter),
      (section_changed lib SecWeb old new, ReloadWebConfig),
      (section_changed lib SecBrowser old new, ReloadBrowserConfig),
      (field_changed lib (approval_json (cf_approval old)) (approval_json (cf_approval new)), UpdateApprovalPolicy),
      (cf_max_cron_jobs old \<noteq> cf_max_cron_jobs new, UpdateCronConfig),
      (section_changed lib SecWebhookTriggers old new, UpdateWebhookConfig),
      (section_changed lib SecExtensions old new, ReloadExtensions),
      (section_changed lib SecMcpServers old new, ReloadMcpServers),
      (section_changed lib SecA2a old new, ReloadA2aConfig),
      (field_changed lib (JArray (map fallback_json (cf_fallback_providers old)))
         (JArray (map fallback_json (cf_fallback_providers new))), ReloadFallbackProviders),
      (field_changed lib (json_map (cf_provider_urls old)) (json_map (cf_provider_urls new)), ReloadProviderUrls)]"

definition noop_checks :: "reload_lib \<Rightarrow> config_file \<Rightarrow> config_file \<Rightarrow> (bool \<times> string) list" where
  "noop_checks lib old new =
     [(field_changed lib (json_map (cf_provider_api_keys old)) (json_map (cf_provider_api_keys new)),
       ''provider_api_keys changed (takes effect on next driver init)''),
      (cf_log_level old \<noteq> cf_log_level new, changed_to ''log_level'' (cf_log_level old) (cf_log_level new)),
      (cf_language old \<noteq> cf_language new, changed_to ''language'' (cf_language old) (cf_language new)),
      (cf_mode old \<noteq> cf_mode new, changed_to ''mode'' (show_mode (cf_mode old)) (show_mode (cf_mode new)))]"

definition build_reload_plan :: "reload_lib \<Rightarrow> config_file \<Rightarrow> config_file \<Rightarrow> reload_plan" where
  "build_reload_plan lib old new =
     \<lparr>restart_required = list_ex fst (restart_checks lib old new), restart_reasons = pushed (restart_checks lib old new),
      hot_actions = pushed (hot_checks lib old new), noop_changes = pushed (noop_checks lib old new),
      applied_actions = [], deferred_actions = []\<rparr>"

datatype reload_error =
    EmptyApiListen
  | TooManyCronJobs
  | BadApprovalPolicy validation_error
  | NoSharedSecret

definition reload_errors :: "config_file \<Rightarrow> reload_error list" where
  "reload_errors c =
     (if cf_api_listen c = [] then [EmptyApiListen] else [])
     @ (if cf_max_cron_jobs c > 10000 then [TooManyCronJobs] else [])
     @ (case validate_policy (cf_approval c) of Inl e \<Rightarrow> [BadApprovalPolicy e] | Inr _ \<Rightarrow> [])
     @ (if cf_network_enabled c \<and> nc_shared_secret (cf_network c) = [] then [NoSharedSecret] else [])"

definition validate_config_for_reload :: "config_file \<Rightarrow> reload_error list + unit" where
  "validate_config_for_reload c = (let errors = reload_errors c in if errors = [] then Inr () else Inl errors)"

definition should_apply_hot :: "reload_mode \<Rightarrow> reload_plan \<Rightarrow> bool" where
  "should_apply_hot m p =
     (case m of ReloadOff \<Rightarrow> False | ReloadRestart \<Rightarrow> False | ReloadHot \<Rightarrow> hot_actions p \<noteq> [] | ReloadHybrid \<Rightarrow> hot_actions p \<noteq> [])"

section \<open>Loading and starting\<close>

definition default_network_config :: network_config where
  "default_network_config = \<lparr>nc_listen_addresses = [''/ip4/0.0.0.0/tcp/0''], nc_bootstrap_peers = [],
     nc_mdns_enabled = True, nc_max_peers = 50, nc_shared_secret = []\<rparr>"

definition default_default_model :: file_default_model where
  "default_default_model = \<lparr>dm_provider = ''anthropic'', dm_model = ''claude-sonnet-4-20250514'',
     dm_api_key_env = ''ANTHROPIC_API_KEY'', dm_base_url = None, dm_subprocess_timeout_secs = None\<rparr>"

text \<open>\<open>KernelConfig::default()\<close>, for a home directory and the JSON of the sections' defaults.\<close>

definition default_config :: "string \<Rightarrow> (config_section \<Rightarrow> json) \<Rightarrow> json \<Rightarrow> config_file" where
  "default_config home sections unseen =
     \<lparr>cf_home_dir = home, cf_data_dir = home @ ''/data'', cf_log_level = ''info'', cf_api_listen = ''127.0.0.1:50051'',
      cf_network_enabled = False, cf_default_model = default_default_model, cf_network = default_network_config,
      cf_api_key = [], cf_mode = ModeDefault, cf_language = ''en'', cf_usage_footer = FooterFull,
      cf_fallback_providers = [], cf_reload_mode = ReloadHybrid, cf_approval = default_approval_policy,
      cf_max_cron_jobs = 500, cf_provider_urls = [], cf_provider_api_keys = [], cf_sections = sections,
      cf_unseen = unseen\<rparr>"

text \<open>What is found at the path: nothing, a file that cannot be read or parsed, or a configuration.\<close>

datatype config_source = NoFile | Broken | Parsed config_file

definition load_config :: "config_file \<Rightarrow> config_source \<Rightarrow> config_file" where
  "load_config defaults src = (case src of Parsed c \<Rightarrow> c | _ \<Rightarrow> defaults)"

text \<open>\<open>cmd_start\<close> with its flag \<open>--yolo\<close>.\<close>

definition start_config :: "bool \<Rightarrow> config_file \<Rightarrow> config_file" where
  "start_config yolo c =
     (if yolo then c\<lparr>cf_approval := apply_shorthands ((cf_approval c)\<lparr>auto_approve := True\<rparr>)\<rparr> else c)"

record boot_env =
  be_listen :: "string option"
  be_api_key :: "string option"
  be_clamp :: "(config_section \<Rightarrow> json) \<Rightarrow> config_section \<Rightarrow> json"
  be_auth :: auth_env

text \<open>The environment overrides what \<open>boot_with_config\<close> keeps; \<open>be_clamp\<close> is \<open>clamp_bounds\<close>.\<close>

definition boot_config :: "boot_env \<Rightarrow> config_file \<Rightarrow> config_file" where
  "boot_config env c =
     (let c1 = (case be_listen env of Some listen \<Rightarrow> c\<lparr>cf_api_listen := listen\<rparr> | None \<Rightarrow> c);
          c2 = (if trim (cf_api_key c1) = []
                then (case be_api_key env of
                        Some key \<Rightarrow> if trim key = [] then c1 else c1\<lparr>cf_api_key := trim key\<rparr> | None \<Rightarrow> c1)
                else c1)
      in c2\<lparr>cf_sections := be_clamp env (cf_sections c2)\<rparr>)"

record live_kernel =
  lk_config :: config_file
  lk_approval :: approval_manager
  lk_cron :: cron_scheduler
  lk_catalog :: model_catalog
  lk_default_model :: "file_default_model option"
  lk_fallbacks :: "fallback_provider_config list option"

text \<open>The parts of \<open>boot_with_config\<close> that a reload can reach; \<open>catalog\<close> has its keys detected.\<close>

definition boot_kernel :: "boot_env \<Rightarrow> model_catalog \<Rightarrow> config_file \<Rightarrow> live_kernel" where
  "boot_kernel env catalog c =
     (let cfg = boot_config env c; local_catalog = apply_local_env_overrides (be_auth env) catalog
      in \<lparr>lk_config = cfg, lk_approval = new_approval_manager (cf_approval cfg), lk_cron = new_cron (cf_max_cron_jobs cfg),
          lk_catalog = (if cf_provider_urls cfg = [] then local_catalog
                        else apply_url_overrides (be_auth env) local_catalog (cf_provider_urls cfg)),
          lk_default_model = None, lk_fallbacks = None\<rparr>)"

section \<open>Reloading\<close>

text \<open>One action: whether it counts as applied, and the kernel after it.\<close>

definition apply_hot_action :: "auth_env \<Rightarrow> config_file \<Rightarrow> hot_action \<Rightarrow> live_kernel \<Rightarrow> bool \<times> live_kernel" where
  "apply_hot_action env new act k =
     (case act of
        UpdateApprovalPolicy \<Rightarrow> (True, k\<lparr>lk_approval := update_policy (lk_approval k) (cf_approval new)\<rparr>)
      | UpdateCronConfig \<Rightarrow> (True, k\<lparr>lk_cron := set_max_total_jobs (lk_cron k) (cf_max_cron_jobs new)\<rparr>)
      | ReloadProviderUrls \<Rightarrow> (False, k\<lparr>lk_catalog := apply_url_overrides env (lk_catalog k) (cf_provider_urls new)\<rparr>)
      | UpdateDefaultModel \<Rightarrow> (True, k\<lparr>lk_default_model := Some (cf_default_model new)\<rparr>)
      | ReloadFallbackProviders \<Rightarrow> (True, k\<lparr>lk_fallbacks := Some (cf_fallback_providers new)\<rparr>)
      | _ \<Rightarrow> (False, k))"

text \<open>The actions one after the other, with those applied and those deferred.\<close>

fun apply_hot_actions ::
  "auth_env \<Rightarrow> config_file \<Rightarrow> hot_action list \<Rightarrow> live_kernel \<Rightarrow> (hot_action list \<times> hot_action list) \<times> live_kernel" where
  "apply_hot_actions env new [] k = (([], []), k)"
| "apply_hot_actions env new (act # acts) k =
     (let (done_now, k1) = apply_hot_action env new act k;
          ((applied, deferred), k2) = apply_hot_actions env new acts k1
      in ((if done_now then act # applied else applied, if done_now then deferred else act # deferred), k2))"

datatype reload_failure = ConfigNotFound | ValidationFailed "reload_error list"

definition reload_config ::
  "reload_lib \<Rightarrow> auth_env \<Rightarrow> config_file \<Rightarrow> config_source \<Rightarrow> live_kernel \<Rightarrow> (reload_failure + reload_plan) \<times> live_kernel" where
  "reload_config lib env defaults src k =
     (if src = NoFile then (Inl ConfigNotFound, k)
      else let new = load_config defaults src
           in case validate_config_for_reload new of
                Inl errors \<Rightarrow> (Inl (ValidationFailed errors), k)
              | Inr _ \<Rightarrow>
                  let plan = build_reload_plan lib (lk_config k) new
                  in if should_apply_hot (cf_reload_mode (lk_config k)) plan
                     then (let ((applied, deferred), k1) = apply_hot_actions env new (hot_actions plan) k
                           in (Inr (plan\<lparr>applied_actions := applied, deferred_actions := deferred\<rparr>), k1))
                     else if hot_actions plan \<noteq> [] then (Inr (plan\<lparr>deferred_actions := hot_actions plan\<rparr>), k)
                     else (Inr plan, k))"

text \<open>The status that the reload endpoint and the endpoint for a single setting report.\<close>

definition reload_status :: "reload_failure + reload_plan \<Rightarrow> string" where
  "reload_status r =
     (case r of
        Inl _ \<Rightarrow> ''error''
      | Inr plan \<Rightarrow>
          if restart_required plan \<or> deferred_actions plan \<noteq> [] then ''partial''
          else if applied_actions plan \<noteq> [] then ''applied'' else ''no_changes'')"

definition set_status :: "reload_failure + reload_plan \<Rightarrow> string" where
  "set_status r =
     (case r of
        Inl _ \<Rightarrow> ''saved_reload_failed''
      | Inr plan \<Rightarrow> if restart_required plan \<or> deferred_actions plan \<noteq> [] then ''applied_partial'' else ''applied'')"

section \<open>What is in force\<close>

definition effective_default_model :: "live_kernel \<Rightarrow> file_default_model" where
  "effective_default_model k = (case lk_default_model k of Some d \<Rightarrow> d | None \<Rightarrow> cf_default_model (lk_config k))"

definition effective_fallbacks :: "live_kernel \<Rightarrow> fallback_provider_config list" where
  "effective_fallbacks k = (case lk_fallbacks k of Some f \<Rightarrow> f | None \<Rightarrow> cf_fallback_providers (lk_config k))"

definition lookup_provider_url :: "live_kernel \<Rightarrow> string \<Rightarrow> string option" where
  "lookup_provider_url k provider =
     (case map_of (cf_provider_urls (lk_config k)) provider of
        Some url \<Rightarrow> Some url
      | None \<Rightarrow>
          (case get_provider (lk_catalog k) provider of
             Some p \<Rightarrow> if pi_base_url p \<noteq> [] then Some (pi_base_url p) else None
           | None \<Rightarrow> None))"

definition reload_step :: "reload_lib \<Rightarrow> auth_env \<Rightarrow> config_file \<Rightarrow> live_kernel \<Rightarrow> config_source \<Rightarrow> live_kernel" where
  "reload_step lib env defaults k src = snd (reload_config lib env defaults src k)"

section \<open>The effect of a reload\<close>

lemma after_Cons: "snd (apply_hot_actions env new (act # acts) k) =
    snd (apply_hot_actions env new acts (snd (apply_hot_action env new act k)))"
  by (simp add: Let_def split: prod.split)

lemma receipt_Cons: "fst (apply_hot_actions env new (act # acts) k) =
    (let (done_now, k1) = apply_hot_action env new act k; (applied, deferred) = fst (apply_hot_actions env new acts k1)
     in (if done_now then act # applied else applied, if done_now then deferred else act # deferred))"
  by (simp add: Let_def split: prod.split)

text \<open>A setting that one action writes has, after all, the new value if that action is among them.\<close>

lemma setting_after:
  assumes "\<And>act k. setting (snd (apply_hot_action env new act k)) = (if act = writer then v else setting k)"
  shows "setting (snd (apply_hot_actions env new acts k)) = (if writer \<in> set acts then v else setting k)"
  by (induction acts arbitrary: k) (auto simp: after_Cons assms simp del: apply_hot_actions.simps(2))

lemma config_frozen_action: "lk_config (snd (apply_hot_actions env new acts k)) = lk_config k"
proof (induction acts arbitrary: k)
  case (Cons act acts)
  then show ?case by (cases act) (simp_all add: after_Cons apply_hot_action_def del: apply_hot_actions.simps(2))
qed simp

lemma policy_after: "policy (lk_approval (snd (apply_hot_actions env new acts k))) =
    (if UpdateApprovalPolicy \<in> set acts then cf_approval new else policy (lk_approval k))"
  by (rule setting_after) (simp add: apply_hot_action_def update_policy_def split: hot_action.split)

lemma cron_after: "max_total_jobs (lk_cron (snd (apply_hot_actions env new acts k))) =
    (if UpdateCronConfig \<in> set acts then cf_max_cron_jobs new else max_total_jobs (lk_cron k))"
  by (rule setting_after) (simp add: apply_hot_action_def set_max_total_jobs_def split: hot_action.split)

lemma default_model_after: "lk_default_model (snd (apply_hot_actions env new acts k)) =
    (if UpdateDefaultModel \<in> set acts then Some (cf_default_model new) else lk_default_model k)"
  by (rule setting_after) (simp add: apply_hot_action_def split: hot_action.split)

lemma fallbacks_after: "lk_fallbacks (snd (apply_hot_actions env new acts k)) =
    (if ReloadFallbackProviders \<in> set acts then Some (cf_fallback_providers new) else lk_fallbacks k)"
  by (rule setting_after) (simp add: apply_hot_action_def split: hot_action.split)

definition applied_in_process :: "hot_action \<Rightarrow> bool" where
  "applied_in_process act = (act \<in> {UpdateApprovalPolicy, UpdateCronConfig, UpdateDefaultModel, ReloadFallbackProviders})"

lemma receipt_of_actions: "fst (apply_hot_actions env new acts k) =
    (filter applied_in_process acts, filter (\<lambda>act. \<not> applied_in_process act) acts)"
proof (induction acts arbitrary: k)
  case (Cons act acts)
  then show ?case
    by (cases act)
       (simp_all add: receipt_Cons apply_hot_action_def applied_in_process_def del: apply_hot_actions.simps(2))
qed simp

lemma hot_action_iff:
  "UpdateApprovalPolicy \<in> set (hot_actions (build_reload_plan lib old new)) \<longleftrightarrow>
    field_changed lib (approval_json (cf_approval old)) (approval_json (cf_approval new))"
  "UpdateCronConfig \<in> set (hot_actions (build_reload_plan lib old new)) \<longleftrightarrow> cf_max_cron_jobs old \<noteq> cf_max_cron_jobs new"
  "UpdateDefaultModel \<in> set (hot_actions (build_reload_plan lib old new)) \<longleftrightarrow>
    field_changed lib (default_model_json (cf_default_model old)) (default_model_json (cf_default_model new))"
  "ReloadFallbackProviders \<in> set (hot_actions (build_reload_plan lib old new)) \<longleftrightarrow>
    field_changed lib (JArray (map fallback_json (cf_fallback_providers old))) (JArray (map fallback_json (cf_fallback_providers new)))"
  "ReloadProviderUrls \<in> set (hot_actions (build_reload_plan lib old new)) \<longleftrightarrow>
    field_changed lib (json_map (cf_provider_urls old)) (json_map (cf_provider_urls new))"
  "ReloadSkills \<notin> set (hot_actions (build_reload_plan lib old new))"
  by (auto simp: build_reload_plan_def pushed_def hot_checks_def)

text \<open>The configuration that a reload goes by: what it reads, if that is valid.\<close>

definition accepted :: "config_file \<Rightarrow> config_source \<Rightarrow> config_file option" where
  "accepted defaults src =
     (if src = NoFile \<or> reload_errors (load_config defaults src) \<noteq> [] then None else Some (load_config defaults src))"

definition reloads_live :: "config_file \<Rightarrow> bool" where
  "reloads_live c = (cf_reload_mode c = ReloadHot \<or> cf_reload_mode c = ReloadHybrid)"

lemma should_apply_iff: "should_apply_hot (cf_reload_mode c) p \<longleftrightarrow> reloads_live c \<and> hot_actions p \<noteq> []"
  by (cases "cf_reload_mode c") (simp_all add: should_apply_hot_def reloads_live_def)

lemma reload_step_effect: "reload_step lib env defaults k src =
    (case accepted defaults src of
       None \<Rightarrow> k
     | Some new \<Rightarrow>
         if reloads_live (lk_config k)
         then snd (apply_hot_actions env new (hot_actions (build_reload_plan lib (lk_config k) new)) k) else k)"
  by (auto simp: reload_step_def reload_config_def accepted_def validate_config_for_reload_def should_apply_iff Let_def
      split: prod.splits)

lemma config_frozen: "lk_config (run (reload_step lib env defaults) k es) = lk_config k"
  by (induction es arbitrary: k) (auto simp: reload_step_effect config_frozen_action split: option.splits)

lemma lk_config_boot: "lk_config (boot_kernel env catalog c) = boot_config env c"
  by (simp add: boot_kernel_def Let_def)

text \<open>
  The configuration a setting comes from: the last valid one in which it differs from the start's,
  or the start's.
\<close>

definition in_force :: "config_file \<Rightarrow> config_file \<Rightarrow> (config_file \<Rightarrow> bool) \<Rightarrow> config_source list \<Rightarrow> config_file" where
  "in_force defaults start differs es =
     last (start # (if reloads_live start then filter differs (List.map_filter (accepted defaults) es) else []))"

lemma in_force_follows:
  assumes start: "setting k = get (lk_config k)"
    and step: "\<And>k src. setting (reload_step lib env defaults k src) =
      (case accepted defaults src of
         None \<Rightarrow> setting k
       | Some new \<Rightarrow> if reloads_live (lk_config k) \<and> differs (lk_config k) new then get new else setting k)"
  shows "setting (run (reload_step lib env defaults) k es) = get (in_force defaults (lk_config k) (differs (lk_config k)) es)"
proof (induction es rule: rev_induct)
  case Nil
  show ?case by (simp add: in_force_def start List.map_filter_simps)
next
  case (snoc src es)
  show ?case
    by (cases "accepted defaults src")
       (auto simp: run_append step snoc config_frozen in_force_def List.map_filter_def)
qed

text \<open>
  C37: four settings follow the reloads. If the kernel started in the mode hot or hybrid, then under
  every sequence of reloads the approval policy, the number of cron jobs, the default model and the
  chain of fallbacks in force are those of the last valid configuration in which they differ from
  the ones the kernel started with, or the latter; in another mode they are always the latter.
\<close>

theorem settings_in_force:
  "let start = boot_config env c; k = run (reload_step lib auth defaults) (boot_kernel env catalog c) es in
    policy (lk_approval k) = cf_approval (in_force defaults start
      (\<lambda>new. field_changed lib (approval_json (cf_approval start)) (approval_json (cf_approval new))) es)
    \<and> max_total_jobs (lk_cron k) = cf_max_cron_jobs (in_force defaults start
      (\<lambda>new. cf_max_cron_jobs start \<noteq> cf_max_cron_jobs new) es)
    \<and> effective_default_model k = cf_default_model (in_force defaults start
      (\<lambda>new. field_changed lib (default_model_json (cf_default_model start)) (default_model_json (cf_default_model new))) es)
    \<and> effective_fallbacks k = cf_fallback_providers (in_force defaults start
      (\<lambda>new. field_changed lib (JArray (map fallback_json (cf_fallback_providers start)))
        (JArray (map fallback_json (cf_fallback_providers new)))) es)"
proof -
  define start where "start = boot_config env c"
  let ?k = "boot_kernel env catalog c"
  define k where "k = run (reload_step lib auth defaults) ?k es"
  have start: "lk_config ?k = start" by (simp add: start_def lk_config_boot)
  note follows = in_force_follows [where k = ?k and lib = lib and env = auth and defaults = defaults and es = es, folded k_def, unfolded start]
  note effect = reload_step_effect config_frozen_action hot_action_iff
  have "policy (lk_approval k) = cf_approval (in_force defaults start
      (\<lambda>new. field_changed lib (approval_json (cf_approval start)) (approval_json (cf_approval new))) es)"
    by (rule follows [where setting = "\<lambda>k. policy (lk_approval k)" and get = cf_approval and
          differs = "\<lambda>old new. field_changed lib (approval_json (cf_approval old)) (approval_json (cf_approval new))"])
       (auto simp: boot_kernel_def start_def new_approval_manager_def Let_def effect policy_after split: option.splits)
  moreover have "max_total_jobs (lk_cron k) = cf_max_cron_jobs (in_force defaults start
      (\<lambda>new. cf_max_cron_jobs start \<noteq> cf_max_cron_jobs new) es)"
    by (rule follows [where setting = "\<lambda>k. max_total_jobs (lk_cron k)" and get = cf_max_cron_jobs and
          differs = "\<lambda>old new. cf_max_cron_jobs old \<noteq> cf_max_cron_jobs new"])
       (auto simp: boot_kernel_def start_def new_cron_def Let_def effect cron_after split: option.splits)
  moreover have "effective_default_model k = cf_default_model (in_force defaults start
      (\<lambda>new. field_changed lib (default_model_json (cf_default_model start)) (default_model_json (cf_default_model new))) es)"
    by (rule follows [where setting = effective_default_model and get = cf_default_model and
          differs = "\<lambda>old new. field_changed lib (default_model_json (cf_default_model old)) (default_model_json (cf_default_model new))"])
       (auto simp: boot_kernel_def start_def effective_default_model_def Let_def effect default_model_after split: option.splits)
  moreover have "effective_fallbacks k = cf_fallback_providers (in_force defaults start
      (\<lambda>new. field_changed lib (JArray (map fallback_json (cf_fallback_providers start)))
        (JArray (map fallback_json (cf_fallback_providers new)))) es)"
    by (rule follows [where setting = effective_fallbacks and get = cf_fallback_providers and
          differs = "\<lambda>old new. field_changed lib (JArray (map fallback_json (cf_fallback_providers old)))
            (JArray (map fallback_json (cf_fallback_providers new)))"])
       (auto simp: boot_kernel_def start_def effective_fallbacks_def Let_def effect fallbacks_after split: option.splits)
  ultimately show ?thesis by (simp add: start_def k_def Let_def)
qed

text \<open>
  The receipt of a reload is honest: what it calls applied and deferred are the actions of its plan
  with and without a way to apply them, in their order, or all are deferred where the mode forbids
  to apply any.
\<close>

theorem receipt_splits_plan:
  assumes "fst (reload_config lib env defaults src k) = Inr plan"
  shows "applied_actions plan = filter (\<lambda>act. reloads_live (lk_config k) \<and> applied_in_process act) (hot_actions plan)
    \<and> deferred_actions plan = filter (\<lambda>act. \<not> (reloads_live (lk_config k) \<and> applied_in_process act)) (hot_actions plan)"
proof -
  let ?p = "build_reload_plan lib (lk_config k) (load_config defaults src)"
  have plan: "applied_actions ?p = []" "deferred_actions ?p = []" by (simp_all add: build_reload_plan_def)
  note r = receipt_of_actions [of env "load_config defaults src" "hot_actions ?p" k]
  show ?thesis using assms r plan
    by (auto simp: reload_config_def Let_def should_apply_iff split: if_splits sum.splits prod.splits)
qed

section \<open>What a reload does not do\<close>

lemma unchanged_plan: "hot_actions (build_reload_plan lib c c) = []" "restart_required (build_reload_plan lib c c) = False"
  by (simp_all add: build_reload_plan_def hot_checks_def restart_checks_def pushed_def field_changed_def section_changed_def)

lemma reload_unchanged:
  assumes "reload_errors (lk_config k) = []"
  shows "reload_config lib env defaults (Parsed (lk_config k)) k = (Inr (build_reload_plan lib (lk_config k) (lk_config k)), k)"
  using assms by (simp add: reload_config_def load_config_def validate_config_for_reload_def should_apply_iff unchanged_plan Let_def)

text \<open>
  A reload compares the file with what the kernel started with, not with what is in force: putting
  a setting back is no change, so the policy that was loaded in between stays, and the reload says
  that nothing changed.
\<close>

theorem reverted_policy_stays:
  assumes "reloads_live (boot_config env c)" "reload_errors new = []" "reload_errors (boot_config env c) = []"
    and "field_changed lib (approval_json (cf_approval (boot_config env c))) (approval_json (cf_approval new))"
    and "k = reload_step lib auth defaults (boot_kernel env catalog c) (Parsed new)"
  shows "policy (lk_approval k) = cf_approval new"
    "reload_step lib auth defaults k (Parsed (boot_config env c)) = k"
    "reload_status (fst (reload_config lib auth defaults (Parsed (boot_config env c)) k)) = ''no_changes''"
proof -
  have k: "k = snd (apply_hot_actions auth new (hot_actions (build_reload_plan lib (boot_config env c) new)) (boot_kernel env catalog c))"
    using assms(1,2,5) by (simp add: reload_step_effect accepted_def load_config_def lk_config_boot)
  show "policy (lk_approval k) = cf_approval new" using assms(4) by (simp add: k policy_after hot_action_iff)
  have cfg: "lk_config k = boot_config env c" by (simp add: k config_frozen_action lk_config_boot)
  note r = reload_unchanged [of k lib auth defaults, unfolded cfg, OF assms(3)]
  show "reload_step lib auth defaults k (Parsed (boot_config env c)) = k" by (simp add: reload_step_def r)
  show "reload_status (fst (reload_config lib auth defaults (Parsed (boot_config env c)) k)) = ''no_changes''"
    by (simp add: r reload_status_def unchanged_plan) (simp add: build_reload_plan_def)
qed

lemma default_config_valid: "reload_errors (default_config home sections unseen) = []"
proof -
  have "name_chars ''shell_exec''" by code_simp
  then show ?thesis
    by (simp add: reload_errors_def default_config_def default_approval_policy_def validate_policy_def MIN_TIMEOUT_SECS_def
        MAX_TIMEOUT_SECS_def MAX_TOOL_NAME_LEN_def)
qed

text \<open>
  A file that cannot be parsed counts as a file full of defaults: the approvals that the operator
  asked for are reduced to those of the default policy while the kernel runs.
\<close>

theorem broken_file_resets_approvals:
  assumes "reloads_live (boot_config env c)"
    and "field_changed lib (approval_json (cf_approval (boot_config env c))) (approval_json default_approval_policy)"
  shows "requires_approval (lk_approval (reload_step lib auth (default_config home sections unseen) (boot_kernel env catalog c) Broken)) tool
    \<longleftrightarrow> tool = ''shell_exec''"
proof -
  let ?d = "default_config home sections unseen"
  have d: "cf_approval ?d = default_approval_policy" by (simp add: default_config_def)
  have "policy (lk_approval (reload_step lib auth ?d (boot_kernel env catalog c) Broken)) = default_approval_policy"
    using assms by (simp add: reload_step_effect accepted_def load_config_def default_config_valid lk_config_boot policy_after hot_action_iff d)
  then show ?thesis by (auto simp: requires_approval_def default_approval_policy_def)
qed

text \<open>
  The shorthand \<open>auto_approve\<close> is only resolved for the flag of the command line. In the file it
  changes nothing, though the agents' hint for a denied approval is to set it there.
\<close>

lemma boot_approval: "cf_approval (boot_config env c) = cf_approval c"
  by (auto simp: boot_config_def Let_def split: option.splits)

theorem auto_approve_setting_is_dead:
  "requires_approval (lk_approval (boot_kernel env catalog (start_config False (c\<lparr>cf_approval := (cf_approval c)\<lparr>auto_approve := b\<rparr>\<rparr>)))) tool
    \<longleftrightarrow> tool \<in> set (require_approval (cf_approval c))"
  by (auto simp: boot_kernel_def start_config_def boot_approval requires_approval_def new_approval_manager_def Let_def list_ex_iff)

text \<open>
  The policy of the flag is part of what the kernel started with, so the first reload of the file,
  whatever was changed in it, takes the flag back.
\<close>

lemma boot_mode: "cf_reload_mode (boot_config env c) = cf_reload_mode c"
  by (auto simp: boot_config_def Let_def split: option.splits)

theorem yolo_ends_with_a_reload:
  assumes "reloads_live c" "reload_errors file = []"
    and "field_changed lib (approval_json (cf_approval (start_config True c))) (approval_json (cf_approval file))"
  shows "\<not> requires_approval (lk_approval (boot_kernel env catalog (start_config True c))) tool"
    "requires_approval (lk_approval (reload_step lib auth defaults (boot_kernel env catalog (start_config True c)) (Parsed file))) tool
      \<longleftrightarrow> tool \<in> set (require_approval (cf_approval file))"
proof -
  show "\<not> requires_approval (lk_approval (boot_kernel env catalog (start_config True c))) tool"
    by (simp add: boot_kernel_def start_config_def boot_approval requires_approval_def new_approval_manager_def apply_shorthands_def Let_def)
  have live: "reloads_live (boot_config env (start_config True c))"
    using assms(1) by (simp add: reloads_live_def boot_mode start_config_def)
  have "policy (lk_approval (reload_step lib auth defaults (boot_kernel env catalog (start_config True c)) (Parsed file))) = cf_approval file"
    using assms(2,3) live
    by (simp add: reload_step_effect accepted_def load_config_def lk_config_boot policy_after hot_action_iff boot_approval)
  then show "requires_approval (lk_approval (reload_step lib auth defaults (boot_kernel env catalog (start_config True c)) (Parsed file))) tool
      \<longleftrightarrow> tool \<in> set (require_approval (cf_approval file))"
    by (auto simp: requires_approval_def list_ex_iff)
qed

text \<open>With an address from the environment every reload of an unchanged file asks for a restart.\<close>

theorem listen_override_never_settles:
  assumes "be_listen env = Some listen" "listen \<noteq> cf_api_listen c" "reload_errors c = []"
  shows "reload_status (fst (reload_config lib auth defaults (Parsed c) (boot_kernel env catalog c))) = ''partial''"
proof -
  have "cf_api_listen (boot_config env c) = listen"
    using assms(1) by (auto simp: boot_config_def Let_def split: option.splits)
  then have "restart_required (build_reload_plan lib (boot_config env c) c)"
    using assms(2) by (simp add: build_reload_plan_def restart_checks_def)
  then show ?thesis using assms(3)
    by (simp add: reload_config_def load_config_def validate_config_for_reload_def lk_config_boot reload_status_def Let_def split: prod.split)
qed

text \<open>
  Users, execution policy, bindings, budget, skills and the other sections that are not compared may
  change at will: the reload reports no change, and the endpoint that sets one of them reports it as
  applied.
\<close>

theorem unseen_change_called_applied:
  assumes "reload_errors (lk_config k) = []"
  shows "reload_status (fst (reload_config lib auth defaults (Parsed ((lk_config k)\<lparr>cf_unseen := u\<rparr>)) k)) = ''no_changes''"
    "set_status (fst (reload_config lib auth defaults (Parsed ((lk_config k)\<lparr>cf_unseen := u\<rparr>)) k)) = ''applied''"
    "reload_step lib auth defaults k (Parsed ((lk_config k)\<lparr>cf_unseen := u\<rparr>)) = k"
proof -
  let ?new = "(lk_config k)\<lparr>cf_unseen := u\<rparr>"
  have e: "reload_errors ?new = []" using assms by (simp add: reload_errors_def)
  have p: "build_reload_plan lib (lk_config k) ?new = build_reload_plan lib (lk_config k) (lk_config k)"
    by (simp add: build_reload_plan_def restart_checks_def hot_checks_def noop_checks_def section_changed_def)
  have r: "reload_config lib auth defaults (Parsed ?new) k = (Inr (build_reload_plan lib (lk_config k) (lk_config k)), k)"
    using e by (simp add: reload_config_def load_config_def validate_config_for_reload_def should_apply_iff unchanged_plan Let_def p)
  have n: "deferred_actions (build_reload_plan lib c c) = []" "applied_actions (build_reload_plan lib c c) = []" for c
    by (simp_all add: build_reload_plan_def)
  show "reload_status (fst (reload_config lib auth defaults (Parsed ?new) k)) = ''no_changes''"
    by (simp add: r reload_status_def unchanged_plan n)
  show "set_status (fst (reload_config lib auth defaults (Parsed ?new) k)) = ''applied''"
    by (simp add: r set_status_def unchanged_plan n)
  show "reload_step lib auth defaults k (Parsed ?new) = k" by (simp add: reload_step_def r)
qed

text \<open>No difference of two files leads to a reload of the skills, which are documented to be compared.\<close>

theorem skills_are_never_reloaded:
  "ReloadSkills \<notin> set (hot_actions (build_reload_plan lib old new))"
  by (rule hot_action_iff(6))

text \<open>
  The same addresses of providers, listed in another order by the hash map of the new file, are a
  change that waits for a restart.
\<close>

theorem map_order_is_a_change:
  assumes "rl_to_string lib (json_map (cf_provider_urls (lk_config k))) \<noteq> rl_to_string lib (json_map (rev (cf_provider_urls (lk_config k))))"
    and "reload_errors (lk_config k) = []"
  shows "reload_status (fst (reload_config lib auth defaults
      (Parsed ((lk_config k)\<lparr>cf_provider_urls := rev (cf_provider_urls (lk_config k))\<rparr>)) k)) = ''partial''"
proof -
  let ?new = "(lk_config k)\<lparr>cf_provider_urls := rev (cf_provider_urls (lk_config k))\<rparr>"
  have e: "reload_errors ?new = []" using assms(2) by (simp add: reload_errors_def)
  have a: "hot_actions (build_reload_plan lib (lk_config k) ?new) = [ReloadProviderUrls]"
    using assms(1) by (simp add: build_reload_plan_def hot_checks_def pushed_def field_changed_def section_changed_def)
  show ?thesis
    by (simp add: reload_config_def load_config_def validate_config_for_reload_def e should_apply_iff a Let_def reload_status_def
        apply_hot_action_def)
qed

text \<open>The address of a provider that the file named at the start is the same after every reload.\<close>

theorem listed_provider_url_is_frozen:
  assumes "map_of (cf_provider_urls (boot_config env c)) provider = Some url"
  shows "lookup_provider_url (run (reload_step lib auth defaults) (boot_kernel env catalog c) es) provider = Some url"
  using assms by (simp add: lookup_provider_url_def config_frozen lk_config_boot)

end
